(* ===== verification/Core_Prelude.thy ===== *)
theory Core_Prelude
  imports Main "HOL-Library.Word" "HOL-Library.List_Lexorder"
begin

text \<open>
  Shared vocabulary of the development: the machine integer types the C code uses, the
  faults a C function can run into (a null dereference, a failed \<open>assert\<close>), sequencing of
  computations that may fault, pointers into a message buffer and the \<open>str\<close> descriptors
  (\<open>src/core/str.h\<close>) that are built from them, and the generic list lemmas that several
  components use.
\<close>

section \<open>Machine integers\<close>

type_synonym u8 = "8 word"
type_synonym u16 = "16 word"
type_synonym u32 = "32 word"
type_synonym u64 = "64 word"

section \<open>Faults\<close>

text \<open>
  What the C code does not survive, or C does not define: following a null pointer,
  subtracting one from another pointer, failing an \<open>assert\<close>, calling \<open>abort\<close>, leaving
  an array, or using a block that was freed. Every model function that could reach such a
  point returns a sum, with the fault on the left, and a theorem of the component says when
  none is reached.
\<close>

datatype fault = Null_deref | Null_minus | Assert_failed | Aborted | Out_of_bounds | Freed_block

definition ebind :: "'e + 'a \<Rightarrow> ('a \<Rightarrow> 'e + 'b) \<Rightarrow> 'e + 'b" where
  "ebind m f = (case m of Inl e \<Rightarrow> Inl e | Inr a \<Rightarrow> f a)"

lemma ebind_Inl [simp]: "ebind (Inl e) f = Inl e"
  by (simp add: ebind_def)

lemma ebind_Inr [simp]: "ebind (Inr a) f = f a"
  by (simp add: ebind_def)

lemma ebind_Inr_iff: "ebind m f = Inr b \<longleftrightarrow> (\<exists>a. m = Inr a \<and> f a = Inr b)"
  by (cases m) auto

lemma ebind_assoc: "ebind (ebind m f) g = ebind m (\<lambda>a. ebind (f a) g)"
  by (cases m) auto

text \<open>
  A loop that follows pointers may also not end: its value is an option of such a sum, and
  \<open>None\<close> is the loop that does not return.
\<close>

definition obind :: "('e + 'a) option \<Rightarrow> ('a \<Rightarrow> ('e + 'b) option) \<Rightarrow> ('e + 'b) option" where
  "obind m f = (case m of None \<Rightarrow> None | Some (Inl e) \<Rightarrow> Some (Inl e) | Some (Inr a) \<Rightarrow> f a)"

lemma obind_simps [simp]:
  "obind None f = None" "obind (Some (Inl e)) f = Some (Inl e)" "obind (Some (Inr a)) f = f a"
  by (simp_all add: obind_def)

section \<open>Counted strings\<close>

text \<open>
  \<open>str\<close> of \<open>src/core/str.h\<close>: a pointer and a length. The parsers make them point into
  the buffer they scan (an offset), leave them null, or point them to a literal.
\<close>

datatype ptr = NullP | Buf nat | Static string

datatype cstr = Str (str_s: ptr) (str_len: int)

definition null_str :: cstr where
  "null_str = Str NullP 0"

text \<open>The string from offset \<open>a\<close> up to, not including, offset \<open>b\<close>: \<open>len = b - a\<close>.\<close>

definition span :: "nat \<Rightarrow> nat \<Rightarrow> cstr" where
  "span a b = Str (Buf a) (int b - int a)"

text \<open>A string whose bytes all lie in a buffer of \<open>n\<close> bytes (or in its literal).\<close>

fun in_buf :: "nat \<Rightarrow> cstr \<Rightarrow> bool" where
  "in_buf n (Str NullP l) = (l = 0)"
| "in_buf n (Str (Buf a) l) = (0 \<le> l \<and> int a + l \<le> int n)"
| "in_buf n (Str (Static t) l) = (0 \<le> l \<and> l \<le> int (length t))"

text \<open>The bytes it stands for.\<close>

fun str_bytes :: "string \<Rightarrow> cstr \<Rightarrow> string" where
  "str_bytes buf (Str NullP l) = []"
| "str_bytes buf (Str (Buf a) l) = take (nat l) (drop a buf)"
| "str_bytes buf (Str (Static t) l) = take (nat l) t"

lemma in_buf_null [simp]: "in_buf n null_str"
  by (simp add: null_str_def)

lemma in_buf_span [simp]: "in_buf n (span a b) \<longleftrightarrow> a \<le> b \<and> b \<le> n"
  by (auto simp: span_def)

lemma in_buf_mono: "in_buf n x \<Longrightarrow> n \<le> n' \<Longrightarrow> in_buf n' x"
  by (induction n x rule: in_buf.induct) auto

lemma str_len_null [simp]: "str_len null_str = 0"
  by (simp add: null_str_def)

lemma str_s_null [simp]: "str_s null_str = NullP"
  by (simp add: null_str_def)

lemma str_s_span [simp]: "str_s (span a b) = Buf a"
  by (simp add: span_def)

lemma str_len_span [simp]: "str_len (span a b) = int b - int a"
  by (simp add: span_def)

lemma in_buf_len: "in_buf n x \<Longrightarrow> 0 \<le> str_len x"
  by (induction n x rule: in_buf.induct) auto

section \<open>Characters\<close>

text \<open>\<open>tolower\<close> in the C locale, and \<open>strncasecmp\<close> of equally long byte strings being 0.\<close>

definition lower_char :: "char \<Rightarrow> char" where
  "lower_char c = (if (65::nat) \<le> of_char c \<and> of_char c \<le> (90::nat) then char_of (of_char c + 32 :: nat) else c)"

definition same_nocase :: "string \<Rightarrow> string \<Rightarrow> bool" where
  "same_nocase a b \<longleftrightarrow> map lower_char a = map lower_char b"

text \<open>\<open>q_memchr\<close>: the offset in the buffer of the first such byte of a string.\<close>

fun q_memchr :: "string \<Rightarrow> char \<Rightarrow> cstr \<Rightarrow> nat option" where
  "q_memchr buf c (Str (Buf a) l) =
     (let bs = str_bytes buf (Str (Buf a) l)
      in if c \<in> set bs then Some (a + length (takeWhile (\<lambda>x. x \<noteq> c) bs)) else None)"
| "q_memchr buf c _ = None"

lemma length_takeWhile_neq_less: "c \<in> set bs \<Longrightarrow> length (takeWhile (\<lambda>x. x \<noteq> c) bs) < length bs"
  by (induction bs) auto

lemma q_memchr_bounds:
  "q_memchr buf c x = Some p \<Longrightarrow> \<exists>a l. x = Str (Buf a) l \<and> a \<le> p \<and> int p < int a + l"
proof (induction buf c x rule: q_memchr.induct)
  case (1 buf c a l)
  let ?bs = "str_bytes buf (Str (Buf a) l)"
  from 1 have m: "c \<in> set ?bs" "p = a + length (takeWhile (\<lambda>x. x \<noteq> c) ?bs)"
    by (auto simp: Let_def split: if_splits)
  have "length ?bs \<le> nat l" by simp
  with length_takeWhile_neq_less [OF m(1)] m(2) have "p < a + nat l" by linarith
  with m(2) show ?case by auto
qed auto

section \<open>Lists\<close>

lemma takeWhile_last_split:
  assumes "dropWhile P xs \<noteq> []"
  shows "\<exists>y ys. xs = takeWhile P xs @ y # ys \<and> \<not> P y \<and> dropWhile P xs = y # ys"
  using assms by (metis hd_dropWhile list.collapse takeWhile_dropWhile_id)

end
