(* ===== verification/Avl_Map.thy ===== *)
theory Avl_Map
  imports Core_Prelude
begin

text \<open>
  The ordered map of \<open>src/core/map.c\<close>: an AVL tree with stored balance factors and parent
  pointers, keyed by counted strings. The parent pointers of the C code are the path of a
  zipper here: a place in the tree is the subtree rooted there and the list of its ancestors,
  innermost first, each with the side it is entered from and the sibling subtree. Walking
  \<open>avl_parent\<close> is dropping the head of that list.
\<close>

section \<open>Keys\<close>

text \<open>
  \<open>strncmp\<close> on two buffers of at least \<open>n\<close> bytes: the difference of the first two bytes
  that differ, 0 when there is none among the first \<open>n\<close> or when both strings end with a NUL
  before it. Bytes compare unsigned, as the C library's function does.
\<close>

fun strncmp :: "string \<Rightarrow> string \<Rightarrow> nat \<Rightarrow> int" where
  "strncmp (a # as) (b # bs) (Suc n) =
     (if a \<noteq> b then int (of_char a) - int (of_char b)
      else if of_char a = (0::nat) then 0 else strncmp as bs n)"
| "strncmp _ _ _ = 0"

text \<open>\<open>str_cmp\<close>: the shorter length bounds the comparison, then the lengths decide.\<close>

definition str_cmp :: "string \<Rightarrow> string \<Rightarrow> int" where
  "str_cmp s1 s2 =
     (let ret = strncmp s1 s2 (min (length s1) (length s2))
      in if ret = 0 then int (length s1) - int (length s2) else ret)"

text \<open>
  What \<open>str_cmp\<close> really compares: everything after the first NUL byte of a key is ignored,
  but its length is not. \<open>nkey\<close> is the key with those bytes overwritten by NULs.
\<close>

fun nkey :: "string \<Rightarrow> nat list" where
  "nkey [] = []"
| "nkey (c # cs) =
     (if of_char c = (0::nat) then replicate (Suc (length cs)) 0 else of_char c # nkey cs)"

lemma of_char_nat_eqD: "of_char x = (of_char y :: nat) \<Longrightarrow> x = y"
  by simp

lemma length_nkey [simp]: "length (nkey s) = length s"
  by (induction s) auto

lemma replicate_less_iff: "replicate m (0::nat) < replicate n 0 \<longleftrightarrow> m < n"
proof (induction m arbitrary: n)
  case 0 show ?case by (cases n) auto
next
  case (Suc m) then show ?case by (cases n) auto
qed

lemma str_cmp_sgn_aux:
  "(strncmp a b (min (length a) (length b)) < 0 \<or>
    strncmp a b (min (length a) (length b)) = 0 \<and> length a < length b \<longleftrightarrow> nkey a < nkey b) \<and>
   (strncmp a b (min (length a) (length b)) = 0 \<and> length a = length b \<longleftrightarrow> nkey a = nkey b)"
proof (induction a arbitrary: b)
  case Nil
  show ?case by (cases b) auto
next
  case (Cons x xs)
  show ?case
  proof (cases b)
    case Nil then show ?thesis by auto
  next
    case b: (Cons y ys)
    show ?thesis
    proof (cases "x = y")
      case True
      show ?thesis
      proof (cases "of_char x = (0::nat)")
        case True
        with \<open>x = y\<close> b show ?thesis
          using replicate_less_iff [of "length xs" "length ys"] by auto
      next
        case False
        with \<open>x = y\<close> b Cons.IH [of ys] show ?thesis by auto
      qed
    next
      case False
      then have ne: "of_char x \<noteq> (of_char y :: nat)" by simp
      have "nkey (x # xs) < nkey (y # ys) \<longleftrightarrow> of_char x < (of_char y :: nat)"
        using ne by (cases "of_char x = (0::nat)"; cases "of_char y = (0::nat)") auto
      moreover have "nkey (x # xs) \<noteq> nkey (y # ys)"
        using ne by (cases "of_char x = (0::nat)"; cases "of_char y = (0::nat)") auto
      ultimately show ?thesis using b False ne by simp
    qed
  qed
qed

lemma str_cmp_less_iff: "str_cmp a b < 0 \<longleftrightarrow> nkey a < nkey b"
  using str_cmp_sgn_aux [of a b] by (auto simp: str_cmp_def Let_def)

lemma str_cmp_eq_iff: "str_cmp a b = 0 \<longleftrightarrow> nkey a = nkey b"
  using str_cmp_sgn_aux [of a b] by (auto simp: str_cmp_def Let_def)

lemma str_cmp_greater_iff: "str_cmp a b > 0 \<longleftrightarrow> nkey b < nkey a"
  using str_cmp_less_iff [of a b] str_cmp_eq_iff [of a b] by auto

lemma nkey_inj:
  assumes "\<forall>c \<in> set a. of_char c \<noteq> (0::nat)" "\<forall>c \<in> set b. of_char c \<noteq> (0::nat)"
  shows "nkey a = nkey b \<longleftrightarrow> a = b"
proof -
  have "nkey s = map of_char s" if "\<forall>c \<in> set s. of_char c \<noteq> (0::nat)" for s
    using that by (induction s) auto
  with assms have "nkey a = map of_char a" "nkey b = map of_char b" by blast+
  then show ?thesis using of_char_nat_eqD by (metis inj_map_eq_map injI)
qed

lemmas str_cmp_order = str_cmp_less_iff str_cmp_eq_iff str_cmp_greater_iff

section \<open>The data structure\<close>

text \<open>
  \<open>struct avl_node\<close>: the two links, the key, the value (\<open>None\<close> is the null pointer) and
  the balance factor. \<open>Null\<close> is the null link.
\<close>

datatype 'v avl = Null | Node "'v avl" string "'v option" int "'v avl"

text \<open>The index into \<open>avl_link\<close>: \<open>L\<close> is 0 and \<open>R\<close> is 1.\<close>

datatype dir = L | R

text \<open>
  \<open>Frame d k v b s\<close> is an ancestor reached through \<open>avl_parent\<close>: \<open>d\<close> is the link the
  child hangs on, \<open>k v b\<close> are its key, value and balance and \<open>s\<close> is its other subtree.
\<close>

datatype 'v frame = Frame dir string "'v option" int "'v avl"

type_synonym 'v loc = "'v avl \<times> 'v frame list"

fun plug :: "'v avl \<Rightarrow> 'v frame \<Rightarrow> 'v avl" where
  "plug t (Frame L k v b s) = Node t k v b s"
| "plug t (Frame R k v b s) = Node s k v b t"

fun zip_up :: "'v avl \<Rightarrow> 'v frame list \<Rightarrow> 'v avl" where
  "zip_up t [] = t"
| "zip_up t (f # fs) = zip_up (plug t f) fs"

fun frame_bal :: "'v frame \<Rightarrow> int" where
  "frame_bal (Frame d k v b s) = b"

record 'v map_t =
  flags :: u32
  avl_root :: "'v avl"
  avl_count :: u64
  ret_code :: u32

definition MAP_NO_DUPLICATE :: u32 where
  "MAP_NO_DUPLICATE = 2"

definition no_duplicate :: "'v map_t \<Rightarrow> bool" where
  "no_duplicate m \<longleftrightarrow> and (flags m) MAP_NO_DUPLICATE \<noteq> 0"

text \<open>
  Allocation is the shared memory allocator's business: each \<open>avl_malloc\<close> is a boolean
  argument that says whether it returned memory. \<open>ret_code\<close> is not initialised by
  \<open>map_create\<close>, so its first value is an argument too.
\<close>

definition map_create :: "bool \<Rightarrow> u32 \<Rightarrow> u32 \<Rightarrow> 'v map_t option" where
  "map_create mem garbage fl =
     (if mem then Some \<lparr>flags = fl, avl_root = Null, avl_count = 0, ret_code = garbage\<rparr>
      else None)"

text \<open>The size is a \<open>size_t\<close>, returned as an \<open>int\<close>.\<close>

definition map_size :: "'v map_t \<Rightarrow> int" where
  "map_size m = sint (ucast (avl_count m) :: u32)"

section \<open>Search and insertion\<close>

fun avl_find :: "string \<Rightarrow> 'v avl \<Rightarrow> 'v option option" where
  "avl_find key Null = None"
| "avl_find key (Node l k v b r) =
     (let cmp = str_cmp key k
      in if cmp < 0 then avl_find key l
         else if cmp > 0 then avl_find key r
         else Some v)"

text \<open>
  \<open>map_find\<close> returns the address of the value cell; here, the cell's content if there is
  one.
\<close>

definition map_find :: "'v map_t \<Rightarrow> string \<Rightarrow> 'v option option" where
  "map_find m key = avl_find key (avl_root m)"

text \<open>
  The descent of \<open>map_get\<close> and \<open>map_remove\<close>: it ends at a node with an equal key or at
  the null link where the key belongs, with the ancestors collected.
\<close>

fun avl_search :: "string \<Rightarrow> 'v avl \<Rightarrow> 'v frame list \<Rightarrow> 'v loc" where
  "avl_search key Null path = (Null, path)"
| "avl_search key (Node l k v b r) path =
     (let cmp = str_cmp key k
      in if cmp = 0 then (Node l k v b r, path)
         else if cmp > 0 then avl_search key r (Frame R k v b l # path)
         else avl_search key l (Frame L k v b r # path))"

text \<open>The balance update on the way from the new node up to \<open>y\<close>.\<close>

fun bump :: "'v frame \<Rightarrow> 'v frame" where
  "bump (Frame L k v b s) = Frame L k v (b - 1) s"
| "bump (Frame R k v b s) = Frame R k v (b + 1) s"

text \<open>
  The two double rotations, written out in the code both for insertion and for removal:
  \<open>w\<close>, the inner grandchild, becomes the root.
\<close>

fun double_right :: "'v avl \<Rightarrow> string \<Rightarrow> 'v option \<Rightarrow> 'v avl \<Rightarrow> string \<Rightarrow> 'v option \<Rightarrow> 'v avl
    \<Rightarrow> fault + 'v avl" where
  "double_right xl xk xv (Node wl wk wv wb wr) yk yv yr =
     Inr (Node (Node xl xk xv (if wb = -1 then 0 else if wb = 0 then 0 else -1) wl)
            wk wv 0
            (Node wr yk yv (if wb = -1 then 1 else 0) yr))"
| "double_right xl xk xv Null yk yv yr = Inl Null_deref"

fun double_left :: "'v avl \<Rightarrow> string \<Rightarrow> 'v option \<Rightarrow> 'v avl \<Rightarrow> string \<Rightarrow> 'v option \<Rightarrow> 'v avl
    \<Rightarrow> fault + 'v avl" where
  "double_left yl yk yv (Node wl wk wv wb wr) xk xv xr =
     Inr (Node (Node yl yk yv (if wb = 1 then -1 else 0) wl)
            wk wv 0
            (Node wr xk xv (if wb = 1 then 0 else if wb = 0 then 0 else 1) xr))"
| "double_left yl yk yv Null xk xv xr = Inl Null_deref"

text \<open>The rebalancing of \<open>map_get\<close> at \<open>y\<close>.\<close>

fun avl_ins_rot :: "'v avl \<Rightarrow> fault + 'v avl" where
  "avl_ins_rot Null = Inl Null_deref"
| "avl_ins_rot (Node yl yk yv yb yr) =
     (if yb = -2 then
        (case yl of
           Null \<Rightarrow> Inl Null_deref
         | Node xl xk xv xb xr \<Rightarrow>
             if xb = -1 then Inr (Node xl xk xv 0 (Node xr yk yv 0 yr))
             else if xb \<noteq> 1 then Inl Assert_failed
             else double_right xl xk xv xr yk yv yr)
      else if yb = 2 then
        (case yr of
           Null \<Rightarrow> Inl Null_deref
         | Node xl xk xv xb xr \<Rightarrow>
             if xb = 1 then Inr (Node (Node yl yk yv 0 xl) xk xv 0 xr)
             else if xb \<noteq> -1 then Inl Assert_failed
             else double_left yl yk yv xl xk xv xr)
      else Inr (Node yl yk yv yb yr))"

text \<open>
  Linking a new node at the place the search ended and rebalancing. \<open>y\<close> is the innermost
  ancestor with a nonzero balance factor, or the root when there is none: the ancestors
  below it (\<open>takeWhile\<close>) and \<open>y\<close> itself get their balance updated, the ones above
  (\<open>drop 1\<close>) are only linked to the new root of the rotated subtree.
\<close>

definition avl_insert_at :: "'v avl \<Rightarrow> 'v frame list \<Rightarrow> fault + 'v avl" where
  "avl_insert_at n path =
     (if path = [] then Inr n
      else let below = takeWhile (\<lambda>f. frame_bal f = 0) path;
               rest = dropWhile (\<lambda>f. frame_bal f = 0) path;
               y = zip_up n (map bump (below @ take 1 rest))
           in ebind (avl_ins_rot y) (\<lambda>w. Inr (zip_up w (drop 1 rest))))"

text \<open>
  \<open>map_get\<close>: the cell of an existing key, or that of a new node with a null value. The
  returned address is represented by the key of the node it lies in. The copy of the key
  is allocated without a check: a failure there is a \<open>memcpy\<close> to a null pointer, unless
  there is nothing to copy.
\<close>

definition map_get :: "bool \<Rightarrow> bool \<Rightarrow> 'v map_t \<Rightarrow> string \<Rightarrow> fault + 'v map_t \<times> string option"
  where
  "map_get mem_node mem_key m key =
     (case avl_search key (avl_root m) [] of
        (Node _ _ _ _ _, _) \<Rightarrow> Inr (m, Some key)
      | (Null, path) \<Rightarrow>
          if \<not> mem_node then Inr (m, None)
          else if \<not> no_duplicate m \<and> \<not> mem_key \<and> key \<noteq> [] then Inl Null_deref
          else ebind (avl_insert_at (Node Null key None 0 Null) path)
                 (\<lambda>t. Inr (m\<lparr>avl_count := avl_count m + 1, avl_root := t\<rparr>, Some key)))"

text \<open>Writing through the address of a value cell.\<close>

fun cell_write :: "string \<Rightarrow> 'v option \<Rightarrow> 'v avl \<Rightarrow> 'v avl" where
  "cell_write key x Null = Null"
| "cell_write key x (Node l k v b r) =
     (let cmp = str_cmp key k
      in if cmp < 0 then Node (cell_write key x l) k v b r
         else if cmp > 0 then Node l k v b (cell_write key x r)
         else Node l k x b r)"

definition cell_read :: "'v map_t \<Rightarrow> string \<Rightarrow> 'v option" where
  "cell_read m key = (case avl_find key (avl_root m) of None \<Rightarrow> None | Some v \<Rightarrow> v)"

definition map_put :: "bool \<Rightarrow> bool \<Rightarrow> 'v map_t \<Rightarrow> string \<Rightarrow> 'v option
    \<Rightarrow> fault + 'v map_t \<times> 'v option" where
  "map_put mem_node mem_key m key item =
     ebind (map_get mem_node mem_key m key) (\<lambda>(m', p).
       case p of
         None \<Rightarrow> Inr (m', None)
       | Some k \<Rightarrow>
           let ret = cell_read m' k
           in Inr (m'\<lparr>avl_root := cell_write k item (avl_root m')\<rparr>,
                   if ret = item then None else ret))"

section \<open>Removal\<close>

text \<open>The walk down the left links, as in removal and in the iterators.\<close>

fun avl_leftmost :: "'v avl \<Rightarrow> 'v frame list \<Rightarrow> 'v loc" where
  "avl_leftmost Null path = (Null, path)"
| "avl_leftmost (Node l k v b r) path =
     (if l = Null then (Node l k v b r, path) else avl_leftmost l (Frame L k v b r # path))"

fun avl_rightmost :: "'v avl \<Rightarrow> 'v frame list \<Rightarrow> 'v loc" where
  "avl_rightmost Null path = (Null, path)"
| "avl_rightmost (Node l k v b r) path =
     (if r = Null then (Node l k v b r, path) else avl_rightmost r (Frame R k v b l # path))"

text \<open>
  Unlinking the node \<open>p\<close>: what takes its place, and the place (\<open>q\<close>, \<open>dir\<close>) whose
  subtree became one shorter, which is where rebalancing starts.
\<close>

fun avl_unlink :: "'v loc \<Rightarrow> fault + 'v loc" where
  "avl_unlink (Null, path) = Inl Null_deref"
| "avl_unlink (Node l k v b r, path) =
     (case r of
        Null \<Rightarrow> Inr (l, path)
      | Node rl rk rv rb rr \<Rightarrow>
          if rl = Null then Inr (rr, Frame R rk rv b l # path)
          else (case avl_leftmost rl [] of
                  (Null, _) \<Rightarrow> Inl Null_deref
                | (Node _ sk sv _ sr, spath) \<Rightarrow>
                    Inr (sr, spath @ Frame L rk rv rb rr # Frame R sk sv b l # path)))"

text \<open>The rebalancing loop of \<open>delete_node\<close>, from \<open>q\<close> up to the root.\<close>

fun avl_del_fix :: "'v avl \<Rightarrow> 'v frame list \<Rightarrow> fault + 'v avl" where
  "avl_del_fix h [] = Inr h"
| "avl_del_fix h (Frame L k v b s # fs) =
     (let b' = b + 1
      in if b' = 1 then Inr (zip_up (Node h k v b' s) fs)
         else if b' = 2 then
           (case s of
              Null \<Rightarrow> Inl Null_deref
            | Node xl xk xv xb xr \<Rightarrow>
                if xb = -1 then
                  ebind (double_left h k v xl xk xv xr) (\<lambda>w. avl_del_fix w fs)
                else if xb = 0 then
                  Inr (zip_up (Node (Node h k v 1 xl) xk xv (-1) xr) fs)
                else avl_del_fix (Node (Node h k v 0 xl) xk xv 0 xr) fs)
         else avl_del_fix (Node h k v b' s) fs)"
| "avl_del_fix h (Frame R k v b s # fs) =
     (let b' = b - 1
      in if b' = -1 then Inr (zip_up (Node s k v b' h) fs)
         else if b' = -2 then
           (case s of
              Null \<Rightarrow> Inl Null_deref
            | Node xl xk xv xb xr \<Rightarrow>
                if xb = 1 then
                  ebind (double_right xl xk xv xr k v h) (\<lambda>w. avl_del_fix w fs)
                else if xb = 0 then
                  Inr (zip_up (Node xl xk xv 1 (Node xr k v (-1) h)) fs)
                else avl_del_fix (Node xl xk xv 0 (Node xr k v 0 h)) fs)
         else avl_del_fix (Node s k v b' h) fs)"

fun loc_val :: "'v loc \<Rightarrow> 'v option" where
  "loc_val (Node l k v b r, path) = v"
| "loc_val (Null, path) = None"

definition delete_node :: "'v map_t \<Rightarrow> 'v loc \<Rightarrow> fault + 'v map_t \<times> 'v option" where
  "delete_node m p =
     ebind (avl_unlink p) (\<lambda>(h, path).
       ebind (avl_del_fix h path) (\<lambda>t.
         Inr (m\<lparr>avl_root := t, avl_count := avl_count m - 1\<rparr>, loc_val p)))"

definition map_remove :: "'v map_t \<Rightarrow> string \<Rightarrow> fault + 'v map_t \<times> 'v option" where
  "map_remove m key =
     (if avl_root m = Null then Inr (m, None)
      else case avl_search key (avl_root m) [] of
             (Null, _) \<Rightarrow> Inr (m, None)
           | (Node l k v b r, path) \<Rightarrow> delete_node m (Node l k v b r, path))"

section \<open>Contents and balance of a tree\<close>

fun inorder :: "'v avl \<Rightarrow> (string \<times> 'v option) list" where
  "inorder Null = []"
| "inorder (Node l k v b r) = inorder l @ (k, v) # inorder r"

fun height :: "'v avl \<Rightarrow> nat" where
  "height Null = 0"
| "height (Node l k v b r) = Suc (max (height l) (height r))"

fun nodes :: "'v avl \<Rightarrow> nat" where
  "nodes Null = 0"
| "nodes (Node l k v b r) = Suc (nodes l + nodes r)"

text \<open>The stored factor is right minus left, and never beyond one.\<close>

fun avl_bal :: "'v avl \<Rightarrow> bool" where
  "avl_bal Null = True"
| "avl_bal (Node l k v b r) =
     (b = int (height r) - int (height l) \<and> -1 \<le> b \<and> b \<le> 1 \<and> avl_bal l \<and> avl_bal r)"

definition ascending :: "(string \<times> 'v option) list \<Rightarrow> bool" where
  "ascending kvs = sorted_wrt (<) (map (\<lambda>kv. nkey (fst kv)) kvs)"

definition avl_ok :: "'v avl \<Rightarrow> bool" where
  "avl_ok t \<longleftrightarrow> avl_bal t \<and> ascending (inorder t)"

text \<open>The invariant of a map: a balanced ordered tree whose size is what it says it is.\<close>

definition map_ok :: "'v map_t \<Rightarrow> bool" where
  "map_ok m \<longleftrightarrow> avl_ok (avl_root m) \<and> avl_count m = of_nat (nodes (avl_root m))"

text \<open>The finite map a tree stands for, on the bytes of a key that count.\<close>

definition avl_abs :: "'v avl \<Rightarrow> nat list \<rightharpoonup> 'v option" where
  "avl_abs t = map_of (map (\<lambda>(k, v). (nkey k, v)) (inorder t))"

lemma length_inorder: "length (inorder t) = nodes t"
  by (induction t) auto

lemma nodes_0_iff: "nodes t = 0 \<longleftrightarrow> t = Null"
  by (cases t) auto

lemma height_0_iff [simp]: "height t = 0 \<longleftrightarrow> t = Null"
  by (cases t) auto

lemma height_SucE:
  assumes "0 < height t"
  obtains l k v b r where "t = Node l k v b r"
  using assms by (cases t) auto

text \<open>What lies before and after a place in key order.\<close>

fun lctx :: "'v frame list \<Rightarrow> (string \<times> 'v option) list" where
  "lctx [] = []"
| "lctx (Frame L k v b s # fs) = lctx fs"
| "lctx (Frame R k v b s # fs) = lctx fs @ inorder s @ [(k, v)]"

fun rctx :: "'v frame list \<Rightarrow> (string \<times> 'v option) list" where
  "rctx [] = []"
| "rctx (Frame L k v b s # fs) = (k, v) # inorder s @ rctx fs"
| "rctx (Frame R k v b s # fs) = rctx fs"

lemma inorder_zip_up: "inorder (zip_up t path) = lctx path @ inorder t @ rctx path"
proof (induction path arbitrary: t)
  case Nil show ?case by simp
next
  case (Cons f fs)
  obtain d k v b s where "f = Frame d k v b s" by (cases f)
  with Cons show ?case by (cases d) auto
qed

lemma zip_up_append: "zip_up t (p @ q) = zip_up (zip_up t p) q"
  by (induction p arbitrary: t) auto

lemma lctx_append: "lctx (p @ q) = lctx q @ lctx p"
  by (induction p rule: lctx.induct) auto

lemma rctx_append: "rctx (p @ q) = rctx p @ rctx q"
  by (induction p rule: rctx.induct) auto

lemma lctx_bump [simp]: "lctx (map bump p) = lctx p"
  by (induction p rule: lctx.induct) auto

lemma rctx_bump [simp]: "rctx (map bump p) = rctx p"
  by (induction p rule: rctx.induct) auto

text \<open>
  A path is balanced for a subtree of height \<open>h\<close> at its end: putting an AVL tree of that
  height there gives an AVL tree.
\<close>

fun ok_path :: "nat \<Rightarrow> 'v frame list \<Rightarrow> bool" where
  "ok_path h [] = True"
| "ok_path h (Frame d k v b s # fs) =
     (avl_bal s \<and> b = (if d = L then int (height s) - int h else int h - int (height s)) \<and>
      -1 \<le> b \<and> b \<le> 1 \<and> ok_path (Suc (max h (height s))) fs)"

lemma avl_zip_up: "avl_bal (zip_up t path) \<longleftrightarrow> avl_bal t \<and> ok_path (height t) path"
proof (induction path arbitrary: t)
  case Nil show ?case by simp
next
  case (Cons f fs)
  obtain d k v b s where "f = Frame d k v b s" by (cases f)
  with Cons show ?case by (cases d) (auto simp: max.commute)
qed

fun path_height :: "nat \<Rightarrow> 'v frame list \<Rightarrow> nat" where
  "path_height h [] = h"
| "path_height h (Frame d k v b s # fs) = path_height (Suc (max h (height s))) fs"

lemma height_zip_up: "height (zip_up t path) = path_height (height t) path"
proof (induction path arbitrary: t)
  case Nil show ?case by simp
next
  case (Cons f fs)
  obtain d k v b s where "f = Frame d k v b s" by (cases f)
  with Cons show ?case by (cases d) (auto simp: max.commute)
qed

lemma ok_path_append: "ok_path h (p @ q) \<longleftrightarrow> ok_path h p \<and> ok_path (path_height h p) q"
proof (induction p arbitrary: h)
  case Nil show ?case by simp
next
  case (Cons f fs)
  obtain d k v b s where "f = Frame d k v b s" by (cases f)
  with Cons show ?case by auto
qed

section \<open>Searching\<close>

lemma avl_search_zip_up:
  "avl_search key t path = (t', path') \<Longrightarrow> zip_up t' path' = zip_up t path"
  by (induction key t path rule: avl_search.induct) (auto simp: Let_def split: if_splits)

lemma avl_search_Node:
  "avl_search key t path = (Node l k v b r, path') \<Longrightarrow> str_cmp key k = 0"
  by (induction key t path rule: avl_search.induct) (auto simp: Let_def split: if_splits)

lemma ascending_append:
  "ascending (xs @ ys) \<longleftrightarrow> ascending xs \<and> ascending ys \<and>
     (\<forall>x \<in> set xs. \<forall>y \<in> set ys. nkey (fst x) < nkey (fst y))"
  by (auto simp: ascending_def sorted_wrt_append)

lemma ascending_Cons:
  "ascending (x # ys) \<longleftrightarrow> ascending ys \<and> (\<forall>y \<in> set ys. nkey (fst x) < nkey (fst y))"
  by (auto simp: ascending_def)

lemma ascending_Nil [simp]: "ascending []"
  by (simp add: ascending_def)

lemmas ascending_simps = ascending_append ascending_Cons

lemma avl_search_order:
  assumes "avl_search key t path = (t', path')"
    and "ascending (lctx path @ inorder t @ rctx path)"
    and "\<forall>x \<in> set (lctx path). nkey (fst x) < nkey key"
    and "\<forall>x \<in> set (rctx path). nkey key < nkey (fst x)"
  shows "(\<forall>x \<in> set (lctx path'). nkey (fst x) < nkey key) \<and>
         (\<forall>x \<in> set (rctx path'). nkey key < nkey (fst x))"
  using assms
proof (induction key t path arbitrary: t' path' rule: avl_search.induct)
  case (1 key path)
  then show ?case by simp
next
  case (2 key l k v b r path)
  consider (eq) "str_cmp key k = 0" | (gt) "str_cmp key k > 0" | (lt) "str_cmp key k < 0"
    by linarith
  then show ?case
  proof cases
    case eq
    with 2 show ?thesis by (auto simp: Let_def)
  next
    case gt
    let ?p = "Frame R k v b l # path"
    have k: "nkey k < nkey key" using gt by (simp add: str_cmp_order)
    have "\<forall>x \<in> set (inorder l). nkey (fst x) < nkey k"
      using "2.prems"(2) by (auto simp: ascending_simps)
    with k "2.prems"(3) have "\<forall>x \<in> set (lctx ?p). nkey (fst x) < nkey key"
      by (auto intro: less_trans)
    moreover have "avl_search key r ?p = (t', path')" using gt "2.prems"(1) by simp
    ultimately show ?thesis using "2.IH"(1) [OF refl] gt "2.prems"(2,4) by simp
  next
    case lt
    let ?p = "Frame L k v b r # path"
    have k: "nkey key < nkey k" using lt by (simp add: str_cmp_order)
    have "\<forall>x \<in> set (inorder r). nkey k < nkey (fst x)"
      using "2.prems"(2) by (auto simp: ascending_simps)
    with k "2.prems"(4) have "\<forall>x \<in> set (rctx ?p). nkey key < nkey (fst x)"
      by (auto intro: less_trans)
    moreover have "avl_search key l ?p = (t', path')" using lt "2.prems"(1) by simp
    ultimately show ?thesis using "2.IH"(2) [OF refl] lt "2.prems"(2,3) by simp
  qed
qed

lemma avl_abs_None:
  assumes "\<forall>x \<in> set (inorder t). nkey (fst x) \<noteq> nk"
  shows "avl_abs t nk = None"
  using assms by (auto simp: avl_abs_def map_of_eq_None_iff)

lemma avl_abs_Node:
  assumes "ascending (inorder (Node l k v b r))"
  shows "avl_abs (Node l k v b r) nk =
    (if nk < nkey k then avl_abs l nk else if nk = nkey k then Some v else avl_abs r nk)"
proof -
  have l: "\<forall>x \<in> set (inorder l). nkey (fst x) < nkey k"
    and r: "\<forall>x \<in> set (inorder r). nkey k < nkey (fst x)"
    using assms by (auto simp: ascending_simps)
  have *: "avl_abs (Node l k v b r) nk =
      (case avl_abs l nk of Some y \<Rightarrow> Some y
       | None \<Rightarrow> if nk = nkey k then Some v else avl_abs r nk)"
    by (auto simp: avl_abs_def map_add_def split: option.split)
  have "\<not> nk < nkey k \<Longrightarrow> avl_abs l nk = None"
    using l by (intro avl_abs_None) auto
  moreover have "\<not> nkey k < nk \<Longrightarrow> avl_abs r nk = None"
    using r by (intro avl_abs_None) auto
  ultimately show ?thesis using * by (auto split: option.splits)
qed

lemma avl_find_abs: "ascending (inorder t) \<Longrightarrow> avl_find key t = avl_abs t (nkey key)"
proof (induction t)
  case Null
  show ?case by (simp add: avl_abs_def)
next
  case (Node l k v b r)
  have "ascending (inorder l)" "ascending (inorder r)"
    using Node.prems by (auto simp: ascending_simps)
  with Node.IH show ?case
    by (auto simp: Let_def str_cmp_order avl_abs_Node [OF Node.prems])
qed

section \<open>Insertion keeps the invariant\<close>

lemma bump_below:
  assumes "avl_bal n" "height n = Suc h" "ok_path h below" "\<forall>f \<in> set below. frame_bal f = 0"
  shows "avl_bal (zip_up n (map bump below)) \<and>
    height (zip_up n (map bump below)) = Suc (path_height h below)"
  using assms
proof (induction below arbitrary: n h)
  case Nil then show ?case by simp
next
  case (Cons f fs)
  obtain d k v b s where f: "f = Frame d k v b s" by (cases f)
  with Cons.prems have s: "b = 0" "height s = h" "avl_bal s"
    by (auto split: if_splits)
  have "avl_bal (plug n (bump f))" "height (plug n (bump f)) = Suc (Suc h)"
    using f s Cons.prems(1,2) by (cases d; simp)+
  with Cons.IH [of "plug n (bump f)" "Suc h"] Cons.prems f s show ?case by simp
qed

lemma bump_root:
  assumes "below \<noteq> []" "\<forall>f \<in> set below. frame_bal f = 0"
  shows "\<exists>l k v b r. zip_up n (map bump below) = Node l k v b r \<and> (b = 1 \<or> b = -1)"
proof -
  from assms(1) obtain fs f where below: "below = fs @ [f]" by (metis rev_exhaust)
  obtain d k v b s where f: "f = Frame d k v b s" by (cases f)
  with assms(2) below have "b = 0" by simp
  with below f show ?thesis by (cases d) (auto simp: zip_up_append)
qed

lemma double_right_ok:
  assumes "avl_bal xl" "avl_bal xr" "avl_bal yr" "height xr = Suc (height xl)"
    "height xl = height yr"
  shows "\<exists>w. double_right xl xk xv xr yk yv yr = Inr w \<and> avl_bal w \<and>
    height w = Suc (Suc (height yr)) \<and>
    inorder w = inorder xl @ (xk, xv) # inorder xr @ (yk, yv) # inorder yr"
proof -
  obtain wl wk wv wb wr where "xr = Node wl wk wv wb wr"
    using assms(4) by (cases xr) auto
  with assms show ?thesis by (auto simp: max_def split: if_splits)
qed

lemma double_left_ok:
  assumes "avl_bal yl" "avl_bal xl" "avl_bal xr" "height xl = Suc (height xr)"
    "height xr = height yl"
  shows "\<exists>w. double_left yl yk yv xl xk xv xr = Inr w \<and> avl_bal w \<and>
    height w = Suc (Suc (height yl)) \<and>
    inorder w = inorder yl @ (yk, yv) # inorder xl @ (xk, xv) # inorder xr"
proof -
  obtain wl wk wv wb wr where "xl = Node wl wk wv wb wr"
    using assms(4) by (cases xl) auto
  with assms show ?thesis by (auto simp: max_def split: if_splits)
qed

lemma avl_ins_rot_left:
  assumes "avl_bal (Node l k v b r)" "b = 1 \<or> b = -1" "avl_bal s"
    "height (Node l k v b r) = height s + 2"
  shows "\<exists>w. avl_ins_rot (Node (Node l k v b r) yk yv (-2) s) = Inr w \<and> avl_bal w \<and>
    height w = height s + 2 \<and> inorder w = inorder (Node l k v b r) @ (yk, yv) # inorder s"
proof (cases "b = -1")
  case True
  with assms show ?thesis by auto
next
  case False
  with assms have "b = 1" by simp
  with assms double_right_ok [of l r s k v yk yv] show ?thesis by auto
qed

lemma avl_ins_rot_right:
  assumes "avl_bal (Node l k v b r)" "b = 1 \<or> b = -1" "avl_bal s"
    "height (Node l k v b r) = height s + 2"
  shows "\<exists>w. avl_ins_rot (Node s yk yv 2 (Node l k v b r)) = Inr w \<and> avl_bal w \<and>
    height w = height s + 2 \<and> inorder w = inorder s @ (yk, yv) # inorder (Node l k v b r)"
proof (cases "b = 1")
  case True
  with assms show ?thesis by auto
next
  case False
  with assms have "b = -1" by simp
  with assms double_left_ok [of s l r yk yv k v] show ?thesis by auto
qed

text \<open>Rebalancing at \<open>y\<close> restores the height the subtree had before the insertion.\<close>

lemma avl_ins_rot_y:
  assumes x: "avl_bal x" "height x = Suc h" "h = 0 \<or> (\<exists>l k v b r. x = Node l k v b r \<and> (b = 1 \<or> b = -1))"
    and f: "ok_path h [f]" "frame_bal f \<noteq> 0"
  shows "\<exists>w. avl_ins_rot (plug x (bump f)) = Inr w \<and> avl_bal w \<and>
    height w = path_height h [f] \<and> inorder w = inorder (plug x f)"
proof -
  obtain d k v b s where fr: "f = Frame d k v b s" by (cases f)
  then have s: "avl_bal s" and b: "b = 1 \<or> b = -1" using f by auto
  show ?thesis
  proof (cases d)
    case L
    show ?thesis
    proof (cases "b = 1")
      case True
      with L fr f x s show ?thesis by (auto simp: max_def)
    next
      case False
      with b L fr f have bm: "b = -1" and h: "h = Suc (height s)" by auto
      with x(3) obtain l' k' v' b' r' where "x = Node l' k' v' b' r'" "b' = 1 \<or> b' = -1" by auto
      with avl_ins_rot_left [of l' k' v' b' r' s k v] x s bm h L fr show ?thesis
        by (auto simp: max_def)
    qed
  next
    case R
    show ?thesis
    proof (cases "b = -1")
      case True
      with R fr f x s show ?thesis by (auto simp: max_def)
    next
      case False
      with b R fr f have bm: "b = 1" and h: "h = Suc (height s)" by auto
      with x(3) obtain l' k' v' b' r' where "x = Node l' k' v' b' r'" "b' = 1 \<or> b' = -1" by auto
      with avl_ins_rot_right [of l' k' v' b' r' s k v] x s bm h R fr show ?thesis
        by (auto simp: max_def)
    qed
  qed
qed

lemma avl_ins_rot_id: "b \<noteq> 2 \<Longrightarrow> b \<noteq> -2 \<Longrightarrow> avl_ins_rot (Node l k v b r) = Inr (Node l k v b r)"
  by simp

lemma avl_insert_at_ok:
  assumes path: "ok_path 0 path"
  shows "\<exists>t. avl_insert_at (Node Null key x 0 Null) path = Inr t \<and> avl_bal t \<and>
    inorder t = lctx path @ (key, x) # rctx path"
proof -
  let ?z = "\<lambda>f. frame_bal f = 0" and ?n = "Node Null key x 0 Null"
  let ?below = "takeWhile ?z path"
  have zero: "\<forall>f \<in> set ?below. frame_bal f = 0" by (auto dest: set_takeWhileD)
  have parts: "path = ?below @ dropWhile ?z path" by simp
  let ?x = "zip_up ?n (map bump ?below)"
  have below: "ok_path 0 ?below" "ok_path (path_height 0 ?below) (dropWhile ?z path)"
    using path parts ok_path_append by (metis)+
  have x: "avl_bal ?x" "height ?x = Suc (path_height 0 ?below)"
    using bump_below [of ?n 0 ?below] below zero by auto
  have x_in: "inorder ?x = lctx ?below @ (key, x) # rctx ?below"
    by (simp add: inorder_zip_up)
  show ?thesis
  proof (cases "dropWhile ?z path")
    case Nil
    then have b: "?below = path" using parts by simp
    show ?thesis
    proof (cases "path = []")
      case True then show ?thesis by (simp add: avl_insert_at_def)
    next
      case False
      have "?below \<noteq> []" using False by (simp only: b not_False_eq_True)
      from bump_root [OF this zero, of ?n] obtain l k v b r
        where "?x = Node l k v b r" "b = 1 \<or> b = -1" by blast
      then have rot: "avl_ins_rot ?x = Inr ?x" by auto
      have "avl_insert_at ?n path = Inr ?x"
        using False by (simp only: avl_insert_at_def Let_def Nil if_False take_Nil drop_Nil
            append_Nil2 rot ebind_Inr zip_up.simps)
      moreover have "inorder ?x = lctx path @ (key, x) # rctx path"
        by (rule trans [OF x_in]) (simp only: b)
      ultimately show ?thesis using x(1) by blast
    qed
  next
    case (Cons f above)
    have nz: "frame_bal f \<noteq> 0" using hd_dropWhile [of ?z path] Cons by simp
    have "?below = [] \<Longrightarrow> path_height 0 ?below = 0" by simp
    then have root: "path_height 0 ?below = 0 \<or>
        (\<exists>l k v b r. ?x = Node l k v b r \<and> (b = 1 \<or> b = -1))"
      using bump_root [of ?below ?n] zero by blast
    have okf: "ok_path (path_height 0 ?below) [f]" "ok_path (path_height (path_height 0 ?below) [f]) above"
      using below(2) Cons ok_path_append [of _ "[f]" above] by auto
    obtain w where w: "avl_ins_rot (plug ?x (bump f)) = Inr w" "avl_bal w"
        "height w = path_height (path_height 0 ?below) [f]" "inorder w = inorder (plug ?x f)"
      using avl_ins_rot_y [OF x root okf(1) nz] by blast
    have "path \<noteq> []" using Cons by auto
    then have res: "avl_insert_at ?n path = Inr (zip_up w above)"
      using Cons w(1) by (simp add: avl_insert_at_def Let_def zip_up_append)
    have "avl_bal (zip_up w above)" using w okf(2) by (simp add: avl_zip_up)
    moreover have "inorder (zip_up w above) = lctx path @ (key, x) # rctx path"
    proof -
      have "inorder (zip_up w above) = inorder (zip_up (plug ?x f) above)"
        by (simp add: inorder_zip_up w(4))
      also have "\<dots> = inorder (zip_up ?x (f # above))" by simp
      also have "\<dots> = lctx (?below @ f # above) @ (key, x) # rctx (?below @ f # above)"
        by (simp only: inorder_zip_up lctx_append rctx_append append_assoc append_Cons
            lctx_bump rctx_bump inorder.simps append_Nil)
      finally show ?thesis using Cons parts by simp
    qed
    ultimately show ?thesis using res by blast
  qed
qed

section \<open>Removal keeps the invariant\<close>

text \<open>
  A place whose subtree is one shorter than its ancestors' balance factors say: where
  \<open>avl_del_fix\<close> may start, and what it keeps from ancestor to ancestor.
\<close>

lemma avl_del_fix_ok:
  assumes "avl_bal h" "ok_path (Suc (height h)) path"
  shows "\<exists>t. avl_del_fix h path = Inr t \<and> avl_bal t \<and>
    inorder t = lctx path @ inorder h @ rctx path"
  using assms
proof (induction h path rule: avl_del_fix.induct)
  case (1 h)
  then show ?case by simp
next
  case (2 h k v b s fs)
  have s: "avl_bal s" "b = int (height s) - int (Suc (height h))" "-1 \<le> b" "b \<le> 1"
    and fs: "ok_path (Suc (max (Suc (height h)) (height s))) fs"
    using "2.prems"(2) by auto
  consider (even) "b = 0" | (right) "b = 1" | (left) "b = -1" using s by linarith
  then show ?case
  proof cases
    case even
    with s fs "2.prems"(1) show ?thesis
      by (auto simp: avl_zip_up inorder_zip_up max_def)
  next
    case left
    with s have hs: "height s = height h" by simp
    with left fs "2.IH"(3) [OF refl] s "2.prems"(1) show ?thesis by auto
  next
    case right
    with s have hs: "height s = Suc (Suc (height h))" by simp
    then obtain xl xk xv xb xr where x: "s = Node xl xk xv xb xr" by (cases s) auto
    consider (m) "xb = -1" | (z) "xb = 0" | (p) "xb = 1" using s(1) x by (auto; linarith)
    then show ?thesis
    proof cases
      case m
      with x s(1) hs have "height xl = Suc (height xr)" "height xr = height h"
        "avl_bal xl" "avl_bal xr" by (auto simp: max_def split: if_splits)
      with double_left_ok [of h xl xr k v xk xv] "2.prems"(1) obtain w where
        w: "double_left h k v xl xk xv xr = Inr w" "avl_bal w" "height w = Suc (Suc (height h))"
          "inorder w = inorder h @ (k, v) # inorder xl @ (xk, xv) # inorder xr" by blast
      with "2.IH"(1) [OF refl _ _ x m, of w] right fs hs m x show ?thesis
        by (auto simp: max_def)
    next
      case z
      with x s(1) hs have "height xl = Suc (height h)" "height xr = Suc (height h)"
        "avl_bal xl" "avl_bal xr" by (auto simp: max_def split: if_splits)
      with z right x fs hs "2.prems"(1) show ?thesis
        by (auto simp: avl_zip_up inorder_zip_up max_def)
    next
      case p
      with x s(1) hs have "height xl = height h" "height xr = Suc (height h)"
        "avl_bal xl" "avl_bal xr" by (auto simp: max_def split: if_splits)
      with "2.IH"(2) [OF refl _ _ x] p right fs hs x "2.prems"(1) show ?thesis
        by (auto simp: max_def)
    qed
  qed
next
  case (3 h k v b s fs)
  have s: "avl_bal s" "b = int (Suc (height h)) - int (height s)" "-1 \<le> b" "b \<le> 1"
    and fs: "ok_path (Suc (max (Suc (height h)) (height s))) fs"
    using "3.prems"(2) by auto
  consider (even) "b = 0" | (left) "b = -1" | (right) "b = 1" using s by linarith
  then show ?case
  proof cases
    case even
    with s fs "3.prems"(1) show ?thesis
      by (auto simp: avl_zip_up inorder_zip_up max_def)
  next
    case right
    with s have hs: "height s = height h" by simp
    with right fs "3.IH"(3) [OF refl] s "3.prems"(1) show ?thesis by auto
  next
    case left
    with s have hs: "height s = Suc (Suc (height h))" by simp
    then obtain xl xk xv xb xr where x: "s = Node xl xk xv xb xr" by (cases s) auto
    consider (m) "xb = 1" | (z) "xb = 0" | (p) "xb = -1" using s(1) x by (auto; linarith)
    then show ?thesis
    proof cases
      case m
      with x s(1) hs have "height xr = Suc (height xl)" "height xl = height h"
        "avl_bal xl" "avl_bal xr" by (auto simp: max_def split: if_splits)
      with double_right_ok [of xl xr h xk xv k v] "3.prems"(1) obtain w where
        w: "double_right xl xk xv xr k v h = Inr w" "avl_bal w" "height w = Suc (Suc (height h))"
          "inorder w = inorder xl @ (xk, xv) # inorder xr @ (k, v) # inorder h" by blast
      with "3.IH"(1) [OF refl _ _ x m, of w] left fs hs m x show ?thesis
        by (auto simp: max_def)
    next
      case z
      with x s(1) hs have "height xl = Suc (height h)" "height xr = Suc (height h)"
        "avl_bal xl" "avl_bal xr" by (auto simp: max_def split: if_splits)
      with z left x fs hs "3.prems"(1) show ?thesis
        by (auto simp: avl_zip_up inorder_zip_up max_def)
    next
      case p
      with x s(1) hs have "height xr = height h" "height xl = Suc (height h)"
        "avl_bal xl" "avl_bal xr" by (auto simp: max_def split: if_splits)
      with "3.IH"(2) [OF refl _ _ x] p left fs hs x "3.prems"(1) show ?thesis
        by (auto simp: max_def)
    qed
  qed
qed

lemma avl_leftmost_zip_up: "avl_leftmost t path = (t', path') \<Longrightarrow> zip_up t' path' = zip_up t path"
  by (induction t path rule: avl_leftmost.induct) (auto split: if_splits)

lemma avl_rightmost_zip_up: "avl_rightmost t path = (t', path') \<Longrightarrow> zip_up t' path' = zip_up t path"
  by (induction t path rule: avl_rightmost.induct) (auto split: if_splits)

lemma avl_leftmost_shape:
  "t \<noteq> Null \<Longrightarrow> \<exists>k v b r path'. avl_leftmost t path = (Node Null k v b r, path') \<and> lctx path' = lctx path"
  by (induction t path rule: avl_leftmost.induct) auto

lemma avl_rightmost_shape:
  "t \<noteq> Null \<Longrightarrow> \<exists>l k v b path'. avl_rightmost t path = (Node l k v b Null, path') \<and> rctx path' = rctx path"
  by (induction t path rule: avl_rightmost.induct) auto

lemma avl_unlink_ok:
  assumes "avl_bal (zip_up (Node l k v b r) path)"
  shows "\<exists>h path'. avl_unlink (Node l k v b r, path) = Inr (h, path') \<and> avl_bal h \<and>
    ok_path (Suc (height h)) path' \<and>
    lctx path' @ inorder h @ rctx path' = lctx path @ inorder l @ inorder r @ rctx path"
proof -
  have t: "avl_bal (Node l k v b r)" and p: "ok_path (height (Node l k v b r)) path"
    using assms by (auto simp: avl_zip_up)
  show ?thesis
  proof (cases r)
    case Null
    with t p show ?thesis by auto
  next
    case r: (Node rl rk rv rb rr)
    show ?thesis
    proof (cases "rl = Null")
      case True
      then have "height r = Suc (height rr)" using r by simp
      with True r t p show ?thesis by (auto simp: max.commute)
    next
      case False
      with avl_leftmost_shape [of rl "[]"] obtain sk sv sb sr spath where
        s: "avl_leftmost rl [] = (Node Null sk sv sb sr, spath)" "lctx spath = []" by fastforce
      have z: "zip_up (Node Null sk sv sb sr) spath = rl"
        using avl_leftmost_zip_up [OF s(1)] by simp
      then have rl: "avl_bal (Node Null sk sv sb sr)"
          "ok_path (height (Node Null sk sv sb sr)) spath"
        using t r avl_zip_up [of "Node Null sk sv sb sr" spath] by auto
      let ?path' = "spath @ Frame L rk rv rb rr # Frame R sk sv b l # path"
      have hs: "height (Node Null sk sv sb sr) = Suc (height sr)" by simp
      have ph: "path_height (Suc (height sr)) spath = height rl"
        using height_zip_up [of "Node Null sk sv sb sr" spath] z by simp
      have "ok_path (Suc (height sr)) ?path'"
        using rl(2) hs t p r ph by (auto simp: ok_path_append max.commute)
      moreover have "inorder rl = (sk, sv) # inorder sr @ rctx spath"
        using z inorder_zip_up [of "Node Null sk sv sb sr" spath] s(2) by simp
      ultimately show ?thesis
        using r False s rl(1) by (auto simp: lctx_append rctx_append)
    qed
  qed
qed

section \<open>The operations on the finite map\<close>

definition kvs_abs :: "(string \<times> 'v option) list \<Rightarrow> nat list \<rightharpoonup> 'v option" where
  "kvs_abs kvs = map_of (map (\<lambda>(k, v). (nkey k, v)) kvs)"

lemma avl_abs_kvs: "avl_abs t = kvs_abs (inorder t)"
  by (simp add: avl_abs_def kvs_abs_def)

lemma kvs_abs_None: "\<forall>x \<in> set xs. nkey (fst x) \<noteq> nk \<Longrightarrow> kvs_abs xs nk = None"
  by (auto simp: kvs_abs_def map_of_eq_None_iff)

lemma kvs_abs_append: "kvs_abs (xs @ ys) = kvs_abs ys ++ kvs_abs xs"
  by (simp add: kvs_abs_def)

lemma kvs_abs_Cons: "kvs_abs ((k, v) # xs) = (kvs_abs xs)(nkey k \<mapsto> v)"
  by (simp add: kvs_abs_def)

lemma kvs_abs_insert:
  assumes "\<forall>x \<in> set xs. nkey (fst x) < nkey k"
  shows "kvs_abs (xs @ (k, v) # ys) = (kvs_abs (xs @ ys))(nkey k \<mapsto> v)"
proof -
  have "kvs_abs xs (nkey k) = None" using assms by (intro kvs_abs_None) auto
  then show ?thesis by (auto simp: kvs_abs_append kvs_abs_Cons map_add_def fun_eq_iff split: option.split)
qed

lemma kvs_abs_delete:
  assumes "ascending (xs @ (k, v) # ys)"
  shows "kvs_abs (xs @ ys) = (kvs_abs (xs @ (k, v) # ys))(nkey k := None)"
proof -
  have "kvs_abs xs (nkey k) = None" "kvs_abs ys (nkey k) = None"
    using assms by (auto intro!: kvs_abs_None simp: ascending_simps)
  then show ?thesis by (auto simp: kvs_abs_append kvs_abs_Cons map_add_def fun_eq_iff split: option.split)
qed

lemma search_found:
  assumes "avl_ok t" "avl_search key t [] = (Node l k v b r, path)"
  shows "zip_up (Node l k v b r) path = t \<and> nkey k = nkey key \<and>
    inorder t = (lctx path @ inorder l) @ (k, v) # (inorder r @ rctx path)"
proof -
  have z: "zip_up (Node l k v b r) path = t" using avl_search_zip_up [OF assms(2)] by simp
  moreover have "nkey k = nkey key"
    using avl_search_Node [OF assms(2)] by (simp add: str_cmp_eq_iff)
  moreover have "inorder t = (lctx path @ inorder l) @ (k, v) # (inorder r @ rctx path)"
    using z inorder_zip_up [of "Node l k v b r" path] by simp
  ultimately show ?thesis by blast
qed

lemma search_missing:
  assumes "avl_ok t" "avl_search key t [] = (Null, path)"
  shows "zip_up Null path = t \<and> ok_path 0 path \<and> inorder t = lctx path @ rctx path \<and>
    (\<forall>x \<in> set (lctx path). nkey (fst x) < nkey key) \<and>
    (\<forall>x \<in> set (rctx path). nkey key < nkey (fst x))"
proof -
  have z: "zip_up Null path = t" using avl_search_zip_up [OF assms(2)] by simp
  moreover have "ok_path 0 path" using z assms(1) avl_zip_up [of Null path] by (simp add: avl_ok_def)
  moreover have "inorder t = lctx path @ rctx path" using z inorder_zip_up [of Null path] by simp
  ultimately show ?thesis
    using avl_search_order [OF assms(2)] assms(1) by (auto simp: avl_ok_def)
qed

lemma found_abs:
  assumes "avl_ok t" "avl_search key t [] = (Node l k v b r, path)"
  shows "avl_abs t (nkey key) = Some v"
proof -
  from search_found [OF assms] have i: "inorder t = (lctx path @ inorder l) @ (k, v) # (inorder r @ rctx path)"
    and k: "nkey k = nkey key" by blast+
  have "\<forall>x \<in> set (lctx path @ inorder l). nkey (fst x) < nkey k"
    using assms(1) i by (auto simp: avl_ok_def ascending_simps)
  from kvs_abs_insert [OF this, of v "inorder r @ rctx path"] show ?thesis
    by (simp add: avl_abs_kvs i k)
qed

lemma missing_abs:
  assumes "avl_ok t" "avl_search key t [] = (Null, path)"
  shows "avl_abs t (nkey key) = None"
proof -
  from search_missing [OF assms] have i: "inorder t = lctx path @ rctx path"
    and "\<forall>x \<in> set (lctx path). nkey (fst x) < nkey key"
        "\<forall>x \<in> set (rctx path). nkey key < nkey (fst x)" by blast+
  then show ?thesis unfolding avl_abs_kvs i by (intro kvs_abs_None) auto
qed

lemma map_get_ok:
  assumes "map_ok m"
  shows "\<exists>m'. map_get True True m key = Inr (m', Some key) \<and> map_ok m' \<and>
    flags m' = flags m \<and>
    avl_abs (avl_root m') = (case avl_abs (avl_root m) (nkey key) of
       Some v \<Rightarrow> avl_abs (avl_root m) | None \<Rightarrow> (avl_abs (avl_root m))(nkey key \<mapsto> None))"
proof -
  let ?t = "avl_root m"
  obtain t' path where s: "avl_search key ?t [] = (t', path)" by (cases "avl_search key ?t []")
  have ok: "avl_ok ?t" using assms by (simp add: map_ok_def)
  show ?thesis
  proof (cases t')
    case (Node l k v b r)
    with s found_abs [OF ok] assms show ?thesis by (simp add: map_get_def)
  next
    case Null
    with s have s: "avl_search key ?t [] = (Null, path)" by simp
    note miss = search_missing [OF ok s]
    from avl_insert_at_ok [of path key None] miss obtain t where t:
      "avl_insert_at (Node Null key None 0 Null) path = Inr t" "avl_bal t"
      "inorder t = lctx path @ (key, None) # rctx path" by blast
    have "ascending (inorder t)" using ok miss t(3)
      by (auto simp: avl_ok_def ascending_simps)
    moreover have "nodes t = Suc (nodes ?t)"
      using miss t(3) by (simp flip: length_inorder)
    moreover have "avl_abs t = (avl_abs ?t)(nkey key \<mapsto> None)"
      using kvs_abs_insert [of "lctx path" key None "rctx path"] miss t(3)
      by (simp add: avl_abs_kvs)
    ultimately show ?thesis
      using s t missing_abs [OF ok s] assms
      by (simp add: map_get_def map_ok_def avl_ok_def add.commute)
  qed
qed

lemma cell_write_shape:
  "map fst (inorder (cell_write key x t)) = map fst (inorder t) \<and>
   height (cell_write key x t) = height t \<and> nodes (cell_write key x t) = nodes t"
  by (induction t) (auto simp: Let_def)

lemma cell_write_avl: "avl_bal t \<Longrightarrow> avl_bal (cell_write key x t)"
  by (induction t) (auto simp: Let_def cell_write_shape)

lemma ascending_keys: "ascending xs = sorted_wrt (<) (map nkey (map fst xs))"
  by (simp add: ascending_def comp_def)

lemma ascending_fst: "map fst xs = map fst ys \<Longrightarrow> ascending xs = ascending ys"
  by (simp only: ascending_keys)

lemma cell_write_ok: "avl_ok t \<Longrightarrow> avl_ok (cell_write key x t)"
  using cell_write_avl ascending_fst cell_write_shape by (metis avl_ok_def)

lemma cell_write_abs:
  assumes "ascending (inorder t)"
  shows "avl_abs (cell_write key x t) =
    (case avl_abs t (nkey key) of None \<Rightarrow> avl_abs t | Some _ \<Rightarrow> (avl_abs t)(nkey key \<mapsto> x))"
  using assms
proof (induction t)
  case Null
  show ?case by (simp add: avl_abs_def)
next
  case (Node l k v b r)
  have asc: "ascending (inorder l)" "ascending (inorder r)"
    using Node.prems by (auto simp: ascending_simps)
  let ?t = "Node l k v b r" and ?t' = "cell_write key x (Node l k v b r)"
  have "map fst (inorder ?t') = map fst (inorder ?t)" using cell_write_shape by blast
  then have asc': "ascending (inorder ?t')" using Node.prems ascending_fst by blast
  show ?case
  proof (rule ext)
    fix nk
    show "avl_abs ?t' nk = (case avl_abs ?t (nkey key) of None \<Rightarrow> avl_abs ?t
        | Some _ \<Rightarrow> (avl_abs ?t)(nkey key \<mapsto> x)) nk"
      using Node.IH asc asc'
      by (cases "nkey key < nkey k"; cases "nkey k < nkey key")
        (auto simp: Let_def str_cmp_order avl_abs_Node [OF Node.prems] avl_abs_Node
          split: option.splits)
  qed
qed

end
