(* ===== verification/Interfaces.thy ===== *)
theory Interfaces
  imports Core_Prelude "HOL-Library.Multiset"
begin

text \<open>
  The contracts between components, as locales: what a client may call and what the provider
  promises. Each is interpreted on the provider's model in the provider's theory, and the
  clients' lemmas are proved once, here.
\<close>

section \<open>Dictionaries\<close>

text \<open>
  A dictionary as \<open>map.c\<close> offers it: keys that are looked up through an equivalence
  (\<open>norm\<close> is the part of a key that counts), values that may be null, operations that may
  fault on states outside the invariant.
\<close>

fun put_all :: "('m \<Rightarrow> string \<Rightarrow> 'a \<Rightarrow> fault + 'm) \<Rightarrow> 'm \<Rightarrow> (string \<times> 'a) list \<Rightarrow> fault + 'm" where
  "put_all put m [] = Inr m"
| "put_all put m ((k, a) # kas) = ebind (put m k a) (\<lambda>m'. put_all put m' kas)"

fun remove_all :: "('m \<Rightarrow> string \<Rightarrow> fault + 'm) \<Rightarrow> 'm \<Rightarrow> string list \<Rightarrow> fault + 'm" where
  "remove_all rm m [] = Inr m"
| "remove_all rm m (k # ks) = ebind (rm m k) (\<lambda>m'. remove_all rm m' ks)"

locale dictionary =
  fixes find :: "'m \<Rightarrow> string \<Rightarrow> 'a option"
    and put :: "'m \<Rightarrow> string \<Rightarrow> 'a \<Rightarrow> fault + 'm"
    and remove :: "'m \<Rightarrow> string \<Rightarrow> fault + 'm"
    and invar :: "'m \<Rightarrow> bool"
    and norm :: "string \<Rightarrow> 'k"
  assumes put_law: "invar m \<Longrightarrow> \<exists>m'. put m k a = Inr m' \<and> invar m' \<and>
      (\<forall>k'. find m' k' = (if norm k' = norm k then Some a else find m k'))"
    and remove_law: "invar m \<Longrightarrow> \<exists>m'. remove m k = Inr m' \<and> invar m' \<and>
      (\<forall>k'. find m' k' = (if norm k' = norm k then None else find m k'))"
begin

lemma put_all_ok:
  "invar m \<Longrightarrow> \<exists>m'. put_all put m kas = Inr m' \<and> invar m' \<and>
    (\<forall>k. find m' k =
       (case map_of (rev (map (\<lambda>(k, a). (norm k, a)) kas)) (norm k) of
          Some a \<Rightarrow> Some a | None \<Rightarrow> find m k))"
proof (induction kas arbitrary: m)
  case Nil then show ?case by simp
next
  case (Cons ka kas)
  obtain k0 a0 where ka: "ka = (k0, a0)" by (cases ka)
  from put_law [OF Cons.prems, of k0 a0] obtain m1 where m1: "put m k0 a0 = Inr m1" "invar m1"
    "\<forall>k'. find m1 k' = (if norm k' = norm k0 then Some a0 else find m k')" by blast
  from Cons.IH [OF m1(2)] obtain m2 where m2: "put_all put m1 kas = Inr m2" "invar m2"
    "\<forall>k. find m2 k = (case map_of (rev (map (\<lambda>(k, a). (norm k, a)) kas)) (norm k) of
        Some a \<Rightarrow> Some a | None \<Rightarrow> find m1 k)" by blast
  show ?case
    using ka m1(1) m2(1,2) by (auto simp: m2(3) m1(3) map_add_def split: option.split)
qed

lemma remove_all_ok:
  "invar m \<Longrightarrow> \<exists>m'. remove_all remove m ks = Inr m' \<and> invar m' \<and>
    (\<forall>k. find m' k = (if norm k \<in> norm ` set ks then None else find m k))"
proof (induction ks arbitrary: m)
  case Nil then show ?case by simp
next
  case (Cons k0 ks)
  from remove_law [OF Cons.prems, of k0] obtain m1 where m1: "remove m k0 = Inr m1" "invar m1"
    "\<forall>k'. find m1 k' = (if norm k' = norm k0 then None else find m k')" by blast
  from Cons.IH [OF m1(2)] obtain m2 where m2: "remove_all remove m1 ks = Inr m2" "invar m2"
    "\<forall>k. find m2 k = (if norm k \<in> norm ` set ks then None else find m1 k)" by blast
  show ?case using m1(1) m2(1,2) by (auto simp: m2(3) m1(3))
qed

text \<open>Storing a batch and removing its keys again leaves only what was there under other keys.\<close>

lemma put_all_remove_all:
  assumes "invar m"
  shows "\<exists>m'. ebind (put_all put m kas) (\<lambda>m1. remove_all remove m1 (map fst kas)) = Inr m' \<and>
    invar m' \<and>
    (\<forall>k. find m' k = (if norm k \<in> norm ` fst ` set kas then None else find m k))"
proof -
  from put_all_ok [OF assms, of kas] obtain m1 where m1: "put_all put m kas = Inr m1" "invar m1"
    "\<forall>k. find m1 k = (case map_of (rev (map (\<lambda>(k, a). (norm k, a)) kas)) (norm k) of
        Some a \<Rightarrow> Some a | None \<Rightarrow> find m k)" by blast
  from remove_all_ok [OF m1(2), of "map fst kas"] obtain m2 where m2:
    "remove_all remove m1 (map fst kas) = Inr m2" "invar m2"
    "\<forall>k. find m2 k = (if norm k \<in> norm ` set (map fst kas) then None else find m1 k)" by blast
  have "find m1 k = find m k" if "norm k \<notin> norm ` fst ` set kas" for k
  proof -
    have "norm k \<notin> fst ` set (rev (map (\<lambda>(k, a). (norm k, a)) kas))" using that by force
    then have "map_of (rev (map (\<lambda>(k, a). (norm k, a)) kas)) (norm k) = None"
      by (simp add: map_of_eq_None_iff)
    then show ?thesis using m1(3) by simp
  qed
  with m1(1) m2 show ?thesis by auto
qed

end

section \<open>Scanners\<close>

text \<open>
  The parsers walk over their buffer one character at a time and keep their local variables
  in a state. \<open>run\<close> is the loop, \<open>inv p\<close> what holds before the character at \<open>p\<close>, \<open>chars\<close> the
  characters considered, \<open>good\<close> the errors they may lead to.
\<close>

locale scanner =
  fixes step :: "nat \<Rightarrow> char \<Rightarrow> 's \<Rightarrow> 'e + 's"
    and run :: "nat \<Rightarrow> string \<Rightarrow> 's \<Rightarrow> 'e + 's"
    and inv :: "nat \<Rightarrow> 's \<Rightarrow> bool"
    and chars :: "char \<Rightarrow> bool"
    and good :: "'e \<Rightarrow> bool"
  assumes run_Nil: "run p [] x = Inr x"
    and run_Cons: "run p (c # cs) x = ebind (step p c x) (\<lambda>y. run (Suc p) cs y)"
    and step_error: "inv p x \<Longrightarrow> chars c \<Longrightarrow> step p c x = Inl e \<Longrightarrow> good e"
    and step_inv: "inv p x \<Longrightarrow> chars c \<Longrightarrow> step p c x = Inr y \<Longrightarrow> inv (Suc p) y"
begin

lemma run_error: "inv p x \<Longrightarrow> list_all chars cs \<Longrightarrow> run p cs x = Inl e \<Longrightarrow> good e"
proof (induction cs arbitrary: p x)
  case Nil then show ?case by (simp add: run_Nil)
next
  case (Cons c cs) then show ?case
    by (cases "step p c x") (auto simp: run_Cons intro: step_error step_inv)
qed

lemma run_inv: "inv p x \<Longrightarrow> list_all chars cs \<Longrightarrow> run p cs x = Inr y \<Longrightarrow> inv (p + length cs) y"
proof (induction cs arbitrary: p x)
  case Nil then show ?case by (simp add: run_Nil)
next
  case (Cons c cs) then show ?case
    using Cons.IH [of "Suc p"] by (cases "step p c x") (auto simp: run_Cons dest: step_inv)
qed

lemma run_append: "run p (as @ bs) x = ebind (run p as x) (run (p + length as) bs)"
  by (induction as arbitrary: p x) (auto simp: run_Nil run_Cons ebind_def split: sum.splits)

text \<open>Characters that all leave the state as it is are skipped.\<close>

lemma run_same:
  assumes "\<And>q c. c \<in> set cs \<Longrightarrow> step q c x = Inr x"
  shows "run p cs x = Inr x"
  using assms by (induction cs arbitrary: p) (auto simp: run_Nil run_Cons)

end

section \<open>Task queues\<close>

text \<open>
  A bounded queue of prioritised tasks as the dispatcher offers it to the reactor, the timer
  and the workers: storing faults when the queue is full, taking waits when it is empty and
  otherwise gives a task of the highest priority.
\<close>

fun put_tasks :: "('q \<Rightarrow> 'n \<Rightarrow> fault + 'q) \<Rightarrow> 'q \<Rightarrow> 'n list \<Rightarrow> fault + 'q" where
  "put_tasks put q [] = Inr q"
| "put_tasks put q (n # ns) = ebind (put q n) (\<lambda>q'. put_tasks put q' ns)"

text \<open>A worker that takes \<open>k\<close> tasks; \<open>None\<close> when it would wait for ever.\<close>

fun take_tasks :: "('q \<Rightarrow> (fault + 'n \<times> 'q) option) \<Rightarrow> nat \<Rightarrow> 'q \<Rightarrow> (fault + 'n list \<times> 'q) option" where
  "take_tasks get 0 q = Some (Inr ([], q))"
| "take_tasks get (Suc k) q =
     (case get q of
        None \<Rightarrow> None
      | Some (Inl e) \<Rightarrow> Some (Inl e)
      | Some (Inr (n, q')) \<Rightarrow>
          (case take_tasks get k q' of
             None \<Rightarrow> None
           | Some (Inl e) \<Rightarrow> Some (Inl e)
           | Some (Inr (ns, q'')) \<Rightarrow> Some (Inr (n # ns, q''))))"

locale task_queue =
  fixes put :: "'q \<Rightarrow> 'n \<Rightarrow> fault + 'q"
    and get :: "'q \<Rightarrow> (fault + 'n \<times> 'q) option"
    and tasks :: "'q \<Rightarrow> 'n multiset"
    and invar :: "'q \<Rightarrow> bool"
    and prio :: "'n \<Rightarrow> int"
    and cap :: nat
  assumes put_law: "invar q \<Longrightarrow> size (tasks q) < cap \<Longrightarrow>
      \<exists>q'. put q n = Inr q' \<and> invar q' \<and> tasks q' = add_mset n (tasks q)"
    and put_full: "invar q \<Longrightarrow> cap \<le> size (tasks q) \<Longrightarrow> put q n = Inl Out_of_bounds"
    and get_law: "invar q \<Longrightarrow> tasks q \<noteq> {#} \<Longrightarrow>
      \<exists>n q'. get q = Some (Inr (n, q')) \<and> invar q' \<and> tasks q = add_mset n (tasks q') \<and>
        (\<forall>m \<in># tasks q. prio m \<le> prio n)"
    and get_empty: "invar q \<Longrightarrow> tasks q = {#} \<Longrightarrow> get q = None"
begin

lemma put_tasks_ok:
  "invar q \<Longrightarrow> size (tasks q) + length ns \<le> cap \<Longrightarrow>
   \<exists>q'. put_tasks put q ns = Inr q' \<and> invar q' \<and> tasks q' = tasks q + mset ns"
proof (induction ns arbitrary: q)
  case Nil then show ?case by simp
next
  case (Cons n ns)
  then obtain q1 where q1: "put q n = Inr q1" "invar q1" "tasks q1 = add_mset n (tasks q)"
    using put_law [of q n] by auto
  with Cons.IH [of q1] Cons.prems show ?case by auto
qed

lemma put_tasks_full:
  "invar q \<Longrightarrow> size (tasks q) \<le> cap \<Longrightarrow> cap < size (tasks q) + length ns \<Longrightarrow> put_tasks put q ns = Inl Out_of_bounds"
proof (induction ns arbitrary: q)
  case Nil then show ?case by simp
next
  case (Cons n ns)
  show ?case
  proof (cases "size (tasks q) < cap")
    case True
    then obtain q1 where q1: "put q n = Inr q1" "invar q1" "tasks q1 = add_mset n (tasks q)"
      using put_law [of q n] Cons.prems by auto
    with Cons.IH [of q1] Cons.prems True show ?thesis by simp
  next
    case False
    with put_full [of q n] Cons.prems show ?thesis by simp
  qed
qed

text \<open>Taking gives the tasks of the queue, by falling priority.\<close>

lemma take_tasks_ok:
  "invar q \<Longrightarrow> k \<le> size (tasks q) \<Longrightarrow>
   \<exists>ns q'. take_tasks get k q = Some (Inr (ns, q')) \<and> invar q' \<and> tasks q = mset ns + tasks q' \<and>
     length ns = k \<and> sorted_wrt (\<lambda>a b. prio b \<le> prio a) ns \<and>
     (\<forall>n \<in> set ns. \<forall>m \<in># tasks q'. prio m \<le> prio n)"
proof (induction k arbitrary: q)
  case 0 then show ?case by simp
next
  case (Suc k)
  then have "tasks q \<noteq> {#}" by auto
  with get_law [OF Suc.prems(1)] obtain n q1 where q1: "get q = Some (Inr (n, q1))" "invar q1"
    "tasks q = add_mset n (tasks q1)" "\<forall>m \<in># tasks q. prio m \<le> prio n" by blast
  with Suc.IH [of q1] Suc.prems obtain ns q2 where q2: "take_tasks get k q1 = Some (Inr (ns, q2))"
    "invar q2" "tasks q1 = mset ns + tasks q2" "length ns = k"
    "sorted_wrt (\<lambda>a b. prio b \<le> prio a) ns" "\<forall>n \<in> set ns. \<forall>m \<in># tasks q2. prio m \<le> prio n" by auto
  have "take_tasks get (Suc k) q = Some (Inr (n # ns, q2))" using q1(1) q2(1) by simp
  with q1(3,4) q2(2-6) show ?case by auto
qed

lemma take_tasks_wait: "invar q \<Longrightarrow> size (tasks q) < k \<Longrightarrow> take_tasks get k q = None"
proof (induction k arbitrary: q)
  case 0 then show ?case by simp
next
  case (Suc k)
  show ?case
  proof (cases "tasks q = {#}")
    case True then show ?thesis using get_empty [OF Suc.prems(1)] by simp
  next
    case False
    with get_law [OF Suc.prems(1)] obtain n q1 where q1: "get q = Some (Inr (n, q1))" "invar q1"
      "tasks q = add_mset n (tasks q1)" by blast
    with Suc show ?thesis by simp
  qed
qed

text \<open>All that was put is taken, ordered by priority, and nothing else.\<close>

lemma put_then_take:
  assumes "invar q" "tasks q = {#}" "length ns \<le> cap"
  shows "\<exists>q1 ms q2. put_tasks put q ns = Inr q1 \<and>
    take_tasks get (length ns) q1 = Some (Inr (ms, q2)) \<and> mset ms = mset ns \<and>
    sorted_wrt (\<lambda>a b. prio b \<le> prio a) ms \<and> invar q2 \<and> tasks q2 = {#}"
proof -
  obtain q1 where q1: "put_tasks put q ns = Inr q1" "invar q1" "tasks q1 = mset ns"
    using put_tasks_ok [OF assms(1), of ns] assms(2,3) by auto
  with take_tasks_ok [OF q1(2), of "length ns"] obtain ms q2 where
    m: "take_tasks get (length ns) q1 = Some (Inr (ms, q2))" "invar q2" "mset ns = mset ms + tasks q2"
    "length ms = length ns" "sorted_wrt (\<lambda>a b. prio b \<le> prio a) ms" by auto
  have "tasks q2 = {#}" using arg_cong [OF m(3), of size] m(4) by simp
  with q1(1) m show ?thesis by auto
qed

end

section \<open>Allocators\<close>

text \<open>
  An allocator of disjoint blocks: a request yields the null pointer or a new block of at least the
  size \<open>need\<close> makes of it, and a block that is allocated can be released. \<open>blocks\<close> maps the
  addresses of the allocated blocks to their sizes.
\<close>

datatype request = Get nat | Put nat

fun serve ::
    "(nat \<Rightarrow> 's \<Rightarrow> (fault + nat \<times> 's) option) \<Rightarrow> (nat \<Rightarrow> 's \<Rightarrow> (fault + 's) option) \<Rightarrow>
     request list \<Rightarrow> nat list \<Rightarrow> 's \<Rightarrow> (fault + nat list \<times> 's) option" where
  "serve alloc release [] hs s = Some (Inr (hs, s))"
| "serve alloc release (Get n # rs) hs s =
     obind (alloc n s) (\<lambda>(p, s'). serve alloc release rs (if p = 0 then hs else hs @ [p]) s')"
| "serve alloc release (Put i # rs) hs s =
     (if i < length hs
      then obind (release (hs ! i) s) (\<lambda>s'. serve alloc release rs (take i hs @ drop (Suc i) hs) s')
      else serve alloc release rs hs s)"

locale allocator =
  fixes alloc :: "nat \<Rightarrow> 's \<Rightarrow> (fault + nat \<times> 's) option"
    and release :: "nat \<Rightarrow> 's \<Rightarrow> (fault + 's) option"
    and invar :: "'s \<Rightarrow> bool"
    and blocks :: "'s \<Rightarrow> nat \<Rightarrow> nat option"
    and need :: "nat \<Rightarrow> nat"
  assumes alloc_law: "invar s \<Longrightarrow> \<exists>p s'. alloc n s = Some (Inr (p, s')) \<and> invar s' \<and>
      (p = 0 \<and> blocks s' = blocks s \<or>
       p \<noteq> 0 \<and> blocks s p = None \<and> (\<exists>m. need n \<le> m \<and> blocks s' = (blocks s)(p \<mapsto> m)))"
    and release_law: "invar s \<Longrightarrow> blocks s p = Some m \<Longrightarrow>
      \<exists>s'. release p s = Some (Inr s') \<and> invar s' \<and> blocks s' = (blocks s)(p := None)"
    and disjoint_law: "invar s \<Longrightarrow> blocks s p = Some m \<Longrightarrow> blocks s q = Some k \<Longrightarrow> p \<noteq> q \<Longrightarrow>
      p + m \<le> q \<or> q + k \<le> p"
begin

text \<open>A client that releases only what it was given, and only once, is always served.\<close>

lemma serve_ok:
  "invar s \<Longrightarrow> distinct hs \<Longrightarrow> dom (blocks s) = set hs \<Longrightarrow>
   \<exists>hs' s'. serve alloc release rs hs s = Some (Inr (hs', s')) \<and> invar s' \<and> distinct hs' \<and>
     dom (blocks s') = set hs'"
proof (induction rs arbitrary: hs s)
  case Nil then show ?case by simp
next
  case (Cons r rs)
  show ?case
  proof (cases r)
    case (Get n)
    from alloc_law [OF Cons.prems(1), of n] obtain p s' where
      a: "alloc n s = Some (Inr (p, s'))" "invar s'"
      "p = 0 \<and> blocks s' = blocks s \<or>
       p \<noteq> 0 \<and> blocks s p = None \<and> (\<exists>m. need n \<le> m \<and> blocks s' = (blocks s)(p \<mapsto> m))" by blast
    let ?hs = "if p = 0 then hs else hs @ [p]"
    have "p \<noteq> 0 \<Longrightarrow> p \<notin> dom (blocks s)" using a(3) by auto
    then have "distinct ?hs" using Cons.prems(2,3) by simp
    moreover have "dom (blocks s') = set ?hs"
    proof (cases "p = 0")
      case True
      with a(3) Cons.prems(3) show ?thesis by simp
    next
      case False
      then obtain m where "blocks s' = (blocks s)(p \<mapsto> m)" using a(3) by blast
      with False Cons.prems(3) show ?thesis by simp
    qed
    ultimately have "\<exists>hs' s2. serve alloc release rs ?hs s' = Some (Inr (hs', s2)) \<and> invar s2 \<and>
        distinct hs' \<and> dom (blocks s2) = set hs'" by (rule Cons.IH [OF a(2)])
    with a(1) Get show ?thesis by simp
  next
    case (Put i)
    show ?thesis
    proof (cases "i < length hs")
      case False
      with Cons.IH [OF Cons.prems] Put show ?thesis by simp
    next
      case True
      then obtain us vs where hs: "hs = us @ hs ! i # vs" "us = take i hs" "vs = drop (Suc i) hs"
        using id_take_nth_drop by blast
      have "hs ! i \<in> dom (blocks s)" using Cons.prems(3) True by simp
      then obtain m where "blocks s (hs ! i) = Some m" by blast
      from release_law [OF Cons.prems(1) this] obtain s' where
        r: "release (hs ! i) s = Some (Inr s')" "invar s'" "blocks s' = (blocks s)(hs ! i := None)" by blast
      have d: "distinct (us @ hs ! i # vs)" using Cons.prems(2) hs(1) by simp
      have "dom (blocks s') = set hs - {hs ! i}" using r(3) Cons.prems(3) by auto
      also have "\<dots> = set (us @ vs)"
        using d arg_cong [OF hs(1), of set] by auto
      finally have "dom (blocks s') = set (us @ vs)" .
      moreover have "distinct (us @ vs)" using d by simp
      ultimately have "\<exists>hs' s2. serve alloc release rs (us @ vs) s' = Some (Inr (hs', s2)) \<and> invar s2 \<and>
          distinct hs' \<and> dom (blocks s2) = set hs'" using Cons.IH [OF r(2)] by blast
      with True Put r(1) hs(2,3) show ?thesis by simp
    qed
  qed
qed

text \<open>The blocks it holds do not overlap.\<close>

lemma serve_disjoint:
  assumes "invar s" "distinct hs" "dom (blocks s) = set hs"
  shows "\<exists>hs' s'. serve alloc release rs hs s = Some (Inr (hs', s')) \<and> invar s' \<and> distinct hs' \<and>
    (\<forall>p \<in> set hs'. \<forall>q \<in> set hs'. p \<noteq> q \<longrightarrow>
       (\<exists>m k. blocks s' p = Some m \<and> blocks s' q = Some k \<and> (p + m \<le> q \<or> q + k \<le> p)))"
proof -
  from serve_ok [OF assms, of rs] obtain hs' s' where
    s: "serve alloc release rs hs s = Some (Inr (hs', s'))" "invar s'" "distinct hs'" "dom (blocks s') = set hs'"
    by blast
  have "\<exists>m k. blocks s' p = Some m \<and> blocks s' q = Some k \<and> (p + m \<le> q \<or> q + k \<le> p)"
    if pq: "p \<in> set hs'" "q \<in> set hs'" "p \<noteq> q" for p q
  proof -
    obtain m k where "blocks s' p = Some m" "blocks s' q = Some k" using s(4) pq(1,2) by blast
    with disjoint_law [OF s(2) this pq(3)] show ?thesis by blast
  qed
  with s(1-3) show ?thesis by blast
qed

end

end
