(* ===== verification/Avl_Ops.thy ===== *)
theory Avl_Ops
  imports Avl_Map Interfaces
begin

text \<open>
  The rest of \<open>src/core/map.c\<close> over the tree of \<open>Avl_Map\<close>: iterators, the traversal with
  a callback, destruction, the height bound, the dictionary contract and the properties.
\<close>

section \<open>Iterators\<close>

record 'v map_iterator =
  it_node :: "'v loc option"
  it_map :: "'v map_t option"

definition map_first :: "'v map_t option \<Rightarrow> 'v map_iterator option \<Rightarrow> int \<times> 'v map_iterator option"
  where
  "map_first mp it =
     (case (mp, it) of
        (Some m, Some i) \<Rightarrow>
          (0, Some \<lparr>it_node = (if avl_root m = Null then None
                              else Some (avl_leftmost (avl_root m) [])), it_map = Some m\<rparr>)
      | _ \<Rightarrow> (-1, it))"

definition map_last :: "'v map_t option \<Rightarrow> 'v map_iterator option \<Rightarrow> int \<times> 'v map_iterator option"
  where
  "map_last mp it =
     (case (mp, it) of
        (Some m, Some i) \<Rightarrow>
          (0, Some \<lparr>it_node = (if avl_root m = Null then None
                              else Some (avl_rightmost (avl_root m) [])), it_map = Some m\<rparr>)
      | _ \<Rightarrow> (-1, it))"

definition iterator_is_valid :: "'v map_iterator option \<Rightarrow> bool" where
  "iterator_is_valid it =
     (case it of None \<Rightarrow> False | Some i \<Rightarrow> it_map i \<noteq> None \<and> it_node i \<noteq> None)"

text \<open>
  \<open>iterator_key\<close> and \<open>iterator_val\<close> check the iterator but not its node: on an iterator
  that has run off the end they take the address of a member of a null pointer.
\<close>

definition iterator_key :: "'v map_iterator option \<Rightarrow> fault + string option" where
  "iterator_key it =
     (case it of
        None \<Rightarrow> Inr None
      | Some i \<Rightarrow> (case it_node i of
                    Some (Node l k v b r, _) \<Rightarrow> Inr (Some k)
                  | _ \<Rightarrow> Inl Null_deref))"

definition iterator_val :: "'v map_iterator option \<Rightarrow> fault + 'v option option" where
  "iterator_val it =
     (case it of
        None \<Rightarrow> Inr None
      | Some i \<Rightarrow> (case it_node i of
                    Some (Node l k v b r, _) \<Rightarrow> Inr (Some v)
                  | _ \<Rightarrow> Inl Null_deref))"

text \<open>
  Climbing until the child is entered from the given side: \<open>p == q->avl_link[0]\<close> for
  \<open>L\<close>, \<open>p == q->avl_link[1]\<close> for \<open>R\<close>.
\<close>

fun climb :: "dir \<Rightarrow> 'v avl \<Rightarrow> 'v frame list \<Rightarrow> 'v loc option" where
  "climb d p [] = None"
| "climb d p (Frame e k v b s # fs) =
     (if e = d then Some (plug p (Frame e k v b s), fs)
      else climb d (plug p (Frame e k v b s)) fs)"

fun loc_next :: "'v loc \<Rightarrow> 'v loc option" where
  "loc_next (Null, path) = None"
| "loc_next (Node l k v b r, path) =
     (if r \<noteq> Null then Some (avl_leftmost r (Frame R k v b l # path))
      else climb L (Node l k v b r) path)"

fun loc_prev :: "'v loc \<Rightarrow> 'v loc option" where
  "loc_prev (Null, path) = None"
| "loc_prev (Node l k v b r, path) =
     (if l \<noteq> Null then Some (avl_rightmost l (Frame L k v b r # path))
      else climb R (Node l k v b r) path)"

definition iterator_next :: "'v map_iterator option \<Rightarrow> int \<times> 'v map_iterator option" where
  "iterator_next it =
     (case it of
        None \<Rightarrow> (-1, None)
      | Some i \<Rightarrow> (case (it_map i, it_node i) of
                    (Some m, Some p) \<Rightarrow> (0, Some (i\<lparr>it_node := loc_next p\<rparr>))
                  | _ \<Rightarrow> (-1, Some i)))"

definition iterator_prev :: "'v map_iterator option \<Rightarrow> int \<times> 'v map_iterator option" where
  "iterator_prev it =
     (case it of
        None \<Rightarrow> (-1, None)
      | Some i \<Rightarrow> (case (it_map i, it_node i) of
                    (Some m, Some p) \<Rightarrow> (0, Some (i\<lparr>it_node := loc_prev p\<rparr>))
                  | _ \<Rightarrow> (-1, Some i)))"

text \<open>Deleting through an iterator: the node goes, and the iterator becomes invalid.\<close>

definition iterator_delete :: "'v map_iterator option \<Rightarrow> fault + 'v map_iterator option \<times> 'v option"
  where
  "iterator_delete it =
     (case it of
        None \<Rightarrow> Inr (None, None)
      | Some i \<Rightarrow> (case (it_map i, it_node i) of
                    (Some m, Some p) \<Rightarrow>
                      ebind (delete_node m p)
                        (\<lambda>(m', ret). Inr (Some \<lparr>it_node = None, it_map = Some m'\<rparr>, ret))
                  | _ \<Rightarrow> Inr (Some i, None)))"

section \<open>Traversal and destruction\<close>

text \<open>
  \<open>process_all\<close>: the return code is tested on entry to a node only. \<open>'s\<close> is what the
  callback reads and writes behind its \<open>param\<close> pointer.
\<close>

fun process_all :: "('s \<Rightarrow> string \<Rightarrow> 'v option \<Rightarrow> 's \<times> u32) \<Rightarrow> 'v avl \<Rightarrow> 's \<times> u32 \<Rightarrow> 's \<times> u32" where
  "process_all f Null st = st"
| "process_all f (Node l k v b r) (s, rc) =
     (if rc \<noteq> 0 then (s, rc)
      else let (s1, rc1) = (if l \<noteq> Null then process_all f l (s, rc) else (s, rc));
               (s2, ret) = f s1 k v;
               rc2 = or rc1 ret
           in if r \<noteq> Null then process_all f r (s2, rc2) else (s2, rc2))"

definition map_for_each :: "'v map_t \<Rightarrow> ('s \<Rightarrow> string \<Rightarrow> 'v option \<Rightarrow> 's \<times> u32) \<Rightarrow> 's
    \<Rightarrow> 'v map_t \<times> 's \<times> u32" where
  "map_for_each m f param =
     (let (s, rc) = (if avl_root m \<noteq> Null then process_all f (avl_root m) (param, 0)
                     else (param, 0))
      in (m\<lparr>ret_code := rc\<rparr>, s, rc))"

text \<open>
  \<open>map_destroy\<close> takes the tree apart with right rotations, so it needs no stack. The
  observable effects are the calls of the destructor and the frees, in order.
\<close>

datatype 'v free_event = Destroy 'v | Free_key string | Free_node string | Free_table

definition free_node_events :: "bool \<Rightarrow> bool \<Rightarrow> string \<Rightarrow> 'v option \<Rightarrow> 'v free_event list" where
  "free_node_events no_dup destroy k v =
     (case v of Some x \<Rightarrow> if destroy then [Destroy x] else [] | None \<Rightarrow> []) @
     (if no_dup then [] else [Free_key k]) @ [Free_node k]"

fun left_weight :: "'v avl \<Rightarrow> nat" where
  "left_weight Null = 0"
| "left_weight (Node l k v b r) = nodes l + left_weight r"

function destroy_loop :: "bool \<Rightarrow> bool \<Rightarrow> 'v avl \<Rightarrow> 'v free_event list" where
  "destroy_loop no_dup destroy Null = []"
| "destroy_loop no_dup destroy (Node Null k v b r) =
     free_node_events no_dup destroy k v @ destroy_loop no_dup destroy r"
| "destroy_loop no_dup destroy (Node (Node ll lk lv lb lr) k v b r) =
     destroy_loop no_dup destroy (Node ll lk lv lb (Node lr k v b r))"
  by pat_completeness auto
termination
  by (relation "measures [\<lambda>(nd, d, t). nodes t, \<lambda>(nd, d, t). left_weight t]") auto

definition map_destroy :: "bool \<Rightarrow> 'v map_t \<Rightarrow> 'v free_event list" where
  "map_destroy destroy m = destroy_loop (no_duplicate m) destroy (avl_root m) @ [Free_table]"

lemma destroy_loop_inorder:
  "destroy_loop nd d t = concat (map (\<lambda>(k, v). free_node_events nd d k v) (inorder t))"
  by (induction nd d t rule: destroy_loop.induct) auto


section \<open>The iterators enumerate the map in key order\<close>

text \<open>The entry at a place, and what comes strictly after and before it.\<close>

fun loc_entry :: "'v loc \<Rightarrow> (string \<times> 'v option) option" where
  "loc_entry (Node l k v b r, path) = Some (k, v)"
| "loc_entry (Null, path) = None"

fun loc_after :: "'v loc \<Rightarrow> (string \<times> 'v option) list" where
  "loc_after (Node l k v b r, path) = inorder r @ rctx path"
| "loc_after (Null, path) = rctx path"

fun loc_before :: "'v loc \<Rightarrow> (string \<times> 'v option) list" where
  "loc_before (Node l k v b r, path) = lctx path @ inorder l"
| "loc_before (Null, path) = lctx path"

lemma leftmost_seq:
  assumes "t \<noteq> Null"
  shows "\<exists>k v. loc_entry (avl_leftmost t path) = Some (k, v) \<and>
    (k, v) # loc_after (avl_leftmost t path) = inorder t @ rctx path \<and>
    loc_before (avl_leftmost t path) = lctx path"
proof -
  from avl_leftmost_shape [OF assms, of path] obtain k v b r p where
    s: "avl_leftmost t path = (Node Null k v b r, p)" "lctx p = lctx path" by blast
  from avl_leftmost_zip_up [OF s(1)] have
    "lctx p @ (k, v) # inorder r @ rctx p = lctx path @ inorder t @ rctx path"
    using inorder_zip_up [of "Node Null k v b r" p] inorder_zip_up [of t path] by simp
  with s show ?thesis by simp
qed

lemma rightmost_seq:
  assumes "t \<noteq> Null"
  shows "\<exists>k v. loc_entry (avl_rightmost t path) = Some (k, v) \<and>
    loc_before (avl_rightmost t path) @ [(k, v)] = lctx path @ inorder t \<and>
    loc_after (avl_rightmost t path) = rctx path"
proof -
  from avl_rightmost_shape [OF assms, of path] obtain l k v b p where
    s: "avl_rightmost t path = (Node l k v b Null, p)" "rctx p = rctx path" by blast
  from avl_rightmost_zip_up [OF s(1)] have
    "lctx p @ inorder l @ (k, v) # rctx p = lctx path @ inorder t @ rctx path"
    using inorder_zip_up [of "Node l k v b Null" p] inorder_zip_up [of t path] by simp
  with s show ?thesis by simp
qed

lemma climb_L_seq:
  "(case climb L p path of
      None \<Rightarrow> rctx path = []
    | Some q \<Rightarrow> \<exists>k v. loc_entry q = Some (k, v) \<and> (k, v) # loc_after q = rctx path \<and>
        loc_before q = lctx path @ inorder p \<and> zip_up (fst q) (snd q) = zip_up p path)"
proof (induction path arbitrary: p)
  case Nil show ?case by simp
next
  case (Cons f fs)
  obtain e k v b s where f: "f = Frame e k v b s" by (cases f)
  show ?case
  proof (cases e)
    case L then show ?thesis using f by simp
  next
    case R
    with f Cons.IH [where p = "plug p f"] show ?thesis by (auto split: option.splits)
  qed
qed

lemma climb_R_seq:
  "(case climb R p path of
      None \<Rightarrow> lctx path = []
    | Some q \<Rightarrow> \<exists>k v. loc_entry q = Some (k, v) \<and> loc_before q @ [(k, v)] = lctx path \<and>
        loc_after q = inorder p @ rctx path \<and> zip_up (fst q) (snd q) = zip_up p path)"
proof (induction path arbitrary: p)
  case Nil show ?case by simp
next
  case (Cons f fs)
  obtain e k v b s where f: "f = Frame e k v b s" by (cases f)
  show ?case
  proof (cases e)
    case R then show ?thesis using f by simp
  next
    case L
    with f Cons.IH [where p = "plug p f"] show ?thesis by (auto split: option.splits)
  qed
qed

lemma loc_next_seq:
  assumes "loc_entry p = Some (k, v)"
  shows "(case loc_next p of
      None \<Rightarrow> loc_after p = []
    | Some q \<Rightarrow> \<exists>k' v'. loc_entry q = Some (k', v') \<and> (k', v') # loc_after q = loc_after p \<and>
        loc_before q = loc_before p @ [(k, v)] \<and>
        zip_up (fst q) (snd q) = zip_up (fst p) (snd p))"
proof -
  obtain l b r path where p: "p = (Node l k v b r, path)"
    using assms by (cases p; cases "fst p") auto
  show ?thesis
  proof (cases "r = Null")
    case True
    then show ?thesis using assms p climb_L_seq [where p = "Node l k v b r" and path = path]
      by (auto split: option.splits)
  next
    case False
    obtain t' path' where q: "avl_leftmost r (Frame R k v b l # path) = (t', path')" by fastforce
    with avl_leftmost_zip_up [OF q] leftmost_seq [OF False, of "Frame R k v b l # path"] p False
    show ?thesis by auto
  qed
qed

lemma loc_prev_seq:
  assumes "loc_entry p = Some (k, v)"
  shows "(case loc_prev p of
      None \<Rightarrow> loc_before p = []
    | Some q \<Rightarrow> \<exists>k' v'. loc_entry q = Some (k', v') \<and> loc_before q @ [(k', v')] = loc_before p \<and>
        loc_after q = (k, v) # loc_after p \<and>
        zip_up (fst q) (snd q) = zip_up (fst p) (snd p))"
proof -
  obtain l b r path where p: "p = (Node l k v b r, path)"
    using assms by (cases p; cases "fst p") auto
  show ?thesis
  proof (cases "l = Null")
    case True
    then show ?thesis using assms p climb_R_seq [where p = "Node l k v b r" and path = path]
      by (auto split: option.splits)
  next
    case False
    obtain t' path' where q: "avl_rightmost l (Frame L k v b r # path) = (t', path')" by fastforce
    with avl_rightmost_zip_up [OF q] rightmost_seq [OF False, of "Frame L k v b r # path"] p False
    show ?thesis by auto
  qed
qed

text \<open>
  The loop every user of the iterators writes: \<open>map_first\<close>, then read the key and the
  value and step while the iterator is valid. \<open>n\<close> bounds the number of rounds.
\<close>

fun walk :: "nat \<Rightarrow> 'v map_iterator option \<Rightarrow> fault + (string \<times> 'v option) list option" where
  "walk 0 it = Inr None"
| "walk (Suc n) it =
     (if \<not> iterator_is_valid it then Inr (Some [])
      else case (iterator_key it, iterator_val it) of
        (Inr (Some k), Inr (Some v)) \<Rightarrow>
          (case walk n (snd (iterator_next it)) of
             Inr (Some kvs) \<Rightarrow> Inr (Some ((k, v) # kvs)) | e \<Rightarrow> e)
      | _ \<Rightarrow> Inl Null_deref)"

lemma walk_from:
  assumes "loc_entry p = Some (k, v)" "length (loc_after p) < n"
  shows "walk (Suc n) (Some \<lparr>it_node = Some p, it_map = Some m\<rparr>) =
    Inr (Some ((k, v) # loc_after p))"
  using assms
proof (induction n arbitrary: p k v)
  case 0 then show ?case by simp
next
  case (Suc n)
  obtain l b r path where p: "p = (Node l k v b r, path)"
    using Suc.prems(1) by (cases p; cases "fst p") auto
  show ?case
  proof (cases "loc_next p")
    case None
    then have "loc_after p = []" using loc_next_seq [OF Suc.prems(1)] by simp
    with None p show ?thesis
      by (simp add: iterator_is_valid_def iterator_key_def iterator_val_def iterator_next_def)
  next
    case (Some q)
    then obtain k' v' where q: "loc_entry q = Some (k', v')" "(k', v') # loc_after q = loc_after p"
      using loc_next_seq [OF Suc.prems(1)] by auto
    have "length (loc_after q) < n" using q(2) Suc.prems(2) by (metis Suc_less_eq length_Cons)
    from Suc.IH [OF q(1) this] q(2) Some p show ?thesis
      by (simp add: iterator_is_valid_def iterator_key_def iterator_val_def iterator_next_def)
  qed
qed

lemma walk_first:
  assumes "nodes (avl_root m) < n"
  shows "walk (Suc n) (snd (map_first (Some m) (Some it))) = Inr (Some (inorder (avl_root m)))"
proof (cases "avl_root m = Null")
  case True
  then show ?thesis by (simp add: map_first_def iterator_is_valid_def)
next
  case False
  from leftmost_seq [OF False, of "[]"] obtain k v where
    s: "loc_entry (avl_leftmost (avl_root m) []) = Some (k, v)"
      "(k, v) # loc_after (avl_leftmost (avl_root m) []) = inorder (avl_root m)" by auto
  have "length (loc_after (avl_leftmost (avl_root m) [])) < n"
    using s(2) assms length_inorder [of "avl_root m"] by (metis Suc_lessD length_Cons)
  from walk_from [OF s(1) this, of m] s(2) False show ?thesis by (simp add: map_first_def)
qed

section \<open>Height\<close>

fun min_nodes :: "nat \<Rightarrow> nat" where
  "min_nodes 0 = 0"
| "min_nodes (Suc 0) = 1"
| "min_nodes (Suc (Suc h)) = Suc (min_nodes (Suc h) + min_nodes h)"

lemma min_nodes_mono_Suc: "min_nodes h \<le> min_nodes (Suc h)"
  by (induction h rule: min_nodes.induct) auto

lemma min_nodes_mono: "h \<le> h' \<Longrightarrow> min_nodes h \<le> min_nodes h'"
  by (rule lift_Suc_mono_le [of min_nodes]) (auto intro: min_nodes_mono_Suc)

lemma min_nodes_le: "avl_bal t \<Longrightarrow> min_nodes (height t) \<le> nodes t"
proof (induction t)
  case Null show ?case by simp
next
  case (Node l k v b r)
  then have lr: "min_nodes (height l) \<le> nodes l" "min_nodes (height r) \<le> nodes r" by auto
  consider "height l = height r" | "height l = Suc (height r)" | "height r = Suc (height l)"
    using Node.prems by (auto; linarith)
  then show ?case
  proof cases
    case 1
    have "min_nodes (Suc (height r)) \<le> Suc (min_nodes (height r) + min_nodes (height r))"
      by (cases "height r") (use min_nodes_mono_Suc in auto)
    with 1 lr show ?thesis by simp
  qed (use lr in auto)
qed

lemma min_nodes_growth: "8 ^ k \<le> Suc (min_nodes (5 * k))"
proof (induction k)
  case 0 show ?case by simp
next
  case (Suc k)
  have "8 * Suc (min_nodes h) \<le> Suc (min_nodes (Suc (Suc (Suc (Suc (Suc h))))))" for h
    using min_nodes_mono_Suc [of h] by simp
  moreover have "5 * Suc k = Suc (Suc (Suc (Suc (Suc (5 * k)))))" by simp
  ultimately have "8 * Suc (min_nodes (5 * k)) \<le> Suc (min_nodes (5 * Suc k))"
    by (simp only:)
  moreover have "(8::nat) ^ Suc k \<le> 8 * Suc (min_nodes (5 * k))" using Suc by simp
  ultimately show ?case by (rule order_trans [rotated])
qed

text \<open>A tree whose node count fits \<open>size_t\<close> is well within \<open>AVL_MAX_HEIGHT\<close>.\<close>

lemma avl_height_bound:
  assumes "avl_bal t" "nodes t < 2 ^ 64"
  shows "height t < 110"
proof (rule ccontr)
  assume "\<not> height t < 110"
  then have "min_nodes 110 \<le> nodes t"
    using min_nodes_le [OF assms(1)] min_nodes_mono [of 110 "height t"] by simp
  moreover have "(8::nat) ^ 22 \<le> Suc (min_nodes 110)" using min_nodes_growth [of 22] by simp
  moreover have "(2::nat) ^ 64 + 2 \<le> 8 ^ 22" by simp
  ultimately show False using assms(2) by linarith
qed

section \<open>Traversal with a callback\<close>

lemma process_all_ok:
  assumes "\<forall>(k, v) \<in> set (inorder t). \<forall>s. snd (f s k v) = 0"
  shows "process_all f t (s, 0) = (foldl (\<lambda>s (k, v). fst (f s k v)) s (inorder t), 0)"
  using assms
proof (induction t arbitrary: s)
  case Null show ?case by simp
next
  case (Node l k v b r)
  have IH: "process_all f l (s, 0) = (foldl (\<lambda>s (k, v). fst (f s k v)) s (inorder l), 0)"
    "process_all f r (s, 0) = (foldl (\<lambda>s (k, v). fst (f s k v)) s (inorder r), 0)" for s
    using Node by auto
  have "snd (f s' k v) = 0" for s' using Node.prems by auto
  then have "f s' k v = (fst (f s' k v), 0)" for s' by (metis prod.collapse)
  then show ?case using IH by (auto simp: Let_def split: prod.splits) (metis prod.inject)+
qed

section \<open>The dictionary contract\<close>

definition dict_find :: "'v map_t \<Rightarrow> string \<Rightarrow> 'v option option" where
  "dict_find m k = map_find m k"

definition dict_put :: "'v map_t \<Rightarrow> string \<Rightarrow> 'v option \<Rightarrow> fault + 'v map_t" where
  "dict_put m k item = ebind (map_put True True m k item) (\<lambda>(m', _). Inr m')"

definition dict_remove :: "'v map_t \<Rightarrow> string \<Rightarrow> fault + 'v map_t" where
  "dict_remove m k = ebind (map_remove m k) (\<lambda>(m', _). Inr m')"

lemma map_find_abs: "map_ok m \<Longrightarrow> map_find m key = avl_abs (avl_root m) (nkey key)"
  by (simp add: map_find_def map_ok_def avl_ok_def avl_find_abs)

lemma map_put_ok:
  assumes "map_ok m"
  shows "\<exists>m' old. map_put True True m key item = Inr (m', old) \<and> map_ok m' \<and>
    avl_abs (avl_root m') = (avl_abs (avl_root m))(nkey key \<mapsto> item) \<and>
    old = (case avl_abs (avl_root m) (nkey key) of
             Some v \<Rightarrow> if v = item then None else v | None \<Rightarrow> None)"
proof -
  from map_get_ok [OF assms, of key] obtain m1 where m1: "map_get True True m key = Inr (m1, Some key)"
    "map_ok m1" "avl_abs (avl_root m1) = (case avl_abs (avl_root m) (nkey key) of
       Some v \<Rightarrow> avl_abs (avl_root m) | None \<Rightarrow> (avl_abs (avl_root m))(nkey key \<mapsto> None))"
    by blast
  have asc: "ascending (inorder (avl_root m1))" using m1(2) by (simp add: map_ok_def avl_ok_def)
  have "cell_read m1 key = (case avl_abs (avl_root m) (nkey key) of Some v \<Rightarrow> v | None \<Rightarrow> None)"
    using m1(3) by (simp add: cell_read_def avl_find_abs [OF asc] split: option.splits)
  moreover have "avl_abs (cell_write key item (avl_root m1)) = (avl_abs (avl_root m))(nkey key \<mapsto> item)"
    using m1(3) by (simp add: cell_write_abs [OF asc] split: option.splits)
  moreover have "map_ok (m1\<lparr>avl_root := cell_write key item (avl_root m1)\<rparr>)"
    using m1(2) by (simp add: map_ok_def cell_write_ok cell_write_shape)
  ultimately show ?thesis using m1(1) by (auto simp: map_put_def Let_def split: option.split)
qed

lemma delete_node_ok:
  assumes "map_ok m" "zip_up (Node l k v b r) path = avl_root m"
  shows "\<exists>m'. delete_node m (Node l k v b r, path) = Inr (m', v) \<and> map_ok m' \<and>
    inorder (avl_root m') = lctx path @ inorder l @ inorder r @ rctx path \<and>
    avl_abs (avl_root m') = (avl_abs (avl_root m))(nkey k := None)"
proof -
  have ok: "avl_ok (avl_root m)" using assms(1) by (simp add: map_ok_def)
  then have "avl_bal (zip_up (Node l k v b r) path)" using assms(2) by (simp add: avl_ok_def)
  from avl_unlink_ok [OF this] obtain h p where h: "avl_unlink (Node l k v b r, path) = Inr (h, p)"
    "avl_bal h" "ok_path (Suc (height h)) p"
    "lctx p @ inorder h @ rctx p = lctx path @ inorder l @ inorder r @ rctx path" by blast
  from avl_del_fix_ok [OF h(2,3)] obtain t where t: "avl_del_fix h p = Inr t" "avl_bal t"
    "inorder t = lctx path @ inorder l @ inorder r @ rctx path" using h(4) by auto
  have old: "inorder (avl_root m) = (lctx path @ inorder l) @ (k, v) # (inorder r @ rctx path)"
    using inorder_zip_up [of "Node l k v b r" path] assms(2) by simp
  have new: "inorder t = (lctx path @ inorder l) @ (inorder r @ rctx path)" using t(3) by simp
  have asc: "ascending ((lctx path @ inorder l) @ (k, v) # (inorder r @ rctx path))"
    using ok old by (simp add: avl_ok_def)
  then have "ascending (inorder t)" unfolding new by (simp add: ascending_simps)
  moreover have "nodes (avl_root m) = Suc (nodes t)"
    using arg_cong [OF old, of length] arg_cong [OF new, of length] by (simp add: length_inorder)
  moreover have "avl_abs t = (avl_abs (avl_root m))(nkey k := None)"
    using kvs_abs_delete [OF asc] by (simp add: avl_abs_kvs old new)
  ultimately show ?thesis
    using h(1) t assms(1) by (simp add: delete_node_def map_ok_def avl_ok_def)
qed

lemma map_remove_ok:
  assumes "map_ok m"
  shows "\<exists>m'. map_remove m key = Inr (m', case avl_abs (avl_root m) (nkey key) of
        Some v \<Rightarrow> v | None \<Rightarrow> None) \<and> map_ok m' \<and>
    avl_abs (avl_root m') = (avl_abs (avl_root m))(nkey key := None)"
proof -
  let ?t = "avl_root m"
  have ok: "avl_ok ?t" using assms by (simp add: map_ok_def)
  obtain t' path where s: "avl_search key ?t [] = (t', path)" by fastforce
  show ?thesis
  proof (cases t')
    case Null
    with missing_abs [OF ok] s have "avl_abs ?t (nkey key) = None" by simp
    moreover from this have "(avl_abs ?t)(nkey key := None) = avl_abs ?t" by auto
    ultimately show ?thesis using Null s assms by (simp add: map_remove_def)
  next
    case (Node l k v b r)
    with s have s: "avl_search key ?t [] = (Node l k v b r, path)" by simp
    then have "?t \<noteq> Null" by auto
    with delete_node_ok [of m l k v b r path] search_found [OF ok s] found_abs [OF ok s] s assms
    show ?thesis by (auto simp: map_remove_def)
  qed
qed

interpretation avl_dict: dictionary dict_find dict_put dict_remove map_ok nkey
proof unfold_locales
  fix m :: "'a map_t" and k a
  assume m: "map_ok m"
  from map_put_ok [OF m, of k a] obtain m' old where
    "map_put True True m k a = Inr (m', old)" "map_ok m'"
    "avl_abs (avl_root m') = (avl_abs (avl_root m))(nkey k \<mapsto> a)" by blast
  then show "\<exists>m'. dict_put m k a = Inr m' \<and> map_ok m' \<and>
      (\<forall>k'. dict_find m' k' = (if nkey k' = nkey k then Some a else dict_find m k'))"
    using m by (simp add: dict_put_def dict_find_def map_find_abs)
next
  fix m :: "'a map_t" and k
  assume m: "map_ok m"
  from map_remove_ok [OF m, of k] obtain m' where
    "map_remove m k = Inr (m', case avl_abs (avl_root m) (nkey k) of Some v \<Rightarrow> v | None \<Rightarrow> None)"
    "map_ok m'" "avl_abs (avl_root m') = (avl_abs (avl_root m))(nkey k := None)" by blast
  then show "\<exists>m'. dict_remove m k = Inr m' \<and> map_ok m' \<and>
      (\<forall>k'. dict_find m' k' = (if nkey k' = nkey k then None else dict_find m k'))"
    using m by (simp add: dict_remove_def dict_find_def map_find_abs)
qed

section \<open>Sequences of operations\<close>

datatype 'v map_op = Op_put string "'v option" | Op_remove string

fun map_run :: "'v map_t \<Rightarrow> 'v map_op list \<Rightarrow> fault + 'v map_t" where
  "map_run m [] = Inr m"
| "map_run m (Op_put k a # ops) = ebind (dict_put m k a) (\<lambda>m'. map_run m' ops)"
| "map_run m (Op_remove k # ops) = ebind (dict_remove m k) (\<lambda>m'. map_run m' ops)"

fun abs_run :: "(nat list \<rightharpoonup> 'v option) \<Rightarrow> 'v map_op list \<Rightarrow> (nat list \<rightharpoonup> 'v option)" where
  "abs_run a [] = a"
| "abs_run a (Op_put k x # ops) = abs_run (a(nkey k \<mapsto> x)) ops"
| "abs_run a (Op_remove k # ops) = abs_run (a(nkey k := None)) ops"

lemma map_run_abs:
  "map_ok m \<Longrightarrow> \<exists>m'. map_run m ops = Inr m' \<and> map_ok m' \<and>
    avl_abs (avl_root m') = abs_run (avl_abs (avl_root m)) ops"
proof (induction ops arbitrary: m)
  case Nil then show ?case by simp
next
  case (Cons op ops)
  show ?case
  proof (cases op)
    case (Op_put k x)
    from map_put_ok [OF Cons.prems, of k x] obtain m1 old where
      "map_put True True m k x = Inr (m1, old)" "map_ok m1"
      "avl_abs (avl_root m1) = (avl_abs (avl_root m))(nkey k \<mapsto> x)" by blast
    with Op_put Cons.IH [of m1] show ?thesis by (simp add: dict_put_def fun_upd_def)
  next
    case (Op_remove k)
    from map_remove_ok [OF Cons.prems, of k] obtain m1 old where
      "map_remove m k = Inr (m1, old)" "map_ok m1"
      "avl_abs (avl_root m1) = (avl_abs (avl_root m))(nkey k := None)" by blast
    with Op_remove Cons.IH [of m1] show ?thesis by (simp add: dict_remove_def fun_upd_def)
  qed
qed

lemma map_create_ok: "map_create True g fl = Some m \<Longrightarrow> map_ok m \<and> avl_abs (avl_root m) = Map.empty"
  by (auto simp: map_create_def map_ok_def avl_ok_def avl_abs_def)

lemma card_dom_abs:
  assumes "ascending (inorder t)"
  shows "card (dom (avl_abs t)) = nodes t"
proof -
  have "distinct (map nkey (map fst (inorder t)))"
    using assms strict_sorted_iff unfolding ascending_keys by blast
  then have "distinct (map fst (map (\<lambda>(k, v). (nkey k, v)) (inorder t)))"
    by (simp add: comp_def case_prod_unfold)
  then have "card (fst ` set (map (\<lambda>(k, v). (nkey k, v)) (inorder t))) = length (inorder t)"
    by (metis distinct_card length_map set_map)
  then show ?thesis by (simp add: avl_abs_def dom_map_of_conv_image_fst length_inorder)
qed

lemma map_size_card:
  assumes "map_ok m" "nodes (avl_root m) < 2 ^ 31"
  shows "map_size m = int (card (dom (avl_abs (avl_root m))))"
proof -
  let ?n = "nodes (avl_root m)"
  have "avl_count m = of_nat ?n" "ascending (inorder (avl_root m))"
    using assms(1) by (auto simp: map_ok_def avl_ok_def)
  moreover have "sint (ucast (of_nat ?n :: u64) :: u32) = int ?n"
    using assms(2) by (simp add: unsigned_of_nat signed_of_nat take_bit_nat_eq_self signed_take_bit_int_eq_self)
  ultimately show ?thesis by (simp add: map_size_def card_dom_abs)
qed

section \<open>Properties\<close>





text \<open>
  C3: \<open>map_remove\<close> on a well-formed map never faults, returns the value the key had (null
  if none), removes that binding and no other, and keeps the invariant.
\<close>

theorem map_remove_correct:
  assumes "map_ok m"
  shows "\<exists>m'. map_remove m key =
      Inr (m', case map_find m key of Some v \<Rightarrow> v | None \<Rightarrow> None) \<and> map_ok m' \<and>
    (\<forall>k. map_find m' k = (if str_cmp k key = 0 then None else map_find m k))"
proof -
  from map_remove_ok [OF assms, of key] obtain m' where
    m': "map_remove m key = Inr (m', case avl_abs (avl_root m) (nkey key) of
        Some v \<Rightarrow> v | None \<Rightarrow> None)" "map_ok m'"
      "avl_abs (avl_root m') = (avl_abs (avl_root m))(nkey key := None)" by blast
  then show ?thesis using map_find_abs [OF assms] map_find_abs [OF m'(2)]
    by (simp add: str_cmp_eq_iff)
qed

theorem map_remove_correct_witness:
  "\<exists>m'. map_remove
      \<lparr>flags = 0, avl_root = Node Null ''b'' (Some (1::nat)) 1 (Node Null ''c'' (Some 2) 0 Null),
       avl_count = 2, ret_code = 0\<rparr> ''b'' = Inr (m', Some 1) \<and> map_ok m' \<and>
    map_find m' ''b'' = None"
proof -
  let ?m = "\<lparr>flags = 0, avl_root = Node Null ''b'' (Some (1::nat)) 1 (Node Null ''c'' (Some 2) 0 Null),
       avl_count = 2, ret_code = 0\<rparr> :: nat map_t"
  have "map_ok ?m" by (simp add: map_ok_def avl_ok_def ascending_def)
  from map_remove_correct [OF this, of "''b''"] show ?thesis
    by (auto simp: map_find_def str_cmp_def Let_def)
qed

text \<open>
  C30: Storing a batch of entries and then removing their keys succeeds on every well-formed
  map and leaves exactly the bindings of the other keys: the dictionary contract, on the
  AVL tree.
\<close>

theorem map_batch_roundtrip:
  assumes "map_ok m"
  shows "\<exists>m'. ebind (put_all dict_put m kas) (\<lambda>m1. remove_all dict_remove m1 (map fst kas)) = Inr m' \<and>
    map_ok m' \<and>
    (\<forall>k. map_find m' k = (if nkey k \<in> nkey ` fst ` set kas then None else map_find m k))"
  using avl_dict.put_all_remove_all [OF assms, of kas] unfolding dict_find_def .

theorem map_batch_roundtrip_witness:
  "\<exists>m'. ebind (put_all dict_put
       \<lparr>flags = 0, avl_root = Node Null ''b'' (Some (1::nat)) 0 Null, avl_count = 1, ret_code = 0\<rparr>
       [(''a'', Some 5), (''c'', None)])
     (\<lambda>m1. remove_all dict_remove m1 [''a'', ''c'']) = Inr m' \<and> map_ok m' \<and>
     map_find m' ''a'' = None \<and> map_find m' ''b'' = Some (Some 1)"
proof -
  let ?m = "\<lparr>flags = 0, avl_root = Node Null ''b'' (Some (1::nat)) 0 Null,
    avl_count = 1, ret_code = 0\<rparr> :: nat map_t"
  have "map_ok ?m" by (simp add: map_ok_def avl_ok_def ascending_def)
  from map_batch_roundtrip [OF this, of "[(''a'', Some 5), (''c'', None)]"] show ?thesis
    by (auto simp: map_find_def str_cmp_def Let_def)
qed

text \<open>
  C29: The iterator loop (\<open>map_first\<close>, then read the key and the value and
  \<open>iterator_next\<close> while the iterator is valid) ends within the number of nodes plus one
  rounds, never reads through an invalid iterator, and yields every binding of the map once,
  with strictly ascending keys.
\<close>

theorem iteration_ascending:
  assumes "map_ok m"
  shows "\<exists>kvs. walk (nodes (avl_root m) + 2) (snd (map_first (Some m) (Some it))) = Inr (Some kvs) \<and>
    sorted_wrt (\<lambda>a b. str_cmp (fst a) (fst b) < 0) kvs \<and>
    (\<forall>k v. (\<exists>k'. (k', v) \<in> set kvs \<and> str_cmp k k' = 0) \<longleftrightarrow> map_find m k = Some v)"
proof -
  let ?t = "avl_root m"
  have asc: "ascending (inorder ?t)" using assms by (simp add: map_ok_def avl_ok_def)
  have "walk (nodes ?t + 2) (snd (map_first (Some m) (Some it))) = Inr (Some (inorder ?t))"
    using walk_first [of m "Suc (nodes ?t)" it] by simp
  moreover have "sorted_wrt (\<lambda>a b. str_cmp (fst a) (fst b) < 0) (inorder ?t)"
    using asc by (simp add: ascending_def sorted_wrt_map str_cmp_less_iff)
  moreover have "(\<exists>k'. (k', v) \<in> set (inorder ?t) \<and> str_cmp k k' = 0) \<longleftrightarrow> map_find m k = Some v" for k v
  proof -
    have "distinct (map fst (map (\<lambda>(k, v). (nkey k, v)) (inorder ?t)))"
      using asc strict_sorted_iff unfolding ascending_keys by (fastforce simp: comp_def case_prod_unfold)
    then show ?thesis
      by (auto simp: map_find_abs [OF assms] avl_abs_def str_cmp_eq_iff intro: rev_image_eqI)
  qed
  ultimately show ?thesis by blast
qed

theorem iteration_ascending_witness:
  "\<exists>kvs. walk 4 (snd (map_first
      (Some \<lparr>flags = 0, avl_root = Node Null ''b'' (Some (1::nat)) 1 (Node Null ''c'' None 0 Null),
             avl_count = 2, ret_code = 0\<rparr>)
      (Some \<lparr>it_node = None, it_map = None\<rparr>))) = Inr (Some kvs) \<and> (''b'', Some 1) \<in> set kvs"
proof -
  let ?m = "\<lparr>flags = 0, avl_root = Node Null ''b'' (Some (1::nat)) 1 (Node Null ''c'' None 0 Null),
       avl_count = 2, ret_code = 0\<rparr> :: nat map_t"
  have "map_ok ?m" by (simp add: map_ok_def avl_ok_def ascending_def)
  from iteration_ascending [OF this, of "\<lparr>it_node = None, it_map = None\<rparr>"] show ?thesis
    by (auto simp: map_first_def iterator_is_valid_def iterator_key_def iterator_val_def
        iterator_next_def eval_nat_numeral)
qed



text \<open>
  C32: \<open>map_destroy\<close> visits the nodes of any tree in key order, once each: the destructor is
  called on every value that is not null, the key is freed unless the map shares its keys
  with the caller, and then the node; the table itself goes last.
\<close>

theorem map_destroy_frees:
  "map_destroy destroy m =
     concat (map (\<lambda>(k, v). free_node_events (no_duplicate m) destroy k v) (inorder (avl_root m)))
     @ [Free_table]"
  by (simp add: map_destroy_def destroy_loop_inorder)

text \<open>
  The traversal \<open>map_for_each\<close> does not stop at an error: the return code is only tested on entry to a
  subtree, so after a callback fails the callback still runs on the ancestors whose left
  subtree held the failing entry. Here it fails on the smallest key and is called on the
  root all the same, and the two codes are or-ed together.
\<close>

theorem map_for_each_runs_on:
  "map_for_each \<lparr>flags = 0, avl_root = Node (Node Null ''a'' None 0 Null) ''b'' None 0
        (Node Null ''c'' None 0 Null), avl_count = 3, ret_code = 0\<rparr>
      (\<lambda>s k v. (s @ [k], if k = ''a'' then 1 else 2)) []
   = (\<lparr>flags = 0, avl_root = Node (Node Null ''a'' None 0 Null) ''b'' None 0
        (Node Null ''c'' None 0 Null), avl_count = 3, ret_code = 3\<rparr>, [''a'', ''b''], 3)"
  by (simp add: map_for_each_def Let_def)

text \<open>
  When the allocator has no memory for the node, \<open>map_get\<close> returns null and leaves the
  map as it was; but when it has memory for the node and not for the copy of a nonempty new
  key, the unchecked result is passed to \<open>memcpy\<close>.
\<close>

theorem map_get_no_memory:
  assumes "map_ok m" "map_find m key = None"
  shows "map_get False mem_key m key = Inr (m, None) \<and>
    (key \<noteq> [] \<and> \<not> no_duplicate m \<longrightarrow> map_get True False m key = Inl Null_deref)"
proof -
  obtain t' path where s: "avl_search key (avl_root m) [] = (t', path)" by fastforce
  have "t' = Null"
  proof (cases t')
    case (Node l k v b r)
    with s found_abs [of "avl_root m" key l k v b r path] assms show ?thesis
      by (simp add: map_find_abs map_ok_def)
  qed
  with s show ?thesis by (simp add: map_get_def)
qed

theorem map_get_no_memory_witness:
  "map_get True False \<lparr>flags = 0, avl_root = Null :: nat avl, avl_count = 0, ret_code = 0\<rparr> ''k''
   = Inl Null_deref"
proof -
  let ?m = "\<lparr>flags = 0, avl_root = Null :: nat avl, avl_count = 0, ret_code = 0\<rparr>"
  have "map_ok ?m" "map_find ?m ''k'' = None"
    by (simp_all add: map_ok_def avl_ok_def map_find_def)
  from map_get_no_memory [OF this, of True] show ?thesis
    by (simp add: no_duplicate_def)
qed

end
