(* ===== verification/Parse_Uri.thy ===== *)
theory Parse_Uri
  imports Core_Prelude
begin

text \<open>
  The SIP URI parser, \<open>src/core/parser/parse_uri.c\<close>: one pass over the buffer with a state
  machine whose states and transitions are kept as the code has them (its \<open>switch\<close> cases
  and its macros), then the treatment of the end of the input and of the scheme. Pointers
  are offsets into the buffer.
\<close>

section \<open>The result\<close>

datatype uri_type = ERROR_URI_T | SIP_URI_T | SIPS_URI_T | TEL_URI_T | TELS_URI_T

record sip_uri =
  u_user :: cstr
  u_passwd :: cstr
  u_host :: cstr
  u_port :: cstr
  u_params :: cstr
  u_headers :: cstr
  u_port_no :: u16
  u_proto :: u16
  u_type :: uri_type
  u_transport :: cstr
  u_ttl :: cstr
  u_user_param :: cstr
  u_maddr :: cstr
  u_method :: cstr
  u_lr :: cstr
  u_r2 :: cstr
  u_transport_val :: cstr
  u_ttl_val :: cstr
  u_user_param_val :: cstr
  u_maddr_val :: cstr
  u_method_val :: cstr
  u_lr_val :: cstr
  u_r2_val :: cstr

text \<open>\<open>memset(uri, 0, sizeof(struct sip_uri))\<close>.\<close>

definition zero_uri :: sip_uri where
  "zero_uri = \<lparr>u_user = null_str, u_passwd = null_str, u_host = null_str, u_port = null_str,
     u_params = null_str, u_headers = null_str, u_port_no = 0, u_proto = 0,
     u_type = ERROR_URI_T, u_transport = null_str, u_ttl = null_str, u_user_param = null_str,
     u_maddr = null_str, u_method = null_str, u_lr = null_str, u_r2 = null_str,
     u_transport_val = null_str, u_ttl_val = null_str, u_user_param_val = null_str,
     u_maddr_val = null_str, u_method_val = null_str, u_lr_val = null_str,
     u_r2_val = null_str\<rparr>"

definition PROTO_UDP :: u16 where "PROTO_UDP = 1"
definition PROTO_TCP :: u16 where "PROTO_TCP = 2"
definition PROTO_TLS :: u16 where "PROTO_TLS = 3"
definition PROTO_SCTP :: u16 where "PROTO_SCTP = 4"

section \<open>The states\<close>

datatype uri_state =
    URI_INIT | URI_USER | URI_PASSWORD | URI_PASSWORD_ALPHA | URI_HOST | URI_HOST_P
  | URI_HOST6_P | URI_HOST6_END | URI_PORT | URI_PARAM | URI_PARAM_P | URI_VAL_P | URI_HEADERS
  | PT_T | PT_R | PT_A | PT_N | PT_S | PT_P | PT_O | PT_R2 | PT_T2 | PT_eq
  | PTTL_T2 | PTTL_L | PTTL_eq
  | PU_U | PU_S | PU_E | PU_R | PU_eq
  | PM_M | PM_E | PM_T | PM_H | PM_O | PM_D | PM_eq
  | PMA_A | PMA_D | PMA_D2 | PMA_R | PMA_eq
  | PLR_L | PLR_R_FIN | PLR_eq
  | PR2_R | PR2_2_FIN | PR2_eq
  | VU_U | VU_D | VU_P_FIN
  | VT_T | VT_C | VT_P_FIN
  | VTLS_L | VTLS_S_FIN
  | VS_S | VS_C | VS_T | VS_P_FIN

text \<open>What the pointers \<open>param\<close> and \<open>param_val\<close> select: a pair of fields of the result.\<close>

datatype uri_param =
  P_transport | P_ttl | P_user_param | P_method | P_maddr | P_lr | P_r2

text \<open>
  The error labels. \<open>E_undefined\<close> is not one of them: it stands for a use of a pointer that
  was not set, which C does not define.
\<close>

datatype uri_error =
    E_too_short | E_bad_char | E_bad_host | E_bad_port | E_bad_uri | E_headers | E_bug
  | E_undefined

text \<open>
  The local variables. \<open>port_no\<close> is an \<open>int\<close> whose multiplication may overflow; it is kept
  modulo \<open>2 ^ 32\<close>.
\<close>

record uri_vars =
  us_state :: uri_state
  us_uri :: sip_uri
  us_s :: nat
  us_b :: "nat option"
  us_v :: "nat option"
  us_param :: "uri_param option"
  us_pass :: "nat option"
  us_port_no :: u32
  us_found_user :: bool
  us_error_headers :: bool

type_synonym uri_res = "uri_error + uri_vars"

section \<open>The macros\<close>

definition set_state :: "uri_state \<Rightarrow> uri_vars \<Rightarrow> uri_vars" where
  "set_state q x = x\<lparr>us_state := q\<rparr>"

definition set_host :: "cstr \<Rightarrow> uri_vars \<Rightarrow> uri_vars" where
  "set_host h x = x\<lparr>us_uri := (us_uri x)\<lparr>u_host := h\<rparr>\<rparr>"

definition set_params :: "cstr \<Rightarrow> uri_vars \<Rightarrow> uri_vars" where
  "set_params h x = x\<lparr>us_uri := (us_uri x)\<lparr>u_params := h\<rparr>\<rparr>"

definition set_port :: "cstr \<Rightarrow> uri_vars \<Rightarrow> uri_vars" where
  "set_port h x = x\<lparr>us_uri := (us_uri x)\<lparr>u_port := h, u_port_no := ucast (us_port_no x)\<rparr>\<rparr>"

text \<open>The user part read so far was the host: \<open>host = user\<close>, and there is no user.\<close>

definition user_is_host :: "uri_vars \<Rightarrow> uri_vars" where
  "user_is_host x = x\<lparr>us_uri := (us_uri x)\<lparr>u_host := u_user (us_uri x), u_user := null_str\<rparr>\<rparr>"

text \<open>Digits and their decimal value.\<close>

definition is_digit_char :: "char \<Rightarrow> bool" where
  "is_digit_char c \<longleftrightarrow> (48::nat) \<le> of_char c \<and> of_char c \<le> (57::nat)"

definition dec_value :: "string \<Rightarrow> nat" where
  "dec_value ds = foldl (\<lambda>v c. v * 10 + (of_char c - 48)) 0 ds"

text \<open>\<open>case_port\<close>: \<open>port_no = port_no * 10 + ch - '0'\<close>.\<close>

definition case_port :: "char \<Rightarrow> uri_vars \<Rightarrow> uri_vars" where
  "case_port c x = x\<lparr>us_port_no := us_port_no x * 10 + of_char c - 48\<rparr>"

definition still_at_user :: "nat \<Rightarrow> uri_vars \<Rightarrow> uri_res" where
  "still_at_user p x =
     (if us_found_user x then Inl E_bad_char
      else case str_s (u_host (us_uri x)) of
             Buf h \<Rightarrow>
               Inr (x\<lparr>us_uri := zero_uri\<lparr>u_type := u_type (us_uri x),
                        u_user := (case us_pass x of Some q \<Rightarrow> span h q | None \<Rightarrow> span h p),
                        u_passwd := (case us_pass x of Some q \<Rightarrow> span (q + 1) p | None \<Rightarrow> null_str)\<rparr>,
                      us_s := p + 1, us_found_user := True, us_error_headers := False,
                      us_state := URI_HOST\<rparr>)
           | _ \<Rightarrow> Inl E_undefined)"

definition check_host_end :: "nat \<Rightarrow> char \<Rightarrow> uri_vars \<Rightarrow> uri_res \<Rightarrow> uri_res" where
  "check_host_end p c x dflt =
     (if c = CHR '':'' then
        Inr ((set_host (span (us_s x) p) x)\<lparr>us_state := URI_PORT, us_s := p + 1\<rparr>)
      else if c = CHR '';'' then
        Inr ((set_host (span (us_s x) p) x)\<lparr>us_state := URI_PARAM, us_s := p + 1\<rparr>)
      else if c = CHR ''?'' then
        Inr ((set_host (span (us_s x) p) x)\<lparr>us_state := URI_HEADERS, us_s := p + 1\<rparr>)
      else if c = CHR ''&'' \<or> c = CHR ''@'' then Inl E_bad_char
      else dflt)"

text \<open>\<open>param->s = ..., param_val->s = ...\<close> through the two pointers.\<close>

fun put_param :: "uri_param \<Rightarrow> cstr \<Rightarrow> cstr \<Rightarrow> sip_uri \<Rightarrow> sip_uri" where
  "put_param P_transport n v u = u\<lparr>u_transport := n, u_transport_val := v\<rparr>"
| "put_param P_ttl n v u = u\<lparr>u_ttl := n, u_ttl_val := v\<rparr>"
| "put_param P_user_param n v u = u\<lparr>u_user_param := n, u_user_param_val := v\<rparr>"
| "put_param P_method n v u = u\<lparr>u_method := n, u_method_val := v\<rparr>"
| "put_param P_maddr n v u = u\<lparr>u_maddr := n, u_maddr_val := v\<rparr>"
| "put_param P_lr n v u = u\<lparr>u_lr := n, u_lr_val := v\<rparr>"
| "put_param P_r2 n v u = u\<lparr>u_r2 := n, u_r2_val := v\<rparr>"

definition param_set :: "nat \<Rightarrow> uri_vars \<Rightarrow> uri_res" where
  "param_set p x =
     (case (us_param x, us_b x, us_v x) of
        (Some pr, Some b, Some v) \<Rightarrow>
          Inr (x\<lparr>us_uri := put_param pr (span b p) (span v p) (us_uri x)\<rparr>)
      | _ \<Rightarrow> Inl E_undefined)"

text \<open>No user: a password cannot hold the character just read.\<close>

definition drop_pass :: "uri_vars \<Rightarrow> uri_vars" where
  "drop_pass x = (if us_pass x \<noteq> None then x\<lparr>us_found_user := True, us_pass := None\<rparr> else x)"

definition semicolon_case :: "uri_vars \<Rightarrow> uri_vars" where
  "semicolon_case x = set_state URI_PARAM (drop_pass x)"

definition question_case :: "nat \<Rightarrow> uri_vars \<Rightarrow> uri_vars" where
  "question_case p x =
     drop_pass ((set_params (span (us_s x) p) x)\<lparr>us_state := URI_HEADERS, us_s := p + 1\<rparr>)"

definition colon_pass :: "nat \<Rightarrow> uri_vars \<Rightarrow> uri_vars" where
  "colon_pass p x =
     (if \<not> us_found_user x then
        (if us_pass x \<noteq> None then x\<lparr>us_found_user := True, us_pass := None\<rparr>
         else x\<lparr>us_pass := Some p\<rparr>)
      else x)"

definition colon_case :: "nat \<Rightarrow> uri_vars \<Rightarrow> uri_vars" where
  "colon_case p x = set_state URI_PARAM_P (colon_pass p x)"

definition param_common_cases :: "nat \<Rightarrow> char \<Rightarrow> uri_vars \<Rightarrow> uri_res \<Rightarrow> uri_res" where
  "param_common_cases p c x dflt =
     (if c = CHR ''@'' then still_at_user p x
      else if c = CHR '';'' then Inr (semicolon_case x)
      else if c = CHR ''?'' then Inr (question_case p x)
      else if c = CHR '':'' then Inr (colon_case p x)
      else dflt)"

definition value_common_cases :: "nat \<Rightarrow> char \<Rightarrow> uri_vars \<Rightarrow> uri_res \<Rightarrow> uri_res" where
  "value_common_cases p c x dflt =
     (if c = CHR ''@'' then still_at_user p x
      else if c = CHR '';'' then param_set p (semicolon_case x)
      else if c = CHR ''?'' then param_set p (question_case p x)
      else if c = CHR '':'' then Inr (set_state URI_VAL_P (colon_case p x))
      else dflt)"

definition param_switch :: "char \<Rightarrow> char \<Rightarrow> uri_state \<Rightarrow> nat \<Rightarrow> char \<Rightarrow> uri_vars \<Rightarrow> uri_res" where
  "param_switch c1 c2 new_state p c x =
     (if c = c1 \<or> c = c2 then Inr (set_state new_state x)
      else param_common_cases p c x (Inr (set_state URI_PARAM_P x)))"

definition param_switch1 :: "char \<Rightarrow> uri_state \<Rightarrow> nat \<Rightarrow> char \<Rightarrow> uri_vars \<Rightarrow> uri_res" where
  "param_switch1 c1 new_state p c x =
     (if c = c1 then Inr (set_state new_state x)
      else param_common_cases p c x (Inr (set_state URI_PARAM_P x)))"

definition param_switch_big :: "char \<Rightarrow> char \<Rightarrow> char \<Rightarrow> char \<Rightarrow> uri_state \<Rightarrow> uri_state \<Rightarrow>
    nat \<Rightarrow> char \<Rightarrow> uri_vars \<Rightarrow> uri_res" where
  "param_switch_big c1 c2 d1 d2 new_state_c new_state_d p c x =
     (if c = c1 \<or> c = c2 then Inr (set_state new_state_c x)
      else if c = d1 \<or> c = d2 then Inr (set_state new_state_d x)
      else param_common_cases p c x (Inr (set_state URI_PARAM_P x)))"

definition value_switch :: "char \<Rightarrow> char \<Rightarrow> uri_state \<Rightarrow> nat \<Rightarrow> char \<Rightarrow> uri_vars \<Rightarrow> uri_res" where
  "value_switch c1 c2 new_state p c x =
     (if c = c1 \<or> c = c2 then Inr (set_state new_state x)
      else value_common_cases p c x (Inr (set_state URI_VAL_P x)))"

definition value_switch_big :: "char \<Rightarrow> char \<Rightarrow> char \<Rightarrow> char \<Rightarrow> uri_state \<Rightarrow> uri_state \<Rightarrow>
    nat \<Rightarrow> char \<Rightarrow> uri_vars \<Rightarrow> uri_res" where
  "value_switch_big c1 c2 d1 d2 new_state_c new_state_d p c x =
     (if c = c1 \<or> c = c2 then Inr (set_state new_state_c x)
      else if c = d1 \<or> c = d2 then Inr (set_state new_state_d x)
      else value_common_cases p c x (Inr (set_state URI_VAL_P x)))"

definition set_proto :: "u16 \<Rightarrow> uri_vars \<Rightarrow> uri_vars" where
  "set_proto pr x = x\<lparr>us_uri := (us_uri x)\<lparr>u_proto := pr\<rparr>\<rparr>"

text \<open>In \<open>transport_fin\<close> the colon case has no \<open>break\<close> and runs into the default.\<close>

definition transport_fin :: "u16 \<Rightarrow> nat \<Rightarrow> char \<Rightarrow> uri_vars \<Rightarrow> uri_res" where
  "transport_fin proto_no p c x =
     (if c = CHR ''@'' then still_at_user p x
      else if c = CHR '';'' then
        ebind (param_set p (semicolon_case x)) (\<lambda>y. Inr (set_proto proto_no y))
      else if c = CHR ''?'' then
        ebind (param_set p (question_case p x)) (\<lambda>y. Inr (set_proto proto_no y))
      else if c = CHR '':'' then Inr (set_state URI_VAL_P (colon_case p x))
      else Inr (set_state URI_VAL_P x))"

text \<open>The states \<open>..._eq\<close> after a parameter name: where its value is stored, and where it starts.\<close>

definition param_eq :: "uri_param \<Rightarrow> nat \<Rightarrow> char \<Rightarrow> uri_vars \<Rightarrow> uri_res" where
  "param_eq pr p c x =
     (let y = x\<lparr>us_param := Some pr\<rparr>
      in param_common_cases p c y (Inr (y\<lparr>us_v := Some p, us_state := URI_VAL_P\<rparr>)))"

text \<open>\<open>lr\<close> and \<open>r2\<close> may stand without a value.\<close>

definition flag_fin :: "(cstr \<Rightarrow> sip_uri \<Rightarrow> sip_uri) \<Rightarrow> uri_state \<Rightarrow> nat \<Rightarrow> char \<Rightarrow> uri_vars \<Rightarrow> uri_res" where
  "flag_fin put eq_state p c x =
     (let store = (\<lambda>y. case us_b y of
                      Some b \<Rightarrow> Inr (y\<lparr>us_uri := put (span b p) (us_uri y)\<rparr>)
                    | None \<Rightarrow> Inl E_undefined)
      in if c = CHR ''@'' then still_at_user p x
         else if c = CHR ''='' then Inr (set_state eq_state x)
         else if c = CHR '';'' then store (semicolon_case x)
         else if c = CHR ''?'' then store (question_case p x)
         else if c = CHR '':'' then Inr (colon_case p x)
         else Inr (set_state URI_PARAM_P x))"

section \<open>One character\<close>

text \<open>\<open>URI_USER\<close>, \<open>URI_PASSWORD\<close> and \<open>URI_PASSWORD_ALPHA\<close>: user and password, or host and port.\<close>

definition found_user :: "(cstr \<Rightarrow> sip_uri \<Rightarrow> sip_uri) \<Rightarrow> nat \<Rightarrow> uri_vars \<Rightarrow> uri_vars" where
  "found_user put p x = x\<lparr>us_uri := put (span (us_s x) p) (us_uri x), us_state := URI_HOST,
     us_found_user := True, us_s := p + 1\<rparr>"

definition step_init :: "nat \<Rightarrow> char \<Rightarrow> uri_vars \<Rightarrow> uri_res" where
  "step_init p c x =
     (if c = CHR ''['' then Inr (x\<lparr>us_state := URI_HOST6_P, us_s := p\<rparr>)
      else if c = CHR '']'' \<or> c = CHR '':'' \<or> c = CHR ''@'' then Inl E_bad_char
      else Inr (set_state URI_USER x))"

definition step_user :: "nat \<Rightarrow> char \<Rightarrow> uri_vars \<Rightarrow> uri_res" where
  "step_user p c x =
     (if c = CHR ''@'' then Inr (found_user (\<lambda>w u. u\<lparr>u_user := w\<rparr>) p x)
      else if c = CHR '':'' then
        Inr (x\<lparr>us_uri := (us_uri x)\<lparr>u_user := span (us_s x) p\<rparr>, us_state := URI_PASSWORD, us_s := p + 1\<rparr>)
      else if c = CHR '';'' then
        Inr ((set_host (span (us_s x) p) x)\<lparr>us_state := URI_PARAM, us_s := p + 1\<rparr>)
      else if c = CHR ''?'' then
        Inr ((set_host (span (us_s x) p) x)\<lparr>us_state := URI_HEADERS, us_s := p + 1\<rparr>)
      else if c = CHR ''['' \<or> c = CHR '']'' then Inl E_bad_char
      else Inr x)"

definition port_not_password :: "uri_state \<Rightarrow> nat \<Rightarrow> uri_vars \<Rightarrow> uri_vars" where
  "port_not_password q p x =
     (user_is_host (set_port (span (us_s x) p) x))\<lparr>us_state := q, us_found_user := True, us_s := p + 1\<rparr>"

definition step_password :: "nat \<Rightarrow> char \<Rightarrow> uri_vars \<Rightarrow> uri_res" where
  "step_password p c x =
     (if c = CHR ''@'' then
        Inr ((found_user (\<lambda>w u. u\<lparr>u_passwd := w\<rparr>) p x)\<lparr>us_port_no := 0\<rparr>)
      else if c = CHR '';'' then Inr (port_not_password URI_PARAM p x)
      else if c = CHR ''?'' then Inr (port_not_password URI_HEADERS p x)
      else if is_digit_char c then Inr (case_port c x)
      else if c = CHR ''['' \<or> c = CHR '']'' \<or> c = CHR '':'' then Inl E_bad_char
      else Inr (x\<lparr>us_port_no := 0, us_state := URI_PASSWORD_ALPHA\<rparr>))"

definition step_password_alpha :: "nat \<Rightarrow> char \<Rightarrow> uri_vars \<Rightarrow> uri_res" where
  "step_password_alpha p c x =
     (if c = CHR ''@'' then Inr (found_user (\<lambda>w u. u\<lparr>u_passwd := w\<rparr>) p x)
      else if c = CHR '';'' \<or> c = CHR ''?'' then Inl E_bad_port
      else if c = CHR ''['' \<or> c = CHR '']'' \<or> c = CHR '':'' then Inl E_bad_char
      else Inr x)"

text \<open>The host, a name or a bracketed address, and the port.\<close>

definition step_host :: "nat \<Rightarrow> char \<Rightarrow> uri_vars \<Rightarrow> uri_res" where
  "step_host p c x =
     (if c = CHR ''['' then Inr (set_state URI_HOST6_P x)
      else if c = CHR '':'' \<or> c = CHR '';'' \<or> c = CHR ''?'' \<or> c = CHR ''&'' \<or> c = CHR ''@''
      then Inl E_bad_host
      else Inr (set_state URI_HOST_P x))"

definition step_host6_p :: "nat \<Rightarrow> char \<Rightarrow> uri_vars \<Rightarrow> uri_res" where
  "step_host6_p p c x =
     (if c = CHR '']'' then Inr (set_state URI_HOST6_END x)
      else if c = CHR ''['' \<or> c = CHR ''&'' \<or> c = CHR ''@'' \<or> c = CHR '';'' \<or> c = CHR ''?''
      then Inl E_bad_host
      else Inr x)"

definition step_port :: "nat \<Rightarrow> char \<Rightarrow> uri_vars \<Rightarrow> uri_res" where
  "step_port p c x =
     (if c = CHR '';'' then
        Inr ((set_port (span (us_s x) p) x)\<lparr>us_state := URI_PARAM, us_s := p + 1\<rparr>)
      else if c = CHR ''?'' then
        Inr ((set_port (span (us_s x) p) x)\<lparr>us_state := URI_HEADERS, us_s := p + 1\<rparr>)
      else if is_digit_char c then Inr (case_port c x)
      else Inl E_bad_port)"

text \<open>
  The start of a parameter. The case of \<open>r\<close> has no \<open>break\<close>: \<open>state = PR2_R\<close> is overwritten by
  the default's \<open>state = URI_PARAM_P\<close>.
\<close>

definition step_param :: "nat \<Rightarrow> char \<Rightarrow> uri_vars \<Rightarrow> uri_res" where
  "step_param p c x =
     param_common_cases p c x
      (if c = CHR ''t'' \<or> c = CHR ''T'' then Inr (x\<lparr>us_b := Some p, us_state := PT_T\<rparr>)
       else if c = CHR ''u'' \<or> c = CHR ''U'' then Inr (x\<lparr>us_b := Some p, us_state := PU_U\<rparr>)
       else if c = CHR ''m'' \<or> c = CHR ''M'' then Inr (x\<lparr>us_b := Some p, us_state := PM_M\<rparr>)
       else if c = CHR ''l'' \<or> c = CHR ''L'' then Inr (x\<lparr>us_b := Some p, us_state := PLR_L\<rparr>)
       else if c = CHR ''r'' \<or> c = CHR ''R'' then
         Inr (set_state URI_PARAM_P (x\<lparr>us_b := Some p, us_state := PR2_R\<rparr>))
       else Inr (set_state URI_PARAM_P x))"

definition step_pt_eq :: "nat \<Rightarrow> char \<Rightarrow> uri_vars \<Rightarrow> uri_res" where
  "step_pt_eq p c x =
     (let y = x\<lparr>us_param := Some P_transport\<rparr>;
          z = y\<lparr>us_v := Some p\<rparr>
      in param_common_cases p c y
          (if c = CHR ''u'' \<or> c = CHR ''U'' then Inr (set_state VU_U z)
           else if c = CHR ''t'' \<or> c = CHR ''T'' then Inr (set_state VT_T z)
           else if c = CHR ''s'' \<or> c = CHR ''S'' then Inr (set_state VS_S z)
           else Inr (set_state URI_VAL_P z)))"

definition step_headers :: "nat \<Rightarrow> char \<Rightarrow> uri_vars \<Rightarrow> uri_res" where
  "step_headers p c x =
     (if c = CHR ''@'' then still_at_user p x
      else if c = CHR '';'' then
        (if us_found_user x then Inl E_bad_char
         else if us_pass x \<noteq> None then Inl E_headers
         else Inr (x\<lparr>us_error_headers := True\<rparr>))
      else if c = CHR '':'' then Inr (colon_pass p x)
      else if c = CHR ''?'' then Inr (drop_pass x)
      else Inr x)"

definition step_param_names :: "nat \<Rightarrow> char \<Rightarrow> uri_vars \<Rightarrow> uri_res" where
  "step_param_names p c x =
     (case us_state x of
        PT_T \<Rightarrow> param_switch_big CHR ''r'' CHR ''R'' CHR ''t'' CHR ''T'' PT_R PTTL_T2 p c x
      | PT_R \<Rightarrow> param_switch CHR ''a'' CHR ''A'' PT_A p c x
      | PT_A \<Rightarrow> param_switch CHR ''n'' CHR ''N'' PT_N p c x
      | PT_N \<Rightarrow> param_switch CHR ''s'' CHR ''S'' PT_S p c x
      | PT_S \<Rightarrow> param_switch CHR ''p'' CHR ''P'' PT_P p c x
      | PT_P \<Rightarrow> param_switch CHR ''o'' CHR ''O'' PT_O p c x
      | PT_O \<Rightarrow> param_switch CHR ''r'' CHR ''R'' PT_R2 p c x
      | PT_R2 \<Rightarrow> param_switch CHR ''t'' CHR ''T'' PT_T2 p c x
      | PT_T2 \<Rightarrow> param_switch1 CHR ''='' PT_eq p c x
      | PTTL_T2 \<Rightarrow> param_switch CHR ''l'' CHR ''L'' PTTL_L p c x
      | PTTL_L \<Rightarrow> param_switch1 CHR ''='' PTTL_eq p c x
      | PTTL_eq \<Rightarrow> param_eq P_ttl p c x
      | PU_U \<Rightarrow> param_switch CHR ''s'' CHR ''S'' PU_S p c x
      | PU_S \<Rightarrow> param_switch CHR ''e'' CHR ''E'' PU_E p c x
      | PU_E \<Rightarrow> param_switch CHR ''r'' CHR ''R'' PU_R p c x
      | PU_R \<Rightarrow> param_switch1 CHR ''='' PU_eq p c x
      | PU_eq \<Rightarrow> param_eq P_user_param p c x
      | PM_M \<Rightarrow> param_switch_big CHR ''e'' CHR ''E'' CHR ''a'' CHR ''A'' PM_E PMA_A p c x
      | PM_E \<Rightarrow> param_switch CHR ''t'' CHR ''T'' PM_T p c x
      | PM_T \<Rightarrow> param_switch CHR ''h'' CHR ''H'' PM_H p c x
      | PM_H \<Rightarrow> param_switch CHR ''o'' CHR ''O'' PM_O p c x
      | PM_O \<Rightarrow> param_switch CHR ''d'' CHR ''D'' PM_D p c x
      | PM_D \<Rightarrow> param_switch1 CHR ''='' PM_eq p c x
      | PM_eq \<Rightarrow> param_eq P_method p c x
      | PMA_A \<Rightarrow> param_switch CHR ''d'' CHR ''D'' PMA_D p c x
      | PMA_D \<Rightarrow> param_switch CHR ''d'' CHR ''D'' PMA_D2 p c x
      | PMA_D2 \<Rightarrow> param_switch CHR ''r'' CHR ''R'' PMA_R p c x
      | PMA_R \<Rightarrow> param_switch1 CHR ''='' PMA_eq p c x
      | PMA_eq \<Rightarrow> param_eq P_maddr p c x
      | PLR_L \<Rightarrow> param_switch CHR ''r'' CHR ''R'' PLR_R_FIN p c x
      | PLR_R_FIN \<Rightarrow> flag_fin (\<lambda>w u. u\<lparr>u_lr := w\<rparr>) PLR_eq p c x
      | PLR_eq \<Rightarrow> param_eq P_lr p c x
      | PR2_R \<Rightarrow> param_switch1 CHR ''2'' PR2_2_FIN p c x
      | PR2_2_FIN \<Rightarrow> flag_fin (\<lambda>w u. u\<lparr>u_r2 := w\<rparr>) PR2_eq p c x
      | PR2_eq \<Rightarrow> param_eq P_r2 p c x
      | _ \<Rightarrow> Inl E_bug)"

definition step_transport_values :: "nat \<Rightarrow> char \<Rightarrow> uri_vars \<Rightarrow> uri_res" where
  "step_transport_values p c x =
     (case us_state x of
        VU_U \<Rightarrow> value_switch CHR ''d'' CHR ''D'' VU_D p c x
      | VU_D \<Rightarrow> value_switch CHR ''p'' CHR ''P'' VU_P_FIN p c x
      | VU_P_FIN \<Rightarrow> transport_fin PROTO_UDP p c x
      | VT_T \<Rightarrow> value_switch_big CHR ''c'' CHR ''C'' CHR ''l'' CHR ''L'' VT_C VTLS_L p c x
      | VT_C \<Rightarrow> value_switch CHR ''p'' CHR ''P'' VT_P_FIN p c x
      | VT_P_FIN \<Rightarrow> transport_fin PROTO_TCP p c x
      | VTLS_L \<Rightarrow> value_switch CHR ''s'' CHR ''S'' VTLS_S_FIN p c x
      | VTLS_S_FIN \<Rightarrow> transport_fin PROTO_TLS p c x
      | VS_S \<Rightarrow> value_switch CHR ''c'' CHR ''C'' VS_C p c x
      | VS_C \<Rightarrow> value_switch CHR ''t'' CHR ''T'' VS_T p c x
      | VS_T \<Rightarrow> value_switch CHR ''p'' CHR ''P'' VS_P_FIN p c x
      | VS_P_FIN \<Rightarrow> transport_fin PROTO_SCTP p c x
      | _ \<Rightarrow> step_param_names p c x)"

definition uri_step :: "nat \<Rightarrow> char \<Rightarrow> uri_vars \<Rightarrow> uri_res" where
  "uri_step p c x =
     (case us_state x of
        URI_INIT \<Rightarrow> step_init p c x
      | URI_USER \<Rightarrow> step_user p c x
      | URI_PASSWORD \<Rightarrow> step_password p c x
      | URI_PASSWORD_ALPHA \<Rightarrow> step_password_alpha p c x
      | URI_HOST \<Rightarrow> step_host p c x
      | URI_HOST_P \<Rightarrow> check_host_end p c x (Inr x)
      | URI_HOST6_END \<Rightarrow> check_host_end p c x (Inl E_bad_host)
      | URI_HOST6_P \<Rightarrow> step_host6_p p c x
      | URI_PORT \<Rightarrow> step_port p c x
      | URI_PARAM \<Rightarrow> step_param p c x
      | URI_PARAM_P \<Rightarrow> param_common_cases p c x (Inr x)
      | PT_eq \<Rightarrow> step_pt_eq p c x
      | URI_VAL_P \<Rightarrow> value_common_cases p c x (Inr x)
      | URI_HEADERS \<Rightarrow> step_headers p c x
      | _ \<Rightarrow> step_transport_values p c x)"

text \<open>The loop over \<open>p\<close>.\<close>

fun uri_loop :: "nat \<Rightarrow> string \<Rightarrow> uri_vars \<Rightarrow> uri_res" where
  "uri_loop p [] x = Inr x"
| "uri_loop p (c # cs) x = ebind (uri_step p c x) (\<lambda>y. uri_loop (p + 1) cs y)"

section \<open>The end of the input\<close>

definition end_params :: "nat \<Rightarrow> uri_vars \<Rightarrow> uri_vars" where
  "end_params p x = set_params (span (us_s x) p) x"

definition end_flag :: "(cstr \<Rightarrow> sip_uri \<Rightarrow> sip_uri) \<Rightarrow> nat \<Rightarrow> uri_vars \<Rightarrow> uri_res" where
  "end_flag put p x =
     (case us_b x of
        Some b \<Rightarrow> let y = end_params p x in Inr (y\<lparr>us_uri := put (span b p) (us_uri y)\<rparr>)
      | None \<Rightarrow> Inl E_undefined)"

definition end_proto :: "u16 \<Rightarrow> nat \<Rightarrow> uri_vars \<Rightarrow> uri_res" where
  "end_proto pr p x = ebind (param_set p (end_params p x)) (\<lambda>y. Inr (set_proto pr y))"

text \<open>
  The states in which the URI may end inside its parameters. The states of the \<open>maddr\<close>
  parameter are not listed in the code: they fall into the default, \<open>error_bug\<close>.
\<close>

definition uri_end_params :: "nat \<Rightarrow> uri_vars \<Rightarrow> uri_res" where
  "uri_end_params p x =
     (let st = us_state x
      in if st \<in> {URI_PARAM, URI_PARAM_P, PT_T, PT_R, PT_A, PT_N, PT_S, PT_P, PT_O, PT_R2, PT_T2,
                  PT_eq, PTTL_T2, PTTL_L, PTTL_eq, PU_U, PU_S, PU_E, PU_R, PU_eq,
                  PM_M, PM_E, PM_T, PM_H, PM_O, PM_D, PM_eq, PLR_L, PR2_R}
         then Inr (end_params p x)
         else if st = PLR_R_FIN \<or> st = PLR_eq then end_flag (\<lambda>w u. u\<lparr>u_lr := w\<rparr>) p x
         else if st = PR2_2_FIN \<or> st = PR2_eq then end_flag (\<lambda>w u. u\<lparr>u_r2 := w\<rparr>) p x
         else if st \<in> {URI_VAL_P, VU_U, VU_D, VT_T, VT_C, VTLS_L, VS_S, VS_C, VS_T}
         then param_set p (end_params p x)
         else if st = VU_P_FIN then end_proto PROTO_UDP p x
         else if st = VT_P_FIN then end_proto PROTO_TCP p x
         else if st = VTLS_S_FIN then end_proto PROTO_TLS p x
         else if st = VS_P_FIN then end_proto PROTO_SCTP p x
         else Inl E_bug)"

definition uri_end :: "nat \<Rightarrow> uri_vars \<Rightarrow> uri_res" where
  "uri_end p x =
     (case us_state x of
        URI_INIT \<Rightarrow> Inl E_too_short
      | URI_USER \<Rightarrow>
          if us_found_user x then Inl E_bad_uri
          else Inr ((set_host (span (us_s x) p) x)\<lparr>us_state := URI_HOST\<rparr>)
      | URI_PASSWORD \<Rightarrow>
          if us_found_user x then Inl E_bad_port
          else Inr (user_is_host (set_port (span (us_s x) p) x))
      | URI_PASSWORD_ALPHA \<Rightarrow> Inl E_bad_port
      | URI_HOST_P \<Rightarrow> Inr (set_host (span (us_s x) p) x)
      | URI_HOST6_END \<Rightarrow> Inr (set_host (span (us_s x) p) x)
      | URI_HOST \<Rightarrow> Inl E_bad_host
      | URI_HOST6_P \<Rightarrow> Inl E_bad_host
      | URI_PORT \<Rightarrow> Inr (set_port (span (us_s x) p) x)
      | URI_HEADERS \<Rightarrow>
          if us_error_headers x then Inl E_headers
          else Inr (x\<lparr>us_uri := (us_uri x)\<lparr>u_headers := span (us_s x) p\<rparr>\<rparr>)
      | _ \<Rightarrow> uri_end_params p x)"

section \<open>Scheme, and the whole parser\<close>

text \<open>The first four bytes as one integer, each sign-extended as \<open>char\<close> is.\<close>

definition scheme_byte :: "char \<Rightarrow> u32" where
  "scheme_byte c = signed (of_char c :: u8)"

definition scheme_of :: "char \<Rightarrow> char \<Rightarrow> char \<Rightarrow> char \<Rightarrow> u32" where
  "scheme_of c0 c1 c2 c3 =
     or (scheme_byte c0 + push_bit 8 (scheme_byte c1) + push_bit 16 (scheme_byte c2)
         + push_bit 24 (scheme_byte c3)) 0x20202020"

definition SIP_SCH :: u32 where "SIP_SCH = 0x3a706973"
definition SIPS_SCH :: u32 where "SIPS_SCH = 0x73706973"
definition TEL_SCH :: u32 where "TEL_SCH = 0x3a6c6574"

definition init_vars :: "uri_type \<Rightarrow> nat \<Rightarrow> uri_vars" where
  "init_vars t p = \<lparr>us_state = URI_INIT, us_uri = zero_uri\<lparr>u_type := t\<rparr>, us_s = p, us_b = None,
     us_v = None, us_param = None, us_pass = None, us_port_no = 0, us_found_user = False,
     us_error_headers = False\<rparr>"

text \<open>\<open>user=phone\<close>: the URI is a telephone number with its parameters in the user part.\<close>

definition user_is_phone :: "string \<Rightarrow> sip_uri \<Rightarrow> bool" where
  "user_is_phone buf u \<longleftrightarrow> str_len (u_user_param_val u) = 5 \<and>
     same_nocase (str_bytes buf (u_user_param_val u)) ''phone''"

definition move_user_params :: "string \<Rightarrow> sip_uri \<Rightarrow> sip_uri" where
  "move_user_params buf u =
     (case (q_memchr buf CHR '';'' (u_user u), str_s (u_user u)) of
        (Some q, Buf a) \<Rightarrow>
          u\<lparr>u_params := Str (Buf (q + 1)) (int a + str_len (u_user u) - int (q + 1)),
            u_user := span a q\<rparr>
      | _ \<Rightarrow> u)"

definition uri_finish :: "string \<Rightarrow> sip_uri \<Rightarrow> uri_error + sip_uri" where
  "uri_finish buf u =
     (case u_type u of
        SIP_URI_T \<Rightarrow>
          Inr (if user_is_phone buf u then move_user_params buf (u\<lparr>u_type := TEL_URI_T\<rparr>) else u)
      | SIPS_URI_T \<Rightarrow>
          Inr (if user_is_phone buf u then move_user_params buf (u\<lparr>u_type := TELS_URI_T\<rparr>) else u)
      | TEL_URI_T \<Rightarrow> Inr (u\<lparr>u_user := u_host u, u_host := Str (Static []) 0\<rparr>)
      | TELS_URI_T \<Rightarrow> Inr (u\<lparr>u_user := u_host u, u_host := Str (Static []) 0\<rparr>)
      | ERROR_URI_T \<Rightarrow> Inl E_bad_uri)"

definition uri_run :: "string \<Rightarrow> uri_type \<Rightarrow> nat \<Rightarrow> uri_error + sip_uri" where
  "uri_run buf t p =
     ebind (uri_loop p (drop p buf) (init_vars t p)) (\<lambda>x.
       ebind (uri_end (length buf) x) (\<lambda>y. uri_finish buf (us_uri y)))"

definition parse_uri :: "string \<Rightarrow> uri_error + sip_uri" where
  "parse_uri buf =
     (case buf of
        c0 # c1 # c2 # c3 # c4 # rest \<Rightarrow>
          let scheme = scheme_of c0 c1 c2 c3
          in if scheme = SIP_SCH then uri_run buf SIP_URI_T 4
             else if scheme = SIPS_SCH then
               (if c4 = CHR '':'' then uri_run buf SIPS_URI_T 5 else Inl E_bad_uri)
             else if scheme = TEL_SCH then uri_run buf TEL_URI_T 4
             else Inl E_bad_uri
      | _ \<Rightarrow> Inl E_too_short)"

section \<open>The request URI of a message\<close>

text \<open>
  The part of \<open>struct sip_msg\<close> that caches the parsed URIs. A failed parse leaves a result
  that must not be used (its type is \<open>ERROR_URI_T\<close>): \<open>None\<close>.
\<close>

record uri_msg =
  um_new_uri :: "string option"
  um_first_line_uri :: string
  um_parsed_uri_ok :: bool
  um_parsed_uri :: "sip_uri option"
  um_parsed_orig_ruri_ok :: bool
  um_parsed_orig_ruri :: "sip_uri option"

definition parse_sip_msg_uri :: "uri_msg \<Rightarrow> int \<times> uri_msg" where
  "parse_sip_msg_uri msg =
     (if um_parsed_uri_ok msg then (1, msg)
      else let tmp = (case um_new_uri msg of Some u \<Rightarrow> u | None \<Rightarrow> um_first_line_uri msg)
           in case parse_uri tmp of
                Inl e \<Rightarrow> (-1, msg\<lparr>um_parsed_uri := None, um_parsed_uri_ok := False\<rparr>)
              | Inr u \<Rightarrow> (0, msg\<lparr>um_parsed_uri := Some u, um_parsed_uri_ok := True\<rparr>))"

definition parse_orig_ruri :: "uri_msg \<Rightarrow> int \<times> uri_msg" where
  "parse_orig_ruri msg =
     (if um_parsed_orig_ruri_ok msg then (1, msg)
      else case parse_uri (um_first_line_uri msg) of
             Inl e \<Rightarrow> (-1, msg\<lparr>um_parsed_orig_ruri := None, um_parsed_orig_ruri_ok := False\<rparr>)
           | Inr u \<Rightarrow> (0, msg\<lparr>um_parsed_orig_ruri := Some u, um_parsed_orig_ruri_ok := True\<rparr>))"

end
