(* ===== verification/Parse_Uri_Safe.thy ===== *)
theory Parse_Uri_Safe
  imports Parse_Uri Interfaces
begin

text \<open>
  Memory safety of the URI parser: an invariant of its local variables that every character
  keeps, hence every string of the result lies inside the buffer and no pointer is used
  before it is set; then the properties of the parser.
\<close>

section \<open>The invariant\<close>

definition uri_fields :: "sip_uri \<Rightarrow> cstr list" where
  "uri_fields u = [u_user u, u_passwd u, u_host u, u_port u, u_params u, u_headers u,
     u_transport u, u_ttl u, u_user_param u, u_maddr u, u_method u, u_lr u, u_r2 u,
     u_transport_val u, u_ttl_val u, u_user_param_val u, u_maddr_val u, u_method_val u,
     u_lr_val u, u_r2_val u]"

definition uri_in :: "nat \<Rightarrow> sip_uri \<Rightarrow> bool" where
  "uri_in n u = list_all (in_buf n) (uri_fields u)"

definition early :: "uri_state set" where
  "early = {URI_INIT, URI_USER, URI_PASSWORD, URI_PASSWORD_ALPHA, URI_HOST, URI_HOST_P,
     URI_HOST6_P, URI_HOST6_END, URI_PORT}"

text \<open>States in which \<open>b\<close> has not necessarily been set, and those that will store a value.\<close>

definition no_b :: "uri_state set" where
  "no_b = early \<union> {URI_PARAM, URI_PARAM_P, URI_HEADERS}"

definition in_value :: "uri_state set" where
  "in_value = {URI_VAL_P, VU_U, VU_D, VU_P_FIN, VT_T, VT_C, VT_P_FIN, VTLS_L, VTLS_S_FIN,
     VS_S, VS_C, VS_T, VS_P_FIN}"

lemmas state_sets = early_def no_b_def in_value_def

definition uri_core :: "nat \<Rightarrow> uri_vars \<Rightarrow> bool" where
  "uri_core p x \<longleftrightarrow> us_s x \<le> p \<and> uri_in p (us_uri x) \<and>
     (\<forall>b. us_b x = Some b \<longrightarrow> b \<le> p) \<and> (\<forall>v. us_v x = Some v \<longrightarrow> v \<le> p)"

text \<open>What \<open>still_at_user\<close> relies on: the host so far is in the buffer, before the password.\<close>

definition uri_host_ok :: "nat \<Rightarrow> uri_vars \<Rightarrow> bool" where
  "uri_host_ok p x \<longleftrightarrow> \<not> us_found_user x \<longrightarrow>
     (\<exists>h. str_s (u_host (us_uri x)) = Buf h \<and> h \<le> p \<and>
        (\<forall>q. us_pass x = Some q \<longrightarrow> h \<le> q \<and> q < p))"

definition uri_inv :: "nat \<Rightarrow> uri_vars \<Rightarrow> bool" where
  "uri_inv p x \<longleftrightarrow> uri_core p x \<and>
     (us_state x \<notin> early \<or> us_state x = URI_PORT \<longrightarrow> uri_host_ok p x) \<and>
     (us_state x \<in> early \<and> \<not> us_found_user x \<longrightarrow> us_pass x = None) \<and>
     (us_state x \<notin> no_b \<longrightarrow> us_b x \<noteq> None) \<and>
     (us_state x \<in> in_value \<longrightarrow> us_v x \<noteq> None \<and> us_param x \<noteq> None)"

text \<open>The outcome of one character at \<open>p\<close>: an error that is a label of the code, or the invariant.\<close>

definition res_ok :: "nat \<Rightarrow> uri_res \<Rightarrow> bool" where
  "res_ok p r = (case r of Inl e \<Rightarrow> e \<noteq> E_undefined | Inr y \<Rightarrow> uri_inv (Suc p) y)"

lemma res_ok_Inr [simp]: "res_ok p (Inr y) = uri_inv (Suc p) y"
  by (simp add: res_ok_def)

lemma res_ok_Inl [simp]: "res_ok p (Inl e) \<longleftrightarrow> e \<noteq> E_undefined"
  by (simp add: res_ok_def)

lemma uri_in_mono: "uri_in n u \<Longrightarrow> n \<le> n' \<Longrightarrow> uri_in n' u"
  by (auto simp: uri_in_def uri_fields_def intro: in_buf_mono)

lemma uri_in_simps:
  "uri_in n zero_uri"
  "uri_in n u \<Longrightarrow> in_buf n w \<Longrightarrow> uri_in n (u\<lparr>u_user := w\<rparr>)"
  "uri_in n u \<Longrightarrow> in_buf n w \<Longrightarrow> uri_in n (u\<lparr>u_passwd := w\<rparr>)"
  "uri_in n u \<Longrightarrow> in_buf n w \<Longrightarrow> uri_in n (u\<lparr>u_host := w\<rparr>)"
  "uri_in n u \<Longrightarrow> in_buf n w \<Longrightarrow> uri_in n (u\<lparr>u_params := w\<rparr>)"
  "uri_in n u \<Longrightarrow> in_buf n w \<Longrightarrow> uri_in n (u\<lparr>u_headers := w\<rparr>)"
  "uri_in n u \<Longrightarrow> in_buf n w \<Longrightarrow> uri_in n (u\<lparr>u_lr := w\<rparr>)"
  "uri_in n u \<Longrightarrow> in_buf n w \<Longrightarrow> uri_in n (u\<lparr>u_r2 := w\<rparr>)"
  "uri_in n u \<Longrightarrow> in_buf n w \<Longrightarrow> uri_in n (u\<lparr>u_port := w, u_port_no := pn\<rparr>)"
  "uri_in n u \<Longrightarrow> uri_in n (u\<lparr>u_proto := pr\<rparr>)"
  "uri_in n u \<Longrightarrow> uri_in n (u\<lparr>u_type := t\<rparr>)"
  "uri_in n u \<Longrightarrow> in_buf n (u_user u)"
  "uri_in n u \<Longrightarrow> in_buf n (u_host u)"
  by (simp_all add: uri_in_def uri_fields_def zero_uri_def)

lemma uri_in_put_param:
  "uri_in n u \<Longrightarrow> in_buf n a \<Longrightarrow> in_buf n v \<Longrightarrow> uri_in n (put_param pr a v u)"
  by (cases pr) (simp_all add: uri_in_def uri_fields_def)

lemma put_param_frame [simp]:
  "u_host (put_param pr a v u) = u_host u" "u_user (put_param pr a v u) = u_user u"
  "u_type (put_param pr a v u) = u_type u"
  by (cases pr; simp)+

lemma core_Suc: "uri_core p x \<Longrightarrow> uri_core (Suc p) x"
  using uri_in_mono [of p _ "Suc p"] by (auto simp: uri_core_def le_Suc_eq)

lemma host_ok_Suc: "uri_host_ok p x \<Longrightarrow> uri_host_ok (Suc p) x"
  by (fastforce simp: uri_host_ok_def)

section \<open>The macros keep it\<close>

text \<open>A place between two characters where a parameter state may be entered.\<close>

definition uri_mid :: "nat \<Rightarrow> uri_vars \<Rightarrow> bool" where
  "uri_mid p x \<longleftrightarrow> uri_core p x \<and> uri_host_ok p x"

lemma uri_inv_late: "uri_inv p x \<Longrightarrow> us_state x \<notin> early \<Longrightarrow> uri_mid p x"
  by (simp add: uri_inv_def uri_mid_def)

lemma set_state_ok:
  assumes "uri_mid p x" "q \<notin> early" "q \<notin> no_b \<longrightarrow> us_b x \<noteq> None"
    "q \<in> in_value \<longrightarrow> us_v x \<noteq> None \<and> us_param x \<noteq> None"
  shows "uri_inv (Suc p) (set_state q x)"
  using assms core_Suc [of p x] host_ok_Suc [of p x]
  by (auto simp: uri_inv_def uri_mid_def set_state_def uri_core_def uri_host_ok_def)

lemma stay_ok:
  assumes "uri_mid p x" "uri_inv p x" "us_state x \<notin> early"
  shows "uri_inv (Suc p) x"
  using set_state_ok [OF assms(1), of "us_state x"] assms
  by (auto simp: set_state_def uri_inv_def)

lemma drop_pass_mid: "uri_mid p x \<Longrightarrow> uri_mid p (drop_pass x)"
  by (auto simp: uri_mid_def drop_pass_def uri_core_def uri_host_ok_def)

lemma drop_pass_frame [simp]:
  "us_b (drop_pass x) = us_b x" "us_v (drop_pass x) = us_v x"
  "us_param (drop_pass x) = us_param x" "us_state (drop_pass x) = us_state x"
  "us_uri (drop_pass x) = us_uri x" "us_s (drop_pass x) = us_s x"
  by (simp_all add: drop_pass_def)

lemma case_frame [simp]:
  "us_b (semicolon_case x) = us_b x" "us_b (question_case p x) = us_b x"
  "us_state (semicolon_case x) = URI_PARAM" "us_state (question_case p x) = URI_HEADERS"
  by (simp_all add: semicolon_case_def question_case_def set_state_def set_params_def)

lemma set_state_same: "us_state x = q \<Longrightarrow> set_state q x = x"
  by (cases x) (simp add: set_state_def)

lemma in_value_late: "q \<in> in_value \<Longrightarrow> q \<notin> no_b"
  by (auto simp: state_sets)

lemma semicolon_ok: "uri_mid p x \<Longrightarrow> uri_inv (Suc p) (semicolon_case x)"
  unfolding semicolon_case_def
  by (rule set_state_ok [OF drop_pass_mid]) (auto simp: state_sets)

lemma question_ok: "uri_mid p x \<Longrightarrow> uri_inv (Suc p) (question_case p x)"
  using uri_in_mono [of p _ "Suc p"]
  by (fastforce simp: uri_inv_def uri_mid_def question_case_def drop_pass_def set_params_def
      uri_core_def uri_host_ok_def uri_in_simps state_sets)

lemma colon_pass_ok:
  assumes "uri_mid p x"
  shows "uri_core p (colon_pass p x)" "uri_host_ok (Suc p) (colon_pass p x)"
    "us_b (colon_pass p x) = us_b x" "us_v (colon_pass p x) = us_v x"
    "us_param (colon_pass p x) = us_param x" "us_state (colon_pass p x) = us_state x"
  using assms by (auto simp: colon_pass_def uri_mid_def uri_core_def uri_host_ok_def)

lemma colon_ok:
  assumes "uri_mid p x" "q \<notin> early" "q \<notin> no_b \<longrightarrow> us_b x \<noteq> None"
    "q \<in> in_value \<longrightarrow> us_v x \<noteq> None \<and> us_param x \<noteq> None"
  shows "uri_inv (Suc p) (set_state q (colon_pass p x))"
  using colon_pass_ok [OF assms(1)] core_Suc [of p "colon_pass p x"] assms(2-4)
  by (auto simp: uri_inv_def set_state_def uri_core_def uri_host_ok_def)

lemma still_at_user_ok:
  assumes "uri_mid p x"
  shows "res_ok p (still_at_user p x)"
proof (cases "us_found_user x")
  case True then show ?thesis by (simp add: still_at_user_def)
next
  case False
  then obtain h where h: "str_s (u_host (us_uri x)) = Buf h" "h \<le> p"
    "\<forall>q. us_pass x = Some q \<longrightarrow> h \<le> q \<and> q < p"
    using assms by (auto simp: uri_mid_def uri_host_ok_def)
  with False assms show ?thesis
    by (auto simp: still_at_user_def uri_inv_def uri_mid_def uri_core_def uri_in_simps state_sets
        split: option.splits)
qed

lemma param_set_inv:
  assumes "uri_inv (Suc p) y" "us_state y = URI_PARAM \<or> us_state y = URI_HEADERS"
    "us_b y = Some b" "us_v y = Some v" "us_param y = Some pr" "b \<le> p" "v \<le> p"
  shows "\<exists>z. param_set p y = Inr z \<and> uri_inv (Suc p) z \<and>
    us_state z = us_state y \<and> uri_inv (Suc p) (set_proto pn z)"
  using assms
  by (auto simp: param_set_def uri_inv_def uri_core_def uri_host_ok_def uri_in_put_param
      set_proto_def uri_in_simps state_sets)

lemma param_common_ok:
  assumes "uri_mid p x" "res_ok p d"
  shows "res_ok p (param_common_cases p c x d)"
  using assms semicolon_ok question_ok still_at_user_ok
    colon_ok [OF assms(1), of URI_PARAM_P]
  by (simp add: param_common_cases_def colon_case_def state_sets)

lemma value_store:
  assumes "uri_mid p x" "us_b x \<noteq> None" "us_v x \<noteq> None" "us_param x \<noteq> None"
  shows "\<exists>z. param_set p (semicolon_case x) = Inr z \<and> uri_inv (Suc p) z \<and>
      uri_inv (Suc p) (set_proto pn z)"
    and "\<exists>z. param_set p (question_case p x) = Inr z \<and> uri_inv (Suc p) z \<and>
      uri_inv (Suc p) (set_proto pn z)"
proof -
  obtain b v pr where b: "us_b x = Some b" "us_v x = Some v" "us_param x = Some pr"
    using assms(2-4) by auto
  have le: "b \<le> p" "v \<le> p" using assms(1) b by (auto simp: uri_mid_def uri_core_def)
  show "\<exists>z. param_set p (semicolon_case x) = Inr z \<and> uri_inv (Suc p) z \<and>
      uri_inv (Suc p) (set_proto pn z)"
    using param_set_inv [OF semicolon_ok [OF assms(1)], of b v pr pn] b le
    by (auto simp: semicolon_case_def set_state_def)
  show "\<exists>z. param_set p (question_case p x) = Inr z \<and> uri_inv (Suc p) z \<and>
      uri_inv (Suc p) (set_proto pn z)"
    using param_set_inv [OF question_ok [OF assms(1)], of b v pr pn] b le
    by (auto simp: question_case_def set_params_def)
qed

lemma value_common_ok:
  assumes "uri_mid p x" "us_b x \<noteq> None" "us_v x \<noteq> None" "us_param x \<noteq> None" "res_ok p d"
  shows "res_ok p (value_common_cases p c x d)"
proof -
  have "set_state URI_VAL_P (colon_case p x) = set_state URI_VAL_P (colon_pass p x)"
    by (simp add: colon_case_def set_state_def)
  moreover have "uri_inv (Suc p) (set_state URI_VAL_P (colon_pass p x))"
    by (rule colon_ok [OF assms(1)]) (use assms in \<open>auto simp: state_sets\<close>)
  ultimately show ?thesis
    using value_store [OF assms(1-4), of undefined] still_at_user_ok [OF assms(1)] assms(5)
    by (auto simp: value_common_cases_def)
qed

lemma ignore_ok: "uri_mid p x \<Longrightarrow> uri_inv (Suc p) (set_state URI_PARAM_P x)"
  by (rule set_state_ok) (auto simp: state_sets)

lemma param_switch_ok:
  assumes "uri_mid p x" "us_b x \<noteq> None" "q \<notin> early" "q \<notin> in_value"
  shows "res_ok p (param_switch c1 c2 q p c x)" "res_ok p (param_switch1 c1 q p c x)"
  using assms set_state_ok [OF assms(1,3)] ignore_ok [OF assms(1)]
  by (auto simp: param_switch_def param_switch1_def intro!: param_common_ok)

lemma param_switch_big_ok:
  assumes "uri_mid p x" "us_b x \<noteq> None" "q \<notin> early" "q \<notin> in_value" "q' \<notin> early" "q' \<notin> in_value"
  shows "res_ok p (param_switch_big c1 c2 d1 d2 q q' p c x)"
  using assms set_state_ok [OF assms(1,3)] set_state_ok [OF assms(1,5)] ignore_ok [OF assms(1)]
  by (auto simp: param_switch_big_def intro!: param_common_ok)

lemma value_state_ok:
  assumes "uri_mid p x" "us_b x \<noteq> None" "us_v x \<noteq> None" "us_param x \<noteq> None" "q \<in> in_value"
  shows "uri_inv (Suc p) (set_state q x)"
  by (rule set_state_ok [OF assms(1)]) (use assms in \<open>auto simp: state_sets\<close>)

lemma value_switch_ok:
  assumes "uri_mid p x" "us_b x \<noteq> None" "us_v x \<noteq> None" "us_param x \<noteq> None" "q \<in> in_value"
    "q' \<in> in_value"
  shows "res_ok p (value_switch c1 c2 q p c x)"
    and "res_ok p (value_switch_big c1 c2 d1 d2 q q' p c x)"
proof -
  have V: "URI_VAL_P \<in> in_value" by (simp add: in_value_def)
  note ok = value_state_ok [OF assms(1-4)]
  show "res_ok p (value_switch c1 c2 q p c x)"
    using ok [OF assms(5)] ok [OF V] value_common_ok [OF assms(1-4)]
    by (simp add: value_switch_def)
  show "res_ok p (value_switch_big c1 c2 d1 d2 q q' p c x)"
    using ok [OF assms(5)] ok [OF assms(6)] ok [OF V] value_common_ok [OF assms(1-4)]
    by (simp add: value_switch_big_def)
qed

lemma transport_fin_ok:
  assumes "uri_mid p x" "us_b x \<noteq> None" "us_v x \<noteq> None" "us_param x \<noteq> None"
  shows "res_ok p (transport_fin pr p c x)"
proof -
  have V: "URI_VAL_P \<in> in_value" by (simp add: in_value_def)
  have "set_state URI_VAL_P (colon_case p x) = set_state URI_VAL_P (colon_pass p x)"
    by (simp add: colon_case_def set_state_def)
  moreover have "uri_inv (Suc p) (set_state URI_VAL_P (colon_pass p x))"
    by (rule colon_ok [OF assms(1)]) (use assms in \<open>auto simp: state_sets\<close>)
  ultimately show ?thesis
    using value_store [OF assms, of pr] still_at_user_ok [OF assms(1)]
      value_state_ok [OF assms V]
    by (auto simp: transport_fin_def)
qed

lemma param_eq_ok:
  assumes "uri_mid p x" "us_b x \<noteq> None"
  shows "res_ok p (param_eq pr p c x)" "res_ok p (step_pt_eq p c x)"
proof -
  have "uri_mid p (x\<lparr>us_param := Some r\<rparr>)" "uri_mid p (x\<lparr>us_param := Some r, us_v := Some p\<rparr>)" for r
    using assms(1) by (auto simp: uri_mid_def uri_core_def uri_host_ok_def)
  note mid = this
  have val: "uri_inv (Suc p) (set_state q (x\<lparr>us_param := Some r, us_v := Some p\<rparr>))"
    if "q \<in> in_value" for q r
    by (rule value_state_ok [OF mid(2) _ _ _ that]) (use assms(2) in simp_all)
  have "uri_inv (Suc p) (x\<lparr>us_param := Some r, us_v := Some p, us_state := URI_VAL_P\<rparr>)" for r
    using val [of URI_VAL_P r] by (simp add: set_state_def in_value_def)
  then show "res_ok p (param_eq pr p c x)"
    by (auto simp: param_eq_def Let_def intro!: param_common_ok [OF mid(1)])
  show "res_ok p (step_pt_eq p c x)"
    using val by (auto simp: step_pt_eq_def Let_def in_value_def intro!: param_common_ok [OF mid(1)])
qed

lemma flag_fin_ok:
  assumes "uri_mid p x" "us_b x \<noteq> None" "q \<notin> early" "q \<notin> in_value"
    and put: "\<And>n u w. uri_in n u \<Longrightarrow> in_buf n w \<Longrightarrow> uri_in n (put w u)"
      "\<And>u w. u_host (put w u) = u_host u"
  shows "res_ok p (flag_fin put q p c x)"
proof -
  obtain b where b: "us_b x = Some b" "b \<le> p"
    using assms(1,2) by (auto simp: uri_mid_def uri_core_def)
  have store: "uri_inv (Suc p) (y\<lparr>us_uri := put (span b p) (us_uri y)\<rparr>)" if "uri_inv (Suc p) y" for y
    using that b put by (auto simp: uri_inv_def uri_core_def uri_host_ok_def)
  have colon: "uri_inv (Suc p) (set_state URI_PARAM_P (colon_pass p x))"
    by (rule colon_ok [OF assms(1)]) (auto simp: state_sets)
  have eq: "uri_inv (Suc p) (set_state q x)"
    by (rule set_state_ok [OF assms(1,3)]) (use assms(2,4) in simp_all)
  show ?thesis
    by (simp add: flag_fin_def Let_def b(1) colon_case_def colon eq ignore_ok [OF assms(1)]
        still_at_user_ok [OF assms(1)] store [OF semicolon_ok [OF assms(1)]]
        store [OF question_ok [OF assms(1)]])
qed

section \<open>Every step keeps it\<close>

lemma core_facts:
  assumes "uri_core p x"
  shows "us_s x \<le> p" "us_s x \<le> Suc p" "uri_in p (us_uri x)" "uri_in (Suc p) (us_uri x)"
    "\<forall>b. us_b x = Some b \<longrightarrow> b \<le> Suc p" "\<forall>v. us_v x = Some v \<longrightarrow> v \<le> Suc p"
  using assms core_Suc [OF assms] by (auto simp: uri_core_def)

lemma early_inv:
  assumes "uri_inv p x" "us_state x \<in> early"
  shows "uri_core p x" "us_found_user x \<or> us_pass x = None"
    "us_state x = URI_PORT \<longrightarrow> uri_host_ok p x"
  using assms by (auto simp: uri_inv_def)

lemma early_introI:
  assumes "uri_core p y" "us_found_user y \<or> us_pass y = None" "us_state y \<in> early - {URI_PORT}"
  shows "uri_inv p y"
  using assms by (auto simp: uri_inv_def state_sets)

lemma late_introI:
  assumes "uri_core p y" "us_found_user y \<or> us_pass y = None" "uri_host_ok p y"
    "us_state y \<in> {URI_PORT, URI_PARAM, URI_HEADERS}"
  shows "uri_inv p y"
  using assms by (auto simp: uri_inv_def state_sets)

lemma early_found_ok:
  assumes "uri_core p x"
    and put: "\<And>n u w. uri_in n u \<Longrightarrow> in_buf n w \<Longrightarrow> uri_in n (put w u)"
  shows "uri_inv (Suc p) (found_user put p x)"
  by (rule early_introI)
    (simp_all add: found_user_def uri_core_def early_def put core_facts [OF assms(1)])

lemma early_stay_ok:
  assumes "uri_inv p x" "us_state x \<in> early" "q \<in> early - {URI_PORT}"
  shows "uri_inv (Suc p) (set_state q x)"
  by (rule early_introI)
    (use early_inv [OF assms(1,2)] core_facts [OF early_inv(1) [OF assms(1,2)]] assms(3) in
      \<open>simp_all add: set_state_def uri_core_def\<close>)

lemma early_host_ok:
  assumes "uri_inv p x" "us_state x \<in> early" "q \<in> {URI_PORT, URI_PARAM, URI_HEADERS}"
  shows "uri_inv (Suc p) ((set_host (span (us_s x) p) x)\<lparr>us_state := q, us_s := p + 1\<rparr>)"
  by (rule late_introI)
    (use early_inv [OF assms(1,2)] core_facts [OF early_inv(1) [OF assms(1,2)]] assms(3) in
      \<open>auto simp: set_host_def uri_core_def uri_host_ok_def uri_in_simps\<close>)

lemma early_port_ok:
  assumes "uri_inv p x" "us_state x = URI_PORT" "q \<in> {URI_PARAM, URI_HEADERS}"
  shows "uri_inv (Suc p) ((set_port (span (us_s x) p) x)\<lparr>us_state := q, us_s := p + 1\<rparr>)"
proof -
  have e: "us_state x \<in> early" using assms(2) by (simp add: early_def)
  show ?thesis
    by (rule late_introI)
      (use early_inv [OF assms(1) e] core_facts [OF early_inv(1) [OF assms(1) e]] assms(2,3) in
        \<open>auto simp: set_port_def uri_core_def uri_host_ok_def uri_in_simps\<close>)
qed

lemma port_not_password_ok:
  assumes "uri_inv p x" "q \<in> {URI_PARAM, URI_HEADERS}"
  shows "uri_inv (Suc p) (port_not_password q p x)"
proof -
  have c: "uri_core p x" using assms(1) by (simp add: uri_inv_def)
  have u: "in_buf (Suc p) (u_user (us_uri x))" using core_facts(4) [OF c] by (rule uri_in_simps)
  show ?thesis
    by (rule late_introI)
      (use core_facts [OF c] u assms(2) in
        \<open>auto simp: port_not_password_def user_is_host_def set_port_def uri_core_def
          uri_host_ok_def uri_in_simps\<close>)
qed

lemma early_same_ok:
  assumes "uri_inv p x" "us_state x \<in> early"
  shows "uri_inv (Suc p) x" "uri_inv (Suc p) (case_port c x)"
proof -
  show "uri_inv (Suc p) x"
    using assms core_Suc [of p x] host_ok_Suc [of p x] by (auto simp: uri_inv_def)
  then show "uri_inv (Suc p) (case_port c x)"
    by (auto simp: uri_inv_def case_port_def uri_core_def uri_host_ok_def)
qed

lemma check_host_end_ok:
  assumes "uri_inv p x" "us_state x \<in> early" "res_ok p d"
  shows "res_ok p (check_host_end p c x d)"
  using early_host_ok [OF assms(1,2)] assms(3) by (simp add: check_host_end_def)

lemma step_early_ok:
  assumes "uri_inv p x" "us_state x \<in> early"
  shows "res_ok p (uri_step p c x)"
proof -
  have core: "uri_core p x" using assms(1) by (simp add: uri_inv_def)
  note same = early_same_ok [OF assms] and host = early_host_ok [OF assms]
    and stay = early_stay_ok [OF assms]
  have init: "uri_inv (Suc p) (x\<lparr>us_state := URI_HOST6_P, us_s := p\<rparr>)"
    by (rule early_introI)
      (use early_inv [OF assms] core_facts [OF core] in \<open>simp_all add: uri_core_def early_def\<close>)
  have user: "uri_inv (Suc p) (x\<lparr>us_uri := (us_uri x)\<lparr>u_user := span (us_s x) p\<rparr>,
      us_state := URI_PASSWORD, us_s := p + 1\<rparr>)"
    by (rule early_introI)
      (use early_inv [OF assms] core_facts [OF core] in
        \<open>simp_all add: uri_core_def early_def uri_in_simps\<close>)
  have f: "uri_inv (Suc p) (found_user (\<lambda>w u. u\<lparr>u_user := w\<rparr>) p x)"
    "uri_inv (Suc p) (found_user (\<lambda>w u. u\<lparr>u_passwd := w\<rparr>) p x)"
    by (rule early_found_ok [OF core], simp add: uri_in_simps)+
  then have f0: "uri_inv (Suc p) ((found_user (\<lambda>w u. u\<lparr>u_passwd := w\<rparr>) p x)\<lparr>us_port_no := 0\<rparr>)"
    by (auto simp: uri_inv_def uri_core_def uri_host_ok_def)
  have pa: "uri_inv (Suc p) (x\<lparr>us_port_no := 0, us_state := URI_PASSWORD_ALPHA\<rparr>)"
    by (rule early_introI)
      (use early_inv [OF assms] core_facts [OF core] in \<open>simp_all add: uri_core_def early_def\<close>)
  show ?thesis
    using assms(2)
    by (cases "us_state x")
      (simp_all add: same host [simplified] stay init user [simplified] f f0 pa
        port_not_password_ok [OF assms(1)] check_host_end_ok [OF assms]
        early_port_ok [OF assms(1), simplified] uri_step_def early_def step_init_def step_user_def step_password_def
        step_password_alpha_def step_host_def step_host6_p_def step_port_def)
qed

lemma step_param_names_ok:
  assumes "uri_mid p x" "us_state x \<notin> no_b \<union> in_value" "us_b x \<noteq> None"
  shows "res_ok p (step_param_names p c x)"
  using assms(2)
  by (cases "us_state x")
    (simp_all add: step_param_names_def state_sets param_switch_ok param_switch_big_ok
      param_eq_ok flag_fin_ok uri_in_simps assms(1,3))

lemma step_transport_values_ok:
  assumes "uri_mid p x" "us_state x \<in> in_value - {URI_VAL_P}" "us_b x \<noteq> None" "us_v x \<noteq> None"
    "us_param x \<noteq> None"
  shows "res_ok p (step_transport_values p c x)"
  using assms(2)
  by (cases "us_state x")
    (simp_all add: step_transport_values_def in_value_def
      value_switch_ok(1) [OF assms(1,3,4,5), where q' = URI_VAL_P]
      value_switch_ok(2) [OF assms(1,3,4,5)]
      transport_fin_ok [OF assms(1,3,4,5)])

lemma step_param_ok:
  assumes "uri_mid p x"
  shows "res_ok p (step_param p c x)"
proof -
  have "uri_mid p (x\<lparr>us_b := Some p\<rparr>)"
    using assms by (auto simp: uri_mid_def uri_core_def uri_host_ok_def)
  then have "uri_inv (Suc p) (x\<lparr>us_b := Some p, us_state := q\<rparr>)"
    if "q \<notin> early" "q \<notin> in_value" for q
    using set_state_ok [of p "x\<lparr>us_b := Some p\<rparr>" q] that by (simp add: set_state_def)
  moreover have "set_state URI_PARAM_P (x\<lparr>us_b := Some p, us_state := q\<rparr>)
      = x\<lparr>us_b := Some p, us_state := URI_PARAM_P\<rparr>" for q by (simp add: set_state_def)
  ultimately show ?thesis
    unfolding step_param_def using ignore_ok [OF assms]
    by (intro param_common_ok [OF assms]) (simp add: state_sets)
qed

lemma step_headers_ok:
  assumes "uri_inv p x" "us_state x = URI_HEADERS"
  shows "res_ok p (step_headers p c x)"
proof -
  have mid: "uri_mid p x" using assms by (auto simp: uri_inv_def uri_mid_def state_sets)
  have "uri_inv (Suc p) (x\<lparr>us_error_headers := True\<rparr>)" "uri_inv (Suc p) x"
    using stay_ok [OF mid assms(1)] assms(2) by (auto simp: uri_inv_def uri_core_def uri_host_ok_def state_sets)
  moreover have "uri_inv (Suc p) (drop_pass x)"
    using stay_ok [OF mid assms(1)] assms(2)
    by (auto simp: drop_pass_def uri_inv_def uri_core_def uri_host_ok_def state_sets)
  moreover have "uri_inv (Suc p) (colon_pass p x)"
    using colon_ok [OF mid, of URI_HEADERS] colon_pass_ok(6) [OF mid] assms(2)
    by (simp add: set_state_same early_def no_b_def in_value_def)
  ultimately show ?thesis
    using still_at_user_ok [OF mid] by (simp add: step_headers_def)
qed

lemma uri_step_ok:
  assumes "uri_inv p x"
  shows "res_ok p (uri_step p c x)"
proof (cases "us_state x \<in> early")
  case True
  with assms show ?thesis by (rule step_early_ok)
next
  case False
  then have mid: "uri_mid p x" using assms uri_inv_late by blast
  have stay: "uri_inv (Suc p) x" by (rule stay_ok [OF mid assms False])
  consider (val) "us_state x \<in> in_value" | (head) "us_state x = URI_HEADERS"
    | (par) "us_state x \<in> {URI_PARAM, URI_PARAM_P}" | (name) "us_state x \<notin> no_b \<union> in_value"
    using False by (auto simp: no_b_def)
  then show ?thesis
  proof cases
    case val
    then have bv: "us_b x \<noteq> None" "us_v x \<noteq> None" "us_param x \<noteq> None"
      using assms in_value_late [OF val] by (simp_all add: uri_inv_def)
    show ?thesis
      using val step_transport_values_ok [OF mid _ bv] value_common_ok [OF mid bv, of "Inr x"] stay
      by (cases "us_state x") (simp_all add: uri_step_def in_value_def)
  next
    case head
    then show ?thesis using step_headers_ok [OF assms] by (simp add: uri_step_def)
  next
    case par
    then show ?thesis using step_param_ok [OF mid] param_common_ok [OF mid, of "Inr x"] stay
      by (auto simp: uri_step_def)
  next
    case name
    then have b: "us_b x \<noteq> None" using assms by (auto simp: uri_inv_def)
    show ?thesis
      using name False step_param_names_ok [OF mid name b] param_eq_ok(2) [OF mid b]
      by (cases "us_state x") (simp_all add: uri_step_def step_transport_values_def state_sets)
  qed
qed

section \<open>The whole parser\<close>

interpretation uri_scan: scanner uri_step uri_loop uri_inv "\<lambda>c. True" "\<lambda>e. e \<noteq> E_undefined"
proof
  show "e \<noteq> E_undefined" if "uri_inv p x" "uri_step p c x = Inl e" for p x c e
    using uri_step_ok [OF that(1), of c] that(2) by simp
  show "uri_inv (Suc p) y" if "uri_inv p x" "uri_step p c x = Inr y" for p x c y
    using uri_step_ok [OF that(1), of c] that(2) by simp
qed simp_all

lemma init_inv: "uri_inv p (init_vars t p)"
  by (rule early_introI) (simp_all add: init_vars_def uri_core_def early_def uri_in_simps)

text \<open>At the end every field lies in the buffer, and only the labels of the code are reached.\<close>

definition end_ok :: "nat \<Rightarrow> uri_res \<Rightarrow> bool" where
  "end_ok n r = (case r of Inl e \<Rightarrow> e \<noteq> E_undefined | Inr y \<Rightarrow> uri_in n (us_uri y))"

lemma end_ok_simps [simp]:
  "end_ok n (Inl e) \<longleftrightarrow> e \<noteq> E_undefined" "end_ok n (Inr y) \<longleftrightarrow> uri_in n (us_uri y)"
  by (simp_all add: end_ok_def)

lemma uri_in_end:
  "uri_in n u \<Longrightarrow> in_buf n w \<Longrightarrow> uri_in n (u\<lparr>u_headers := w\<rparr>)"
  "uri_in n u \<Longrightarrow> in_buf n w \<Longrightarrow> uri_in n (u\<lparr>u_host := w, u_user := null_str\<rparr>)"
  by (simp_all add: uri_in_def uri_fields_def)

lemma end_params_ok:
  assumes "uri_inv n x" "us_state x \<notin> early"
  shows "end_ok n (uri_end_params n x)"
proof -
  have core: "uri_core n x" using assms(1) by (simp add: uri_inv_def)
  have par: "uri_in n (us_uri (end_params n x))"
    using core by (simp add: end_params_def set_params_def uri_core_def uri_in_simps)
  have flag: "end_ok n (end_flag put n x)"
    if "us_state x \<notin> no_b" "\<And>n u w. uri_in n u \<Longrightarrow> in_buf n w \<Longrightarrow> uri_in n (put w u)" for put
    using that assms(1) core par
    by (auto simp: end_flag_def uri_inv_def uri_core_def end_params_def set_params_def)
  have val: "end_ok n (param_set n (end_params n x))" "end_ok n (end_proto pr n x)"
    if v: "us_state x \<in> in_value" for pr
  proof -
    from v in_value_late [OF v] assms(1) obtain b v pa where
      "us_b x = Some b" "us_v x = Some v" "us_param x = Some pa"
      by (auto simp: uri_inv_def)
    then show "end_ok n (param_set n (end_params n x))" "end_ok n (end_proto pr n x)"
      using core par
      by (simp_all add: param_set_def end_proto_def end_params_def set_params_def uri_core_def
          set_proto_def uri_in_simps uri_in_put_param)
  qed
  show ?thesis
  proof (cases "us_state x \<in> in_value")
    case True
    then show ?thesis
      using val [OF True] by (auto simp: uri_end_params_def in_value_def)
  next
    case False
    show ?thesis
    proof (cases "us_state x \<in> {PLR_R_FIN, PLR_eq, PR2_2_FIN, PR2_eq}")
      case True
      then have "us_state x \<notin> no_b" by (auto simp: no_b_def early_def)
      from flag [OF this] True show ?thesis
        by (auto simp: uri_end_params_def uri_in_simps)
    next
      case other: False
      show ?thesis
        using other False by (simp add: uri_end_params_def Let_def par in_value_def)
    qed
  qed
qed

lemma uri_end_ok:
  assumes "uri_inv n x"
  shows "end_ok n (uri_end n x)"
proof (cases "us_state x \<in> early \<union> {URI_HEADERS}")
  case True
  have core: "uri_core n x" using assms by (simp add: uri_inv_def)
  have f: "uri_in n (us_uri x)" "us_s x \<le> n" "in_buf n (u_user (us_uri x))"
    using core by (simp_all add: uri_core_def uri_in_simps)
  show ?thesis
    using True
    by (cases "us_state x")
      (simp_all add: uri_end_def early_def set_host_def set_port_def user_is_host_def f
        uri_in_simps uri_in_end)
next
  case False
  then have "uri_end n x = uri_end_params n x"
    by (cases "us_state x") (simp_all add: uri_end_def early_def)
  with end_params_ok [OF assms] False show ?thesis by simp
qed

lemma uri_finish_ok:
  assumes "uri_in n u"
  shows "case uri_finish buf u of Inl e \<Rightarrow> e \<noteq> E_undefined | Inr w \<Rightarrow> uri_in n w"
proof -
  have move: "uri_in n (move_user_params buf (u\<lparr>u_type := t\<rparr>))" for t
  proof (cases "q_memchr buf CHR '';'' (u_user u)")
    case None then show ?thesis using assms(1) by (simp add: move_user_params_def uri_in_simps)
  next
    case (Some q)
    then obtain a l where a: "u_user u = Str (Buf a) l" "a \<le> q" "int q < int a + l"
      using q_memchr_bounds by blast
    then show ?thesis using assms(1) Some
      by (auto simp: move_user_params_def uri_in_def uri_fields_def)
  qed
  have tel: "uri_in n (u\<lparr>u_user := u_host u, u_host := Str (Static []) 0\<rparr>)"
    using assms(1) by (simp add: uri_in_def uri_fields_def)
  show ?thesis
    using assms by (cases "u_type u") (auto simp: uri_finish_def move tel)
qed

lemma uri_run_ok:
  assumes "p \<le> length buf" "uri_run buf t p = r"
  shows "case r of Inl e \<Rightarrow> e \<noteq> E_undefined | Inr w \<Rightarrow> uri_in (length buf) w"
proof (cases "uri_loop p (drop p buf) (init_vars t p)")
  case (Inl e)
  then show ?thesis using uri_scan.run_error [OF init_inv _ Inl] assms(2)
    by (auto simp: uri_run_def list_all_iff)
next
  case (Inr x)
  from uri_scan.run_inv [OF init_inv _ Inr] assms(1) have inv: "uri_inv (length buf) x"
    by (simp add: list_all_iff)
  note e = uri_end_ok [OF inv]
  show ?thesis
  proof (cases "uri_end (length buf) x")
    case (Inl e') then show ?thesis using e Inr assms(2) by (auto simp: uri_run_def)
  next
    case y: (Inr y)
    then have "uri_in (length buf) (us_uri y)" using e by simp
    from uri_finish_ok [OF this, of buf] show ?thesis using y Inr assms(2) by (simp add: uri_run_def)
  qed
qed

lemma parse_uri_cases:
  assumes "parse_uri buf = r"
  shows "length buf < 5 \<and> r = Inl E_too_short \<or> 5 \<le> length buf \<and> r = Inl E_bad_uri \<or>
    5 \<le> length buf \<and> (\<exists>t p. p \<in> {4, 5} \<and> r = uri_run buf t p)"
  using assms by (auto simp: parse_uri_def Let_def split: list.splits if_splits)

end
