(* ===== verification/Uri_Props.thy ===== *)
theory Uri_Props
  imports Parse_Uri_Safe
begin

text \<open>
  What the URI parser computes: URIs written from their parts are parsed back to those
  parts, memory safety of the whole parser, and the parameters it does not recognise.
\<close>

section \<open>URIs written from their parts\<close>

definition plain_char :: "char \<Rightarrow> bool" where
  "plain_char c \<longleftrightarrow> c \<notin> {CHR ''@'', CHR '':'', CHR '';'', CHR ''?'', CHR ''['', CHR '']'', CHR ''&''}"

definition plain_name :: "string \<Rightarrow> bool" where
  "plain_name s \<longleftrightarrow> s \<noteq> [] \<and> list_all plain_char s"

fun scheme_text :: "uri_type \<Rightarrow> string" where
  "scheme_text SIP_URI_T = ''sip:''"
| "scheme_text SIPS_URI_T = ''sips:''"
| "scheme_text _ = ''tel:''"

fun user_text :: "string option \<Rightarrow> string" where
  "user_text None = []"
| "user_text (Some u) = u @ ''@''"

fun port_text :: "string option \<Rightarrow> string" where
  "port_text None = []"
| "port_text (Some ds) = '':'' @ ds"

definition uri_text :: "uri_type \<Rightarrow> string option \<Rightarrow> string \<Rightarrow> string option \<Rightarrow> string" where
  "uri_text t user host port = scheme_text t @ user_text user @ host @ port_text port"

text \<open>The parts as the parser is to report them: where each stands in the text.\<close>

definition uri_parts :: "nat \<Rightarrow> string option \<Rightarrow> string \<Rightarrow> string option \<Rightarrow> sip_uri \<Rightarrow> sip_uri" where
  "uri_parts p user host port u =
     (let h = p + length (user_text user); q = h + length host
      in u\<lparr>u_user := (case user of None \<Rightarrow> null_str | Some w \<Rightarrow> span p (p + length w)),
           u_host := span h q,
           u_port := (case port of None \<Rightarrow> null_str | Some ds \<Rightarrow> span (q + 1) (q + 1 + length ds)),
           u_port_no := (case port of None \<Rightarrow> 0 | Some ds \<Rightarrow> of_nat (dec_value ds))\<rparr>)"

section \<open>The runs over each part\<close>

lemma plain_charD:
  "plain_char c \<Longrightarrow> c \<noteq> CHR ''@'' \<and> c \<noteq> CHR '':'' \<and> c \<noteq> CHR '';'' \<and> c \<noteq> CHR ''?'' \<and> c \<noteq> CHR ''[''
    \<and> c \<noteq> CHR '']'' \<and> c \<noteq> CHR ''&''"
  by (simp add: plain_char_def)

lemma digit_charD:
  "is_digit_char c \<Longrightarrow> c \<noteq> CHR ''@'' \<and> c \<noteq> CHR '':'' \<and> c \<noteq> CHR '';'' \<and> c \<noteq> CHR ''?'' \<and> c \<noteq> CHR ''[''
    \<and> c \<noteq> CHR '']'' \<and> c \<noteq> CHR ''&''"
  by (auto simp: is_digit_char_def)

text \<open>A name from the start, or after the \<open>@\<close>.\<close>

lemma loop_user:
  assumes "plain_name s" "us_state x = URI_INIT"
  shows "uri_loop p s x = Inr (set_state URI_USER x)"
proof -
  obtain c cs where s: "s = c # cs" "plain_char c" "list_all plain_char cs"
    using assms(1) by (cases s) (auto simp: plain_name_def)
  have "uri_loop (Suc p) cs (set_state URI_USER x) = Inr (set_state URI_USER x)"
    by (rule uri_scan.run_same)
      (use s(3) plain_charD in \<open>auto simp: list_all_iff uri_step_def step_user_def set_state_def\<close>)
  then show ?thesis
    using assms(2) plain_charD [OF s(2)] by (simp add: s(1) uri_step_def step_init_def)
qed

lemma loop_host:
  assumes "plain_name s" "us_state x = URI_HOST"
  shows "uri_loop p s x = Inr (set_state URI_HOST_P x)"
proof -
  obtain c cs where s: "s = c # cs" "plain_char c" "list_all plain_char cs"
    using assms(1) by (cases s) (auto simp: plain_name_def)
  have "uri_loop (Suc p) cs (set_state URI_HOST_P x) = Inr (set_state URI_HOST_P x)"
    by (rule uri_scan.run_same)
      (use s(3) plain_charD in \<open>auto simp: list_all_iff uri_step_def check_host_end_def set_state_def\<close>)
  then show ?thesis
    using assms(2) plain_charD [OF s(2)] by (simp add: s(1) uri_step_def step_host_def)
qed

definition port_run :: "u32 \<Rightarrow> string \<Rightarrow> u32" where
  "port_run v ds = foldl (\<lambda>v c. v * 10 + of_char c - 48) v ds"

lemma loop_digits:
  assumes "list_all is_digit_char ds" "us_state x = URI_PORT \<or> us_state x = URI_PASSWORD"
  shows "uri_loop p ds x = Inr (x\<lparr>us_port_no := port_run (us_port_no x) ds\<rparr>)"
  using assms
proof (induction ds arbitrary: p x)
  case Nil then show ?case by (simp add: port_run_def)
next
  case (Cons c ds)
  then have "uri_step p c x = Inr (case_port c x)"
    using digit_charD [of c]
    by (auto simp: uri_step_def step_port_def step_password_def)
  with Cons show ?case by (simp add: case_port_def port_run_def)
qed

lemma port_run_value:
  assumes "list_all is_digit_char ds"
  shows "port_run (of_nat n) ds = of_nat (foldl (\<lambda>v c. v * 10 + (of_char c - 48)) n ds)"
  using assms
proof (induction ds arbitrary: n)
  case Nil then show ?case by (simp add: port_run_def)
next
  case (Cons c ds)
  then have eq: "(of_nat n * 10 + of_char c - 48 :: u32) = of_nat (n * 10 + (of_char c - 48))"
    by (simp add: is_digit_char_def of_nat_diff of_nat_of_char)
  have "port_run (of_nat n) (c # ds) = port_run (of_nat n * 10 + of_char c - 48) ds"
    by (simp add: port_run_def)
  also have "\<dots> = port_run (of_nat (n * 10 + (of_char c - 48))) ds" by (simp only: eq)
  also have "\<dots> = of_nat (foldl (\<lambda>v c. v * 10 + (of_char c - 48)) (n * 10 + (of_char c - 48)) ds)"
    by (rule Cons.IH) (use Cons.prems in simp)
  finally show ?case by simp
qed

lemma ucast_of_nat_16: "(ucast (of_nat n :: u32) :: u16) = of_nat n"
  by (simp add: unsigned_of_nat word_of_nat_eq_iff)

lemma port_no_value:
  "list_all is_digit_char ds \<Longrightarrow> (ucast (port_run 0 ds) :: u16) = of_nat (dec_value ds)"
  using port_run_value [of ds 0] by (simp add: dec_value_def ucast_of_nat_16)

section \<open>The core of a URI\<close>

text \<open>What may be written: a non-empty user and host, and a port of digits (or an empty one).\<close>

definition core_ok :: "string option \<Rightarrow> string \<Rightarrow> string option \<Rightarrow> bool" where
  "core_ok user host port \<longleftrightarrow> plain_name host \<and> (\<forall>w. user = Some w \<longrightarrow> plain_name w) \<and>
     (\<forall>ds. port = Some ds \<longrightarrow> list_all is_digit_char ds)"

text \<open>The states in which the core may end, and the variables there.\<close>

fun core_vars :: "uri_type \<Rightarrow> nat \<Rightarrow> string option \<Rightarrow> string \<Rightarrow> string option \<Rightarrow> uri_vars" where
  "core_vars t p None host None = set_state URI_USER (init_vars t p)"
| "core_vars t p None host (Some ds) =
     (init_vars t p)\<lparr>us_uri := zero_uri\<lparr>u_type := t, u_user := span p (p + length host)\<rparr>,
       us_state := URI_PASSWORD, us_s := p + length host + 1, us_port_no := port_run 0 ds\<rparr>"
| "core_vars t p (Some w) host None =
     (init_vars t p)\<lparr>us_uri := zero_uri\<lparr>u_type := t, u_user := span p (p + length w)\<rparr>,
       us_state := URI_HOST_P, us_found_user := True, us_s := p + length w + 1\<rparr>"
| "core_vars t p (Some w) host (Some ds) =
     (init_vars t p)\<lparr>us_uri := zero_uri\<lparr>u_type := t, u_user := span p (p + length w),
         u_host := span (p + length w + 1) (p + length w + 1 + length host)\<rparr>,
       us_state := URI_PORT, us_found_user := True, us_s := p + length w + 1 + length host + 1,
       us_port_no := port_run 0 ds\<rparr>"

definition core_text :: "string option \<Rightarrow> string \<Rightarrow> string option \<Rightarrow> string" where
  "core_text user host port = user_text user @ host @ port_text port"

lemma init_vars_sel [simp]:
  "us_state (init_vars t p) = URI_INIT" "us_s (init_vars t p) = p"
  "us_uri (init_vars t p) = zero_uri\<lparr>u_type := t\<rparr>" "us_port_no (init_vars t p) = 0"
  "us_found_user (init_vars t p) = False" "us_pass (init_vars t p) = None"
  "us_error_headers (init_vars t p) = False"
  by (simp_all add: init_vars_def)

lemma loop_core:
  assumes "core_ok user host port"
  shows "uri_loop p (core_text user host port) (init_vars t p) = Inr (core_vars t p user host port)"
proof -
  have host: "plain_name host" and user: "\<And>w. user = Some w \<Longrightarrow> plain_name w"
    and port: "\<And>ds. port = Some ds \<Longrightarrow> list_all is_digit_char ds"
    using assms by (auto simp: core_ok_def)
  have init: "us_state (init_vars t p) = URI_INIT" by simp
  show ?thesis
  proof (cases user)
    case None
    show ?thesis
    proof (cases port)
      case None
      with \<open>user = None\<close> show ?thesis using loop_user [OF host init] by (simp add: core_text_def)
    next
      case (Some ds)
      with \<open>user = None\<close> port [OF Some] show ?thesis
        by (simp add: core_text_def uri_scan.run_append loop_user [OF host init] uri_step_def
            step_user_def set_state_def loop_digits)
    qed
  next
    case (Some w)
    note at = user [OF Some]
    show ?thesis
    proof (cases port)
      case None
      with \<open>user = Some w\<close> show ?thesis
        by (simp add: core_text_def uri_scan.run_append loop_user [OF at init] uri_step_def
            step_user_def found_user_def loop_host [OF host] set_state_def)
    next
      case (Some ds)
      with \<open>user = Some w\<close> port [OF Some] show ?thesis
        by (simp add: core_text_def uri_scan.run_append loop_user [OF at init] uri_step_def
            step_user_def found_user_def loop_host [OF host] set_state_def
            check_host_end_def set_host_def loop_digits)
    qed
  qed
qed

lemma end_core:
  assumes "core_ok user host port" "n = p + length (core_text user host port)"
  shows "\<exists>y. uri_end n (core_vars t p user host port) = Inr y \<and>
    us_uri y = uri_parts p user host port (zero_uri\<lparr>u_type := t\<rparr>)"
  using assms port_no_value
  by (cases user; cases port)
    (auto simp: uri_end_def set_state_def set_host_def set_port_def user_is_host_def
      uri_parts_def Let_def core_text_def zero_uri_def core_ok_def add_ac)

text \<open>What \<open>tel\<close> does with the result, and \<open>sip\<close> without a user parameter.\<close>

definition as_scheme :: "uri_type \<Rightarrow> sip_uri \<Rightarrow> sip_uri" where
  "as_scheme t u = (if t = TEL_URI_T then u\<lparr>u_user := u_host u, u_host := Str (Static []) 0\<rparr> else u)"

lemma finish_no_param:
  "u_user_param_val u = null_str \<Longrightarrow> u_type u \<in> {SIP_URI_T, SIPS_URI_T, TEL_URI_T} \<Longrightarrow>
   uri_finish buf u = Inr (as_scheme (u_type u) u)"
  by (auto simp: uri_finish_def user_is_phone_def as_scheme_def)

lemma scheme_values:
  "scheme_of CHR ''s'' CHR ''i'' CHR ''p'' CHR '':'' = SIP_SCH"
  "scheme_of CHR ''s'' CHR ''i'' CHR ''p'' CHR ''s'' = SIPS_SCH"
  "scheme_of CHR ''t'' CHR ''e'' CHR ''l'' CHR '':'' = TEL_SCH"
  "SIP_SCH \<noteq> SIPS_SCH" "SIP_SCH \<noteq> TEL_SCH" "SIPS_SCH \<noteq> TEL_SCH"
  by (simp_all add: scheme_of_def scheme_byte_def SIP_SCH_def SIPS_SCH_def TEL_SCH_def)

lemma parse_scheme:
  assumes "t \<in> {SIP_URI_T, SIPS_URI_T, TEL_URI_T}" "rest \<noteq> []"
  shows "parse_uri (scheme_text t @ rest) =
    uri_run (scheme_text t @ rest) t (length (scheme_text t))"
  using assms by (cases rest) (auto simp: parse_uri_def scheme_values scheme_values(4-6) [symmetric]
      numeral_eq_Suc)



section \<open>Memory safety\<close>

text \<open>
  C7: whatever the buffer, the parser follows no pointer it has not set, and every string of
  its result lies inside the buffer.
\<close>

theorem parse_uri_memory_safe:
  "case parse_uri buf of
     Inl e \<Rightarrow> e \<noteq> E_undefined
   | Inr u \<Rightarrow> list_all (in_buf (length buf)) (uri_fields u)"
  using parse_uri_cases [of buf, OF refl]
proof (elim disjE conjE exE)
  fix t p
  assume "5 \<le> length buf" "p \<in> {4, 5}" "parse_uri buf = uri_run buf t p"
  then show ?thesis
    using uri_run_ok [of p buf t "parse_uri buf"] by (auto simp: uri_in_def split: sum.splits)
qed simp_all

section \<open>The \<open>r2\<close> parameter\<close>

definition res_sat :: "('e \<Rightarrow> bool) \<Rightarrow> ('a \<Rightarrow> bool) \<Rightarrow> 'e + 'a \<Rightarrow> bool" where
  "res_sat G P r = (case r of Inl e \<Rightarrow> G e | Inr y \<Rightarrow> P y)"

lemma res_sat_simps [simp]:
  "res_sat G P (Inl e) = G e" "res_sat G P (Inr y) = P y"
  by (simp_all add: res_sat_def)

lemma res_sat_ebind: "res_sat G P m \<Longrightarrow> (\<And>y. P y \<Longrightarrow> res_sat G Q (f y)) \<Longrightarrow> res_sat G Q (ebind m f)"
  by (cases m) auto

text \<open>Neither the states nor the fields of \<open>r2\<close>.\<close>

definition no_r2 :: "uri_vars \<Rightarrow> bool" where
  "no_r2 x \<longleftrightarrow> us_state x \<notin> {PR2_R, PR2_2_FIN, PR2_eq} \<and> us_param x \<noteq> Some P_r2 \<and>
     u_r2 (us_uri x) = null_str \<and> u_r2_val (us_uri x) = null_str"

abbreviation r2_res :: "uri_res \<Rightarrow> bool" where
  "r2_res \<equiv> res_sat (\<lambda>_. True) no_r2"

lemma no_r2_param:
  "no_r2 x \<Longrightarrow> pr \<noteq> P_r2 \<Longrightarrow> no_r2 (x\<lparr>us_uri := put_param pr a v (us_uri x)\<rparr>)"
  by (cases pr) (simp_all add: no_r2_def)

lemma no_r2_macros:
  assumes "no_r2 x"
  shows "q \<notin> {PR2_R, PR2_2_FIN, PR2_eq} \<Longrightarrow> no_r2 (set_state q x)"
    "no_r2 (drop_pass x)" "no_r2 (semicolon_case x)" "no_r2 (question_case p x)"
    "no_r2 (colon_pass p x)" "no_r2 (colon_case p x)" "r2_res (still_at_user p x)"
    "r2_res (param_set p x)" "no_r2 (set_proto pn x)"
  using assms no_r2_param [OF assms]
  by (auto simp: no_r2_def set_state_def drop_pass_def semicolon_case_def question_case_def
      colon_pass_def colon_case_def still_at_user_def set_params_def zero_uri_def param_set_def
      set_proto_def split: ptr.splits option.splits)

lemma no_r2_common:
  assumes "no_r2 x" "r2_res d"
  shows "r2_res (param_common_cases p c x d)" "r2_res (value_common_cases p c x d)"
    "r2_res (check_host_end p c x d)"
  using assms no_r2_macros [OF assms(1)] no_r2_macros [OF no_r2_macros(3) [OF assms(1)]]
    no_r2_macros [OF no_r2_macros(4) [OF assms(1), of p]]
    no_r2_macros [OF no_r2_macros(6) [OF assms(1), of p]]
  by (simp_all add: param_common_cases_def value_common_cases_def)
    (simp add: check_host_end_def no_r2_def set_host_def)

lemma no_r2_switches:
  assumes "no_r2 x" "q \<notin> {PR2_R, PR2_2_FIN, PR2_eq}"
  shows "r2_res (param_switch c1 c2 q p c x)" "r2_res (param_switch1 c1 q p c x)"
    "r2_res (value_switch c1 c2 q p c x)"
    "q' \<notin> {PR2_R, PR2_2_FIN, PR2_eq} \<Longrightarrow> r2_res (param_switch_big c1 c2 d1 d2 q q' p c x)"
    "q' \<notin> {PR2_R, PR2_2_FIN, PR2_eq} \<Longrightarrow> r2_res (value_switch_big c1 c2 d1 d2 q q' p c x)"
  using assms no_r2_macros(1) [OF assms(1)] no_r2_common [OF assms(1)]
  by (simp_all add: param_switch_def param_switch1_def param_switch_big_def value_switch_def
      value_switch_big_def)

lemma no_r2_fin:
  assumes "no_r2 x"
  shows "r2_res (transport_fin pn p c x)" "pr \<noteq> P_r2 \<Longrightarrow> r2_res (param_eq pr p c x)"
    "r2_res (step_pt_eq p c x)" "r2_res (flag_fin (\<lambda>w u. u\<lparr>u_lr := w\<rparr>) PLR_eq p c x)"
proof -
  note m = no_r2_macros [OF assms]
  have e: "r2_res (ebind (param_set p y) (\<lambda>z. Inr (set_proto pn z)))" if "no_r2 y" for y
    by (rule res_sat_ebind [OF no_r2_macros(8) [OF that]]) (simp add: no_r2_macros(9))
  show "r2_res (transport_fin pn p c x)"
    using m m(1) [OF _] no_r2_macros(1) [OF m(6) [of p]] e by (simp add: transport_fin_def)
  have y: "no_r2 (x\<lparr>us_param := Some pr\<rparr>)" if "pr \<noteq> P_r2" for pr
    using assms that by (simp add: no_r2_def)
  then show "pr \<noteq> P_r2 \<Longrightarrow> r2_res (param_eq pr p c x)"
    unfolding param_eq_def Let_def
    by (intro no_r2_common(1)) (simp_all add: no_r2_def)
  show "r2_res (step_pt_eq p c x)"
    unfolding step_pt_eq_def Let_def
    by (intro no_r2_common(1) y) (use assms in \<open>simp_all add: no_r2_def set_state_def\<close>)
  have l: "r2_res (case us_b y of Some b \<Rightarrow> Inr (y\<lparr>us_uri := (us_uri y)\<lparr>u_lr := span b p\<rparr>\<rparr>)
      | None \<Rightarrow> Inl E_undefined)" if "no_r2 y" for y
    using that by (auto simp: no_r2_def split: option.splits)
  show "r2_res (flag_fin (\<lambda>w u. u\<lparr>u_lr := w\<rparr>) PLR_eq p c x)"
    using m l [OF m(3)] l [OF m(4) [of p]] by (simp add: flag_fin_def Let_def)
qed

lemma no_r2_step_names:
  assumes "no_r2 x"
  shows "r2_res (step_param_names p c x)" "r2_res (step_transport_values p c x)"
proof -
  show n: "r2_res (step_param_names p c x)"
    using assms
    by (cases "us_state x") (simp_all add: step_param_names_def no_r2_switches [OF assms]
        no_r2_fin [OF assms], simp_all add: no_r2_def)
  show "r2_res (step_transport_values p c x)"
    using n
    by (cases "us_state x") (simp_all add: step_transport_values_def no_r2_switches [OF assms]
        no_r2_fin [OF assms])
qed

lemma no_r2_early:
  assumes "no_r2 x"
  shows "r2_res (step_init p c x)" "r2_res (step_user p c x)" "r2_res (step_password p c x)"
    "r2_res (step_password_alpha p c x)" "r2_res (step_host p c x)" "r2_res (step_host6_p p c x)"
    "r2_res (step_port p c x)" "r2_res (step_headers p c x)" "r2_res (step_param p c x)"
proof -
  show "r2_res (step_headers p c x)"
    using assms no_r2_macros [OF assms] by (simp add: step_headers_def no_r2_def)
  show "r2_res (step_param p c x)"
    unfolding step_param_def
    by (intro no_r2_common(1) assms) (use assms in \<open>simp add: no_r2_def set_state_def\<close>)
qed (use assms in \<open>simp_all add: no_r2_def step_init_def step_user_def step_password_def
    step_password_alpha_def step_host_def step_host6_p_def step_port_def set_state_def
    found_user_def set_host_def set_port_def port_not_password_def user_is_host_def
    case_port_def\<close>)

lemma no_r2_step: "no_r2 x \<Longrightarrow> r2_res (uri_step p c x)"
  using no_r2_step_names [of x p c] no_r2_fin(3) [of x p c] no_r2_early [of x p c] no_r2_common [of x _ p c]
  by (cases "us_state x") (simp_all add: uri_step_def)

interpretation r2_scan: scanner uri_step uri_loop "\<lambda>_. no_r2" "\<lambda>_. True" "\<lambda>_. True"
proof
  show "no_r2 y" if "no_r2 x" "uri_step p c x = Inr y" for p x c y
    using no_r2_step [OF that(1), of p c] that(2) by simp
qed simp_all

lemma no_r2_end:
  assumes "no_r2 x"
  shows "r2_res (uri_end p x)"
proof -
  have y: "no_r2 (end_params p x)" using assms by (simp add: no_r2_def end_params_def set_params_def)
  have e: "r2_res (end_proto pr p x)" for pr
    unfolding end_proto_def
    by (rule res_sat_ebind [OF no_r2_macros(8) [OF y]]) (simp add: no_r2_macros(9))
  have l: "r2_res (end_flag (\<lambda>w u. u\<lparr>u_lr := w\<rparr>) p x)"
    using y by (auto simp: end_flag_def no_r2_def Let_def split: option.splits)
  have "r2_res (uri_end_params p x)"
    using assms y e l no_r2_macros(8) [OF y] by (simp add: uri_end_params_def Let_def no_r2_def)
  then show ?thesis
    using assms
    by (cases "us_state x")
      (simp_all add: uri_end_def no_r2_def set_host_def set_port_def user_is_host_def)
qed

lemma finish_r2:
  "uri_finish buf u = Inr w \<Longrightarrow> u_r2 w = u_r2 u \<and> u_r2_val w = u_r2_val u"
  by (cases "u_type u")
    (auto simp: uri_finish_def move_user_params_def split: option.splits ptr.splits if_splits)

text \<open>
  The parser never reports an \<open>r2\<close> parameter, whatever the URI holds: the \<open>case\<close> for its
  first letter falls through to the default, so the states that recognise it are not
  reachable.
\<close>

theorem parse_uri_never_r2:
  "case parse_uri buf of Inl e \<Rightarrow> True | Inr u \<Rightarrow> u_r2 u = null_str \<and> u_r2_val u = null_str"
  using parse_uri_cases [of buf, OF refl]
proof (elim disjE conjE exE)
  fix t p
  assume r: "parse_uri buf = uri_run buf t p"
  have init: "no_r2 (init_vars t p)" by (simp add: no_r2_def init_vars_def zero_uri_def)
  show ?thesis
  proof (cases "parse_uri buf")
    case (Inr u)
    then obtain x y where x: "uri_loop p (drop p buf) (init_vars t p) = Inr x"
      "uri_end (length buf) x = Inr y" "uri_finish buf (us_uri y) = Inr u"
      using r by (auto simp: uri_run_def ebind_Inr_iff)
    have "no_r2 x" using r2_scan.run_inv [OF init _ x(1)] by (simp add: list_all_iff)
    from no_r2_end [OF this, of "length buf"] x(2) have "no_r2 y" by simp
    then show ?thesis using finish_r2 [OF x(3)] Inr by (simp add: no_r2_def)
  qed simp
qed simp_all

end
