(* ===== verification/Uri_Params.thy ===== *)
theory Uri_Params
  imports Uri_Props
begin

text \<open>
  The parameters of a URI: whatever they are, the core of the URI is kept and the parameter
  text is reported whole, unless the URI ends inside its \<open>maddr\<close> parameter's name; the
  transport parameter selects the protocol.
\<close>

section \<open>Characters of parameters\<close>

definition param_char :: "char \<Rightarrow> bool" where
  "param_char c \<longleftrightarrow> c \<notin> {CHR ''@'', CHR ''?'', CHR '':''}"

definition keep :: "sip_uri \<Rightarrow> cstr \<times> cstr \<times> cstr \<times> cstr \<times> u16" where
  "keep u = (u_user u, u_passwd u, u_host u, u_port u, u_port_no u)"

text \<open>Inside the parameters: the core is read, no password is being read.\<close>

definition par_inv :: "nat \<Rightarrow> cstr \<times> cstr \<times> cstr \<times> cstr \<times> u16 \<Rightarrow> uri_type \<Rightarrow> uri_vars \<Rightarrow> bool" where
  "par_inv s k t x \<longleftrightarrow> us_state x \<notin> early \<union> {URI_HEADERS} \<and> us_pass x = None \<and> us_s x = s \<and>
     keep (us_uri x) = k \<and> u_type (us_uri x) = t"

abbreviation par_res :: "nat \<Rightarrow> cstr \<times> cstr \<times> cstr \<times> cstr \<times> u16 \<Rightarrow> uri_type \<Rightarrow> uri_res \<Rightarrow> bool" where
  "par_res s k t \<equiv> res_sat (\<lambda>e. e = E_undefined) (par_inv s k t)"

lemma keep_put_param [simp]: "keep (put_param pr a v u) = keep u"
  by (cases pr) (simp_all add: keep_def)

lemma keep_other [simp]:
  "keep (u\<lparr>u_params := w\<rparr>) = keep u" "keep (u\<lparr>u_proto := pn\<rparr>) = keep u"
  "keep (u\<lparr>u_lr := w\<rparr>) = keep u" "keep (u\<lparr>u_r2 := w\<rparr>) = keep u" "keep (u\<lparr>u_type := t\<rparr>) = keep u"
  by (simp_all add: keep_def)

lemma par_macros:
  assumes "par_inv s k t x"
  shows "q \<notin> early \<union> {URI_HEADERS} \<Longrightarrow> par_inv s k t (set_state q x)"
    "par_inv s k t (semicolon_case x)" "par_res s k t (param_set p x)" "par_inv s k t (set_proto pn x)"
  using assms
  by (auto simp: par_inv_def set_state_def semicolon_case_def drop_pass_def param_set_def
      set_proto_def early_def split: option.splits)

lemma par_common:
  assumes "par_inv s k t x" "param_char c" "par_res s k t d"
  shows "par_res s k t (param_common_cases p c x d)" "par_res s k t (value_common_cases p c x d)"
  using assms par_macros [OF assms(1)] par_macros(3) [OF par_macros(2) [OF assms(1)]]
  by (simp_all add: param_common_cases_def value_common_cases_def param_char_def)

lemma par_switches:
  assumes "par_inv s k t x" "param_char c" "q \<notin> early \<union> {URI_HEADERS}"
  shows "par_res s k t (param_switch c1 c2 q p c x)" "par_res s k t (param_switch1 c1 q p c x)"
    "par_res s k t (value_switch c1 c2 q p c x)"
    "q' \<notin> early \<union> {URI_HEADERS} \<Longrightarrow> par_res s k t (param_switch_big c1 c2 d1 d2 q q' p c x)"
    "q' \<notin> early \<union> {URI_HEADERS} \<Longrightarrow> par_res s k t (value_switch_big c1 c2 d1 d2 q q' p c x)"
proof -
  have m: "par_inv s k t (set_state q' x)" if "q' \<notin> early \<union> {URI_HEADERS}" for q'
    using par_macros(1) [OF assms(1) that] .
  have d: "par_inv s k t (set_state URI_PARAM_P x)" "par_inv s k t (set_state URI_VAL_P x)"
    by (rule m, simp add: early_def)+
  note c = par_common [OF assms(1,2), of "Inr (set_state URI_PARAM_P x)" p, simplified, OF d(1)]
    par_common [OF assms(1,2), of "Inr (set_state URI_VAL_P x)" p, simplified, OF d(2)]
  show "par_res s k t (param_switch c1 c2 q p c x)" "par_res s k t (param_switch1 c1 q p c x)"
    "par_res s k t (value_switch c1 c2 q p c x)"
    "q' \<notin> early \<union> {URI_HEADERS} \<Longrightarrow> par_res s k t (param_switch_big c1 c2 d1 d2 q q' p c x)"
    "q' \<notin> early \<union> {URI_HEADERS} \<Longrightarrow> par_res s k t (value_switch_big c1 c2 d1 d2 q q' p c x)"
    using m assms(3) c by (simp_all add: param_switch_def param_switch1_def param_switch_big_def
        value_switch_def value_switch_big_def)
qed

lemma par_fin:
  assumes "par_inv s k t x" "param_char c"
  shows "par_res s k t (transport_fin pn p c x)" "par_res s k t (param_eq pr p c x)"
    "par_res s k t (step_pt_eq p c x)"
    "par_res s k t (flag_fin (\<lambda>w u. u\<lparr>u_lr := w\<rparr>) PLR_eq p c x)"
    "par_res s k t (flag_fin (\<lambda>w u. u\<lparr>u_r2 := w\<rparr>) PR2_eq p c x)"
    "us_state x = URI_PARAM \<Longrightarrow> par_res s k t (step_param p c x)"
proof -
  note m = par_macros [OF assms(1)]
  have e: "par_res s k t (ebind (param_set p y) (\<lambda>z. Inr (set_proto pn z)))" if "par_inv s k t y" for y
    by (rule res_sat_ebind [OF par_macros(3) [OF that]]) (simp add: par_macros(4))
  show "par_res s k t (transport_fin pn p c x)"
    using m(1) [of URI_VAL_P] e [OF m(2)] assms(2)
    by (simp add: transport_fin_def param_char_def early_def)
  have y: "par_inv s k t (x\<lparr>us_param := Some pr\<rparr>)" for pr
    using assms(1) by (simp add: par_inv_def)
  have z: "par_inv s k t (x\<lparr>us_param := Some pr, us_v := Some p, us_state := q\<rparr>)"
    if "q \<notin> early \<union> {URI_HEADERS}" for q pr
    using assms(1) that by (simp add: par_inv_def)
  show "par_res s k t (param_eq pr p c x)"
    unfolding param_eq_def Let_def
    by (intro par_common(1) y assms) (use z [of URI_VAL_P pr] in \<open>simp add: early_def\<close>)
  show "par_res s k t (step_pt_eq p c x)"
    unfolding step_pt_eq_def Let_def
    by (intro par_common(1) y assms) (use z in \<open>simp add: set_state_def early_def\<close>)
  have b: "par_inv s k t (x\<lparr>us_b := Some p, us_state := q\<rparr>)"
    if "q \<notin> early \<union> {URI_HEADERS}" for q
    using assms(1) that by (simp add: par_inv_def)
  show "par_res s k t (step_param p c x)"
    unfolding step_param_def
    by (intro par_common(1) assms) (use b m(1) [of URI_PARAM_P] in \<open>simp add: early_def set_state_def\<close>)
  show "par_res s k t (flag_fin (\<lambda>w u. u\<lparr>u_lr := w\<rparr>) PLR_eq p c x)"
    "par_res s k t (flag_fin (\<lambda>w u. u\<lparr>u_r2 := w\<rparr>) PR2_eq p c x)"
    using m(1) [of PLR_eq] m(1) [of PR2_eq] m(1) [of URI_PARAM_P] m(2) assms(2)
    by (auto simp: flag_fin_def Let_def param_char_def early_def par_inv_def split: option.splits)
qed

lemma par_step:
  assumes "par_inv s k t x" "param_char c"
  shows "par_res s k t (uri_step p c x)"
proof -
  have "par_res s k t (step_param_names p c x)" if "us_state x \<notin> in_value \<union> {URI_PARAM, URI_PARAM_P, PT_eq}"
    using that assms(1)
    by (cases "us_state x") (simp_all add: step_param_names_def early_def in_value_def
        par_switches [OF assms] par_fin [OF assms], simp_all add: par_inv_def early_def)
  moreover have "par_res s k t (step_transport_values p c x)" if "us_state x \<in> in_value - {URI_VAL_P}"
    using that
    by (cases "us_state x") (simp_all add: step_transport_values_def early_def in_value_def
        par_switches [OF assms] par_fin [OF assms])
  ultimately show ?thesis
    using assms(1)
    by (cases "us_state x") (simp_all add: uri_step_def in_value_def par_common [OF assms]
        par_fin [OF assms] step_transport_values_def, simp_all add: par_inv_def early_def)
qed

text \<open>Every state of the parameters takes a semicolon as the start of the next one.\<close>

lemma par_semicolon:
  assumes "par_inv s k t x" "uri_step p CHR '';'' x = Inr y"
  shows "us_state y = URI_PARAM"
  using assms
  by (cases "us_state x")
    (auto simp: uri_step_def step_transport_values_def step_param_names_def param_common_cases_def
      value_common_cases_def step_param_def step_pt_eq_def param_switch_def param_switch1_def
      param_switch_big_def value_switch_def value_switch_big_def transport_fin_def param_eq_def
      flag_fin_def param_set_def semicolon_case_def set_state_def set_proto_def Let_def par_inv_def
      early_def ebind_Inr_iff split: option.splits)

interpretation par_scan: scanner uri_step uri_loop "\<lambda>p x. uri_inv p x \<and> par_inv s k t x" param_char
  "\<lambda>_. False" for s k t
proof
  show "False" if "uri_inv p x \<and> par_inv s k t x" "param_char c" "uri_step p c x = Inl e" for p x c e
    using that par_step [of s k t x c p] uri_step_ok [of p x c] by simp
  show "uri_inv (Suc p) y \<and> par_inv s k t y"
    if "uri_inv p x \<and> par_inv s k t x" "param_char c" "uri_step p c x = Inr y" for p x c y
    using that par_step [of s k t x c p] uri_step_ok [of p x c] by simp
qed simp_all

lemma par_run:
  assumes "uri_inv p x" "par_inv s k t x" "list_all param_char cs"
  shows "\<exists>y. uri_loop p cs x = Inr y \<and> uri_inv (p + length cs) y \<and> par_inv s k t y"
  using par_scan.run_error [of p x s k t cs] par_scan.run_inv [of p x s k t cs] assms
  by (cases "uri_loop p cs x") auto

section \<open>From the core to the parameters\<close>

lemma core_semicolon:
  assumes "core_ok user host port" "q = p + length (core_text user host port)"
  shows "\<exists>x. uri_step q CHR '';'' (core_vars t p user host port) = Inr x \<and>
    us_state x = URI_PARAM \<and> us_pass x = None \<and> us_s x = Suc q \<and>
    us_uri x = uri_parts p user host port (zero_uri\<lparr>u_type := t\<rparr>)"
  using assms port_no_value
  by (cases user; cases port)
    (auto simp: uri_step_def step_user_def step_password_def check_host_end_def step_port_def
      set_state_def set_host_def set_port_def user_is_host_def port_not_password_def
      uri_parts_def Let_def core_text_def zero_uri_def core_ok_def add_ac init_vars_def)

text \<open>Where the parameters start, and the state there.\<close>

definition params_at :: "uri_type \<Rightarrow> string option \<Rightarrow> string \<Rightarrow> string option \<Rightarrow> nat" where
  "params_at t user host port = length (scheme_text t) + length (core_text user host port) + 1"

lemma to_params:
  assumes "core_ok user host port" "list_all param_char ps" "p = length (scheme_text t)"
    "k = keep (uri_parts p user host port zero_uri)"
  shows "\<exists>x. (\<forall>ws. uri_loop p (core_text user host port @ '';'' @ ps @ ws) (init_vars t p) =
       uri_loop (params_at t user host port + length ps) ws x) \<and>
     uri_inv (params_at t user host port + length ps) x \<and>
     par_inv (params_at t user host port) k t x \<and> (ps = [] \<longrightarrow> us_state x = URI_PARAM)"
proof -
  let ?q = "p + length (core_text user host port)"
  obtain x0 where x0: "uri_step ?q CHR '';'' (core_vars t p user host port) = Inr x0"
    "us_state x0 = URI_PARAM" "us_pass x0 = None" "us_s x0 = Suc ?q"
    "us_uri x0 = uri_parts p user host port (zero_uri\<lparr>u_type := t\<rparr>)"
    using core_semicolon [OF assms(1), of ?q p t] by auto
  have run: "uri_loop p (core_text user host port @ '';'' @ ws) (init_vars t p) = uri_loop (Suc ?q) ws x0" for ws
    using x0(1) by (simp add: uri_scan.run_append loop_core [OF assms(1)])
  have q: "Suc ?q = params_at t user host port" using assms(3) by (simp add: params_at_def)
  have inv: "uri_inv (Suc ?q) x0"
    using uri_scan.run_inv [OF init_inv, of "core_text user host port @ '';''" p t x0] run [of "[]"]
    by (simp add: list_all_iff)
  have par: "par_inv (Suc ?q) k t x0"
    using x0 assms(4) by (auto simp: par_inv_def early_def keep_def uri_parts_def Let_def)
  from par_run [OF inv par assms(2)] obtain y where y: "uri_loop (Suc ?q) ps x0 = Inr y"
    "uri_inv (Suc ?q + length ps) y" "par_inv (Suc ?q) k t y" by blast
  have "uri_loop p (core_text user host port @ '';'' @ ps @ ws) (init_vars t p) =
      uri_loop (params_at t user host port + length ps) ws y" for ws
    using run [of "ps @ ws"] y(1) by (simp add: uri_scan.run_append q [symmetric])
  moreover have "ps = [] \<longrightarrow> us_state y = URI_PARAM" using y(1) x0(2) by auto
  ultimately show ?thesis using y(2,3) unfolding q by blast
qed

text \<open>The end of the input inside the parameters.\<close>

definition maddr_states :: "uri_state set" where
  "maddr_states = {PMA_A, PMA_D, PMA_D2, PMA_R, PMA_eq}"

lemma par_end:
  assumes "uri_inv n x" "par_inv s k t x"
  shows "if us_state x \<in> maddr_states then uri_end n x = Inl E_bug
    else \<exists>y. uri_end n x = Inr y \<and> keep (us_uri y) = k \<and> u_params (us_uri y) = span s n \<and>
      u_type (us_uri y) = t"
proof -
  have p: "keep (us_uri (end_params n x)) = k" "u_params (us_uri (end_params n x)) = span s n"
    "u_type (us_uri (end_params n x)) = t"
    using assms(2) by (simp_all add: par_inv_def end_params_def set_params_def)
  have pp: "u_params (put_param pr a b u) = u_params u" for pr a b u by (cases pr) simp_all
  let ?Q = "\<lambda>y. keep (us_uri y) = k \<and> u_params (us_uri y) = span s n \<and> u_type (us_uri y) = t"
  let ?G = "\<lambda>e. e = E_undefined"
  have ps: "res_sat ?G ?Q (param_set n (end_params n x))"
    "res_sat ?G ?Q (end_proto pn n x)" for pn
    using p pp by (auto simp: param_set_def end_proto_def set_proto_def split: option.splits)
  have fl: "res_sat ?G ?Q (end_flag (\<lambda>w u. u\<lparr>u_lr := w\<rparr>) n x)"
    "res_sat ?G ?Q (end_flag (\<lambda>w u. u\<lparr>u_r2 := w\<rparr>) n x)"
    using p by (auto simp: end_flag_def Let_def split: option.splits)
  have late: "us_state x \<notin> early \<union> {URI_HEADERS}" using assms(2) by (simp add: par_inv_def)
  have e: "uri_end n x = uri_end_params n x"
    using late by (cases "us_state x") (simp_all add: uri_end_def early_def)
  have "if us_state x \<in> maddr_states then uri_end_params n x = Inl E_bug
      else res_sat ?G ?Q (uri_end_params n x)"
    using late p ps fl
    by (cases "us_state x") (simp_all add: uri_end_params_def maddr_states_def early_def)
  with uri_end_ok [OF assms(1)] e show ?thesis
    by (cases "uri_end_params n x") (auto split: if_splits)
qed

lemma finish_plain_user:
  assumes "u_type u \<in> {SIP_URI_T, SIPS_URI_T}" "CHR '';'' \<notin> set (str_bytes buf (u_user u))"
  shows "\<exists>w. uri_finish buf u = Inr (u\<lparr>u_type := w\<rparr>)"
proof -
  have "q_memchr buf CHR '';'' (u_user (u\<lparr>u_type := w\<rparr>)) = None" for w
    using assms(2) by (cases "u_user u"; cases "str_s (u_user u)") auto
  then have "move_user_params buf (u\<lparr>u_type := w\<rparr>) = u\<lparr>u_type := w\<rparr>" for w
    by (simp add: move_user_params_def)
  moreover have "u = u\<lparr>u_type := u_type u\<rparr>" by simp
  ultimately show ?thesis
    using assms(1) by (auto simp: uri_finish_def intro: exI [of _ "u_type u"])
qed

lemma user_plain:
  assumes "core_ok user host port" "p = length (scheme_text t)"
    "u_user u = u_user (uri_parts p user host port zero_uri)"
  shows "CHR '';'' \<notin> set (str_bytes (scheme_text t @ core_text user host port @ rest) (u_user u))"
proof (cases user)
  case None
  then show ?thesis using assms(3) by (simp add: uri_parts_def Let_def null_str_def)
next
  case (Some w)
  have "list_all plain_char w" using assms(1) Some by (simp add: core_ok_def plain_name_def)
  then show ?thesis
    using assms(2,3) Some
    by (auto simp: uri_parts_def Let_def core_text_def span_def list_all_iff plain_char_def)
qed

text \<open>What the parser makes of the variables \<open>y\<close> it has after the parameters \<open>ps\<close>.\<close>

definition outcome :: "uri_type \<Rightarrow> string option \<Rightarrow> string \<Rightarrow> string option \<Rightarrow> string \<Rightarrow> uri_vars \<Rightarrow> bool" where
  "outcome t user host port ps y =
     (let r = parse_uri (scheme_text t @ core_text user host port @ '';'' @ ps);
          a = params_at t user host port
      in if us_state y \<in> maddr_states then r = Inl E_bug
         else \<exists>z w. uri_end (a + length ps) y = Inr z \<and> r = Inr ((us_uri z)\<lparr>u_type := w\<rparr>) \<and>
           keep (us_uri z) = keep (uri_parts (length (scheme_text t)) user host port zero_uri) \<and>
           u_params (us_uri z) = span a (a + length ps))"

text \<open>The run of the whole parser, up to the state before the last piece \<open>ws\<close> of the parameters.\<close>

lemma parse_with_params:
  assumes "t \<in> {SIP_URI_T, SIPS_URI_T}" "core_ok user host port" "list_all param_char ps"
    "k = keep (uri_parts (length (scheme_text t)) user host port zero_uri)"
    "a = params_at t user host port"
  shows "\<exists>x. uri_inv (a + length ps) x \<and> par_inv a k t x \<and> (ps = [] \<longrightarrow> us_state x = URI_PARAM) \<and>
    (\<forall>ws y. list_all param_char ws \<longrightarrow> uri_loop (a + length ps) ws x = Inr y \<longrightarrow>
       outcome t user host port (ps @ ws) y)"
proof -
  let ?p = "length (scheme_text t)"
  from to_params [OF assms(2,3) refl assms(4)] obtain x where
    x: "\<And>ws. uri_loop ?p (core_text user host port @ '';'' @ ps @ ws) (init_vars t ?p) =
         uri_loop (a + length ps) ws x"
      "uri_inv (a + length ps) x" "par_inv a k t x" "ps = [] \<longrightarrow> us_state x = URI_PARAM"
    unfolding assms(5) by blast
  have "outcome t user host port (ps @ ws) y"
    if ws: "list_all param_char ws" "uri_loop (a + length ps) ws x = Inr y" for ws y
  proof -
    let ?rest = "'';'' @ ps @ ws"
    let ?buf = "scheme_text t @ core_text user host port @ ?rest"
    let ?n = "a + length ps + length ws"
    have n: "length ?buf = ?n" by (simp add: assms(5) params_at_def)
    have y: "uri_inv ?n y" "par_inv a k t y"
      using par_scan.run_inv [OF conjI [OF x(2,3)] ws] by simp_all
    have "parse_uri ?buf = uri_run ?buf t ?p"
      using parse_scheme [of t "core_text user host port @ ?rest"] assms(1) by auto
    also have "\<dots> = ebind (uri_end ?n y) (\<lambda>z. uri_finish ?buf (us_uri z))"
      unfolding uri_run_def n using x(1) [of ws] ws(2) by simp
    finally have r: "parse_uri ?buf = ebind (uri_end ?n y) (\<lambda>z. uri_finish ?buf (us_uri z))" .
    show ?thesis
    proof (cases "us_state y \<in> maddr_states")
      case True
      then show ?thesis using par_end [OF y] r by (simp add: outcome_def)
    next
      case False
      then obtain z where z: "uri_end ?n y = Inr z" "keep (us_uri z) = k"
        "u_params (us_uri z) = span a ?n" "u_type (us_uri z) = t"
        using par_end [OF y] by auto
      have "CHR '';'' \<notin> set (str_bytes ?buf (u_user (us_uri z)))"
        by (rule user_plain [OF assms(2) refl]) (use z(2) assms(4) in \<open>simp add: keep_def\<close>)
      from finish_plain_user [OF _ this] z(4) assms(1) obtain w where
        "uri_finish ?buf (us_uri z) = Inr ((us_uri z)\<lparr>u_type := w\<rparr>)" by auto
      with r z False show ?thesis
        by (auto simp: outcome_def Let_def assms(4) assms(5) [symmetric] add.assoc)
    qed
  qed
  with x(2-4) show ?thesis by blast
qed

section \<open>Any parameters\<close>



text \<open>The last parameter of a URI, alone or after others.\<close>

definition last_param :: "string \<Rightarrow> string \<Rightarrow> bool" where
  "last_param w ps \<longleftrightarrow> ps = w \<or> (\<exists>qs. list_all param_char qs \<and> ps = qs @ '';'' @ w)"

lemma parse_last_param:
  assumes "t \<in> {SIP_URI_T, SIPS_URI_T}" "core_ok user host port" "list_all param_char w"
    "k = keep (uri_parts (length (scheme_text t)) user host port zero_uri)"
    "a = params_at t user host port" "last_param w ps"
  shows "\<exists>x. us_state x = URI_PARAM \<and> par_inv a k t x \<and>
    (\<forall>y. uri_loop (a + length ps - length w) w x = Inr y \<longrightarrow> outcome t user host port ps y)"
proof (cases "ps = w")
  case True
  from parse_with_params [OF assms(1,2) _ assms(4,5), of "[]"] obtain x where
    "par_inv a k t x" "us_state x = URI_PARAM"
    "\<forall>ws y. list_all param_char ws \<longrightarrow> uri_loop (a + length ([] :: string)) ws x = Inr y \<longrightarrow>
       outcome t user host port ([] @ ws) y" by auto
  then show ?thesis using assms(3) True by auto
next
  case False
  then obtain qs where qs: "list_all param_char qs" "ps = qs @ '';'' @ w"
    using assms(6) by (auto simp: last_param_def)
  from parse_with_params [OF assms(1,2) qs(1) assms(4,5)] obtain x where
    x: "uri_inv (a + length qs) x" "par_inv a k t x"
      "\<And>ws y. list_all param_char ws \<Longrightarrow> uri_loop (a + length qs) ws x = Inr y \<Longrightarrow>
       outcome t user host port (qs @ ws) y" by blast
  have semi: "param_char CHR '';''" by (simp add: param_char_def)
  from par_run [OF x(1,2), of "'';''"] semi obtain y0 where
    y0: "uri_step (a + length qs) CHR '';'' x = Inr y0" "par_inv a k t y0"
    by (auto simp: ebind_Inr_iff)
  have st: "us_state y0 = URI_PARAM" by (rule par_semicolon [OF x(2) y0(1)])
  have "outcome t user host port ps y" if "uri_loop (a + length ps - length w) w y0 = Inr y" for y
    using x(3) [of "'';'' @ w" y] that y0(1) semi assms(3) qs(2) by simp
  with st y0(2) show ?thesis by blast
qed

section \<open>\<open>maddr\<close> and \<open>transport\<close>\<close>

text \<open>
  C36: a URI whose last parameter is a beginning \<open>ma\<close>, \<open>mad\<close>, ... of the parameter \<open>maddr\<close> (or
  \<open>maddr\<close> itself, with or without the equal sign) is refused with \<open>error_bug\<close>, while other
  unfinished parameter names are accepted.
\<close>

theorem parse_maddr_bug:
  assumes "t \<in> {SIP_URI_T, SIPS_URI_T}" "core_ok user host port"
    "w \<in> {''ma'', ''mad'', ''madd'', ''maddr'', ''maddr=''}" "last_param w ps"
  shows "parse_uri (scheme_text t @ core_text user host port @ '';'' @ ps) = Inl E_bug"
proof -
  have w: "list_all param_char w" using assms(3) by (auto simp: param_char_def)
  from parse_last_param [OF assms(1,2) w refl refl assms(4)] obtain x where
    x: "us_state x = URI_PARAM"
      "\<forall>y. uri_loop (params_at t user host port + length ps - length w) w x = Inr y \<longrightarrow>
       us_state y \<in> maddr_states \<longrightarrow>
       parse_uri (scheme_text t @ core_text user host port @ '';'' @ ps) = Inl E_bug"
    by (auto simp: outcome_def Let_def)
  have "\<exists>y. uri_loop q w x = Inr y \<and> us_state y \<in> maddr_states" for q
    using assms(3) x(1)
    by (auto simp: uri_step_def step_param_def step_transport_values_def step_param_names_def
        param_common_cases_def param_switch_def param_switch1_def param_switch_big_def
        set_state_def maddr_states_def)
  with x(2) show ?thesis by blast
qed

theorem parse_maddr_bug_witness: "parse_uri ''sip:alice@h;lr;maddr='' = Inl E_bug"
  using parse_maddr_bug [of SIP_URI_T "Some ''alice''" "''h''" None "''maddr=''" "''lr;maddr=''"]
  by (simp add: core_ok_def plain_name_def plain_char_def core_text_def last_param_def param_char_def)

text \<open>Letters in either case.\<close>

lemma lower_charD:
  assumes "lower_char c = d" "of_char u + 32 = (of_char d :: nat)"
  shows "c = d \<or> c = u"
proof (cases "(65::nat) \<le> of_char c \<and> of_char c \<le> (90::nat)")
  case True
  then have "d = char_of (of_char c + 32 :: nat)" using assms by (simp add: lower_char_def)
  with True have "of_char d = (of_char c + 32 :: nat)" by (simp add: of_char_of)
  then have "(of_char c :: nat) = of_char u" using assms(2) by simp
  then show ?thesis by (simp add: of_char_eq_iff)
qed (use assms in \<open>auto simp: lower_char_def\<close>)

lemma letter_cases:
  "lower_char c = CHR ''t'' \<Longrightarrow> c = CHR ''t'' \<or> c = CHR ''T''"
  "lower_char c = CHR ''r'' \<Longrightarrow> c = CHR ''r'' \<or> c = CHR ''R''"
  "lower_char c = CHR ''a'' \<Longrightarrow> c = CHR ''a'' \<or> c = CHR ''A''"
  "lower_char c = CHR ''n'' \<Longrightarrow> c = CHR ''n'' \<or> c = CHR ''N''"
  "lower_char c = CHR ''s'' \<Longrightarrow> c = CHR ''s'' \<or> c = CHR ''S''"
  "lower_char c = CHR ''p'' \<Longrightarrow> c = CHR ''p'' \<or> c = CHR ''P''"
  "lower_char c = CHR ''o'' \<Longrightarrow> c = CHR ''o'' \<or> c = CHR ''O''"
  "lower_char c = CHR ''u'' \<Longrightarrow> c = CHR ''u'' \<or> c = CHR ''U''"
  "lower_char c = CHR ''d'' \<Longrightarrow> c = CHR ''d'' \<or> c = CHR ''D''"
  "lower_char c = CHR ''c'' \<Longrightarrow> c = CHR ''c'' \<or> c = CHR ''C''"
  "lower_char c = CHR ''l'' \<Longrightarrow> c = CHR ''l'' \<or> c = CHR ''L''"
  by (erule lower_charD, simp)+

lemma switch_hit:
  "c = c1 \<or> c = c2 \<Longrightarrow> param_switch c1 c2 q p c x = Inr (set_state q x)"
  "c = c1 \<or> c = c2 \<Longrightarrow> param_switch_big c1 c2 d1 d2 q q' p c x = Inr (set_state q x)"
  "c = c1 \<or> c = c2 \<Longrightarrow> value_switch c1 c2 q p c x = Inr (set_state q x)"
  "c = c1 \<or> c = c2 \<Longrightarrow> value_switch_big c1 c2 d1 d2 q q' p c x = Inr (set_state q x)"
  "c = d1 \<or> c = d2 \<Longrightarrow> c \<noteq> c1 \<and> c \<noteq> c2 \<Longrightarrow>
     value_switch_big c1 c2 d1 d2 q q' p c x = Inr (set_state q' x)"
  by (auto simp: param_switch_def param_switch_big_def value_switch_def value_switch_big_def)

lemma transport_name:
  assumes "us_state x = URI_PARAM" "map lower_char nm = ''transport''"
  shows "uri_loop q (nm @ ''='' @ v) x =
    uri_loop (q + 10) v (x\<lparr>us_b := Some q, us_state := PT_eq\<rparr>)"
proof -
  obtain c1 c2 c3 c4 c5 c6 c7 c8 c9 where nm: "nm = [c1, c2, c3, c4, c5, c6, c7, c8, c9]"
    and l: "lower_char c1 = CHR ''t''" "lower_char c2 = CHR ''r''" "lower_char c3 = CHR ''a''"
      "lower_char c4 = CHR ''n''" "lower_char c5 = CHR ''s''" "lower_char c6 = CHR ''p''"
      "lower_char c7 = CHR ''o''" "lower_char c8 = CHR ''r''" "lower_char c9 = CHR ''t''"
    using assms(2) by (auto simp: map_eq_Cons_conv)
  note h = letter_cases(1) [OF l(1)] letter_cases(2) [OF l(2)] letter_cases(3) [OF l(3)]
    letter_cases(4) [OF l(4)] letter_cases(5) [OF l(5)] letter_cases(6) [OF l(6)]
    letter_cases(7) [OF l(7)] letter_cases(2) [OF l(8)] letter_cases(1) [OF l(9)]
  have "uri_step q c1 x = Inr (x\<lparr>us_b := Some q, us_state := PT_T\<rparr>)" for q
    using assms(1) h(1) by (auto simp: uri_step_def step_param_def param_common_cases_def)
  then show ?thesis
    by (simp add: nm uri_step_def step_transport_values_def step_param_names_def switch_hit h
        set_state_def param_switch1_def numeral_eq_Suc)
qed

definition transport_no :: "string \<Rightarrow> u16" where
  "transport_no v = (if v = ''udp'' then PROTO_UDP else if v = ''tcp'' then PROTO_TCP
     else if v = ''tls'' then PROTO_TLS else PROTO_SCTP)"

definition fin_states :: "(uri_state \<times> u16) set" where
  "fin_states = {(VU_P_FIN, PROTO_UDP), (VT_P_FIN, PROTO_TCP), (VTLS_S_FIN, PROTO_TLS),
     (VS_P_FIN, PROTO_SCTP)}"

lemma transport_value:
  assumes "map lower_char v \<in> {''udp'', ''tcp'', ''tls'', ''sctp''}" "us_state x = PT_eq"
  shows "\<exists>st. uri_loop q v x =
      Inr (x\<lparr>us_param := Some P_transport, us_v := Some q, us_state := st\<rparr>) \<and>
    (st, transport_no (map lower_char v)) \<in> fin_states"
proof -
  have s: "uri_step q c x = Inr (x\<lparr>us_param := Some P_transport, us_v := Some q, us_state := VU_U\<rparr>)"
    if "lower_char c = CHR ''u''" for c
    using letter_cases(8) [OF that] assms(2)
    by (auto simp: uri_step_def step_pt_eq_def param_common_cases_def set_state_def)
  have t: "uri_step q c x = Inr (x\<lparr>us_param := Some P_transport, us_v := Some q, us_state := VT_T\<rparr>)"
    if "lower_char c = CHR ''t''" for c
    using letter_cases(1) [OF that] assms(2)
    by (auto simp: uri_step_def step_pt_eq_def param_common_cases_def set_state_def)
  have u: "uri_step q c x = Inr (x\<lparr>us_param := Some P_transport, us_v := Some q, us_state := VS_S\<rparr>)"
    if "lower_char c = CHR ''s''" for c
    using letter_cases(5) [OF that] assms(2)
    by (auto simp: uri_step_def step_pt_eq_def param_common_cases_def set_state_def)
  have ll: "c \<noteq> CHR ''c'' \<and> c \<noteq> CHR ''C''" if "lower_char c = CHR ''l''" for c
    using letter_cases(11) [OF that] by auto
  have tv: "uri_step q c y = step_transport_values q c y" if "us_state y \<in> in_value - {URI_VAL_P}" for q c y
    using that by (auto simp: uri_step_def in_value_def)
  show ?thesis
    using assms(1)
    by (auto simp: map_eq_Cons_conv s t u tv in_value_def step_transport_values_def switch_hit
        letter_cases ll set_state_def fin_states_def transport_no_def)
qed

text \<open>
  C33: when the last parameter is \<open>transport\<close> with one of the four protocols, in upper or lower
  case, the result holds the protocol's number, and the parameter and its value where they
  stand.
\<close>

theorem parse_transport:
  assumes "t \<in> {SIP_URI_T, SIPS_URI_T}" "core_ok user host port"
    "map lower_char nm = ''transport''" "map lower_char v \<in> {''udp'', ''tcp'', ''tls'', ''sctp''}"
    "last_param (nm @ ''='' @ v) ps" "n = params_at t user host port + length ps"
  shows "\<exists>u. parse_uri (scheme_text t @ core_text user host port @ '';'' @ ps) = Inr u \<and>
    u_proto u = transport_no (map lower_char v) \<and>
    u_transport u = span (n - length v - 10) n \<and> u_transport_val u = span (n - length v) n"
proof -
  have low: "c \<notin> {CHR ''@'', CHR ''?'', CHR '':''}" if "lower_char c \<in> set ''transportudplcs''" for c
    using that by (auto simp: lower_char_def)
  have chars: "list_all param_char (nm @ ''='' @ v)"
  proof -
    have "lower_char c \<in> set ''transportudplcs''" if "c \<in> set nm \<union> set v" for c
    proof -
      have "lower_char c \<in> set (map lower_char nm) \<union> set (map lower_char v)" using that by auto
      then show ?thesis using assms(3,4) by auto
    qed
    then show ?thesis using low by (auto simp: list_all_iff param_char_def)
  qed
  from parse_last_param [OF assms(1,2) chars refl refl assms(5)] obtain x where
    x: "us_state x = URI_PARAM"
      "\<And>y. uri_loop (n - length (nm @ ''='' @ v)) (nm @ ''='' @ v) x = Inr y \<Longrightarrow>
        outcome t user host port ps y"
    unfolding assms(6) by blast
  have nm: "length nm = 9" using arg_cong [OF assms(3), of length] by simp
  let ?q = "n - length v - 10"
  have len: "length v + 10 \<le> n" using assms(5,6) nm by (auto simp: last_param_def)
  let ?x = "x\<lparr>us_b := Some ?q, us_state := PT_eq\<rparr>"
  from transport_value [OF assms(4), of ?x "n - length v"] obtain st where
    st: "uri_loop (n - length v) v ?x =
        Inr (?x\<lparr>us_param := Some P_transport, us_v := Some (n - length v), us_state := st\<rparr>)"
      "(st, transport_no (map lower_char v)) \<in> fin_states" by auto
  let ?y = "?x\<lparr>us_param := Some P_transport, us_v := Some (n - length v), us_state := st\<rparr>"
  have "n - length (nm @ ''='' @ v) = ?q" "?q + 10 = n - length v" using nm len by auto
  then have "uri_loop (n - length (nm @ ''='' @ v)) (nm @ ''='' @ v) x = Inr ?y"
    using transport_name [OF x(1) assms(3), of ?q v] st(1) by simp
  from x(2) [OF this] st(2) show ?thesis
    unfolding assms(6) [symmetric] outcome_def
    by (auto simp: fin_states_def maddr_states_def Let_def uri_end_def uri_end_params_def
        end_proto_def param_set_def end_params_def set_params_def set_proto_def assms(6))
qed

theorem parse_transport_witness:
  "\<exists>u. parse_uri ''sips:h:5061;lr;Transport=TLS'' = Inr u \<and> u_proto u = 3 \<and>
    u_transport_val u = span 25 28"
proof -
  have l: "map lower_char ''Transport'' = ''transport''" "map lower_char ''TLS'' = ''tls''"
    by code_simp+
  have c: "core_ok None ''h'' (Some ''5061'')"
    by (simp add: core_ok_def plain_name_def plain_char_def is_digit_char_def)
  have p: "last_param (''Transport'' @ ''='' @ ''TLS'') ''lr;Transport=TLS''"
    unfolding last_param_def by (rule disjI2, rule exI [of _ "''lr''"]) (simp add: param_char_def)
  show ?thesis
    using parse_transport [OF _ c l(1) _ p refl, of SIPS_URI_T] l(2)
    by (auto simp: core_text_def params_at_def PROTO_TLS_def span_def transport_no_def)
qed

section \<open>The cached URIs of a message\<close>

definition ruri :: "uri_msg \<Rightarrow> string" where
  "ruri msg = (case um_new_uri msg of Some u \<Rightarrow> u | None \<Rightarrow> um_first_line_uri msg)"

text \<open>A cache marked valid holds what parsing the text would give.\<close>

definition uri_cache_ok :: "uri_msg \<Rightarrow> bool" where
  "uri_cache_ok msg \<longleftrightarrow>
     (um_parsed_uri_ok msg \<longrightarrow> (\<exists>u. um_parsed_uri msg = Some u \<and> parse_uri (ruri msg) = Inr u)) \<and>
     (um_parsed_orig_ruri_ok msg \<longrightarrow>
       (\<exists>u. um_parsed_orig_ruri msg = Some u \<and> parse_uri (um_first_line_uri msg) = Inr u))"

text \<open>
  C40: both cached parses keep the caches right; a call that does not fail leaves the parse of
  its text in the cache, one that fails leaves it marked invalid, and a repeated call after
  success returns 1 and changes nothing.
\<close>

theorem uri_cache:
  assumes "uri_cache_ok msg"
  shows "uri_cache_ok (snd (parse_sip_msg_uri msg)) \<and> uri_cache_ok (snd (parse_orig_ruri msg)) \<and>
    (case parse_uri (ruri msg) of
       Inl e \<Rightarrow> fst (parse_sip_msg_uri msg) = -1 \<and> \<not> um_parsed_uri_ok (snd (parse_sip_msg_uri msg))
     | Inr u \<Rightarrow> 0 \<le> fst (parse_sip_msg_uri msg) \<and>
         um_parsed_uri (snd (parse_sip_msg_uri msg)) = Some u \<and>
         parse_sip_msg_uri (snd (parse_sip_msg_uri msg)) = (1, snd (parse_sip_msg_uri msg))) \<and>
    (case parse_uri (um_first_line_uri msg) of
       Inl e \<Rightarrow> fst (parse_orig_ruri msg) = -1 \<and> \<not> um_parsed_orig_ruri_ok (snd (parse_orig_ruri msg))
     | Inr u \<Rightarrow> 0 \<le> fst (parse_orig_ruri msg) \<and>
         um_parsed_orig_ruri (snd (parse_orig_ruri msg)) = Some u \<and>
         parse_orig_ruri (snd (parse_orig_ruri msg)) = (1, snd (parse_orig_ruri msg)))"
proof -
  have 1: "parse_sip_msg_uri m =
      (if um_parsed_uri_ok m then (1, m)
       else case parse_uri (ruri m) of
         Inl e \<Rightarrow> (-1, m\<lparr>um_parsed_uri := None, um_parsed_uri_ok := False\<rparr>)
       | Inr u \<Rightarrow> (0, m\<lparr>um_parsed_uri := Some u, um_parsed_uri_ok := True\<rparr>))" for m
    by (simp add: parse_sip_msg_uri_def ruri_def)
  have r: "ruri (m\<lparr>um_parsed_uri := a, um_parsed_uri_ok := b\<rparr>) = ruri m"
    "ruri (m\<lparr>um_parsed_orig_ruri := a, um_parsed_orig_ruri_ok := b\<rparr>) = ruri m" for m a b
    by (simp_all add: ruri_def split: option.split)
  show ?thesis
    using assms
    by (cases "um_parsed_uri_ok msg"; cases "um_parsed_orig_ruri_ok msg")
      (auto simp: uri_cache_ok_def 1 r parse_orig_ruri_def split: sum.splits)
qed

theorem uri_cache_witness:
  "um_parsed_uri_ok (snd (parse_sip_msg_uri
    \<lparr>um_new_uri = None, um_first_line_uri = ''sip'', um_parsed_uri_ok = False, um_parsed_uri = None,
     um_parsed_orig_ruri_ok = False, um_parsed_orig_ruri = None\<rparr>)) = False"
  using uri_cache [of "\<lparr>um_new_uri = None, um_first_line_uri = ''sip'', um_parsed_uri_ok = False,
     um_parsed_uri = None, um_parsed_orig_ruri_ok = False, um_parsed_orig_ruri = None\<rparr>"]
  by (simp add: uri_cache_ok_def ruri_def parse_uri_def)

end
