(* ===== verification/Dispatcher.thy ===== *)
theory Dispatcher
  imports Interfaces
begin

text \<open>
  The dispatcher, \<open>src/core/dispatcher/dispatcher.c\<close>: a binary heap of tasks in an array of
  \<open>MAX_TASKS\<close> entries, with a lock and a counting semaphore. The two loops keep the array as a
  list. The part of each function between \<open>lock_get\<close> and \<open>lock_release\<close> is one definition, so
  that interleavings of threads are sequences of those parts and of the semaphore calls.
\<close>

section \<open>State\<close>

record heap_node =
  hn_fd :: int
  hn_priority :: int
  hn_flags :: int
  hn_cb :: nat
  hn_cb_param :: nat
  hn_last_reactor :: "nat option"

definition MAX_TASKS :: nat where "MAX_TASKS = 2048"

record dispatcher =
  dp_sem :: nat
  dp_size :: nat
  dp_nodes :: "heap_node list"

text \<open>The nodes of a fresh block are whatever the memory held.\<close>

definition new_dispatcher :: "bool \<Rightarrow> bool \<Rightarrow> heap_node list \<Rightarrow> dispatcher option" where
  "new_dispatcher mem_ok lock_ok junk =
     (if \<not> mem_ok then None else if \<not> lock_ok then None
      else Some \<lparr>dp_sem = 0, dp_size = 0, dp_nodes = junk\<rparr>)"

section \<open>Operations\<close>

definition swap_nodes :: "heap_node list \<Rightarrow> nat \<Rightarrow> nat \<Rightarrow> heap_node list" where
  "swap_nodes xs i j = xs[i := xs ! j, j := xs ! i]"

function sift_up :: "heap_node list \<Rightarrow> nat \<Rightarrow> heap_node list" where
  "sift_up nodes cur =
     (if 0 < cur then
        let parent = (cur - 1) div 2
        in if hn_priority (nodes ! parent) < hn_priority (nodes ! cur)
           then sift_up (swap_nodes nodes parent cur) parent
           else nodes
      else nodes)"
  by pat_completeness auto

termination by (relation "measure snd") auto

definition put_locked :: "dispatcher \<Rightarrow> heap_node \<Rightarrow> fault + dispatcher" where
  "put_locked d n =
     (let cur = dp_size d
      in if length (dp_nodes d) \<le> cur then Inl Out_of_bounds
         else Inr (d\<lparr>dp_nodes := sift_up ((dp_nodes d)[cur := n]) cur, dp_size := dp_size d + 1\<rparr>))"

definition sem_post :: "dispatcher \<Rightarrow> dispatcher" where
  "sem_post d = d\<lparr>dp_sem := dp_sem d + 1\<rparr>"

definition put_task :: "dispatcher \<Rightarrow> heap_node \<Rightarrow> fault + dispatcher" where
  "put_task d n = ebind (put_locked d n) (\<lambda>d'. Inr (sem_post d'))"

text \<open>The larger of a node and its sons: \<open>maxi\<close>.\<close>

definition max_son :: "heap_node list \<Rightarrow> nat \<Rightarrow> nat \<Rightarrow> nat" where
  "max_son nodes sz cur =
     (let son1 = cur * 2 + 1; son2 = cur * 2 + 2;
          maxi = (if hn_priority (nodes ! cur) < hn_priority (nodes ! son1) then son1 else cur)
      in if son2 < sz \<and> hn_priority (nodes ! maxi) < hn_priority (nodes ! son2) then son2 else maxi)"

lemma max_son_range: "max_son nodes sz cur \<in> {cur, cur * 2 + 1, cur * 2 + 2}"
  by (simp add: max_son_def Let_def)

function sift_down :: "heap_node list \<Rightarrow> nat \<Rightarrow> nat \<Rightarrow> heap_node list" where
  "sift_down nodes sz cur =
     (if cur * 2 + 1 < sz then
        let maxi = max_son nodes sz cur
        in if maxi \<noteq> cur then sift_down (swap_nodes nodes cur maxi) sz maxi
           else nodes
      else nodes)"
  by pat_completeness auto

termination
proof (relation "measure (\<lambda>(nodes, sz, cur). sz - cur)", goal_cases)
  case (2 nodes sz cur maxi)
  then show ?case using max_son_range [of nodes sz cur] by auto
qed simp

definition get_locked :: "dispatcher \<Rightarrow> fault + heap_node \<times> dispatcher" where
  "get_locked d =
     (if dp_size d = 0 then Inl Out_of_bounds
      else let nodes = dp_nodes d; sz = dp_size d - 1
           in Inr (nodes ! 0, d\<lparr>dp_nodes := sift_down (nodes[0 := nodes ! sz]) sz 0, dp_size := sz\<rparr>))"

text \<open>\<open>sem_wait\<close> returns only when the semaphore is not zero; \<open>None\<close>: it blocks.\<close>

definition sem_wait :: "dispatcher \<Rightarrow> dispatcher option" where
  "sem_wait d = (if dp_sem d = 0 then None else Some (d\<lparr>dp_sem := dp_sem d - 1\<rparr>))"

definition get_task :: "dispatcher \<Rightarrow> (fault + heap_node \<times> dispatcher) option" where
  "get_task d = map_option get_locked (sem_wait d)"

definition put_task_simple :: "dispatcher \<Rightarrow> int \<Rightarrow> nat \<Rightarrow> nat \<Rightarrow> fault + dispatcher" where
  "put_task_simple d priority cb cb_param =
     put_task d \<lparr>hn_fd = -1, hn_priority = priority, hn_flags = 0, hn_cb = cb,
       hn_cb_param = cb_param, hn_last_reactor = None\<rparr>"

declare sift_up.simps [simp del] sift_down.simps [simp del]

section \<open>Heaps\<close>

abbreviation prio_at :: "heap_node list \<Rightarrow> nat \<Rightarrow> int" where
  "prio_at xs i \<equiv> hn_priority (xs ! i)"

definition heap_upto :: "heap_node list \<Rightarrow> nat \<Rightarrow> bool" where
  "heap_upto xs n \<longleftrightarrow> (\<forall>i. 0 < i \<and> i < n \<longrightarrow> prio_at xs i \<le> prio_at xs ((i - 1) div 2))"

lemma length_swap [simp]: "length (swap_nodes xs i j) = length xs"
  by (simp add: swap_nodes_def)

lemma nth_swap:
  "i < length xs \<Longrightarrow> j < length xs \<Longrightarrow>
   swap_nodes xs i j ! k = (if k = j then xs ! i else if k = i then xs ! j else xs ! k)"
  by (simp add: swap_nodes_def nth_list_update)

lemma mset_swap_take:
  "i < n \<Longrightarrow> j < n \<Longrightarrow> n \<le> length xs \<Longrightarrow> mset (take n (swap_nodes xs i j)) = mset (take n xs)"
  using mset_swap [of j "take n xs" i]
  by (simp add: swap_nodes_def take_update_swap)

lemma heap_root_max:
  assumes "heap_upto xs n" "i < n"
  shows "prio_at xs i \<le> prio_at xs 0"
  using assms(2)
proof (induction i rule: less_induct)
  case (less i)
  show ?case
  proof (cases "i = 0")
    case False
    then have "prio_at xs i \<le> prio_at xs ((i - 1) div 2)"
      using assms(1) less.prems by (simp add: heap_upto_def)
    moreover have "(i - 1) div 2 < i" using False by linarith
    ultimately show ?thesis using less.IH [of "(i - 1) div 2"] less.prems by linarith
  qed simp
qed

text \<open>Going up: the heap is broken only between \<open>cur\<close> and its parent.\<close>

definition up_inv :: "heap_node list \<Rightarrow> nat \<Rightarrow> nat \<Rightarrow> bool" where
  "up_inv xs n cur \<longleftrightarrow> cur < n \<and> n \<le> length xs \<and>
     (\<forall>i. 0 < i \<and> i < n \<and> i \<noteq> cur \<longrightarrow> prio_at xs i \<le> prio_at xs ((i - 1) div 2)) \<and>
     (\<forall>i. 0 < i \<and> i < n \<and> 0 < cur \<and> (i - 1) div 2 = cur \<longrightarrow>
        prio_at xs i \<le> prio_at xs ((cur - 1) div 2))"

lemma sift_up_ok:
  "up_inv xs n cur \<Longrightarrow>
   heap_upto (sift_up xs cur) n \<and> length (sift_up xs cur) = length xs \<and>
   mset (take n (sift_up xs cur)) = mset (take n xs)"
proof (induction xs cur rule: sift_up.induct)
  case (1 xs cur)
  show ?case
  proof (cases "0 < cur \<and> prio_at xs ((cur - 1) div 2) < prio_at xs cur")
    case False
    then have "heap_upto xs n" using 1(2) by (force simp: up_inv_def heap_upto_def)
    then show ?thesis using False by (subst (1 2 3) sift_up.simps) (auto simp: Let_def)
  next
    case True
    define p where "p = (cur - 1) div 2"
    let ?ys = "swap_nodes xs p cur"
    have pc: "p < cur" "cur < n" "n \<le> length xs" using True 1(2) by (auto simp: p_def up_inv_def)
    have nth: "?ys ! k = (if k = cur then xs ! p else if k = p then xs ! cur else xs ! k)" for k
      using pc by (simp add: nth_swap)
    have inv: "up_inv ?ys n p"
    proof -
      have o: "prio_at xs i \<le> prio_at xs ((i - 1) div 2)" if "0 < i" "i < n" "i \<noteq> cur" for i
        using 1(2) that by (simp add: up_inv_def)
      have s: "prio_at xs i \<le> prio_at xs p" if "0 < i" "i < n" "(i - 1) div 2 = cur" for i
        using 1(2) that pc(1) by (simp add: up_inv_def p_def)
      have "prio_at ?ys i \<le> prio_at ?ys ((i - 1) div 2)" if i: "0 < i" "i < n" "i \<noteq> p" for i
      proof (cases "i = cur")
        case eq: True
        have e: "(i - 1) div 2 = p" using eq by (simp add: p_def)
        have "prio_at xs p < prio_at xs cur" using True by (simp add: p_def)
        then show ?thesis using pc eq unfolding e by (simp add: nth)
      next
        case False
        have lt: "prio_at xs p < prio_at xs cur" using True by (simp add: p_def)
        show ?thesis
          using o [OF i(1,2) False] s [OF i(1,2)] i False lt unfolding nth by auto
      qed
      moreover have "prio_at ?ys i \<le> prio_at ?ys ((p - 1) div 2)"
        if i: "0 < i" "i < n" "0 < p" "(i - 1) div 2 = p" for i
      proof -
        have pp: "(p - 1) div 2 < p" using i(3) by linarith
        have "prio_at xs p \<le> prio_at xs ((p - 1) div 2)" using o [of p] i(3) pc by linarith
        moreover have "prio_at xs i \<le> prio_at xs p" if "i \<noteq> cur"
          using o [OF i(1,2) that] i(4) by simp
        moreover have "i \<noteq> p" using i by auto
        ultimately show ?thesis using pp pc i by (auto simp: nth)
      qed
      ultimately show ?thesis using pc by (simp add: up_inv_def)
    qed
    have "sift_up xs cur = sift_up ?ys p" using True by (subst sift_up.simps) (simp add: Let_def p_def)
    moreover have "0 < cur" "prio_at xs p < prio_at xs cur" using True by (simp_all add: p_def)
    ultimately show ?thesis using 1(1) [OF _ p_def] inv pc by (simp add: mset_swap_take)
  qed
qed

text \<open>Going down: it is broken only between \<open>cur\<close> and its sons.\<close>

definition down_inv :: "heap_node list \<Rightarrow> nat \<Rightarrow> nat \<Rightarrow> bool" where
  "down_inv xs n cur \<longleftrightarrow> n \<le> length xs \<and> (cur < n \<or> n = 0) \<and>
     (\<forall>i. 0 < i \<and> i < n \<and> (i - 1) div 2 \<noteq> cur \<longrightarrow> prio_at xs i \<le> prio_at xs ((i - 1) div 2)) \<and>
     (\<forall>i. 0 < i \<and> i < n \<and> 0 < cur \<and> (i - 1) div 2 = cur \<longrightarrow>
        prio_at xs i \<le> prio_at xs ((cur - 1) div 2))"

lemma sons: "0 < i \<Longrightarrow> (i - 1) div 2 = cur \<longleftrightarrow> i = cur * 2 + 1 \<or> i = cur * 2 + (2::nat)"
  by linarith

lemma max_son_max:
  assumes "cur * 2 + 1 < n"
  shows "prio_at xs cur \<le> prio_at xs (max_son xs n cur)"
    "prio_at xs (cur * 2 + 1) \<le> prio_at xs (max_son xs n cur)"
    "cur * 2 + 2 < n \<Longrightarrow> prio_at xs (cur * 2 + 2) \<le> prio_at xs (max_son xs n cur)"
    "max_son xs n cur < n"
  using assms by (auto simp: max_son_def Let_def)

lemma sift_down_ok:
  "down_inv xs n cur \<Longrightarrow>
   heap_upto (sift_down xs n cur) n \<and> length (sift_down xs n cur) = length xs \<and>
   mset (take n (sift_down xs n cur)) = mset (take n xs)"
proof (induction xs n cur rule: sift_down.induct)
  case (1 xs n cur)
  let ?m = "max_son xs n cur"
  show ?case
  proof (cases "cur * 2 + 1 < n \<and> ?m \<noteq> cur")
    case False
    have "prio_at xs i \<le> prio_at xs ((i - 1) div 2)" if i: "0 < i" "i < n" for i
    proof (cases "(i - 1) div 2 = cur")
      case True
      then have "cur * 2 + 1 < n" "i = cur * 2 + 1 \<or> i = cur * 2 + 2" using i sons by auto
      with False max_son_max [of cur n xs] i(2) True show ?thesis by auto
    next
      case False
      then show ?thesis using 1(2) i by (simp add: down_inv_def)
    qed
    then have "heap_upto xs n" by (simp add: heap_upto_def)
    then show ?thesis using False by (subst (1 2 3) sift_down.simps) (auto simp: Let_def)
  next
    case True
    let ?ys = "swap_nodes xs cur ?m"
    note mx = max_son_max [OF conjunct1 [OF True], of xs]
    have m: "?m = cur * 2 + 1 \<or> ?m = cur * 2 + 2" using max_son_range [of xs n cur] True by auto
    have l: "n \<le> length xs" "cur < n" using 1(2) True by (auto simp: down_inv_def)
    have nth: "?ys ! k = (if k = ?m then xs ! cur else if k = cur then xs ! ?m else xs ! k)" for k
      using l mx(4) by (simp add: nth_swap)
    have pm: "(?m - 1) div 2 = cur" using m by auto
    have o: "prio_at xs i \<le> prio_at xs ((i - 1) div 2)" if "0 < i" "i < n" "(i - 1) div 2 \<noteq> cur" for i
      using 1(2) that by (simp add: down_inv_def)
    have g: "prio_at xs i \<le> prio_at xs ((cur - 1) div 2)" if "0 < i" "i < n" "0 < cur" "(i - 1) div 2 = cur" for i
      using 1(2) that by (simp add: down_inv_def)
    have "prio_at ?ys i \<le> prio_at ?ys ((i - 1) div 2)"
      if i: "0 < i" "i < n" "(i - 1) div 2 \<noteq> ?m" for i
    proof (cases "(i - 1) div 2 = cur")
      case True
      then have "i = cur * 2 + 1 \<or> i = cur * 2 + 2" using i(1) sons by simp
      then show ?thesis using mx i True by (auto simp: nth)
    next
      case False
      then have ne: "i \<noteq> ?m" using pm by auto
      show ?thesis
      proof (cases "i = cur")
        case True
        have "prio_at xs ?m \<le> prio_at xs ((cur - 1) div 2)" using g [of ?m] m mx(4) pm i(1) True by auto
        then show ?thesis using True ne i False by (auto simp: nth)
      next
        case f: False
        then show ?thesis using o [OF i(1,2) False] ne i False by (auto simp: nth)
      qed
    qed
    moreover have "prio_at ?ys i \<le> prio_at ?ys ((?m - 1) div 2)"
      if i: "0 < i" "i < n" "(i - 1) div 2 = ?m" for i
    proof -
      have "i \<noteq> ?m" "i \<noteq> cur" "?m \<noteq> cur" using i m by auto
      then show ?thesis using o [OF i(1,2)] i pm by (auto simp: nth)
    qed
    ultimately have "down_inv ?ys n ?m" using l mx(4) by (simp add: down_inv_def)
    moreover have "sift_down xs n cur = sift_down ?ys n ?m"
      using True by (subst sift_down.simps) (simp add: Let_def)
    ultimately show ?thesis using 1(1) [OF _ refl] True l mx(4) by (simp add: mset_swap_take)
  qed
qed

section \<open>The queue\<close>

text \<open>
  What holds of the array under the lock, and of the whole dispatcher when no thread is
  between its semaphore call and its locked part.
\<close>

definition heap_ok :: "dispatcher \<Rightarrow> bool" where
  "heap_ok d \<longleftrightarrow> length (dp_nodes d) = MAX_TASKS \<and> dp_size d \<le> MAX_TASKS \<and>
     heap_upto (dp_nodes d) (dp_size d)"

definition disp_ok :: "dispatcher \<Rightarrow> bool" where
  "disp_ok d \<longleftrightarrow> heap_ok d \<and> dp_sem d = dp_size d"

definition disp_tasks :: "dispatcher \<Rightarrow> heap_node multiset" where
  "disp_tasks d = mset (take (dp_size d) (dp_nodes d))"

lemma size_disp_tasks: "heap_ok d \<Longrightarrow> size (disp_tasks d) = dp_size d"
  by (simp add: heap_ok_def disp_tasks_def)

lemma put_locked_ok:
  assumes "heap_ok d" "dp_size d < MAX_TASKS"
  shows "\<exists>d'. put_locked d n = Inr d' \<and> heap_ok d' \<and> dp_size d' = dp_size d + 1 \<and>
    dp_sem d' = dp_sem d \<and> disp_tasks d' = add_mset n (disp_tasks d)"
proof -
  let ?s = "dp_size d" and ?xs = "(dp_nodes d)[dp_size d := n]"
  have l: "?s < length (dp_nodes d)" using assms by (simp add: heap_ok_def)
  have inv: "up_inv ?xs (?s + 1) ?s"
    using assms l by (auto simp: up_inv_def heap_ok_def heap_upto_def nth_list_update)
  have "take (?s + 1) ?xs = take ?s (dp_nodes d) @ [n]"
    using l by (simp add: take_Suc_conv_app_nth)
  then have "mset (take (?s + 1) ?xs) = add_mset n (disp_tasks d)" by (simp add: disp_tasks_def)
  with sift_up_ok [OF inv] assms l show ?thesis
    by (simp add: put_locked_def Let_def heap_ok_def disp_tasks_def)
qed

lemma put_locked_full: "heap_ok d \<Longrightarrow> dp_size d = MAX_TASKS \<Longrightarrow> put_locked d n = Inl Out_of_bounds"
  by (simp add: put_locked_def heap_ok_def)

lemma get_locked_ok:
  assumes "heap_ok d" "0 < dp_size d"
  shows "\<exists>n d'. get_locked d = Inr (n, d') \<and> heap_ok d' \<and> dp_size d' + 1 = dp_size d \<and>
    dp_sem d' = dp_sem d \<and> disp_tasks d = add_mset n (disp_tasks d') \<and>
    (\<forall>m \<in># disp_tasks d. hn_priority m \<le> hn_priority n)"
proof -
  let ?s = "dp_size d - 1" and ?ns = "dp_nodes d"
  let ?xs = "?ns[0 := ?ns ! ?s]"
  have l: "?s < length ?ns" "dp_size d = ?s + 1" using assms by (auto simp: heap_ok_def)
  have h: "heap_upto ?ns (?s + 1)" using assms l(2) by (simp add: heap_ok_def)
  have inv: "down_inv ?xs ?s 0"
    using h l by (auto simp: down_inv_def heap_upto_def nth_list_update)
  have "mset (take (?s + 1) ?ns) = add_mset (?ns ! 0) (mset (take ?s ?xs))"
  proof (cases "?s")
    case 0
    then show ?thesis using l by (cases ?ns) auto
  next
    case (Suc k)
    then obtain x xs where x: "?ns = x # xs" "k < length xs" using l by (cases ?ns) auto
    then have "take (?s + 1) ?ns = x # take k xs @ [xs ! k]"
      using Suc by (simp add: take_Suc_conv_app_nth)
    then show ?thesis using Suc x by (simp add: take_Suc_conv_app_nth)
  qed
  then have t: "disp_tasks d = add_mset (?ns ! 0) (mset (take ?s ?xs))"
    using l(2) by (simp add: disp_tasks_def)
  have "hn_priority m \<le> hn_priority (?ns ! 0)" if "m \<in># disp_tasks d" for m
  proof -
    from that have "m \<in> set (take (?s + 1) ?ns)" using l(2) by (simp add: disp_tasks_def)
    then obtain i where "i < ?s + 1" "m = ?ns ! i"
      by (metis in_set_conv_nth length_take min_less_iff_conj nth_take)
    then show ?thesis using heap_root_max [OF h] by simp
  qed
  with sift_down_ok [OF inv] t assms l show ?thesis
    by (auto simp: get_locked_def Let_def heap_ok_def disp_tasks_def)
qed

text \<open>The queue's contract, used by one thread at a time.\<close>

interpretation disp_queue: task_queue put_task get_task disp_tasks disp_ok hn_priority MAX_TASKS
proof
  show "\<exists>d'. put_task d n = Inr d' \<and> disp_ok d' \<and> disp_tasks d' = add_mset n (disp_tasks d)"
    if "disp_ok d" "size (disp_tasks d) < MAX_TASKS" for d n
    using put_locked_ok [of d n] that
    by (auto simp: disp_ok_def size_disp_tasks put_task_def sem_post_def heap_ok_def disp_tasks_def)
  show "put_task d n = Inl Out_of_bounds" if "disp_ok d" "MAX_TASKS \<le> size (disp_tasks d)" for d n
    using that put_locked_full [of d n]
    by (simp add: disp_ok_def size_disp_tasks put_task_def) (simp add: heap_ok_def)
  show "\<exists>n d'. get_task d = Some (Inr (n, d')) \<and> disp_ok d' \<and>
      disp_tasks d = add_mset n (disp_tasks d') \<and> (\<forall>m \<in># disp_tasks d. hn_priority m \<le> hn_priority n)"
    if "disp_ok d" "disp_tasks d \<noteq> {#}" for d
  proof -
    have s: "0 < dp_size d" using that by (auto simp: disp_tasks_def)
    let ?e = "d\<lparr>dp_sem := dp_sem d - 1\<rparr>"
    have "heap_ok ?e" "disp_tasks ?e = disp_tasks d" "0 < dp_size ?e"
      using that s by (simp_all add: disp_ok_def heap_ok_def disp_tasks_def)
    with get_locked_ok [of ?e] that s show ?thesis
      by (auto simp: get_task_def sem_wait_def disp_ok_def)
  qed
  show "get_task d = None" if "disp_ok d" "disp_tasks d = {#}" for d
    using that size_disp_tasks [of d] by (simp add: disp_ok_def get_task_def sem_wait_def)
qed

lemma new_dispatcher_ok:
  "length junk = MAX_TASKS \<Longrightarrow> new_dispatcher True True junk = Some d \<Longrightarrow>
   disp_ok d \<and> disp_tasks d = {#}"
  by (auto simp: new_dispatcher_def disp_ok_def heap_ok_def heap_upto_def disp_tasks_def)

text \<open>
  C23: whatever tasks are put into a new dispatcher, up to \<open>MAX_TASKS\<close> of them, the workers get
  exactly those tasks, higher priorities first, and then wait.
\<close>

theorem dispatch_by_priority:
  assumes "length junk = MAX_TASKS" "new_dispatcher True True junk = Some d"
    "length ns \<le> MAX_TASKS"
  shows "\<exists>d1 ms d2. put_tasks put_task d ns = Inr d1 \<and>
    take_tasks get_task (length ns) d1 = Some (Inr (ms, d2)) \<and> mset ms = mset ns \<and>
    sorted_wrt (\<lambda>a b. hn_priority b \<le> hn_priority a) ms \<and> get_task d2 = None"
proof -
  have d: "disp_ok d" "disp_tasks d = {#}" using new_dispatcher_ok [OF assms(1,2)] by simp_all
  from disp_queue.put_then_take [OF d assms(3)] show ?thesis
    using disp_queue.get_empty by blast
qed

definition demo_node :: "int \<Rightarrow> heap_node" where
  "demo_node p = \<lparr>hn_fd = -1, hn_priority = p, hn_flags = 0, hn_cb = 0, hn_cb_param = 0,
     hn_last_reactor = None\<rparr>"

theorem dispatch_by_priority_witness:
  "\<exists>d d1 ms d2. new_dispatcher True True (replicate MAX_TASKS (demo_node 0)) = Some d \<and>
    put_tasks put_task d [demo_node 1, demo_node 3, demo_node 2] = Inr d1 \<and>
    take_tasks get_task 3 d1 = Some (Inr (ms, d2)) \<and> get_task d2 = None"
proof -
  obtain d where d: "new_dispatcher True True (replicate MAX_TASKS (demo_node 0)) = Some d"
    by (simp add: new_dispatcher_def)
  show ?thesis
    using dispatch_by_priority [OF _ d, of "[demo_node 1, demo_node 3, demo_node 2]"] d
    by (simp add: MAX_TASKS_def numeral_3_eq_3) blast
qed

text \<open>
  C37: nothing checks the bound: with \<open>MAX_TASKS\<close> tasks waiting, the next \<open>put_task\<close> writes past
  the end of the array.
\<close>

theorem put_task_overflow:
  assumes "disp_ok d" "length ns = MAX_TASKS + 1 - dp_size d"
  shows "put_tasks put_task d ns = Inl Out_of_bounds"
proof -
  have "heap_ok d" using assms(1) by (simp add: disp_ok_def)
  then have "size (disp_tasks d) = dp_size d" "dp_size d \<le> MAX_TASKS"
    by (simp_all add: size_disp_tasks heap_ok_def)
  then show ?thesis using assms by (intro disp_queue.put_tasks_full) auto
qed

theorem put_task_overflow_witness:
  "put_tasks put_task \<lparr>dp_sem = 0, dp_size = 0, dp_nodes = replicate MAX_TASKS (demo_node 0)\<rparr>
    (replicate (MAX_TASKS + 1) (demo_node 1)) = Inl Out_of_bounds"
  by (rule put_task_overflow) (simp_all add: disp_ok_def heap_ok_def heap_upto_def)

end
