(* ===== verification/Dispatcher_Threads.thy ===== *)
theory Dispatcher_Threads
  imports Dispatcher
begin

text \<open>
  The dispatcher under concurrency: the reactor and timer threads inside \<open>put_task\<close> and the
  workers inside \<open>get_task\<close>, interleaved at their semaphore calls and locked parts.
\<close>

text \<open>Where a thread is: outside, between its locked part and \<open>sem_post\<close>, or past \<open>sem_wait\<close>.\<close>

datatype pc = Outside | Before_post | Past_wait

record disp_system =
  ds_disp :: dispatcher
  ds_pcs :: "pc list"
  ds_put :: "heap_node multiset"
  ds_got :: "heap_node multiset"

inductive disp_step :: "disp_system \<Rightarrow> disp_system \<Rightarrow> bool" where
  step_put: "i < length (ds_pcs s) \<Longrightarrow> ds_pcs s ! i = Outside \<Longrightarrow> put_locked (ds_disp s) n = Inr d \<Longrightarrow>
    disp_step s (s\<lparr>ds_disp := d, ds_pcs := (ds_pcs s)[i := Before_post], ds_put := add_mset n (ds_put s)\<rparr>)"
| step_post: "i < length (ds_pcs s) \<Longrightarrow> ds_pcs s ! i = Before_post \<Longrightarrow>
    disp_step s (s\<lparr>ds_disp := sem_post (ds_disp s), ds_pcs := (ds_pcs s)[i := Outside]\<rparr>)"
| step_wait: "i < length (ds_pcs s) \<Longrightarrow> ds_pcs s ! i = Outside \<Longrightarrow> sem_wait (ds_disp s) = Some d \<Longrightarrow>
    disp_step s (s\<lparr>ds_disp := d, ds_pcs := (ds_pcs s)[i := Past_wait]\<rparr>)"
| step_get: "i < length (ds_pcs s) \<Longrightarrow> ds_pcs s ! i = Past_wait \<Longrightarrow> get_locked (ds_disp s) = Inr (n, d) \<Longrightarrow>
    disp_step s (s\<lparr>ds_disp := d, ds_pcs := (ds_pcs s)[i := Outside], ds_got := add_mset n (ds_got s)\<rparr>)"

inductive_cases disp_stepE: "disp_step s s'"

definition init_system :: "dispatcher \<Rightarrow> nat \<Rightarrow> disp_system" where
  "init_system d k = \<lparr>ds_disp = d, ds_pcs = replicate k Outside, ds_put = {#}, ds_got = {#}\<rparr>"

definition at_pc :: "pc \<Rightarrow> disp_system \<Rightarrow> nat" where
  "at_pc q s = count (mset (ds_pcs s)) q"

text \<open>
  The array is a heap, it holds what was put and not yet got, and each of its tasks is
  accounted for: posted, about to be posted, or promised to a thread past its wait.
\<close>

definition sys_inv :: "disp_system \<Rightarrow> bool" where
  "sys_inv s \<longleftrightarrow> heap_ok (ds_disp s) \<and>
     dp_size (ds_disp s) = dp_sem (ds_disp s) + at_pc Before_post s + at_pc Past_wait s \<and>
     ds_put s = disp_tasks (ds_disp s) + ds_got s"

lemma at_pc_update:
  assumes "i < length (ds_pcs s)" "ds_pcs s ! i = q0"
  shows "count (mset ((ds_pcs s)[i := q1])) q =
    at_pc q s - (if q = q0 then 1 else 0) + (if q = q1 then 1 else 0)"
  using assms by (auto simp: at_pc_def mset_update)

lemma at_pc_pos: "i < length (ds_pcs s) \<Longrightarrow> ds_pcs s ! i = q \<Longrightarrow> 0 < at_pc q s"
  unfolding at_pc_def by (metis count_greater_zero_iff nth_mem_mset)

lemma at_pc_put: "at_pc q (s\<lparr>ds_disp := d, ds_pcs := ps, ds_put := a\<rparr>) = count (mset ps) q"
    "at_pc q (s\<lparr>ds_disp := d, ds_pcs := ps, ds_got := a\<rparr>) = count (mset ps) q"
    "at_pc q (s\<lparr>ds_disp := d, ds_pcs := ps\<rparr>) = count (mset ps) q"
  by (simp_all add: at_pc_def)

lemma heap_ok_sem: "heap_ok (d\<lparr>dp_sem := k\<rparr>) = heap_ok d" "disp_tasks (d\<lparr>dp_sem := k\<rparr>) = disp_tasks d"
  by (simp_all add: heap_ok_def disp_tasks_def)

lemma put_locked_room: "heap_ok d \<Longrightarrow> put_locked d n = Inr d' \<Longrightarrow> dp_size d < MAX_TASKS"
  by (auto simp: put_locked_def heap_ok_def Let_def split: if_splits)

lemma sys_inv_step: "disp_step s s' \<Longrightarrow> sys_inv s \<Longrightarrow> sys_inv s'"
proof (induction rule: disp_step.induct)
  case (step_put i s n d)
  then have h: "heap_ok (ds_disp s)" by (simp add: sys_inv_def)
  from put_locked_ok [OF h put_locked_room [OF h step_put(3)], of n] step_put show ?case
    by (auto simp: sys_inv_def at_pc_put at_pc_update)
next
  case (step_post i s)
  with at_pc_pos [OF step_post(1,2)] show ?case
    by (auto simp: sys_inv_def at_pc_put at_pc_update sem_post_def heap_ok_sem)
next
  case (step_wait i s d)
  then show ?case
    by (auto simp: sys_inv_def at_pc_put at_pc_update sem_wait_def heap_ok_sem split: if_splits)
next
  case (step_get i s n d)
  then have h: "heap_ok (ds_disp s)" "0 < dp_size (ds_disp s)"
    using at_pc_pos [OF step_get(1,2)] by (simp_all add: sys_inv_def)
  from get_locked_ok [OF h] step_get at_pc_pos [OF step_get(1,2)] show ?case
    by (auto simp: sys_inv_def at_pc_put at_pc_update)
qed

definition disp_reach :: "dispatcher \<Rightarrow> nat \<Rightarrow> disp_system \<Rightarrow> bool" where
  "disp_reach d k = disp_step\<^sup>*\<^sup>* (init_system d k)"

lemma sys_inv_reach:
  assumes "disp_reach d k s" "disp_ok d" "disp_tasks d = {#}"
  shows "sys_inv s"
proof -
  have "dp_size d = 0" using assms(2,3) size_disp_tasks [of d] by (simp add: disp_ok_def)
  then have "sys_inv (init_system d k)"
    using assms(2,3) by (simp add: sys_inv_def init_system_def at_pc_def disp_ok_def)
  moreover have "disp_step\<^sup>*\<^sup>* (init_system d k) s" using assms(1) by (simp add: disp_reach_def)
  ultimately show ?thesis by (rotate_tac -1) (induction rule: rtranclp_induct, auto intro: sys_inv_step)
qed


text \<open>One task put, not yet posted.\<close>

lemma sample_run:
  obtains d s where "new_dispatcher True True (replicate MAX_TASKS (demo_node 0)) = Some d" "disp_reach d 2 s"
    "ds_put s = {#demo_node 5#}" "dp_size (ds_disp s) = 1"
proof -
  let ?junk = "replicate MAX_TASKS (demo_node 0)"
  define d where "d = \<lparr>dp_sem = 0, dp_size = 0, dp_nodes = ?junk\<rparr>"
  have n: "new_dispatcher True True ?junk = Some d" by (simp add: new_dispatcher_def d_def)
  from put_locked_ok [of d "demo_node 5"] new_dispatcher_ok [OF _ n] obtain e where
    e: "put_locked d (demo_node 5) = Inr e" "dp_size e = 1"
    by (auto simp: disp_ok_def d_def MAX_TASKS_def)
  define s where "s = (init_system d 2)\<lparr>ds_disp := e, ds_pcs := [Before_post, Outside],
    ds_put := {#demo_node 5#}\<rparr>"
  have "disp_step (init_system d 2) s"
    using disp_step.step_put [of 0 "init_system d 2" "demo_node 5" e] e(1)
    by (simp add: s_def init_system_def numeral_2_eq_2)
  then have "disp_reach d 2 s" by (simp add: disp_reach_def)
  with n e(2) that show ?thesis by (simp add: s_def)
qed


section \<open>Every task is got\<close>

text \<open>A step of a thread other than one that puts a new task.\<close>

definition drain_step :: "disp_system \<Rightarrow> disp_system \<Rightarrow> bool" where
  "drain_step s s' \<longleftrightarrow> disp_step s s' \<and> ds_put s' = ds_put s"

text \<open>How many such steps the tasks that are on their way can still take.\<close>

definition drain_measure :: "disp_system \<Rightarrow> nat" where
  "drain_measure s = 3 * at_pc Before_post s + 2 * dp_sem (ds_disp s) + at_pc Past_wait s"

lemma drain_measure_less:
  "disp_step s s' \<Longrightarrow> ds_put s' = ds_put s \<Longrightarrow> sys_inv s \<Longrightarrow> drain_measure s' < drain_measure s"
proof (induction rule: disp_step.induct)
  case (step_post i s)
  with at_pc_pos [OF step_post(1,2)] show ?case
    by (simp add: drain_measure_def at_pc_put at_pc_update sem_post_def)
next
  case (step_wait i s d)
  with at_pc_pos [OF step_wait(1,2)] show ?case
    by (auto simp: drain_measure_def at_pc_put at_pc_update sem_wait_def split: if_splits)
next
  case (step_get i s n d)
  then have "heap_ok (ds_disp s)" "0 < dp_size (ds_disp s)"
    using at_pc_pos [OF step_get(1,2)] by (simp_all add: sys_inv_def)
  from get_locked_ok [OF this] step_get at_pc_pos [OF step_get(1,2)] show ?case
    by (auto simp: drain_measure_def at_pc_put at_pc_update)
qed simp

lemma pcs_length: "disp_step s s' \<Longrightarrow> length (ds_pcs s') = length (ds_pcs s)"
  by (induction rule: disp_step.induct) simp_all

lemma drain_stuck:
  assumes "sys_inv s" "ds_pcs s \<noteq> []" "\<nexists>s'. drain_step s s'"
  shows "disp_tasks (ds_disp s) = {#}"
proof -
  have heap: "heap_ok (ds_disp s)" and size: "dp_size (ds_disp s) = dp_sem (ds_disp s) + at_pc Before_post s + at_pc Past_wait s"
    using assms(1) by (simp_all add: sys_inv_def)
  have "ds_pcs s ! i = Outside" if i: "i < length (ds_pcs s)" for i
  proof (cases "ds_pcs s ! i")
    case Before_post
    with disp_step.step_post [OF i] assms(3) show ?thesis by (fastforce simp: drain_step_def)
  next
    case Past_wait
    then have "0 < dp_size (ds_disp s)" using at_pc_pos [OF i] size by simp
    from get_locked_ok [OF heap this] disp_step.step_get [OF i Past_wait] assms(3) show ?thesis
      by (fastforce simp: drain_step_def)
  qed
  then have out: "p \<in> set (ds_pcs s) \<Longrightarrow> p = Outside" for p by (auto simp: in_set_conv_nth)
  then have none: "at_pc Before_post s = 0" "at_pc Past_wait s = 0"
    by (auto simp: at_pc_def count_eq_zero_iff)
  have "dp_sem (ds_disp s) = 0"
  proof (rule ccontr)
    assume "dp_sem (ds_disp s) \<noteq> 0"
    then obtain d where d: "sem_wait (ds_disp s) = Some d" by (simp add: sem_wait_def)
    have "0 < length (ds_pcs s)" "ds_pcs s ! 0 = Outside" using assms(2) out by simp_all
    from disp_step.step_wait [OF this d] assms(3) show False by (fastforce simp: drain_step_def)
  qed
  with none size have "dp_size (ds_disp s) = 0" by simp
  with size_disp_tasks [OF heap] show ?thesis by simp
qed



end
