(* ===== verification/Timer.thy ===== *)
theory Timer
  imports Dispatcher
begin

text \<open>
  The timers, \<open>src/core/timer.c\<close>: two lists of periodic tasks, in seconds and in microseconds,
  two tick counters, the tickers that put the tasks that are due into the dispatcher, and the
  thread that calls them. Client of the dispatcher through \<open>put_task\<close>.
\<close>

section \<open>State\<close>

record timer_task =
  tt_task :: heap_node
  tt_interval :: u32
  tt_runtime :: u64

record timer_state =
  tm_jiffies :: u64
  tm_ujiffies :: u64
  tm_ttasks :: "timer_task list"
  tm_uttasks :: "timer_task list"
  tm_disp :: dispatcher

definition TIMER_TICK :: nat where "TIMER_TICK = 1"

text \<open>\<open>UTIMER_TICK\<close> is the text \<open>100*1000\<close>, without parentheses.\<close>

definition UTIMER_TICK :: nat where "UTIMER_TICK = 100 * 1000"

definition get_ticks :: "timer_state \<Rightarrow> u32" where
  "get_ticks tm = ucast (tm_jiffies tm)"

definition get_uticks :: "timer_state \<Rightarrow> u64" where
  "get_uticks tm = tm_ujiffies tm"

text \<open>The fresh block's \<open>last_reactor\<close> is not assigned: it is what the memory held.\<close>

definition build_ttask :: "bool \<Rightarrow> nat option \<Rightarrow> nat \<Rightarrow> nat \<Rightarrow> u32 \<Rightarrow> timer_task option" where
  "build_ttask mem_ok junk f param interval =
     (if mem_ok then
        Some \<lparr>tt_task = \<lparr>hn_fd = 0, hn_priority = 100, hn_flags = 0, hn_cb = f, hn_cb_param = param,
                hn_last_reactor = junk\<rparr>,
              tt_interval = interval, tt_runtime = ucast interval\<rparr>
      else None)"

definition register_timer :: "bool \<Rightarrow> nat option \<Rightarrow> nat \<Rightarrow> nat \<Rightarrow> u32 \<Rightarrow> timer_state \<Rightarrow> int \<times> timer_state" where
  "register_timer mem_ok junk f param interval tm =
     (case build_ttask mem_ok junk f param interval of
        None \<Rightarrow> (-1, tm)
      | Some tt \<Rightarrow> (0, tm\<lparr>tm_ttasks := tm_ttasks tm @ [tt]\<rparr>))"

definition register_utimer :: "bool \<Rightarrow> nat option \<Rightarrow> nat \<Rightarrow> nat \<Rightarrow> u32 \<Rightarrow> timer_state \<Rightarrow> int \<times> timer_state" where
  "register_utimer mem_ok junk f param interval tm =
     (case build_ttask mem_ok junk f param interval of
        None \<Rightarrow> (-1, tm)
      | Some tt \<Rightarrow> (0, tm\<lparr>tm_uttasks := tm_uttasks tm @ [tt]\<rparr>))"

definition destroy_timer :: "timer_state \<Rightarrow> timer_state" where
  "destroy_timer tm = tm\<lparr>tm_ttasks := [], tm_uttasks := []\<rparr>"

section \<open>The tickers\<close>

text \<open>The loop of both tickers, at time \<open>now\<close>.\<close>

fun tick_tasks :: "u64 \<Rightarrow> dispatcher \<Rightarrow> timer_task list \<Rightarrow> fault + dispatcher \<times> timer_task list" where
  "tick_tasks now d [] = Inr (d, [])"
| "tick_tasks now d (t # ts) =
     (if tt_runtime t \<le> now then
        ebind (put_task d (tt_task t)) (\<lambda>d1.
          ebind (tick_tasks now d1 ts) (\<lambda>(d2, ts').
            Inr (d2, t\<lparr>tt_runtime := now + ucast (tt_interval t)\<rparr> # ts')))
      else ebind (tick_tasks now d ts) (\<lambda>(d2, ts'). Inr (d2, t # ts')))"

definition timer_ticker :: "timer_state \<Rightarrow> fault + timer_state" where
  "timer_ticker tm =
     (let now = tm_jiffies tm + of_nat TIMER_TICK
      in ebind (tick_tasks now (tm_disp tm) (tm_ttasks tm)) (\<lambda>(d, ts).
           Inr (tm\<lparr>tm_jiffies := now, tm_disp := d, tm_ttasks := ts\<rparr>)))"

definition utimer_ticker :: "timer_state \<Rightarrow> fault + timer_state" where
  "utimer_ticker tm =
     (let now = tm_ujiffies tm + of_nat UTIMER_TICK
      in ebind (tick_tasks now (tm_disp tm) (tm_uttasks tm)) (\<lambda>(d, ts).
           Inr (tm\<lparr>tm_ujiffies := now, tm_disp := d, tm_uttasks := ts\<rparr>)))"

section \<open>The timer thread\<close>

text \<open>
  Which of its four loops the thread enters, decided once at its start. In \<open>multiple\<close> the
  text of \<open>UTIMER_TICK\<close> makes the division \<open>TIMER_TICK * 1000000 / 100 * 1000\<close>.
\<close>

datatype timer_mode = Only_timer | Only_utimer | Both_timers | Every nat

definition timer_multiple :: nat where
  "timer_multiple = (TIMER_TICK * 1000000) div 100 * 1000 div 1000000"

definition timer_mode :: "timer_state \<Rightarrow> timer_mode" where
  "timer_mode tm =
     (let multiple = (if tm_uttasks tm = [] \<or> TIMER_TICK * 1000000 = UTIMER_TICK then 1 else timer_multiple)
      in if tm_uttasks tm = [] then Only_timer
         else if tm_ttasks tm = [] then Only_utimer
         else if multiple = 1 then Both_timers
         else Every multiple)"

text \<open>The time \<open>select\<close> sleeps before each round, in microseconds.\<close>

definition timer_sleep :: "timer_state \<Rightarrow> nat" where
  "timer_sleep tm =
     (if tm_uttasks tm = [] \<or> TIMER_TICK * 1000000 = UTIMER_TICK then TIMER_TICK * 1000000
      else UTIMER_TICK div 1000000 * 1000000 + UTIMER_TICK mod 1000000)"

text \<open>One round of the loop with its counter \<open>cnt\<close>.\<close>

fun timer_round :: "timer_mode \<Rightarrow> nat \<times> timer_state \<Rightarrow> fault + nat \<times> timer_state" where
  "timer_round Only_timer (cnt, tm) = ebind (timer_ticker tm) (\<lambda>tm'. Inr (cnt, tm'))"
| "timer_round Only_utimer (cnt, tm) = ebind (utimer_ticker tm) (\<lambda>tm'. Inr (cnt, tm'))"
| "timer_round Both_timers (cnt, tm) =
     ebind (timer_ticker tm) (\<lambda>tm1. ebind (utimer_ticker tm1) (\<lambda>tm2. Inr (cnt, tm2)))"
| "timer_round (Every multiple) (cnt, tm) =
     ebind (utimer_ticker tm) (\<lambda>tm1.
       if cnt = multiple then ebind (timer_ticker tm1) (\<lambda>tm2. Inr (1, tm2))
       else Inr (cnt + 1, tm1))"

fun timer_rounds :: "timer_mode \<Rightarrow> nat \<Rightarrow> nat \<times> timer_state \<Rightarrow> fault + nat \<times> timer_state" where
  "timer_rounds m 0 s = Inr s"
| "timer_rounds m (Suc k) s = ebind (timer_round m s) (timer_rounds m k)"

text \<open>\<open>start_timer_thread\<close>: the checks, the counters reset, and the thread's first state.\<close>

definition start_timer_thread :: "bool \<Rightarrow> timer_state \<Rightarrow> int \<times> timer_state" where
  "start_timer_thread thread_ok tm =
     (if UTIMER_TICK > TIMER_TICK * 1000000 then (-1, tm)
      else if (TIMER_TICK * 1000000) mod 100 * 1000 \<noteq> 0 then (-1, tm)
      else let tm' = tm\<lparr>tm_jiffies := 0, tm_ujiffies := 0\<rparr>
           in if thread_ok then (0, tm') else (-1, tm'))"

section \<open>One tick\<close>

definition due_tasks :: "u64 \<Rightarrow> timer_task list \<Rightarrow> timer_task list" where
  "due_tasks now ts = filter (\<lambda>t. tt_runtime t \<le> now) ts"

definition next_run :: "u64 \<Rightarrow> timer_task \<Rightarrow> timer_task" where
  "next_run now t = (if tt_runtime t \<le> now then t\<lparr>tt_runtime := now + ucast (tt_interval t)\<rparr> else t)"

lemma tick_tasks_eq:
  "tick_tasks now d ts =
   ebind (put_tasks put_task d (map tt_task (due_tasks now ts))) (\<lambda>d'. Inr (d', map (next_run now) ts))"
  by (induction ts arbitrary: d) (auto simp: due_tasks_def next_run_def ebind_assoc)

text \<open>
  After \<open>n\<close> ticks of \<open>T\<close>, a task with interval \<open>k\<close> that was due every \<open>p\<close> ticks runs next at
  the first multiple of its period after the last.
\<close>

definition period :: "nat \<Rightarrow> nat \<Rightarrow> nat" where
  "period T k = max 1 ((k + T - 1) div T)"

definition next_time :: "nat \<Rightarrow> nat \<Rightarrow> nat \<Rightarrow> nat" where
  "next_time T k n = n div period T k * period T k * T + k"

lemma period_bounds:
  assumes "0 < T"
  shows "0 < period T k" "k \<le> period T k * T" "0 < k \<Longrightarrow> (period T k - 1) * T < k"
proof -
  let ?p = "(k + T - 1) div T"
  have d: "?p * T + (k + T - 1) mod T = k + T - 1" by (rule div_mult_mod_eq)
  have m: "(k + T - 1) mod T < T" using assms by simp
  show "0 < period T k" by (simp add: period_def)
  have le: "k \<le> ?p * T" using d m assms by linarith
  show "k \<le> period T k * T"
  proof -
    have "?p \<le> period T k" by (simp add: period_def)
    then have "?p * T \<le> period T k * T" by (rule mult_right_mono) simp
    with le show ?thesis by (rule le_trans)
  qed
  assume "0 < k"
  then have "0 < ?p" using le by (cases "?p") auto
  then have p: "period T k = ?p" by (simp add: period_def)
  have "(?p - 1) * T + T = ?p * T" using \<open>0 < ?p\<close> by (cases "?p") auto
  with d assms \<open>0 < k\<close> have "(?p - 1) * T < k" by linarith
  then show "(period T k - 1) * T < k" by (simp only: p)
qed

lemma due_iff:
  assumes "0 < T"
  shows "next_time T k n \<le> Suc n * T \<longleftrightarrow> period T k dvd Suc n"
proof -
  let ?p = "period T k" and ?q = "n div period T k"
  note b = period_bounds [OF assms, of k]
  have n: "n = ?q * ?p + n mod ?p" by (rule div_mult_mod_eq [symmetric])
  have m: "n mod ?p < ?p" using b(1) by simp
  have eq: "next_time T k n \<le> Suc n * T \<longleftrightarrow> k \<le> (n mod ?p + 1) * T"
  proof -
    have "Suc n * T = (?q * ?p + n mod ?p + 1) * T" using n by simp
    also have "\<dots> = ?q * ?p * T + (n mod ?p + 1) * T" by (simp only: add.assoc distrib_right)
    finally show ?thesis by (simp add: next_time_def)
  qed
  show ?thesis
  proof (cases "n mod ?p + 1 = ?p")
    case True
    then have "Suc n = ?q * ?p + ?p" using n by linarith
    then have "?p dvd Suc n" by (metis dvd_add dvd_refl dvd_triv_right)
    moreover have "k \<le> (n mod ?p + 1) * T" using b(2) True by simp
    ultimately show ?thesis using eq by simp
  next
    case False
    then have lt: "n mod ?p + 1 < ?p" using m by linarith
    have "\<not> ?p dvd Suc n"
    proof
      assume "?p dvd Suc n"
      then have "Suc n mod ?p = 0" by simp
      moreover have "Suc n mod ?p = n mod ?p + 1" using lt by (simp add: mod_Suc)
      ultimately show False by simp
    qed
    moreover have "\<not> k \<le> (n mod ?p + 1) * T"
    proof
      assume le: "k \<le> (n mod ?p + 1) * T"
      have "0 < k" using lt assms by (cases k) (auto simp: period_def)
      have "(n mod ?p + 1) * T \<le> (?p - 1) * T" using lt by (intro mult_right_mono) auto
      with b(3) [OF \<open>0 < k\<close>] le show False by linarith
    qed
    ultimately show ?thesis using eq by simp
  qed
qed

lemma next_time_step:
  assumes "0 < T"
  shows "next_time T k (Suc n) = (if period T k dvd Suc n then Suc n * T + k else next_time T k n)"
proof (cases "period T k dvd Suc n")
  case True
  then show ?thesis by (simp add: next_time_def dvd_div_mult_self)
next
  case False
  then have "Suc n div period T k = n div period T k" by (simp add: div_Suc dvd_eq_mod_eq_0)
  then show ?thesis using False by (simp add: next_time_def)
qed

section \<open>Runs\<close>

text \<open>
  \<open>timer_at T n ks ts\<close>: the tasks after \<open>n\<close> ticks, for the tasks \<open>ts0\<close> that were registered. The
  counters do not wrap: \<open>2 ^ 63\<close> microseconds are 292,000 years.
\<close>

definition tasks_at :: "nat \<Rightarrow> nat \<Rightarrow> timer_task list \<Rightarrow> timer_task list" where
  "tasks_at T n ts0 =
     map (\<lambda>t. t\<lparr>tt_runtime := of_nat (next_time T (unat (tt_interval t)) n)\<rparr>) ts0"

definition no_wrap :: "nat \<Rightarrow> nat \<Rightarrow> bool" where
  "no_wrap T n \<longleftrightarrow> Suc n * T < 2 ^ 63"

definition fires :: "nat \<Rightarrow> nat \<Rightarrow> timer_task \<Rightarrow> bool" where
  "fires T n t \<longleftrightarrow> period T (unat (tt_interval t)) dvd n"

lemma next_time_bound:
  assumes "no_wrap T n" "k < 2 ^ 32"
  shows "next_time T k n < 2 ^ 64"
proof -
  have "n div period T k * period T k * T \<le> n * T"
    by (rule mult_right_mono [OF div_times_less_eq_dividend]) simp
  moreover have "n * T < 2 ^ 63" using assms(1) by (simp add: no_wrap_def)
  ultimately have "next_time T k n < 2 ^ 63 + 2 ^ 32" using assms(2) unfolding next_time_def by linarith
  then show ?thesis by simp
qed

lemma unat_u64: "n < 2 ^ 64 \<Longrightarrow> unat (of_nat n :: u64) = n"
  by (simp add: unsigned_of_nat take_bit_nat_eq_self)

lemma runtime_due:
  assumes "0 < T" "no_wrap T n"
  shows "(of_nat (next_time T (unat (k::u32)) n) :: u64) \<le> of_nat (Suc n * T) \<longleftrightarrow>
    period T (unat k) dvd Suc n"
proof -
  have k: "unat k < 2 ^ 32" using unsigned_less [of k] by simp
  have "unat (of_nat (next_time T (unat k) n) :: u64) = next_time T (unat k) n"
    using next_time_bound [OF assms(2) k] by (rule unat_u64)
  moreover have "unat (of_nat (Suc n * T) :: u64) = Suc n * T"
    using assms(2) unfolding no_wrap_def by (intro unat_u64) simp
  ultimately show ?thesis using due_iff [OF assms(1)] by (simp only: word_le_nat_alt)
qed

lemma tick_at:
  assumes "0 < T" "no_wrap T n"
  shows "due_tasks (of_nat (Suc n * T)) (tasks_at T n ts0) =
      map (\<lambda>t. t\<lparr>tt_runtime := of_nat (next_time T (unat (tt_interval t)) n)\<rparr>) (filter (fires T (Suc n)) ts0)"
    and "map (next_run (of_nat (Suc n * T))) (tasks_at T n ts0) = tasks_at T (Suc n) ts0"
proof -
  show "due_tasks (of_nat (Suc n * T)) (tasks_at T n ts0) =
      map (\<lambda>t. t\<lparr>tt_runtime := of_nat (next_time T (unat (tt_interval t)) n)\<rparr>) (filter (fires T (Suc n)) ts0)"
    using runtime_due [OF assms]
    by (induction ts0) (simp_all add: due_tasks_def tasks_at_def fires_def del: of_nat_Suc of_nat_mult)
  have "next_run (of_nat (Suc n * T)) (t\<lparr>tt_runtime := of_nat (next_time T (unat (tt_interval t)) n)\<rparr>) =
      t\<lparr>tt_runtime := of_nat (next_time T (unat (tt_interval t)) (Suc n))\<rparr>" for t
    using runtime_due [OF assms, of "tt_interval t"]
    by (simp add: next_run_def next_time_step [OF assms(1)]
        del: of_nat_Suc of_nat_mult)
  then show "map (next_run (of_nat (Suc n * T))) (tasks_at T n ts0) = tasks_at T (Suc n) ts0"
    by (simp add: tasks_at_def del: of_nat_Suc of_nat_mult)
qed

definition fresh_tasks :: "timer_task list \<Rightarrow> bool" where
  "fresh_tasks ts \<longleftrightarrow> list_all (\<lambda>t. tt_runtime t = ucast (tt_interval t)) ts"

lemma register_fresh:
  "fresh_tasks (tm_ttasks tm) \<Longrightarrow> fresh_tasks (tm_ttasks (snd (register_timer ok junk f param k tm)))"
  "fresh_tasks (tm_uttasks tm) \<Longrightarrow> fresh_tasks (tm_uttasks (snd (register_utimer ok junk f param k tm)))"
  by (auto simp: fresh_tasks_def register_timer_def register_utimer_def build_ttask_def
      split: option.splits if_splits)

lemma tasks_at_0: "fresh_tasks ts \<Longrightarrow> tasks_at T 0 ts = ts"
  by (induction ts) (auto simp: tasks_at_def fresh_tasks_def next_time_def)

definition timer_inv :: "timer_task list \<Rightarrow> timer_task list \<Rightarrow> nat \<Rightarrow> nat \<Rightarrow> timer_state \<Rightarrow> bool" where
  "timer_inv ts us n m tm \<longleftrightarrow> disp_ok (tm_disp tm) \<and>
     tm_jiffies tm = of_nat (n * TIMER_TICK) \<and> tm_ttasks tm = tasks_at TIMER_TICK n ts \<and>
     tm_ujiffies tm = of_nat (m * UTIMER_TICK) \<and> tm_uttasks tm = tasks_at UTIMER_TICK m us"

definition due_nodes :: "nat \<Rightarrow> nat \<Rightarrow> timer_task list \<Rightarrow> heap_node list" where
  "due_nodes T n ts = map tt_task (filter (fires T n) ts)"

lemma tick_tasks_at:
  assumes "0 < T" "no_wrap T n" "disp_ok d"
  shows "if size (disp_tasks d) + length (due_nodes T (Suc n) ts) \<le> MAX_TASKS
    then \<exists>d'. tick_tasks (of_nat (Suc n * T)) d (tasks_at T n ts) = Inr (d', tasks_at T (Suc n) ts) \<and>
      disp_ok d' \<and> disp_tasks d' = disp_tasks d + mset (due_nodes T (Suc n) ts)
    else tick_tasks (of_nat (Suc n * T)) d (tasks_at T n ts) = Inl Out_of_bounds"
proof -
  have due: "map tt_task (due_tasks (of_nat (Suc n * T)) (tasks_at T n ts)) = due_nodes T (Suc n) ts"
    unfolding tick_at(1) [OF assms(1,2)] due_nodes_def by (simp add: o_def)
  have cap: "size (disp_tasks d) \<le> MAX_TASKS"
    using assms(3) size_disp_tasks [of d] by (simp add: disp_ok_def heap_ok_def)
  show ?thesis
    unfolding tick_tasks_eq due tick_at(2) [OF assms(1,2)]
    using disp_queue.put_tasks_ok [OF assms(3), of "due_nodes T (Suc n) ts"]
      disp_queue.put_tasks_full [OF assms(3) cap, of "due_nodes T (Suc n) ts"]
    by (auto simp: not_le)
qed

lemma ticker_step:
  assumes "timer_inv ts us n m tm" "no_wrap TIMER_TICK n"
  shows "if size (disp_tasks (tm_disp tm)) + length (due_nodes TIMER_TICK (Suc n) ts) \<le> MAX_TASKS
    then \<exists>tm'. timer_ticker tm = Inr tm' \<and> timer_inv ts us (Suc n) m tm' \<and>
      disp_tasks (tm_disp tm') = disp_tasks (tm_disp tm) + mset (due_nodes TIMER_TICK (Suc n) ts)
    else timer_ticker tm = Inl Out_of_bounds"
proof -
  have now: "tm_jiffies tm + of_nat TIMER_TICK = of_nat (Suc n * TIMER_TICK)"
    using assms(1) by (simp add: timer_inv_def algebra_simps)
  have "0 < TIMER_TICK" by (simp add: TIMER_TICK_def)
  from tick_tasks_at [OF this assms(2), of "tm_disp tm" ts] assms(1) show ?thesis
    unfolding timer_ticker_def now Let_def
    by (auto simp: timer_inv_def split: if_splits simp del: of_nat_Suc of_nat_mult)
qed

lemma uticker_step:
  assumes "timer_inv ts us n m tm" "no_wrap UTIMER_TICK m"
  shows "if size (disp_tasks (tm_disp tm)) + length (due_nodes UTIMER_TICK (Suc m) us) \<le> MAX_TASKS
    then \<exists>tm'. utimer_ticker tm = Inr tm' \<and> timer_inv ts us n (Suc m) tm' \<and>
      disp_tasks (tm_disp tm') = disp_tasks (tm_disp tm) + mset (due_nodes UTIMER_TICK (Suc m) us)
    else utimer_ticker tm = Inl Out_of_bounds"
proof -
  have now: "tm_ujiffies tm + of_nat UTIMER_TICK = of_nat (Suc m * UTIMER_TICK)"
    using assms(1) by (simp add: timer_inv_def algebra_simps)
  have "0 < UTIMER_TICK" by (simp add: UTIMER_TICK_def)
  from tick_tasks_at [OF this assms(2), of "tm_disp tm" us] assms(1) show ?thesis
    unfolding utimer_ticker_def now Let_def
    by (auto simp: timer_inv_def split: if_splits simp del: of_nat_Suc of_nat_mult)
qed

text \<open>The timer thread and the workers, interleaved: \<open>n\<close> ticks of one timer, \<open>m\<close> of the other.\<close>

inductive timer_run :: "timer_task list \<Rightarrow> timer_task list \<Rightarrow> nat \<Rightarrow> nat \<Rightarrow> timer_state \<Rightarrow> bool" where
  run_start: "fresh_tasks (tm_ttasks tm) \<Longrightarrow> fresh_tasks (tm_uttasks tm) \<Longrightarrow> disp_ok (tm_disp tm) \<Longrightarrow>
    start_timer_thread ok tm = (0, tm') \<Longrightarrow> timer_run (tm_ttasks tm) (tm_uttasks tm) 0 0 tm'"
| run_tick: "timer_run ts us n m tm \<Longrightarrow> no_wrap TIMER_TICK n \<Longrightarrow> timer_ticker tm = Inr tm' \<Longrightarrow>
    timer_run ts us (Suc n) m tm'"
| run_utick: "timer_run ts us n m tm \<Longrightarrow> no_wrap UTIMER_TICK m \<Longrightarrow> utimer_ticker tm = Inr tm' \<Longrightarrow>
    timer_run ts us n (Suc m) tm'"
| run_worker: "timer_run ts us n m tm \<Longrightarrow> get_task (tm_disp tm) = Some (Inr (x, d)) \<Longrightarrow>
    timer_run ts us n m (tm\<lparr>tm_disp := d\<rparr>)"

lemma timer_run_inv: "timer_run ts us n m tm \<Longrightarrow> timer_inv ts us n m tm"
proof (induction rule: timer_run.induct)
  case (run_start tm ok tm')
  then show ?case
    by (auto simp: start_timer_thread_def timer_inv_def tasks_at_0 Let_def split: if_splits)
next
  case (run_tick ts us n m tm tm')
  with ticker_step [OF run_tick.IH run_tick.hyps(2)] show ?case by (auto split: if_splits)
next
  case (run_utick ts us n m tm tm')
  with uticker_step [OF run_utick.IH run_utick.hyps(2)] show ?case by (auto split: if_splits)
next
  case (run_worker ts us n m tm x d)
  then have ok: "disp_ok (tm_disp tm)" by (simp add: timer_inv_def)
  have "disp_tasks (tm_disp tm) \<noteq> {#}" using disp_queue.get_empty [OF ok] run_worker(2) by auto
  with disp_queue.get_law [OF ok] run_worker(2) have "disp_ok d" by auto
  with run_worker.IH show ?case by (simp add: timer_inv_def)
qed

text \<open>
  C26: however ticks and workers interleave, the \<open>n\<close>-th tick of a timer puts exactly the tasks
  whose period divides \<open>n\<close> (the interval in ticks, rounded up, at least one) into the
  dispatcher, in one piece; when the array has no room for them it is overrun.
\<close>

theorem timer_periods:
  assumes "timer_run ts us n m tm" "no_wrap TIMER_TICK n" "no_wrap UTIMER_TICK m"
  shows "(if size (disp_tasks (tm_disp tm)) + length (due_nodes TIMER_TICK (Suc n) ts) \<le> MAX_TASKS
     then \<exists>tm'. timer_ticker tm = Inr tm' \<and>
       disp_tasks (tm_disp tm') = disp_tasks (tm_disp tm) + mset (due_nodes TIMER_TICK (Suc n) ts)
     else timer_ticker tm = Inl Out_of_bounds) \<and>
    (if size (disp_tasks (tm_disp tm)) + length (due_nodes UTIMER_TICK (Suc m) us) \<le> MAX_TASKS
     then \<exists>tm'. utimer_ticker tm = Inr tm' \<and>
       disp_tasks (tm_disp tm') = disp_tasks (tm_disp tm) + mset (due_nodes UTIMER_TICK (Suc m) us)
     else utimer_ticker tm = Inl Out_of_bounds)"
  using ticker_step [OF timer_run_inv [OF assms(1)] assms(2)]
    uticker_step [OF timer_run_inv [OF assms(1)] assms(3)]
  by (auto split: if_splits)

text \<open>A timer state with one task of 3 seconds and one of 250 milliseconds.\<close>

definition demo_timers :: timer_state where
  "demo_timers = snd (register_utimer True None 8 0 250000 (snd (register_timer True None 7 0 3
     \<lparr>tm_jiffies = 5, tm_ujiffies = 9, tm_ttasks = [], tm_uttasks = [],
      tm_disp = \<lparr>dp_sem = 0, dp_size = 0, dp_nodes = replicate MAX_TASKS (demo_node 0)\<rparr>\<rparr>)))"

theorem timer_periods_witness:
  "\<exists>ts us tm tm'. timer_run ts us 0 0 tm \<and> utimer_ticker tm = Inr tm' \<and>
    disp_tasks (tm_disp tm') = {#} \<and> ts \<noteq> [] \<and> us \<noteq> []"
proof -
  let ?s = "snd (start_timer_thread True demo_timers)"
  have ok: "disp_ok (tm_disp demo_timers)" "disp_tasks (tm_disp demo_timers) = {#}"
    by (simp_all add: demo_timers_def register_timer_def register_utimer_def build_ttask_def
        disp_ok_def heap_ok_def heap_upto_def disp_tasks_def)
  have f: "fresh_tasks (tm_ttasks demo_timers)" "fresh_tasks (tm_uttasks demo_timers)"
    unfolding demo_timers_def
    by (simp_all add: register_timer_def register_utimer_def build_ttask_def fresh_tasks_def)
  have st: "start_timer_thread True demo_timers = (0, ?s)"
    by (simp add: start_timer_thread_def UTIMER_TICK_def TIMER_TICK_def)
  note run = run_start [OF f ok(1) st]
  have due: "due_nodes UTIMER_TICK (Suc 0) (tm_uttasks demo_timers) = []"
    by (simp add: due_nodes_def fires_def demo_timers_def register_timer_def register_utimer_def
        build_ttask_def period_def UTIMER_TICK_def)
  have "disp_tasks (tm_disp ?s) = {#}" using ok(2) by (simp add: start_timer_thread_def Let_def)
  with timer_periods [OF run] due obtain tm' where
    "utimer_ticker ?s = Inr tm'" "disp_tasks (tm_disp tm') = {#}"
    by (auto simp: no_wrap_def TIMER_TICK_def UTIMER_TICK_def)
  moreover have "tm_ttasks demo_timers \<noteq> []" "tm_uttasks demo_timers \<noteq> []"
    by (simp_all add: demo_timers_def register_timer_def register_utimer_def build_ttask_def)
  ultimately show ?thesis using run by blast
qed

section \<open>The clock\<close>

lemma ticker_clock:
  "timer_ticker tm = Inr tm' \<Longrightarrow> tm_jiffies tm' = tm_jiffies tm + 1 \<and> tm_ujiffies tm' = tm_ujiffies tm"
  "utimer_ticker tm = Inr tm' \<Longrightarrow> tm_ujiffies tm' = tm_ujiffies tm + 100000 \<and> tm_jiffies tm' = tm_jiffies tm"
  by (auto simp: timer_ticker_def utimer_ticker_def Let_def ebind_Inr_iff TIMER_TICK_def UTIMER_TICK_def)

lemma timer_rounds_last:
  "timer_rounds m (Suc k) s = ebind (timer_rounds m k s) (timer_round m)"
proof (induction k arbitrary: s)
  case 0 show ?case by (cases "timer_round m s") simp_all
next
  case (Suc k)
  have "timer_rounds m (Suc (Suc k)) s = ebind (timer_round m s) (timer_rounds m (Suc k))"
    by (rule timer_rounds.simps)
  also have "\<dots> = ebind (timer_round m s) (\<lambda>s1. ebind (timer_rounds m k s1) (timer_round m))"
    by (rule arg_cong [of _ _ "ebind (timer_round m s)"]) (rule ext, rule Suc)
  finally show ?case by (simp add: ebind_assoc)
qed

lemma multiple_value: "timer_multiple = 10"
  by (simp add: timer_multiple_def TIMER_TICK_def)

lemma rounds_clock:
  assumes "timer_rounds mode k (1, tm) = Inr (c, tm')" "tm_jiffies tm = 0" "tm_ujiffies tm = 0"
  shows "case mode of
      Only_timer \<Rightarrow> tm_jiffies tm' = of_nat k
    | Only_utimer \<Rightarrow> tm_ujiffies tm' = of_nat (k * 100000)
    | Both_timers \<Rightarrow> True
    | Every q \<Rightarrow> 0 < q \<longrightarrow> c = k mod q + 1 \<and> tm_ujiffies tm' = of_nat (k * 100000) \<and>
        tm_jiffies tm' = of_nat (k div q)"
  using assms(1)
proof (induction k arbitrary: c tm')
  case 0 then show ?case using assms(2,3) by (auto split: timer_mode.splits)
next
  case (Suc k)
  from Suc.prems obtain c1 tm1 where r: "timer_rounds mode k (1, tm) = Inr (c1, tm1)"
    "timer_round mode (c1, tm1) = Inr (c, tm')"
    unfolding timer_rounds_last ebind_Inr_iff by auto
  note IH = Suc.IH [OF r(1)]
  show ?case
  proof (cases mode)
    case (Every q)
    show ?thesis
    proof (cases "c1 = q")
      case True
      with r(2) Every IH show ?thesis
        by (auto simp: ebind_Inr_iff algebra_simps mod_Suc div_Suc dest!: ticker_clock)
    next
      case False
      with r(2) Every IH show ?thesis
        by (auto simp: ebind_Inr_iff algebra_simps mod_Suc div_Suc dest!: ticker_clock)
    qed
  qed (use r(2) IH in \<open>auto simp: ebind_Inr_iff algebra_simps dest!: ticker_clock\<close>)
qed



end
