(* ===== verification/Tcp_Conns.thy ===== *)
theory Tcp_Conns
  imports Core_Prelude
begin

text \<open>
  The TCP connection table, \<open>src/core/net/tcp/conns.c\<close>: reference-counted connection blocks in
  two hash tables of doubly linked lists, threaded through the blocks themselves. The store
  maps the addresses of live blocks to their contents, so that a dangling pointer is a fault.
  Each function is one sequential run; the locks it takes and releases are left out, except
  the state lock that \<open>set_conn_state\<close> may keep.
\<close>

section \<open>State\<close>

datatype conn_state = TCP_CONN_READY | TCP_CONN_WRITING | TCP_CONN_TERM

text \<open>An address is its family and its 32-bit words; \<open>write.first\<close> is the list of waiting contexts.\<close>

record ip_addr =
  ip_af :: u32
  ip_words :: "u32 list"

record tcp_conn =
  tc_id :: u32
  tc_state :: conn_state
  tc_timeout :: u32
  tc_ref :: int
  tc_socket :: int
  tc_src_ip :: ip_addr
  tc_src_port :: u16
  tc_port_alias :: u16
  tc_writes :: "nat list"
  tc_id_next :: "nat option"
  tc_id_prev :: "nat option"
  tc_ip_next :: "nat option"
  tc_ip_prev :: "nat option"

definition TCP_HASH_SIZE :: nat where "TCP_HASH_SIZE = 1024"

text \<open>
  The variables of the file, and what it does to the outside: sockets closed, descriptors
  fired in the reactors, and contexts handed to \<open>put_task\<close> of the OUT reactor to be resumed
  with an error, with their sockets.
\<close>

record tcp_net =
  tn_store :: "nat \<Rightarrow> tcp_conn option"
  tn_id_head :: "nat \<Rightarrow> nat option"
  tn_ip_head :: "nat \<Rightarrow> nat option"
  tn_connections_no :: int
  tn_last_id :: u32
  tn_max_connections :: int
  tn_lifetime :: u32
  tn_closed :: "int list"
  tn_fired :: "int list"
  tn_resumed :: "(int \<times> nat) list"

text \<open>
  The variables as the program starts, with the limits of \<open>net_params.c\<close>, and \<open>init_tcp_conns\<close>:
  whether the locks and the timer routine could be set up, and the number \<open>rand\<close> gives.
\<close>

definition tcp_zero :: "int \<Rightarrow> u32 \<Rightarrow> tcp_net" where
  "tcp_zero max_conns lifetime =
     \<lparr>tn_store = (\<lambda>_. None), tn_id_head = (\<lambda>_. None), tn_ip_head = (\<lambda>_. None), tn_connections_no = 0,
      tn_last_id = 0, tn_max_connections = max_conns, tn_lifetime = lifetime, tn_closed = [],
      tn_fired = [], tn_resumed = []\<rparr>"

definition init_tcp_conns :: "bool \<Rightarrow> bool \<Rightarrow> bool \<Rightarrow> u32 \<Rightarrow> tcp_net \<Rightarrow> int \<times> tcp_net" where
  "init_tcp_conns id_lock_ok ip_lock_ok timer_ok rand st =
     (if \<not> id_lock_ok then (-1, st)
      else if \<not> ip_lock_ok then (-1, st)
      else if \<not> timer_ok then (-1, st)
      else (0, st\<lparr>tn_last_id := rand\<rparr>))"

section \<open>The hash macros\<close>

text \<open>The macro parameter \<open>_type\<close>: which of the two tables and pairs of link fields.\<close>

datatype link = By_id | By_ip

fun next_of :: "link \<Rightarrow> tcp_conn \<Rightarrow> nat option" where
  "next_of By_id c = tc_id_next c"
| "next_of By_ip c = tc_ip_next c"

fun prev_of :: "link \<Rightarrow> tcp_conn \<Rightarrow> nat option" where
  "prev_of By_id c = tc_id_prev c"
| "prev_of By_ip c = tc_ip_prev c"

fun set_next :: "link \<Rightarrow> nat option \<Rightarrow> tcp_conn \<Rightarrow> tcp_conn" where
  "set_next By_id p c = c\<lparr>tc_id_next := p\<rparr>"
| "set_next By_ip p c = c\<lparr>tc_ip_next := p\<rparr>"

fun set_prev :: "link \<Rightarrow> nat option \<Rightarrow> tcp_conn \<Rightarrow> tcp_conn" where
  "set_prev By_id p c = c\<lparr>tc_id_prev := p\<rparr>"
| "set_prev By_ip p c = c\<lparr>tc_ip_prev := p\<rparr>"

fun head_of :: "link \<Rightarrow> tcp_net \<Rightarrow> nat \<Rightarrow> nat option" where
  "head_of By_id st = tn_id_head st"
| "head_of By_ip st = tn_ip_head st"

fun set_head :: "link \<Rightarrow> nat \<Rightarrow> nat option \<Rightarrow> tcp_net \<Rightarrow> tcp_net" where
  "set_head By_id h p st = st\<lparr>tn_id_head := (tn_id_head st)(h := p)\<rparr>"
| "set_head By_ip h p st = st\<lparr>tn_ip_head := (tn_ip_head st)(h := p)\<rparr>"

definition conn_at :: "tcp_net \<Rightarrow> nat \<Rightarrow> fault + tcp_conn" where
  "conn_at st p = (case tn_store st p of None \<Rightarrow> Inl Freed_block | Some c \<Rightarrow> Inr c)"

definition upd_conn :: "nat \<Rightarrow> (tcp_conn \<Rightarrow> tcp_conn) \<Rightarrow> tcp_net \<Rightarrow> fault + tcp_net" where
  "upd_conn p f st = ebind (conn_at st p) (\<lambda>c. Inr (st\<lparr>tn_store := (tn_store st)(p := Some (f c))\<rparr>))"

definition tcp_hash :: "u32 \<Rightarrow> u32 \<Rightarrow> nat" where
  "tcp_hash a b = unat (a + b) mod TCP_HASH_SIZE"

definition id_bucket :: "tcp_conn \<Rightarrow> nat" where
  "id_bucket c = tcp_hash (tc_id c) 0"

definition ip_bucket :: "tcp_conn \<Rightarrow> nat" where
  "ip_bucket c = tcp_hash (ip_words (tc_src_ip c) ! 0) (ucast (tc_src_port c))"

definition tcp_hash_add :: "link \<Rightarrow> nat \<Rightarrow> nat \<Rightarrow> tcp_net \<Rightarrow> fault + tcp_net" where
  "tcp_hash_add k p h st =
     ebind (case head_of k st h of
              None \<Rightarrow> upd_conn p (set_next k None) st
            | Some q \<Rightarrow> ebind (upd_conn p (set_next k (Some q)) st) (upd_conn q (set_prev k (Some p))))
      (\<lambda>st1. ebind (upd_conn p (set_prev k None) st1) (\<lambda>st2. Inr (set_head k h (Some p) st2)))"

definition tcp_hash_rm :: "link \<Rightarrow> nat \<Rightarrow> nat \<Rightarrow> tcp_net \<Rightarrow> fault + tcp_net" where
  "tcp_hash_rm k p h st =
     ebind (conn_at st p) (\<lambda>c.
       ebind (case next_of k c of
                None \<Rightarrow> Inr st
              | Some q \<Rightarrow> upd_conn q (set_prev k (prev_of k c)) st) (\<lambda>st1.
         ebind (conn_at st1 p) (\<lambda>c1.
           case prev_of k c1 of
             None \<Rightarrow> Inr (set_head k h (next_of k c1) st1)
           | Some r \<Rightarrow> upd_conn r (set_next k (next_of k c1)) st1)))"

section \<open>Reference counts\<close>

definition free_tcp_conn :: "nat \<Rightarrow> tcp_net \<Rightarrow> fault + tcp_net" where
  "free_tcp_conn p st =
     ebind (conn_at st p) (\<lambda>c.
       Inr (st\<lparr>tn_closed := (if tc_socket c \<noteq> 0 then tn_closed st @ [tc_socket c] else tn_closed st),
              tn_store := (tn_store st)(p := None),
              tn_connections_no := tn_connections_no st - 1\<rparr>))"

definition remove_tcp_conn :: "nat \<Rightarrow> int \<Rightarrow> tcp_net \<Rightarrow> fault + tcp_net" where
  "remove_tcp_conn p extra_ref st =
     ebind (conn_at st p) (\<lambda>c.
       ebind (tcp_hash_rm By_id p (id_bucket c) st) (\<lambda>st1.
         ebind (upd_conn p (\<lambda>c. c\<lparr>tc_ref := tc_ref c - extra_ref\<rparr>) st1) (\<lambda>st2.
           ebind (conn_at st2 p) (\<lambda>c2.
             ebind (tcp_hash_rm By_ip p (ip_bucket c2) st2) (\<lambda>st3.
               ebind (conn_at st3 p) (\<lambda>c3.
                 if tc_ref c3 = 0 then free_tcp_conn p st3 else Inr st3))))))"

definition unref_tcp_conn :: "nat \<Rightarrow> tcp_net \<Rightarrow> fault + tcp_net" where
  "unref_tcp_conn p st =
     ebind (upd_conn p (\<lambda>c. c\<lparr>tc_ref := tc_ref c - 1\<rparr>) st) (\<lambda>st1.
       ebind (conn_at st1 p) (\<lambda>c. if tc_ref c = 0 then free_tcp_conn p st1 else Inr st1))"

definition ref_tcp_conn :: "nat \<Rightarrow> tcp_net \<Rightarrow> fault + tcp_net" where
  "ref_tcp_conn p st = upd_conn p (\<lambda>c. c\<lparr>tc_ref := tc_ref c + 1\<rparr>) st"

text \<open>
  \<open>create_tcp_conn\<close>: \<open>mem\<close> is the block \<open>shm_malloc\<close> gives, \<open>lock_ok\<close> whether the state lock can
  be initialised, \<open>ticks\<close> the time.
\<close>

definition create_tcp_conn ::
    "nat option \<Rightarrow> bool \<Rightarrow> u32 \<Rightarrow> int \<Rightarrow> ip_addr \<Rightarrow> u16 \<Rightarrow> conn_state \<Rightarrow> tcp_net \<Rightarrow>
     fault + nat option \<times> tcp_net" where
  "create_tcp_conn mem lock_ok ticks s src_ip src_port init_state st =
     (if tn_max_connections st \<le> tn_connections_no st
      then Inr (None, st\<lparr>tn_closed := tn_closed st @ [s]\<rparr>)
      else let st1 = st\<lparr>tn_connections_no := tn_connections_no st + 1\<rparr>
           in case mem of
                None \<Rightarrow> Inr (None, st1)
              | Some p \<Rightarrow>
                  if \<not> lock_ok then Inr (None, st1)
                  else let c = \<lparr>tc_id = tn_last_id st, tc_state = init_state,
                               tc_timeout = ticks + tn_lifetime st, tc_ref = 1, tc_socket = s,
                               tc_src_ip = src_ip, tc_src_port = src_port, tc_port_alias = 0,
                               tc_writes = [], tc_id_next = None, tc_id_prev = None,
                               tc_ip_next = None, tc_ip_prev = None\<rparr>;
                           st2 = st1\<lparr>tn_store := (tn_store st)(p := Some c)\<rparr>
                       in ebind (tcp_hash_add By_id p (id_bucket c) st2) (\<lambda>st3.
                            ebind (tcp_hash_add By_ip p (ip_bucket c) st3) (\<lambda>st4.
                              Inr (Some p, st4))))"

section \<open>Searching\<close>

datatype verdict = Go_on | Found | Give_up

text \<open>
  The loops over a bucket. They follow the links of the store, which could be circular: the
  value \<open>None\<close> is a loop that does not end.
\<close>

partial_function (option) walk ::
    "link \<Rightarrow> (tcp_conn \<Rightarrow> verdict) \<Rightarrow> nat option \<Rightarrow> tcp_net \<Rightarrow> (fault + nat option) option" where
  "walk k f start st =
     (case start of
        None \<Rightarrow> Some (Inr None)
      | Some p \<Rightarrow>
          (case conn_at st p of
             Inl e \<Rightarrow> Some (Inl e)
           | Inr c \<Rightarrow>
               (case f c of
                  Found \<Rightarrow> Some (Inr (Some p))
                | Give_up \<Rightarrow> Some (Inr None)
                | Go_on \<Rightarrow> walk k f (next_of k c) st)))"

definition same_peer :: "ip_addr \<Rightarrow> u16 \<Rightarrow> tcp_conn \<Rightarrow> bool" where
  "same_peer ip port c \<longleftrightarrow> ip = tc_src_ip c \<and> (port = tc_src_port c \<or> port = tc_port_alias c)"

definition by_id :: "u32 \<Rightarrow> ip_addr \<Rightarrow> u16 \<Rightarrow> tcp_conn \<Rightarrow> verdict" where
  "by_id cid ip port c =
     (if tc_id c = cid then
        if tc_state c = TCP_CONN_TERM then Give_up
        else if same_peer ip port c then Found
        else Give_up
      else Go_on)"

definition by_ip :: "ip_addr \<Rightarrow> u16 \<Rightarrow> tcp_conn \<Rightarrow> verdict" where
  "by_ip ip port c = (if tc_state c \<noteq> TCP_CONN_TERM \<and> same_peer ip port c then Found else Go_on)"

definition ref_found :: "fault + nat option \<Rightarrow> tcp_net \<Rightarrow> fault + nat option \<times> tcp_net" where
  "ref_found r st =
     ebind r (\<lambda>found. case found of
        None \<Rightarrow> Inr (None, st)
      | Some p \<Rightarrow> ebind (ref_tcp_conn p st) (\<lambda>st1. Inr (Some p, st1)))"

definition search_by_ip :: "ip_addr \<Rightarrow> u16 \<Rightarrow> tcp_net \<Rightarrow> (fault + nat option \<times> tcp_net) option" where
  "search_by_ip ip port st =
     map_option (\<lambda>r. ref_found r st)
       (walk By_ip (by_ip ip port) (tn_ip_head st (tcp_hash (ip_words ip ! 0) (ucast port))) st)"

definition search_tcp_conn :: "u32 \<Rightarrow> ip_addr \<Rightarrow> u16 \<Rightarrow> tcp_net \<Rightarrow> (fault + nat option \<times> tcp_net) option" where
  "search_tcp_conn cid ip port st =
     (if cid \<noteq> 0 then
        (case walk By_id (by_id cid ip port) (tn_id_head st (tcp_hash cid 0)) st of
           None \<Rightarrow> None
         | Some (Inr None) \<Rightarrow> search_by_ip ip port st
         | Some r \<Rightarrow> Some (ref_found r st))
      else search_by_ip ip port st)"

section \<open>States\<close>

text \<open>
  \<open>set_conn_state\<close>: the result, whether the state lock is still held, the connection, and the
  contexts of the pending writes that are resumed.
\<close>

definition set_conn_state :: "tcp_conn \<Rightarrow> conn_state \<Rightarrow> int \<times> bool \<times> tcp_conn \<times> nat list" where
  "set_conn_state c new_state =
     (case tc_state c of
        TCP_CONN_READY \<Rightarrow>
          (case new_state of
             TCP_CONN_WRITING \<Rightarrow> (0, False, c\<lparr>tc_state := new_state\<rparr>, [])
           | TCP_CONN_TERM \<Rightarrow> (0, False, c\<lparr>tc_state := new_state\<rparr>, [])
           | _ \<Rightarrow> (-1, False, c, []))
      | TCP_CONN_WRITING \<Rightarrow>
          (case new_state of
             TCP_CONN_WRITING \<Rightarrow> (1, True, c, [])
           | TCP_CONN_TERM \<Rightarrow> (0, False, c\<lparr>tc_state := new_state\<rparr>, tc_writes c)
           | TCP_CONN_READY \<Rightarrow>
               if tc_writes c = [] then (0, False, c\<lparr>tc_state := new_state\<rparr>, [])
               else (1, True, c, []))
      | TCP_CONN_TERM \<Rightarrow> (-1, False, c, []))"

section \<open>The timer routine\<close>

text \<open>
  The scan of one bucket up to the first connection to terminate: that connection, if any, with
  the extra reference, and its pending writes resumed.
\<close>

partial_function (option) expire_scan ::
    "u32 \<Rightarrow> nat option \<Rightarrow> tcp_net \<Rightarrow> (fault + nat option \<times> tcp_net) option" where
  "expire_scan now start st =
     (case start of
        None \<Rightarrow> Some (Inr (None, st))
      | Some p \<Rightarrow>
          (case conn_at st p of
             Inl e \<Rightarrow> Some (Inl e)
           | Inr c \<Rightarrow>
               if tc_timeout c \<le> now then
                 (case set_conn_state (c\<lparr>tc_timeout := 0\<rparr>) TCP_CONN_TERM of
                    (ret, lk, c', ctxs) \<Rightarrow>
                      if ret \<noteq> -1
                      then Some (Inr (Some p,
                             st\<lparr>tn_store := (tn_store st)(p := Some (c'\<lparr>tc_ref := tc_ref c' + 1\<rparr>)),
                                tn_resumed := tn_resumed st @ map (Pair (tc_socket c')) ctxs\<rparr>))
                      else expire_scan now (tc_id_next c) (st\<lparr>tn_store := (tn_store st)(p := Some c')\<rparr>))
               else expire_scan now (tc_id_next c) st))"

text \<open>A bucket is scanned again after every removal (\<open>h--\<close>).\<close>

partial_function (option) expire_bucket :: "u32 \<Rightarrow> nat \<Rightarrow> tcp_net \<Rightarrow> (fault + tcp_net) option" where
  "expire_bucket now h st =
     Option.bind (expire_scan now (tn_id_head st h) st) (\<lambda>r.
       case r of
         Inl e \<Rightarrow> Some (Inl e)
       | Inr (None, st1) \<Rightarrow> Some (Inr st1)
       | Inr (Some p, st1) \<Rightarrow>
           (case conn_at st1 p of
              Inl e \<Rightarrow> Some (Inl e)
            | Inr c \<Rightarrow>
                (case remove_tcp_conn p 1 (st1\<lparr>tn_fired := tn_fired st1 @ [tc_socket c, tc_socket c]\<rparr>) of
                   Inl e \<Rightarrow> Some (Inl e)
                 | Inr st2 \<Rightarrow> expire_bucket now h st2)))"

fun expire_buckets :: "u32 \<Rightarrow> nat list \<Rightarrow> tcp_net \<Rightarrow> (fault + tcp_net) option" where
  "expire_buckets now [] st = Some (Inr st)"
| "expire_buckets now (h # hs) st =
     (case expire_bucket now h st of
        None \<Rightarrow> None
      | Some (Inl e) \<Rightarrow> Some (Inl e)
      | Some (Inr st1) \<Rightarrow> expire_buckets now hs st1)"

definition tcp_timer_routine :: "u32 \<Rightarrow> tcp_net \<Rightarrow> (fault + tcp_net) option" where
  "tcp_timer_routine now st = expire_buckets now [0..<TCP_HASH_SIZE] st"

text \<open>Shutdown: every connection of the first table is freed.\<close>

partial_function (option) destroy_chain :: "nat option \<Rightarrow> tcp_net \<Rightarrow> (fault + tcp_net) option" where
  "destroy_chain start st =
     (case start of
        None \<Rightarrow> Some (Inr st)
      | Some p \<Rightarrow>
          (case conn_at st p of
             Inl e \<Rightarrow> Some (Inl e)
           | Inr c \<Rightarrow>
               (case free_tcp_conn p st of
                  Inl e \<Rightarrow> Some (Inl e)
                | Inr st1 \<Rightarrow> destroy_chain (tc_id_next c) st1)))"

fun destroy_buckets :: "nat list \<Rightarrow> tcp_net \<Rightarrow> (fault + tcp_net) option" where
  "destroy_buckets [] st = Some (Inr st)"
| "destroy_buckets (h # hs) st =
     (case destroy_chain (tn_id_head st h) st of
        None \<Rightarrow> None
      | Some (Inl e) \<Rightarrow> Some (Inl e)
      | Some (Inr st1) \<Rightarrow> destroy_buckets hs st1)"

definition destroy_tcp_conns :: "tcp_net \<Rightarrow> (fault + tcp_net) option" where
  "destroy_tcp_conns st = destroy_buckets [0..<TCP_HASH_SIZE] st"

end
