(* ===== verification/Tcp_Tables.thy ===== *)
theory Tcp_Tables
  imports Tcp_Conns
begin

text \<open>
  The two hash tables of connections as lists: what the pointers represent, and that the
  adding and removing macros represent consing and deleting, whichever table they work on.
\<close>

section \<open>Linked segments\<close>

text \<open>
  The blocks \<open>xs\<close> from pointer \<open>start\<close> on, the first one's predecessor being \<open>pv\<close>, up to the
  pointer \<open>nx\<close> after the last one \<open>ls\<close>.
\<close>

fun dseg :: "link \<Rightarrow> (nat \<Rightarrow> tcp_conn option) \<Rightarrow> nat option \<Rightarrow> nat option \<Rightarrow> nat list \<Rightarrow> nat option \<Rightarrow>
    nat option \<Rightarrow> bool" where
  "dseg k s pv start [] ls nx \<longleftrightarrow> pv = ls \<and> start = nx"
| "dseg k s pv start (x # xs) ls nx \<longleftrightarrow>
     start = Some x \<and> (\<exists>c. s x = Some c \<and> prev_of k c = pv \<and> dseg k s (Some x) (next_of k c) xs ls nx)"

lemma dseg_append:
  "dseg k s pv start (xs @ ys) ls nx \<longleftrightarrow>
   (\<exists>m n. dseg k s pv start xs m n \<and> dseg k s m n ys ls nx)"
  by (induction xs arbitrary: pv start) auto

definition links_at :: "link \<Rightarrow> (nat \<Rightarrow> tcp_conn option) \<Rightarrow> nat \<Rightarrow> (nat option \<times> nat option) option" where
  "links_at k s q = map_option (\<lambda>c. (prev_of k c, next_of k c)) (s q)"

lemma dseg_cong:
  "(\<And>x. x \<in> set xs \<Longrightarrow> links_at k s' x = links_at k s x) \<Longrightarrow>
   dseg k s' pv start xs ls nx = dseg k s pv start xs ls nx"
proof (induction xs arbitrary: pv start)
  case (Cons x xs)
  have "links_at k s' x = links_at k s x" by (rule Cons.prems) simp
  then show ?case
    using Cons.IH Cons.prems by (cases "s x"; cases "s' x") (auto simp: links_at_def)
qed simp

lemma dseg_start: "dseg k s pv start xs ls nx \<Longrightarrow> start = (case xs of [] \<Rightarrow> nx | x # _ \<Rightarrow> Some x)"
  by (cases xs) auto

lemma dseg_last: "dseg k s pv start xs ls nx \<Longrightarrow> ls = (if xs = [] then pv else Some (last xs))"
  by (induction xs arbitrary: pv start) auto

lemma dseg_live: "dseg k s pv start xs ls nx \<Longrightarrow> x \<in> set xs \<Longrightarrow> \<exists>c. s x = Some c"
  by (induction xs arbitrary: pv start) auto

definition chain :: "link \<Rightarrow> tcp_net \<Rightarrow> nat \<Rightarrow> nat list \<Rightarrow> bool" where
  "chain k st h xs \<longleftrightarrow> (\<exists>ls. dseg k (tn_store st) None (head_of k st h) xs ls None)"

section \<open>Link fields\<close>

lemma link_sel [simp]:
  "next_of k (set_next k p c) = p" "prev_of k (set_next k p c) = prev_of k c"
  "prev_of k (set_prev k p c) = p" "next_of k (set_prev k p c) = next_of k c"
  by (cases k; simp)+

definition other :: "link \<Rightarrow> link" where
  "other k = (case k of By_id \<Rightarrow> By_ip | By_ip \<Rightarrow> By_id)"

lemma link_other [simp]:
  "next_of (other k) (set_next k p c) = next_of (other k) c"
  "next_of (other k) (set_prev k p c) = next_of (other k) c"
  "prev_of (other k) (set_next k p c) = prev_of (other k) c"
  "prev_of (other k) (set_prev k p c) = prev_of (other k) c"
  by (cases k; simp add: other_def)+

lemma head_simps [simp]:
  "head_of k (st\<lparr>tn_store := s\<rparr>) = head_of k st"
  "head_of k (set_head k h p st) = (head_of k st)(h := p)"
  "head_of (other k) (set_head k h p st) = head_of (other k) st"
  "tn_store (set_head k h p st) = tn_store st"
  by (cases k; simp add: other_def)+

text \<open>A connection without its links of one table.\<close>

definition strip :: "link \<Rightarrow> tcp_conn \<Rightarrow> tcp_conn" where
  "strip k c = set_next k None (set_prev k None c)"

lemma strip_set [simp]:
  "strip k (set_next k p c) = strip k c" "strip k (set_prev k p c) = strip k c"
  by (cases k; simp add: strip_def)+

lemma strip_sel [simp]:
  "tc_id (strip k c) = tc_id c" "tc_state (strip k c) = tc_state c" "tc_ref (strip k c) = tc_ref c"
  "tc_timeout (strip k c) = tc_timeout c" "tc_socket (strip k c) = tc_socket c"
  "tc_src_ip (strip k c) = tc_src_ip c" "tc_src_port (strip k c) = tc_src_port c"
  "tc_port_alias (strip k c) = tc_port_alias c" "tc_writes (strip k c) = tc_writes c"
  "next_of (other k) (strip k c) = next_of (other k) c"
  "prev_of (other k) (strip k c) = prev_of (other k) c"
  by (cases k; simp add: strip_def other_def)+

text \<open>The state without its store and its tables.\<close>

definition rest :: "tcp_net \<Rightarrow> tcp_net" where
  "rest st = st\<lparr>tn_store := (\<lambda>_. None), tn_id_head := (\<lambda>_. None), tn_ip_head := (\<lambda>_. None)\<rparr>"

lemma rest_simps [simp]:
  "rest (st\<lparr>tn_store := s\<rparr>) = rest st" "rest (set_head k h p st) = rest st"
  by (cases k; simp add: rest_def)+

text \<open>What the macros on table \<open>k\<close> leave as it is.\<close>

definition frame :: "link \<Rightarrow> tcp_net \<Rightarrow> tcp_net \<Rightarrow> bool" where
  "frame k st st' \<longleftrightarrow> rest st' = rest st \<and> head_of (other k) st' = head_of (other k) st \<and>
     (\<forall>q. map_option (strip k) (tn_store st' q) = map_option (strip k) (tn_store st q))"

lemma frame_refl: "frame k st st"
  by (simp add: frame_def)

lemma frame_trans: "frame k a b \<Longrightarrow> frame k b c \<Longrightarrow> frame k a c"
  by (simp add: frame_def)

lemma frame_head: "frame k st (set_head k h p st)"
  by (simp add: frame_def)

lemma frame_conn:
  assumes "frame k st st'" "tn_store st p = Some c"
  shows "\<exists>c'. tn_store st' p = Some c' \<and> strip k c' = strip k c"
proof -
  have "map_option (strip k) (tn_store st' p) = map_option (strip k) (tn_store st p)"
    using assms(1) by (simp add: frame_def)
  with assms(2) show ?thesis by (cases "tn_store st' p") simp_all
qed

lemma frame_set:
  assumes "tn_store st p = Some c"
  shows "frame k st (st\<lparr>tn_store := (tn_store st)(p := Some (set_next k q c))\<rparr>)"
    "frame k st (st\<lparr>tn_store := (tn_store st)(p := Some (set_prev k q c))\<rparr>)"
  using assms by (simp_all add: frame_def)

lemma upd_conn_live:
  "tn_store st p = Some c \<Longrightarrow> upd_conn p f st = Inr (st\<lparr>tn_store := (tn_store st)(p := Some (f c))\<rparr>)"
  by (simp add: upd_conn_def conn_at_def)

section \<open>Adding\<close>

lemma hash_add_ok:
  assumes ch: "chain k st h xs" "distinct xs" and p: "p \<notin> set xs" "tn_store st p = Some c"
  shows "\<exists>st'. tcp_hash_add k p h st = Inr st' \<and> frame k st st' \<and> chain k st' h (p # xs) \<and>
    (\<forall>h'. h' \<noteq> h \<longrightarrow> head_of k st' h' = head_of k st h') \<and>
    (\<forall>q. q \<notin> set (p # xs) \<longrightarrow> tn_store st' q = tn_store st q)"
proof -
  obtain ls where d: "dseg k (tn_store st) None (head_of k st h) xs ls None"
    using ch(1) by (auto simp: chain_def)
  show ?thesis
  proof (cases xs)
    case Nil
    then have hd: "head_of k st h = None" using d by simp
    let ?c = "set_prev k None (set_next k None c)"
    let ?st1 = "st\<lparr>tn_store := (tn_store st)(p := Some (set_next k None c))\<rparr>"
    let ?st = "set_head k h (Some p) (st\<lparr>tn_store := (tn_store st)(p := Some ?c)\<rparr>)"
    have "tcp_hash_add k p h st = Inr ?st"
      by (simp add: tcp_hash_add_def hd upd_conn_live [OF p(2)] upd_conn_live [of ?st1 p "set_next k None c"])
    moreover have "frame k st ?st"
      using p(2) by (simp add: frame_def)
    moreover have "chain k ?st h [p]" by (simp add: chain_def)
    ultimately show ?thesis using Nil by auto
  next
    case (Cons q ys)
    obtain cq where q: "tn_store st q = Some cq" "head_of k st h = Some q" "prev_of k cq = None"
      "dseg k (tn_store st) (Some q) (next_of k cq) ys ls None"
      using d Cons by auto
    have pq: "p \<noteq> q" "p \<notin> set ys" using p(1) Cons by auto
    let ?c = "set_prev k None (set_next k (Some q) c)"
    let ?s = "(tn_store st)(p := Some ?c, q := Some (set_prev k (Some p) cq))"
    let ?st = "set_head k h (Some p) (st\<lparr>tn_store := ?s\<rparr>)"
    have "tcp_hash_add k p h st = Inr ?st"
      using pq q(1) p(2)
      by (simp add: tcp_hash_add_def q(2) upd_conn_def conn_at_def fun_upd_twist)
    moreover have "frame k st ?st"
      using p(2) q(1) by (simp add: frame_def)
    moreover have "chain k ?st h (p # xs)"
    proof -
      have "q \<notin> set ys" using ch(2) Cons by simp
      then have "dseg k ?s (Some q) (next_of k cq) ys ls None"
        using q(4) by (subst dseg_cong [of ys k ?s "tn_store st"]) (use pq in \<open>auto simp: links_at_def\<close>)
      then show ?thesis using Cons pq by (auto simp: chain_def)
    qed
    ultimately show ?thesis using Cons by auto
  qed
qed

section \<open>Removing\<close>

lemma dseg_update_prev:
  assumes "dseg k s pv start (x # xs) ls nx" "distinct (x # xs)"
    "s x = Some c" "s' = s(x := Some (set_prev k pv' c))"
  shows "dseg k s' pv' start (x # xs) ls nx"
proof -
  have "dseg k s' (Some x) (next_of k c) xs ls nx"
    using assms(1,3) by (subst dseg_cong [of xs k s' s]) (use assms(2,4) in \<open>auto simp: links_at_def\<close>)
  then show ?thesis using assms by simp
qed

lemma dseg_update_next:
  assumes "dseg k s pv start (xs @ [x]) (Some x) nx" "distinct (xs @ [x])"
    "s x = Some c" "s' = s(x := Some (set_next k nx' c))"
  shows "dseg k s' pv start (xs @ [x]) (Some x) nx'"
proof -
  obtain m n where "dseg k s pv start xs m n" "dseg k s m n [x] (Some x) nx"
    using assms(1) unfolding dseg_append by blast
  moreover have "dseg k s' pv start xs m n = dseg k s pv start xs m n"
    by (rule dseg_cong) (use assms(2,4) in \<open>auto simp: links_at_def\<close>)
  ultimately show ?thesis using assms(3,4) unfolding dseg_append by auto
qed

lemma hash_rm_ok:
  assumes ch: "chain k st h (as @ p # bs)" and di: "distinct (as @ p # bs)"
  shows "\<exists>st'. tcp_hash_rm k p h st = Inr st' \<and> frame k st st' \<and> chain k st' h (as @ bs) \<and>
    (\<forall>h'. h' \<noteq> h \<longrightarrow> head_of k st' h' = head_of k st h') \<and>
    (\<forall>q. q \<notin> set as \<union> set bs \<longrightarrow> tn_store st' q = tn_store st q)"
proof -
  let ?s = "tn_store st"
  obtain ls m n where d: "dseg k ?s None (head_of k st h) as m n" "dseg k ?s m n (p # bs) ls None"
    using ch unfolding chain_def dseg_append by blast
  then obtain c where c: "?s p = Some c" "prev_of k c = m" "n = Some p"
    "dseg k ?s (Some p) (next_of k c) bs ls None" by auto
  have m: "m = (if as = [] then None else Some (last as))" using dseg_last [OF d(1)] by simp
  text \<open>The first assignment.\<close>
  have "\<exists>st1. (case next_of k c of None \<Rightarrow> Inr st | Some q \<Rightarrow> upd_conn q (set_prev k m) st) = Inr st1 \<and>
      frame k st st1 \<and> (\<exists>ls'. dseg k (tn_store st1) m (next_of k c) bs ls' None) \<and>
      head_of k st1 = head_of k st \<and> (\<forall>q. q \<notin> set bs \<longrightarrow> tn_store st1 q = ?s q)"
  proof (cases bs)
    case Nil
    with c(4) show ?thesis by (auto simp: frame_refl)
  next
    case (Cons b bs')
    then obtain cb where b: "?s b = Some cb" "next_of k c = Some b" using c(4) by auto
    have "dseg k (?s(b := Some (set_prev k m cb))) m (next_of k c) (b # bs') ls None"
      by (rule dseg_update_prev [where s = ?s and c = cb and pv = "Some p"])
        (use b c(4) Cons di in auto)
    with b Cons show ?thesis
      by (auto simp: upd_conn_live [OF b(1)] frame_set(2) [OF b(1)] intro!: exI [of _ ls])
  qed
  then obtain st1 ls' where st1: "(case next_of k c of None \<Rightarrow> Inr st
        | Some q \<Rightarrow> upd_conn q (set_prev k m) st) = Inr st1" "frame k st st1"
    "dseg k (tn_store st1) m (next_of k c) bs ls' None" "head_of k st1 = head_of k st"
    "\<And>q. q \<notin> set bs \<Longrightarrow> tn_store st1 q = ?s q" by blast
  have p1: "tn_store st1 p = Some c" using st1(5) [of p] c(1) di by simp
  have "tn_store st1 x = ?s x" if "x \<in> set as" for x
    using st1(5) [of x] that di by auto
  then have as1: "dseg k (tn_store st1) None (head_of k st h) as m n"
    using d(1) by (subst dseg_cong [of as k _ ?s]) (auto simp: links_at_def)
  have rm: "tcp_hash_rm k p h st =
      (case m of None \<Rightarrow> Inr (set_head k h (next_of k c) st1)
       | Some r \<Rightarrow> upd_conn r (set_next k (next_of k c)) st1)"
    unfolding tcp_hash_rm_def conn_at_def c(1) ebind_Inr option.case c(2) st1(1) p1 ..
  show ?thesis
  proof (cases "as = []")
    case True
    then have "tcp_hash_rm k p h st = Inr (set_head k h (next_of k c) st1)" using rm m by simp
    moreover have "chain k (set_head k h (next_of k c) st1) h bs"
      using st1(3) True m by (auto simp: chain_def)
    moreover have "frame k st (set_head k h (next_of k c) st1)"
      by (rule frame_trans [OF st1(2) frame_head])
    ultimately show ?thesis using True st1(4,5) by auto
  next
    case False
    then obtain as' a where a: "as = as' @ [a]" by (cases as rule: rev_cases) auto
    then obtain ca where ca: "tn_store st1 a = Some ca" using dseg_live [OF as1] by auto
    let ?t = "(tn_store st1)(a := Some (set_next k (next_of k c) ca))"
    have seg: "dseg k ?t None (head_of k st h) (as' @ [a]) (Some a) (next_of k c)"
      by (rule dseg_update_next [where s = "tn_store st1" and c = ca and nx = n])
        (use ca as1 a m di in auto)
    have "dseg k ?t (Some a) (next_of k c) bs ls' None"
      using st1(3) a m
      by (subst dseg_cong [of bs k _ "tn_store st1"]) (use di a in \<open>auto simp: links_at_def\<close>)
    with seg have "dseg k ?t None (head_of k st h) (as @ bs) ls' None"
      unfolding a dseg_append [of k ?t _ _ "as' @ [a]"] by blast
    then have "chain k (st1\<lparr>tn_store := ?t\<rparr>) h (as @ bs)" by (auto simp: chain_def st1(4))
    moreover have "tcp_hash_rm k p h st = Inr (st1\<lparr>tn_store := ?t\<rparr>)"
      using rm m a by (simp add: upd_conn_live [OF ca])
    moreover have "frame k st (st1\<lparr>tn_store := ?t\<rparr>)"
      by (rule frame_trans [OF st1(2) frame_set(1) [OF ca]])
    ultimately show ?thesis using a st1(4,5) by auto
  qed
qed

section \<open>The tables\<close>

fun bucket_of :: "link \<Rightarrow> tcp_conn \<Rightarrow> nat" where
  "bucket_of By_id c = id_bucket c"
| "bucket_of By_ip c = ip_bucket c"

lemma bucket_strip [simp]: "bucket_of k' (strip k c) = bucket_of k' c"
  by (cases k') (simp_all add: id_bucket_def ip_bucket_def)

text \<open>Every bucket is the list the table \<open>L\<close> says, of live connections that belong there.\<close>

definition table_ok :: "link \<Rightarrow> tcp_net \<Rightarrow> (nat \<Rightarrow> nat list) \<Rightarrow> bool" where
  "table_ok k st L \<longleftrightarrow> (\<forall>h. chain k st h (L h) \<and> distinct (L h) \<and>
     (\<forall>p \<in> set (L h). \<exists>c. tn_store st p = Some c \<and> bucket_of k c = h))"

lemma table_okD:
  "table_ok k st L \<Longrightarrow> p \<in> set (L h) \<Longrightarrow> \<exists>c. tn_store st p = Some c \<and> bucket_of k c = h"
  "table_ok k st L \<Longrightarrow> chain k st h (L h)" "table_ok k st L \<Longrightarrow> distinct (L h)"
  unfolding table_ok_def by blast+

definition linked :: "(nat \<Rightarrow> nat list) \<Rightarrow> nat set" where
  "linked L = (\<Union>h. set (L h))"

definition table_view :: "link \<Rightarrow> tcp_net \<Rightarrow> nat \<Rightarrow> (nat option \<times> nat option \<times> nat) option" where
  "table_view k st q = map_option (\<lambda>c. (prev_of k c, next_of k c, bucket_of k c)) (tn_store st q)"

lemma table_cong:
  assumes "table_ok k st L" "head_of k st' = head_of k st"
    "\<And>q. q \<in> linked L \<Longrightarrow> table_view k st' q = table_view k st q"
  shows "table_ok k st' L"
proof -
  have v: "table_view k st' q = table_view k st q" if "q \<in> set (L h)" for q h
    using assms(3) [of q] that by (auto simp: linked_def)
  have "chain k st' h (L h)" for h
  proof -
    have "links_at k (tn_store st') q = links_at k (tn_store st) q" if "q \<in> set (L h)" for q
      using v [OF that] by (cases "tn_store st' q"; cases "tn_store st q")
        (auto simp: table_view_def links_at_def)
    then have "dseg k (tn_store st') None (head_of k st h) (L h) ls None =
        dseg k (tn_store st) None (head_of k st h) (L h) ls None" for ls
      by (rule dseg_cong)
    with table_okD(2) [OF assms(1)] assms(2) show ?thesis by (simp add: chain_def)
  qed
  moreover have "\<exists>c. tn_store st' p = Some c \<and> bucket_of k c = h" if "p \<in> set (L h)" for p h
  proof -
    from table_okD(1) [OF assms(1) that] obtain c where "tn_store st p = Some c" "bucket_of k c = h"
      by blast
    with v [OF that] show ?thesis by (cases "tn_store st' p") (auto simp: table_view_def)
  qed
  ultimately show ?thesis using table_okD(3) [OF assms(1)] unfolding table_ok_def by blast
qed

lemma table_frame:
  assumes "table_ok (other k) st L" "frame k st st'"
  shows "table_ok (other k) st' L"
proof (rule table_cong [OF assms(1)])
  show "head_of (other k) st' = head_of (other k) st" using assms(2) by (simp add: frame_def)
  fix q
  have "map_option (strip k) (tn_store st' q) = map_option (strip k) (tn_store st q)"
    using assms(2) by (simp add: frame_def)
  then show "table_view (other k) st' q = table_view (other k) st q"
    by (cases "tn_store st' q"; cases "tn_store st q")
      (auto simp: table_view_def dest: arg_cong [of _ _ "prev_of (other k)"]
        arg_cong [of _ _ "next_of (other k)"] arg_cong [of _ _ "bucket_of (other k)"])
qed

lemma other_other [simp]: "other (other k) = k" "other By_id = By_ip" "other By_ip = By_id"
  by (cases k; simp add: other_def)+

text \<open>Other buckets of the same table, when one bucket changes.\<close>

lemma table_other_bucket:
  assumes "table_ok k st L" "frame k st st'" "h' \<noteq> h" "head_of k st' h' = head_of k st h'"
    "\<And>q. q \<in> set (L h') \<Longrightarrow> tn_store st' q = tn_store st q"
  shows "chain k st' h' (L h') \<and> (\<forall>p \<in> set (L h'). \<exists>c. tn_store st' p = Some c \<and> bucket_of k c = h')"
proof -
  have "dseg k (tn_store st') None (head_of k st h') (L h') ls None =
      dseg k (tn_store st) None (head_of k st h') (L h') ls None" for ls
    by (rule dseg_cong) (simp add: links_at_def assms(5))
  then show ?thesis
    using table_okD(1) [OF assms(1), of _ h'] table_okD(2) [OF assms(1), of h'] assms(4,5) unfolding chain_def by auto
qed

lemma table_unique:
  assumes "table_ok k st L" "p \<in> set (L h)" "p \<in> set (L h')"
  shows "h = h'"
  using table_okD(1) [OF assms(1,2)] table_okD(1) [OF assms(1,3)] by auto

lemma frame_bucket:
  assumes "frame k st st'" "tn_store st p = Some c"
  shows "\<exists>c'. tn_store st' p = Some c' \<and> bucket_of k' c' = bucket_of k' c"
  using frame_conn [OF assms] by (metis bucket_strip)

lemma table_add:
  assumes t: "table_ok k st L" and p: "p \<notin> linked L" "tn_store st p = Some c" "bucket_of k c = h"
  shows "\<exists>st'. tcp_hash_add k p h st = Inr st' \<and> frame k st st' \<and> table_ok k st' (L(h := p # L h))"
proof -
  have ch: "chain k st h (L h)" "distinct (L h)" "p \<notin> set (L h)"
    using t p(1) table_okD(2,3) by (auto simp: linked_def)
  from hash_add_ok [OF ch p(2)] obtain st' where
    st': "tcp_hash_add k p h st = Inr st'" "frame k st st'" "chain k st' h (p # L h)"
    "\<And>h'. h' \<noteq> h \<Longrightarrow> head_of k st' h' = head_of k st h'"
    "\<And>q. q \<notin> set (p # L h) \<Longrightarrow> tn_store st' q = tn_store st q" by auto
  have o: "chain k st' h' (L h') \<and> (\<forall>p \<in> set (L h'). \<exists>c. tn_store st' p = Some c \<and> bucket_of k c = h')"
    if "h' \<noteq> h" for h'
  proof (rule table_other_bucket [OF t st'(2) that st'(4) [OF that]])
    fix q assume q: "q \<in> set (L h')"
    then have "q \<notin> set (p # L h)" using table_unique [OF t q, of h] that p(1) by (auto simp: linked_def)
    then show "tn_store st' q = tn_store st q" by (rule st'(5))
  qed
  have "\<exists>c. tn_store st' q = Some c \<and> bucket_of k c = h" if "q \<in> set (p # L h)" for q
  proof -
    have "\<exists>d. tn_store st q = Some d \<and> bucket_of k d = h"
      using that p(2,3) table_okD(1) [OF t, of q h] by auto
    then obtain d where "tn_store st q = Some d" "bucket_of k d = h" by blast
    with frame_bucket [OF st'(2)] show ?thesis by blast
  qed
  with o st'(3) ch have "table_ok k st' (L(h := p # L h))"
    using table_okD(3) [OF t] unfolding table_ok_def by simp
  with st'(1,2) show ?thesis by blast
qed

lemma table_rm:
  assumes t: "table_ok k st L" and p: "p \<in> linked L" "tn_store st p = Some c" "bucket_of k c = h"
  shows "\<exists>st'. tcp_hash_rm k p h st = Inr st' \<and> frame k st st' \<and> table_ok k st' (L(h := remove1 p (L h)))"
proof -
  from p(1) obtain h' where "p \<in> set (L h')" by (auto simp: linked_def)
  with table_okD(1) [OF t this] p(2,3) have ph: "p \<in> set (L h)" by auto
  then obtain as bs where s: "L h = as @ p # bs" "p \<notin> set as" by (meson split_list_first)
  have ch: "chain k st h (as @ p # bs)" "distinct (as @ p # bs)"
    using t unfolding s(1) [symmetric] by (simp_all add: table_ok_def)
  from hash_rm_ok [OF ch] obtain st' where
    st': "tcp_hash_rm k p h st = Inr st'" "frame k st st'" "chain k st' h (as @ bs)"
    "\<And>h'. h' \<noteq> h \<Longrightarrow> head_of k st' h' = head_of k st h'"
    "\<And>q. q \<notin> set as \<union> set bs \<Longrightarrow> tn_store st' q = tn_store st q" by auto
  have r: "remove1 p (L h) = as @ bs" using s by (simp add: remove1_append)
  have o: "chain k st' h' (L h') \<and> (\<forall>p \<in> set (L h'). \<exists>c. tn_store st' p = Some c \<and> bucket_of k c = h')"
    if "h' \<noteq> h" for h'
  proof (rule table_other_bucket [OF t st'(2) that st'(4) [OF that]])
    fix q assume q: "q \<in> set (L h')"
    then have "q \<notin> set (L h)" using table_unique [OF t q, of h] that by auto
    then show "tn_store st' q = tn_store st q" using s by (intro st'(5)) auto
  qed
  have "\<exists>c. tn_store st' q = Some c \<and> bucket_of k c = h" if "q \<in> set (as @ bs)" for q
  proof -
    have "q \<in> set (L h)" using that s by auto
    then obtain d where "tn_store st q = Some d" "bucket_of k d = h"
      using table_okD(1) [OF t] by blast
    with frame_bucket [OF st'(2)] show ?thesis by blast
  qed
  with o st'(3) ch have "table_ok k st' (L(h := remove1 p (L h)))"
    using table_okD(3) [OF t] unfolding r table_ok_def by simp
  with st'(1,2) show ?thesis by blast
qed

end
