(* ===== verification/Tcp_Safe.thy ===== *)
theory Tcp_Safe
  imports Tcp_Tables
begin

text \<open>
  Memory safety of the connection table for clients that keep to its protocol: the invariant,
  that every operation keeps it, and runs of clients.
\<close>

section \<open>The invariant\<close>

text \<open>
  \<open>r p\<close> is the number of references to \<open>p\<close> that threads own. A block is live exactly while
  somebody owns a reference; both tables hold the same live connections; the counter of
  connections is at least their number.
\<close>

fun ref_at :: "tcp_conn option \<Rightarrow> nat \<Rightarrow> bool" where
  "ref_at None n \<longleftrightarrow> n = 0"
| "ref_at (Some c) n \<longleftrightarrow> 0 < n \<and> tc_ref c = int n"

definition refs_ok :: "tcp_net \<Rightarrow> (nat \<Rightarrow> nat) \<Rightarrow> bool" where
  "refs_ok st r \<longleftrightarrow> (\<forall>p. ref_at (tn_store st p) (r p))"

definition count_ok :: "tcp_net \<Rightarrow> bool" where
  "count_ok st \<longleftrightarrow> finite (dom (tn_store st)) \<and> int (card (dom (tn_store st))) \<le> tn_connections_no st \<and>
     tn_connections_no st \<le> tn_max_connections st"

definition net_ok :: "tcp_net \<Rightarrow> (nat \<Rightarrow> nat) \<Rightarrow> (nat \<Rightarrow> nat list) \<Rightarrow> (nat \<Rightarrow> nat list) \<Rightarrow> bool" where
  "net_ok st r L M \<longleftrightarrow> table_ok By_id st L \<and> table_ok By_ip st M \<and> linked L = linked M \<and>
     refs_ok st r \<and> count_ok st"

text \<open>A connection without its links.\<close>

definition body :: "tcp_conn \<Rightarrow> tcp_conn" where
  "body c = strip By_id (strip By_ip c)"

lemma body_strip [simp]: "body (strip k c) = body c"
  by (cases k) (simp_all add: body_def strip_def)

lemma body_sel [simp]:
  "tc_ref (body c) = tc_ref c" "tc_state (body c) = tc_state c" "tc_timeout (body c) = tc_timeout c"
  "tc_socket (body c) = tc_socket c" "tc_src_ip (body c) = tc_src_ip c"
  "tc_src_port (body c) = tc_src_port c" "tc_port_alias (body c) = tc_port_alias c"
  "tc_writes (body c) = tc_writes c" "tc_id (body c) = tc_id c" "bucket_of k (body c) = bucket_of k c"
  by (simp_all add: body_def)

lemma frame_body:
  assumes "frame k st st'"
  shows "map_option body (tn_store st' q) = map_option body (tn_store st q)"
proof -
  have "map_option body (map_option (strip k) (tn_store st' q)) =
      map_option body (map_option (strip k) (tn_store st q))"
    using assms by (simp add: frame_def)
  then show ?thesis by (cases "tn_store st' q"; cases "tn_store st q") auto
qed

definition same_bodies :: "tcp_net \<Rightarrow> tcp_net \<Rightarrow> bool" where
  "same_bodies st st' \<longleftrightarrow> (\<forall>q. map_option body (tn_store st' q) = map_option body (tn_store st q)) \<and>
     rest st' = rest st"

lemma frame_same_bodies: "frame k st st' \<Longrightarrow> same_bodies st st'"
  by (simp add: same_bodies_def frame_body) (simp add: frame_def)

lemma same_bodies_trans: "same_bodies a b \<Longrightarrow> same_bodies b c \<Longrightarrow> same_bodies a c"
  by (simp add: same_bodies_def)

lemma same_bodies_conn:
  assumes "same_bodies st st'" "tn_store st p = Some c"
  shows "\<exists>c'. tn_store st' p = Some c' \<and> body c' = body c"
proof -
  have "map_option body (tn_store st' p) = map_option body (tn_store st p)"
    using assms(1) by (simp add: same_bodies_def)
  with assms(2) show ?thesis by (cases "tn_store st' p") simp_all
qed

lemma same_bodies_dom: "same_bodies st st' \<Longrightarrow> dom (tn_store st') = dom (tn_store st)"
  unfolding same_bodies_def dom_def by (metis option.map_disc_iff)

lemma rest_sel:
  "rest st' = rest st \<Longrightarrow> tn_connections_no st' = tn_connections_no st \<and>
     tn_max_connections st' = tn_max_connections st \<and> tn_closed st' = tn_closed st \<and>
     tn_fired st' = tn_fired st \<and> tn_resumed st' = tn_resumed st \<and> tn_last_id st' = tn_last_id st \<and>
     tn_lifetime st' = tn_lifetime st"
  by (cases st; cases st') (simp add: rest_def)

lemma same_bodies_refs:
  assumes "same_bodies st st'" "refs_ok st r"
  shows "refs_ok st' r"
proof -
  have "ref_at (tn_store st' q) (r q)" for q
  proof -
    have "map_option tc_ref (map_option body (tn_store st' q)) =
        map_option tc_ref (map_option body (tn_store st q))"
      using assms(1) by (simp add: same_bodies_def)
    moreover have "ref_at (tn_store st q) (r q)" using assms(2) by (simp add: refs_ok_def)
    ultimately show ?thesis by (cases "tn_store st' q"; cases "tn_store st q") simp_all
  qed
  then show ?thesis by (simp add: refs_ok_def)
qed

lemma same_bodies_count: "same_bodies st st' \<Longrightarrow> count_ok st \<Longrightarrow> count_ok st'"
  using same_bodies_dom [of st st'] rest_sel [of st' st] by (simp add: count_ok_def same_bodies_def)

lemma refs_live: "refs_ok st r \<Longrightarrow> 0 < r p \<Longrightarrow> \<exists>c. tn_store st p = Some c \<and> tc_ref c = int (r p)"
  unfolding refs_ok_def by (cases "tn_store st p") (auto dest!: spec [of _ p])

lemma linked_live: "table_ok k st L \<Longrightarrow> p \<in> linked L \<Longrightarrow> \<exists>c. tn_store st p = Some c"
  using table_okD(1) unfolding linked_def by blast

text \<open>Changing a connection without touching what the tables see.\<close>

lemma table_upd:
  assumes "table_ok k st L" "tn_store st p = Some c" "prev_of k c' = prev_of k c"
    "next_of k c' = next_of k c" "bucket_of k c' = bucket_of k c"
  shows "table_ok k (st\<lparr>tn_store := (tn_store st)(p := Some c')\<rparr>) L"
  by (rule table_cong [OF assms(1)]) (use assms in \<open>auto simp: table_view_def\<close>)

lemma table_other_fields:
  "tn_store st' = tn_store st \<Longrightarrow> head_of k st' = head_of k st \<Longrightarrow> table_ok k st L \<Longrightarrow> table_ok k st' L"
  by (rule table_cong) (simp_all add: table_view_def)

lemma table_free:
  assumes "table_ok k st L" "p \<notin> linked L"
  shows "table_ok k (st\<lparr>tn_store := (tn_store st)(p := None)\<rparr>) L"
  by (rule table_cong [OF assms(1)]) (use assms in \<open>auto simp: table_view_def\<close>)

lemma link_of_ref [simp]:
  "prev_of k (c\<lparr>tc_ref := n\<rparr>) = prev_of k c" "next_of k (c\<lparr>tc_ref := n\<rparr>) = next_of k c"
  "bucket_of k (c\<lparr>tc_ref := n\<rparr>) = bucket_of k c"
  "prev_of k (c\<lparr>tc_state := s\<rparr>) = prev_of k c" "next_of k (c\<lparr>tc_state := s\<rparr>) = next_of k c"
  "bucket_of k (c\<lparr>tc_state := s\<rparr>) = bucket_of k c"
  "prev_of k (c\<lparr>tc_timeout := u\<rparr>) = prev_of k c" "next_of k (c\<lparr>tc_timeout := u\<rparr>) = next_of k c"
  "bucket_of k (c\<lparr>tc_timeout := u\<rparr>) = bucket_of k c"
  by (cases k; simp add: id_bucket_def ip_bucket_def)+

lemma dom_upd_live: "tn_store st p = Some c \<Longrightarrow> dom ((tn_store st)(p := Some c')) = dom (tn_store st)"
  by auto

lemma refs_upd:
  "refs_ok st r \<Longrightarrow> 0 < n \<Longrightarrow> tc_ref c = int n \<Longrightarrow>
   refs_ok (st\<lparr>tn_store := (tn_store st)(p := Some c)\<rparr>) (r(p := n))"
  by (auto simp: refs_ok_def)

lemma net_upd_ref:
  assumes "net_ok st r L M" "tn_store st p = Some c" "0 < n"
  shows "net_ok (st\<lparr>tn_store := (tn_store st)(p := Some (c\<lparr>tc_ref := int n\<rparr>))\<rparr>) (r(p := n)) L M"
  using assms dom_upd_live [OF assms(2)]
  by (simp add: net_ok_def table_upd [OF _ assms(2)] refs_upd count_ok_def)

section \<open>Operations\<close>

lemma ref_ok:
  assumes "net_ok st r L M" "0 < r p"
  shows "\<exists>st'. ref_tcp_conn p st = Inr st' \<and> net_ok st' (r(p := r p + 1)) L M"
proof -
  obtain c where c: "tn_store st p = Some c" "tc_ref c = int (r p)"
    using refs_live [of st r p] assms by (auto simp: net_ok_def)
  have "ref_tcp_conn p st = Inr (st\<lparr>tn_store := (tn_store st)(p := Some (c\<lparr>tc_ref := int (r p + 1)\<rparr>))\<rparr>)"
    by (simp add: ref_tcp_conn_def upd_conn_live [OF c(1)] c(2) add.commute)
  moreover have "net_ok (st\<lparr>tn_store := (tn_store st)(p := Some (c\<lparr>tc_ref := int (r p + 1)\<rparr>))\<rparr>)
      (r(p := r p + 1)) L M"
    by (rule net_upd_ref [OF assms(1) c(1)]) simp
  ultimately show ?thesis by blast
qed

text \<open>The last reference to a connection that is no longer linked.\<close>

lemma conn_free_ok:
  assumes "table_ok By_id st L" "table_ok By_ip st M" "linked L = linked M" "count_ok st"
    "\<And>q. q \<noteq> p \<Longrightarrow> ref_at (tn_store st q) (r q)"
    "p \<notin> linked L" "tn_store st p = Some c"
  shows "\<exists>st'. free_tcp_conn p st = Inr st' \<and> net_ok st' (r(p := 0)) L M \<and> tn_store st' p = None \<and>
    (\<forall>q. q \<noteq> p \<longrightarrow> tn_store st' q = tn_store st q) \<and>
    tn_connections_no st' = tn_connections_no st - 1"
proof -
  let ?st = "st\<lparr>tn_closed := (if tc_socket c \<noteq> 0 then tn_closed st @ [tc_socket c] else tn_closed st),
      tn_store := (tn_store st)(p := None), tn_connections_no := tn_connections_no st - 1\<rparr>"
  have "table_ok By_id ?st L" "table_ok By_ip ?st M"
    using table_other_fields [OF _ _ table_free [OF assms(1,6)], of ?st]
      table_other_fields [OF _ _ table_free [OF assms(2), of p], of ?st] assms(3,6) by simp_all
  moreover have "refs_ok ?st (r(p := 0))" using assms(5) by (simp add: refs_ok_def)
  moreover have "count_ok ?st"
  proof -
    have "dom (tn_store ?st) = dom (tn_store st) - {p}" by auto
    moreover have "p \<in> dom (tn_store st)" using assms(7) by blast
    moreover have "finite (dom (tn_store st))" using assms(4) by (simp add: count_ok_def)
    ultimately have "card (dom (tn_store st)) = Suc (card (dom (tn_store ?st)))"
      using card_Suc_Diff1 by metis
    then show ?thesis using assms(4) by (simp add: count_ok_def)
  qed
  ultimately have "net_ok ?st (r(p := 0)) L M" using assms(3) by (simp add: net_ok_def)
  moreover have "free_tcp_conn p st = Inr ?st" by (simp add: free_tcp_conn_def conn_at_def assms(7))
  ultimately show ?thesis by simp
qed

lemma unref_ok:
  assumes "net_ok st r L M" "0 < r p" "r p = 1 \<longrightarrow> p \<notin> linked L"
  shows "\<exists>st'. unref_tcp_conn p st = Inr st' \<and> net_ok st' (r(p := r p - 1)) L M"
proof -
  obtain c where c: "tn_store st p = Some c" "tc_ref c = int (r p)"
    using refs_live [of st r p] assms by (auto simp: net_ok_def)
  let ?c = "c\<lparr>tc_ref := int (r p) - 1\<rparr>"
  let ?st = "st\<lparr>tn_store := (tn_store st)(p := Some ?c)\<rparr>"
  have u: "unref_tcp_conn p st = (if int (r p) - 1 = 0 then free_tcp_conn p ?st else Inr ?st)"
    by (simp add: unref_tcp_conn_def upd_conn_live [OF c(1)] c(2) conn_at_def)
  show ?thesis
  proof (cases "r p = 1")
    case False
    then have n: "int (r p - 1) = int (r p) - 1" "0 < r p - 1" using assms(2) by auto
    have "unref_tcp_conn p st = Inr ?st" using u n(2) by simp
    with net_upd_ref [OF assms(1) c(1) n(2)] show ?thesis unfolding n(1) by blast
  next
    case True
    have t: "table_ok By_id ?st L" "table_ok By_ip ?st M" "linked L = linked M" "count_ok ?st"
      using assms(1) dom_upd_live [OF c(1)]
      by (simp_all add: net_ok_def table_upd [OF _ c(1)] count_ok_def)
    have a: "ref_at (tn_store ?st q) (r q)" if "q \<noteq> p" for q
      using assms(1) that by (simp add: net_ok_def refs_ok_def)
    have "p \<notin> linked L" "tn_store ?st p = Some ?c" using assms(3) True by simp_all
    from conn_free_ok [OF t a this] obtain st' where
      f: "free_tcp_conn p ?st = Inr st'" "net_ok st' (r(p := 0)) L M" by blast
    have "int (r p) - 1 = 0" using True by simp
    with u f(1) have "unref_tcp_conn p st = Inr st'" by simp
    moreover have e: "r(p := r p - 1) = r(p := 0)" using True by simp
    ultimately show ?thesis unfolding e using f(2) by blast
  qed
qed

lemma remove_ok:
  assumes "net_ok st r L M" "p \<in> linked L" "e \<le> r p"
  shows "\<exists>st' L' M'. remove_tcp_conn p (int e) st = Inr st' \<and> net_ok st' (r(p := r p - e)) L' M' \<and>
    linked L' = linked L - {p} \<and>
    (\<forall>h. L' h = (if p \<in> set (L h) then remove1 p (L h) else L h)) \<and>
    (\<forall>q. q \<noteq> p \<longrightarrow> map_option body (tn_store st' q) = map_option body (tn_store st q)) \<and>
    (e < r p \<longrightarrow> map_option (\<lambda>c. (body c)\<lparr>tc_ref := 0\<rparr>) (tn_store st' p) =
       map_option (\<lambda>c. (body c)\<lparr>tc_ref := 0\<rparr>) (tn_store st p) \<and> rest st' = rest st)"
proof -
  note ok = assms(1) [unfolded net_ok_def]
  obtain c where c: "tn_store st p = Some c" using linked_live ok assms(2) by blast
  let ?h = "id_bucket c" and ?g = "ip_bucket c"
  obtain st1 where st1: "tcp_hash_rm By_id p ?h st = Inr st1" "frame By_id st st1"
    "table_ok By_id st1 (L(?h := remove1 p (L ?h)))"
    using table_rm [of By_id st L p c ?h] ok assms(2) c by auto
  obtain c1 where c1: "tn_store st1 p = Some c1" "strip By_id c1 = strip By_id c"
    using frame_conn [OF st1(2) c] by blast
  have ref1: "tc_ref c1 = tc_ref c" using arg_cong [OF c1(2), of tc_ref] by simp
  let ?c2 = "c1\<lparr>tc_ref := tc_ref c1 - int e\<rparr>"
  let ?st2 = "st1\<lparr>tn_store := (tn_store st1)(p := Some ?c2)\<rparr>"
  have g: "ip_bucket ?c2 = ?g" "bucket_of By_ip ?c2 = ?g"
    using arg_cong [OF c1(2), of "bucket_of By_ip"] by (simp_all add: ip_bucket_def)
  have M2: "table_ok By_ip ?st2 M" "table_ok By_id ?st2 (L(?h := remove1 p (L ?h)))"
    using table_frame [of By_id st M st1] ok st1 by (simp_all add: table_upd [OF _ c1(1)])
  obtain st3 where st3: "tcp_hash_rm By_ip p ?g ?st2 = Inr st3" "frame By_ip ?st2 st3"
    "table_ok By_ip st3 (M(?g := remove1 p (M ?g)))"
    using table_rm [OF M2(1) _ _ g(2), of p] ok assms(2) by auto
  obtain c3 where c3: "tn_store st3 p = Some c3" "strip By_ip c3 = strip By_ip ?c2"
    using frame_conn [OF st3(2), of p ?c2] by auto
  have ref3: "tc_ref c3 = int (r p) - int e"
  proof -
    have "tc_ref c = int (r p)" using ok c unfolding refs_ok_def by (auto dest!: spec [of _ p])
    then show ?thesis using arg_cong [OF c3(2), of tc_ref] ref1 by simp
  qed
  have rm: "remove_tcp_conn p (int e) st = (if tc_ref c3 = 0 then free_tcp_conn p st3 else Inr st3)"
    by (simp add: remove_tcp_conn_def conn_at_def c st1(1) upd_conn_live [OF c1(1)] g(1) st3(1) c3(1))
  have L3: "table_ok By_id st3 (L(?h := remove1 p (L ?h)))"
    using table_frame [of By_ip ?st2 _ st3] M2(2) st3(2) by simp
  let ?L = "L(?h := remove1 p (L ?h))" and ?M = "M(?g := remove1 p (M ?g))"
  have lk: "linked (N(h := remove1 p (N h))) = linked N - {p}"
    if "table_ok k st N" "bucket_of k c = h" for N h k
  proof -
    have "q \<notin> set (N h')" if "h' \<noteq> h" "q = p" for q h'
      using table_okD(1) [OF \<open>table_ok k st N\<close>, of p h'] that c \<open>bucket_of k c = h\<close> by auto
    then show ?thesis
      using table_okD(3) [OF that(1), of h] by (auto simp: linked_def split: if_splits)
  qed
  have ll: "linked ?L = linked L - {p}" "linked ?M = linked M - {p}" "linked ?L = linked ?M"
    using lk [of By_id L] lk [of By_ip M] ok by auto
  have Lh: "?L h = (if p \<in> set (L h) then remove1 p (L h) else L h)" for h
    using table_okD(1) [of By_id st L p h] ok c by (auto simp: remove1_idem)
  have bd: "map_option body (tn_store st3 q) = map_option body (tn_store st q)" if "q \<noteq> p" for q
    using frame_body [OF st1(2), of q] frame_body [OF st3(2), of q] that by simp
  have rs: "rest st3 = rest st" using st1(2) st3(2) by (simp add: frame_def)
  have dom: "dom (tn_store st3) = dom (tn_store st)"
  proof -
    have "(tn_store st3 q = None) = (tn_store st q = None)" for q
      using bd [of q] c c3(1) by (cases "q = p") (auto simp: map_option_is_None dest: arg_cong [of _ _ "\<lambda>x. x = None"])
    then show ?thesis by (auto simp: dom_def)
  qed
  have cnt: "count_ok st3" using ok dom rest_sel [OF rs] by (simp add: count_ok_def)
  have rf: "ref_at (tn_store st3 q) (r q)" if "q \<noteq> p" for q
  proof -
    have "ref_at (tn_store st q) (r q)"
      using ok by (simp add: refs_ok_def)
    moreover have "map_option tc_ref (map_option body (tn_store st3 q)) =
        map_option tc_ref (map_option body (tn_store st q))" by (simp only: bd [OF that])
    ultimately show ?thesis by (cases "tn_store st3 q"; cases "tn_store st q") auto
  qed
  show ?thesis
  proof (cases "e = r p")
    case True
    have "p \<notin> linked ?L" using ll(1) by simp
    from conn_free_ok [OF L3 st3(3) ll(3) cnt rf this c3(1)] obtain st4 where
      "free_tcp_conn p st3 = Inr st4" "net_ok st4 (r(p := 0)) ?L ?M"
      "\<And>q. q \<noteq> p \<Longrightarrow> tn_store st4 q = tn_store st3 q" by blast
    with rm ref3 True ll(1) Lh bd show ?thesis
      by (intro exI [of _ st4] exI [of _ ?L] exI [of _ ?M]) simp
  next
    case False
    then have lt: "e < r p" using assms(3) by simp
    have "refs_ok st3 (r(p := r p - e))"
      using rf c3(1) ref3 lt by (auto simp: refs_ok_def of_nat_diff)
    then have "net_ok st3 (r(p := r p - e)) ?L ?M" using L3 st3(3) ll(3) cnt by (simp add: net_ok_def)
    moreover have "remove_tcp_conn p (int e) st = Inr st3" using rm ref3 lt by simp
    moreover have "(body c3)\<lparr>tc_ref := 0\<rparr> = (body c)\<lparr>tc_ref := 0\<rparr>"
    proof -
      have "body c3 = body ?c2" using arg_cong [OF c3(2), of body] by simp
      moreover have "body c1 = body c" using arg_cong [OF c1(2), of body] by simp
      moreover have "body ?c2 = (body c1)\<lparr>tc_ref := tc_ref c1 - int e\<rparr>"
        by (simp add: body_def strip_def)
      ultimately show ?thesis by simp
    qed
    ultimately show ?thesis
      using ll(1) Lh bd rs c c3(1) by (intro exI [of _ st3] exI [of _ ?L] exI [of _ ?M]) simp
  qed
qed

lemma linked_add: "linked (L(h := p # L h)) = insert p (linked L)"
  by (auto simp: linked_def split: if_splits)

lemma create_ok:
  assumes "net_ok st r L M" "\<And>p. mem = Some p \<Longrightarrow> tn_store st p = None"
  shows "\<exists>res st'. create_tcp_conn mem lock_ok ticks s ip port q st = Inr (res, st') \<and>
    (case res of
       None \<Rightarrow> net_ok st' r L M
     | Some p \<Rightarrow> mem = Some p \<and> (\<exists>L' M'. net_ok st' (r(p := 1)) L' M' \<and>
         linked L' = insert p (linked L) \<and>
         (\<exists>xs. M' (tcp_hash (ip_words ip ! 0) (ucast port)) = p # xs)))"
proof (cases "tn_max_connections st \<le> tn_connections_no st")
  case True
  let ?st = "st\<lparr>tn_closed := tn_closed st @ [s]\<rparr>"
  have "table_ok By_id ?st L" "table_ok By_ip ?st M"
    using assms(1) table_other_fields [of ?st st] by (simp_all add: net_ok_def)
  then have "net_ok ?st r L M" using assms(1) by (simp add: net_ok_def refs_ok_def count_ok_def)
  with True show ?thesis by (simp add: create_tcp_conn_def)
next
  case room: False
  let ?st1 = "st\<lparr>tn_connections_no := tn_connections_no st + 1\<rparr>"
  have t1: "table_ok By_id ?st1 L" "table_ok By_ip ?st1 M"
    using assms(1) table_other_fields [of ?st1 st] by (simp_all add: net_ok_def)
  then have ok1: "net_ok ?st1 r L M" using assms(1) room by (simp add: net_ok_def refs_ok_def count_ok_def)
  show ?thesis
  proof (cases "\<exists>p. mem = Some p \<and> lock_ok")
    case False
    then have "create_tcp_conn mem lock_ok ticks s ip port q st = Inr (None, ?st1)"
      using room by (auto simp: create_tcp_conn_def Let_def split: option.splits)
    with ok1 show ?thesis by simp
  next
    case True
    then obtain p where p: "mem = Some p" "lock_ok" "tn_store st p = None" using assms(2) by blast
    define c where "c = \<lparr>tc_id = tn_last_id st, tc_state = q, tc_timeout = ticks + tn_lifetime st,
      tc_ref = 1, tc_socket = s, tc_src_ip = ip, tc_src_port = port, tc_port_alias = 0, tc_writes = [],
      tc_id_next = None, tc_id_prev = None, tc_ip_next = None, tc_ip_prev = None\<rparr>"
    let ?st2 = "?st1\<lparr>tn_store := (tn_store st)(p := Some c)\<rparr>"
    have nl: "p \<notin> linked L" "p \<notin> linked M"
      using linked_live [of By_id st L p] p(3) assms(1) by (auto simp: net_ok_def)
    have t2: "table_ok By_id ?st2 L" "table_ok By_ip ?st2 M"
      using nl by (auto intro!: table_cong [OF t1(1)] table_cong [OF t1(2)] simp: table_view_def)
    obtain st3 where st3: "tcp_hash_add By_id p (id_bucket c) ?st2 = Inr st3" "frame By_id ?st2 st3"
      "table_ok By_id st3 (L(id_bucket c := p # L (id_bucket c)))"
      using table_add [OF t2(1) nl(1), of c "id_bucket c"] by auto
    obtain c3 where c3: "tn_store st3 p = Some c3" "strip By_id c3 = strip By_id c"
      using frame_conn [OF st3(2), of p c] by auto
    have b3: "bucket_of By_ip c3 = ip_bucket c" using arg_cong [OF c3(2), of "bucket_of By_ip"] by simp
    have M3: "table_ok By_ip st3 M" using table_frame [of By_id ?st2 M st3] t2(2) st3(2) by simp
    obtain st4 where st4: "tcp_hash_add By_ip p (ip_bucket c) st3 = Inr st4" "frame By_ip st3 st4"
      "table_ok By_ip st4 (M(ip_bucket c := p # M (ip_bucket c)))"
      using table_add [OF M3 nl(2) c3(1) b3] by auto
    have L4: "table_ok By_id st4 (L(id_bucket c := p # L (id_bucket c)))"
      using table_frame [of By_ip st3 _ st4] st3(3) st4(2) by simp
    have sb: "same_bodies ?st2 st4"
      using frame_same_bodies [OF st3(2)] frame_same_bodies [OF st4(2)] same_bodies_trans by blast
    have "refs_ok ?st2 (r(p := 1))" using assms(1) by (simp add: net_ok_def refs_ok_def c_def)
    moreover have "count_ok ?st2"
      using assms(1) p(3) room by (auto simp: net_ok_def count_ok_def domIff)
    ultimately have "refs_ok st4 (r(p := 1))" "count_ok st4"
      using same_bodies_refs [OF sb] same_bodies_count [OF sb] by blast+
    then have "net_ok st4 (r(p := 1)) (L(id_bucket c := p # L (id_bucket c)))
        (M(ip_bucket c := p # M (ip_bucket c)))"
      using L4 st4(3) assms(1) by (simp add: net_ok_def linked_add)
    moreover have "create_tcp_conn mem lock_ok ticks s ip port q st = Inr (Some p, st4)"
      using room p(1,2) st3(1) st4(1)
      by (simp add: create_tcp_conn_def Let_def c_def [symmetric])
    moreover have "ip_bucket c = tcp_hash (ip_words ip ! 0) (ucast port)" by (simp add: ip_bucket_def c_def)
    ultimately show ?thesis
      using p(1) linked_add [of L "id_bucket c" p]
      by (intro exI [of _ "Some p"] exI [of _ st4]) (auto intro!: exI
        [of "\<lambda>N. \<exists>M'. net_ok st4 (r(p := Suc 0)) N M' \<and> linked N = insert p (linked L) \<and>
           (\<exists>xs. M' (tcp_hash (ip_words ip ! 0) (ucast port)) = p # xs)"
         "L(id_bucket c := p # L (id_bucket c))"])
  qed
qed

section \<open>Searching\<close>

text \<open>What a loop over a bucket finds.\<close>

fun first_hit :: "(tcp_conn \<Rightarrow> verdict) \<Rightarrow> (nat \<Rightarrow> tcp_conn option) \<Rightarrow> nat list \<Rightarrow> nat option" where
  "first_hit f s [] = None"
| "first_hit f s (x # xs) =
     (case f (the (s x)) of Found \<Rightarrow> Some x | Give_up \<Rightarrow> None | Go_on \<Rightarrow> first_hit f s xs)"

lemma walk_dseg:
  "dseg k (tn_store st) pv start xs ls None \<Longrightarrow>
   walk k f start st = Some (Inr (first_hit f (tn_store st) xs))"
proof (induction xs arbitrary: pv start)
  case Nil then show ?case by (simp add: walk.simps)
next
  case (Cons x xs)
  then obtain c where "start = Some x" "tn_store st x = Some c"
    "dseg k (tn_store st) (Some x) (next_of k c) xs ls None" by auto
  with Cons.IH [OF this(3)] show ?case
    by (subst walk.simps) (simp add: conn_at_def split: verdict.split)
qed

lemma walk_chain: "table_ok k st L \<Longrightarrow> walk k f (head_of k st h) st = Some (Inr (first_hit f (tn_store st) (L h)))"
  using table_okD(2) [of k st L h] walk_dseg unfolding chain_def by blast

lemma first_hit_Some:
  "first_hit f s xs = Some p \<Longrightarrow> p \<in> set xs \<and> f (the (s p)) = Found"
  by (induction xs) (auto split: verdict.splits)

lemma first_hit_None:
  "first_hit f s xs = None \<Longrightarrow> (\<And>c. f c \<noteq> Give_up) \<Longrightarrow> p \<in> set xs \<Longrightarrow> f (the (s p)) \<noteq> Found"
  by (induction xs) (auto split: verdict.splits)

text \<open>
  The search ends without a fault. What it finds is linked, not terminated, and of the peer;
  it misses no connection from that address and port that is not terminated.
\<close>

lemma search_ok:
  assumes "net_ok st r L M"
  shows "\<exists>res st'. search_tcp_conn cid ip port st = Some (Inr (res, st')) \<and>
    (case res of
       None \<Rightarrow> st' = st \<and> (\<forall>p \<in> linked M. \<forall>c. tn_store st p = Some c \<longrightarrow>
         tc_state c \<noteq> TCP_CONN_TERM \<longrightarrow> \<not> (tc_src_ip c = ip \<and> tc_src_port c = port))
     | Some p \<Rightarrow> p \<in> linked L \<and> net_ok st' (r(p := r p + 1)) L M \<and>
         (\<exists>c. tn_store st p = Some c \<and> tc_state c \<noteq> TCP_CONN_TERM \<and> same_peer ip port c))"
proof -
  note ok = assms [unfolded net_ok_def]
  have live: "\<exists>c. tn_store st p = Some c \<and> 0 < r p" if "p \<in> linked L" for p
  proof -
    from linked_live [OF conjunct1 [OF ok] that] obtain c where c: "tn_store st p = Some c" ..
    have "ref_at (tn_store st p) (r p)" using ok by (simp add: refs_ok_def)
    with c show ?thesis by simp
  qed
  have ref: "\<exists>st'. ref_found (Inr (Some p)) st = Inr (Some p, st') \<and> net_ok st' (r(p := r p + 1)) L M"
    if "p \<in> linked L" for p
    using ref_ok [OF assms] live [OF that] by (force simp: ref_found_def)
  let ?h = "tcp_hash (ip_words ip ! 0) (ucast port)"
  let ?hit = "first_hit (by_ip ip port) (tn_store st) (M ?h)"
  have bw: "walk By_ip (by_ip ip port) (tn_ip_head st ?h) st = Some (Inr ?hit)"
    using walk_chain [of By_ip st M "by_ip ip port" ?h] ok by simp
  have byip: "\<exists>res st'. search_by_ip ip port st = Some (Inr (res, st')) \<and>
    (case res of
       None \<Rightarrow> st' = st \<and> (\<forall>p \<in> linked M. \<forall>c. tn_store st p = Some c \<longrightarrow>
         tc_state c \<noteq> TCP_CONN_TERM \<longrightarrow> \<not> (tc_src_ip c = ip \<and> tc_src_port c = port))
     | Some p \<Rightarrow> p \<in> linked L \<and> net_ok st' (r(p := r p + 1)) L M \<and>
         (\<exists>c. tn_store st p = Some c \<and> tc_state c \<noteq> TCP_CONN_TERM \<and> same_peer ip port c))"
  proof (cases ?hit)
    case None
    have "\<not> (tc_src_ip c = ip \<and> tc_src_port c = port)"
      if p: "p \<in> linked M" "tn_store st p = Some c" "tc_state c \<noteq> TCP_CONN_TERM" for p c
    proof
      assume peer: "tc_src_ip c = ip \<and> tc_src_port c = port"
      obtain h where h: "p \<in> set (M h)" using p(1) by (auto simp: linked_def)
      then have "bucket_of By_ip c = h" using table_okD(1) [of By_ip st M p h] ok p(2) by auto
      then have "p \<in> set (M ?h)" using h peer by (auto simp: ip_bucket_def)
      moreover have "by_ip ip port c \<noteq> Give_up" for c by (simp add: by_ip_def)
      ultimately have "by_ip ip port (the (tn_store st p)) \<noteq> Found" using first_hit_None [OF None] by blast
      then show False using p(2,3) peer by (simp add: by_ip_def same_peer_def)
    qed
    then show ?thesis using bw None by (auto simp: search_by_ip_def ref_found_def)
  next
    case (Some p)
    from first_hit_Some [OF Some] have p: "p \<in> linked M" "by_ip ip port (the (tn_store st p)) = Found"
      by (auto simp: linked_def)
    then have pl: "p \<in> linked L" using ok by simp
    obtain c where c: "tn_store st p = Some c" using live [OF pl] by blast
    from ref [OF pl] bw Some p(2) c pl show ?thesis
      by (auto simp: search_by_ip_def by_ip_def split: if_splits)
  qed
  show ?thesis
  proof (cases "cid = 0")
    case True then show ?thesis using byip by (simp add: search_tcp_conn_def)
  next
    case False
    let ?k = "tcp_hash cid 0"
    let ?g = "first_hit (by_id cid ip port) (tn_store st) (L ?k)"
    have iw: "walk By_id (by_id cid ip port) (tn_id_head st ?k) st = Some (Inr ?g)"
      using walk_chain [of By_id st L "by_id cid ip port" ?k] ok by simp
    show ?thesis
    proof (cases ?g)
      case None then show ?thesis using byip iw False by (simp add: search_tcp_conn_def)
    next
      case (Some p)
      from first_hit_Some [OF Some] have p: "p \<in> linked L" "by_id cid ip port (the (tn_store st p)) = Found"
        by (auto simp: linked_def)
      obtain c where c: "tn_store st p = Some c" using live [OF p(1)] by blast
      from ref [OF p(1)] obtain st' where st': "ref_found (Inr (Some p)) st = Inr (Some p, st')"
        "net_ok st' (r(p := r p + 1)) L M" by blast
      have "search_tcp_conn cid ip port st = Some (Inr (Some p, st'))"
        using iw Some False st'(1) by (simp add: search_tcp_conn_def)
      moreover have "tc_state c \<noteq> TCP_CONN_TERM \<and> same_peer ip port c"
        using p(2) c by (simp add: by_id_def split: if_splits)
      ultimately show ?thesis using st'(2) p(1) c by auto
    qed
  qed
qed

end
