(* ===== verification/Tcp_Props.thy ===== *)
theory Tcp_Props
  imports Tcp_Safe
begin

text \<open>
  The timer routine of the connection table, clients of the table, and what the table does
  when its protocol is not kept.
\<close>

section \<open>Expiry\<close>

definition expirable :: "u32 \<Rightarrow> tcp_conn \<Rightarrow> bool" where
  "expirable now c \<longleftrightarrow> tc_timeout c \<le> now \<and> tc_state c \<noteq> TCP_CONN_TERM"

definition expires :: "u32 \<Rightarrow> tcp_net \<Rightarrow> nat \<Rightarrow> bool" where
  "expires now st q \<longleftrightarrow> (\<exists>c. tn_store st q = Some c \<and> expirable now c)"

definition terminated :: "tcp_net \<Rightarrow> nat \<Rightarrow> bool" where
  "terminated st q \<longleftrightarrow> (\<exists>c. tn_store st q = Some c \<and> tc_state c = TCP_CONN_TERM)"

lemma views_body:
  "expires now st q \<longleftrightarrow> (case map_option body (tn_store st q) of None \<Rightarrow> False | Some c \<Rightarrow> expirable now c)"
  "terminated st q \<longleftrightarrow>
     (case map_option body (tn_store st q) of None \<Rightarrow> False | Some c \<Rightarrow> tc_state c = TCP_CONN_TERM)"
  by (cases "tn_store st q"; simp add: expires_def terminated_def expirable_def)+

text \<open>The scan only clears the timeouts of terminated connections on its way.\<close>

definition quiet :: "tcp_net \<Rightarrow> tcp_net \<Rightarrow> bool" where
  "quiet st st1 \<longleftrightarrow> rest st1 = rest st \<and> (\<forall>k. head_of k st1 = head_of k st) \<and>
     (\<forall>q. tn_store st1 q = tn_store st q \<or>
        (\<exists>c. tn_store st q = Some c \<and> tc_state c = TCP_CONN_TERM \<and>
           tn_store st1 q = Some (c\<lparr>tc_timeout := 0\<rparr>)))"

lemma quiet_refl: "quiet st st"
  by (simp add: quiet_def)

lemma quiet_step:
  assumes "tn_store st x = Some c" "tc_state c = TCP_CONN_TERM"
    "quiet (st\<lparr>tn_store := (tn_store st)(x := Some (c\<lparr>tc_timeout := 0\<rparr>))\<rparr>) st1"
  shows "quiet st st1"
proof -
  have "tn_store st1 q = tn_store st q \<or> (\<exists>d. tn_store st q = Some d \<and> tc_state d = TCP_CONN_TERM \<and>
      tn_store st1 q = Some (d\<lparr>tc_timeout := 0\<rparr>))" for q
    using assms unfolding quiet_def by (cases "q = x") (auto dest!: spec [of _ q])
  with assms(3) show ?thesis by (simp add: quiet_def)
qed

lemma quiet_views:
  assumes "quiet st st1"
  shows "expires now st1 q = expires now st q" "terminated st1 q = terminated st q"
    "map_option (\<lambda>c. (prev_of k c, next_of k c, bucket_of k c, tc_ref c)) (tn_store st1 q) =
     map_option (\<lambda>c. (prev_of k c, next_of k c, bucket_of k c, tc_ref c)) (tn_store st q)"
  using assms unfolding quiet_def expires_def terminated_def expirable_def
  by (cases "tn_store st q"; force dest!: spec [of _ q])+

lemma view_table:
  assumes "map_option (\<lambda>c. (prev_of k c, next_of k c, bucket_of k c, tc_ref c)) a =
     map_option (\<lambda>c. (prev_of k c, next_of k c, bucket_of k c, tc_ref c)) b"
  shows "map_option (\<lambda>c. (prev_of k c, next_of k c, bucket_of k c)) a =
     map_option (\<lambda>c. (prev_of k c, next_of k c, bucket_of k c)) b"
    "(a = None) = (b = None)" "ref_at a n = ref_at b n"
  using assms by (cases a; cases b; simp)+

lemma quiet_net_ok:
  assumes "quiet st st1" "net_ok st r L M"
  shows "net_ok st1 r L M"
proof -
  have "table_ok k st1 N" if "table_ok k st N" for k N
    using table_cong [OF that] quiet_views(3) [OF assms(1)] view_table(1) assms(1)
    unfolding table_view_def quiet_def by blast
  moreover have "refs_ok st1 r"
    using view_table(3) [OF quiet_views(3) [OF assms(1)]] assms(2) by (simp add: net_ok_def refs_ok_def)
  moreover have "dom (tn_store st1) = dom (tn_store st)"
    using view_table(2) [OF quiet_views(3) [OF assms(1)]] by (auto simp: dom_def)
  ultimately show ?thesis
    using assms rest_sel [of st1 st] by (simp add: net_ok_def count_ok_def quiet_def)
qed

text \<open>The connection that expires: what \<open>set_conn_state\<close> and the extra reference make of it.\<close>

definition expired_conn :: "tcp_conn \<Rightarrow> tcp_conn" where
  "expired_conn c = c\<lparr>tc_timeout := 0, tc_state := TCP_CONN_TERM, tc_ref := tc_ref c + 1\<rparr>"

lemma expire_scan_dseg:
  "dseg By_id (tn_store st) pv start xs ls None \<Longrightarrow> distinct xs \<Longrightarrow>
   (case find (expires now st) xs of
      None \<Rightarrow> \<exists>st1. expire_scan now start st = Some (Inr (None, st1)) \<and> quiet st st1
    | Some p \<Rightarrow> \<exists>st1 c ctxs. tn_store st p = Some c \<and> quiet st st1 \<and> tn_store st1 p = Some c \<and>
        expire_scan now start st = Some (Inr (Some p,
          st1\<lparr>tn_store := (tn_store st1)(p := Some (expired_conn c)),
              tn_resumed := tn_resumed st1 @ map (Pair (tc_socket c)) ctxs\<rparr>)))"
proof (induction xs arbitrary: pv start st)
  case Nil then show ?case by (simp add: expire_scan.simps quiet_refl)
next
  case (Cons x xs)
  then obtain c where c: "start = Some x" "tn_store st x = Some c"
    "dseg By_id (tn_store st) (Some x) (tc_id_next c) xs ls None" by auto
  have sc: "expire_scan now start st =
      (if tc_timeout c \<le> now then
         (case set_conn_state (c\<lparr>tc_timeout := 0\<rparr>) TCP_CONN_TERM of
            (ret, lk, c', ctxs) \<Rightarrow>
              if ret \<noteq> -1
              then Some (Inr (Some x,
                     st\<lparr>tn_store := (tn_store st)(x := Some (c'\<lparr>tc_ref := tc_ref c' + 1\<rparr>)),
                        tn_resumed := tn_resumed st @ map (Pair (tc_socket c')) ctxs\<rparr>))
              else expire_scan now (tc_id_next c) (st\<lparr>tn_store := (tn_store st)(x := Some c')\<rparr>))
       else expire_scan now (tc_id_next c) st)"
    by (subst expire_scan.simps) (simp add: c conn_at_def)
  consider (late) "\<not> tc_timeout c \<le> now" | (dead) "tc_timeout c \<le> now" "tc_state c = TCP_CONN_TERM"
    | (live) "expirable now c" by (auto simp: expirable_def)
  then show ?case
  proof cases
    case late
    then have "\<not> expires now st x" by (simp add: expires_def c(2) expirable_def)
    then have "find (expires now st) (x # xs) = find (expires now st) xs" by simp
    moreover have "expire_scan now start st = expire_scan now (tc_id_next c) st" using late sc by simp
    moreover have "distinct xs" using Cons.prems(2) by simp
    ultimately show ?thesis using Cons.IH [OF c(3)] by (simp only:)
  next
    case live
    have "\<exists>ctxs. set_conn_state (c\<lparr>tc_timeout := 0\<rparr>) TCP_CONN_TERM =
        (0, False, c\<lparr>tc_timeout := 0, tc_state := TCP_CONN_TERM\<rparr>, ctxs)"
      using live by (cases "tc_state c") (auto simp: set_conn_state_def expirable_def)
    then obtain ctxs where "set_conn_state (c\<lparr>tc_timeout := 0\<rparr>) TCP_CONN_TERM =
        (0, False, c\<lparr>tc_timeout := 0, tc_state := TCP_CONN_TERM\<rparr>, ctxs)" ..
    then have "expire_scan now start st = Some (Inr (Some x,
        st\<lparr>tn_store := (tn_store st)(x := Some (expired_conn c)),
          tn_resumed := tn_resumed st @ map (Pair (tc_socket c)) ctxs\<rparr>))"
      using live by (simp add: sc expirable_def expired_conn_def)
    moreover have "find (expires now st) (x # xs) = Some x" using live c(2) by (simp add: expires_def)
    ultimately show ?thesis using c(2) quiet_refl [of st] by auto
  next
    case dead
    let ?st = "st\<lparr>tn_store := (tn_store st)(x := Some (c\<lparr>tc_timeout := 0\<rparr>))\<rparr>"
    have s: "expire_scan now start st = expire_scan now (tc_id_next c) ?st"
      using dead by (simp add: sc set_conn_state_def)
    have x: "x \<notin> set xs" "distinct xs" using Cons.prems(2) by auto
    have d: "dseg By_id (tn_store ?st) (Some x) (tc_id_next c) xs ls None"
      using c(3) by (subst dseg_cong [of xs _ _ "tn_store st"]) (use x in \<open>auto simp: links_at_def\<close>)
    have f: "find (expires now ?st) xs = find (expires now st) (x # xs)"
    proof -
      have "\<not> expires now st x" using dead c(2) by (simp add: expires_def expirable_def)
      moreover have "find (expires now ?st) xs = find (expires now st) xs"
        by (rule find_cong [OF refl]) (use x in \<open>auto simp: expires_def\<close>)
      ultimately show ?thesis by simp
    qed
    have q: "quiet ?st st1 \<Longrightarrow> quiet st st1" for st1 by (rule quiet_step [OF c(2) dead(2)])
    from Cons.IH [OF d x(2)] show ?thesis
    proof (cases "find (expires now st) (x # xs)")
      case None with Cons.IH [OF d x(2)] q show ?thesis by (auto simp: f s)
    next
      case (Some p)
      then have "p \<in> set xs" using f by (metis find_Some_iff nth_mem)
      then have "p \<noteq> x" using x(1) by auto
      with Cons.IH [OF d x(2)] q Some show ?thesis by (auto simp: f s)
    qed
  qed
qed

text \<open>One termination: the connection leaves the tables, with its references as before.\<close>

lemma expire_one:
  assumes "net_ok st1 r L M" "p \<in> linked L" "tn_store st1 p = Some c"
    "st2 = st1\<lparr>tn_store := (tn_store st1)(p := Some (expired_conn c)), tn_resumed := rs\<rparr>"
  shows "\<exists>st3 L' M'. remove_tcp_conn p 1 (st2\<lparr>tn_fired := fs\<rparr>) = Inr st3 \<and> net_ok st3 r L' M' \<and>
    linked L' = linked L - {p} \<and> (\<forall>h. L' h = (if p \<in> set (L h) then remove1 p (L h) else L h)) \<and>
    (\<forall>q. expires now st3 q \<longleftrightarrow> expires now st1 q \<and> q \<noteq> p) \<and>
    (\<forall>q. terminated st3 q \<longleftrightarrow> terminated st1 q \<or> q = p)"
proof -
  let ?c = "expired_conn c" and ?st = "st2\<lparr>tn_fired := fs\<rparr>"
  let ?u = "st1\<lparr>tn_store := (tn_store st1)(p := Some ?c)\<rparr>"
  have ra: "ref_at (tn_store st1 p) (r p)" using assms(1) by (simp add: net_ok_def refs_ok_def)
  then have r: "0 < r p" "tc_ref ?c = int (r p + 1)" using assms(3) by (simp_all add: expired_conn_def)
  have "table_ok By_id ?u L" "table_ok By_ip ?u M"
    using assms(1) by (simp_all add: net_ok_def table_upd [OF _ assms(3)] expired_conn_def)
  then have t: "table_ok By_id ?st L" "table_ok By_ip ?st M"
    using table_other_fields [of ?st ?u] assms(4) by simp_all
  have "refs_ok ?u (r(p := r p + 1))"
    using assms(1) r by (intro refs_upd) (simp_all add: net_ok_def)
  then have "net_ok ?st (r(p := r p + 1)) L M"
    using t assms(1,4) dom_upd_live [OF assms(3)] by (simp add: net_ok_def refs_ok_def count_ok_def)
  from remove_ok [OF this assms(2), of 1] r(1) obtain st3 L' M' where
    st3: "remove_tcp_conn p 1 ?st = Inr st3" "net_ok st3 r L' M'" "linked L' = linked L - {p}"
    "\<And>h. L' h = (if p \<in> set (L h) then remove1 p (L h) else L h)"
    "\<And>q. q \<noteq> p \<Longrightarrow> map_option body (tn_store st3 q) = map_option body (tn_store ?st q)"
    "map_option (\<lambda>c. (body c)\<lparr>tc_ref := 0\<rparr>) (tn_store st3 p) =
       map_option (\<lambda>c. (body c)\<lparr>tc_ref := 0\<rparr>) (tn_store ?st p)"
    by auto
  have sp: "tn_store ?st p = Some ?c" "q \<noteq> p \<Longrightarrow> tn_store ?st q = tn_store st1 q" for q
    using assms(4) by simp_all
  obtain c3 where c3: "tn_store st3 p = Some c3" "(body c3)\<lparr>tc_ref := 0\<rparr> = (body ?c)\<lparr>tc_ref := 0\<rparr>"
    using st3(6) sp(1) by (cases "tn_store st3 p") auto
  have st: "tc_state c3 = TCP_CONN_TERM"
    using arg_cong [OF c3(2), of tc_state] by (simp add: expired_conn_def)
  have q: "expires now st3 q = expires now st1 q" "terminated st3 q = terminated st1 q" if "q \<noteq> p" for q
  proof -
    have b: "map_option body (tn_store st3 q) = map_option body (tn_store st1 q)"
      using st3(5) [OF that] sp(2) [OF that] by simp
    then show "expires now st3 q = expires now st1 q" "terminated st3 q = terminated st1 q"
      by (simp_all add: views_body)
  qed
  have "expires now st3 x \<longleftrightarrow> expires now st1 x \<and> x \<noteq> p" "terminated st3 x \<longleftrightarrow> terminated st1 x \<or> x = p" for x
    using q c3(1) st by (cases "x = p"; simp add: expires_def terminated_def expirable_def)+
  with st3(1-4) show ?thesis by (intro exI [of _ st3] exI [of _ L'] exI [of _ M']) simp
qed

lemma expire_bucket_ok:
  "net_ok st r L M \<Longrightarrow> n = length (filter (expires now st) (L h)) \<Longrightarrow>
   \<exists>st' L' M'. expire_bucket now h st = Some (Inr st') \<and> net_ok st' r L' M' \<and>
     linked L' = linked L - {q \<in> set (L h). expires now st q} \<and>
     (\<forall>g. g \<noteq> h \<longrightarrow> L' g = L g) \<and>
     (\<forall>q. expires now st' q \<longleftrightarrow> expires now st q \<and> q \<notin> set (L h)) \<and>
     (\<forall>q. terminated st' q \<longleftrightarrow> terminated st q \<or> (q \<in> set (L h) \<and> expires now st q))"
proof (induction n arbitrary: st L M rule: less_induct)
  case (less n)
  have tb: "table_ok By_id st L" using less.prems(1) by (simp add: net_ok_def)
  obtain ls where d: "dseg By_id (tn_store st) None (tn_id_head st h) (L h) ls None"
    using table_okD(2) [OF tb, of h] by (auto simp: chain_def)
  note scan = expire_scan_dseg [OF d table_okD(3) [OF tb], of now]
  show ?case
  proof (cases "find (expires now st) (L h)")
    case None
    with scan obtain st1 where st1: "expire_scan now (tn_id_head st h) st = Some (Inr (None, st1))"
      "quiet st st1" by auto
    have none: "q \<in> set (L h) \<Longrightarrow> \<not> expires now st q" for q using None by (auto simp: find_None_iff)
    have "expire_bucket now h st = Some (Inr st1)"
      by (subst expire_bucket.simps) (simp add: st1(1))
    with quiet_net_ok [OF st1(2) less.prems(1)] quiet_views [OF st1(2)] none show ?thesis
      by (intro exI [of _ st1] exI [of _ L] exI [of _ M]) auto
  next
    case (Some p)
    have p: "p \<in> set (L h)" "expires now st p"
      using Some by (auto simp: find_Some_iff)
    from scan Some obtain st1 c ctxs where st1: "quiet st st1" "tn_store st1 p = Some c"
      "expire_scan now (tn_id_head st h) st = Some (Inr (Some p,
         st1\<lparr>tn_store := (tn_store st1)(p := Some (expired_conn c)),
             tn_resumed := tn_resumed st1 @ map (Pair (tc_socket c)) ctxs\<rparr>))" by auto
    define st2 where "st2 = st1\<lparr>tn_store := (tn_store st1)(p := Some (expired_conn c)),
      tn_resumed := tn_resumed st1 @ map (Pair (tc_socket c)) ctxs\<rparr>"
    have pl: "p \<in> linked L" using p(1) by (auto simp: linked_def)
    let ?fs = "tn_fired st2 @ [tc_socket c, tc_socket c]"
    from expire_one [OF quiet_net_ok [OF st1(1) less.prems(1)] pl st1(2) st2_def, of ?fs now]
    obtain st3 L3 M3 where a: "remove_tcp_conn p 1 (st2\<lparr>tn_fired := ?fs\<rparr>) = Inr st3" "net_ok st3 r L3 M3"
      "linked L3 = linked L - {p}" "\<forall>g. L3 g = (if p \<in> set (L g) then remove1 p (L g) else L g)"
      "\<forall>q. expires now st3 q \<longleftrightarrow> expires now st1 q \<and> q \<noteq> p"
      "\<forall>q. terminated st3 q \<longleftrightarrow> terminated st1 q \<or> q = p"
      by (elim exE conjE) (rule that)
    note st3 = a(1-3) a(4-6) [rule_format]
    have ex: "expires now st3 q \<longleftrightarrow> expires now st q \<and> q \<noteq> p" "terminated st3 q \<longleftrightarrow> terminated st q \<or> q = p" for q
      using st3(5,6) quiet_views [OF st1(1)] by auto
    have L3: "L3 h = remove1 p (L h)" by (simp add: st3(4) p(1))
    have Lg: "L3 g = L g" if "g \<noteq> h" for g
    proof -
      have "p \<notin> set (L g)" using table_unique [OF tb p(1), of g] that by blast
      then show ?thesis by (simp add: st3(4))
    qed
    have s3: "set (L3 h) = set (L h) - {p}" using L3 table_okD(3) [OF tb, of h] by simp
    have "filter (expires now st3) (L3 h) = remove1 p (filter (expires now st) (L h))"
      using table_okD(3) [OF tb, of h]
      by (simp add: L3 ex(1) distinct_remove1_removeAll removeAll_filter_not_eq)
        (rule filter_cong, auto)
    moreover have "p \<in> set (filter (expires now st) (L h))" using p by simp
    ultimately have "length (filter (expires now st3) (L3 h)) < n"
      using less.prems(2) length_pos_if_in_set [of p "filter (expires now st) (L h)"]
      by (simp only: length_remove1) simp
    from less.IH [OF this st3(2) refl] obtain st' L' M' where
      st': "expire_bucket now h st3 = Some (Inr st')" "net_ok st' r L' M'"
      "linked L' = linked L3 - {q \<in> set (L3 h). expires now st3 q}" "\<And>g. g \<noteq> h \<Longrightarrow> L' g = L3 g"
      "\<And>q. expires now st' q \<longleftrightarrow> expires now st3 q \<and> q \<notin> set (L3 h)"
      "\<And>q. terminated st' q \<longleftrightarrow> terminated st3 q \<or> (q \<in> set (L3 h) \<and> expires now st3 q)" by blast
    have "expire_bucket now h st = expire_bucket now h st3"
    proof -
      have "conn_at st2 p = Inr (expired_conn c)" by (simp add: conn_at_def st2_def)
      moreover have "tc_socket (expired_conn c) = tc_socket c" by (simp add: expired_conn_def)
      ultimately show ?thesis
        using st3(1) by (subst expire_bucket.simps) (simp add: st1(3) [folded st2_def])
    qed
    moreover have "linked L' = linked L - {q \<in> set (L h). expires now st q}"
      unfolding st'(3) st3(3) s3 ex using p by blast
    moreover have "expires now st' q \<longleftrightarrow> expires now st q \<and> q \<notin> set (L h)" for q
      unfolding st'(5) ex s3 using p by blast
    moreover have "terminated st' q \<longleftrightarrow> terminated st q \<or> (q \<in> set (L h) \<and> expires now st q)" for q
      unfolding st'(6) ex s3 using p by blast
    ultimately show ?thesis using st'(1,2,4) Lg by (intro exI [of _ st'] exI [of _ L'] exI [of _ M']) simp
  qed
qed

lemma expire_buckets_ok:
  "net_ok st r L M \<Longrightarrow> distinct hs \<Longrightarrow>
   \<exists>st' L' M'. expire_buckets now hs st = Some (Inr st') \<and> net_ok st' r L' M' \<and>
     linked L' = linked L - {q. \<exists>h \<in> set hs. q \<in> set (L h) \<and> expires now st q} \<and>
     (\<forall>q. terminated st' q \<longleftrightarrow>
        terminated st q \<or> (\<exists>h \<in> set hs. q \<in> set (L h) \<and> expires now st q))"
proof (induction hs arbitrary: st L M)
  case Nil then show ?case by auto
next
  case (Cons h hs)
  have tb: "table_ok By_id st L" using Cons.prems(1) by (simp add: net_ok_def)
  from expire_bucket_ok [OF Cons.prems(1) refl, of now h] obtain st1 L1 M1 where
    st1: "expire_bucket now h st = Some (Inr st1)" "net_ok st1 r L1 M1"
    "linked L1 = linked L - {q \<in> set (L h). expires now st q}" "\<And>g. g \<noteq> h \<Longrightarrow> L1 g = L g"
    "\<And>q. expires now st1 q \<longleftrightarrow> expires now st q \<and> q \<notin> set (L h)"
    "\<And>q. terminated st1 q \<longleftrightarrow> terminated st q \<or> (q \<in> set (L h) \<and> expires now st q)" by blast
  have "distinct hs" using Cons.prems(2) by simp
  from Cons.IH [OF st1(2) this] obtain st' L' M' where
    st': "expire_buckets now hs st1 = Some (Inr st')" "net_ok st' r L' M'"
    "linked L' = linked L1 - {q. \<exists>h \<in> set hs. q \<in> set (L1 h) \<and> expires now st1 q}"
    "\<And>q. terminated st' q \<longleftrightarrow> terminated st1 q \<or> (\<exists>h \<in> set hs. q \<in> set (L1 h) \<and> expires now st1 q)"
    by blast
  have e: "(\<exists>g \<in> set hs. q \<in> set (L1 g) \<and> expires now st1 q) \<longleftrightarrow>
      (\<exists>g \<in> set hs. q \<in> set (L g) \<and> expires now st q)" for q
  proof -
    have "L1 g = L g \<and> q \<notin> set (L h)" if "g \<in> set hs" "q \<in> set (L g)" for g
      using that Cons.prems(2) st1(4) [of g] table_unique [OF tb, of q g h] by auto
    moreover have "L1 g = L g" if "g \<in> set hs" for g
      using that Cons.prems(2) st1(4) [of g] by auto
    ultimately show ?thesis using st1(5) by auto
  qed
  have "expire_buckets now (h # hs) st = Some (Inr st')" using st1(1) st'(1) by simp
  moreover have "linked L' = linked L - {q. \<exists>g \<in> set (h # hs). q \<in> set (L g) \<and> expires now st q}"
    unfolding st'(3) e st1(3) by auto
  moreover have "terminated st' q \<longleftrightarrow>
      terminated st q \<or> (\<exists>g \<in> set (h # hs). q \<in> set (L g) \<and> expires now st q)" for q
    unfolding st'(4) e st1(6) by auto
  ultimately show ?case using st'(2) by blast
qed

lemma bucket_small: "bucket_of k c < TCP_HASH_SIZE"
  by (cases k) (simp_all add: id_bucket_def ip_bucket_def tcp_hash_def TCP_HASH_SIZE_def)

lemma timer_ok:
  assumes "net_ok st r L M"
  shows "\<exists>st' L' M'. tcp_timer_routine now st = Some (Inr st') \<and> net_ok st' r L' M' \<and>
    linked L' = {q \<in> linked L. \<not> expires now st q} \<and>
    (\<forall>q. terminated st' q \<longleftrightarrow> terminated st q \<or> (q \<in> linked L \<and> expires now st q))"
proof -
  have tb: "table_ok By_id st L" using assms by (simp add: net_ok_def)
  have lk: "(\<exists>h \<in> set [0..<TCP_HASH_SIZE]. q \<in> set (L h)) \<longleftrightarrow> q \<in> linked L" for q
  proof
    assume "q \<in> linked L"
    then obtain h where h: "q \<in> set (L h)" by (auto simp: linked_def)
    then have "h < TCP_HASH_SIZE" using table_okD(1) [OF tb h] bucket_small [of By_id] by auto
    with h show "\<exists>h \<in> set [0..<TCP_HASH_SIZE]. q \<in> set (L h)" by auto
  qed (auto simp: linked_def)
  from expire_buckets_ok [OF assms distinct_upt, of now 0 TCP_HASH_SIZE] obtain st' L' M' where
    "expire_buckets now [0..<TCP_HASH_SIZE] st = Some (Inr st')" "net_ok st' r L' M'"
    "linked L' = linked L - {q. \<exists>h \<in> set [0..<TCP_HASH_SIZE]. q \<in> set (L h) \<and> expires now st q}"
    "\<And>q. terminated st' q \<longleftrightarrow>
       terminated st q \<or> (\<exists>h \<in> set [0..<TCP_HASH_SIZE]. q \<in> set (L h) \<and> expires now st q)" by blast
  then show ?thesis
    unfolding tcp_timer_routine_def using lk
    by (intro exI [of _ st'] exI [of _ L'] exI [of _ M']) auto
qed

end
