(* ===== verification/Tcp_Clients.thy ===== *)
theory Tcp_Clients
  imports Tcp_Props
begin

text \<open>
  Threads that use the connection table: every sequence of operations that keeps to the
  reference protocol is free of faults; what the timer and the search do in such a run; and
  what happens when the protocol is not kept.
\<close>

section \<open>Runs\<close>

datatype tcp_op =
    Create "nat option" bool u32 int ip_addr u16 conn_state
  | Search u32 ip_addr u16
  | Ref nat
  | Unref nat
  | Remove nat nat
  | Tick u32

fun exec_op :: "tcp_op \<Rightarrow> tcp_net \<Rightarrow> (fault + nat option \<times> tcp_net) option" where
  "exec_op (Create mem lock_ok ticks s ip port q) st = Some (create_tcp_conn mem lock_ok ticks s ip port q st)"
| "exec_op (Search cid ip port) st = search_tcp_conn cid ip port st"
| "exec_op (Ref p) st = Some (ebind (ref_tcp_conn p st) (\<lambda>st'. Inr (None, st')))"
| "exec_op (Unref p) st = Some (ebind (unref_tcp_conn p st) (\<lambda>st'. Inr (None, st')))"
| "exec_op (Remove p e) st = Some (ebind (remove_tcp_conn p (int e) st) (\<lambda>st'. Inr (None, st')))"
| "exec_op (Tick now) st =
     map_option (\<lambda>r. ebind r (\<lambda>st'. Inr (None, st'))) (tcp_timer_routine now st)"

text \<open>
  \<open>r p\<close> counts the references that threads own, \<open>lk\<close> is the set of linked connections. The
  protocol: references are only duplicated and dropped by who owns one, the last one only when
  the connection is unlinked, and a connection is removed once, while it is linked.
\<close>

fun allowed :: "tcp_net \<Rightarrow> (nat \<Rightarrow> nat) \<Rightarrow> nat set \<Rightarrow> tcp_op \<Rightarrow> bool" where
  "allowed st r lk (Create mem lock_ok ticks s ip port q) \<longleftrightarrow>
     (case mem of None \<Rightarrow> True | Some p \<Rightarrow> tn_store st p = None)"
| "allowed st r lk (Search cid ip port) \<longleftrightarrow> True"
| "allowed st r lk (Ref p) \<longleftrightarrow> 0 < r p"
| "allowed st r lk (Unref p) \<longleftrightarrow> 1 < r p \<or> (r p = 1 \<and> p \<notin> lk)"
| "allowed st r lk (Remove p e) \<longleftrightarrow> p \<in> lk \<and> e \<le> r p"
| "allowed st r lk (Tick now) \<longleftrightarrow> True"

fun owners :: "tcp_op \<Rightarrow> nat option \<Rightarrow> (nat \<Rightarrow> nat) \<Rightarrow> nat \<Rightarrow> nat" where
  "owners (Create mem lock_ok ticks s ip port q) res r =
     (case res of None \<Rightarrow> r | Some p \<Rightarrow> r(p := 1))"
| "owners (Search cid ip port) res r = (case res of None \<Rightarrow> r | Some p \<Rightarrow> r(p := r p + 1))"
| "owners (Ref p) res r = r(p := r p + 1)"
| "owners (Unref p) res r = r(p := r p - 1)"
| "owners (Remove p e) res r = r(p := r p - e)"
| "owners (Tick now) res r = r"

fun links_after :: "tcp_op \<Rightarrow> nat option \<Rightarrow> tcp_net \<Rightarrow> nat set \<Rightarrow> nat set" where
  "links_after (Create mem lock_ok ticks s ip port q) res st lk =
     (case res of None \<Rightarrow> lk | Some p \<Rightarrow> insert p lk)"
| "links_after (Remove p e) res st lk = lk - {p}"
| "links_after (Tick now) res st lk = {q \<in> lk. \<not> expires now st q}"
| "links_after _ res st lk = lk"

inductive clients :: "tcp_net \<Rightarrow> (nat \<Rightarrow> nat) \<Rightarrow> nat set \<Rightarrow> bool" where
  start: "0 \<le> max_conns \<Longrightarrow> init_tcp_conns True True True rand (tcp_zero max_conns lifetime) = (0, st) \<Longrightarrow>
     clients st (\<lambda>_. 0) {}"
| step: "clients st r lk \<Longrightarrow> allowed st r lk op \<Longrightarrow> exec_op op st = Some (Inr (res, st')) \<Longrightarrow>
     clients st' (owners op res r) (links_after op res st lk)"

definition good_net :: "tcp_net \<Rightarrow> (nat \<Rightarrow> nat) \<Rightarrow> nat set \<Rightarrow> bool" where
  "good_net st r lk \<longleftrightarrow> (\<exists>L M. net_ok st r L M \<and> linked L = lk)"

lemma good_netI: "net_ok st r L M \<Longrightarrow> linked L = lk \<Longrightarrow> good_net st r lk"
  by (auto simp: good_net_def)

lemma zero_good: "0 \<le> m \<Longrightarrow> good_net ((tcp_zero m l)\<lparr>tn_last_id := i\<rparr>) (\<lambda>_. 0) {}"
  by (rule good_netI [of _ _ "\<lambda>_. []" "\<lambda>_. []"])
    (simp_all add: net_ok_def table_ok_def chain_def linked_def refs_ok_def count_ok_def tcp_zero_def)

lemma op_good:
  assumes "good_net st r lk" "allowed st r lk op"
  shows "\<exists>res st'. exec_op op st = Some (Inr (res, st')) \<and>
    good_net st' (owners op res r) (links_after op res st lk)"
proof -
  obtain L M where ok: "net_ok st r L M" "linked L = lk" using assms(1) by (auto simp: good_net_def)
  show ?thesis
  proof (cases op)
    case (Create mem lock_ok ticks s ip port q)
    have "tn_store st p = None" if "mem = Some p" for p using assms(2) that Create by simp
    from create_ok [OF ok(1) this] obtain res st' where
      c: "create_tcp_conn mem lock_ok ticks s ip port q st = Inr (res, st')" 
      "case res of None \<Rightarrow> net_ok st' r L M
       | Some p \<Rightarrow> mem = Some p \<and> (\<exists>L' M'. net_ok st' (r(p := 1)) L' M' \<and> linked L' = insert p (linked L) \<and>
           (\<exists>xs. M' (tcp_hash (ip_words ip ! 0) (ucast port)) = p # xs))" by blast
    then have "good_net st' (owners op res r) (links_after op res st lk)"
      unfolding Create ok(2) [symmetric] by (cases res) (auto intro: good_netI)
    with c(1) Create show ?thesis by simp
  next
    case (Search cid ip port)
    from search_ok [OF ok(1), of cid ip port] obtain res st' where
      c: "search_tcp_conn cid ip port st = Some (Inr (res, st'))"
      "case res of None \<Rightarrow> st' = st \<and> (\<forall>p \<in> linked M. \<forall>c. tn_store st p = Some c \<longrightarrow>
           tc_state c \<noteq> TCP_CONN_TERM \<longrightarrow> \<not> (tc_src_ip c = ip \<and> tc_src_port c = port))
       | Some p \<Rightarrow> p \<in> linked L \<and> net_ok st' (r(p := r p + 1)) L M \<and>
           (\<exists>c. tn_store st p = Some c \<and> tc_state c \<noteq> TCP_CONN_TERM \<and> same_peer ip port c)" by blast
    then have "good_net st' (owners op res r) (links_after op res st lk)"
      unfolding Search ok(2) [symmetric] using ok(1) by (cases res) (auto intro: good_netI [OF _ refl])
    with c(1) Search show ?thesis by simp
  next
    case (Ref p)
    with ref_ok [OF ok(1), of p] assms(2) ok(2) show ?thesis by (auto intro: good_netI)
  next
    case (Unref p)
    then have "0 < r p" "r p = 1 \<longrightarrow> p \<notin> linked L" using assms(2) ok(2) by auto
    from unref_ok [OF ok(1) this] ok(2) Unref show ?thesis by (auto intro: good_netI)
  next
    case (Remove p e)
    then have "p \<in> linked L" "e \<le> r p" using assms(2) ok(2) by auto
    from remove_ok [OF ok(1) this] obtain st' L' M' where
      "remove_tcp_conn p (int e) st = Inr st'" "net_ok st' (r(p := r p - e)) L' M'"
      "linked L' = linked L - {p}" by (elim exE conjE) (rule that)
    with Remove ok(2) show ?thesis by (auto intro: good_netI)
  next
    case (Tick now)
    from timer_ok [OF ok(1), of now] obtain st' L' M' where
      "tcp_timer_routine now st = Some (Inr st')" "net_ok st' r L' M'"
      "linked L' = {q \<in> linked L. \<not> expires now st q}" by (elim exE conjE) (rule that)
    with Tick ok(2) show ?thesis by (auto intro: good_netI)
  qed
qed

lemma clients_good: "clients st r lk \<Longrightarrow> good_net st r lk"
proof (induction rule: clients.induct)
  case (start m i l st) then show ?case by (auto simp: init_tcp_conns_def zero_good)
next
  case (step st r lk op res st')
  from op_good [OF step.IH step.hyps(2)] step.hyps(3) show ?case by auto
qed

lemma good_net_live:
  assumes "good_net st r lk"
  shows "(tn_store st p \<noteq> None) = (0 < r p)" "p \<in> lk \<Longrightarrow> 0 < r p" "finite (dom (tn_store st))"
    "int (card (dom (tn_store st))) \<le> tn_connections_no st" "tn_connections_no st \<le> tn_max_connections st"
proof -
  obtain L M where ok: "net_ok st r L M" "linked L = lk" using assms by (auto simp: good_net_def)
  have "ref_at (tn_store st p) (r p)" using ok(1) by (simp add: net_ok_def refs_ok_def)
  then show l: "(tn_store st p \<noteq> None) = (0 < r p)" by (cases "tn_store st p") auto
  show "0 < r p" if "p \<in> lk"
    using linked_live [of By_id st L p] that ok l by (auto simp: net_ok_def)
qed (use assms in \<open>auto simp: good_net_def net_ok_def count_ok_def\<close>)


section \<open>Properties\<close>


definition sample_ip :: ip_addr where
  "sample_ip = \<lparr>ip_af = 2, ip_words = [0x0A000001, 0, 0, 0]\<rparr>"

definition sample_net :: tcp_net where
  "sample_net = (tcp_zero 2 10)\<lparr>tn_last_id := 77\<rparr>"

definition sample_create :: tcp_op where
  "sample_create = Create (Some 7) True 100 3 sample_ip 5060 TCP_CONN_READY"

lemma sample_clients: "clients sample_net (\<lambda>_. 0) {}"
  by (rule clients.start [of 2 77 10]) (simp_all add: init_tcp_conns_def sample_net_def)

definition sample_conn :: tcp_conn where
  "sample_conn = \<lparr>tc_id = 77, tc_state = TCP_CONN_READY, tc_timeout = 110, tc_ref = 1, tc_socket = 3,
     tc_src_ip = sample_ip, tc_src_port = 5060, tc_port_alias = 0, tc_writes = [], tc_id_next = None,
     tc_id_prev = None, tc_ip_next = None, tc_ip_prev = None\<rparr>"

lemma sample_created: "\<exists>st'. exec_op sample_create sample_net = Some (Inr (Some 7, st')) \<and>
    tn_store st' = (\<lambda>_. None)(7 := Some sample_conn)"
  by (auto simp: sample_create_def sample_net_def tcp_zero_def create_tcp_conn_def Let_def tcp_hash_add_def
      upd_conn_def conn_at_def sample_conn_def)

lemma sample_clients2: "\<exists>st'. clients st' ((\<lambda>_. 0)(7 := 1)) {7} \<and> tn_store st' = (\<lambda>_. None)(7 := Some sample_conn)"
proof -
  obtain st' where s: "exec_op sample_create sample_net = Some (Inr (Some 7, st'))"
    "tn_store st' = (\<lambda>_. None)(7 := Some sample_conn)" using sample_created by blast
  have a: "allowed sample_net (\<lambda>_. 0) {} sample_create"
    by (simp add: sample_create_def sample_net_def tcp_zero_def)
  from clients.step [OF sample_clients a s(1)] s(2) show ?thesis
    by (auto simp: sample_create_def)
qed




text \<open>
  C20: the search for a connection always ends; what it finds is linked, not terminated, belongs
  to the peer and is owned once more; it finds nothing only when no connection from that address
  and source port is left that is not terminated. That holds for every connection id.
\<close>

theorem search_finds:
  assumes "clients st r lk"
  shows "\<exists>res st'. search_tcp_conn cid ip port st = Some (Inr (res, st')) \<and>
    (case res of
       None \<Rightarrow> st' = st \<and> (\<forall>p \<in> lk. \<forall>c. tn_store st p = Some c \<longrightarrow> tc_state c \<noteq> TCP_CONN_TERM \<longrightarrow>
         \<not> (tc_src_ip c = ip \<and> tc_src_port c = port))
     | Some p \<Rightarrow> p \<in> lk \<and> clients st' (r(p := r p + 1)) lk \<and>
         (\<exists>c. tn_store st p = Some c \<and> tc_state c \<noteq> TCP_CONN_TERM \<and> same_peer ip port c))"
proof -
  from clients_good [OF assms] obtain L M where ok: "net_ok st r L M" "linked L = lk"
    by (auto simp: good_net_def)
  have lm: "linked M = lk" using ok by (simp add: net_ok_def)
  from search_ok [OF ok(1), of cid ip port] obtain res st' where
    s: "search_tcp_conn cid ip port st = Some (Inr (res, st'))" and
    c: "case res of None \<Rightarrow> st' = st \<and> (\<forall>p \<in> linked M. \<forall>c. tn_store st p = Some c \<longrightarrow>
           tc_state c \<noteq> TCP_CONN_TERM \<longrightarrow> \<not> (tc_src_ip c = ip \<and> tc_src_port c = port))
       | Some p \<Rightarrow> p \<in> linked L \<and> net_ok st' (r(p := r p + 1)) L M \<and>
           (\<exists>c. tn_store st p = Some c \<and> tc_state c \<noteq> TCP_CONN_TERM \<and> same_peer ip port c)" by blast
  have "clients st' (r(p := r p + 1)) lk" if "res = Some p" for p
    using clients.step [OF assms, of "Search cid ip port" res st'] s that by simp
  with s c show ?thesis unfolding lm ok(2) by (cases res) auto
qed

lemma search_finds_witness:
  "\<exists>st st'. clients st ((\<lambda>_. 0)(7 := 1)) {7} \<and> search_tcp_conn 0 sample_ip 5060 st = Some (Inr (Some 7, st'))"
proof -
  obtain st where st: "clients st ((\<lambda>_. 0)(7 := 1)) {7}" "tn_store st = (\<lambda>_. None)(7 := Some sample_conn)"
    using sample_clients2 by blast
  from search_finds [OF st(1), of 0 sample_ip 5060]
  have "\<exists>st'. search_tcp_conn 0 sample_ip 5060 st = Some (Inr (Some 7, st'))"
    by (auto simp: st(2) sample_conn_def split: option.splits)
  with st(1) show ?thesis by blast
qed

text \<open>
  The state machine of a connection. \<open>set_conn_state\<close> keeps the state lock exactly when it
  returns 1, and that is exactly when an operation is in progress: a second write, or a write that
  ends while others are queued. A terminated connection never changes again, the waiting contexts
  are resumed exactly when a connection that is writing is terminated, and 0 means that the new
  state is set.
\<close>

theorem set_conn_state_machine:
  "case set_conn_state c q of (ret, lk, c', ctxs) \<Rightarrow>
     (ret = 0 \<and> c' = c\<lparr>tc_state := q\<rparr> \<or> ret \<in> {1, -1} \<and> c' = c) \<and>
     (lk \<longleftrightarrow> ret = 1) \<and>
     (ret = 1 \<longleftrightarrow> tc_state c = TCP_CONN_WRITING \<and>
        (q = TCP_CONN_WRITING \<or> q = TCP_CONN_READY \<and> tc_writes c \<noteq> [])) \<and>
     (ret = -1 \<longleftrightarrow> tc_state c = TCP_CONN_TERM \<or> tc_state c = TCP_CONN_READY \<and> q = TCP_CONN_READY) \<and>
     ctxs = (if tc_state c = TCP_CONN_WRITING \<and> q = TCP_CONN_TERM then tc_writes c else [])"
  by (cases "tc_state c"; cases q) (auto simp: set_conn_state_def)

text \<open>
  C39: a reference dropped out of protocol. When the only reference to a connection that is still
  linked is dropped, as \<open>a_tcp_connect\<close> does when the connection is established at once, the block
  is freed while the tables point to it, and the next search for that peer reads freed memory.
\<close>

theorem create_then_unref_dangles:
  assumes "clients st r lk" "tn_store st p = None" "tn_connections_no st < tn_max_connections st"
  shows "\<exists>st1 st2. create_tcp_conn (Some p) True ticks s ip port q st = Inr (Some p, st1) \<and>
    unref_tcp_conn p st1 = Inr st2 \<and> tn_store st2 p = None \<and>
    search_tcp_conn 0 ip port st2 = Some (Inl Freed_block)"
proof -
  let ?h = "tcp_hash (ip_words ip ! 0) (ucast port)"
  from clients_good [OF assms(1)] obtain L M where ok: "net_ok st r L M" by (auto simp: good_net_def)
  from create_ok [OF ok, of "Some p" True ticks s ip port q] assms(2) obtain res st1 where
    c: "create_tcp_conn (Some p) True ticks s ip port q st = Inr (res, st1)"
    "case res of None \<Rightarrow> net_ok st1 r L M
     | Some p' \<Rightarrow> Some p = Some p' \<and> (\<exists>L' M'. net_ok st1 (r(p' := 1)) L' M' \<and>
         linked L' = insert p' (linked L) \<and> (\<exists>xs. M' ?h = p' # xs))" by blast
  have res: "res = Some p"
    using c(1) assms(3) by (auto simp: create_tcp_conn_def Let_def ebind_def split: sum.splits)
  with c(2) obtain L' M' xs where n: "net_ok st1 (r(p := 1)) L' M'" "M' ?h = p # xs" by auto
  have t: "table_ok By_ip st1 M'" "refs_ok st1 (r(p := 1))" using n(1) by (simp_all add: net_ok_def)
  have head: "tn_ip_head st1 ?h = Some p"
    using table_okD(2) [OF t(1), of ?h] n(2) by (auto simp: chain_def)
  have "ref_at (tn_store st1 p) 1" using t(2) by (auto simp: refs_ok_def dest: spec [of _ p])
  then obtain d where d: "tn_store st1 p = Some d" "tc_ref d = 1" by (cases "tn_store st1 p") auto
  obtain st2 where u: "unref_tcp_conn p st1 = Inr st2" "tn_store st2 p = None" "tn_ip_head st2 = tn_ip_head st1"
    by (simp add: unref_tcp_conn_def upd_conn_def conn_at_def d free_tcp_conn_def)
  have "search_tcp_conn 0 ip port st2 = Some (Inl Freed_block)"
    using u(2,3) head by (simp add: search_tcp_conn_def search_by_ip_def walk.simps conn_at_def ref_found_def)
  with c(1) res u(1,2) show ?thesis by blast
qed

lemma create_then_unref_dangles_witness:
  "\<exists>st1 st2. create_tcp_conn (Some 7) True 100 3 sample_ip 5060 TCP_CONN_WRITING sample_net = Inr (Some 7, st1) \<and>
    unref_tcp_conn 7 st1 = Inr st2 \<and> search_tcp_conn 0 sample_ip 5060 st2 = Some (Inl Freed_block)"
proof -
  have "tn_store sample_net 7 = None" "tn_connections_no sample_net < tn_max_connections sample_net"
    by (simp_all add: sample_net_def tcp_zero_def)
  from create_then_unref_dangles [OF sample_clients this,
      where ticks = 100 and s = 3 and ip = sample_ip and port = 5060 and q = TCP_CONN_WRITING]
  show ?thesis by blast
qed


text \<open>Creations for which \<open>shm_malloc\<close> finds no memory.\<close>

definition starved :: "tcp_net \<Rightarrow> tcp_net" where
  "starved st = (case create_tcp_conn None True 0 0 sample_ip 0 TCP_CONN_READY st of
      Inl e \<Rightarrow> st | Inr (res, st') \<Rightarrow> st')"

lemma starved_once:
  "tn_connections_no st < tn_max_connections st \<Longrightarrow>
   starved st = st\<lparr>tn_connections_no := tn_connections_no st + 1\<rparr>"
  by (simp add: starved_def create_tcp_conn_def)

lemma starved_run:
  "tn_connections_no st + int n \<le> tn_max_connections st \<Longrightarrow>
   (starved ^^ n) st = st\<lparr>tn_connections_no := tn_connections_no st + int n\<rparr>"
proof (induction n)
  case (Suc n)
  then have "(starved ^^ n) st = st\<lparr>tn_connections_no := tn_connections_no st + int n\<rparr>" by simp
  with Suc.prems show ?case by (simp add: starved_once add.commute)
qed simp

text \<open>
  A creation that fails for lack of memory keeps its slot. After as many failures as there were
  free slots no block has become live, and still every later creation is refused, with its socket
  closed, whatever memory there is.
\<close>

theorem failed_creations_exhaust:
  assumes "tn_connections_no st + int n = tn_max_connections st"
  shows "tn_store ((starved ^^ n) st) = tn_store st \<and>
    create_tcp_conn mem lock_ok ticks s ip port q ((starved ^^ n) st) =
      Inr (None, ((starved ^^ n) st)\<lparr>tn_closed := tn_closed st @ [s]\<rparr>)"
  using starved_run [of st n] assms by (simp add: create_tcp_conn_def)

lemma failed_creations_exhaust_witness:
  "create_tcp_conn (Some 7) True 100 3 sample_ip 5060 TCP_CONN_READY ((starved ^^ 2) sample_net) =
     Inr (None, ((starved ^^ 2) sample_net)\<lparr>tn_closed := [3]\<rparr>)"
proof -
  have "tn_connections_no sample_net + int 2 = tn_max_connections sample_net" "tn_closed sample_net = []"
    by (simp_all add: sample_net_def tcp_zero_def)
  with failed_creations_exhaust [OF this(1), of "Some 7" True 100 3 sample_ip 5060 TCP_CONN_READY]
  show ?thesis by simp
qed

end
