(* ===== verification/Q_Malloc.thy ===== *)
theory Q_Malloc
  imports Core_Prelude
begin

text \<open>
  The memory allocator \<open>src/core/mem/q_malloc.c\<close> as it is built by default: with
  \<open>DBG_QM_MALLOC\<close> and \<open>MEM_FRAG_AVOIDANCE\<close>, without \<open>QM_JOIN_FREE\<close>, on a 64-bit machine. The
  arena is tiled by fragments, each with a header before and an end record behind its bytes; the
  free ones are on circular doubly linked lists that run through headers and end records, one
  list for every hash of a size, with a sentinel in the control block.

  Addresses and sizes are natural numbers; where \<open>unsigned long\<close> can wrap the result is taken
  modulo \<open>2 ^ 64\<close>. The check patterns of headers and end records are modelled by the maps being
  defined there. Log lines, the debug fields \<open>file\<close>, \<open>func\<close>, \<open>line\<close> and the hit counter
  are left out.
\<close>

section \<open>Sizes\<close>

definition ROUNDTO :: nat where "ROUNDTO = 8"
definition MIN_FRAG_SIZE :: nat where "MIN_FRAG_SIZE = ROUNDTO"
definition QM_MALLOC_OPTIMIZE :: nat where "QM_MALLOC_OPTIMIZE = 2 ^ 14"
definition QM_HASH_SIZE :: nat where "QM_HASH_SIZE = QM_MALLOC_OPTIMIZE div ROUNDTO + (64 - 14) + 1"

text \<open>\<open>sizeof\<close> of \<open>struct qm_frag\<close>, \<open>struct qm_frag_end\<close> and \<open>struct qm_block\<close>.\<close>

definition sizeof_frag :: nat where "sizeof_frag = 48"
definition sizeof_end :: nat where "sizeof_end = 48"
definition sizeof_block :: nat where
  "sizeof_block = 48 + QM_HASH_SIZE * (sizeof_frag + sizeof_end + 8)"

definition FRAG_OVERHEAD :: nat where "FRAG_OVERHEAD = sizeof_frag + sizeof_end"

definition add64 :: "nat \<Rightarrow> nat \<Rightarrow> nat" where "add64 a b = (a + b) mod 2 ^ 64"
definition sub64 :: "nat \<Rightarrow> nat \<Rightarrow> nat" where "sub64 a b = (a + 2 ^ 64 - b) mod 2 ^ 64"

definition ROUNDUP :: "nat \<Rightarrow> nat" where "ROUNDUP s = add64 s (ROUNDTO - 1) div ROUNDTO * ROUNDTO"
definition ROUNDDOWN :: "nat \<Rightarrow> nat" where "ROUNDDOWN s = s div ROUNDTO * ROUNDTO"

text \<open>The loop of \<open>big_hash_idx\<close> shifts until the top bit is set; for 0 it does not end.\<close>

partial_function (option) hash_loop :: "nat \<Rightarrow> nat \<Rightarrow> nat option" where
  "hash_loop s idx = (if 2 ^ 63 \<le> s then Some idx else hash_loop (2 * s mod 2 ^ 64) (idx - 1))"

definition big_hash_idx :: "nat \<Rightarrow> nat option" where "big_hash_idx s = hash_loop s 63"

definition GET_HASH :: "nat \<Rightarrow> nat" where
  "GET_HASH s = (if s \<le> QM_MALLOC_OPTIMIZE then s div ROUNDTO
     else QM_MALLOC_OPTIMIZE div ROUNDTO + the (big_hash_idx s) - 14 + 1)"

section \<open>State\<close>

text \<open>A \<open>struct qm_frag *\<close>: the sentinel of a hash entry, or the header at an address.\<close>

datatype node = Head nat | Frag nat

text \<open>The union \<open>u\<close> of a header is the link of a free fragment, or \<open>is_free = 0\<close> (\<open>None\<close>).\<close>

record qm_frag =
  qf_size :: nat
  qf_nxt :: "node option"

record qm_frag_end =
  qe_size :: nat
  qe_prev :: "node option"

record qm_block =
  qm_size :: nat
  qm_used :: nat
  qm_real_used :: nat
  qm_max_real_used :: nat
  qm_first_frag :: nat
  qm_last_frag_end :: nat
  qm_head :: "nat \<Rightarrow> node"
  qm_tail :: "nat \<Rightarrow> node"
  qm_no :: "nat \<Rightarrow> nat"
  qm_frags :: "nat \<Rightarrow> qm_frag option"
  qm_ends :: "nat \<Rightarrow> qm_frag_end option"
  qm_mem :: "nat \<Rightarrow> u8"

definition FRAG_END :: "nat \<Rightarrow> nat \<Rightarrow> nat" where "FRAG_END a sz = a + sizeof_frag + sz"
definition FRAG_NEXT :: "nat \<Rightarrow> nat \<Rightarrow> nat" where "FRAG_NEXT a sz = a + sizeof_frag + sz + sizeof_end"

definition frag_at :: "qm_block \<Rightarrow> nat \<Rightarrow> fault + qm_frag" where
  "frag_at qm a = (case qm_frags qm a of None \<Rightarrow> Inl Freed_block | Some f \<Rightarrow> Inr f)"

definition end_at :: "qm_block \<Rightarrow> nat \<Rightarrow> fault + qm_frag_end" where
  "end_at qm e = (case qm_ends qm e of None \<Rightarrow> Inl Freed_block | Some r \<Rightarrow> Inr r)"

text \<open>\<open>f->u.nxt_free\<close> and \<open>FRAG_END(f)->prev_free\<close>, read and written.\<close>

fun nxt_free :: "qm_block \<Rightarrow> node \<Rightarrow> fault + node" where
  "nxt_free qm (Head h) = Inr (qm_head qm h)"
| "nxt_free qm (Frag a) =
     ebind (frag_at qm a) (\<lambda>f. case qf_nxt f of None \<Rightarrow> Inl Null_deref | Some n \<Rightarrow> Inr n)"

fun prev_free :: "qm_block \<Rightarrow> node \<Rightarrow> fault + node" where
  "prev_free qm (Head h) = Inr (qm_tail qm h)"
| "prev_free qm (Frag a) =
     ebind (frag_at qm a) (\<lambda>f. ebind (end_at qm (FRAG_END a (qf_size f))) (\<lambda>e.
       case qe_prev e of None \<Rightarrow> Inl Null_deref | Some n \<Rightarrow> Inr n))"

fun set_nxt :: "node \<Rightarrow> node \<Rightarrow> qm_block \<Rightarrow> fault + qm_block" where
  "set_nxt (Head h) n qm = Inr (qm\<lparr>qm_head := (qm_head qm)(h := n)\<rparr>)"
| "set_nxt (Frag a) n qm =
     ebind (frag_at qm a) (\<lambda>f. Inr (qm\<lparr>qm_frags := (qm_frags qm)(a \<mapsto> f\<lparr>qf_nxt := Some n\<rparr>)\<rparr>))"

fun set_prev :: "node \<Rightarrow> node \<Rightarrow> qm_block \<Rightarrow> fault + qm_block" where
  "set_prev (Head h) n qm = Inr (qm\<lparr>qm_tail := (qm_tail qm)(h := n)\<rparr>)"
| "set_prev (Frag a) n qm =
     ebind (frag_at qm a) (\<lambda>f. ebind (end_at qm (FRAG_END a (qf_size f))) (\<lambda>e.
       Inr (qm\<lparr>qm_ends := (qm_ends qm)(FRAG_END a (qf_size f) \<mapsto> e\<lparr>qe_prev := Some n\<rparr>)\<rparr>)))"

section \<open>The free lists\<close>

text \<open>The loop of \<open>qm_insert_free\<close>: the first node of the list whose size is not smaller.\<close>

partial_function (option) insert_pos ::
    "nat \<Rightarrow> nat \<Rightarrow> node \<Rightarrow> qm_block \<Rightarrow> (fault + node) option" where
  "insert_pos sz hash f qm =
     (case f of
        Head h \<Rightarrow> Some (Inr f)
      | Frag a \<Rightarrow>
          (case frag_at qm a of
             Inl e \<Rightarrow> Some (Inl e)
           | Inr r \<Rightarrow>
               if sz \<le> qf_size r then Some (Inr f)
               else (case qf_nxt r of
                       None \<Rightarrow> Some (Inl Null_deref)
                     | Some n \<Rightarrow> insert_pos sz hash n qm)))"

definition link_before :: "nat \<Rightarrow> node \<Rightarrow> qm_block \<Rightarrow> fault + qm_block" where
  "link_before frag f qm =
     ebind (prev_free qm f) (\<lambda>prev.
       ebind (set_nxt prev (Frag frag) qm) (\<lambda>qm1.
         ebind (set_prev (Frag frag) prev qm1) (\<lambda>qm2.
           ebind (set_nxt (Frag frag) f qm2) (\<lambda>qm3.
             set_prev f (Frag frag) qm3))))"

definition qm_insert_free :: "nat \<Rightarrow> qm_block \<Rightarrow> (fault + qm_block) option" where
  "qm_insert_free frag qm =
     obind (Some (frag_at qm frag)) (\<lambda>r.
       obind (insert_pos (qf_size r) (GET_HASH (qf_size r)) (qm_head qm (GET_HASH (qf_size r))) qm) (\<lambda>f.
         Some (ebind (link_before frag f qm) (\<lambda>qm1.
           Inr (qm1\<lparr>qm_no := (qm_no qm1)(GET_HASH (qf_size r) := add64 (qm_no qm1 (GET_HASH (qf_size r))) 1)\<rparr>)))))"

definition qm_detach_free :: "nat \<Rightarrow> qm_block \<Rightarrow> fault + qm_block" where
  "qm_detach_free frag qm =
     ebind (prev_free qm (Frag frag)) (\<lambda>prev.
       ebind (nxt_free qm (Frag frag)) (\<lambda>next.
         ebind (set_nxt prev next qm) (\<lambda>qm1. set_prev next prev qm1)))"

text \<open>The loops of \<open>qm_find_free\<close>: the first fit of a list, and the lists from the hash of the size on.\<close>

partial_function (option) find_in :: "nat \<Rightarrow> node \<Rightarrow> qm_block \<Rightarrow> (fault + nat option) option" where
  "find_in sz f qm =
     (case f of
        Head h \<Rightarrow> Some (Inr None)
      | Frag a \<Rightarrow>
          (case frag_at qm a of
             Inl e \<Rightarrow> Some (Inl e)
           | Inr r \<Rightarrow>
               if sz \<le> qf_size r then Some (Inr (Some a))
               else (case qf_nxt r of
                       None \<Rightarrow> Some (Inl Null_deref)
                     | Some n \<Rightarrow> find_in sz n qm)))"

fun find_from :: "nat \<Rightarrow> nat list \<Rightarrow> qm_block \<Rightarrow> (fault + (nat \<times> nat) option) option" where
  "find_from sz [] qm = Some (Inr None)"
| "find_from sz (h # hs) qm =
     obind (find_in sz (qm_head qm h) qm) (\<lambda>r.
       case r of None \<Rightarrow> find_from sz hs qm | Some a \<Rightarrow> Some (Inr (Some (a, h))))"

definition qm_find_free :: "nat \<Rightarrow> qm_block \<Rightarrow> (fault + (nat \<times> nat) option) option" where
  "qm_find_free sz qm = find_from sz [GET_HASH sz..<QM_HASH_SIZE] qm"

section \<open>Operations\<close>

text \<open>
  \<open>qm_malloc_init\<close> makes one free fragment of the arena; \<open>mem\<close> is what the arena holds. It returns
  null when the arena is too small.
\<close>

definition qm_malloc_init :: "nat \<Rightarrow> nat \<Rightarrow> (nat \<Rightarrow> u8) \<Rightarrow> (fault + qm_block option) option" where
  "qm_malloc_init address sz0 mem =
     (let start = ROUNDUP address
      in if sz0 < sub64 start address then Some (Inr None)
      else let sz1 = sz0 - sub64 start address
      in if sz1 < MIN_FRAG_SIZE + FRAG_OVERHEAD then Some (Inr None)
      else let sz = ROUNDDOWN sz1;
               init_overhead = ROUNDUP sizeof_block + sizeof_frag + sizeof_end
      in if sz < init_overhead then Some (Inr None)
      else let first = start + ROUNDUP sizeof_block;
               last = start + sz - sizeof_end;
               qm = \<lparr>qm_size = sz, qm_used = 0, qm_real_used = init_overhead,
                     qm_max_real_used = init_overhead, qm_first_frag = first, qm_last_frag_end = last,
                     qm_head = Head, qm_tail = Head, qm_no = (\<lambda>_. 0),
                     qm_frags = [first \<mapsto> \<lparr>qf_size = sz - init_overhead, qf_nxt = None\<rparr>],
                     qm_ends = [last \<mapsto> \<lparr>qe_size = sz - init_overhead, qe_prev = None\<rparr>],
                     qm_mem = mem\<rparr>
      in obind (qm_insert_free first qm) (\<lambda>qm1. Some (Inr (Some qm1))))"

text \<open>
  \<open>qm_debug_frag\<close> aborts unless the patterns of the header, of its end record and of the end
  record before it are in place.
\<close>

definition qm_debug_frag :: "nat \<Rightarrow> qm_block \<Rightarrow> fault + unit" where
  "qm_debug_frag a qm =
     (case qm_frags qm a of
        None \<Rightarrow> Inl Aborted
      | Some f \<Rightarrow>
          (case qm_ends qm (FRAG_END a (qf_size f)) of
             None \<Rightarrow> Inl Aborted
           | Some e \<Rightarrow>
               if qm_first_frag qm < a \<and> qm_ends qm (a - sizeof_end) = None then Inl Aborted
               else Inr ()))"

text \<open>
  \<open>split_frag\<close>: the link of the new fragment and \<open>prev_free\<close> of the new end record are whatever
  the memory held (\<open>None\<close>).
\<close>

definition split_frag :: "nat \<Rightarrow> nat \<Rightarrow> qm_block \<Rightarrow> (fault + int \<times> qm_block) option" where
  "split_frag f new_size qm =
     obind (Some (frag_at qm f)) (\<lambda>r.
       let rest = qf_size r - new_size
       in if FRAG_OVERHEAD + QM_MALLOC_OPTIMIZE < rest \<or> FRAG_OVERHEAD + new_size \<le> rest
          then let e = FRAG_END f new_size;
                   n = e + sizeof_end;
                   nsize = rest - FRAG_OVERHEAD;
                   ne = FRAG_END n nsize;
                   old = (case qm_ends qm ne of None \<Rightarrow> None | Some x \<Rightarrow> qe_prev x);
                   qm1 = qm\<lparr>qm_frags := (qm_frags qm)(f \<mapsto> r\<lparr>qf_size := new_size\<rparr>,
                                n \<mapsto> \<lparr>qf_size = nsize, qf_nxt = None\<rparr>),
                             qm_ends := (qm_ends qm)(e \<mapsto> \<lparr>qe_size = new_size, qe_prev = None\<rparr>,
                                ne \<mapsto> \<lparr>qe_size = nsize, qe_prev = old\<rparr>),
                             qm_real_used := add64 (qm_real_used qm) FRAG_OVERHEAD\<rparr>
               in obind (qm_insert_free n qm1) (\<lambda>qm2. Some (Inr (0, qm2)))
          else Some (Inr (-1, qm)))"

text \<open>A pointer is an address, \<open>NULL\<close> is 0.\<close>

definition qm_malloc :: "nat \<Rightarrow> qm_block \<Rightarrow> (fault + nat \<times> qm_block) option" where
  "qm_malloc sz0 qm =
     (let sz = ROUNDUP sz0
      in if sub64 (qm_size qm) (qm_real_used qm) < sz then Some (Inr (0, qm))
      else obind (qm_find_free sz qm) (\<lambda>found.
        case found of
          None \<Rightarrow> Some (Inr (0, qm))
        | Some (f, hash) \<Rightarrow>
            obind (Some (qm_debug_frag f qm)) (\<lambda>_.
            obind (Some (qm_detach_free f qm)) (\<lambda>qm1.
            obind (Some (frag_at qm1 f)) (\<lambda>r.
            obind (split_frag f sz (qm1\<lparr>qm_frags := (qm_frags qm1)(f \<mapsto> r\<lparr>qf_nxt := None\<rparr>),
                     qm_no := (qm_no qm1)(hash := sub64 (qm_no qm1 hash) 1)\<rparr>)) (\<lambda>(ret, qm2).
            obind (Some (frag_at qm2 f)) (\<lambda>r2.
              let real_used = add64 (qm_real_used qm2) (qf_size r2)
              in Some (Inr (f + sizeof_frag,
                   qm2\<lparr>qm_real_used := real_used,
                       qm_used := add64 (qm_used qm2) (qf_size r2),
                       qm_max_real_used := (if qm_max_real_used qm2 < real_used then real_used
                                            else qm_max_real_used qm2)\<rparr>)))))))))"

definition qm_free :: "nat \<Rightarrow> qm_block \<Rightarrow> (fault + qm_block) option" where
  "qm_free p qm =
     (if qm_last_frag_end qm < p \<or> p < qm_first_frag qm then Some (Inl Aborted)
      else if p = 0 then Some (Inr qm)
      else let f = p - sizeof_frag
      in obind (Some (qm_debug_frag f qm)) (\<lambda>_.
         obind (Some (frag_at qm f)) (\<lambda>r.
           if qf_nxt r \<noteq> None then Some (Inl Aborted)
           else qm_insert_free f (qm\<lparr>qm_used := sub64 (qm_used qm) (qf_size r),
                  qm_real_used := sub64 (qm_real_used qm) (qf_size r)\<rparr>))))"

definition copy_mem :: "nat \<Rightarrow> nat \<Rightarrow> nat \<Rightarrow> qm_block \<Rightarrow> qm_block" where
  "copy_mem dst src n qm =
     qm\<lparr>qm_mem := (\<lambda>a. if dst \<le> a \<and> a < dst + n then qm_mem qm (src + (a - dst)) else qm_mem qm a)\<rparr>"

text \<open>The branches of \<open>qm_realloc\<close>: a smaller size, and a larger one.\<close>

definition realloc_shrink :: "nat \<Rightarrow> qm_frag \<Rightarrow> nat \<Rightarrow> qm_block \<Rightarrow> (fault + qm_block) option" where
  "realloc_shrink f r sz qm =
     obind (split_frag f sz qm) (\<lambda>(ret, qm1).
       obind (Some (frag_at qm1 f)) (\<lambda>r1.
         if ret \<noteq> 0
         then Some (Inr (qm1\<lparr>
                qm_real_used := sub64 (qm_real_used qm1)
                  (sub64 (sub64 (qf_size r) (qf_size r1)) FRAG_OVERHEAD),
                qm_used := sub64 (qm_used qm1) (sub64 (qf_size r) (qf_size r1))\<rparr>))
         else Some (Inr qm1)))"

definition next_joins :: "nat \<Rightarrow> qm_frag \<Rightarrow> nat \<Rightarrow> qm_block \<Rightarrow> fault + bool" where
  "next_joins f r sz qm =
     (let n = FRAG_NEXT f (qf_size r)
      in if n < qm_last_frag_end qm
         then ebind (frag_at qm n) (\<lambda>rn.
                Inr (qf_nxt rn \<noteq> None \<and> sz - qf_size r \<le> qf_size rn + FRAG_OVERHEAD))
         else Inr False)"

definition realloc_join :: "nat \<Rightarrow> qm_frag \<Rightarrow> nat \<Rightarrow> qm_block \<Rightarrow> (fault + qm_block) option" where
  "realloc_join f r sz qm =
     (let n = FRAG_NEXT f (qf_size r)
      in obind (Some (frag_at qm n)) (\<lambda>rn.
         obind (Some (qm_detach_free n qm)) (\<lambda>qm1.
         obind (Some (frag_at qm1 f)) (\<lambda>r1.
           let h = GET_HASH (qf_size rn);
               nsize = qf_size r1 + (qf_size rn + FRAG_OVERHEAD);
               old = (case qm_ends qm1 (FRAG_END f nsize) of None \<Rightarrow> None | Some x \<Rightarrow> qe_prev x);
               qm2 = qm1\<lparr>qm_no := (qm_no qm1)(h := sub64 (qm_no qm1 h) 1),
                         qm_frags := (qm_frags qm1)(f \<mapsto> r1\<lparr>qf_size := nsize\<rparr>, n := None),
                         qm_ends := (qm_ends qm1)(FRAG_END f (qf_size r) := None,
                            FRAG_END f nsize \<mapsto> \<lparr>qe_size = nsize, qe_prev = old\<rparr>),
                         qm_real_used := sub64 (qm_real_used qm1) FRAG_OVERHEAD\<rparr>
           in obind (if sz < nsize then obind (split_frag f sz qm2) (\<lambda>(ret, qm3). Some (Inr qm3))
                     else Some (Inr qm2)) (\<lambda>qm3.
              obind (Some (frag_at qm3 f)) (\<lambda>r3.
                Some (Inr (qm3\<lparr>
                  qm_real_used := add64 (qm_real_used qm3) (sub64 (qf_size r3) (qf_size r)),
                  qm_used := add64 (qm_used qm3) (sub64 (qf_size r3) (qf_size r))\<rparr>))))))))"

definition qm_realloc :: "nat \<Rightarrow> nat \<Rightarrow> qm_block \<Rightarrow> (fault + nat \<times> qm_block) option" where
  "qm_realloc p sz0 qm =
     (if p \<noteq> 0 \<and> (qm_last_frag_end qm < p \<or> p < qm_first_frag qm) then Some (Inl Aborted)
      else if sz0 = 0 then
        (if p \<noteq> 0 then obind (qm_free p qm) (\<lambda>qm1. Some (Inr (0, qm1))) else Some (Inr (0, qm)))
      else if p = 0 then qm_malloc sz0 qm
      else let f = p - sizeof_frag
      in obind (Some (qm_debug_frag f qm)) (\<lambda>_.
         obind (Some (frag_at qm f)) (\<lambda>r.
           if qf_nxt r \<noteq> None then Some (Inl Aborted)
           else let sz = ROUNDUP sz0
           in if sz < qf_size r then obind (realloc_shrink f r sz qm) (\<lambda>qm1. Some (Inr (p, qm1)))
           else if qf_size r < sz then
             obind (Some (next_joins f r sz qm)) (\<lambda>joins.
               if joins then obind (realloc_join f r sz qm) (\<lambda>qm1. Some (Inr (p, qm1)))
               else obind (qm_malloc sz qm) (\<lambda>(ptr, qm1).
                 if ptr \<noteq> 0
                 then obind (qm_free p (copy_mem ptr p (qf_size r) qm1)) (\<lambda>qm2. Some (Inr (ptr, qm2)))
                 else Some (Inr (ptr, qm1))))
           else Some (Inr (p, qm)))))"

record mem_info =
  mi_total_size :: nat
  mi_free :: nat
  mi_used :: nat
  mi_real_used :: nat
  mi_max_used :: nat
  mi_min_frag :: nat
  mi_total_frags :: nat

definition qm_info :: "qm_block \<Rightarrow> mem_info" where
  "qm_info qm =
     \<lparr>mi_total_size = qm_size qm, mi_free = sub64 (qm_size qm) (qm_real_used qm), mi_used = qm_used qm,
      mi_real_used = qm_real_used qm, mi_max_used = qm_max_real_used qm, mi_min_frag = MIN_FRAG_SIZE,
      mi_total_frags = foldl (\<lambda>total r. add64 total (qm_no qm r)) 0 [0..<QM_HASH_SIZE]\<rparr>"

end
