(* ===== verification/Q_Rings.thy ===== *)
theory Q_Rings
  imports Q_Malloc
begin

text \<open>
  Circular doubly linked lists and tilings: what linking, unlinking and splitting do to them,
  on the bare link and size functions.
\<close>

section \<open>Chains of links\<close>

text \<open>The nodes from \<open>u\<close> to \<open>v\<close> are, in order, the fragments \<open>xs\<close>.\<close>

fun seg :: "(node \<Rightarrow> node option) \<Rightarrow> (node \<Rightarrow> node option) \<Rightarrow> node \<Rightarrow> nat list \<Rightarrow> node \<Rightarrow> bool" where
  "seg nx pv u [] v \<longleftrightarrow> nx u = Some v \<and> pv v = Some u"
| "seg nx pv u (x # xs) v \<longleftrightarrow> nx u = Some (Frag x) \<and> pv (Frag x) = Some u \<and> seg nx pv (Frag x) xs v"

fun last_node :: "node \<Rightarrow> nat list \<Rightarrow> node" where
  "last_node u [] = u"
| "last_node u (x # xs) = last_node (Frag x) xs"

fun first_node :: "nat list \<Rightarrow> node \<Rightarrow> node" where
  "first_node [] v = v"
| "first_node (x # xs) v = Frag x"

lemma seg_cong:
  "seg nx pv u xs v \<Longrightarrow> nx' u = nx u \<Longrightarrow> pv' v = pv v \<Longrightarrow>
   (\<And>x. x \<in> set xs \<Longrightarrow> nx' (Frag x) = nx (Frag x) \<and> pv' (Frag x) = pv (Frag x)) \<Longrightarrow>
   seg nx' pv' u xs v"
  by (induction xs arbitrary: u) auto

lemma seg_first: "seg nx pv u xs v \<Longrightarrow> nx u = Some (first_node xs v)"
  by (cases xs) auto

lemma seg_split: "seg nx pv u (xs @ y # ys) v \<longleftrightarrow> seg nx pv u xs (Frag y) \<and> seg nx pv (Frag y) ys v"
  by (induction xs arbitrary: u) auto

lemma seg_prev: "seg nx pv u (xs @ ys) v \<Longrightarrow> pv (first_node ys v) = Some (last_node u xs)"
proof (induction xs arbitrary: u)
  case Nil then show ?case by (cases ys) auto
qed auto

lemma seg_next: "seg nx pv u xs v \<Longrightarrow> x \<in> set xs \<Longrightarrow> \<exists>n. nx (Frag x) = Some n"
proof (induction xs arbitrary: u)
  case (Cons y xs) then show ?case by (cases xs) auto
qed simp

lemma last_node_in: "last_node u xs \<in> insert u (Frag ` set xs)"
  by (induction xs arbitrary: u) auto

lemma first_node_in: "first_node xs v \<in> insert v (Frag ` set xs)"
  by (cases xs) auto

text \<open>Linking a fragment before the node where \<open>ys\<close> begins.\<close>

lemma seg_insert:
  assumes "seg nx pv u (xs @ ys) v" "distinct (xs @ ys)" "a \<notin> set (xs @ ys)" "u \<noteq> Frag a" "v \<noteq> Frag a"
    "u \<notin> Frag ` set (xs @ ys)" "v \<notin> Frag ` set (xs @ ys)"
    "nx' = nx(last_node u xs := Some (Frag a), Frag a := Some (first_node ys v))"
    "pv' = pv(Frag a := Some (last_node u xs), first_node ys v := Some (Frag a))"
  shows "seg nx' pv' u (xs @ a # ys) v"
  using assms
proof (induction xs arbitrary: u)
  case Nil
  show ?case
  proof (cases ys)
    case Nil
    with Nil.prems show ?thesis by auto
  next
    case (Cons y zs)
    with Nil.prems have "seg nx pv (Frag y) zs v" by simp
    then have "seg nx' pv' (Frag y) zs v"
      by (rule seg_cong) (use Nil.prems Cons in auto)
    with Nil.prems Cons show ?thesis by auto
  qed
next
  case (Cons x xs)
  have "seg nx' pv' (Frag x) (xs @ a # ys) v"
    by (rule Cons.IH) (use Cons.prems in \<open>auto simp del: fun_upd_apply\<close>)
  moreover have "last_node (Frag x) xs \<noteq> u" using last_node_in [of "Frag x" xs] Cons.prems(6) by auto
  moreover have "first_node ys v \<noteq> Frag x" using first_node_in [of ys v] Cons.prems(2,7) by auto
  ultimately show ?case using Cons.prems by auto
qed

text \<open>Unlinking the fragment between \<open>xs\<close> and \<open>ys\<close>.\<close>

lemma seg_remove:
  assumes "seg nx pv u (xs @ a # ys) v" "distinct (xs @ a # ys)"
    "u \<notin> Frag ` set (xs @ a # ys)" "v \<notin> Frag ` set (xs @ a # ys)"
    "nx' = nx(last_node u xs := Some (first_node ys v))"
    "pv' = pv(first_node ys v := Some (last_node u xs))"
  shows "seg nx' pv' u (xs @ ys) v"
  using assms
proof (induction xs arbitrary: u)
  case Nil
  show ?case
  proof (cases ys)
    case Nil
    with Nil.prems show ?thesis by auto
  next
    case (Cons y zs)
    with Nil.prems have "seg nx pv (Frag y) zs v" by simp
    then have "seg nx' pv' (Frag y) zs v"
      by (rule seg_cong) (use Nil.prems Cons in auto)
    with Nil.prems Cons show ?thesis by auto
  qed
next
  case (Cons x xs)
  have "seg nx' pv' (Frag x) (xs @ ys) v"
    by (rule Cons.IH) (use Cons.prems in \<open>auto simp del: fun_upd_apply\<close>)
  moreover have "last_node (Frag x) xs \<noteq> u" using last_node_in [of "Frag x" xs] Cons.prems(3) by auto
  moreover have "first_node ys v \<noteq> Frag x" using first_node_in [of ys v] Cons.prems(2,4) by auto
  ultimately show ?case using Cons.prems by auto
qed

lemma seg_around:
  "seg nx pv u (xs @ a # ys) v \<Longrightarrow>
   pv (Frag a) = Some (last_node u xs) \<and> nx (Frag a) = Some (first_node ys v)"
  using seg_prev [of nx pv u xs "a # ys" v] seg_first [of nx pv "Frag a" ys v] by (auto simp: seg_split)

section \<open>Tilings\<close>

text \<open>The fragments \<open>fs\<close> with their headers and end records fill the space from \<open>a\<close> to \<open>b\<close>.\<close>

fun tile :: "(nat \<Rightarrow> nat option) \<Rightarrow> nat \<Rightarrow> nat list \<Rightarrow> nat \<Rightarrow> bool" where
  "tile sz a [] b \<longleftrightarrow> a = b"
| "tile sz a (x # xs) b \<longleftrightarrow> x = a \<and> (\<exists>s. sz a = Some s \<and> 8 dvd s \<and> tile sz (a + s + 96) xs b)"

lemma tile_append: "tile sz a (xs @ ys) b \<longleftrightarrow> (\<exists>c. tile sz a xs c \<and> tile sz c ys b)"
  by (induction xs arbitrary: a) auto

lemma tile_cong: "tile sz a xs b \<Longrightarrow> (\<And>x. x \<in> set xs \<Longrightarrow> sz' x = sz x) \<Longrightarrow> tile sz' a xs b"
  by (induction xs arbitrary: a) auto

lemma tile_bounds:
  "tile sz a xs b \<Longrightarrow> a \<le> b \<and> (\<forall>x \<in> set xs. a \<le> x \<and> (\<exists>s. sz x = Some s \<and> 8 dvd s \<and> x + s + 96 \<le> b))"
proof (induction xs arbitrary: a)
  case (Cons x xs)
  then obtain s where s: "x = a" "sz a = Some s" "8 dvd s" "tile sz (a + s + 96) xs b" by auto
  from Cons.IH [OF s(4)] have h: "a + s + 96 \<le> b" "\<forall>x \<in> set xs. a + s + 96 \<le> x \<and> (\<exists>s. sz x = Some s \<and> 8 dvd s \<and> x + s + 96 \<le> b)"
    by blast+
  have "a \<le> y \<and> (\<exists>s. sz y = Some s \<and> 8 dvd s \<and> y + s + 96 \<le> b)" if "y \<in> set (x # xs)" for y
  proof (cases "y = x")
    case True with s h(1) show ?thesis by simp
  next
    case False
    with that have "y \<in> set xs" by simp
    with h(2) have "a + s + 96 \<le> y \<and> (\<exists>s. sz y = Some s \<and> 8 dvd s \<and> y + s + 96 \<le> b)" by blast
    then show ?thesis by auto
  qed
  with h(1) show ?case by auto
qed simp

lemma tile_distinct: "tile sz a xs b \<Longrightarrow> distinct xs"
proof (induction xs arbitrary: a)
  case (Cons x xs)
  then obtain s where s: "x = a" "tile sz (a + s + 96) xs b" by auto
  with Cons.IH tile_bounds [OF s(2)] show ?case by force
qed simp

text \<open>Two fragments of a tiling do not overlap.\<close>

lemma tile_disjoint:
  "tile sz a xs b \<Longrightarrow> x \<in> set xs \<Longrightarrow> y \<in> set xs \<Longrightarrow> x < y \<Longrightarrow> sz x = Some s \<Longrightarrow> x + s + 96 \<le> y"
proof (induction xs arbitrary: a)
  case (Cons z xs)
  then obtain t where t: "z = a" "sz a = Some t" "tile sz (a + t + 96) xs b" by auto
  note bd = tile_bounds [OF t(3)]
  show ?case
  proof (cases "x = z")
    case True
    with Cons.prems(3,4) have "y \<in> set xs" by auto
    with bd True t(1,2) Cons.prems(5) show ?thesis by auto
  next
    case False
    then have x: "x \<in> set xs" using Cons.prems(2) by simp
    then have "z < x" using bd t(1) by force
    then have "y \<in> set xs" using Cons.prems(3,4) by auto
    from Cons.IH [OF t(3) x this Cons.prems(4,5)] show ?thesis .
  qed
qed simp

text \<open>What comes directly before a fragment that is not the first.\<close>

lemma tile_pred:
  "tile sz a xs b \<Longrightarrow> x \<in> set xs \<Longrightarrow> x \<noteq> a \<Longrightarrow> \<exists>y s. y \<in> set xs \<and> sz y = Some s \<and> x = y + s + 96"
proof (induction xs arbitrary: a)
  case (Cons z xs)
  then obtain t where t: "z = a" "sz a = Some t" "tile sz (a + t + 96) xs b" by auto
  with Cons.prems(2,3) have x: "x \<in> set xs" by auto
  show ?case
  proof (cases "x = a + t + 96")
    case True with t show ?thesis by auto
  next
    case False
    from Cons.IH [OF t(3) x False] show ?thesis by auto
  qed
qed simp

lemma tile_succ:
  "tile sz a xs b \<Longrightarrow> x \<in> set xs \<Longrightarrow> sz x = Some s \<Longrightarrow> x + s + 96 \<in> set xs \<or> x + s + 96 = b"
proof (induction xs arbitrary: a)
  case (Cons z xs)
  then obtain t where t: "z = a" "sz a = Some t" "tile sz (a + t + 96) xs b" by auto
  show ?case
  proof (cases "x = z")
    case True with t Cons.prems(3) show ?thesis by (cases xs) auto
  next
    case False with Cons t show ?thesis by auto
  qed
qed simp

text \<open>Splitting a fragment, and joining it with the next one.\<close>

lemma tile_split:
  assumes "tile sz a (us @ x # vs) b" "sz x = Some (m + k + 96)" "8 dvd m" "8 dvd k"
    "distinct (us @ x # vs)" "x + m + 96 \<notin> set (us @ x # vs)"
  shows "tile (sz(x \<mapsto> m, x + m + 96 \<mapsto> k)) a (us @ x # (x + m + 96) # vs) b"
proof -
  let ?sz = "sz(x \<mapsto> m, x + m + 96 \<mapsto> k)"
  have e: "x + (m + k + 96) + 96 = x + m + 96 + k + 96" by simp
  from assms(1,2) have "tile sz a us x" "tile sz (x + (m + k + 96) + 96) vs b"
    by (auto simp: tile_append)
  then have "tile ?sz a us x" "tile ?sz (x + m + 96 + k + 96) vs b"
    using assms(5,6) unfolding e by (auto intro!: tile_cong [of sz])
  moreover from this(2) have "tile ?sz x (x # (x + m + 96) # vs) b" using assms(3,4) by simp
  ultimately show ?thesis unfolding tile_append by blast
qed

lemma tile_join:
  assumes "tile sz a (us @ x # y # vs) b" "sz x = Some m" "sz y = Some k" "distinct (us @ x # y # vs)"
  shows "tile (sz(x \<mapsto> m + k + 96, y := None)) a (us @ x # vs) b"
proof -
  let ?sz = "sz(x \<mapsto> m + k + 96, y := None)"
  from assms(1,2,3) have t: "tile sz a us x" "y = x + m + 96" "tile sz (x + m + 96 + k + 96) vs b" "8 dvd m" "8 dvd k"
    by (auto simp: tile_append)
  have e: "x + m + 96 + k + 96 = x + (m + k + 96) + 96" by simp
  have "tile ?sz a us x" by (rule tile_cong [OF t(1)]) (use assms(4) in auto)
  moreover have "tile ?sz (x + (m + k + 96) + 96) vs b"
    by (rule tile_cong [OF t(3) [unfolded e]]) (use assms(4) in auto)
  then have "tile ?sz x (x # vs) b" using t(2,4,5) by simp
  ultimately show ?thesis unfolding tile_append by blast
qed

end
