(* ===== verification/Q_Heap.thy ===== *)
theory Q_Heap
  imports Q_Rings
begin

text \<open>
  The invariant of the allocator's arena and how the list operations keep it: the fragments tile
  the arena, every list is a ring of free fragments of its hash in the order of their sizes, and
  every free fragment is on the ring of its hash.
\<close>

section \<open>Views of the state\<close>

definition nx :: "qm_block \<Rightarrow> node \<Rightarrow> node option" where
  "nx qm nd = (case nxt_free qm nd of Inl _ \<Rightarrow> None | Inr n \<Rightarrow> Some n)"

definition pv :: "qm_block \<Rightarrow> node \<Rightarrow> node option" where
  "pv qm nd = (case prev_free qm nd of Inl _ \<Rightarrow> None | Inr n \<Rightarrow> Some n)"

definition szf :: "qm_block \<Rightarrow> nat \<Rightarrow> nat option" where
  "szf qm a = map_option qf_size (qm_frags qm a)"

definition es :: "qm_block \<Rightarrow> nat \<Rightarrow> nat option" where
  "es qm e = map_option qe_size (qm_ends qm e)"

definition core :: "qm_block \<Rightarrow> nat \<times> nat \<times> nat \<times> nat \<times> nat \<times> nat \<times> (nat \<Rightarrow> nat) \<times> (nat \<Rightarrow> u8)" where
  "core qm = (qm_size qm, qm_used qm, qm_real_used qm, qm_max_real_used qm, qm_first_frag qm,
     qm_last_frag_end qm, qm_no qm, qm_mem qm)"

lemma views_Head [simp]: "nx qm (Head h) = Some (qm_head qm h)" "pv qm (Head h) = Some (qm_tail qm h)"
  by (simp_all add: nx_def pv_def)

lemma nx_Frag: "nx qm (Frag a) = Option.bind (qm_frags qm a) qf_nxt"
  by (cases "qm_frags qm a") (auto simp: nx_def frag_at_def split: option.split)

lemma pv_Frag: "pv qm (Frag a) = Option.bind (qm_frags qm a) (\<lambda>f. Option.bind (qm_ends qm (FRAG_END a (qf_size f))) qe_prev)"
  by (cases "qm_frags qm a") (auto simp: pv_def frag_at_def end_at_def split: option.split)

lemma nxt_free_iff: "nxt_free qm nd = Inr n \<longleftrightarrow> nx qm nd = Some n"
  by (auto simp: nx_def split: sum.split)

lemma prev_free_iff: "prev_free qm nd = Inr n \<longleftrightarrow> pv qm nd = Some n"
  by (auto simp: pv_def split: sum.split)

fun known :: "qm_block \<Rightarrow> node \<Rightarrow> bool" where
  "known qm (Head h) \<longleftrightarrow> True"
| "known qm (Frag a) \<longleftrightarrow> szf qm a \<noteq> None"

lemma sizes [simp]: "sizeof_frag = 48" "sizeof_end = 48" "FRAG_OVERHEAD = 96" "ROUNDTO = 8"
  "QM_MALLOC_OPTIMIZE = 16384" "QM_HASH_SIZE = 2099" "MIN_FRAG_SIZE = 8" "sizeof_block = 218344"
  by (simp_all add: sizeof_frag_def sizeof_end_def FRAG_OVERHEAD_def ROUNDTO_def QM_MALLOC_OPTIMIZE_def
      QM_HASH_SIZE_def MIN_FRAG_SIZE_def sizeof_block_def)

lemma FRAG_END_simp [simp]: "FRAG_END a s = a + 48 + s" "FRAG_NEXT a s = a + s + 96"
  by (simp_all add: FRAG_END_def FRAG_NEXT_def)

section \<open>Layout\<close>

definition layout :: "qm_block \<Rightarrow> nat list \<Rightarrow> bool" where
  "layout qm fs \<longleftrightarrow> tile (szf qm) (qm_first_frag qm) fs (qm_last_frag_end qm + 48) \<and>
     {a. szf qm a \<noteq> None} = set fs \<and> (\<forall>a s. szf qm a = Some s \<longrightarrow> es qm (a + 48 + s) = Some s) \<and>
     qm_last_frag_end qm + 48 < 2 ^ 64"

lemma layout_cong:
  assumes "layout qm fs" "szf qm' = szf qm" "es qm' = es qm" "qm_first_frag qm' = qm_first_frag qm"
    "qm_last_frag_end qm' = qm_last_frag_end qm"
  shows "layout qm' fs"
  using assms by (simp add: layout_def)

lemma core_sel:
  assumes "core qm' = core qm"
  shows "qm_size qm' = qm_size qm" "qm_used qm' = qm_used qm" "qm_real_used qm' = qm_real_used qm"
    "qm_max_real_used qm' = qm_max_real_used qm" "qm_first_frag qm' = qm_first_frag qm"
    "qm_last_frag_end qm' = qm_last_frag_end qm" "qm_no qm' = qm_no qm" "qm_mem qm' = qm_mem qm"
  using assms by (simp_all add: core_def)

lemma layoutD:
  assumes "layout qm fs"
  shows "tile (szf qm) (qm_first_frag qm) fs (qm_last_frag_end qm + 48)" "distinct fs"
    "a \<in> set fs \<Longrightarrow> \<exists>s. szf qm a = Some s \<and> 8 dvd s \<and> qm_first_frag qm \<le> a \<and> a + s + 96 \<le> qm_last_frag_end qm + 48"
    "szf qm a = Some s \<Longrightarrow> a \<in> set fs \<and> es qm (a + 48 + s) = Some s"
    "qm_last_frag_end qm + 48 < 2 ^ 64"
  using assms tile_distinct tile_bounds unfolding layout_def by blast+

lemma ends_inj:
  assumes "layout qm fs" "szf qm a = Some s" "szf qm b = Some t" "a + s = b + t"
  shows "a = b"
proof (rule ccontr)
  assume "a \<noteq> b"
  have m: "a \<in> set fs" "b \<in> set fs" using layoutD(4) [OF assms(1)] assms(2,3) by auto
  consider "a < b" | "b < a" using \<open>a \<noteq> b\<close> by linarith
  then show False
  proof cases
    case 1
    from tile_disjoint [OF layoutD(1) [OF assms(1)] m 1 assms(2)] assms(4) show False by linarith
  next
    case 2
    from tile_disjoint [OF layoutD(1) [OF assms(1)] m(2,1) 2 assms(3)] assms(4) show False by linarith
  qed
qed

section \<open>Writing links\<close>

lemma set_nxt_ok:
  assumes "known qm nd"
  shows "\<exists>qm'. set_nxt nd n qm = Inr qm' \<and> nx qm' = (nx qm)(nd := Some n) \<and> pv qm' = pv qm \<and>
    szf qm' = szf qm \<and> es qm' = es qm \<and> core qm' = core qm"
proof (cases nd)
  case (Head h)
  have "nx (qm\<lparr>qm_head := (qm_head qm)(h := n)\<rparr>) = (nx qm)(nd := Some n)"
  proof
    fix x show "nx (qm\<lparr>qm_head := (qm_head qm)(h := n)\<rparr>) x = ((nx qm)(nd := Some n)) x"
      by (cases x) (auto simp: Head nx_Frag)
  qed
  moreover have "pv (qm\<lparr>qm_head := (qm_head qm)(h := n)\<rparr>) = pv qm"
  proof
    fix x show "pv (qm\<lparr>qm_head := (qm_head qm)(h := n)\<rparr>) x = pv qm x" by (cases x) (simp_all add: pv_Frag)
  qed
  ultimately show ?thesis using Head by (simp add: szf_def es_def core_def fun_eq_iff)
next
  case (Frag a)
  then obtain f where f: "qm_frags qm a = Some f" using assms by (auto simp: szf_def)
  let ?qm = "qm\<lparr>qm_frags := (qm_frags qm)(a \<mapsto> f\<lparr>qf_nxt := Some n\<rparr>)\<rparr>"
  have "nx ?qm = (nx qm)(nd := Some n)"
  proof
    fix x show "nx ?qm x = ((nx qm)(nd := Some n)) x" by (cases x) (auto simp: Frag nx_Frag)
  qed
  moreover have "pv ?qm = pv qm"
  proof
    fix x show "pv ?qm x = pv qm x" by (cases x) (auto simp: pv_Frag f)
  qed
  moreover have "szf ?qm = szf qm" by (auto simp: szf_def f)
  moreover have "set_nxt nd n qm = Inr ?qm" by (simp add: Frag frag_at_def f)
  ultimately show ?thesis by (intro exI [of _ ?qm]) (simp add: es_def core_def fun_eq_iff)
qed

lemma set_prev_ok:
  assumes "layout qm fs" "known qm nd"
  shows "\<exists>qm'. set_prev nd n qm = Inr qm' \<and> nx qm' = nx qm \<and> pv qm' = (pv qm)(nd := Some n) \<and>
    szf qm' = szf qm \<and> es qm' = es qm \<and> core qm' = core qm"
proof (cases nd)
  case (Head h)
  let ?qm = "qm\<lparr>qm_tail := (qm_tail qm)(h := n)\<rparr>"
  have "pv ?qm = (pv qm)(nd := Some n)"
  proof
    fix x show "pv ?qm x = ((pv qm)(nd := Some n)) x" by (cases x) (auto simp: Head pv_Frag)
  qed
  moreover have "nx ?qm = nx qm"
  proof
    fix x show "nx ?qm x = nx qm x" by (cases x) (simp_all add: nx_Frag)
  qed
  ultimately show ?thesis using Head by (simp add: szf_def es_def core_def fun_eq_iff)
next
  case (Frag a)
  then obtain f where f: "qm_frags qm a = Some f" using assms(2) by (auto simp: szf_def)
  then have "szf qm a = Some (qf_size f)" by (simp add: szf_def)
  note sa = this
  from layoutD(4) [OF assms(1) sa] obtain e where e: "qm_ends qm (a + 48 + qf_size f) = Some e"
    by (auto simp: es_def)
  let ?E = "a + 48 + qf_size f"
  let ?qm = "qm\<lparr>qm_ends := (qm_ends qm)(?E \<mapsto> e\<lparr>qe_prev := Some n\<rparr>)\<rparr>"
  have "pv ?qm = (pv qm)(nd := Some n)"
  proof
    fix x show "pv ?qm x = ((pv qm)(nd := Some n)) x"
    proof (cases x)
      case (Frag b)
      have "b + 48 + qf_size g \<noteq> ?E" if "qm_frags qm b = Some g" "b \<noteq> a" for g
        using ends_inj [OF assms(1) sa, of b "qf_size g"] that by (auto simp: szf_def)
      then show ?thesis using \<open>nd = Frag a\<close> Frag f by (cases "qm_frags qm b") (auto simp: pv_Frag)
    qed (simp add: \<open>nd = Frag a\<close>)
  qed
  moreover have "nx ?qm = nx qm"
  proof
    fix x show "nx ?qm x = nx qm x" by (cases x) (simp_all add: nx_Frag)
  qed
  moreover have "es ?qm = es qm" by (auto simp: es_def e)
  moreover have "set_prev nd n qm = Inr ?qm" by (simp add: Frag frag_at_def f end_at_def e)
  ultimately show ?thesis by (intro exI [of _ ?qm]) (simp add: szf_def core_def fun_eq_iff)
qed

lemma known_cong: "szf qm' = szf qm \<Longrightarrow> known qm' nd = known qm nd"
  by (cases nd) simp_all

text \<open>What linking and unlinking leave alone.\<close>

definition relinked :: "qm_block \<Rightarrow> qm_block \<Rightarrow> bool" where
  "relinked qm qm' \<longleftrightarrow> szf qm' = szf qm \<and> es qm' = es qm \<and> core qm' = core qm"

lemma relinked_trans: "relinked a b \<Longrightarrow> relinked b c \<Longrightarrow> relinked a c"
  by (simp add: relinked_def)

lemma relinked_layout: "relinked qm qm' \<Longrightarrow> layout qm fs \<Longrightarrow> layout qm' fs"
  using layout_cong [of qm fs qm'] core_sel(5,6) [of qm' qm] by (simp add: relinked_def)

lemma relinked_known: "relinked qm qm' \<Longrightarrow> known qm' nd = known qm nd"
  using known_cong [of qm' qm nd] by (simp only: relinked_def)

lemma set_nxt_relinked:
  "known qm nd \<Longrightarrow> \<exists>qm'. set_nxt nd n qm = Inr qm' \<and> relinked qm qm' \<and>
     nx qm' = (nx qm)(nd := Some n) \<and> pv qm' = pv qm"
  using set_nxt_ok [of qm nd n] by (auto simp only: relinked_def)

lemma set_prev_relinked:
  "layout qm fs \<Longrightarrow> known qm nd \<Longrightarrow> \<exists>qm'. set_prev nd n qm = Inr qm' \<and> relinked qm qm' \<and>
     nx qm' = nx qm \<and> pv qm' = (pv qm)(nd := Some n)"
  using set_prev_ok [of qm fs nd n] by (auto simp only: relinked_def)

lemma link_before_ok:
  assumes "layout qm fs" "known qm (Frag a)" "known qm f" "pv qm f = Some prev" "known qm prev"
  shows "\<exists>qm'. link_before a f qm = Inr qm' \<and> relinked qm qm' \<and>
    nx qm' = (nx qm)(prev := Some (Frag a), Frag a := Some f) \<and>
    pv qm' = (pv qm)(Frag a := Some prev, f := Some (Frag a))"
proof -
  from set_nxt_relinked [OF assms(5), of "Frag a"] obtain q1 where
    q1: "set_nxt prev (Frag a) qm = Inr q1" "relinked qm q1" "nx q1 = (nx qm)(prev := Some (Frag a))" "pv q1 = pv qm"
    by (elim exE conjE) (rule that)
  have l1: "layout q1 fs" "known q1 (Frag a)" "known q1 f"
    using relinked_layout [OF q1(2) assms(1)] relinked_known [OF q1(2)] assms(2,3) by blast+
  from set_prev_relinked [OF l1(1,2), of prev] obtain q2 where
    q2: "set_prev (Frag a) prev q1 = Inr q2" "relinked q1 q2" "nx q2 = nx q1" "pv q2 = (pv q1)(Frag a := Some prev)"
    by (elim exE conjE) (rule that)
  have l2: "layout q2 fs" "known q2 (Frag a)" "known q2 f"
    using relinked_layout [OF q2(2) l1(1)] relinked_known [OF q2(2)] l1(2,3) by blast+
  from set_nxt_relinked [OF l2(2), of f] obtain q3 where
    q3: "set_nxt (Frag a) f q2 = Inr q3" "relinked q2 q3" "nx q3 = (nx q2)(Frag a := Some f)" "pv q3 = pv q2"
    by (elim exE conjE) (rule that)
  have l3: "layout q3 fs" "known q3 f"
    using relinked_layout [OF q3(2) l2(1)] relinked_known [OF q3(2)] l2(3) by blast+
  from set_prev_relinked [OF l3, of "Frag a"] obtain q4 where
    q4: "set_prev f (Frag a) q3 = Inr q4" "relinked q3 q4" "nx q4 = nx q3" "pv q4 = (pv q3)(f := Some (Frag a))"
    by (elim exE conjE) (rule that)
  have "relinked qm q4" using q1(2) q2(2) q3(2) q4(2) relinked_trans by blast
  moreover have "prev_free qm f = Inr prev" using assms(4) by (simp add: prev_free_iff)
  ultimately show ?thesis
    using q1 q2 q3 q4 by (intro exI [of _ q4]) (simp add: link_before_def)
qed

lemma detach_links:
  assumes "layout qm fs" "pv qm (Frag a) = Some p" "nx qm (Frag a) = Some n" "known qm p" "known qm n"
  shows "\<exists>qm'. qm_detach_free a qm = Inr qm' \<and> relinked qm qm' \<and>
    nx qm' = (nx qm)(p := Some n) \<and> pv qm' = (pv qm)(n := Some p)"
proof -
  from set_nxt_relinked [OF assms(4), of n] obtain q1 where
    q1: "set_nxt p n qm = Inr q1" "relinked qm q1" "nx q1 = (nx qm)(p := Some n)" "pv q1 = pv qm"
    by (elim exE conjE) (rule that)
  have l1: "layout q1 fs" "known q1 n"
    using relinked_layout [OF q1(2) assms(1)] relinked_known [OF q1(2)] assms(5) by blast+
  from set_prev_relinked [OF l1, of p] obtain q2 where
    q2: "set_prev n p q1 = Inr q2" "relinked q1 q2" "nx q2 = nx q1" "pv q2 = (pv q1)(n := Some p)"
    by (elim exE conjE) (rule that)
  have "relinked qm q2" using q1(2) q2(2) relinked_trans by blast
  moreover have "prev_free qm (Frag a) = Inr p" "nxt_free qm (Frag a) = Inr n"
    using assms(2,3) by (simp_all only: prev_free_iff nxt_free_iff)
  ultimately show ?thesis
    using q1 q2 by (intro exI [of _ q2]) (simp add: qm_detach_free_def)
qed

section \<open>Rings\<close>

definition ring :: "qm_block \<Rightarrow> nat \<Rightarrow> nat list \<Rightarrow> bool" where
  "ring qm h xs \<longleftrightarrow> seg (nx qm) (pv qm) (Head h) xs (Head h) \<and> distinct xs \<and>
     (\<forall>a \<in> set xs. \<exists>s. szf qm a = Some s \<and> GET_HASH s = h) \<and>
     sorted (map (\<lambda>a. the (szf qm a)) xs)"

definition rings :: "qm_block \<Rightarrow> (nat \<Rightarrow> nat list) \<Rightarrow> bool" where
  "rings qm L \<longleftrightarrow> (\<forall>h. ring qm h (L h) \<and> qm_no qm h = length (L h))"

lemma ringsD:
  assumes "rings qm L"
  shows "seg (nx qm) (pv qm) (Head h) (L h) (Head h)" "distinct (L h)"
    "a \<in> set (L h) \<Longrightarrow> \<exists>s. szf qm a = Some s \<and> GET_HASH s = h"
    "sorted (map (\<lambda>a. the (szf qm a)) (L h))" "qm_no qm h = length (L h)"
    "a \<in> set (L h) \<Longrightarrow> a \<in> set (L h') \<Longrightarrow> h = h'"
    "a \<in> set (L h) \<Longrightarrow> nx qm (Frag a) \<noteq> None"
proof -
  show "seg (nx qm) (pv qm) (Head h) (L h) (Head h)" "distinct (L h)"
    "a \<in> set (L h) \<Longrightarrow> \<exists>s. szf qm a = Some s \<and> GET_HASH s = h"
    "sorted (map (\<lambda>a. the (szf qm a)) (L h))" "qm_no qm h = length (L h)"
    using assms by (simp_all add: rings_def ring_def)
  show "a \<in> set (L h) \<Longrightarrow> a \<in> set (L h') \<Longrightarrow> h = h'"
    using assms unfolding rings_def ring_def by (metis option.inject)
  show "a \<in> set (L h) \<Longrightarrow> nx qm (Frag a) \<noteq> None"
    using assms seg_next [of "nx qm" "pv qm" "Head h" "L h" "Head h" a] by (auto simp: rings_def ring_def)
qed

lemma ring_cong:
  assumes "ring qm h xs" "nx qm' (Head h) = nx qm (Head h)" "pv qm' (Head h) = pv qm (Head h)"
    "\<And>a. a \<in> set xs \<Longrightarrow> nx qm' (Frag a) = nx qm (Frag a) \<and> pv qm' (Frag a) = pv qm (Frag a) \<and> szf qm' a = szf qm a"
  shows "ring qm' h xs"
proof -
  have m: "map (\<lambda>a. the (szf qm' a)) xs = map (\<lambda>a. the (szf qm a)) xs" using assms(4) by simp
  have "sorted (map (\<lambda>a. the (szf qm' a)) xs)" unfolding m using assms(1) by (simp add: ring_def)
  moreover have "seg (nx qm') (pv qm') (Head h) xs (Head h)"
  proof (rule seg_cong)
    show "seg (nx qm) (pv qm) (Head h) xs (Head h)" using assms(1) by (simp add: ring_def)
  qed (use assms(2-4) in blast)+
  ultimately show ?thesis using assms(1,4) by (simp add: ring_def)
qed

text \<open>The heap: \<open>fs\<close> are its fragments in the order of addresses, \<open>L h\<close> is the free list of hash \<open>h\<close>.\<close>

definition heap_ok :: "qm_block \<Rightarrow> nat list \<Rightarrow> (nat \<Rightarrow> nat list) \<Rightarrow> bool" where
  "heap_ok qm fs L \<longleftrightarrow> layout qm fs \<and> rings qm L \<and>
     (\<forall>a \<in> set fs. nx qm (Frag a) \<noteq> None \<longrightarrow> (\<exists>h. a \<in> set (L h)))"

lemma heapD:
  assumes "heap_ok qm fs L"
  shows "layout qm fs" "rings qm L" "a \<in> set (L h) \<Longrightarrow> a \<in> set fs"
    "a \<in> set fs \<Longrightarrow> nx qm (Frag a) \<noteq> None \<longleftrightarrow> (\<exists>h. a \<in> set (L h))"
proof -
  show l: "layout qm fs" and r: "rings qm L" using assms by (simp_all add: heap_ok_def)
  show "a \<in> set fs" if "a \<in> set (L h)" using ringsD(3) [OF r that] layoutD(4) [OF l] by blast
  have f: "\<forall>a \<in> set fs. nx qm (Frag a) \<noteq> None \<longrightarrow> (\<exists>h. a \<in> set (L h))" using assms by (simp add: heap_ok_def)
  show "nx qm (Frag a) \<noteq> None \<longleftrightarrow> (\<exists>h. a \<in> set (L h))" if "a \<in> set fs"
    using f that ringsD(7) [OF r, of a] by auto
qed

end
