(* ===== verification/Q_Ops.thy ===== *)
theory Q_Ops
  imports Q_Heap
begin

text \<open>
  The operations of the allocator keep the invariant of the heap, with what they do to the
  fragments and the free lists.
\<close>

section \<open>Linking a free fragment\<close>

definition kept :: "qm_block \<Rightarrow> qm_block \<Rightarrow> bool" where
  "kept qm qm' \<longleftrightarrow> szf qm' = szf qm \<and> es qm' = es qm \<and> core (qm'\<lparr>qm_no := qm_no qm\<rparr>) = core qm"

lemma kept_sel:
  assumes "kept qm qm'"
  shows "szf qm' = szf qm" "qm_size qm' = qm_size qm" "qm_used qm' = qm_used qm"
    "qm_real_used qm' = qm_real_used qm" "qm_max_real_used qm' = qm_max_real_used qm"
    "qm_first_frag qm' = qm_first_frag qm" "qm_last_frag_end qm' = qm_last_frag_end qm"
    "qm_mem qm' = qm_mem qm" "es qm' = es qm"
  using assms by (simp_all add: kept_def core_def)

lemma kept_layout: "kept qm qm' \<Longrightarrow> layout qm fs \<Longrightarrow> layout qm' fs"
  by (rule layout_cong) (simp_all add: kept_sel)

lemma views_no [simp]:
  "nx (qm\<lparr>qm_no := g\<rparr>) = nx qm" "pv (qm\<lparr>qm_no := g\<rparr>) = pv qm" "szf (qm\<lparr>qm_no := g\<rparr>) = szf qm"
  "es (qm\<lparr>qm_no := g\<rparr>) = es qm"
proof -
  show "nx (qm\<lparr>qm_no := g\<rparr>) = nx qm"
  proof
    fix x show "nx (qm\<lparr>qm_no := g\<rparr>) x = nx qm x" by (cases x) (simp_all add: nx_Frag)
  qed
  show "pv (qm\<lparr>qm_no := g\<rparr>) = pv qm"
  proof
    fix x show "pv (qm\<lparr>qm_no := g\<rparr>) x = pv qm x" by (cases x) (simp_all add: pv_Frag)
  qed
qed (simp_all add: szf_def es_def fun_eq_iff)

lemma insert_pos_ok:
  "seg (nx qm) (pv qm) u xs (Head h) \<Longrightarrow> (\<And>x. x \<in> set xs \<Longrightarrow> szf qm x \<noteq> None) \<Longrightarrow>
   insert_pos s g (first_node xs (Head h)) qm =
     Some (Inr (first_node (dropWhile (\<lambda>x. the (szf qm x) < s) xs) (Head h)))"
proof (induction xs arbitrary: u)
  case Nil then show ?case by (simp add: insert_pos.simps)
next
  case (Cons x xs)
  have sg: "seg (nx qm) (pv qm) (Frag x) xs (Head h)" using Cons.prems(1) by simp
  obtain f where f: "qm_frags qm x = Some f" using Cons.prems(2) [of x] by (auto simp: szf_def)
  have n: "qf_nxt f = Some (first_node xs (Head h))" using seg_first [OF sg] f by (simp add: nx_Frag)
  have "insert_pos s g (first_node xs (Head h)) qm =
     Some (Inr (first_node (dropWhile (\<lambda>x. the (szf qm x) < s) xs) (Head h)))"
    using Cons.IH [OF sg] Cons.prems(2) by simp
  then show ?case
    by (subst insert_pos.simps) (simp add: frag_at_def f n szf_def not_le)
qed

lemma tile_length: "tile sz a xs b \<Longrightarrow> a + 96 * length xs \<le> b"
proof (induction xs arbitrary: a)
  case (Cons x xs)
  then obtain s where "tile sz (a + s + 96) xs b" by auto
  from Cons.IH [OF this] show ?case by simp
qed simp

lemma list_small:
  assumes "layout qm fs" "distinct xs" "set xs \<subseteq> set fs"
  shows "length xs + 1 < 2 ^ 64"
proof -
  have "length xs = card (set xs)" using assms(2) by (simp add: distinct_card)
  also have "\<dots> \<le> card (set fs)" using assms(3) by (simp add: card_mono)
  also have "\<dots> \<le> length fs" by (rule card_length)
  finally have "length xs \<le> length fs" .
  moreover have "96 * length fs \<le> qm_last_frag_end qm + 48"
    using tile_length [OF layoutD(1) [OF assms(1)]] by linarith
  moreover have "qm_last_frag_end qm + 48 < 2 ^ 64" using layoutD(5) [OF assms(1)] .
  ultimately show ?thesis by linarith
qed

lemma sorted_insert_mid:
  assumes "sorted (map f (ws @ ys))" "\<And>x. x \<in> set ws \<Longrightarrow> f x \<le> f a" "\<And>y. y \<in> set ys \<Longrightarrow> f a \<le> (f y :: nat)"
  shows "sorted (map f (ws @ a # ys))"
  using assms by (auto simp: sorted_append)

lemma distinct_mid: "distinct (ws @ ys) \<Longrightarrow> a \<notin> set (ws @ ys) \<Longrightarrow> distinct (ws @ a # ys)"
  by auto

lemma sorted_dropWhile:
  "sorted (map f xs) \<Longrightarrow> y \<in> set (dropWhile (\<lambda>x. f x < (s::nat)) xs) \<Longrightarrow> s \<le> f y"
proof (induction xs)
  case (Cons x xs) then show ?case by (cases "f x < s") auto
qed simp

lemma insert_free_ok:
  assumes "layout qm fs" "rings qm L" "szf qm a = Some s" "\<And>h. a \<notin> set (L h)"
  shows "\<exists>qm' xs. qm_insert_free a qm = Some (Inr qm') \<and> kept qm qm' \<and>
    rings qm' (L(GET_HASH s := xs)) \<and> set xs = insert a (set (L (GET_HASH s))) \<and>
    (\<forall>b. b \<noteq> a \<longrightarrow> (nx qm' (Frag b) = None) = (nx qm (Frag b) = None))"
proof -
  let ?h = "GET_HASH s"
  let ?P = "\<lambda>x. the (szf qm x) < s"
  let ?ws = "takeWhile ?P (L ?h)" and ?ys = "dropWhile ?P (L ?h)"
  note R = ringsD [OF assms(2)]
  let ?f = "first_node ?ys (Head ?h)" and ?p = "last_node (Head ?h) ?ws"
  have spl: "?ws @ ?ys = L ?h" by simp
  have ps: "insert_pos s ?h (qm_head qm ?h) qm = Some (Inr ?f)"
  proof -
    have "qm_head qm ?h = first_node (L ?h) (Head ?h)" using seg_first [OF R(1) [of ?h]] by simp
    then show ?thesis using insert_pos_ok [OF R(1) [of ?h], of s ?h] R(3) by fastforce
  qed
  have sg: "seg (nx qm) (pv qm) (Head ?h) (?ws @ ?ys) (Head ?h)" using R(1) [of ?h] by simp
  have kn: "known qm nd" if "nd \<in> insert (Head ?h) (Frag ` set (L ?h))" for nd
    using that R(3) [of _ ?h] by (cases nd) auto
  have ff: "?f \<in> insert (Head ?h) (Frag ` set (L ?h))"
    using first_node_in [of ?ys "Head ?h"] set_dropWhileD [of _ ?P "L ?h"] by auto
  have pp: "?p \<in> insert (Head ?h) (Frag ` set (L ?h))"
    using last_node_in [of "Head ?h" ?ws] set_takeWhileD [of _ ?P "L ?h"] by auto
  have pvf: "pv qm ?f = Some ?p" using seg_prev [OF sg] .
  have ka: "known qm (Frag a)" using assms(3) by simp
  from link_before_ok [OF assms(1) ka kn [OF ff] pvf kn [OF pp]] obtain q1 where
    q1: "link_before a ?f qm = Inr q1" "relinked qm q1"
    "nx q1 = (nx qm)(?p := Some (Frag a), Frag a := Some ?f)"
    "pv q1 = (pv qm)(Frag a := Some ?p, ?f := Some (Frag a))" by (elim exE conjE) (rule that)
  let ?q = "q1\<lparr>qm_no := (qm_no q1)(?h := add64 (qm_no q1 ?h) 1)\<rparr>"
  let ?xs = "?ws @ a # ?ys"
  have no: "qm_no q1 = qm_no qm" using core_sel(7) [of q1 qm] q1(2) by (simp add: relinked_def)
  have sz1: "szf q1 = szf qm" using q1(2) by (simp add: relinked_def)
  have fr: "frag_at qm a = Inr (the (qm_frags qm a))" "qf_size (the (qm_frags qm a)) = s"
    using assms(3) by (auto simp: szf_def frag_at_def)
  have run: "qm_insert_free a qm = Some (Inr ?q)"
    using ps q1(1) by (simp add: qm_insert_free_def fr)
  have kp: "kept qm ?q" using q1(2) unfolding kept_def relinked_def core_def by simp
  have rh: "ring ?q ?h ?xs"
  proof -
    have d: "distinct (?ws @ ?ys)" "a \<notin> set (?ws @ ?ys)" using R(2) assms(4) by simp_all
    have "seg (nx q1) (pv q1) (Head ?h) ?xs (Head ?h)"
      by (rule seg_insert [OF sg d _ _ _ _ q1(3,4)]) auto
    moreover have "distinct ?xs" using d by (rule distinct_mid)
    moreover have "\<forall>x \<in> set ?xs. \<exists>t. szf qm x = Some t \<and> GET_HASH t = ?h"
    proof
      fix x assume "x \<in> set ?xs"
      then have "x = a \<or> x \<in> set (?ws @ ?ys)" by (simp only: set_append set_simps) blast
      then show "\<exists>t. szf qm x = Some t \<and> GET_HASH t = ?h" unfolding spl using assms(3) R(3) by blast
    qed
    moreover have "sorted (map (\<lambda>x. the (szf qm x)) ?xs)"
    proof (rule sorted_insert_mid)
      show "sorted (map (\<lambda>x. the (szf qm x)) (?ws @ ?ys))" using R(4) [of ?h] by simp
      show "\<And>x. x \<in> set ?ws \<Longrightarrow> the (szf qm x) \<le> the (szf qm a)"
        using set_takeWhileD [of _ ?P "L ?h"] assms(3) by fastforce
      show "\<And>y. y \<in> set ?ys \<Longrightarrow> the (szf qm a) \<le> the (szf qm y)"
        using sorted_dropWhile [OF R(4) [of ?h]] assms(3) by simp
    qed
    ultimately show ?thesis by (simp add: ring_def sz1)
  qed
  have ro: "ring ?q g (L g)" if "g \<noteq> ?h" for g
  proof (rule ring_cong)
    show "ring qm g (L g)" using assms(2) by (simp add: rings_def)
    have z: "Head g \<noteq> ?p" "Head g \<noteq> ?f" using ff pp that by auto
    then show "nx ?q (Head g) = nx qm (Head g)" "pv ?q (Head g) = pv qm (Head g)"
      by (simp_all add: q1(3,4))
    fix b assume b: "b \<in> set (L g)"
    then have "b \<notin> set (L ?h)" "b \<noteq> a" using R(6) that assms(4) by blast+
    then have "Frag b \<noteq> ?p" "Frag b \<noteq> ?f" using ff pp by auto
    with \<open>b \<noteq> a\<close> show "nx ?q (Frag b) = nx qm (Frag b) \<and> pv ?q (Frag b) = pv qm (Frag b) \<and> szf ?q b = szf qm b"
      by (simp add: q1(3,4) sz1)
  qed
  have "rings ?q (L(?h := ?xs))"
  proof -
    have "set (L ?h) \<subseteq> set fs" using R(3) layoutD(4) [OF assms(1)] by blast
    from list_small [OF assms(1) R(2) this] have "add64 (length (L ?h)) 1 = length (L ?h) + 1"
      by (simp add: add64_def)
    moreover have "length ?xs = length (L ?h) + 1"
      using arg_cong [OF spl, of length, unfolded length_append] by simp
    ultimately show ?thesis using rh ro R(5) by (simp add: rings_def no)
  qed
  moreover have "set ?xs = insert a (set (L ?h))" using arg_cong [OF spl, of set, unfolded set_append] by auto
  moreover have "(nx ?q (Frag b) = None) = (nx qm (Frag b) = None)" if "b \<noteq> a" for b
  proof (cases "Frag b = ?p")
    case True
    then have "b \<in> set (L ?h)" using pp by auto
    then have "nx qm (Frag b) \<noteq> None" using R(7) by blast
    moreover have "nx ?q (Frag b) = Some (Frag a)" using True [symmetric] that by (simp add: q1(3))
    ultimately show ?thesis by simp
  qed (use that in \<open>simp add: q1(3)\<close>)
  ultimately show ?thesis using run kp by blast
qed

section \<open>Unlinking\<close>

lemma detach_ok:
  assumes "layout qm fs" "rings qm L" "a \<in> set (L h)"
  shows "\<exists>q. qm_detach_free a qm = Inr q \<and> relinked qm q \<and>
    (\<forall>b. (nx q (Frag b) = None) = (nx qm (Frag b) = None)) \<and>
    (\<forall>g. ring q g ((L(h := remove1 a (L h))) g))"
proof -
  note R = ringsD [OF assms(2)]
  obtain ws ys where spl: "L h = ws @ a # ys" using assms(3) by (metis split_list)
  let ?n = "first_node ys (Head h)" and ?p = "last_node (Head h) ws"
  have sg: "seg (nx qm) (pv qm) (Head h) (ws @ a # ys) (Head h)" using R(1) [of h] spl by simp
  have d: "distinct (ws @ a # ys)" using R(2) [of h] spl by simp
  then have rm: "remove1 a (L h) = ws @ ys" unfolding spl by (simp add: remove1_append)
  have kn: "known qm nd" if "nd \<in> insert (Head h) (Frag ` set (L h))" for nd
    using that R(3) [of _ h] by (cases nd) auto
  have nn: "?n \<in> insert (Head h) (Frag ` set ys)" using first_node_in [of ys "Head h"] by auto
  have pp: "?p \<in> insert (Head h) (Frag ` set ws)" using last_node_in [of "Head h" ws] by auto
  have k: "known qm ?p" "known qm ?n" using nn pp spl by (auto intro!: kn)
  from detach_links [OF assms(1) _ _ k] seg_around [OF sg] obtain q where
    q: "qm_detach_free a qm = Inr q" "relinked qm q" "nx q = (nx qm)(?p := Some ?n)" "pv q = (pv qm)(?n := Some ?p)"
    by blast
  have sz: "szf q = szf qm" using q(2) by (simp add: relinked_def)
  have none: "(nx q (Frag b) = None) = (nx qm (Frag b) = None)" for b
  proof (cases "Frag b = ?p")
    case True
    then have "b \<in> set (L h)" using pp spl by auto
    then have "nx qm (Frag b) \<noteq> None" using R(7) by blast
    moreover have "nx q (Frag b) = Some ?n" using True [symmetric] by (simp add: q(3))
    ultimately show ?thesis by simp
  qed (simp add: q(3))
  have rh: "ring q h (ws @ ys)"
  proof -
    have "seg (nx q) (pv q) (Head h) (ws @ ys) (Head h)"
      by (rule seg_remove [OF sg d _ _ q(3,4)]) auto
    moreover have "sorted (map (\<lambda>a. the (szf qm a)) (ws @ ys))"
      using R(4) [of h] unfolding spl by (simp add: sorted_append)
    ultimately show ?thesis using d R(3) [of _ h] unfolding spl by (simp add: ring_def sz)
  qed
  have "ring q g (L g)" if "g \<noteq> h" for g
  proof (rule ring_cong)
    show "ring qm g (L g)" using assms(2) by (simp add: rings_def)
    have "Head g \<noteq> ?p" "Head g \<noteq> ?n" using nn pp that by auto
    then show "nx q (Head g) = nx qm (Head g)" "pv q (Head g) = pv qm (Head g)"
      unfolding q(3,4) by (simp_all del: views_Head)
    fix b assume "b \<in> set (L g)"
    then have "b \<notin> set (L h)" using R(6) that by blast
    then have "Frag b \<noteq> ?p" "Frag b \<noteq> ?n" using nn pp spl by auto
    then show "nx q (Frag b) = nx qm (Frag b) \<and> pv q (Frag b) = pv qm (Frag b) \<and> szf q b = szf qm b"
      by (simp add: q(3,4) sz)
  qed
  with q(1,2) none rh rm show ?thesis by simp
qed

section \<open>Splitting\<close>

definition free_frags :: "(nat \<Rightarrow> nat list) \<Rightarrow> nat set" where
  "free_frags L = {a. \<exists>h. a \<in> set (L h)}"

lemma free_frags_iff: "a \<in> free_frags L \<longleftrightarrow> (\<exists>h. a \<in> set (L h))"
  by (simp add: free_frags_def)

text \<open>The two halves before the new one is linked.\<close>

definition halves :: "nat \<Rightarrow> qm_frag \<Rightarrow> nat \<Rightarrow> qm_block \<Rightarrow> qm_block" where
  "halves f r m qm =
     (let n = f + m + 96; k = qf_size r - m - 96; e = f + 48 + qf_size r
      in qm\<lparr>qm_frags := (qm_frags qm)(f \<mapsto> r\<lparr>qf_size := m\<rparr>, n \<mapsto> \<lparr>qf_size = k, qf_nxt = None\<rparr>),
            qm_ends := (qm_ends qm)(f + 48 + m \<mapsto> \<lparr>qe_size = m, qe_prev = None\<rparr>,
              e \<mapsto> \<lparr>qe_size = k, qe_prev = (case qm_ends qm e of None \<Rightarrow> None | Some x \<Rightarrow> qe_prev x)\<rparr>),
            qm_real_used := add64 (qm_real_used qm) 96\<rparr>)"

lemma split_frag_eq:
  assumes "qm_frags qm f = Some r" "m \<le> qf_size r"
  shows "split_frag f m qm =
    (if 96 + 16384 < qf_size r - m \<or> 96 + m \<le> qf_size r - m
     then obind (qm_insert_free (f + m + 96) (halves f r m qm)) (\<lambda>q. Some (Inr (0, q)))
     else Some (Inr (-1, qm)))"
proof -
  have "f + (96 + (m + (48 + (qf_size r - m - 96)))) = f + 48 + qf_size r"
    if "96 + 16384 < qf_size r - m \<or> 96 + m \<le> qf_size r - m" using that assms(2) by linarith
  then show ?thesis
    using assms by (auto simp: split_frag_def frag_at_def Let_def halves_def ac_simps)
qed

lemma halves_views:
  assumes "layout qm fs" "qm_frags qm f = Some r" "m + 96 \<le> qf_size r" "8 dvd m"
    "q = halves f r m qm" "n = f + m + 96" "k = qf_size r - m - 96"
  shows "szf q = (szf qm)(f \<mapsto> m, n \<mapsto> k)" "es q = (es qm)(f + 48 + m \<mapsto> m, f + 48 + qf_size r \<mapsto> k)"
    "nx q = (nx qm)(Frag n := None)" "\<And>b. szf qm b \<noteq> None \<Longrightarrow> b \<noteq> f \<Longrightarrow> pv q (Frag b) = pv qm (Frag b)"
    "pv q (Head h) = pv qm (Head h)" "szf qm n = None"
proof -
  have s: "szf qm f = Some (qf_size r)" using assms(2) by (simp add: szf_def)
  note T = layoutD [OF assms(1)]
  have apart: "f + qf_size r + 96 \<le> b \<or> b + t + 96 \<le> f" if "szf qm b = Some t" "b \<noteq> f" for b t
    using tile_disjoint [OF T(1), of f b] tile_disjoint [OF T(1), of b f] T(4) [OF that(1)] T(4) [OF s] s that
    by (cases "f < b") auto
  show nn: "szf qm n = None"
  proof (rule ccontr)
    assume "szf qm n \<noteq> None"
    then obtain t where "szf qm n = Some t" by blast
    with apart [OF this] assms(3,6) show False by linarith
  qed
  show "szf q = (szf qm)(f \<mapsto> m, n \<mapsto> k)"
    using assms(5-7) by (auto simp: halves_def Let_def szf_def)
  show "es q = (es qm)(f + 48 + m \<mapsto> m, f + 48 + qf_size r \<mapsto> k)"
    using assms(5-7) by (auto simp: halves_def Let_def es_def)
  show "nx q = (nx qm)(Frag n := None)"
  proof
    fix x show "nx q x = ((nx qm)(Frag n := None)) x"
      using assms(2,5,6) nn by (cases x) (auto simp: halves_def Let_def nx_Frag)
  qed
  show "pv q (Head h) = pv qm (Head h)" using assms(5) by (simp add: halves_def Let_def)
  fix b assume b: "szf qm b \<noteq> None" "b \<noteq> f"
  then obtain g where g: "qm_frags qm b = Some g" by (auto simp: szf_def)
  with apart [of b "qf_size g"] b have "f + qf_size r + 96 \<le> b \<or> b + qf_size g + 96 \<le> f"
    by (simp add: szf_def)
  then have "b + 48 + qf_size g \<noteq> f + 48 + m" "b + 48 + qf_size g \<noteq> f + 48 + qf_size r" "b \<noteq> n"
    using assms(3,6) by linarith+
  then show "pv q (Frag b) = pv qm (Frag b)"
    using assms(5,6) g b(2) by (simp add: halves_def Let_def pv_Frag)
qed

lemma halves_layout:
  assumes "layout qm (us @ f # vs)" "qm_frags qm f = Some r" "m + 96 \<le> qf_size r" "8 dvd m"
    "q = halves f r m qm"
  shows "layout q (us @ f # (f + m + 96) # vs)"
proof -
  let ?n = "f + m + 96" and ?k = "qf_size r - m - 96"
  note V = halves_views [OF assms refl refl]
  note T = layoutD [OF assms(1)]
  have s: "szf qm f = Some (qf_size r)" using assms(2) by (simp add: szf_def)
  have c: "qm_first_frag q = qm_first_frag qm" "qm_last_frag_end q = qm_last_frag_end qm"
    using assms(5) by (simp_all add: halves_def Let_def)
  have "8 dvd qf_size r" using T(3) [OF conjunct1 [OF T(4) [OF s]]] s by auto
  moreover have "qf_size r = m + ?k + 96" using assms(3) by simp
  ultimately have k: "8 dvd ?k" "szf qm f = Some (m + ?k + 96)" using assms(4) s by presburger+
  have nf: "?n \<notin> set (us @ f # vs)" using V(6) assms(1) unfolding layout_def by blast
  have "tile (szf q) (qm_first_frag qm) (us @ f # ?n # vs) (qm_last_frag_end qm + 48)"
    unfolding V(1) by (rule tile_split [OF T(1) k(2) assms(4) k(1) T(2) nf])
  moreover have "{a. szf q a \<noteq> None} = set (us @ f # ?n # vs)"
  proof -
    have "{a. szf q a \<noteq> None} = insert f (insert ?n {a. szf qm a \<noteq> None})" unfolding V(1) by auto
    also have "{a. szf qm a \<noteq> None} = set (us @ f # vs)" using assms(1) by (simp add: layout_def)
    finally show ?thesis by auto
  qed
  moreover have "es q (a + 48 + t) = Some t" if t: "szf q a = Some t" for a t
  proof (cases "a = f \<or> a = ?n")
    case True
    with t assms(3) show ?thesis by (auto simp: V(1,2))
  next
    case False
    then have t': "szf qm a = Some t" using t by (simp add: V(1))
    have "f + qf_size r + 96 \<le> a \<or> a + t + 96 \<le> f"
      using tile_disjoint [OF T(1), of f a] tile_disjoint [OF T(1), of a f] T(4) [OF t'] T(4) [OF s] s t' False
      by (cases "f < a") auto
    then have "a + 48 + t \<noteq> f + 48 + m" "a + 48 + t \<noteq> f + 48 + qf_size r" using assms(3) by linarith+
    then show ?thesis using T(4) [OF t'] by (simp add: V(2))
  qed
  ultimately show ?thesis using T(5) by (simp add: layout_def c)
qed

end
