(* ===== verification/Q_Alloc.thy ===== *)
theory Q_Alloc
  imports Q_Ops
begin

text \<open>
  Best fit: the hash of a size is monotone, so the first fragment that \<open>qm_find_free\<close> meets is the
  smallest that is large enough. Then \<open>split_frag\<close>, \<open>qm_malloc\<close> and \<open>qm_free\<close> on the invariant,
  with the accounting.
\<close>

section \<open>Hashes\<close>

lemma hash_loop_bit:
  "n \<le> 63 \<Longrightarrow> 2 ^ (63 - n) \<le> s \<Longrightarrow> s < 2 ^ (64 - n) \<Longrightarrow> n \<le> i \<Longrightarrow> hash_loop s i = Some (i - n)"
proof (induction n arbitrary: s i)
  case 0 then show ?case by (simp add: hash_loop.simps)
next
  case (Suc n)
  have e: "2 * 2 ^ (63 - Suc n) = (2::nat) ^ (63 - n)" "2 * 2 ^ (64 - Suc n) = (2::nat) ^ (64 - n)"
    using Suc.prems(1) by (simp_all flip: power_Suc add: Suc_diff_Suc)
  have h: "2 ^ (63 - n) \<le> 2 * s" "2 * s < 2 ^ (64 - n)" using Suc.prems(2,3) e by linarith+
  have "(2::nat) ^ (64 - Suc n) \<le> 2 ^ 63" by (rule power_increasing) auto
  with Suc.prems(3) have s: "\<not> 2 ^ 63 \<le> s" by linarith
  have "(2::nat) ^ (64 - n) \<le> 2 ^ 64" by (rule power_increasing) auto
  with h(2) have "2 * s mod 2 ^ 64 = 2 * s" by (intro mod_less) linarith
  with s have "hash_loop s i = hash_loop (2 * s) (i - 1)" by (subst hash_loop.simps) simp
  also have "\<dots> = Some (i - 1 - n)" using Suc.prems(1,4) h by (intro Suc.IH) auto
  finally show ?case by simp
qed

lemma big_hash: "2 ^ k \<le> s \<Longrightarrow> s < 2 ^ (k + 1) \<Longrightarrow> k \<le> 63 \<Longrightarrow> big_hash_idx s = Some k"
  using hash_loop_bit [of "63 - k" s 63] by (simp add: big_hash_idx_def Suc_diff_le)

lemma log_exists:
  assumes "0 < (s::nat)" "s < 2 ^ 64"
  shows "\<exists>k \<le> 63. 2 ^ k \<le> s \<and> s < 2 ^ (k + 1)"
proof -
  obtain k where k: "2 ^ k \<le> s" "s < 2 ^ (k + 1)" using ex_power_ivl1 [of 2 s] assms(1) by auto
  have "\<not> 64 \<le> k"
  proof
    assume "64 \<le> k"
    then have "(2::nat) ^ 64 \<le> 2 ^ k" by (rule power_increasing) simp
    with k(1) assms(2) show False by linarith
  qed
  with k show ?thesis by (intro exI [of _ k]) auto
qed

lemma hash_big:
  assumes "16384 < s" "s < 2 ^ 64"
  shows "\<exists>k. 14 \<le> k \<and> k \<le> 63 \<and> 2 ^ k \<le> s \<and> s < 2 ^ (k + 1) \<and> GET_HASH s = 2035 + k"
proof -
  obtain k where k: "k \<le> 63" "2 ^ k \<le> s" "s < 2 ^ (k + 1)" using log_exists [of s] assms by auto
  have "\<not> k + 1 \<le> 14"
  proof
    assume "k + 1 \<le> 14"
    then have "(2::nat) ^ (k + 1) \<le> 2 ^ 14" by (rule power_increasing) simp
    with k(3) assms(1) show False by simp
  qed
  with k assms(1) show ?thesis by (auto simp: GET_HASH_def big_hash)
qed

lemma hash_less: "s < 2 ^ 64 \<Longrightarrow> GET_HASH s < 2099"
proof (cases "16384 < s")
  case True
  assume "s < 2 ^ 64"
  with hash_big [OF True] show ?thesis by auto
next
  case False
  then show ?thesis by (simp add: GET_HASH_def)
qed

lemma hash_mono:
  assumes "s \<le> t" "t < 2 ^ 64"
  shows "GET_HASH s \<le> GET_HASH t"
proof (cases "16384 < t")
  case big: True
  from hash_big [OF this assms(2)] obtain k where k: "14 \<le> k" "t < 2 ^ (k + 1)" "GET_HASH t = 2035 + k" by blast
  show ?thesis
  proof (cases "16384 < s")
    case True
    have "s < 2 ^ 64" using assms by linarith
    from hash_big [OF True this] obtain j where j: "2 ^ j \<le> s" "GET_HASH s = 2035 + j" by blast
    have "\<not> k + 1 \<le> j"
    proof
      assume "k + 1 \<le> j"
      then have "(2::nat) ^ (k + 1) \<le> 2 ^ j" by (rule power_increasing) simp
      with j(1) k(2) assms(1) show False by linarith
    qed
    with j(2) k(3) show ?thesis by simp
  next
    case False
    then have "GET_HASH s \<le> 2048" by (simp add: GET_HASH_def)
    with k show ?thesis by simp
  qed
next
  case False
  with assms(1) show ?thesis by (simp add: GET_HASH_def div_le_mono)
qed

section \<open>Finding\<close>

lemma find_in_ok:
  "seg (nx qm) (pv qm) u xs (Head h) \<Longrightarrow> (\<And>x. x \<in> set xs \<Longrightarrow> szf qm x \<noteq> None) \<Longrightarrow>
   find_in s (first_node xs (Head h)) qm = Some (Inr (find (\<lambda>x. s \<le> the (szf qm x)) xs))"
proof (induction xs arbitrary: u)
  case Nil then show ?case by (simp add: find_in.simps)
next
  case (Cons x xs)
  have sg: "seg (nx qm) (pv qm) (Frag x) xs (Head h)" using Cons.prems(1) by simp
  obtain f where f: "qm_frags qm x = Some f" using Cons.prems(2) [of x] by (auto simp: szf_def)
  have n: "qf_nxt f = Some (first_node xs (Head h))" using seg_first [OF sg] f by (simp add: nx_Frag)
  have "find_in s (first_node xs (Head h)) qm = Some (Inr (find (\<lambda>x. s \<le> the (szf qm x)) xs))"
    using Cons.IH [OF sg] Cons.prems(2) by simp
  then show ?case by (subst find_in.simps) (simp add: frag_at_def f n szf_def)
qed

lemma find_in_ring:
  assumes "rings qm L"
  shows "find_in s (qm_head qm h) qm = Some (Inr (find (\<lambda>x. s \<le> the (szf qm x)) (L h)))"
proof -
  note R = ringsD [OF assms]
  have "qm_head qm h = first_node (L h) (Head h)" using seg_first [OF R(1) [of h]] by simp
  moreover have "\<And>x. x \<in> set (L h) \<Longrightarrow> szf qm x \<noteq> None" using R(3) by fastforce
  ultimately show ?thesis using find_in_ok [OF R(1) [of h]] by simp
qed

lemma find_from_ok:
  assumes "rings qm L"
  shows "\<exists>r. find_from s hs qm = Some (Inr r) \<and>
    (case r of
       None \<Rightarrow> \<forall>h \<in> set hs. find (\<lambda>x. s \<le> the (szf qm x)) (L h) = None
     | Some (a, h) \<Rightarrow> \<exists>pre post. hs = pre @ h # post \<and> find (\<lambda>x. s \<le> the (szf qm x)) (L h) = Some a \<and>
         (\<forall>g \<in> set pre. find (\<lambda>x. s \<le> the (szf qm x)) (L g) = None))"
proof (induction hs)
  case (Cons h hs)
  show ?case
  proof (cases "find (\<lambda>x. s \<le> the (szf qm x)) (L h)")
    case None
    from Cons.IH obtain r where r: "find_from s hs qm = Some (Inr r)"
      "case r of None \<Rightarrow> \<forall>h \<in> set hs. find (\<lambda>x. s \<le> the (szf qm x)) (L h) = None
       | Some (a, h) \<Rightarrow> \<exists>pre post. hs = pre @ h # post \<and> find (\<lambda>x. s \<le> the (szf qm x)) (L h) = Some a \<and>
           (\<forall>g \<in> set pre. find (\<lambda>x. s \<le> the (szf qm x)) (L g) = None)" by blast
    have run: "find_from s (h # hs) qm = Some (Inr r)" using r(1) None by (simp add: find_in_ring [OF assms])
    show ?thesis
    proof (cases r)
      case None': None
      with r(2) None run show ?thesis by auto
    next
      case (Some ah)
      obtain a g where ah: "ah = (a, g)" by (cases ah)
      with r(2) Some obtain pre post where "hs = pre @ g # post" "find (\<lambda>x. s \<le> the (szf qm x)) (L g) = Some a"
        "\<forall>g \<in> set pre. find (\<lambda>x. s \<le> the (szf qm x)) (L g) = None" by auto
      then have "\<exists>pre post. h # hs = pre @ g # post \<and> find (\<lambda>x. s \<le> the (szf qm x)) (L g) = Some a \<and>
          (\<forall>g \<in> set pre. find (\<lambda>x. s \<le> the (szf qm x)) (L g) = None)"
        using None by (intro exI [of _ "h # pre"] exI [of _ post]) simp
      with run Some ah show ?thesis by (intro exI [of _ r]) simp
    qed
  next
    case (Some a)
    have "\<exists>pre post. h # hs = pre @ h # post \<and> find (\<lambda>x. s \<le> the (szf qm x)) (L h) = Some a \<and>
        (\<forall>g \<in> set pre. find (\<lambda>x. s \<le> the (szf qm x)) (L g) = None)"
      using Some by (intro exI [of _ "[]"] exI [of _ hs]) simp
    with Some show ?thesis
      by (intro exI [of _ "Some (a, h)"]) (simp add: find_in_ring [OF assms])
  qed
qed simp

lemma sorted_find:
  "sorted (map f xs) \<Longrightarrow> find (\<lambda>x. s \<le> f x) xs = Some a \<Longrightarrow> b \<in> set xs \<Longrightarrow> s \<le> (f b :: nat) \<Longrightarrow> f a \<le> f b"
  by (induction xs) (auto split: if_splits)

text \<open>A free fragment is found exactly when one is large enough, and then a smallest one.\<close>

lemma find_free_ok:
  assumes "heap_ok qm fs L"
  shows "\<exists>r. qm_find_free s qm = Some (Inr r) \<and>
    (case r of
       None \<Rightarrow> \<forall>b \<in> free_frags L. the (szf qm b) < s
     | Some (a, h) \<Rightarrow> a \<in> set (L h) \<and> s \<le> the (szf qm a) \<and>
         (\<forall>b \<in> free_frags L. s \<le> the (szf qm b) \<longrightarrow> the (szf qm a) \<le> the (szf qm b)))"
proof -
  note R = ringsD [OF heapD(2) [OF assms]]
  have in_range: "h \<in> set [GET_HASH s..<QM_HASH_SIZE]" and small: "the (szf qm b) < 2 ^ 64"
    and hb: "h = GET_HASH (the (szf qm b))" if bh: "b \<in> set (L h)" "s \<le> the (szf qm b)" for b h
  proof -
    obtain t where t: "szf qm b = Some t" "GET_HASH t = h" using R(3) [OF bh(1)] by blast
    have "b + t + 96 \<le> qm_last_frag_end qm + 48"
      using layoutD(3) [OF heapD(1) [OF assms] heapD(3) [OF assms bh(1)]] t(1) by auto
    with layoutD(5) [OF heapD(1) [OF assms]] have "t < 2 ^ 64" by linarith
    with t show "the (szf qm b) < 2 ^ 64" "h = GET_HASH (the (szf qm b))" by simp_all
    with hash_mono [OF bh(2)] hash_less show "h \<in> set [GET_HASH s..<QM_HASH_SIZE]" by simp
  qed
  from find_from_ok [OF heapD(2) [OF assms], of s "[GET_HASH s..<QM_HASH_SIZE]"] obtain r where
    r: "qm_find_free s qm = Some (Inr r)"
    "case r of None \<Rightarrow> \<forall>h \<in> set [GET_HASH s..<QM_HASH_SIZE]. find (\<lambda>x. s \<le> the (szf qm x)) (L h) = None
     | Some (a, h) \<Rightarrow> \<exists>pre post. [GET_HASH s..<QM_HASH_SIZE] = pre @ h # post \<and>
         find (\<lambda>x. s \<le> the (szf qm x)) (L h) = Some a \<and>
         (\<forall>g \<in> set pre. find (\<lambda>x. s \<le> the (szf qm x)) (L g) = None)"
    unfolding qm_find_free_def by blast
  show ?thesis
  proof (cases r)
    case None
    have "the (szf qm b) < s" if bl: "b \<in> free_frags L" for b
    proof (rule ccontr)
      assume n: "\<not> the (szf qm b) < s"
      obtain h where h: "b \<in> set (L h)" using bl by (auto simp: free_frags_def)
      with n in_range [OF h] r(2) None have "find (\<lambda>x. s \<le> the (szf qm x)) (L h) = None" by simp
      with h n show False by (auto simp: find_None_iff)
    qed
    with r(1) None show ?thesis by auto
  next
    case (Some ah)
    obtain a h where ah: "ah = (a, h)" by (cases ah)
    with r(2) Some obtain pre post where p: "[GET_HASH s..<QM_HASH_SIZE] = pre @ h # post"
      "find (\<lambda>x. s \<le> the (szf qm x)) (L h) = Some a"
      "\<forall>g \<in> set pre. find (\<lambda>x. s \<le> the (szf qm x)) (L g) = None" by auto
    have a: "a \<in> set (L h)" "s \<le> the (szf qm a)" using p(2) by (auto simp: find_Some_iff)
    have "the (szf qm a) \<le> the (szf qm b)" if b: "b \<in> free_frags L" "s \<le> the (szf qm b)" for b
    proof -
      obtain g where g: "b \<in> set (L g)" using b(1) by (auto simp: free_frags_def)
      have "g \<notin> set pre" using p(3) g b(2) by (auto simp: find_None_iff)
      then have "g \<in> set (h # post)" using in_range [OF g b(2)] unfolding p(1) by simp
      moreover have "sorted (pre @ h # post)" unfolding p(1) [symmetric] by (rule sorted_upt)
      ultimately have "h \<le> g" by (auto simp: sorted_append)
      then consider "g = h" | "h < g" by linarith
      then show ?thesis
      proof cases
        case 1
        with sorted_find [OF R(4) p(2)] g b(2) show ?thesis by simp
      next
        case 2
        show ?thesis
        proof (rule ccontr)
          assume "\<not> ?thesis"
          then have "GET_HASH (the (szf qm b)) \<le> GET_HASH (the (szf qm a))"
            using hash_mono small [OF a] by simp
          with hb [OF a] hb [OF g b(2)] 2 show False by simp
        qed
      qed
    qed
    with a r(1) Some ah show ?thesis by auto
  qed
qed

end
