(* ===== verification/Q_Safe.thy ===== *)
theory Q_Safe
  imports Q_Alloc
begin

text \<open>
  \<open>split_frag\<close>, \<open>qm_malloc\<close>, \<open>qm_free\<close> and \<open>qm_malloc_init\<close> on the invariant: they end without a
  fault, keep it, change the allocated blocks as they promise, and keep the books.
\<close>

section \<open>Blocks and books\<close>

text \<open>The allocated fragments with their sizes.\<close>

definition ublk :: "qm_block \<Rightarrow> nat \<Rightarrow> nat option" where
  "ublk qm a = (if nx qm (Frag a) = None then szf qm a else None)"

fun weight :: "nat option \<Rightarrow> nat" where
  "weight None = 0"
| "weight (Some s) = s"

definition usum :: "qm_block \<Rightarrow> nat list \<Rightarrow> nat" where
  "usum qm fs = (\<Sum>a\<in>set fs. weight (ublk qm a))"

definition acct :: "qm_block \<Rightarrow> nat list \<Rightarrow> bool" where
  "acct qm fs \<longleftrightarrow> qm_used qm = usum qm fs \<and> qm_real_used qm = 218344 + 96 * length fs + usum qm fs \<and>
     qm_size qm + qm_first_frag qm = 218344 + (qm_last_frag_end qm + 48) \<and> 218344 \<le> qm_first_frag qm"

lemma usum_upd:
  assumes "f \<in> set fs" "ublk q = (ublk qm)(f := v)"
  shows "usum q fs + weight (ublk qm f) = usum qm fs + weight v"
proof -
  have "usum q fs = weight v + (\<Sum>a\<in>set fs - {f}. weight (ublk qm a))"
    unfolding usum_def using assms by (subst sum.remove [of _ f]) (auto intro!: sum.cong)
  moreover have "usum qm fs = weight (ublk qm f) + (\<Sum>a\<in>set fs - {f}. weight (ublk qm a))"
    unfolding usum_def using assms(1) by (subst sum.remove [of _ f]) auto
  ultimately show ?thesis by simp
qed

lemma usum_insert:
  assumes "set gs = insert n (set fs)" "n \<notin> set fs" "ublk q n = None"
  shows "usum q gs = usum q fs"
  using assms by (simp add: usum_def)

lemma tile_total: "tile sz a xs b \<Longrightarrow> a + (\<Sum>x\<in>set xs. weight (sz x)) + 96 * length xs = b"
proof (induction xs arbitrary: a)
  case (Cons x xs)
  then obtain s where s: "x = a" "sz a = Some s" "tile sz (a + s + 96) xs b" by auto
  have "x \<notin> set xs" using tile_distinct [OF Cons.prems] by simp
  with Cons.IH [OF s(3)] s(1,2) show ?case by simp
qed simp

lemma usum_free:
  assumes "layout qm fs" "b \<in> set fs" "ublk qm b = None" "szf qm b = Some t"
  shows "qm_first_frag qm + usum qm fs + t + 96 * length fs \<le> qm_last_frag_end qm + 48"
proof -
  have "usum qm fs + t \<le> (\<Sum>a\<in>set fs. weight (szf qm a))"
  proof -
    have "(\<Sum>a\<in>set fs. weight (szf qm a)) = t + (\<Sum>a\<in>set fs - {b}. weight (szf qm a))"
      using assms(2,4) by (subst sum.remove [of _ b]) auto
    moreover have "usum qm fs = (\<Sum>a\<in>set fs - {b}. weight (ublk qm a))"
      unfolding usum_def using assms(2,3) by (subst sum.remove [of _ b]) auto
    moreover have "(\<Sum>a\<in>set fs - {b}. weight (ublk qm a)) \<le> (\<Sum>a\<in>set fs - {b}. weight (szf qm a))"
      by (rule sum_mono) (simp add: ublk_def)
    ultimately show ?thesis by linarith
  qed
  with tile_total [OF layoutD(1) [OF assms(1)]] show ?thesis by linarith
qed

lemma usum_le:
  assumes "layout qm fs"
  shows "qm_first_frag qm + usum qm fs + 96 * length fs \<le> qm_last_frag_end qm + 48"
proof -
  have "usum qm fs \<le> (\<Sum>a\<in>set fs. weight (szf qm a))"
    unfolding usum_def by (rule sum_mono) (simp add: ublk_def)
  with tile_total [OF layoutD(1) [OF assms]] show ?thesis by linarith
qed

lemma sub64_le:
  assumes "b \<le> a" "a < 2 ^ 64"
  shows "sub64 a b = a - b"
proof -
  have "a + 2 ^ 64 - b = (a - b) + 2 ^ 64" by (rule diff_add_assoc2 [OF assms(1)])
  moreover have "(a - b) mod 2 ^ 64 = a - b" by (rule mod_less) (use assms(2) in linarith)
  ultimately show ?thesis by (simp only: sub64_def mod_add_self2)
qed

lemma acct_small:
  assumes "layout qm fs" "acct qm fs"
  shows "qm_real_used qm \<le> qm_size qm" "qm_size qm < 2 ^ 64"
    "sub64 (qm_size qm) (qm_real_used qm) = qm_size qm - qm_real_used qm"
proof -
  show r: "qm_real_used qm \<le> qm_size qm" using usum_le [OF assms(1)] assms(2) by (simp add: acct_def)
  show s: "qm_size qm < 2 ^ 64"
    using assms(2) layoutD(5) [OF assms(1)] unfolding acct_def by linarith
  show "sub64 (qm_size qm) (qm_real_used qm) = qm_size qm - qm_real_used qm" by (rule sub64_le [OF r s])
qed

lemma add64_less: "a + b < 2 ^ 64 \<Longrightarrow> add64 a b = a + b"
  by (simp add: add64_def)

text \<open>Changing fields that the heap does not see.\<close>

definition same_heap :: "qm_block \<Rightarrow> qm_block \<Rightarrow> bool" where
  "same_heap q qm \<longleftrightarrow> qm_frags q = qm_frags qm \<and> qm_ends q = qm_ends qm \<and> qm_head q = qm_head qm \<and>
     qm_tail q = qm_tail qm \<and> qm_no q = qm_no qm \<and> qm_first_frag q = qm_first_frag qm \<and>
     qm_last_frag_end q = qm_last_frag_end qm"

lemma same_heap_views:
  assumes "same_heap q qm"
  shows "nx q = nx qm" "pv q = pv qm" "szf q = szf qm" "es q = es qm"
proof -
  show "nx q = nx qm"
  proof
    fix x show "nx q x = nx qm x" using assms by (cases x) (simp_all add: nx_Frag same_heap_def)
  qed
  show "pv q = pv qm"
  proof
    fix x show "pv q x = pv qm x" using assms by (cases x) (simp_all add: pv_Frag same_heap_def)
  qed
  show "szf q = szf qm" "es q = es qm" using assms by (simp_all add: szf_def es_def fun_eq_iff same_heap_def)
qed

lemma same_heap_ok:
  assumes "same_heap q qm" "heap_ok qm fs L"
  shows "heap_ok q fs L" "ublk q = ublk qm"
proof -
  note V = same_heap_views [OF assms(1)]
  have "layout q fs"
    using layout_cong [OF heapD(1) [OF assms(2)] V(3,4)] assms(1) by (simp add: same_heap_def)
  moreover have "rings q L"
    using heapD(2) [OF assms(2)] assms(1) by (simp add: rings_def ring_def V same_heap_def)
  ultimately show "heap_ok q fs L" using assms(2) by (simp add: heap_ok_def V)
  show "ublk q = ublk qm" by (simp add: ublk_def V fun_eq_iff)
qed

lemma free_ublk: "heap_ok qm fs L \<Longrightarrow> a \<in> free_frags L \<Longrightarrow> ublk qm a = None \<and> a \<in> set fs"
  using heapD(3,4) [of qm fs L a] by (auto simp: ublk_def free_frags_def)

lemma used_not_free: "heap_ok qm fs L \<Longrightarrow> nx qm (Frag a) = None \<Longrightarrow> a \<notin> free_frags L"
  using ringsD(7) [OF heapD(2), of qm fs L a] by (auto simp: free_frags_def)

lemma ublk_frag:
  assumes "heap_ok qm fs L" "ublk qm a = Some s"
  shows "\<exists>r. qm_frags qm a = Some r \<and> qf_size r = s \<and> qf_nxt r = None" "a \<in> set fs" "a \<notin> free_frags L"
proof -
  have a: "nx qm (Frag a) = None" "szf qm a = Some s" using assms(2) by (auto simp: ublk_def split: if_splits)
  then show "\<exists>r. qm_frags qm a = Some r \<and> qf_size r = s \<and> qf_nxt r = None" by (auto simp: szf_def nx_Frag)
  show "a \<in> set fs" using layoutD(4) [OF heapD(1) [OF assms(1)] a(2)] by simp
  show "a \<notin> free_frags L" using used_not_free [OF assms(1) a(1)] .
qed

section \<open>Linking a fragment that was allocated\<close>

lemma insert_used_ok:
  assumes "layout qm fs" "rings qm L" "\<forall>b \<in> set fs. nx qm (Frag b) \<noteq> None \<longrightarrow> b \<in> free_frags L"
    "szf qm a = Some s" "nx qm (Frag a) = None"
  shows "\<exists>q L'. qm_insert_free a qm = Some (Inr q) \<and> heap_ok q fs L' \<and> kept qm q \<and>
    free_frags L' = insert a (free_frags L) \<and> ublk q = (ublk qm)(a := None)"
proof -
  have nl: "a \<notin> set (L h)" for h using ringsD(7) [OF assms(2), of a h] assms(5) by auto
  from insert_free_ok [OF assms(1,2,4) nl] obtain q xs where
    q: "qm_insert_free a qm = Some (Inr q)" "kept qm q" "rings q (L(GET_HASH s := xs))"
    "set xs = insert a (set (L (GET_HASH s)))" "\<forall>b. b \<noteq> a \<longrightarrow> (nx q (Frag b) = None) = (nx qm (Frag b) = None)"
    by (elim exE conjE) (rule that)
  let ?L = "L(GET_HASH s := xs)"
  have ll: "free_frags ?L = insert a (free_frags L)"
  proof -
    have "b \<in> free_frags ?L \<longleftrightarrow> b \<in> set xs \<or> (\<exists>h. h \<noteq> GET_HASH s \<and> b \<in> set (L h))" for b
      by (auto simp: free_frags_def)
    moreover have "b \<in> free_frags L \<longleftrightarrow> b \<in> set (L (GET_HASH s)) \<or> (\<exists>h. h \<noteq> GET_HASH s \<and> b \<in> set (L h))" for b
      unfolding free_frags_iff by metis
    ultimately show ?thesis using q(4) by blast
  qed
  have fl: "\<exists>h. b \<in> set (?L h)" if "b \<in> set fs" "nx q (Frag b) \<noteq> None" for b
  proof -
    have "b \<in> free_frags ?L"
    proof (cases "b = a")
      case False
      with q(5) that(2) have "nx qm (Frag b) \<noteq> None" by auto
      with assms(3) that(1) have "b \<in> free_frags L" by simp
      then show ?thesis unfolding ll by simp
    qed (simp add: ll)
    then show ?thesis by (simp add: free_frags_def)
  qed
  have "heap_ok q fs ?L" using kept_layout [OF q(2) assms(1)] q(3) fl by (simp add: heap_ok_def)
  moreover have "ublk q b = ((ublk qm)(a := None)) b" for b
  proof (cases "b = a")
    case True
    have "a \<in> set (?L (GET_HASH s))" using q(4) by simp
    then have "nx q (Frag a) \<noteq> None" using ringsD(7) [OF q(3)] by blast
    with True show ?thesis by (auto simp: ublk_def)
  next
    case False
    with q(5) kept_sel(1) [OF q(2)] show ?thesis by (auto simp: ublk_def)
  qed
  then have "ublk q = (ublk qm)(a := None)" by blast
  ultimately show ?thesis using q(1,2) ll by blast
qed

section \<open>Splitting\<close>

definition same_totals :: "qm_block \<Rightarrow> qm_block \<Rightarrow> bool" where
  "same_totals qm q \<longleftrightarrow> qm_size q = qm_size qm \<and> qm_used q = qm_used qm \<and>
     qm_max_real_used q = qm_max_real_used qm \<and> qm_first_frag q = qm_first_frag qm \<and>
     qm_last_frag_end q = qm_last_frag_end qm \<and> qm_mem q = qm_mem qm"

lemma same_totals_refl: "same_totals qm qm"
  by (simp add: same_totals_def)

lemma kept_totals: "kept qm q \<Longrightarrow> same_totals qm q"
  by (simp add: same_totals_def kept_sel)

text \<open>
  The fragment \<open>f\<close> is allocated. It keeps its size, or it is cut to the new size and a new free
  fragment follows it.
\<close>

lemma split_ok:
  assumes "heap_ok qm fs L" "ublk qm f = Some s" "m \<le> s" "8 dvd m"
  shows "\<exists>ret q fs' L'. split_frag f m qm = Some (Inr (ret, q)) \<and> heap_ok q fs' L' \<and> same_totals qm q \<and>
    (ret = -1 \<and> q = qm \<and> fs' = fs \<and> L' = L \<and> \<not> (96 + 16384 < s - m \<or> 96 + m \<le> s - m) \<or>
     ret = 0 \<and> m + 96 \<le> s \<and> (96 + 16384 < s - m \<or> 96 + m \<le> s - m) \<and>
       ublk q = (ublk qm)(f \<mapsto> m) \<and> f \<in> set fs' \<and>
       set fs' = insert (f + m + 96) (set fs) \<and> f + m + 96 \<notin> set fs \<and> length fs' = length fs + 1 \<and>
       qm_real_used q = add64 (qm_real_used qm) 96 \<and> free_frags L' = insert (f + m + 96) (free_frags L))"
proof -
  from ublk_frag [OF assms(1,2)] obtain r where r: "qm_frags qm f = Some r" "qf_size r = s" "qf_nxt r = None"
    and f: "f \<in> set fs" "f \<notin> free_frags L" by blast
  note eq = split_frag_eq [OF r(1), of m, unfolded r(2), OF assms(3)]
  show ?thesis
  proof (cases "96 + 16384 < s - m \<or> 96 + m \<le> s - m")
    case False
    then have "split_frag f m qm = Some (Inr (-1, qm))" using eq by simp
    with False assms(1) same_totals_refl show ?thesis by blast
  next
    case big: True
    obtain us vs where fs: "fs = us @ f # vs" using f(1) by (metis split_list)
    define q where "q = halves f r m qm"
    let ?n = "f + m + 96" and ?k = "s - m - 96"
    have m: "m + 96 \<le> qf_size r" using big r(2) by linarith
    note ok = heapD [OF assms(1)]
    note lay = ok(1) [unfolded fs]
    note V = halves_views [OF lay r(1) m assms(4) q_def refl refl, unfolded r(2)]
    note R = ringsD [OF ok(2)]
    have q: "qm_no q = qm_no qm" "qm_head q = qm_head qm" "same_totals qm q" "qm_real_used q = add64 (qm_real_used qm) 96"
      by (simp_all add: q_def halves_def Let_def same_totals_def)
    have l: "layout q (us @ f # ?n # vs)" by (rule halves_layout [OF lay r(1) m assms(4) q_def])
    have nn: "?n \<notin> set fs" using V(6) layoutD(3) [OF ok(1), of ?n] by auto
    have "ring q h (L h)" for h
    proof (rule ring_cong)
      show "ring qm h (L h)" using ok(2) by (simp add: rings_def)
      show "nx q (Head h) = nx qm (Head h)" "pv q (Head h) = pv qm (Head h)" using V(5) q(2) by simp_all
      fix a assume a: "a \<in> set (L h)"
      then have af: "a \<noteq> f" using f(2) by (auto simp: free_frags_def)
      have "szf qm a \<noteq> None" using R(3) [OF a] by auto
      moreover from this have "a \<noteq> ?n" using V(6) by auto
      moreover note af
      ultimately show "nx q (Frag a) = nx qm (Frag a) \<and> pv q (Frag a) = pv qm (Frag a) \<and> szf q a = szf qm a"
        using V(4) by (simp add: V(1,3))
    qed
    then have rg: "rings q L" using R(5) by (simp add: rings_def q(1))
    have fl: "\<forall>b \<in> set (us @ f # ?n # vs). nx q (Frag b) \<noteq> None \<longrightarrow> b \<in> free_frags L"
    proof (intro ballI impI)
      fix b assume b: "b \<in> set (us @ f # ?n # vs)" "nx q (Frag b) \<noteq> None"
      then have "b \<noteq> ?n" "nx qm (Frag b) \<noteq> None" by (auto simp: V(3) split: if_splits)
      with b(1) have "b \<in> set fs" unfolding fs by auto
      with ok(4) \<open>nx qm (Frag b) \<noteq> None\<close> show "b \<in> free_frags L" by (simp add: free_frags_def)
    qed
    have "szf q ?n = Some ?k" "nx q (Frag ?n) = None" by (simp_all add: V(1,3))
    from insert_used_ok [OF l rg fl this] obtain q' L' where
      q': "qm_insert_free ?n q = Some (Inr q')" "heap_ok q' (us @ f # ?n # vs) L'" "kept q q'"
      "free_frags L' = insert ?n (free_frags L)" "ublk q' = (ublk q)(?n := None)" by (elim exE conjE) (rule that)
    have "nx qm (Frag f) = None" using r(1,3) by (simp add: nx_Frag)
    then have "ublk q = (ublk qm)(f \<mapsto> m, ?n \<mapsto> ?k)" by (auto simp: ublk_def V(1,3) fun_eq_iff)
    moreover have "ublk qm ?n = None" using V(6) by (simp add: ublk_def)
    ultimately have u: "ublk q' = (ublk qm)(f \<mapsto> m)" using q'(5) by (auto simp: fun_eq_iff)
    have run: "split_frag f m qm = Some (Inr (0, q'))" using eq big q'(1) by (simp add: q_def)
    have st: "same_totals qm q'" using q(3) kept_totals [OF q'(3)] by (simp add: same_totals_def)
    have ru: "qm_real_used q' = add64 (qm_real_used qm) 96" using kept_sel(4) [OF q'(3)] q(4) by simp
    have sets: "set (us @ f # ?n # vs) = insert ?n (set fs)" "f \<in> set (us @ f # ?n # vs)"
      "length (us @ f # ?n # vs) = length fs + 1" unfolding fs by auto
    have m': "m + 96 \<le> s" using m r(2) by simp
    show ?thesis
      by (rule exI [of _ 0], rule exI [of _ q'], rule exI [of _ "us @ f # ?n # vs"], rule exI [of _ L'])
        (use run q'(2,4) st m' big u sets nn ru in \<open>simp only: simp_thms\<close>)
  qed
qed

end
