(* ===== verification/Q_Requests.thy ===== *)
theory Q_Requests
  imports Q_Safe
begin

text \<open>
  \<open>qm_malloc\<close>, \<open>qm_free\<close>, \<open>qm_malloc_init\<close> and \<open>qm_realloc\<close> on the invariant: they end without a
  fault, keep it, change the allocated blocks as they promise, and keep the books, except
  where \<open>qm_realloc\<close> shrinks.
\<close>

section \<open>Allocation\<close>

lemma debug_ok:
  assumes "heap_ok qm fs L" "a \<in> set fs"
  shows "qm_debug_frag a qm = Inr ()"
proof -
  note T = layoutD [OF heapD(1) [OF assms(1)]]
  obtain s where s: "szf qm a = Some s" using T(3) [OF assms(2)] by blast
  then obtain r where r: "qm_frags qm a = Some r" "qf_size r = s" by (auto simp: szf_def)
  have "es qm (a + 48 + s) = Some s" using T(4) [OF s] by simp
  then obtain e where e: "qm_ends qm (a + 48 + s) = Some e" by (auto simp: es_def)
  have "qm_ends qm (a - 48) \<noteq> None" if "qm_first_frag qm < a"
  proof -
    from tile_pred [OF T(1) assms(2)] that obtain y t where y: "szf qm y = Some t" "a = y + t + 96" by blast
    have "es qm (y + 48 + t) = Some t" using T(4) [OF y(1)] by simp
    moreover have "a - 48 = y + 48 + t" using y(2) by simp
    ultimately show ?thesis by (auto simp: es_def)
  qed
  with r e show ?thesis by (auto simp: qm_debug_frag_def)
qed

lemma take_ok:
  assumes "heap_ok qm fs L" "a \<in> set (L h)" "szf qm a = Some s"
  shows "\<exists>q1 r q L'. qm_detach_free a qm = Inr q1 \<and> frag_at q1 a = Inr r \<and>
    q = q1\<lparr>qm_frags := (qm_frags q1)(a \<mapsto> r\<lparr>qf_nxt := None\<rparr>), qm_no := (qm_no q1)(h := sub64 (qm_no q1 h) 1)\<rparr> \<and>
    heap_ok q fs L' \<and> same_totals qm q \<and> qm_real_used q = qm_real_used qm \<and>
    free_frags L' = free_frags L - {a} \<and> ublk q = (ublk qm)(a \<mapsto> s)"
proof -
  note ok = heapD [OF assms(1)]
  note R = ringsD [OF ok(2)]
  from detach_ok [OF ok(1,2) assms(2)] obtain q1 where q1: "qm_detach_free a qm = Inr q1" "relinked qm q1"
    "\<forall>b. (nx q1 (Frag b) = None) = (nx qm (Frag b) = None)"
    "\<forall>g. ring q1 g ((L(h := remove1 a (L h))) g)" by (elim exE conjE) (rule that)
  let ?L = "L(h := remove1 a (L h))"
  have sz1: "szf q1 = szf qm" "es q1 = es qm" "core q1 = core qm" using q1(2) by (auto simp only: relinked_def)
  then obtain r where r: "qm_frags q1 a = Some r" "qf_size r = s"
    using assms(3) by (metis (no_types, lifting) map_option_eq_Some szf_def)
  define q where "q = q1\<lparr>qm_frags := (qm_frags q1)(a \<mapsto> r\<lparr>qf_nxt := None\<rparr>),
    qm_no := (qm_no q1)(h := sub64 (qm_no q1 h) 1)\<rparr>"
  have szq: "szf q = szf qm" unfolding sz1(1) [symmetric] by (auto simp: q_def szf_def r)
  have esq: "es q = es qm" unfolding sz1(2) [symmetric] by (auto simp: q_def es_def)
  have nxq: "nx q = (nx q1)(Frag a := None)"
  proof
    fix x show "nx q x = ((nx q1)(Frag a := None)) x" by (cases x) (auto simp: q_def nx_Frag)
  qed
  have pvq: "pv q = pv q1"
  proof
    fix x show "pv q x = pv q1 x" by (cases x) (auto simp: q_def pv_Frag r)
  qed
  have c: "qm_size q = qm_size qm" "qm_used q = qm_used qm" "qm_real_used q = qm_real_used qm"
    "qm_max_real_used q = qm_max_real_used qm" "qm_first_frag q = qm_first_frag qm"
    "qm_last_frag_end q = qm_last_frag_end qm" "qm_mem q = qm_mem qm"
    using core_sel [OF sz1(3)] by (simp_all add: q_def)
  have lay: "layout q fs" using layout_cong [OF ok(1) szq esq c(5,6)] .
  have na: "a \<notin> set (?L g)" for g
  proof (cases "g = h")
    case True then show ?thesis using R(2) [of h] by simp
  next
    case False
    then show ?thesis using R(6) [OF assms(2), of g] by auto
  qed
  have rg: "ring q g (?L g)" for g
  proof (rule ring_cong)
    show "ring q1 g (?L g)" using q1(4) by blast
    show "nx q (Head g) = nx q1 (Head g)" "pv q (Head g) = pv q1 (Head g)" unfolding nxq pvq by (simp_all del: views_Head)
    fix b assume "b \<in> set (?L g)"
    then have "b \<noteq> a" using na by blast
    then show "nx q (Frag b) = nx q1 (Frag b) \<and> pv q (Frag b) = pv q1 (Frag b) \<and> szf q b = szf q1 b"
      unfolding nxq pvq szq sz1(1) by simp
  qed
  have no: "qm_no q g = length (?L g)" for g
  proof (cases "g = h")
    case True
    have "set (L h) \<subseteq> set fs" using ok(3) by blast
    from list_small [OF ok(1) R(2) this] have "0 < length (L h)" "length (L h) < 2 ^ 64"
      using length_pos_if_in_set [OF assms(2)] by linarith+
    then have "sub64 (length (L h)) 1 = length (L h) - 1" by (intro sub64_le) (auto simp: Suc_le_eq)
    with True show ?thesis using core_sel(7) [OF sz1(3)] R(5) [of h] assms(2) by (simp add: q_def length_remove1)
  next
    case False
    then show ?thesis using core_sel(7) [OF sz1(3)] R(5) [of g] by (simp add: q_def)
  qed
  have ll: "free_frags ?L = free_frags L - {a}"
  proof -
    have "b \<in> free_frags ?L \<longleftrightarrow> b \<in> free_frags L \<and> b \<noteq> a" for b
    proof (cases "b = a")
      case True then show ?thesis using na unfolding free_frags_iff by blast
    next
      case False
      then have "b \<in> set (?L g) \<longleftrightarrow> b \<in> set (L g)" for g by auto
      with False show ?thesis unfolding free_frags_iff by blast
    qed
    then show ?thesis by blast
  qed
  have "\<exists>g. b \<in> set (?L g)" if b: "b \<in> set fs" "nx q (Frag b) \<noteq> None" for b
  proof -
    have "b \<noteq> a" "nx q1 (Frag b) \<noteq> None" using b(2) by (auto simp: nxq split: if_splits)
    then have "b \<in> free_frags L" using q1(3) ok(4) [OF b(1)] unfolding free_frags_iff by metis
    with \<open>b \<noteq> a\<close> have "b \<in> free_frags ?L" unfolding ll by simp
    then show ?thesis unfolding free_frags_iff .
  qed
  with lay rg no have hq: "heap_ok q fs ?L" by (simp add: heap_ok_def rings_def)
  have "ublk q b = ((ublk qm)(a \<mapsto> s)) b" for b
    using assms(3) q1(3) by (auto simp: ublk_def nxq szq)
  then have u: "ublk q = (ublk qm)(a \<mapsto> s)" by blast
  have f1: "frag_at q1 a = Inr r" by (simp add: frag_at_def r(1))
  have st: "same_totals qm q" using c by (simp add: same_totals_def)
  show ?thesis
    by (rule exI [of _ q1], rule exI [of _ r], rule exI [of _ q], rule exI [of _ ?L])
      (use q1(1) f1 q_def hq st c(3) ll u in \<open>simp only: simp_thms\<close>)
qed

text \<open>What an allocation promises.\<close>

definition same_arena :: "qm_block \<Rightarrow> qm_block \<Rightarrow> bool" where
  "same_arena qm q \<longleftrightarrow> qm_size q = qm_size qm \<and> qm_first_frag q = qm_first_frag qm \<and>
     qm_last_frag_end q = qm_last_frag_end qm"

lemma totals_arena: "same_totals qm q \<Longrightarrow> same_arena qm q"
  by (simp add: same_totals_def same_arena_def)

lemma ROUNDUP_dvd: "8 dvd ROUNDUP s"
  by (simp add: ROUNDUP_def)

lemma acct_intro:
  assumes "acct qm fs" "layout q fs'" "same_arena qm q" "qm_used q = add64 (qm_used qm) m"
    "qm_real_used q = add64 r m" "r = qm_real_used qm + 96 * k" "length fs' = length fs + k"
    "usum q fs' = usum qm fs + m"
  shows "acct q fs'"
proof -
  have b: "qm_size q + qm_first_frag q = 218344 + (qm_last_frag_end q + 48)" "218344 \<le> qm_first_frag q"
    using assms(1,3) by (simp_all add: acct_def same_arena_def)
  have "218344 + 96 * length fs' + usum q fs' \<le> qm_size q" using usum_le [OF assms(2)] b by linarith
  moreover have "qm_size q < 2 ^ 64" using b layoutD(5) [OF assms(2)] by linarith
  moreover have "qm_used qm = usum qm fs" "qm_real_used qm = 218344 + 96 * length fs + usum qm fs"
    using assms(1) by (simp_all add: acct_def)
  moreover have "96 * length fs' = 96 * length fs + 96 * k" using assms(7) by simp
  ultimately have "qm_used qm + m < 2 ^ 64" "r + m < 2 ^ 64" "qm_used qm + m = usum q fs'"
    "r + m = 218344 + 96 * length fs' + usum q fs'" using assms(6,8) by linarith+
  then have "qm_used q = usum q fs'" "qm_real_used q = 218344 + 96 * length fs' + usum q fs'"
    using assms(4,5) by (simp_all add: add64_less)
  with b show ?thesis by (simp add: acct_def)
qed

lemma malloc_ok:
  assumes "heap_ok qm fs L" "sz = ROUNDUP sz0"
  shows "\<exists>p q fs' L'. qm_malloc sz0 qm = Some (Inr (p, q)) \<and> heap_ok q fs' L' \<and> same_arena qm q \<and>
    qm_mem q = qm_mem qm \<and>
    (p = 0 \<and> q = qm \<and> fs' = fs \<and> L' = L \<and> (acct qm fs \<longrightarrow> (\<forall>b \<in> free_frags L. the (szf qm b) < sz)) \<or>
     (\<exists>f m. p = f + 48 \<and> f \<in> free_frags L \<and> sz \<le> m \<and> m \<le> the (szf qm f) \<and> ublk q = (ublk qm)(f \<mapsto> m) \<and>
       (m = sz \<or> m < 2 * sz + 96 \<and> m \<le> sz + 16480) \<and>
       (\<forall>b \<in> free_frags L. sz \<le> the (szf qm b) \<longrightarrow> the (szf qm f) \<le> the (szf qm b)) \<and>
       (acct qm fs \<longrightarrow> acct q fs')))"
proof (cases "sub64 (qm_size qm) (qm_real_used qm) < sz")
  case True
  have "the (szf qm b) < sz" if ab: "acct qm fs" "b \<in> free_frags L" for b
  proof -
    note fb = free_ublk [OF assms(1) ab(2)]
    obtain t where t: "szf qm b = Some t" using fb layoutD(3) [OF heapD(1) [OF assms(1)], of b] by blast
    from usum_free [OF heapD(1) [OF assms(1)] conjunct2 [OF fb] conjunct1 [OF fb] t] ab(1)
    have "t + qm_real_used qm \<le> qm_size qm" unfolding acct_def by linarith
    with True acct_small(3) [OF heapD(1) [OF assms(1)] ab(1)] t show ?thesis by simp
  qed
  moreover have "qm_malloc sz0 qm = Some (Inr (0, qm))" using True assms(2) by (simp add: qm_malloc_def)
  ultimately show ?thesis using assms(1) by (auto simp: same_arena_def)
next
  case room: False
  from find_free_ok [OF assms(1), of sz] obtain found where fd: "qm_find_free sz qm = Some (Inr found)"
    "case found of None \<Rightarrow> \<forall>b \<in> free_frags L. the (szf qm b) < sz
     | Some (a, h) \<Rightarrow> a \<in> set (L h) \<and> sz \<le> the (szf qm a) \<and>
         (\<forall>b \<in> free_frags L. sz \<le> the (szf qm b) \<longrightarrow> the (szf qm a) \<le> the (szf qm b))" by blast
  show ?thesis
  proof (cases found)
    case None
    then have "qm_malloc sz0 qm = Some (Inr (0, qm))" using room fd(1) assms(2) by (simp add: qm_malloc_def)
    with None fd(2) assms(1) show ?thesis by (auto simp: same_arena_def)
  next
    case (Some ah)
    then obtain f h where fh: "found = Some (f, h)" by (cases ah) auto
    with fd(2) have f: "f \<in> set (L h)" "sz \<le> the (szf qm f)"
      "\<forall>b \<in> free_frags L. sz \<le> the (szf qm b) \<longrightarrow> the (szf qm f) \<le> the (szf qm b)" by auto
    have ff: "f \<in> free_frags L" "f \<in> set fs" using f(1) heapD(3) [OF assms(1)] by (auto simp: free_frags_def)
    obtain s where s: "szf qm f = Some s" using ringsD(3) [OF heapD(2) [OF assms(1)] f(1)] by blast
    from take_ok [OF assms(1) f(1) s] obtain q1 r q2 L2 where
      d: "qm_detach_free f qm = Inr q1" "frag_at q1 f = Inr r"
      "q2 = q1\<lparr>qm_frags := (qm_frags q1)(f \<mapsto> r\<lparr>qf_nxt := None\<rparr>), qm_no := (qm_no q1)(h := sub64 (qm_no q1 h) 1)\<rparr>"
      "heap_ok q2 fs L2" "same_totals qm q2" "qm_real_used q2 = qm_real_used qm"
      "free_frags L2 = free_frags L - {f}" "ublk q2 = (ublk qm)(f \<mapsto> s)" by (elim exE conjE) (rule that)
    have u2: "ublk q2 f = Some s" "sz \<le> s" "8 dvd sz" using d(8) f(2) s assms(2) by (simp_all add: ROUNDUP_dvd)
    from split_ok [OF d(4) u2] obtain ret q3 fs' L' where
      sp: "split_frag f sz q2 = Some (Inr (ret, q3))" "heap_ok q3 fs' L'" "same_totals q2 q3"
      "ret = -1 \<and> q3 = q2 \<and> fs' = fs \<and> L' = L2 \<and> \<not> (96 + 16384 < s - sz \<or> 96 + sz \<le> s - sz) \<or>
       ret = 0 \<and> sz + 96 \<le> s \<and> (96 + 16384 < s - sz \<or> 96 + sz \<le> s - sz) \<and>
       ublk q3 = (ublk q2)(f \<mapsto> sz) \<and> f \<in> set fs' \<and>
       set fs' = insert (f + sz + 96) (set fs) \<and> f + sz + 96 \<notin> set fs \<and> length fs' = length fs + 1 \<and>
       qm_real_used q3 = add64 (qm_real_used q2) 96 \<and> free_frags L' = insert (f + sz + 96) (free_frags L2)"
      by (elim exE conjE) (rule that)
    define m where "m = (if ret = 0 then sz else s)"
    have m: "sz \<le> m" "m \<le> s" "ublk q3 = (ublk qm)(f \<mapsto> m)" "m = sz \<or> m < 2 * sz + 96 \<and> m \<le> sz + 16480"
      using sp(4) u2(2) d(8) by (auto simp: m_def)
    obtain r3 where r3: "qm_frags q3 f = Some r3" "qf_size r3 = m"
      using ublk_frag(1) [OF sp(2), of f m] m(3) by auto
    define q where "q = q3\<lparr>qm_real_used := add64 (qm_real_used q3) m, qm_used := add64 (qm_used q3) m,
      qm_max_real_used := (if qm_max_real_used q3 < add64 (qm_real_used q3) m
         then add64 (qm_real_used q3) m else qm_max_real_used q3)\<rparr>"
    have sh: "same_heap q q3" by (simp add: q_def same_heap_def)
    have run: "qm_malloc sz0 qm = Some (Inr (f + 48, q))"
    proof -
      have "qm_malloc sz0 qm = obind (split_frag f sz q2) (\<lambda>(ret, qm2).
            obind (Some (frag_at qm2 f)) (\<lambda>r2.
              let real_used = add64 (qm_real_used qm2) (qf_size r2)
              in Some (Inr (f + sizeof_frag,
                   qm2\<lparr>qm_real_used := real_used,
                       qm_used := add64 (qm_used qm2) (qf_size r2),
                       qm_max_real_used := (if qm_max_real_used qm2 < real_used then real_used
                                            else qm_max_real_used qm2)\<rparr>))))"
        using room fd(1) fh debug_ok [OF assms(1) ff(2)] d(1,2)
        by (simp add: qm_malloc_def assms(2) [symmetric] d(3))
      then show ?thesis using sp(1) r3 by (simp add: frag_at_def Let_def q_def)
    qed
    have ar: "same_arena qm q" "qm_mem q = qm_mem qm" "qm_used q3 = qm_used qm"
      "qm_max_real_used q3 = qm_max_real_used qm"
      using sp(3) d(5) by (simp_all add: same_totals_def same_arena_def q_def)
    have books: "acct q fs'" if "acct qm fs"
    proof (rule acct_intro [OF that heapD(1) [OF same_heap_ok(1) [OF sh sp(2)]] ar(1)])
      have z: "ublk qm f = None" using free_ublk [OF assms(1) ff(1)] by simp
      have u: "ublk q = (ublk qm)(f := Some m)" using same_heap_ok(2) [OF sh sp(2)] m(3) by simp
      have uq: "usum q fs = usum qm fs + m" using usum_upd [OF ff(2) u] z by simp
      show "usum q fs' = usum qm fs + m"
      proof (cases "ret = 0")
        case True
        with sp(4) have "set fs' = insert (f + sz + 96) (set fs)" "f + sz + 96 \<notin> set fs" "f + sz + 96 \<in> free_frags L'" by auto
        moreover from this(3) free_ublk [OF same_heap_ok(1) [OF sh sp(2)]] have "ublk q (f + sz + 96) = None" by blast
        ultimately show ?thesis using usum_insert uq by simp
      next
        case False with sp(4) uq show ?thesis by auto
      qed
      show "qm_used q = add64 (qm_used qm) m" by (simp add: q_def ar(3))
      show "qm_real_used q = add64 (qm_real_used q3) m" by (simp add: q_def)
      have "qm_real_used qm + s \<le> qm_size qm"
        using usum_free [OF heapD(1) [OF assms(1)] ff(2) z s] that unfolding acct_def by linarith
      then have "sz + 96 \<le> s \<Longrightarrow> qm_real_used qm + 96 < 2 ^ 64"
        using acct_small(2) [OF heapD(1) [OF assms(1)] that] by linarith
      then show "qm_real_used q3 = qm_real_used qm + 96 * (if ret = 0 then 1 else 0)"
        using sp(4) d(6) by (auto simp: add64_less)
      show "length fs' = length fs + (if ret = 0 then 1 else 0)" using sp(4) by auto
    qed
    have "ublk q = (ublk qm)(f \<mapsto> m)" using same_heap_ok(2) [OF sh sp(2)] m(3) by simp
    with run same_heap_ok(1) [OF sh sp(2)] ar(1,2) ff(1) f(3) m(1,2,4) s books show ?thesis
      by (intro exI [of _ "f + 48"] exI [of _ q] exI [of _ fs'] exI [of _ L'])
        (simp, intro disjI2 exI [of _ m], simp)
  qed
qed

section \<open>Freeing\<close>

lemma free_ok:
  assumes "heap_ok qm fs L" "ublk qm f = Some s" "0 < qm_first_frag qm"
  shows "\<exists>q L'. qm_free (f + 48) qm = Some (Inr q) \<and> heap_ok q fs L' \<and> same_arena qm q \<and>
    qm_mem q = qm_mem qm \<and> ublk q = (ublk qm)(f := None) \<and> free_frags L' = insert f (free_frags L) \<and>
    (acct qm fs \<longrightarrow> acct q fs)"
proof -
  from ublk_frag [OF assms(1,2)] obtain r where r: "qm_frags qm f = Some r" "qf_size r = s" "qf_nxt r = None"
    and f: "f \<in> set fs" "f \<notin> free_frags L" by blast
  have s: "szf qm f = Some s" using r by (simp add: szf_def)
  have bd: "qm_first_frag qm \<le> f" "f + s + 96 \<le> qm_last_frag_end qm + 48"
    using layoutD(3) [OF heapD(1) [OF assms(1)] f(1)] s by auto
  define q1 where "q1 = qm\<lparr>qm_used := sub64 (qm_used qm) s, qm_real_used := sub64 (qm_real_used qm) s\<rparr>"
  have sh: "same_heap q1 qm" by (simp add: q1_def same_heap_def)
  note h1 = same_heap_ok [OF sh assms(1)]
  have n1: "szf q1 f = Some s" "nx q1 (Frag f) = None"
    using same_heap_views [OF sh] s r by (simp_all add: nx_Frag)
  have fl: "\<forall>b \<in> set fs. nx q1 (Frag b) \<noteq> None \<longrightarrow> b \<in> free_frags L"
    using heapD(4) [OF h1(1)] by (simp add: free_frags_iff)
  from insert_used_ok [OF heapD(1,2) [OF h1(1)] fl n1] obtain q L' where
    q: "qm_insert_free f q1 = Some (Inr q)" "heap_ok q fs L'" "kept q1 q" "free_frags L' = insert f (free_frags L)"
    "ublk q = (ublk q1)(f := None)" by (elim exE conjE) (rule that)
  have u: "ublk q = (ublk qm)(f := None)" using q(5) h1(2) by simp
  have "qm_free (f + 48) qm = Some (Inr q)"
    using bd q(1) r debug_ok [OF assms(1) f(1)] assms(3) unfolding q1_def
    by (simp add: qm_free_def frag_at_def)
  moreover have ar: "same_arena qm q" "qm_mem q = qm_mem qm"
    using kept_sel [OF q(3)] by (simp_all add: q1_def same_arena_def)
  moreover have "acct q fs" if "acct qm fs"
  proof -
    have su: "usum qm fs = usum q fs + s" using usum_upd [OF f(1) u] assms(2) by simp
    have le: "s \<le> qm_used qm" "s \<le> qm_real_used qm" "qm_used qm < 2 ^ 64" "qm_real_used qm < 2 ^ 64"
      using su that acct_small(1,2) [OF heapD(1) [OF assms(1)] that] unfolding acct_def by linarith+
    then have "qm_used q = qm_used qm - s" "qm_real_used q = qm_real_used qm - s"
      using kept_sel [OF q(3)] by (simp_all add: q1_def sub64_le)
    then show ?thesis using that su ar(1) le(1) unfolding acct_def same_arena_def by simp
  qed
  ultimately show ?thesis using q(2,4) u by blast
qed

text \<open>Any other pointer, the null pointer included, ends the program.\<close>

lemma free_aborts:
  assumes "heap_ok qm fs L" "0 < qm_first_frag qm" "ublk qm (p - 48) = None"
  shows "qm_free p qm = Some (Inl Aborted)"
proof (cases "qm_last_frag_end qm < p \<or> p < qm_first_frag qm")
  case False
  show ?thesis
  proof (cases "qm_frags qm (p - 48)")
    case None
    with False assms(2) show ?thesis by (simp add: qm_free_def qm_debug_frag_def)
  next
    case (Some r)
    then have "p - 48 \<in> set fs" using layoutD(4) [OF heapD(1) [OF assms(1)], of "p - 48"] by (simp add: szf_def)
    moreover have "qf_nxt r \<noteq> None" using assms(3) Some by (auto simp: ublk_def nx_Frag szf_def split: if_splits)
    ultimately show ?thesis
      using False assms(2) Some debug_ok [OF assms(1)] by (simp add: qm_free_def frag_at_def)
  qed
qed (simp add: qm_free_def)

section \<open>The arena\<close>

lemma roundup_bounds:
  assumes "a + 7 < 2 ^ 64"
  shows "a \<le> ROUNDUP a" "ROUNDUP a \<le> a + 7" "8 dvd ROUNDUP a"
proof -
  have "ROUNDUP a = (a + 7) div 8 * 8" using assms by (simp add: ROUNDUP_def add64_def)
  then show "a \<le> ROUNDUP a" "ROUNDUP a \<le> a + 7" "8 dvd ROUNDUP a" by simp_all
qed

lemma init_ok:
  assumes "address + sz0 < 2 ^ 64" "7 \<le> sz0"
  shows "\<exists>r. qm_malloc_init address sz0 mem = Some (Inr r) \<and>
    (case r of
       None \<Rightarrow> sz0 < 218447
     | Some q \<Rightarrow> \<exists>fs L. heap_ok q fs L \<and> acct q fs \<and> ublk q = (\<lambda>_. None) \<and> qm_mem q = mem \<and>
         address + 218344 \<le> qm_first_frag q \<and> qm_last_frag_end q + 48 \<le> address + sz0 \<and>
         sz0 \<le> qm_size q + 14 \<and> fs = [qm_first_frag q] \<and> qm_first_frag q \<in> free_frags L \<and>
         szf q (qm_first_frag q) = Some (qm_size q - 218440))"
proof -
  define start where "start = ROUNDUP address"
  have a7: "address + 7 < 2 ^ 64" using assms by linarith
  note rb = roundup_bounds [OF a7, folded start_def]
  have d: "sub64 start address = start - address" using rb a7 by (intro sub64_le) linarith+
  define sz1 where "sz1 = sz0 - (start - address)"
  define sz where "sz = ROUNDDOWN sz1"
  have z: "sz \<le> sz1" "sz1 \<le> sz + 7" "8 dvd sz" by (simp_all add: sz_def ROUNDDOWN_def)
  have z1: "sz1 + (start - address) = sz0" using rb assms(2) by (simp add: sz1_def)
  have ov: "ROUNDUP 218344 = 218344" by (simp add: ROUNDUP_def add64_def)
  show ?thesis
  proof (cases "sz < 218440")
    case True
    then have "qm_malloc_init address sz0 mem = Some (Inr None)"
      using d by (simp add: qm_malloc_init_def Let_def start_def [symmetric] sz1_def [symmetric] sz_def [symmetric] ov)
    moreover have "sz0 < 218447"
    proof -
      have "sz \<noteq> 218439 \<and> sz \<noteq> 218438 \<and> sz \<noteq> 218437 \<and> sz \<noteq> 218436 \<and> sz \<noteq> 218435 \<and> sz \<noteq> 218434 \<and> sz \<noteq> 218433"
        using z(3) by presburger
      with True have "sz \<le> 218432" by linarith
      with z z1 rb show ?thesis by linarith
    qed
    ultimately show ?thesis by auto
  next
    case False
    define q where "q = \<lparr>qm_size = sz, qm_used = 0, qm_real_used = 218440,
      qm_max_real_used = 218440, qm_first_frag = start + 218344, qm_last_frag_end = start + sz - 48,
      qm_head = Head, qm_tail = Head, qm_no = (\<lambda>_. 0),
      qm_frags = [start + 218344 \<mapsto> \<lparr>qf_size = sz - 218440, qf_nxt = None\<rparr>],
      qm_ends = [start + sz - 48 \<mapsto> \<lparr>qe_size = sz - 218440, qe_prev = None\<rparr>],
      qm_mem = mem\<rparr>"
    let ?a = "start + 218344"
    have run: "qm_malloc_init address sz0 mem = obind (qm_insert_free ?a q) (\<lambda>qm1. Some (Inr (Some qm1)))"
      using False d z(1) z1
      by (simp add: qm_malloc_init_def Let_def start_def [symmetric] sz1_def [symmetric] sz_def [symmetric] ov q_def)
    have k: "8 dvd sz - 218440" using z(3) False by presburger
    have e: "?a + 48 + (sz - 218440) = start + sz - 48" using False by linarith
    have v: "szf q = [?a \<mapsto> sz - 218440]" "es q = [start + sz - 48 \<mapsto> sz - 218440]"
      by (auto simp: q_def szf_def es_def)
    have hi: "start + sz \<le> address + sz0" using z(1) z1 rb by linarith
    have lay: "layout q [?a]"
    proof -
      have "tile (szf q) ?a [?a] (start + sz - 48 + 48)" using k False by (simp add: v)
      moreover have "es q (b + 48 + s) = Some s" if "szf q b = Some s" for b s
        using that e by (auto simp: v split: if_splits)
      moreover have "start + sz - 48 + 48 < 2 ^ 64" using hi assms(1) False by linarith
      moreover have "{b. szf q b \<noteq> None} = set [?a]" by (auto simp: v)
      moreover have "qm_first_frag q = ?a" "qm_last_frag_end q = start + sz - 48" by (simp_all add: q_def)
      ultimately show ?thesis unfolding layout_def by simp
    qed
    have rg: "rings q (\<lambda>_. [])" by (auto simp: rings_def ring_def q_def)
    have fl: "\<forall>b \<in> set [?a]. nx q (Frag b) \<noteq> None \<longrightarrow> b \<in> free_frags (\<lambda>_. [])" by (simp add: nx_Frag q_def)
    have n: "szf q ?a = Some (sz - 218440)" by (simp add: v)
    have n': "nx q (Frag ?a) = None" by (simp add: nx_Frag q_def)
    from insert_used_ok [OF lay rg fl n n'] obtain q' L' where
      q': "qm_insert_free ?a q = Some (Inr q')" "heap_ok q' [?a] L'" "kept q q'" "ublk q' = (ublk q)(?a := None)"
      "free_frags L' = insert ?a (free_frags (\<lambda>_. []))"
      by (elim exE conjE) (rule that)
    have u: "ublk q' = (\<lambda>_. None)" using q'(4) by (auto simp: ublk_def v(1) fun_eq_iff)
    have "acct q' [?a]"
      using kept_sel [OF q'(3)] False u by (simp add: acct_def usum_def q_def)
    moreover have "address + 218344 \<le> qm_first_frag q'" "qm_last_frag_end q' + 48 \<le> address + sz0"
      "sz0 \<le> qm_size q' + 14" "qm_first_frag q' = ?a" "qm_mem q' = mem" "qm_size q' = sz"
      using kept_sel [OF q'(3)] rb hi False z z1 by (simp_all add: q_def)
    moreover have "szf q' ?a = Some (sz - 218440)" using kept_sel(1) [OF q'(3)] by (simp add: v)
    ultimately show ?thesis using run q'(1,2,5) u by (auto intro!: exI [of _ "[?a]"] exI [of _ L'])
  qed
qed

end
