(* ===== verification/Q_Realloc.thy ===== *)
theory Q_Realloc
  imports Q_Requests
begin

text \<open>
  \<open>qm_realloc\<close> on the invariant: joining with the next fragment, and all branches of the
  operation.
\<close>

section \<open>Joining\<close>

definition joined :: "nat \<Rightarrow> nat \<Rightarrow> nat \<Rightarrow> qm_frag \<Rightarrow> qm_block \<Rightarrow> qm_block" where
  "joined f h t r qm =
     (let n = f + qf_size r + 96; m = qf_size r + (t + 96)
      in qm\<lparr>qm_no := (qm_no qm)(h := sub64 (qm_no qm h) 1),
            qm_frags := (qm_frags qm)(f \<mapsto> r\<lparr>qf_size := m\<rparr>, n := None),
            qm_ends := (qm_ends qm)(f + 48 + qf_size r := None,
              f + 48 + m \<mapsto> \<lparr>qe_size = m,
                qe_prev = (case qm_ends qm (f + 48 + m) of None \<Rightarrow> None | Some x \<Rightarrow> qe_prev x)\<rparr>),
            qm_real_used := sub64 (qm_real_used qm) 96\<rparr>)"

lemma joined_views:
  assumes "layout qm fs" "qm_frags qm f = Some r" "szf qm (f + qf_size r + 96) = Some t"
    "q = joined f h t r qm" "n = f + qf_size r + 96" "m = qf_size r + t + 96"
  shows "szf q = (szf qm)(f \<mapsto> m, n := None)" "es q = (es qm)(f + 48 + qf_size r := None, f + 48 + m \<mapsto> m)"
    "nx q = (nx qm)(Frag n := None)"
    "\<And>b. szf qm b \<noteq> None \<Longrightarrow> b \<noteq> f \<Longrightarrow> b \<noteq> n \<Longrightarrow> pv q (Frag b) = pv qm (Frag b)"
    "pv q (Head g) = pv qm (Head g)"
    "\<And>b u. szf qm b = Some u \<Longrightarrow> b \<noteq> f \<Longrightarrow> b \<noteq> n \<Longrightarrow> b + 48 + u \<noteq> f + 48 + qf_size r \<and> b + 48 + u \<noteq> f + 48 + m"
proof -
  have s: "szf qm f = Some (qf_size r)" using assms(2) by (simp add: szf_def)
  have nf: "n \<noteq> f" using assms(5) by simp
  show "szf q = (szf qm)(f \<mapsto> m, n := None)"
    using assms(4-6) nf by (auto simp: joined_def Let_def szf_def add.assoc fun_eq_iff)
  show "es q = (es qm)(f + 48 + qf_size r := None, f + 48 + m \<mapsto> m)"
    using assms(4-6) by (auto simp: joined_def Let_def es_def add.assoc fun_eq_iff)
  show "nx q = (nx qm)(Frag n := None)"
  proof
    fix x show "nx q x = ((nx qm)(Frag n := None)) x"
      using assms(2,4,5) nf by (cases x) (auto simp: joined_def Let_def nx_Frag)
  qed
  show "pv q (Head g) = pv qm (Head g)" using assms(4) by (simp add: joined_def Let_def)
  show ends: "b + 48 + u \<noteq> f + 48 + qf_size r \<and> b + 48 + u \<noteq> f + 48 + m"
    if "szf qm b = Some u" "b \<noteq> f" "b \<noteq> n" for b u
  proof -
    have "b + u \<noteq> f + qf_size r" using ends_inj [OF assms(1) that(1) s] that(2) by blast
    moreover have "b + u \<noteq> n + t" using ends_inj [OF assms(1) that(1)] assms(3,5) that(3) by blast
    ultimately show ?thesis using assms(5,6) by linarith
  qed
  fix b assume b: "szf qm b \<noteq> None" "b \<noteq> f" "b \<noteq> n"
  then obtain g where g: "qm_frags qm b = Some g" by (auto simp: szf_def)
  then have "b + 48 + qf_size g \<noteq> f + 48 + qf_size r" "b + 48 + qf_size g \<noteq> f + 48 + m"
    using ends [of b "qf_size g"] b by (auto simp: szf_def)
  then show "pv q (Frag b) = pv qm (Frag b)"
    using assms(4-6) g b(2,3) by (simp add: joined_def Let_def pv_Frag add.assoc)
qed

lemma joined_layout:
  assumes "layout qm (us @ f # n # vs)" "qm_frags qm f = Some r" "n = f + qf_size r + 96" "szf qm n = Some t"
    "q = joined f h t r qm"
  shows "layout q (us @ f # vs)"
proof -
  let ?m = "qf_size r + t + 96"
  note V = joined_views [OF assms(1,2) assms(4) [unfolded assms(3)] assms(5) assms(3) refl]
  note T = layoutD [OF assms(1)]
  have s: "szf qm f = Some (qf_size r)" using assms(2) by (simp add: szf_def)
  have c: "qm_first_frag q = qm_first_frag qm" "qm_last_frag_end q = qm_last_frag_end qm"
    using assms(5) by (simp_all add: joined_def Let_def)
  have "tile (szf q) (qm_first_frag qm) (us @ f # vs) (qm_last_frag_end qm + 48)"
    unfolding V(1) by (rule tile_join [OF T(1) s assms(4) T(2)])
  moreover have "{a. szf q a \<noteq> None} = set (us @ f # vs)"
  proof -
    have "{a. szf q a \<noteq> None} = insert f {a. szf qm a \<noteq> None} - {n}" using assms(3) unfolding V(1) by auto
    also have "{a. szf qm a \<noteq> None} = set (us @ f # n # vs)" using assms(1) by (simp add: layout_def)
    finally show ?thesis using T(2) by auto
  qed
  moreover have "es q (a + 48 + u) = Some u" if "szf q a = Some u" for a u
  proof (cases "a = f")
    case True
    with that assms(3) show ?thesis by (auto simp: V(1,2))
  next
    case False
    then have a: "szf qm a = Some u" "a \<noteq> n" using that by (auto simp: V(1) split: if_splits)
    from V(6) [OF a(1) False a(2)] T(4) [OF a(1)] show ?thesis by (simp add: V(2))
  qed
  ultimately show ?thesis using T(5) by (simp add: layout_def c)
qed

lemma join_ok:
  assumes "heap_ok qm fs L" "ublk qm f = Some s" "n = f + s + 96" "n \<in> set (L h)" "szf qm n = Some t"
  shows "\<exists>q1 r fs' L'. qm_detach_free n qm = Inr q1 \<and> frag_at q1 f = Inr r \<and> qf_size r = s \<and>
    heap_ok (joined f h t r q1) fs' L' \<and> same_totals qm (joined f h t r q1) \<and>
    qm_real_used (joined f h t r q1) = sub64 (qm_real_used qm) 96 \<and>
    ublk (joined f h t r q1) = (ublk qm)(f \<mapsto> s + t + 96) \<and>
    f \<in> set fs' \<and> set fs = insert n (set fs') \<and> n \<notin> set fs' \<and> length fs = length fs' + 1"
proof -
  note ok = heapD [OF assms(1)]
  note R = ringsD [OF ok(2)]
  from ublk_frag [OF assms(1,2)] obtain r0 where r0: "qm_frags qm f = Some r0" "qf_size r0 = s" "qf_nxt r0 = None"
    and f: "f \<in> set fs" "f \<notin> free_frags L" by blast
  have sf: "szf qm f = Some s" using r0 by (simp add: szf_def)
  from detach_ok [OF ok(1,2) assms(4)] obtain q1 where q1: "qm_detach_free n qm = Inr q1" "relinked qm q1"
    "\<forall>b. (nx q1 (Frag b) = None) = (nx qm (Frag b) = None)"
    "\<forall>g. ring q1 g ((L(h := remove1 n (L h))) g)" by (elim exE conjE) (rule that)
  let ?L = "L(h := remove1 n (L h))"
  have sz1: "szf q1 = szf qm" "core q1 = core qm" using q1(2) by (auto simp only: relinked_def)
  obtain r where r: "qm_frags q1 f = Some r" "qf_size r = s"
    using sf unfolding sz1(1) [symmetric] by (auto simp: szf_def)
  define q where "q = joined f h t r q1"
  have nfs: "n \<in> set fs" using ok(3) [OF assms(4)] .
  have "n \<noteq> f" using assms(3) by simp
  obtain us vs where fs: "fs = us @ f # n # vs"
  proof -
    obtain us ws where w: "fs = us @ f # ws" using f(1) by (metis split_list)
    from layoutD(1) [OF ok(1)] w sf have t: "tile (szf qm) (f + s + 96) ws (qm_last_frag_end qm + 48)"
      by (auto simp: tile_append)
    have "ws \<noteq> []"
    proof
      assume "ws = []"
      with t have "n = qm_last_frag_end qm + 48" using assms(3) by simp
      with layoutD(3) [OF ok(1) nfs] show False by auto
    qed
    then obtain x vs where "ws = x # vs" by (cases ws) auto
    with t assms(3) w that show thesis by auto
  qed
  have lay1: "layout q1 (us @ f # n # vs)" using relinked_layout [OF q1(2) ok(1)] fs by simp
  have n1: "szf q1 n = Some t" using assms(5) sz1(1) by simp
  have nr: "n = f + qf_size r + 96" using assms(3) r(2) by simp
  note V = joined_views [OF lay1 r(1) n1 [unfolded nr] q_def nr refl, unfolded r(2)]
  have lay: "layout q (us @ f # vs)" by (rule joined_layout [OF lay1 r(1) nr n1 q_def])
  have na: "n \<notin> set (?L g)" for g
  proof (cases "g = h")
    case True then show ?thesis using R(2) [of h] by simp
  next
    case False
    then show ?thesis using R(6) [OF assms(4), of g] by auto
  qed
  have sub: "set (?L g) \<subseteq> set (L g)" for g using set_remove1_subset [of n "L h"] by auto
  have rg: "ring q g (?L g)" for g
  proof (rule ring_cong)
    show "ring q1 g (?L g)" using q1(4) by blast
    show "nx q (Head g) = nx q1 (Head g)" by (simp add: V(3) del: views_Head)
    show "pv q (Head g) = pv q1 (Head g)" by (rule V(5))
    fix b assume b: "b \<in> set (?L g)"
    then have "b \<noteq> n" "b \<in> set (L g)" using na sub by blast+
    moreover from this(2) have "b \<noteq> f" using f(2) by (auto simp: free_frags_def)
    moreover have "szf q1 b \<noteq> None" using R(3) [OF \<open>b \<in> set (L g)\<close>] by (auto simp: sz1(1))
    ultimately show "nx q (Frag b) = nx q1 (Frag b) \<and> pv q (Frag b) = pv q1 (Frag b) \<and> szf q b = szf q1 b"
      using V(4) by (simp add: V(1,3))
  qed
  have no: "qm_no q g = length (?L g)" for g
  proof (cases "g = h")
    case True
    have "set (L h) \<subseteq> set fs" using ok(3) by blast
    from list_small [OF ok(1) R(2) this] have "0 < length (L h)" "length (L h) < 2 ^ 64"
      using length_pos_if_in_set [OF assms(4)] by linarith+
    then have "sub64 (length (L h)) 1 = length (L h) - 1" by (intro sub64_le) (auto simp: Suc_le_eq)
    with True show ?thesis using core_sel(7) [OF sz1(2)] R(5) [of h] assms(4)
      by (simp add: q_def joined_def Let_def length_remove1)
  next
    case False
    then show ?thesis using core_sel(7) [OF sz1(2)] R(5) [of g] by (simp add: q_def joined_def Let_def)
  qed
  have fl: "\<exists>g. b \<in> set (?L g)" if b: "b \<in> set (us @ f # vs)" "nx q (Frag b) \<noteq> None" for b
  proof -
    have bn: "b \<noteq> n" "nx q1 (Frag b) \<noteq> None" using b(2) by (auto simp: V(3) split: if_splits)
    have "b \<in> set fs" using b(1) unfolding fs by auto
    then have "nx qm (Frag b) \<noteq> None" "b \<in> set fs" using q1(3) bn(2) by auto
    then obtain g where "b \<in> set (L g)" using ok(4) by blast
    with bn(1) have "b \<in> set (?L g)" by auto
    then show ?thesis ..
  qed
  have hq: "heap_ok q (us @ f # vs) ?L" using lay rg no fl by (simp add: heap_ok_def rings_def)
  have st: "same_totals qm q" "qm_real_used q = sub64 (qm_real_used qm) 96"
    using core_sel [OF sz1(2)] by (simp_all add: q_def joined_def Let_def same_totals_def)
  have nf: "nx qm (Frag f) = None" "nx qm (Frag n) \<noteq> None" using r0 R(7) [OF assms(4)] by (simp_all add: nx_Frag)
  have "ublk q b = ((ublk qm)(f \<mapsto> s + t + 96)) b" for b
    using spec [OF q1(3), of b] nf \<open>n \<noteq> f\<close> by (auto simp: ublk_def V(1,3) sz1(1))
  then have u: "ublk q = (ublk qm)(f \<mapsto> s + t + 96)" by blast
  have sets: "f \<in> set (us @ f # vs)" "set fs = insert n (set (us @ f # vs))" "n \<notin> set (us @ f # vs)"
    "length fs = length (us @ f # vs) + 1" using layoutD(2) [OF ok(1)] unfolding fs by auto
  have fr: "frag_at q1 f = Inr r" by (simp add: frag_at_def r(1))
  show ?thesis
    by (rule exI [of _ q1], rule exI [of _ r], rule exI [of _ "us @ f # vs"], rule exI [of _ ?L])
      (use q1(1) fr r(2) hq st u sets in \<open>simp only: simp_thms q_def [symmetric]\<close>)
qed

section \<open>Reallocation\<close>

lemma shrink_ok:
  assumes "heap_ok qm fs L" "ublk qm f = Some s" "qm_frags qm f = Some r" "m < s" "8 dvd m"
  shows "\<exists>q fs' L' k. realloc_shrink f r m qm = Some (Inr q) \<and> heap_ok q fs' L' \<and> same_arena qm q \<and>
    qm_mem q = qm_mem qm \<and> m \<le> k \<and> k \<le> s \<and> ublk q = (ublk qm)(f \<mapsto> k) \<and>
    (96 + 16384 < s - m \<or> 96 + m \<le> s - m \<longrightarrow> k = m \<and> qm_used q = qm_used qm \<and>
       qm_real_used q = add64 (qm_real_used qm) 96)"
proof -
  have rs: "qf_size r = s" using ublk_frag(1) [OF assms(1,2)] assms(3) by auto
  from split_ok [OF assms(1,2) less_imp_le [OF assms(4)] assms(5)] obtain ret q fs' L' where
    sp: "split_frag f m qm = Some (Inr (ret, q))" "heap_ok q fs' L'" "same_totals qm q"
    "ret = -1 \<and> q = qm \<and> fs' = fs \<and> L' = L \<and> \<not> (96 + 16384 < s - m \<or> 96 + m \<le> s - m) \<or>
     ret = 0 \<and> m + 96 \<le> s \<and> (96 + 16384 < s - m \<or> 96 + m \<le> s - m) \<and>
     ublk q = (ublk qm)(f \<mapsto> m) \<and> f \<in> set fs' \<and>
     set fs' = insert (f + m + 96) (set fs) \<and> f + m + 96 \<notin> set fs \<and> length fs' = length fs + 1 \<and>
     qm_real_used q = add64 (qm_real_used qm) 96 \<and> free_frags L' = insert (f + m + 96) (free_frags L)"
    by (elim exE conjE) (rule that)
  define k where "k = (if ret = 0 then m else s)"
  have k: "m \<le> k" "k \<le> s" "ublk q = (ublk qm)(f \<mapsto> k)" using sp(4) assms(2,4) by (auto simp: k_def fun_eq_iff)
  obtain r1 where r1: "qm_frags q f = Some r1" "qf_size r1 = k" using ublk_frag(1) [OF sp(2), of f k] k(3) by auto
  have ar: "same_arena qm q" "qm_mem q = qm_mem qm" using sp(3) by (simp_all add: same_totals_def same_arena_def)
  show ?thesis
  proof (cases "ret = 0")
    case True
    then have "realloc_shrink f r m qm = Some (Inr q)" using sp(1) r1 by (simp add: realloc_shrink_def frag_at_def)
    moreover have "qm_used q = qm_used qm" "k = m" using sp(3) True by (simp_all add: same_totals_def k_def)
    moreover have "qm_real_used q = add64 (qm_real_used qm) 96" using sp(4) True by auto
    ultimately show ?thesis using sp(2) k ar by blast
  next
    case False
    let ?q = "q\<lparr>qm_real_used := sub64 (qm_real_used q) (sub64 (sub64 (qf_size r) (qf_size r1)) FRAG_OVERHEAD),
      qm_used := sub64 (qm_used q) (sub64 (qf_size r) (qf_size r1))\<rparr>"
    have sh: "same_heap ?q q" by (simp add: same_heap_def)
    have "realloc_shrink f r m qm = Some (Inr ?q)" using sp(1) r1 False by (simp add: realloc_shrink_def frag_at_def)
    moreover have "same_arena qm ?q" "qm_mem ?q = qm_mem qm" using ar by (simp_all add: same_arena_def)
    moreover have "\<not> (96 + 16384 < s - m \<or> 96 + m \<le> s - m)" using sp(4) False by blast
    ultimately show ?thesis using same_heap_ok [OF sh sp(2)] k by metis
  qed
qed

lemma next_fragment:
  assumes "heap_ok qm fs L" "ublk qm f = Some s" "qm_frags qm f = Some r"
  shows "\<exists>joins. next_joins f r m qm = Inr joins \<and>
    (joins \<longrightarrow> (\<exists>h t. f + s + 96 \<in> set (L h) \<and> szf qm (f + s + 96) = Some t \<and> m - s \<le> t + 96))"
proof (cases "f + s + 96 < qm_last_frag_end qm")
  case False
  moreover have "qf_size r = s" using ublk_frag(1) [OF assms(1,2)] assms(3) by auto
  ultimately show ?thesis by (intro exI [of _ False]) (simp add: next_joins_def)
next
  case True
  note ok = heapD [OF assms(1)]
  have rs: "qf_size r = s" using ublk_frag(1) [OF assms(1,2)] assms(3) by auto
  have f: "f \<in> set fs" "szf qm f = Some s" using ublk_frag(2) [OF assms(1,2)] assms(3) rs by (simp_all add: szf_def)
  from tile_succ [OF layoutD(1) [OF ok(1)] f] True have n: "f + s + 96 \<in> set fs" by auto
  from layoutD(3) [OF ok(1) n] obtain t where t: "szf qm (f + s + 96) = Some t" by blast
  then obtain rn where rn: "qm_frags qm (f + s + 96) = Some rn" "qf_size rn = t" by (auto simp: szf_def)
  have "qf_nxt rn \<noteq> None \<Longrightarrow> \<exists>h. f + s + 96 \<in> set (L h)" using ok(4) [OF n] rn by (simp add: nx_Frag)
  then show ?thesis using True rn rs t by (auto simp: next_joins_def Let_def frag_at_def)
qed

lemma realloc_join_eq:
  assumes "qm_frags qm f = Some r" "qf_size r = s" "qm_frags qm (f + s + 96) = Some rn"
    "qm_detach_free (f + s + 96) qm = Inr q1" "frag_at q1 f = Inr r1" "qf_size r1 = s"
    "q2 = joined f (GET_HASH (qf_size rn)) (qf_size rn) r1 q1"
  shows "realloc_join f r m qm =
    obind (if m < s + qf_size rn + 96 then obind (split_frag f m q2) (\<lambda>(ret, q3). Some (Inr q3)) else Some (Inr q2))
      (\<lambda>q3. obind (Some (frag_at q3 f)) (\<lambda>r3.
         Some (Inr (q3\<lparr>qm_real_used := add64 (qm_real_used q3) (sub64 (qf_size r3) s),
                      qm_used := add64 (qm_used q3) (sub64 (qf_size r3) s)\<rparr>))))"
proof -
  have "frag_at qm (f + s + 96) = Inr rn" using assms(3) by (simp add: frag_at_def)
  then show ?thesis
    by (simp add: realloc_join_def Let_def assms(2,4-7) joined_def)
qed

lemma join_grow_ok:
  assumes "heap_ok qm fs L" "ublk qm f = Some s" "qm_frags qm f = Some r" "s < m" "8 dvd m"
    "f + s + 96 \<in> set (L h)" "szf qm (f + s + 96) = Some t" "m - s \<le> t + 96"
  shows "\<exists>q fs' L' k. realloc_join f r m qm = Some (Inr q) \<and> heap_ok q fs' L' \<and> same_arena qm q \<and>
    qm_mem q = qm_mem qm \<and> m \<le> k \<and> ublk q = (ublk qm)(f \<mapsto> k) \<and> (acct qm fs \<longrightarrow> acct q fs')"
proof -
  let ?n = "f + s + 96"
  have rs: "qf_size r = s" using ublk_frag(1) [OF assms(1,2)] assms(3) by auto
  from assms(7) obtain rn where rn: "qm_frags qm ?n = Some rn" "qf_size rn = t" by (auto simp: szf_def)
  have h: "GET_HASH t = h" using ringsD(3) [OF heapD(2) [OF assms(1)] assms(6)] assms(7) by auto
  from join_ok [OF assms(1,2) refl assms(6,7)] obtain q1 r1 fs1 L1 where
    j: "qm_detach_free ?n qm = Inr q1" "frag_at q1 f = Inr r1" "qf_size r1 = s"
    "heap_ok (joined f h t r1 q1) fs1 L1" "same_totals qm (joined f h t r1 q1)"
    "qm_real_used (joined f h t r1 q1) = sub64 (qm_real_used qm) 96"
    "ublk (joined f h t r1 q1) = (ublk qm)(f \<mapsto> s + t + 96)"
    "f \<in> set fs1" "set fs = insert ?n (set fs1)" "?n \<notin> set fs1" "length fs = length fs1 + 1"
    by (elim exE conjE) (rule that)
  define q2 where "q2 = joined f h t r1 q1"
  note j' = j(4-7) [folded q2_def]
  note eq = realloc_join_eq [OF assms(3) rs rn(1) j(1-3) refl, unfolded rn(2) h, folded q2_def]
  have u2: "ublk q2 f = Some (s + t + 96)" using j'(4) by simp
  have m: "m \<le> s + t + 96" using assms(4,8) by linarith
  have "\<exists>q3 fs3 L3 k e. (if m < s + t + 96 then obind (split_frag f m q2) (\<lambda>(ret, q3). Some (Inr q3)) else Some (Inr q2)) =
      Some (Inr q3) \<and> heap_ok q3 fs3 L3 \<and> same_totals q2 q3 \<and> ublk q3 = (ublk qm)(f \<mapsto> k) \<and> m \<le> k \<and>
      k \<le> s + t + 96 \<and> e \<le> 1 \<and> (e = 1 \<longrightarrow> k + 96 \<le> s + t + 96) \<and>
      qm_real_used q3 = add64 (qm_real_used q2) (96 * e) mod 2 ^ 64 \<and>
      length fs3 = length fs1 + e \<and> usum q3 fs3 = usum q3 fs1"
  proof (cases "m < s + t + 96")
    case False
    have "add64 (qm_real_used q2) 0 mod 2 ^ 64 = qm_real_used q2"
      by (simp add: add64_def j'(3) sub64_def)
    with False j'(1,4) m same_totals_refl show ?thesis
      by (intro exI [of _ q2] exI [of _ fs1] exI [of _ L1] exI [of _ "s + t + 96"] exI [of _ 0]) auto
  next
    case True
    from split_ok [OF j'(1) u2 m assms(5)] obtain ret q3 fs3 L3 where
      sp: "split_frag f m q2 = Some (Inr (ret, q3))" "heap_ok q3 fs3 L3" "same_totals q2 q3"
      "ret = -1 \<and> q3 = q2 \<and> fs3 = fs1 \<and> L3 = L1 \<and> \<not> (96 + 16384 < s + t + 96 - m \<or> 96 + m \<le> s + t + 96 - m) \<or>
       ret = 0 \<and> m + 96 \<le> s + t + 96 \<and> (96 + 16384 < s + t + 96 - m \<or> 96 + m \<le> s + t + 96 - m) \<and>
       ublk q3 = (ublk q2)(f \<mapsto> m) \<and> f \<in> set fs3 \<and>
       set fs3 = insert (f + m + 96) (set fs1) \<and> f + m + 96 \<notin> set fs1 \<and> length fs3 = length fs1 + 1 \<and>
       qm_real_used q3 = add64 (qm_real_used q2) 96 \<and> free_frags L3 = insert (f + m + 96) (free_frags L1)"
      by (elim exE conjE) (rule that)
    show ?thesis
    proof (cases "ret = 0")
      case False
      have "add64 (qm_real_used q2) 0 mod 2 ^ 64 = qm_real_used q2"
        by (simp add: add64_def j'(3) sub64_def)
      with sp False True j'(4) m same_totals_refl show ?thesis
        by (intro exI [of _ q2] exI [of _ fs1] exI [of _ L1] exI [of _ "s + t + 96"] exI [of _ 0]) auto
    next
      case z: True
      with sp(4) have a: "m + 96 \<le> s + t + 96" "ublk q3 = (ublk qm)(f \<mapsto> m)"
        "set fs3 = insert (f + m + 96) (set fs1)" "f + m + 96 \<notin> set fs1" "length fs3 = length fs1 + 1"
        "qm_real_used q3 = add64 (qm_real_used q2) 96" "f + m + 96 \<in> free_frags L3" using j'(4) by auto
      have "usum q3 fs3 = usum q3 fs1"
        using usum_insert [OF a(3,4)] free_ublk [OF sp(2) a(7)] by blast
      moreover have "add64 (qm_real_used q2) 96 mod 2 ^ 64 = add64 (qm_real_used q2) 96" by (simp add: add64_def)
      ultimately show ?thesis using sp(1-3) a True
        by (intro exI [of _ q3] exI [of _ fs3] exI [of _ L3] exI [of _ m] exI [of _ 1]) simp
    qed
  qed
  then obtain q3 fs3 L3 k e where
    q3: "(if m < s + t + 96 then obind (split_frag f m q2) (\<lambda>(ret, q3). Some (Inr q3)) else Some (Inr q2)) = Some (Inr q3)"
    "heap_ok q3 fs3 L3" "same_totals q2 q3" "ublk q3 = (ublk qm)(f \<mapsto> k)" "m \<le> k" "k \<le> s + t + 96" "e \<le> 1"
    "e = 1 \<longrightarrow> k + 96 \<le> s + t + 96" "qm_real_used q3 = add64 (qm_real_used q2) (96 * e) mod 2 ^ 64"
    "length fs3 = length fs1 + e" "usum q3 fs3 = usum q3 fs1" by (elim exE conjE) (rule that)
  obtain r3 where r3: "qm_frags q3 f = Some r3" "qf_size r3 = k" using ublk_frag(1) [OF q3(2), of f k] q3(4) by auto
  let ?d = "sub64 k s"
  define q where "q = q3\<lparr>qm_real_used := add64 (qm_real_used q3) ?d, qm_used := add64 (qm_used q3) ?d\<rparr>"
  have sh: "same_heap q q3" by (simp add: q_def same_heap_def)
  have run: "realloc_join f r m qm = Some (Inr q)"
    unfolding eq q3(1) by (simp add: frag_at_def r3 q_def)
  have ar: "same_arena qm q" "qm_mem q = qm_mem qm" "qm_used q3 = qm_used qm" "qm_max_real_used q = qm_max_real_used qm"
    using q3(3) j'(2) by (simp_all add: same_totals_def same_arena_def q_def)
  have "ublk q = (ublk qm)(f \<mapsto> k)" using same_heap_ok(2) [OF sh q3(2)] q3(4) by simp
  moreover have "acct q fs3" if ac: "acct qm fs"
  proof -
    have zn: "ublk qm ?n = None" using free_ublk [OF assms(1), of ?n] assms(6) by (auto simp: free_frags_def)
    have u1: "usum qm fs = usum qm fs1" using usum_insert [OF j(9,10) zn] .
    have uk: "ublk q = (ublk qm)(f := Some k)" using same_heap_ok(2) [OF sh q3(2)] q3(4) by simp
    have us: "usum q fs3 + s = usum qm fs + k"
    proof -
      have "usum q fs3 = usum q fs1" using q3(11) same_heap_ok(2) [OF sh q3(2)] by (simp add: usum_def)
      with usum_upd [OF j(8) uk] assms(2) u1 show ?thesis by simp
    qed
    have lq: "layout q fs3" using heapD(1) [OF same_heap_ok(1) [OF sh q3(2)]] .
    have b: "qm_size q + qm_first_frag q = 218344 + (qm_last_frag_end q + 48)" "218344 \<le> qm_first_frag q"
      using ac ar(1) by (simp_all add: acct_def same_arena_def)
    have "218344 + 96 * length fs3 + usum q fs3 \<le> qm_size q" using usum_le [OF lq] b by linarith
    moreover have sm: "qm_size q < 2 ^ 64" using b layoutD(5) [OF lq] by linarith
    moreover have A: "qm_used qm = usum qm fs" "qm_real_used qm = 218344 + 96 * length fs + usum qm fs"
      using ac by (simp_all add: acct_def)
    moreover have "sub64 (qm_real_used qm) 96 = qm_real_used qm - 96"
      using acct_small(1,2) [OF heapD(1) [OF assms(1)] ac] A j(11) by (intro sub64_le) linarith+
    then have r2: "qm_real_used q2 = 218344 + 96 * length fs1 + usum qm fs" using j'(3) A(2) j(11) by simp
    have r3: "qm_real_used q3 = 218344 + 96 * length fs3 + usum qm fs"
    proof -
      have l3: "96 * length fs3 = 96 * length fs1 + 96 * e" using q3(10) by simp
      have "218344 + 96 * length fs3 + usum qm fs < 2 ^ 64"
        using \<open>218344 + 96 * length fs3 + usum q fs3 \<le> qm_size q\<close> sm us assms(4) q3(5) by linarith
      then have "add64 (qm_real_used q2) (96 * e) = 218344 + 96 * length fs3 + usum qm fs"
        using r2 l3 by (simp add: add64_def)
      with q3(9) \<open>218344 + 96 * length fs3 + usum qm fs < 2 ^ 64\<close> show ?thesis by simp
    qed
    have "?d = k - s"
    proof (rule sub64_le)
      show "s \<le> k" using assms(4) q3(5) by linarith
      have "weight (ublk qm f) \<le> usum qm fs" unfolding usum_def
        by (rule member_le_sum) (use ublk_frag(2) [OF assms(1,2)] in auto)
      then have "k \<le> usum q fs3" using us assms(2) by simp
      then show "k < 2 ^ 64" using \<open>218344 + 96 * length fs3 + usum q fs3 \<le> qm_size q\<close> sm by linarith
    qed
    then have "qm_used q = add64 (usum qm fs) (k - s)"
      "qm_real_used q = add64 (218344 + 96 * length fs3 + usum qm fs) (k - s)"
      using ar(3) A(1) r3 by (simp_all add: q_def)
    moreover have "usum qm fs + (k - s) = usum q fs3" using us assms(4) q3(5) by linarith
    ultimately show ?thesis using b sm by (simp add: acct_def add64_less)
  qed
  ultimately show ?thesis using run same_heap_ok(1) [OF sh q3(2)] ar(1,2) q3(5) by blast
qed

end
