(* ===== verification/Q_Props.thy ===== *)
theory Q_Props
  imports Q_Realloc Interfaces
begin

text \<open>
  What the allocator promises: it is an allocator of disjoint blocks, it takes a best fit, its books
  are right as long as nothing is shrunk, reallocation keeps the bytes; and what it does with bad
  pointers and with sizes at the end of the range.
\<close>

section \<open>The contract\<close>

text \<open>The heap lies between two addresses; with \<open>qm_inv\<close> its books are right as well.\<close>

definition qm_safe :: "nat \<Rightarrow> nat \<Rightarrow> qm_block \<Rightarrow> bool" where
  "qm_safe lo hi qm \<longleftrightarrow> (\<exists>fs L. heap_ok qm fs L) \<and> lo \<le> qm_first_frag qm \<and> 0 < qm_first_frag qm \<and>
     qm_last_frag_end qm + 48 \<le> hi"

definition qm_inv :: "nat \<Rightarrow> nat \<Rightarrow> qm_block \<Rightarrow> bool" where
  "qm_inv lo hi qm \<longleftrightarrow> (\<exists>fs L. heap_ok qm fs L \<and> acct qm fs) \<and> lo \<le> qm_first_frag qm \<and>
     qm_last_frag_end qm + 48 \<le> hi"

text \<open>The pointers that are allocated, with the sizes of their fragments.\<close>

definition qm_blocks :: "qm_block \<Rightarrow> nat \<Rightarrow> nat option" where
  "qm_blocks qm p = (if 48 \<le> p then ublk qm (p - 48) else None)"

lemma qm_blocks_upd: "ublk q = (ublk qm)(f := v) \<Longrightarrow> qm_blocks q = (qm_blocks qm)(f + 48 := v)"
  by (auto simp: qm_blocks_def fun_eq_iff)

lemma acct_pos: "acct qm fs \<Longrightarrow> 0 < qm_first_frag qm"
  by (simp add: acct_def)

lemma blocks_disjoint:
  assumes "heap_ok qm fs L" "qm_blocks qm p = Some m" "qm_blocks qm q = Some k" "p < q"
  shows "p + m + 96 \<le> q"
proof -
  have u: "ublk qm (p - 48) = Some m" "ublk qm (q - 48) = Some k" "48 \<le> p" "48 \<le> q"
    using assms(2,3) by (auto simp: qm_blocks_def split: if_splits)
  then have s: "szf qm (p - 48) = Some m" "szf qm (q - 48) = Some k" by (auto simp: ublk_def split: if_splits)
  have f: "p - 48 \<in> set fs" "q - 48 \<in> set fs" using ublk_frag(2) [OF assms(1)] u(1,2) by blast+
  have "p - 48 < q - 48" using assms(4) u(3) by linarith
  from tile_disjoint [OF layoutD(1) [OF heapD(1) [OF assms(1)]] f this s(1)] u(3,4) show ?thesis by linarith
qed

lemma inv_safe: "qm_inv lo hi qm \<Longrightarrow> qm_safe lo hi qm"
  using acct_pos by (auto simp: qm_inv_def qm_safe_def)

interpretation qa: allocator qm_malloc qm_free "qm_inv lo hi" qm_blocks ROUNDUP for lo hi
proof
  fix s n
  assume "qm_inv lo hi s"
  then obtain fs L where h: "heap_ok s fs L" "acct s fs" by (auto simp: qm_inv_def)
  from malloc_ok [OF h(1) refl, of n] obtain p q fs' L' where
    m: "qm_malloc n s = Some (Inr (p, q))" "heap_ok q fs' L'"
    "same_arena s q"
    "p = 0 \<and> q = s \<and> fs' = fs \<and> L' = L \<and> (acct s fs \<longrightarrow> (\<forall>b \<in> free_frags L. the (szf s b) < ROUNDUP n)) \<or>
     (\<exists>f m. p = f + 48 \<and> f \<in> free_frags L \<and> ROUNDUP n \<le> m \<and> m \<le> the (szf s f) \<and> ublk q = (ublk s)(f \<mapsto> m) \<and>
       (m = ROUNDUP n \<or> m < 2 * ROUNDUP n + 96 \<and> m \<le> ROUNDUP n + 16480) \<and>
       (\<forall>b \<in> free_frags L. ROUNDUP n \<le> the (szf s b) \<longrightarrow> the (szf s f) \<le> the (szf s b)) \<and>
       (acct s fs \<longrightarrow> acct q fs'))" by (elim exE conjE) (rule that)
  have ar: "lo \<le> qm_first_frag q" "qm_last_frag_end q + 48 \<le> hi"
    using m(3) \<open>qm_inv lo hi s\<close> by (simp_all add: same_arena_def qm_inv_def)
  from m(4) show "\<exists>p s'. qm_malloc n s = Some (Inr (p, s')) \<and> qm_inv lo hi s' \<and>
      (p = 0 \<and> qm_blocks s' = qm_blocks s \<or>
       p \<noteq> 0 \<and> qm_blocks s p = None \<and> (\<exists>m. ROUNDUP n \<le> m \<and> qm_blocks s' = (qm_blocks s)(p \<mapsto> m)))"
  proof
    assume "p = 0 \<and> q = s \<and> fs' = fs \<and> L' = L \<and> (acct s fs \<longrightarrow> (\<forall>b \<in> free_frags L. the (szf s b) < ROUNDUP n))"
    with m(1) \<open>qm_inv lo hi s\<close> show ?thesis by auto
  next
    assume "\<exists>f m. p = f + 48 \<and> f \<in> free_frags L \<and> ROUNDUP n \<le> m \<and> m \<le> the (szf s f) \<and> ublk q = (ublk s)(f \<mapsto> m) \<and>
       (m = ROUNDUP n \<or> m < 2 * ROUNDUP n + 96 \<and> m \<le> ROUNDUP n + 16480) \<and>
       (\<forall>b \<in> free_frags L. ROUNDUP n \<le> the (szf s b) \<longrightarrow> the (szf s f) \<le> the (szf s b)) \<and>
       (acct s fs \<longrightarrow> acct q fs')"
    then obtain f k where f: "p = f + 48" "f \<in> free_frags L" "ROUNDUP n \<le> k" "ublk q = (ublk s)(f \<mapsto> k)" "acct q fs'"
      using h(2) by blast
    have "qm_blocks s p = None" using free_ublk [OF h(1) f(2)] f(1) by (simp add: qm_blocks_def)
    moreover have "qm_blocks q = (qm_blocks s)(p \<mapsto> k)" using qm_blocks_upd [OF f(4)] f(1) by simp
    moreover have "qm_inv lo hi q" using m(2) f(5) ar by (auto simp: qm_inv_def)
    ultimately show ?thesis using m(1) f(1,3) by auto
  qed
next
  fix s p m
  assume a: "qm_inv lo hi s" "qm_blocks s p = Some m"
  then obtain fs L where h: "heap_ok s fs L" "acct s fs" by (auto simp: qm_inv_def)
  have p: "48 \<le> p" "ublk s (p - 48) = Some m" using a(2) by (auto simp: qm_blocks_def split: if_splits)
  from free_ok [OF h(1) p(2) acct_pos [OF h(2)]] obtain q L' where
    q: "qm_free (p - 48 + 48) s = Some (Inr q)" "heap_ok q fs L'" "ublk q = (ublk s)(p - 48 := None)"
    "same_arena s q" "acct s fs \<longrightarrow> acct q fs" by (elim exE conjE) (rule that)
  have "qm_blocks q = (qm_blocks s)(p := None)" using qm_blocks_upd [OF q(3)] p(1) by simp
  with q h(2) p(1) a(1) show "\<exists>s'. qm_free p s = Some (Inr s') \<and> qm_inv lo hi s' \<and> qm_blocks s' = (qm_blocks s)(p := None)"
    by (auto simp: qm_inv_def same_arena_def)
next
  fix s p m q k
  assume a: "qm_inv lo hi s" "qm_blocks s p = Some m" "qm_blocks s q = Some k" "p \<noteq> q"
  then obtain fs L where h: "heap_ok s fs L" by (auto simp: qm_inv_def)
  consider "p < q" | "q < p" using a(4) by linarith
  then show "p + m \<le> q \<or> q + k \<le> p"
    by cases (use blocks_disjoint [OF h a(2,3)] blocks_disjoint [OF h a(3,2)] in auto)
qed

section \<open>Reallocation\<close>

lemma realloc_run:
  assumes "heap_ok qm fs L" "ublk qm f = Some s" "qm_frags qm f = Some r" "0 < n" "0 < qm_first_frag qm"
  shows "qm_realloc (f + 48) n qm =
    (if ROUNDUP n < s then obind (realloc_shrink f r (ROUNDUP n) qm) (\<lambda>q. Some (Inr (f + 48, q)))
     else if s < ROUNDUP n then
       obind (Some (next_joins f r (ROUNDUP n) qm)) (\<lambda>joins.
         if joins then obind (realloc_join f r (ROUNDUP n) qm) (\<lambda>q. Some (Inr (f + 48, q)))
         else obind (qm_malloc (ROUNDUP n) qm) (\<lambda>(ptr, q).
           if ptr \<noteq> 0
           then obind (qm_free (f + 48) (copy_mem ptr (f + 48) s q)) (\<lambda>q2. Some (Inr (ptr, q2)))
           else Some (Inr (ptr, q))))
     else Some (Inr (f + 48, qm)))"
proof -
  have r: "qf_size r = s" "qf_nxt r = None" using ublk_frag(1) [OF assms(1,2)] assms(3) by auto
  have f: "f \<in> set fs" using ublk_frag(2) [OF assms(1,2)] .
  have "szf qm f = Some s" using assms(3) r(1) by (simp add: szf_def)
  with layoutD(3) [OF heapD(1) [OF assms(1)] f]
  have "qm_first_frag qm \<le> f" "f + s + 96 \<le> qm_last_frag_end qm + 48" by auto
  then have "\<not> (qm_last_frag_end qm < f + 48 \<or> f + 48 < qm_first_frag qm)" by linarith
  then show ?thesis
    using assms(3-5) r(2) debug_ok [OF assms(1) f] unfolding r(1) [symmetric]
    by (simp add: qm_realloc_def frag_at_def Let_def)
qed

lemma copy_same: "same_heap (copy_mem d s n qm) qm"
  by (simp add: same_heap_def copy_mem_def)

lemma ROUNDUP_id:
  assumes "8 dvd m" "m < 2 ^ 64"
  shows "ROUNDUP m = m"
proof -
  obtain j where j: "m = 8 * j" using assms(1) by blast
  then have "8 * j + 7 < 2 ^ 64" using assms(2) by simp
  with j show ?thesis by (simp add: ROUNDUP_def add64_def)
qed

text \<open>The branch that moves the block.\<close>

lemma move_ok:
  assumes "heap_ok qm fs L" "ublk qm f = Some s" "s < m" "0 < qm_first_frag qm" "ROUNDUP m = m"
  shows "\<exists>p q. obind (qm_malloc m qm) (\<lambda>(ptr, q).
           if ptr \<noteq> 0
           then obind (qm_free (f + 48) (copy_mem ptr (f + 48) s q)) (\<lambda>q2. Some (Inr (ptr, q2)))
           else Some (Inr (ptr, q))) = Some (Inr (p, q)) \<and> (\<exists>fs' L'. heap_ok q fs' L') \<and> same_arena qm q \<and>
    (p = 0 \<and> q = qm \<or>
     (\<exists>g k. p = g + 48 \<and> g \<noteq> f \<and> ublk qm g = None \<and> m \<le> k \<and> ublk q = (ublk qm)(f := None, g \<mapsto> k) \<and>
       qm_mem q = (\<lambda>a. if p \<le> a \<and> a < p + s then qm_mem qm (f + 48 + (a - p)) else qm_mem qm a)))"
proof -
  note ru = assms(5)
  from malloc_ok [OF assms(1) refl, of m] obtain p q fs' L' where
    a: "qm_malloc m qm = Some (Inr (p, q))" "heap_ok q fs' L'" "same_arena qm q" "qm_mem q = qm_mem qm"
    "p = 0 \<and> q = qm \<and> fs' = fs \<and> L' = L \<and> (acct qm fs \<longrightarrow> (\<forall>b \<in> free_frags L. the (szf qm b) < ROUNDUP m)) \<or>
     (\<exists>f k. p = f + 48 \<and> f \<in> free_frags L \<and> ROUNDUP m \<le> k \<and> k \<le> the (szf qm f) \<and> ublk q = (ublk qm)(f \<mapsto> k) \<and>
       (k = ROUNDUP m \<or> k < 2 * ROUNDUP m + 96 \<and> k \<le> ROUNDUP m + 16480) \<and>
       (\<forall>b \<in> free_frags L. ROUNDUP m \<le> the (szf qm b) \<longrightarrow> the (szf qm f) \<le> the (szf qm b)) \<and>
       (acct qm fs \<longrightarrow> acct q fs'))" by (elim exE conjE) (rule that)
  show ?thesis
  proof (cases "p = 0")
    case True
    with a(5) have "q = qm" by auto
    with True a(1-3) show ?thesis by auto
  next
    case False
    then obtain g k where g: "p = g + 48" "g \<in> free_frags L" "m \<le> k" "ublk q = (ublk qm)(g \<mapsto> k)"
      using a(5) ru by auto
    have gn: "ublk qm g = None" using free_ublk [OF assms(1) g(2)] by simp
    then have gf: "g \<noteq> f" using assms(2) by auto
    let ?c = "copy_mem p (f + 48) s q"
    note hc = same_heap_ok [OF copy_same a(2), of p "f + 48" s]
    have uf: "ublk ?c f = Some s" using hc(2) g(4) gf assms(2) by simp
    have first: "0 < qm_first_frag ?c" using a(3) assms(4) by (simp add: copy_mem_def same_arena_def)
    from free_ok [OF hc(1) uf first] obtain q2 L2 where
      q2: "qm_free (f + 48) ?c = Some (Inr q2)" "heap_ok q2 fs' L2" "same_arena ?c q2" "qm_mem q2 = qm_mem ?c"
      "ublk q2 = (ublk ?c)(f := None)" by (elim exE conjE) (rule that)
    have u: "ublk q2 = (ublk qm)(f := None, g \<mapsto> k)" using q2(5) hc(2) g(4) gf by (auto simp: fun_eq_iff)
    have mm: "qm_mem q2 = (\<lambda>x. if p \<le> x \<and> x < p + s then qm_mem qm (f + 48 + (x - p)) else qm_mem qm x)"
      unfolding q2(4) by (simp add: copy_mem_def a(4) fun_eq_iff)
    have ar: "same_arena qm q2" using q2(3) a(3) by (simp add: same_arena_def copy_mem_def)
    have run: "obind (qm_malloc m qm) (\<lambda>(ptr, q).
           if ptr \<noteq> 0
           then obind (qm_free (f + 48) (copy_mem ptr (f + 48) s q)) (\<lambda>q2. Some (Inr (ptr, q2)))
           else Some (Inr (ptr, q))) = Some (Inr (p, q2))"
      using a(1) False q2(1) by simp
    have "\<exists>g k. p = g + 48 \<and> g \<noteq> f \<and> ublk qm g = None \<and> m \<le> k \<and> ublk q2 = (ublk qm)(f := None, g \<mapsto> k) \<and>
        qm_mem q2 = (\<lambda>a. if p \<le> a \<and> a < p + s then qm_mem qm (f + 48 + (a - p)) else qm_mem qm a)"
      using g(1,3) gf gn u mm by blast
    with run q2(2) ar show ?thesis by blast
  qed
qed

lemma realloc_ok:
  assumes "heap_ok qm fs L" "ublk qm f = Some s" "0 < n" "n + 7 < 2 ^ 64" "0 < qm_first_frag qm"
  shows "\<exists>p q. qm_realloc (f + 48) n qm = Some (Inr (p, q)) \<and> (\<exists>fs' L'. heap_ok q fs' L') \<and> same_arena qm q \<and>
    (p = 0 \<and> q = qm \<or>
     (\<exists>g k. p = g + 48 \<and> n \<le> k \<and> ublk q = (ublk qm)(f := None, g \<mapsto> k) \<and>
       (g = f \<and> qm_mem q = qm_mem qm \<or>
        g \<noteq> f \<and> ublk qm g = None \<and> s < k \<and>
        qm_mem q = (\<lambda>a. if p \<le> a \<and> a < p + s then qm_mem qm (f + 48 + (a - p)) else qm_mem qm a))))"
proof -
  let ?m = "ROUNDUP n"
  note rb = roundup_bounds [OF assms(4)]
  from ublk_frag(1) [OF assms(1,2)] obtain r where r: "qm_frags qm f = Some r" by blast
  note run = realloc_run [OF assms(1,2) r assms(3,5)]
  have up: "(ublk qm)(f \<mapsto> k) = (ublk qm)(f := None, f \<mapsto> k)" for k by simp
  have in_place: "?thesis" if "qm_realloc (f + 48) n qm = Some (Inr (f + 48, q))" "heap_ok q fs' L'" "same_arena qm q"
    "ublk q = (ublk qm)(f \<mapsto> k)" "?m \<le> k" "qm_mem q = qm_mem qm" for q fs' L' k
  proof -
    have "n \<le> k" using rb(1) that(5) by linarith
    then have "\<exists>g k. f + 48 = g + 48 \<and> n \<le> k \<and> ublk q = (ublk qm)(f := None, g \<mapsto> k) \<and>
       (g = f \<and> qm_mem q = qm_mem qm \<or>
        g \<noteq> f \<and> ublk qm g = None \<and> s < k \<and>
        qm_mem q = (\<lambda>a. if f + 48 \<le> a \<and> a < f + 48 + s then qm_mem qm (f + 48 + (a - (f + 48))) else qm_mem qm a))"
      using that(4,6) unfolding up by blast
    with that(1-3) show ?thesis by blast
  qed
  consider (less) "?m < s" | (more) "s < ?m" | (same) "?m = s" by linarith
  then show ?thesis
  proof cases
    case less
    from shrink_ok [OF assms(1,2) r less rb(3)] obtain q fs' L' k where
      q: "realloc_shrink f r ?m qm = Some (Inr q)" "heap_ok q fs' L'" "same_arena qm q" "qm_mem q = qm_mem qm"
      "?m \<le> k" "ublk q = (ublk qm)(f \<mapsto> k)" by (elim exE conjE) (rule that)
    have "qm_realloc (f + 48) n qm = Some (Inr (f + 48, q))" unfolding run using less q(1) by simp
    from in_place [OF this q(2,3,6,5,4)] show ?thesis .
  next
    case same
    have "ublk qm = (ublk qm)(f \<mapsto> s)" using assms(2) by auto
    moreover have "qm_realloc (f + 48) n qm = Some (Inr (f + 48, qm))" unfolding run using same by simp
    moreover have "same_arena qm qm" by (simp add: same_arena_def)
    ultimately show ?thesis using in_place [OF _ assms(1)] same by blast
  next
    case more
    from next_fragment [OF assms(1,2) r, of ?m] obtain joins where
      j: "next_joins f r ?m qm = Inr joins"
      "joins \<longrightarrow> (\<exists>h t. f + s + 96 \<in> set (L h) \<and> szf qm (f + s + 96) = Some t \<and> ?m - s \<le> t + 96)" by blast
    show ?thesis
    proof (cases joins)
      case True
      with j(2) obtain h t where t: "f + s + 96 \<in> set (L h)" "szf qm (f + s + 96) = Some t" "?m - s \<le> t + 96" by blast
      from join_grow_ok [OF assms(1,2) r more rb(3) t] obtain q fs' L' k where
        q: "realloc_join f r ?m qm = Some (Inr q)" "heap_ok q fs' L'" "same_arena qm q" "qm_mem q = qm_mem qm"
        "?m \<le> k" "ublk q = (ublk qm)(f \<mapsto> k)" by (elim exE conjE) (rule that)
      have "qm_realloc (f + 48) n qm = Some (Inr (f + 48, q))" unfolding run using more q(1) j(1) True by simp
      from in_place [OF this q(2,3,6,5,4)] show ?thesis .
    next
      case False
      have "?m < 2 ^ 64" using assms(4) rb(2) by linarith
      note ru = ROUNDUP_id [OF rb(3) this]
      from move_ok [OF assms(1,2) more assms(5) ru] obtain p q fs' L' where
        q: "obind (qm_malloc ?m qm) (\<lambda>(ptr, q).
           if ptr \<noteq> 0
           then obind (qm_free (f + 48) (copy_mem ptr (f + 48) s q)) (\<lambda>q2. Some (Inr (ptr, q2)))
           else Some (Inr (ptr, q))) = Some (Inr (p, q))" "heap_ok q fs' L'" "same_arena qm q"
        "p = 0 \<and> q = qm \<or>
         (\<exists>g k. p = g + 48 \<and> g \<noteq> f \<and> ublk qm g = None \<and> ?m \<le> k \<and> ublk q = (ublk qm)(f := None, g \<mapsto> k) \<and>
           qm_mem q = (\<lambda>a. if p \<le> a \<and> a < p + s then qm_mem qm (f + 48 + (a - p)) else qm_mem qm a))"
        by (elim exE conjE) (rule that)
      have e: "qm_realloc (f + 48) n qm = Some (Inr (p, q))" unfolding run using more q(1) j(1) False by simp
      have "p = 0 \<and> q = qm \<or>
         (\<exists>g k. p = g + 48 \<and> n \<le> k \<and> ublk q = (ublk qm)(f := None, g \<mapsto> k) \<and>
           (g = f \<and> qm_mem q = qm_mem qm \<or> g \<noteq> f \<and> ublk qm g = None \<and> s < k \<and>
            qm_mem q = (\<lambda>a. if p \<le> a \<and> a < p + s then qm_mem qm (f + 48 + (a - p)) else qm_mem qm a)))"
        using q(4)
      proof
        assume "\<exists>g k. p = g + 48 \<and> g \<noteq> f \<and> ublk qm g = None \<and> ?m \<le> k \<and> ublk q = (ublk qm)(f := None, g \<mapsto> k) \<and>
           qm_mem q = (\<lambda>a. if p \<le> a \<and> a < p + s then qm_mem qm (f + 48 + (a - p)) else qm_mem qm a)"
        then obtain g k where g: "p = g + 48" "g \<noteq> f" "ublk qm g = None" "?m \<le> k" "ublk q = (ublk qm)(f := None, g \<mapsto> k)"
          "qm_mem q = (\<lambda>a. if p \<le> a \<and> a < p + s then qm_mem qm (f + 48 + (a - p)) else qm_mem qm a)"
          by (elim exE conjE) (rule that)
        have "n \<le> k" "s < k" using rb(1) g(4) more by linarith+
        with g show ?thesis by blast
      qed blast
      with e q(2,3) show ?thesis by blast
    qed
  qed
qed

section \<open>Properties\<close>

text \<open>The free fragments with their sizes.\<close>

definition free_sizes :: "qm_block \<Rightarrow> nat \<Rightarrow> nat option" where
  "free_sizes qm a = (if nx qm (Frag a) = None then None else szf qm a)"

lemma free_sizes_iff:
  assumes "heap_ok qm fs L"
  shows "free_sizes qm a = Some s \<longleftrightarrow> a \<in> free_frags L \<and> szf qm a = Some s"
proof
  assume a: "free_sizes qm a = Some s"
  then have n: "nx qm (Frag a) \<noteq> None" "szf qm a = Some s" by (auto simp: free_sizes_def split: if_splits)
  have "a \<in> set fs" using layoutD(4) [OF heapD(1) [OF assms] n(2)] by simp
  with heapD(4) [OF assms] n show "a \<in> free_frags L \<and> szf qm a = Some s" by (simp add: free_frags_iff)
next
  assume a: "a \<in> free_frags L \<and> szf qm a = Some s"
  then obtain h where "a \<in> set (L h)" by (auto simp: free_frags_iff)
  from ringsD(7) [OF heapD(2) [OF assms] this] a show "free_sizes qm a = Some s" by (simp add: free_sizes_def)
qed

lemma used_total:
  assumes "heap_ok qm fs L" "acct qm fs"
  shows "qm_used qm = (\<Sum>p\<in>dom (qm_blocks qm). the (qm_blocks qm p))"
proof -
  let ?U = "{a. ublk qm a \<noteq> None}"
  have U: "?U \<subseteq> set fs" using ublk_frag(2) [OF assms(1)] by blast
  have "usum qm fs = (\<Sum>a\<in>?U. weight (ublk qm a))"
    unfolding usum_def using U by (intro sum.mono_neutral_right) auto
  also have "\<dots> = (\<Sum>p\<in>(\<lambda>a. a + 48) ` ?U. weight (ublk qm (p - 48)))"
    by (subst sum.reindex) auto
  also have "(\<lambda>a. a + 48) ` ?U = dom (qm_blocks qm)"
  proof -
    have "p \<in> (\<lambda>a. a + 48) ` ?U" if "qm_blocks qm p \<noteq> None" for p
      using that by (intro image_eqI [of _ _ "p - 48"]) (auto simp: qm_blocks_def split: if_splits)
    moreover have "qm_blocks qm (a + 48) \<noteq> None" if "a \<in> ?U" for a using that by (auto simp: qm_blocks_def)
    ultimately show ?thesis by blast
  qed
  also have "(\<Sum>p\<in>dom (qm_blocks qm). weight (ublk qm (p - 48))) = (\<Sum>p\<in>dom (qm_blocks qm). the (qm_blocks qm p))"
    by (rule sum.cong) (auto simp: qm_blocks_def split: if_splits)
  finally show ?thesis using assms(2) by (simp add: acct_def)
qed

lemma blocks_in_arena:
  assumes "qm_inv lo hi qm" "qm_blocks qm p = Some m"
  shows "lo + 48 \<le> p \<and> p + m + 48 \<le> hi"
proof -
  from assms(1) obtain fs L where h: "heap_ok qm fs L" "lo \<le> qm_first_frag qm" "qm_last_frag_end qm + 48 \<le> hi"
    by (auto simp: qm_inv_def)
  have p: "48 \<le> p" "ublk qm (p - 48) = Some m" using assms(2) by (auto simp: qm_blocks_def split: if_splits)
  have s: "szf qm (p - 48) = Some m" using p(2) by (auto simp: ublk_def split: if_splits)
  from layoutD(3) [OF heapD(1) [OF h(1)] ublk_frag(2) [OF h(1) p(2)]] s h(2,3) p(1) show ?thesis by auto
qed

lemma qm_init_inv:
  assumes "address + sz < 2 ^ 64" "218447 \<le> sz"
  shows "\<exists>qm. qm_malloc_init address sz mem = Some (Inr (Some qm)) \<and>
    qm_inv (address + 218344) (address + sz) qm \<and> qm_blocks qm = (\<lambda>_. None) \<and> qm_mem qm = mem \<and>
    free_sizes qm (qm_first_frag qm) = Some (qm_size qm - 218440) \<and> sz \<le> qm_size qm + 14"
proof -
  have "7 \<le> sz" using assms(2) by simp
  from init_ok [OF assms(1) this, of mem] obtain r where r: "qm_malloc_init address sz mem = Some (Inr r)"
    "case r of None \<Rightarrow> sz < 218447
     | Some q \<Rightarrow> \<exists>fs L. heap_ok q fs L \<and> acct q fs \<and> ublk q = (\<lambda>_. None) \<and> qm_mem q = mem \<and>
         address + 218344 \<le> qm_first_frag q \<and> qm_last_frag_end q + 48 \<le> address + sz \<and>
         sz \<le> qm_size q + 14 \<and> fs = [qm_first_frag q] \<and> qm_first_frag q \<in> free_frags L \<and>
         szf q (qm_first_frag q) = Some (qm_size q - 218440)" by blast
  then obtain qm fs L where q: "r = Some qm" "heap_ok qm fs L" "acct qm fs" "ublk qm = (\<lambda>_. None)" "qm_mem qm = mem"
    "address + 218344 \<le> qm_first_frag qm" "qm_last_frag_end qm + 48 \<le> address + sz"
    "sz \<le> qm_size qm + 14" "qm_first_frag qm \<in> free_frags L" "szf qm (qm_first_frag qm) = Some (qm_size qm - 218440)"
    using assms(2) by (cases r) auto
  have "qm_blocks qm = (\<lambda>_. None)" using q(4) by (simp add: qm_blocks_def fun_eq_iff)
  moreover have "qm_inv (address + 218344) (address + sz) qm" using q by (auto simp: qm_inv_def)
  moreover have "free_sizes qm (qm_first_frag qm) = Some (qm_size qm - 218440)"
    using free_sizes_iff [OF q(2)] q(9,10) by blast
  ultimately show ?thesis using r(1) q(1,5,8) by blast
qed

text \<open>
  C4: the allocator serves every client that releases only what it was given. From a new arena,
  every sequence of requests ends without a fault; the blocks that are out lie in the arena and do
  not overlap, and \<open>used\<close> is the sum of their sizes.
\<close>

theorem qm_serves:
  assumes "address + sz < 2 ^ 64" "218447 \<le> sz"
  shows "\<exists>qm hs qm'. qm_malloc_init address sz mem = Some (Inr (Some qm)) \<and>
    serve qm_malloc qm_free rs [] qm = Some (Inr (hs, qm')) \<and> distinct hs \<and>
    (\<forall>p \<in> set hs. \<exists>m. qm_blocks qm' p = Some m \<and> address + 218344 < p \<and> p + m < address + sz) \<and>
    (\<forall>p \<in> set hs. \<forall>q \<in> set hs. p < q \<longrightarrow> p + the (qm_blocks qm' p) \<le> q) \<and>
    qm_used qm' = (\<Sum>p\<in>set hs. the (qm_blocks qm' p))"
proof -
  let ?lo = "address + 218344" and ?hi = "address + sz"
  from qm_init_inv [OF assms, of mem] obtain qm where qm: "qm_malloc_init address sz mem = Some (Inr (Some qm))"
    "qm_inv ?lo ?hi qm" "qm_blocks qm = (\<lambda>_. None)" by blast
  from qa.serve_ok [OF qm(2), of "[]" rs] qm(3) obtain hs qm' where
    s: "serve qm_malloc qm_free rs [] qm = Some (Inr (hs, qm'))" "qm_inv ?lo ?hi qm'" "distinct hs"
    "dom (qm_blocks qm') = set hs" by auto
  from s(2) obtain fs L where h: "heap_ok qm' fs L" "acct qm' fs" by (auto simp: qm_inv_def)
  have b: "\<exists>m. qm_blocks qm' p = Some m" if "p \<in> set hs" for p using s(4) that by blast
  have "\<exists>m. qm_blocks qm' p = Some m \<and> ?lo < p \<and> p + m < ?hi" if "p \<in> set hs" for p
    using b [OF that] blocks_in_arena [OF s(2), of p] by auto
  moreover have "p + the (qm_blocks qm' p) \<le> q" if pq: "p \<in> set hs" "q \<in> set hs" "p < q" for p q
  proof -
    obtain m k where m: "qm_blocks qm' p = Some m" "qm_blocks qm' q = Some k" using b pq(1,2) by blast
    from blocks_disjoint [OF h(1) m pq(3)] m(1) show ?thesis by simp
  qed
  moreover have "qm_used qm' = (\<Sum>p\<in>set hs. the (qm_blocks qm' p))" using used_total [OF h] s(4) by simp
  ultimately show ?thesis using qm(1) s(1,3) by blast
qed

lemma qm_serves_witness:
  "\<exists>qm hs qm'. qm_malloc_init 4096 1000000 (\<lambda>_. 0) = Some (Inr (Some qm)) \<and>
     serve qm_malloc qm_free [Get 100, Get 20, Put 0, Get 7] [] qm = Some (Inr (hs, qm')) \<and>
     qm_used qm' = (\<Sum>p\<in>set hs. the (qm_blocks qm' p))"
proof -
  have "(4096::nat) + 1000000 < 2 ^ 64" "218447 \<le> (1000000::nat)" by simp_all
  from qm_serves [OF this] show ?thesis by blast
qed

text \<open>
  C5: best fit. \<open>qm_malloc\<close> refuses a request only when no free fragment is large enough, and then
  changes nothing; otherwise it takes a smallest free fragment that is large enough and cuts it so
  that at most 16480 bytes beyond the rounded request are given away.
\<close>

theorem malloc_best_fit:
  assumes "qm_inv lo hi qm"
  shows "\<exists>p q. qm_malloc n qm = Some (Inr (p, q)) \<and> qm_inv lo hi q \<and>
    (if p = 0 then q = qm \<and> (\<forall>a s. free_sizes qm a = Some s \<longrightarrow> s < ROUNDUP n)
     else \<exists>s m. free_sizes qm (p - 48) = Some s \<and> ROUNDUP n \<le> m \<and> m \<le> s \<and> m \<le> ROUNDUP n + 16480 \<and>
       qm_blocks q = (qm_blocks qm)(p \<mapsto> m) \<and>
       (\<forall>b t. free_sizes qm b = Some t \<longrightarrow> ROUNDUP n \<le> t \<longrightarrow> s \<le> t))"
proof -
  from assms obtain fs L where h: "heap_ok qm fs L" "acct qm fs" by (auto simp: qm_inv_def)
  note F = free_sizes_iff [OF h(1)]
  from malloc_ok [OF h(1) refl, of n] obtain p q fs' L' where
    m: "qm_malloc n qm = Some (Inr (p, q))" "heap_ok q fs' L'" "same_arena qm q"
    "p = 0 \<and> q = qm \<and> fs' = fs \<and> L' = L \<and> (acct qm fs \<longrightarrow> (\<forall>b \<in> free_frags L. the (szf qm b) < ROUNDUP n)) \<or>
     (\<exists>f m. p = f + 48 \<and> f \<in> free_frags L \<and> ROUNDUP n \<le> m \<and> m \<le> the (szf qm f) \<and> ublk q = (ublk qm)(f \<mapsto> m) \<and>
       (m = ROUNDUP n \<or> m < 2 * ROUNDUP n + 96 \<and> m \<le> ROUNDUP n + 16480) \<and>
       (\<forall>b \<in> free_frags L. ROUNDUP n \<le> the (szf qm b) \<longrightarrow> the (szf qm f) \<le> the (szf qm b)) \<and>
       (acct qm fs \<longrightarrow> acct q fs'))" by (elim exE conjE) (rule that)
  show ?thesis
  proof (cases "p = 0")
    case True
    then have "q = qm" "\<forall>b \<in> free_frags L. the (szf qm b) < ROUNDUP n" using m(4) h(2) by auto
    then have "\<forall>a s. free_sizes qm a = Some s \<longrightarrow> s < ROUNDUP n" using F by auto
    with True m(1) \<open>q = qm\<close> assms show ?thesis by simp
  next
    case False
    then obtain f k where f: "p = f + 48" "f \<in> free_frags L" "ROUNDUP n \<le> k" "k \<le> the (szf qm f)"
      "ublk q = (ublk qm)(f \<mapsto> k)" "k = ROUNDUP n \<or> k < 2 * ROUNDUP n + 96 \<and> k \<le> ROUNDUP n + 16480"
      "\<forall>b \<in> free_frags L. ROUNDUP n \<le> the (szf qm b) \<longrightarrow> the (szf qm f) \<le> the (szf qm b)" "acct q fs'"
      using m(4) h(2) by blast
    obtain s where s: "szf qm f = Some s"
      using layoutD(3) [OF heapD(1) [OF h(1)]] free_ublk [OF h(1) f(2)] by blast
    have "free_sizes qm (p - 48) = Some s" using F f(1,2) s by simp
    moreover have "k \<le> ROUNDUP n + 16480" using f(6) by auto
    moreover have "qm_blocks q = (qm_blocks qm)(p \<mapsto> k)" using qm_blocks_upd [OF f(5)] f(1) by simp
    moreover have "\<forall>b t. free_sizes qm b = Some t \<longrightarrow> ROUNDUP n \<le> t \<longrightarrow> s \<le> t" using f(7) s F by fastforce
    moreover have "qm_inv lo hi q" using m(2,3) f(8) assms by (auto simp: qm_inv_def same_arena_def)
    ultimately show ?thesis using m(1) False f(3,4) s by auto
  qed
qed

definition sample_arena :: "qm_block \<Rightarrow> bool" where
  "sample_arena qm \<longleftrightarrow> qm_inv 222440 1004096 qm \<and> qm_blocks qm = (\<lambda>_. None) \<and>
     free_sizes qm (qm_first_frag qm) = Some (qm_size qm - 218440) \<and> 1000000 \<le> qm_size qm + 14"

lemma sample_arena: "\<exists>qm. sample_arena qm"
  using qm_init_inv [of 4096 1000000 "\<lambda>_. 0"] by (auto simp: sample_arena_def)

lemma malloc_best_fit_witness:
  "\<exists>qm p q m. sample_arena qm \<and> qm_malloc 100 qm = Some (Inr (p, q)) \<and> p \<noteq> 0 \<and> qm_blocks q = [p \<mapsto> m] \<and>
     104 \<le> m \<and> qm_inv 222440 1004096 q"
proof -
  obtain qm where q: "sample_arena qm" using sample_arena ..
  have r: "ROUNDUP 100 = 104" by (simp add: ROUNDUP_def add64_def)
  have i: "qm_inv 222440 1004096 qm" using q by (simp add: sample_arena_def)
  from malloc_best_fit [OF i, of 100] q show ?thesis
    unfolding r by (fastforce simp: sample_arena_def split: if_splits)
qed

text \<open>
  C6: reallocation keeps the contents. It either fails and changes nothing, or returns a block of at
  least the new size that holds the old bytes up to the smaller of both sizes; no other block
  changes its place, its size or its bytes.
\<close>

theorem realloc_keeps:
  assumes "qm_safe lo hi qm" "qm_blocks qm p = Some s" "0 < n" "n + 7 < 2 ^ 64"
  shows "\<exists>p' q. qm_realloc p n qm = Some (Inr (p', q)) \<and> qm_safe lo hi q \<and>
    (if p' = 0 then q = qm
     else \<exists>k. n \<le> k \<and> qm_blocks q = (qm_blocks qm)(p := None, p' \<mapsto> k) \<and>
       (p' = p \<or> qm_blocks qm p' = None) \<and> (\<forall>i < min s k. qm_mem q (p' + i) = qm_mem qm (p + i)) \<and>
       (\<forall>b t. qm_blocks qm b = Some t \<longrightarrow> b \<noteq> p \<longrightarrow>
          qm_blocks q b = Some t \<and> (\<forall>i < t. qm_mem q (b + i) = qm_mem qm (b + i))))"
proof -
  from assms(1) obtain fs L where h: "heap_ok qm fs L" and pos: "0 < qm_first_frag qm" by (auto simp: qm_safe_def)
  have u: "48 \<le> p" "ublk qm (p - 48) = Some s" using assms(2) by (auto simp: qm_blocks_def split: if_splits)
  have e: "p - 48 + 48 = p" using u(1) by simp
  from realloc_ok [OF h u(2) assms(3,4) pos, unfolded e] obtain p' q fs' L' where
    r: "qm_realloc p n qm = Some (Inr (p', q))" "heap_ok q fs' L'" "same_arena qm q"
    "p' = 0 \<and> q = qm \<or>
     (\<exists>g k. p' = g + 48 \<and> n \<le> k \<and> ublk q = (ublk qm)(p - 48 := None, g \<mapsto> k) \<and>
       (g = p - 48 \<and> qm_mem q = qm_mem qm \<or>
        g \<noteq> p - 48 \<and> ublk qm g = None \<and> s < k \<and>
        qm_mem q = (\<lambda>a. if p' \<le> a \<and> a < p' + s then qm_mem qm (p + (a - p')) else qm_mem qm a)))"
    by (elim exE conjE) (rule that)
  have safe: "qm_safe lo hi q" using r(2,3) assms(1) by (auto simp: qm_safe_def same_arena_def)
  show ?thesis
  proof (cases "p' = 0")
    case True
    with r safe show ?thesis by auto
  next
    case False
    then obtain g k where g: "p' = g + 48" "n \<le> k" "ublk q = (ublk qm)(p - 48 := None, g \<mapsto> k)"
      "g = p - 48 \<and> qm_mem q = qm_mem qm \<or>
       g \<noteq> p - 48 \<and> ublk qm g = None \<and> s < k \<and>
       qm_mem q = (\<lambda>a. if p' \<le> a \<and> a < p' + s then qm_mem qm (p + (a - p')) else qm_mem qm a)"
      using r(4) by auto
    have b: "qm_blocks q = (qm_blocks qm)(p := None, p' \<mapsto> k)"
      using g(1,3) u(1) by (auto simp: qm_blocks_def fun_eq_iff)
    have fresh: "p' = p \<or> qm_blocks qm p' = None" using g(1,4) u(1) by (auto simp: qm_blocks_def)
    have own: "qm_mem q (p' + i) = qm_mem qm (p + i)" if "i < min s k" for i
      using g(1,4) u(1) that by auto
    have other: "qm_blocks q c = Some t \<and> (\<forall>i < t. qm_mem q (c + i) = qm_mem qm (c + i))"
      if c: "qm_blocks qm c = Some t" "c \<noteq> p" for c t
    proof -
      have cp: "c \<noteq> p'" using fresh c by auto
      then have bq: "qm_blocks q c = Some t" using c b by simp
      have bp: "qm_blocks q p' = Some k" using b by simp
      have "c + t \<le> p' \<or> p' + k \<le> c"
        using blocks_disjoint [OF r(2) bq bp] blocks_disjoint [OF r(2) bp bq] cp
        by (cases "c < p'") auto
      then have "qm_mem q (c + i) = qm_mem qm (c + i)" if "i < t" for i using g(4) that by auto
      with bq show ?thesis by blast
    qed
    show ?thesis using r(1) safe False g(2) b fresh own other by auto
  qed
qed

lemma realloc_keeps_witness:
  "\<exists>qm p m p' q. qm_blocks qm p = Some m \<and> qm_realloc p 5000 qm = Some (Inr (p', q)) \<and> qm_safe 222440 1004096 q"
proof -
  obtain qm p q m where q: "qm_blocks q = [p \<mapsto> m]" "qm_inv 222440 1004096 q"
    using malloc_best_fit_witness by blast
  have b: "qm_blocks q p = Some m" using q(1) by simp
  have "(0::nat) < 5000" "(5000::nat) + 7 < 2 ^ 64" by simp_all
  from realloc_keeps [OF inv_safe [OF q(2)] b this] b show ?thesis by blast
qed

text \<open>
  Any pointer that is not an allocated block ends the program in \<open>qm_free\<close>: one that was freed
  before, one that was never given out, and the null pointer, for which the code further down only
  means to log a warning.
\<close>

theorem free_bad_pointer:
  assumes "qm_safe lo hi qm" "qm_blocks qm p = None"
  shows "qm_free p qm = Some (Inl Aborted)"
proof -
  from assms(1) obtain fs L where h: "heap_ok qm fs L" and pos: "0 < qm_first_frag qm" by (auto simp: qm_safe_def)
  show ?thesis
  proof (cases "48 \<le> p")
    case True
    with assms(2) have "ublk qm (p - 48) = None" by (simp add: qm_blocks_def)
    from free_aborts [OF h pos this] show ?thesis .
  next
    case False
    have "ublk qm (p - 48) = None"
    proof (rule ccontr)
      assume n: "ublk qm (p - 48) \<noteq> None"
      then obtain t where "ublk qm (p - 48) = Some t" by blast
      from layoutD(3) [OF heapD(1) [OF h] ublk_frag(2) [OF h this]] False pos show False by auto
    qed
    from free_aborts [OF h pos this] show ?thesis .
  qed
qed

lemma free_bad_pointer_witness: "\<exists>qm. sample_arena qm \<and> qm_free 0 qm = Some (Inl Aborted)"
proof -
  obtain qm where q: "sample_arena qm" using sample_arena ..
  have "qm_safe 222440 1004096 qm" "qm_blocks qm 0 = None"
    using q inv_safe by (auto simp: sample_arena_def)
  from free_bad_pointer [OF this] q show ?thesis by blast
qed

text \<open>
  C34: the rounding wraps. A request of more than \<open>2 ^ 64 - 8\<close> bytes is rounded up to 0, and as soon
  as any fragment is free \<open>qm_malloc\<close> grants it with a block of at most 16480 bytes.
\<close>

theorem malloc_wraps:
  assumes "2 ^ 64 - 7 \<le> n" "n < 2 ^ 64" "qm_inv lo hi qm" "free_sizes qm a = Some s"
  shows "\<exists>p q m. qm_malloc n qm = Some (Inr (p, q)) \<and> p \<noteq> 0 \<and> m \<le> 16480 \<and> qm_blocks q = (qm_blocks qm)(p \<mapsto> m)"
proof -
  have "add64 n 7 = n + 7 - 2 ^ 64" using assms(1,2) by (simp add: add64_def mod_if)
  moreover have "n + 7 - 2 ^ 64 < 8" using assms(2) by simp
  ultimately have z: "ROUNDUP n = 0" by (simp add: ROUNDUP_def)
  from malloc_best_fit [OF assms(3), of n] obtain p q where r: "qm_malloc n qm = Some (Inr (p, q))"
    "if p = 0 then q = qm \<and> (\<forall>a s. free_sizes qm a = Some s \<longrightarrow> s < 0)
     else \<exists>s m. free_sizes qm (p - 48) = Some s \<and> 0 \<le> m \<and> m \<le> s \<and> m \<le> 0 + 16480 \<and>
       qm_blocks q = (qm_blocks qm)(p \<mapsto> m) \<and>
       (\<forall>b t. free_sizes qm b = Some t \<longrightarrow> 0 \<le> t \<longrightarrow> s \<le> t)" unfolding z by blast
  have "p \<noteq> 0" using r(2) assms(4) by (auto split: if_splits)
  with r show ?thesis by auto
qed

lemma malloc_wraps_witness:
  "\<exists>qm p q m. sample_arena qm \<and> qm_malloc (2 ^ 64 - 1) qm = Some (Inr (p, q)) \<and> p \<noteq> 0 \<and> m \<le> 16480 \<and>
     qm_blocks q = [p \<mapsto> m]"
proof -
  obtain qm where q: "sample_arena qm" using sample_arena ..
  have a: "2 ^ 64 - 7 \<le> (2 ^ 64 - 1 :: nat)" "(2 ^ 64 - 1 :: nat) < 2 ^ 64" by simp_all
  have i: "qm_inv 222440 1004096 qm" "free_sizes qm (qm_first_frag qm) = Some (qm_size qm - 218440)"
    "qm_blocks qm = (\<lambda>_. None)" using q by (simp_all add: sample_arena_def)
  from malloc_wraps [OF a i(1,2)] q i(3) show ?thesis by auto
qed

text \<open>
  The books after shrinking. When \<open>qm_realloc\<close> cuts a fragment, which it counts as a failure, the
  block gets the new size but \<open>used\<close> keeps the old one, and \<open>real_used\<close> grows by the overhead of
  the new free fragment instead of falling.
\<close>

theorem realloc_shrink_books:
  assumes "qm_inv lo hi qm" "qm_blocks qm p = Some s" "0 < n" "n + 7 < 2 ^ 64" "2 * ROUNDUP n + 96 \<le> s"
    "qm_real_used qm + 96 < 2 ^ 64"
  shows "\<exists>q. qm_realloc p n qm = Some (Inr (p, q)) \<and> qm_blocks q = (qm_blocks qm)(p \<mapsto> ROUNDUP n) \<and>
    qm_used q = (\<Sum>b\<in>dom (qm_blocks q). the (qm_blocks q b)) + (s - ROUNDUP n) \<and>
    qm_real_used q = qm_real_used qm + 96"
proof -
  let ?m = "ROUNDUP n"
  from assms(1) obtain fs L where h: "heap_ok qm fs L" "acct qm fs" by (auto simp: qm_inv_def)
  have u: "48 \<le> p" "ublk qm (p - 48) = Some s" using assms(2) by (auto simp: qm_blocks_def split: if_splits)
  from ublk_frag(1) [OF h(1) u(2)] obtain r where r: "qm_frags qm (p - 48) = Some r" by blast
  have less: "?m < s" using assms(5) roundup_bounds(1) [OF assms(4)] assms(3) by linarith
  have cut: "96 + ?m \<le> s - ?m" using assms(5) by linarith
  from shrink_ok [OF h(1) u(2) r less roundup_bounds(3) [OF assms(4)]] obtain q fs' L' k where
    q: "realloc_shrink (p - 48) r ?m qm = Some (Inr q)" "heap_ok q fs' L'" "ublk q = (ublk qm)(p - 48 \<mapsto> k)"
    "96 + 16384 < s - ?m \<or> 96 + ?m \<le> s - ?m \<longrightarrow> k = ?m \<and> qm_used q = qm_used qm \<and>
       qm_real_used q = add64 (qm_real_used qm) 96" by (elim exE conjE) (rule that)
  have k: "k = ?m" "qm_used q = qm_used qm" "qm_real_used q = qm_real_used qm + 96"
    using q(4) cut assms(6) by (simp_all add: add64_less)
  have "qm_realloc p n qm = Some (Inr (p, q))"
    using realloc_run [OF h(1) u(2) r assms(3) acct_pos [OF h(2)]] less q(1) u(1) by simp
  moreover have b: "qm_blocks q = (qm_blocks qm)(p \<mapsto> ?m)"
    using qm_blocks_upd [OF q(3)] u(1) k(1) by simp
  moreover have "(\<Sum>b\<in>dom (qm_blocks q). the (qm_blocks q b)) + (s - ?m) = qm_used qm"
  proof -
    have D: "dom (qm_blocks q) = dom (qm_blocks qm)" "p \<in> dom (qm_blocks qm)" using b assms(2) by auto
    have fin: "finite (dom (qm_blocks qm))"
    proof (rule finite_subset)
      show "dom (qm_blocks qm) \<subseteq> (\<lambda>a. a + 48) ` set fs"
      proof
        fix x assume "x \<in> dom (qm_blocks qm)"
        then obtain t where "48 \<le> x" "ublk qm (x - 48) = Some t" by (auto simp: qm_blocks_def split: if_splits)
        with ublk_frag(2) [OF h(1) this(2)] show "x \<in> (\<lambda>a. a + 48) ` set fs" by (intro image_eqI [of _ _ "x - 48"]) auto
      qed
    qed simp
    have "(\<Sum>b\<in>dom (qm_blocks q). the (qm_blocks q b)) =
        ?m + (\<Sum>b\<in>dom (qm_blocks qm) - {p}. the (qm_blocks qm b))"
      unfolding D(1) using fin D(2) b by (subst sum.remove [of _ p]) (auto intro!: sum.cong)
    moreover have "qm_used qm = s + (\<Sum>b\<in>dom (qm_blocks qm) - {p}. the (qm_blocks qm b))"
      using used_total [OF h] fin D(2) assms(2) by (simp add: sum.remove [of _ p])
    ultimately show ?thesis using less by simp
  qed
  ultimately show ?thesis using k(2,3) by auto
qed

lemma realloc_shrink_books_witness:
  "\<exists>qm p s q. qm_blocks qm p = Some s \<and> qm_realloc p 8 qm = Some (Inr (p, q)) \<and>
     qm_used q = (\<Sum>b\<in>dom (qm_blocks q). the (qm_blocks q b)) + (s - 8)"
proof -
  obtain qm0 where a: "sample_arena qm0" using sample_arena ..
  have i: "qm_inv 222440 1004096 qm0" using a by (simp add: sample_arena_def)
  have r: "ROUNDUP 800 = 800" "ROUNDUP 8 = 8" by (simp_all add: ROUNDUP_def add64_def)
  from qa.alloc_law [OF i, of 800] obtain p qm where m: "qm_malloc 800 qm0 = Some (Inr (p, qm))" "qm_inv 222440 1004096 qm"
    by blast
  obtain s where s: "qm_blocks qm p = Some s" "800 \<le> s"
  proof -
    from i obtain fs L where h: "heap_ok qm0 fs L" "acct qm0 fs" by (auto simp: qm_inv_def)
    have f: "qm_first_frag qm0 \<in> free_frags L" "the (szf qm0 (qm_first_frag qm0)) = qm_size qm0 - 218440"
      using a free_sizes_iff [OF h(1)] by (auto simp: sample_arena_def)
    moreover have "800 \<le> qm_size qm0 - 218440" using a unfolding sample_arena_def by linarith
    ultimately have "\<not> (\<forall>b \<in> free_frags L. the (szf qm0 b) < 800)" by fastforce
    then obtain g k where "p = g + 48" "800 \<le> k" "ublk qm = (ublk qm0)(g \<mapsto> k)"
      using malloc_ok [OF h(1) refl, of 800] m(1) h(2) unfolding r by auto
    then have "qm_blocks qm p = Some k" "800 \<le> k" using qm_blocks_upd [of qm qm0 g "Some k"] by simp_all
    then show thesis by (rule that)
  qed
  have "qm_real_used qm + 96 < 2 ^ 64"
  proof -
    from m(2) obtain fs L where h: "heap_ok qm fs L" "acct qm fs" "222440 \<le> qm_first_frag qm" "qm_last_frag_end qm + 48 \<le> 1004096"
      by (auto simp: qm_inv_def)
    with acct_small(1) [OF heapD(1) [OF h(1)] h(2)] have "qm_real_used qm \<le> 1004096"
      unfolding acct_def by linarith
    then show ?thesis by simp
  qed
  moreover have "2 * ROUNDUP 8 + 96 \<le> s" "(0::nat) < 8" "(8::nat) + 7 < 2 ^ 64" using s(2) r by simp_all
  ultimately have "\<exists>q. qm_realloc p 8 qm = Some (Inr (p, q)) \<and> qm_blocks q = (qm_blocks qm)(p \<mapsto> ROUNDUP 8) \<and>
      qm_used q = (\<Sum>b\<in>dom (qm_blocks q). the (qm_blocks q b)) + (s - ROUNDUP 8) \<and>
      qm_real_used q = qm_real_used qm + 96"
    using realloc_shrink_books [OF m(2) s(1)] by blast
  with s(1) r(2) show ?thesis by auto
qed

end
