(* ===== verification/Scan.thy ===== *)
theory Scan
  imports Core_Prelude
begin

text \<open>
  The loop the header parsers are written as, \<open>for (tmp = p; tmp < end; tmp++)\<close> over a
  \<open>switch\<close>: the body may move \<open>tmp\<close> on by itself, and leaves the loop by a \<open>goto\<close>. Its
  induction rules are a locale, which every parser interprets with its own body; and what a
  text that stands at a place of the buffer lets a proof conclude.
\<close>

section \<open>The loop\<close>

text \<open>
  The body gives either where it jumps to, or the value of \<open>tmp\<close> at its end, which is never
  before the character it has read.
\<close>

function scan :: "(nat \<Rightarrow> 's \<Rightarrow> 'r + nat \<times> 's) \<Rightarrow> nat \<Rightarrow> nat \<Rightarrow> 's \<Rightarrow> 'r + nat \<times> 's" where
  "scan body e p x =
     (if p < e then
        (case body p x of
           Inl r \<Rightarrow> Inl r
         | Inr (q, y) \<Rightarrow> scan body e (Suc (max p q)) y)
      else Inr (p, x))"
  by pat_completeness auto
termination by (relation "measure (\<lambda>(_, e, p, _). e - p)") auto

declare scan.simps [simp del]

lemma scan_end: "e \<le> p \<Longrightarrow> scan body e p x = Inr (p, x)"
  by (subst scan.simps) simp

lemma scan_on: "p < e \<Longrightarrow> body p x = Inr (p, y) \<Longrightarrow> scan body e p x = scan body e (Suc p) y"
  by (subst scan.simps) simp

lemma scan_jump:
  "p < e \<Longrightarrow> body p x = Inr (q, y) \<Longrightarrow> p \<le> q \<Longrightarrow> scan body e p x = scan body e (Suc q) y"
  by (subst scan.simps) (simp add: max_def)

lemma scan_stop: "p < e \<Longrightarrow> body p x = Inl r \<Longrightarrow> scan body e p x = Inl r"
  by (subst scan.simps) simp

text \<open>A jump is the one of some place.\<close>

lemma scan_Inl_pos:
  assumes "scan body e p x = Inl r"
  shows "\<exists>q y. p \<le> q \<and> q < e \<and> body q y = Inl r"
  using assms
proof (induction body e p x rule: scan.induct)
  case (1 body e p x)
  show ?case
  proof (cases "p < e")
    case False
    with 1(2) show ?thesis by (simp add: scan_end)
  next
    case True
    show ?thesis
    proof (cases "body p x")
      case (Inl r')
      with 1(2) True have "r' = r" by (simp add: scan_stop)
      with Inl True show ?thesis by blast
    next
      case (Inr z)
      obtain q y where z: "z = (q, y)" by (cases z)
      from 1(2) True Inr z have "scan body e (Suc (max p q)) y = Inl r" by (subst (asm) scan.simps) simp
      from 1(1) [OF True Inr z [symmetric] this] show ?thesis by (meson Suc_leD max.boundedE order_trans)
    qed
  qed
qed

text \<open>Characters the body does nothing for are skipped.\<close>

lemma scan_same:
  "p \<le> q \<Longrightarrow> q \<le> e \<Longrightarrow> (\<And>i. p \<le> i \<Longrightarrow> i < q \<Longrightarrow> body i x = Inr (i, x)) \<Longrightarrow>
   scan body e p x = scan body e q x"
proof (induction "q - p" arbitrary: p)
  case (Suc n)
  from Suc.hyps(2) have "p < q" by simp
  with Suc.prems have "scan body e p x = scan body e (Suc p) x"
    by (intro scan_on) auto
  also have "\<dots> = scan body e q x"
    using Suc.hyps(1) [of "Suc p"] Suc.hyps(2) Suc.prems \<open>p < q\<close> by simp
  finally show ?case .
qed simp

text \<open>
  The contract of a loop body: from a state that is well formed at \<open>p\<close> it jumps only to
  where it may, or goes on with a state well formed at the next character, at most one past
  the end.
\<close>

locale scanning =
  fixes body :: "nat \<Rightarrow> 's \<Rightarrow> 'r + nat \<times> 's"
    and inv :: "nat \<Rightarrow> 's \<Rightarrow> bool"
    and good :: "'r \<Rightarrow> bool"
    and e :: nat
  assumes body_stop: "p < e \<Longrightarrow> inv p x \<Longrightarrow> body p x = Inl r \<Longrightarrow> good r"
    and body_on: "p < e \<Longrightarrow> inv p x \<Longrightarrow> body p x = Inr (q, y) \<Longrightarrow> p \<le> q \<and> q \<le> e \<and> inv (Suc q) y"
begin

lemma scan_result:
  assumes "inv p x" "p \<le> Suc e"
  shows "case scan body e p x of Inl r \<Rightarrow> good r | Inr (q, y) \<Rightarrow> p \<le> q \<and> e \<le> q \<and> q \<le> Suc e \<and> inv q y"
  using assms
proof (induction "Suc e - p" arbitrary: p x rule: less_induct)
  case less
  show ?case
  proof (cases "p < e")
    case False
    with less.prems show ?thesis by (simp add: scan_end)
  next
    case True
    show ?thesis
    proof (cases "body p x")
      case (Inl r)
      with True less.prems show ?thesis by (simp add: scan_stop body_stop)
    next
      case (Inr z)
      obtain q y where z: "z = (q, y)" by (cases z)
      from body_on [OF True less.prems(1) Inr [unfolded z]]
      have q: "p \<le> q" "q \<le> e" "inv (Suc q) y" by auto
      from q have "Suc e - Suc q < Suc e - p" "Suc q \<le> Suc e" using True by auto
      from less.hyps [OF this(1) q(3) this(2)] scan_jump [of p e body x q y] True Inr z q
      show ?thesis by (auto split: sum.splits prod.splits)
    qed
  qed
qed

lemma scan_good: "inv p x \<Longrightarrow> p \<le> Suc e \<Longrightarrow> scan body e p x = Inl r \<Longrightarrow> good r"
  using scan_result [of p x] by simp

lemma scan_inv:
  "inv p x \<Longrightarrow> p \<le> Suc e \<Longrightarrow> scan body e p x = Inr (q, y) \<Longrightarrow> e \<le> q \<and> q \<le> Suc e \<and> inv q y"
  using scan_result [of p x] by simp

end

section \<open>What the header parsers share\<close>

text \<open>
  Where a loop body of these parsers can jump to: the code that ends a header, the label that
  first logs the character, the error label itself; or it runs into a fault.
\<close>

datatype 'v stop = Endofheader nat 'v | Parse_error nat 'v | Error nat 'v | Fault fault

type_synonym 'v act = "'v stop + nat \<times> 'v"

definition after :: "fault + 'v \<Rightarrow> ('v \<Rightarrow> 'v act) \<Rightarrow> 'v act" where
  "after m k = (case m of Inl f \<Rightarrow> Inl (Fault f) | Inr y \<Rightarrow> k y)"

lemma after_simps [simp]: "after (Inl f) k = Inl (Fault f)" "after (Inr y) k = k y"
  by (simp_all add: after_def)

text \<open>\<open>w.len = tmp - w.s\<close> and \<open>w.s = tmp\<close>.\<close>

definition end_str :: "nat \<Rightarrow> cstr \<Rightarrow> fault + cstr" where
  "end_str p w = (case str_s w of Buf a \<Rightarrow> Inr (Str (Buf a) (int p - int a)) | _ \<Rightarrow> Inl Null_minus)"

definition start_str :: "nat \<Rightarrow> cstr \<Rightarrow> cstr" where
  "start_str p w = Str (Buf p) (str_len w)"

lemma end_start [simp]: "end_str q (start_str p w) = Inr (span p q)"
  by (simp add: end_str_def start_str_def span_def)

lemma end_str_Buf [simp]: "str_s w = Buf a \<Longrightarrow> end_str q w = Inr (span a q)"
  by (simp add: end_str_def span_def)

lemma start_str_sel [simp]: "str_s (start_str p w) = Buf p" "str_len (start_str p w) = str_len w"
  by (simp_all add: start_str_def)

section \<open>A text at a place of the buffer\<close>

definition stands :: "string \<Rightarrow> nat \<Rightarrow> string \<Rightarrow> bool" where
  "stands buf p s \<longleftrightarrow> p + length s \<le> length buf \<and> take (length s) (drop p buf) = s"

lemma stands_nth:
  assumes "stands buf p s" "i < length s"
  shows "buf ! (p + i) = s ! i" "p + i < length buf"
proof -
  from assms(1) have "take (length s) (drop p buf) = s" by (simp add: stands_def)
  moreover have l: "p \<le> length buf" using assms(1) by (simp add: stands_def)
  ultimately have "s ! i = take (length s) (drop p buf) ! i" by simp
  also have "\<dots> = buf ! (p + i)" using assms(2) l by simp
  finally show "buf ! (p + i) = s ! i" by simp
  show "p + i < length buf" using assms by (simp add: stands_def)
qed

lemma stands_Nil [simp]: "stands buf p [] \<longleftrightarrow> p \<le> length buf"
  by (simp add: stands_def)

lemma stands_Cons: "stands buf p (c # s) \<longleftrightarrow> p < length buf \<and> buf ! p = c \<and> stands buf (Suc p) s"
proof (cases "p < length buf")
  case True
  then have "drop p buf = buf ! p # drop (Suc p) buf" by (simp add: Cons_nth_drop_Suc)
  with True show ?thesis by (auto simp: stands_def)
qed (simp add: stands_def)

lemma stands_append: "stands buf p (s @ t) \<longleftrightarrow> stands buf p s \<and> stands buf (p + length s) t"
proof (induction s arbitrary: p)
  case Nil
  then show ?case by (auto simp: stands_def)
next
  case (Cons c s)
  then show ?case by (simp add: stands_Cons)
qed

lemma stands_refl [simp]: "stands buf 0 buf"
  by (simp add: stands_def)

lemma stands_mem:
  assumes "stands buf p s" "p \<le> i" "i < p + length s"
  shows "buf ! i \<in> set s"
  using stands_nth(1) [OF assms(1), of "i - p"] assms by simp

lemma stands_span: "stands buf p s \<Longrightarrow> str_bytes buf (span p (p + length s)) = s"
  by (simp add: span_def stands_def)

end
