(* ===== verification/Pkg_Mem.thy ===== *)
theory Pkg_Mem
  imports Core_Prelude
begin

text \<open>
  The package memory as the parsers see it: \<open>pkg_malloc\<close> and \<open>pkg_free\<close> of
  \<open>src/core/mem/mem.h\<close> over blocks that each hold one structure. What the allocator will
  answer is a list given from outside, an address or a failure for each call in turn, so that
  every theorem covers every allocator that does not hand out a block in use. Then the linked
  lists the parsers build out of such blocks.
\<close>

record 'a pkg =
  pk_block :: "nat \<Rightarrow> 'a option"
  pk_answers :: "nat option list"

text \<open>\<open>pkg_malloc(sizeof(a))\<close>, then \<open>memset\<close>: the block holds \<open>v\<close>. No answer left is a failure.\<close>

definition pkg_malloc :: "'a \<Rightarrow> 'a pkg \<Rightarrow> nat option \<times> 'a pkg" where
  "pkg_malloc v m =
     (case pk_answers m of
        [] \<Rightarrow> (None, m)
      | None # as \<Rightarrow> (None, m\<lparr>pk_answers := as\<rparr>)
      | Some a # as \<Rightarrow> (Some a, m\<lparr>pk_block := (pk_block m)(a \<mapsto> v), pk_answers := as\<rparr>))"

definition pkg_free :: "nat \<Rightarrow> 'a pkg \<Rightarrow> fault + 'a pkg" where
  "pkg_free a m =
     (if pk_block m a = None then Inl Freed_block
      else Inr (m\<lparr>pk_block := (pk_block m)(a := None)\<rparr>))"

text \<open>Following a pointer, to read the structure and to write into it.\<close>

definition pkg_get :: "nat option \<Rightarrow> 'a pkg \<Rightarrow> fault + 'a" where
  "pkg_get h m =
     (case h of
        None \<Rightarrow> Inl Null_deref
      | Some a \<Rightarrow> (case pk_block m a of None \<Rightarrow> Inl Freed_block | Some v \<Rightarrow> Inr v))"

definition pkg_put :: "nat option \<Rightarrow> 'a \<Rightarrow> 'a pkg \<Rightarrow> fault + 'a pkg" where
  "pkg_put h v m =
     ebind (pkg_get h m) (\<lambda>_. Inr (m\<lparr>pk_block := (pk_block m)(the h \<mapsto> v)\<rparr>))"

text \<open>The addresses still to come are distinct and none of them is in use.\<close>

definition fresh_answers :: "'a pkg \<Rightarrow> nat set" where
  "fresh_answers m = {a. Some a \<in> set (pk_answers m)}"

definition pkg_ok :: "'a pkg \<Rightarrow> bool" where
  "pkg_ok m \<longleftrightarrow> distinct (filter (\<lambda>h. h \<noteq> None) (pk_answers m)) \<and>
     fresh_answers m \<inter> dom (pk_block m) = {}"

lemma pkg_malloc_ok:
  assumes "pkg_ok m" "pkg_malloc v m = (h, m')"
  shows "pkg_ok m'" "fresh_answers m' \<subseteq> fresh_answers m"
    "h = None \<Longrightarrow> pk_block m' = pk_block m"
    "h = Some a \<Longrightarrow> pk_block m a = None \<and> a \<in> fresh_answers m \<and> a \<notin> fresh_answers m' \<and>
       pk_block m' = (pk_block m)(a \<mapsto> v)"
  using assms
  by (auto simp: pkg_malloc_def pkg_ok_def fresh_answers_def disjoint_iff
      split: list.splits option.splits if_splits)

lemma pkg_get_simps [simp]:
  "pkg_get None m = Inl Null_deref"
  "pk_block m a = Some v \<Longrightarrow> pkg_get (Some a) m = Inr v"
  "pk_block m a = None \<Longrightarrow> pkg_get (Some a) m = Inl Freed_block"
  by (simp_all add: pkg_get_def)

lemma pkg_put_simps [simp]:
  "pkg_put None w m = Inl Null_deref"
  "pk_block m a = Some v \<Longrightarrow> pkg_put (Some a) w m = Inr (m\<lparr>pk_block := (pk_block m)(a \<mapsto> w)\<rparr>)"
  "pk_block m a = None \<Longrightarrow> pkg_put (Some a) w m = Inl Freed_block"
  by (simp_all add: pkg_put_def)

lemma pkg_free_simps [simp]:
  "pk_block m a = Some v \<Longrightarrow> pkg_free a m = Inr (m\<lparr>pk_block := (pk_block m)(a := None)\<rparr>)"
  "pk_block m a = None \<Longrightarrow> pkg_free a m = Inl Freed_block"
  by (simp_all add: pkg_free_def)

lemma fresh_block [simp]: "fresh_answers (m\<lparr>pk_block := b\<rparr>) = fresh_answers m"
  by (simp add: fresh_answers_def)

lemma pkg_ok_block:
  "pkg_ok m \<Longrightarrow> dom b \<subseteq> dom (pk_block m) \<Longrightarrow> pkg_ok (m\<lparr>pk_block := b\<rparr>)"
  by (auto simp: pkg_ok_def)

section \<open>Linked lists\<close>

text \<open>From the pointer \<open>h\<close>, along the links \<open>nx\<close>, the blocks \<open>as\<close> one after the other.\<close>

fun plist :: "('a \<Rightarrow> nat option) \<Rightarrow> (nat \<Rightarrow> 'a option) \<Rightarrow> nat option \<Rightarrow> nat list \<Rightarrow> bool" where
  "plist nx b h [] \<longleftrightarrow> h = None"
| "plist nx b h (a # as) \<longleftrightarrow> h = Some a \<and> (\<exists>v. b a = Some v \<and> plist nx b (nx v) as)"

lemma plist_cong: "(\<And>a. a \<in> set as \<Longrightarrow> b' a = b a) \<Longrightarrow> plist nx b' h as = plist nx b h as"
  by (induction as arbitrary: h) auto

lemma plist_live: "plist nx b h as \<Longrightarrow> a \<in> set as \<Longrightarrow> b a \<noteq> None"
  by (induction as arbitrary: h) auto

lemma plist_unique: "plist nx b h as \<Longrightarrow> plist nx b h bs \<Longrightarrow> as = bs"
proof (induction as arbitrary: h bs)
  case Nil then show ?case by (cases bs) auto
next
  case (Cons a as) then show ?case by (cases bs) auto
qed

lemma plist_distinct: "plist nx b h as \<Longrightarrow> distinct as"
proof (induction as arbitrary: h)
  case (Cons a as)
  then obtain v where v: "b a = Some v" "plist nx b (nx v) as" by auto
  have "a \<notin> set as"
  proof
    assume "a \<in> set as"
    then obtain us vs where as: "as = us @ a # vs" by (meson split_list)
    have suffix: "plist nx b h (us @ ws) \<Longrightarrow> \<exists>h'. plist nx b h' ws" for h us ws
      by (induction us arbitrary: h) auto
    from suffix v(2) as obtain h' where "plist nx b h' (a # vs)" by blast
    with v have "plist nx b (nx v) vs" by auto
    from plist_unique [OF this v(2)] as show False by (simp add: neq_Nil_conv)
  qed
  with Cons.IH v show ?case by auto
qed simp

text \<open>Appending a block behind the last one, by writing the last one's link.\<close>

lemma plist_append:
  assumes "plist nx b h (as @ [z])" "b z = Some v" "nx v = None" "b a = None"
    "nx w = None" "nx v' = Some a" "a \<notin> set (as @ [z])"
  shows "plist nx (b(a \<mapsto> w, z \<mapsto> v')) h (as @ [z, a])"
  using assms
proof (induction as arbitrary: h)
  case (Cons c as)
  then obtain u where u: "b c = Some u" "plist nx b (nx u) (as @ [z])" by auto
  from plist_distinct [OF Cons.prems(1)] have "c \<noteq> z" by auto
  with Cons u show ?case by auto
qed auto

lemma plist_snoc_block:
  assumes "plist nx b h (as @ [z])"
  shows "\<exists>v. b z = Some v \<and> nx v = None"
  using assms by (induction as arbitrary: h) auto

end
