(* ===== verification/Parse_To.thy ===== *)
theory Parse_To
  imports Scan Pkg_Mem Parse_Uri
begin

text \<open>
  The parser of the To, From and similar headers, \<open>src/core/parser/parse_to.c\<close>: a state
  machine for the display name and the URI, which hands over to a second one for the
  parameters behind a semicolon. The parameters are blocks of package memory that are linked
  into a list in the result. Pointers into the message are offsets.
\<close>

section \<open>The data\<close>

datatype to_status =
    START_TO | DISPLAY_QUOTED | E_DISPLAY_QUOTED | DISPLAY_TOKEN | DISPLAY_TOKEN2
  | S_URI_ENCLOSED | URI_ENCLOSED | E_URI_ENCLOSED
  | URI_OR_TOKEN | MAYBE_URI_END | END | F_CR | F_LF | F_CRLF
  | S_PARA_NAME | PARA_NAME | S_EQUAL | S_PARA_VALUE | TAG1 | TAG2
  | TAG3 | PARA_VALUE_TOKEN | PARA_VALUE_QUOTED | E_PARA_VALUE

datatype to_param_type = TAG_PARAM | GENERAL_PARAM

record to_param =
  tp_type :: to_param_type
  tp_name :: cstr
  tp_value :: cstr
  tp_next :: "nat option"

text \<open>\<open>tb_error\<close> is \<open>error == PARSE_ERROR\<close>.\<close>

record to_body =
  tb_error :: bool
  tb_body :: cstr
  tb_uri :: cstr
  tb_display :: cstr
  tb_tag_value :: cstr
  tb_parsed_uri :: sip_uri
  tb_param_lst :: "nat option"
  tb_last_param :: "nat option"

text \<open>\<open>memset(to_b, 0, sizeof(struct to_body))\<close>, as the callers do, and a new parameter.\<close>

definition zero_to :: to_body where
  "zero_to = \<lparr>tb_error = False, tb_body = null_str, tb_uri = null_str, tb_display = null_str,
     tb_tag_value = null_str, tb_parsed_uri = zero_uri, tb_param_lst = None,
     tb_last_param = None\<rparr>"

definition new_param :: to_param where
  "new_param = \<lparr>tp_type = GENERAL_PARAM, tp_name = null_str, tp_value = null_str,
     tp_next = None\<rparr>"

section \<open>The parameters: local variables and macros\<close>

record para_vars =
  pv_param :: "nat option"
  pv_status :: to_status
  pv_saved :: to_status
  pv_to :: to_body
  pv_mem :: "to_param pkg"

type_synonym para_act = "para_vars act"

definition para_on :: "to_status \<Rightarrow> nat \<Rightarrow> para_vars \<Rightarrow> para_act" where
  "para_on st p x = Inr (p, x\<lparr>pv_status := st\<rparr>)"

text \<open>\<open>saved_status = sv; status = st\<close>, at the end of a line.\<close>

definition para_fold :: "to_status \<Rightarrow> to_status \<Rightarrow> nat \<Rightarrow> para_vars \<Rightarrow> para_act" where
  "para_fold sv st p x = Inr (p, x\<lparr>pv_saved := sv, pv_status := st\<rparr>)"

text \<open>Writing through \<open>param\<close>.\<close>

definition on_param :: "(to_param \<Rightarrow> fault + to_param) \<Rightarrow> para_vars \<Rightarrow> fault + para_vars" where
  "on_param f x =
     ebind (pkg_get (pv_param x) (pv_mem x)) (\<lambda>tp.
       ebind (f tp) (\<lambda>w.
         ebind (pkg_put (pv_param x) w (pv_mem x)) (\<lambda>m. Inr (x\<lparr>pv_mem := m\<rparr>))))"

definition is_tag :: "para_vars \<Rightarrow> fault + para_vars" where
  "is_tag = on_param (\<lambda>tp. Inr (tp\<lparr>tp_type := TAG_PARAM\<rparr>))"

definition name_at :: "nat \<Rightarrow> para_vars \<Rightarrow> fault + para_vars" where
  "name_at p = on_param (\<lambda>tp. Inr (tp\<lparr>tp_name := start_str p (tp_name tp)\<rparr>))"

definition name_end :: "nat \<Rightarrow> para_vars \<Rightarrow> fault + para_vars" where
  "name_end p = on_param (\<lambda>tp. ebind (end_str p (tp_name tp)) (\<lambda>w. Inr (tp\<lparr>tp_name := w\<rparr>)))"

definition value_at :: "nat \<Rightarrow> para_vars \<Rightarrow> fault + para_vars" where
  "value_at p = on_param (\<lambda>tp. Inr (tp\<lparr>tp_value := start_str p (tp_value tp)\<rparr>))"

definition value_end :: "nat \<Rightarrow> para_vars \<Rightarrow> fault + para_vars" where
  "value_end p = on_param (\<lambda>tp. ebind (end_str p (tp_value tp)) (\<lambda>w. Inr (tp\<lparr>tp_value := w\<rparr>)))"

text \<open>\<open>add_param(param, to_b)\<close>: behind the last one, and \<open>param = 0\<close>.\<close>

definition link_param :: "nat option \<Rightarrow> para_vars \<Rightarrow> fault + para_vars" where
  "link_param a x =
     (if tb_param_lst (pv_to x) = None
      then Inr (x\<lparr>pv_to := (pv_to x)\<lparr>tb_param_lst := a\<rparr>\<rparr>)
      else ebind (pkg_get (tb_last_param (pv_to x)) (pv_mem x)) (\<lambda>tp.
             ebind (pkg_put (tb_last_param (pv_to x)) (tp\<lparr>tp_next := a\<rparr>) (pv_mem x)) (\<lambda>m.
               Inr (x\<lparr>pv_mem := m\<rparr>))))"

definition add_param :: "para_vars \<Rightarrow> fault + para_vars" where
  "add_param x =
     ebind (link_param (pv_param x) x) (\<lambda>y.
       let z = y\<lparr>pv_to := (pv_to y)\<lparr>tb_last_param := pv_param x\<rparr>\<rparr>
       in ebind (pkg_get (pv_param x) (pv_mem z)) (\<lambda>tp.
            Inr (z\<lparr>pv_param := None,
                   pv_to := (if tp_type tp = TAG_PARAM
                             then (pv_to z)\<lparr>tb_tag_value := tp_value tp\<rparr> else pv_to z)\<rparr>)))"

text \<open>\<open>goto endofheader\<close> when the line is over and the next character does not continue it.\<close>

definition para_over :: "nat \<Rightarrow> para_vars \<Rightarrow> para_act" where
  "para_over p x = Inl (Endofheader p x)"

section \<open>The parameters: the characters\<close>

text \<open>\<open>' '\<close> and \<open>'\t'\<close>.\<close>

definition para_space :: "nat \<Rightarrow> para_vars \<Rightarrow> para_act" where
  "para_space p x =
     (let named = (\<lambda>y. after (name_end p y) (para_on S_EQUAL p))
      in case pv_status x of
           TAG3 \<Rightarrow> after (is_tag x) named
         | PARA_NAME \<Rightarrow> named x
         | TAG1 \<Rightarrow> named x
         | TAG2 \<Rightarrow> named x
         | PARA_VALUE_TOKEN \<Rightarrow>
             after (value_end p x) (\<lambda>y. after (add_param (y\<lparr>pv_status := E_PARA_VALUE\<rparr>)) (\<lambda>z. Inr (p, z)))
         | F_CRLF \<Rightarrow> para_on (pv_saved x) p x
         | F_LF \<Rightarrow> para_on (pv_saved x) p x
         | F_CR \<Rightarrow> para_on (pv_saved x) p x
         | _ \<Rightarrow> Inr (p, x))"

definition para_lf :: "nat \<Rightarrow> para_vars \<Rightarrow> para_act" where
  "para_lf p x =
     (let named = (\<lambda>y. after (name_end p y) (para_fold S_EQUAL F_LF p))
      in case pv_status x of
           S_PARA_NAME \<Rightarrow> para_fold S_PARA_NAME F_LF p x
         | S_EQUAL \<Rightarrow> para_fold S_EQUAL F_LF p x
         | S_PARA_VALUE \<Rightarrow> para_fold S_PARA_VALUE F_LF p x
         | E_PARA_VALUE \<Rightarrow> para_fold E_PARA_VALUE F_LF p x
         | TAG3 \<Rightarrow> after (is_tag x) named
         | PARA_NAME \<Rightarrow> named x
         | TAG1 \<Rightarrow> named x
         | TAG2 \<Rightarrow> named x
         | PARA_VALUE_TOKEN \<Rightarrow>
             after (value_end p x) (\<lambda>y.
               after (add_param (y\<lparr>pv_saved := E_PARA_VALUE, pv_status := F_LF\<rparr>)) (\<lambda>z. Inr (p, z)))
         | F_CR \<Rightarrow> para_on F_CRLF p x
         | F_CRLF \<Rightarrow> para_over p (x\<lparr>pv_status := pv_saved x\<rparr>)
         | F_LF \<Rightarrow> para_over p (x\<lparr>pv_status := pv_saved x\<rparr>)
         | _ \<Rightarrow> Inl (Parse_error p x))"

definition para_cr :: "nat \<Rightarrow> para_vars \<Rightarrow> para_act" where
  "para_cr p x =
     (let named = (\<lambda>y. after (name_end p y) (para_fold S_EQUAL F_CR p))
      in case pv_status x of
           S_PARA_NAME \<Rightarrow> para_fold S_PARA_NAME F_CR p x
         | S_EQUAL \<Rightarrow> para_fold S_EQUAL F_CR p x
         | S_PARA_VALUE \<Rightarrow> para_fold S_PARA_VALUE F_CR p x
         | E_PARA_VALUE \<Rightarrow> para_fold E_PARA_VALUE F_CR p x
         | TAG3 \<Rightarrow> after (is_tag x) named
         | PARA_NAME \<Rightarrow> named x
         | TAG1 \<Rightarrow> named x
         | TAG2 \<Rightarrow> named x
         | PARA_VALUE_TOKEN \<Rightarrow>
             after (value_end p x) (\<lambda>y.
               after (add_param (y\<lparr>pv_saved := E_PARA_VALUE, pv_status := F_CR\<rparr>)) (\<lambda>z. Inr (p, z)))
         | F_CRLF \<Rightarrow> para_over p (x\<lparr>pv_status := pv_saved x\<rparr>)
         | F_CR \<Rightarrow> para_over p (x\<lparr>pv_status := pv_saved x\<rparr>)
         | F_LF \<Rightarrow> para_over p (x\<lparr>pv_status := pv_saved x\<rparr>)
         | _ \<Rightarrow> Inl (Parse_error p x))"

text \<open>
  A parameter without a value, at \<open>0\<close> and at \<open>';'\<close>: \<open>value.s = tmp\<close>, unless it is the tag,
  which needs one; then the end of a value, and the parameter is added.
\<close>

definition value_done :: "nat \<Rightarrow> para_vars \<Rightarrow> fault + para_vars" where
  "value_done p x = ebind (value_end p x) add_param"

definition no_value :: "nat \<Rightarrow> (para_vars \<Rightarrow> para_act) \<Rightarrow> para_vars \<Rightarrow> para_act" where
  "no_value p k x =
     (case pkg_get (pv_param x) (pv_mem x) of
        Inl f \<Rightarrow> Inl (Fault f)
      | Inr tp \<Rightarrow> (if tp_type tp = TAG_PARAM then Inl (Parse_error p x) else after (value_at p x) k))"

definition para_nul :: "nat \<Rightarrow> para_vars \<Rightarrow> para_act" where
  "para_nul p x =
     (let over = (\<lambda>y. para_over p (y\<lparr>pv_saved := pv_status y\<rparr>));
          valued = (\<lambda>y. after (value_done p (y\<lparr>pv_status := E_PARA_VALUE\<rparr>)) over)
      in case pv_status x of
           PARA_NAME \<Rightarrow> after (name_end p x) (no_value p valued)
         | S_EQUAL \<Rightarrow> no_value p valued x
         | S_PARA_VALUE \<Rightarrow> no_value p valued x
         | PARA_VALUE_TOKEN \<Rightarrow> valued x
         | E_PARA_VALUE \<Rightarrow> over x
         | _ \<Rightarrow> Inl (Parse_error p x))"

text \<open>
  The backslash. In a quoted value the code looks at the next character and moves on to it,
  unless that is an end of line; without a \<open>break\<close> it then falls into the error.
\<close>

definition para_backslash :: "string \<Rightarrow> nat \<Rightarrow> para_vars \<Rightarrow> para_act" where
  "para_backslash buf p x =
     (case pv_status x of
        PARA_VALUE_QUOTED \<Rightarrow>
          (if length buf \<le> p + 1 then Inl (Fault Out_of_bounds)
           else if buf ! (p + 1) = CHR 0x0D \<or> buf ! (p + 1) = CHR 0x0A then Inl (Parse_error p x)
           else Inl (Parse_error (p + 1) x))
      | _ \<Rightarrow> Inl (Parse_error p x))"

definition para_quote :: "nat \<Rightarrow> para_vars \<Rightarrow> para_act" where
  "para_quote p x =
     (case pv_status x of
        S_PARA_VALUE \<Rightarrow> after (value_at (p + 1) x) (para_on PARA_VALUE_QUOTED p)
      | PARA_VALUE_QUOTED \<Rightarrow> after (value_done p x) (para_on E_PARA_VALUE p)
      | F_CRLF \<Rightarrow> para_over p x
      | F_LF \<Rightarrow> para_over p x
      | F_CR \<Rightarrow> para_over p x
      | _ \<Rightarrow> Inl (Parse_error p x))"

definition fresh_param :: "nat \<Rightarrow> para_vars \<Rightarrow> para_act" where
  "fresh_param p x =
     (case pkg_malloc new_param (pv_mem x) of
        (None, m) \<Rightarrow> Inl (Error p (x\<lparr>pv_param := None, pv_mem := m\<rparr>))
      | (Some a, m) \<Rightarrow>
          Inr (p, x\<lparr>pv_param := Some a, pv_mem := m, pv_status := S_PARA_NAME\<rparr>))"

definition para_semicolon :: "nat \<Rightarrow> para_vars \<Rightarrow> para_act" where
  "para_semicolon p x =
     (let valued = (\<lambda>y. after (value_done p y) (fresh_param p))
      in case pv_status x of
           PARA_VALUE_QUOTED \<Rightarrow> Inr (p, x)
         | PARA_NAME \<Rightarrow> after (name_end p x) (no_value p valued)
         | S_EQUAL \<Rightarrow> no_value p valued x
         | S_PARA_VALUE \<Rightarrow> no_value p valued x
         | PARA_VALUE_TOKEN \<Rightarrow> valued x
         | E_PARA_VALUE \<Rightarrow> fresh_param p x
         | F_CRLF \<Rightarrow> para_over p x
         | F_LF \<Rightarrow> para_over p x
         | F_CR \<Rightarrow> para_over p x
         | _ \<Rightarrow> Inl (Parse_error p x))"

text \<open>The letters of \<open>tag\<close>.\<close>

definition para_t :: "nat \<Rightarrow> para_vars \<Rightarrow> para_act" where
  "para_t p x =
     (case pv_status x of
        PARA_VALUE_QUOTED \<Rightarrow> Inr (p, x)
      | PARA_VALUE_TOKEN \<Rightarrow> Inr (p, x)
      | PARA_NAME \<Rightarrow> Inr (p, x)
      | S_PARA_NAME \<Rightarrow> after (name_at p x) (para_on TAG1 p)
      | S_PARA_VALUE \<Rightarrow> after (value_at p x) (para_on PARA_VALUE_TOKEN p)
      | TAG1 \<Rightarrow> para_on PARA_NAME p x
      | TAG2 \<Rightarrow> para_on PARA_NAME p x
      | TAG3 \<Rightarrow> para_on PARA_NAME p x
      | F_CRLF \<Rightarrow> para_over p x
      | F_LF \<Rightarrow> para_over p x
      | F_CR \<Rightarrow> para_over p x
      | _ \<Rightarrow> Inl (Parse_error p x))"

definition para_a :: "nat \<Rightarrow> para_vars \<Rightarrow> para_act" where
  "para_a p x =
     (case pv_status x of
        PARA_VALUE_QUOTED \<Rightarrow> Inr (p, x)
      | PARA_VALUE_TOKEN \<Rightarrow> Inr (p, x)
      | PARA_NAME \<Rightarrow> Inr (p, x)
      | S_PARA_NAME \<Rightarrow> after (name_at p x) (para_on PARA_NAME p)
      | S_PARA_VALUE \<Rightarrow> after (value_at p x) (para_on PARA_VALUE_TOKEN p)
      | TAG1 \<Rightarrow> para_on TAG2 p x
      | TAG2 \<Rightarrow> para_on PARA_NAME p x
      | TAG3 \<Rightarrow> para_on PARA_NAME p x
      | F_CRLF \<Rightarrow> para_over p x
      | F_LF \<Rightarrow> para_over p x
      | F_CR \<Rightarrow> para_over p x
      | _ \<Rightarrow> Inl (Parse_error p x))"

definition para_g :: "nat \<Rightarrow> para_vars \<Rightarrow> para_act" where
  "para_g p x =
     (case pv_status x of
        PARA_VALUE_QUOTED \<Rightarrow> Inr (p, x)
      | PARA_VALUE_TOKEN \<Rightarrow> Inr (p, x)
      | PARA_NAME \<Rightarrow> Inr (p, x)
      | S_PARA_NAME \<Rightarrow> after (name_at p x) (para_on PARA_NAME p)
      | S_PARA_VALUE \<Rightarrow> after (value_at p x) (para_on PARA_VALUE_TOKEN p)
      | TAG1 \<Rightarrow> para_on PARA_NAME p x
      | TAG3 \<Rightarrow> para_on PARA_NAME p x
      | TAG2 \<Rightarrow> para_on TAG3 p x
      | F_CRLF \<Rightarrow> para_over p x
      | F_LF \<Rightarrow> para_over p x
      | F_CR \<Rightarrow> para_over p x
      | _ \<Rightarrow> Inl (Parse_error p x))"

definition para_eq :: "nat \<Rightarrow> para_vars \<Rightarrow> para_act" where
  "para_eq p x =
     (let named = (\<lambda>y. after (name_end p y) (para_on S_PARA_VALUE p))
      in case pv_status x of
           PARA_VALUE_QUOTED \<Rightarrow> Inr (p, x)
         | TAG3 \<Rightarrow> after (is_tag x) named
         | PARA_NAME \<Rightarrow> named x
         | TAG1 \<Rightarrow> named x
         | TAG2 \<Rightarrow> named x
         | S_EQUAL \<Rightarrow> para_on S_PARA_VALUE p x
         | F_CRLF \<Rightarrow> para_over p x
         | F_LF \<Rightarrow> para_over p x
         | F_CR \<Rightarrow> para_over p x
         | _ \<Rightarrow> Inl (Parse_error p x))"

definition para_other :: "nat \<Rightarrow> para_vars \<Rightarrow> para_act" where
  "para_other p x =
     (case pv_status x of
        TAG1 \<Rightarrow> para_on PARA_NAME p x
      | TAG2 \<Rightarrow> para_on PARA_NAME p x
      | TAG3 \<Rightarrow> para_on PARA_NAME p x
      | PARA_VALUE_TOKEN \<Rightarrow> Inr (p, x)
      | PARA_NAME \<Rightarrow> Inr (p, x)
      | PARA_VALUE_QUOTED \<Rightarrow> Inr (p, x)
      | S_PARA_NAME \<Rightarrow> after (name_at p x) (para_on PARA_NAME p)
      | S_PARA_VALUE \<Rightarrow> after (value_at p x) (para_on PARA_VALUE_TOKEN p)
      | F_CRLF \<Rightarrow> para_over p x
      | F_LF \<Rightarrow> para_over p x
      | F_CR \<Rightarrow> para_over p x
      | _ \<Rightarrow> Inl (Error p x))"

definition para_step :: "string \<Rightarrow> nat \<Rightarrow> para_vars \<Rightarrow> para_act" where
  "para_step buf p x =
     (let c = buf ! p
      in if c = CHR 0x20 \<or> c = CHR 0x09 then para_space p x
         else if c = CHR 0x0A then para_lf p x
         else if c = CHR 0x0D then para_cr p x
         else if c = CHR 0x00 then para_nul p x
         else if c = CHR 0x5C then para_backslash buf p x
         else if c = CHR 0x22 then para_quote p x
         else if c = CHR '';'' then para_semicolon p x
         else if c = CHR ''T'' \<or> c = CHR ''t'' then para_t p x
         else if c = CHR ''A'' \<or> c = CHR ''a'' then para_a p x
         else if c = CHR ''G'' \<or> c = CHR ''g'' then para_g p x
         else if c = CHR ''='' then para_eq p x
         else para_other p x)"

section \<open>The parameters: the labels, and the whole function\<close>

text \<open>\<open>free_to_params\<close>: it follows the list, and does not return from one that is a circle.\<close>

partial_function (option) free_params :: "nat option \<Rightarrow> to_param pkg \<Rightarrow> (fault + to_param pkg) option" where
  "free_params h m =
     (case h of
        None \<Rightarrow> Some (Inr m)
      | Some a \<Rightarrow>
          (case pkg_get h m of
             Inl f \<Rightarrow> Some (Inl f)
           | Inr tp \<Rightarrow>
               (case pkg_free a m of
                  Inl f \<Rightarrow> Some (Inl f)
                | Inr m' \<Rightarrow> free_params (tp_next tp) m')))"

definition free_to_params :: "to_body \<Rightarrow> to_param pkg \<Rightarrow> (fault + to_param pkg) option" where
  "free_to_params tb m = free_params (tb_param_lst tb) m"

text \<open>What \<open>parse_to_param\<close> gives back: \<open>tmp\<close>, the status, the result and the memory.\<close>

type_synonym para_res = "(fault + nat \<times> to_status \<times> to_body \<times> to_param pkg) option"

definition para_error :: "nat \<Rightarrow> para_vars \<Rightarrow> para_res" where
  "para_error p x =
     obind (Some (case pv_param x of None \<Rightarrow> Inr (pv_mem x) | Some a \<Rightarrow> pkg_free a (pv_mem x))) (\<lambda>m.
       obind (free_to_params (pv_to x) m) (\<lambda>m'.
         Some (Inr (p, pv_status x, (pv_to x)\<lparr>tb_error := True\<rparr>, m'))))"

definition para_end :: "nat \<Rightarrow> para_vars \<Rightarrow> para_res" where
  "para_end p x =
     (if pv_param x \<noteq> None \<and> (pv_saved x = S_EQUAL \<or> pv_saved x = S_PARA_VALUE)
      then obind (Some (on_param (\<lambda>tp. Inr (tp\<lparr>tp_value := null_str\<rparr>)) (x\<lparr>pv_saved := E_PARA_VALUE\<rparr>))) (\<lambda>y.
             obind (Some (pkg_get (pv_param y) (pv_mem y))) (\<lambda>tp.
               if tp_type tp = TAG_PARAM then para_error p y
               else obind (Some (add_param y)) (\<lambda>z. Some (Inr (p, pv_saved z, pv_to z, pv_mem z)))))
      else Some (Inr (p, pv_saved x, pv_to x, pv_mem x)))"

fun para_leave :: "para_vars stop \<Rightarrow> para_res" where
  "para_leave (Endofheader p x) = para_end p x"
| "para_leave (Parse_error p x) = para_error p x"
| "para_leave (Error p x) = para_error p x"
| "para_leave (Fault f) = Some (Inl f)"

definition parse_to_param :: "string \<Rightarrow> nat \<Rightarrow> to_body \<Rightarrow> to_param pkg \<Rightarrow> para_res" where
  "parse_to_param buf p tb m =
     (case scan (para_step buf) (length buf) p
             \<lparr>pv_param = None, pv_status = E_PARA_VALUE, pv_saved = E_PARA_VALUE, pv_to = tb,
              pv_mem = m\<rparr> of
        Inl r \<Rightarrow> para_leave r
      | Inr (q, x) \<Rightarrow> para_end q x)"

section \<open>The display name and the URI\<close>

text \<open>The result: \<open>tmp\<close>, the structure, the memory. The loop body ends in one, or goes on.\<close>

type_synonym to_res = "(fault + nat \<times> to_body \<times> to_param pkg) option"

record to_vars =
  tv_status :: to_status
  tv_saved :: to_status
  tv_end_mark :: "nat option"
  tv_to :: to_body
  tv_mem :: "to_param pkg"

type_synonym to_act = "to_res + nat \<times> to_vars"

definition to_on :: "to_status \<Rightarrow> nat \<Rightarrow> to_vars \<Rightarrow> to_act" where
  "to_on st p x = Inr (p, x\<lparr>tv_status := st\<rparr>)"

definition to_fold :: "to_status \<Rightarrow> to_status \<Rightarrow> nat \<Rightarrow> to_vars \<Rightarrow> to_act" where
  "to_fold sv st p x = Inr (p, x\<lparr>tv_saved := sv, tv_status := st\<rparr>)"

definition to_after :: "fault + to_vars \<Rightarrow> (to_vars \<Rightarrow> to_act) \<Rightarrow> to_act" where
  "to_after m k = (case m of Inl f \<Rightarrow> Inl (Some (Inl f)) | Inr y \<Rightarrow> k y)"

text \<open>The lengths \<open>body.len\<close>, \<open>uri.len\<close> and \<open>display.len\<close> up to a place that may be unset.\<close>

definition body_end :: "nat \<Rightarrow> to_vars \<Rightarrow> fault + to_vars" where
  "body_end q x = ebind (end_str q (tb_body (tv_to x))) (\<lambda>w. Inr (x\<lparr>tv_to := (tv_to x)\<lparr>tb_body := w\<rparr>\<rparr>))"

definition uri_end_at :: "nat option \<Rightarrow> to_vars \<Rightarrow> fault + to_vars" where
  "uri_end_at h x =
     (case h of
        None \<Rightarrow> Inl Null_minus
      | Some q \<Rightarrow>
          ebind (end_str q (tb_uri (tv_to x))) (\<lambda>w. Inr (x\<lparr>tv_to := (tv_to x)\<lparr>tb_uri := w\<rparr>\<rparr>)))"

definition display_end_at :: "nat option \<Rightarrow> to_vars \<Rightarrow> fault + to_vars" where
  "display_end_at h x =
     (case h of
        None \<Rightarrow> Inl Null_minus
      | Some q \<Rightarrow>
          ebind (end_str q (tb_display (tv_to x))) (\<lambda>w.
            Inr (x\<lparr>tv_to := (tv_to x)\<lparr>tb_display := w\<rparr>\<rparr>)))"

text \<open>The labels.\<close>

definition to_error :: "nat \<Rightarrow> to_vars \<Rightarrow> to_res" where
  "to_error p x = Some (Inr (p, (tv_to x)\<lparr>tb_error := True\<rparr>, tv_mem x))"

definition to_done :: "nat \<Rightarrow> to_vars \<Rightarrow> to_res" where
  "to_done p x = Some (Inr (p, tv_to x, tv_mem x))"

definition to_end :: "nat \<Rightarrow> to_vars \<Rightarrow> to_res" where
  "to_end p x =
     (let tb = tv_to x;
          y = x\<lparr>tv_to := (if str_len (tb_display tb) = 0
                        then tb\<lparr>tb_display := Str NullP (str_len (tb_display tb))\<rparr> else tb),
                tv_status := tv_saved x\<rparr>
      in case tv_saved x of
           MAYBE_URI_END \<Rightarrow>
             obind (Some (uri_end_at (tv_end_mark y) y)) (\<lambda>z. obind (Some (body_end p z)) (to_done p))
         | END \<Rightarrow> obind (Some (body_end p y)) (to_done p)
         | E_PARA_VALUE \<Rightarrow> to_done p y
         | _ \<Rightarrow> to_error p y)"

definition to_space :: "nat \<Rightarrow> to_vars \<Rightarrow> to_act" where
  "to_space p x =
     (case tv_status x of
        F_CRLF \<Rightarrow> to_on (tv_saved x) p x
      | F_LF \<Rightarrow> to_on (tv_saved x) p x
      | F_CR \<Rightarrow> to_on (tv_saved x) p x
      | URI_ENCLOSED \<Rightarrow> to_after (uri_end_at (Some p) x) (to_on E_URI_ENCLOSED p)
      | URI_OR_TOKEN \<Rightarrow> to_on MAYBE_URI_END p (x\<lparr>tv_end_mark := Some p\<rparr>)
      | DISPLAY_TOKEN \<Rightarrow> to_on DISPLAY_TOKEN2 p (x\<lparr>tv_end_mark := Some p\<rparr>)
      | _ \<Rightarrow> Inr (p, x))"

definition to_lf :: "nat \<Rightarrow> to_vars \<Rightarrow> to_act" where
  "to_lf p x =
     (case tv_status x of
        URI_OR_TOKEN \<Rightarrow> to_fold MAYBE_URI_END F_LF p (x\<lparr>tv_end_mark := Some p\<rparr>)
      | MAYBE_URI_END \<Rightarrow> to_fold MAYBE_URI_END F_LF p x
      | DISPLAY_TOKEN \<Rightarrow> to_fold DISPLAY_TOKEN F_LF p x
      | DISPLAY_TOKEN2 \<Rightarrow> to_fold DISPLAY_TOKEN2 F_LF p x
      | E_DISPLAY_QUOTED \<Rightarrow> to_fold E_DISPLAY_QUOTED F_LF p x
      | END \<Rightarrow> to_fold END F_LF p x
      | F_CR \<Rightarrow> to_on F_CRLF p x
      | F_CRLF \<Rightarrow> Inl (to_end p (x\<lparr>tv_status := tv_saved x\<rparr>))
      | F_LF \<Rightarrow> Inl (to_end p (x\<lparr>tv_status := tv_saved x\<rparr>))
      | _ \<Rightarrow> Inl (to_error p x))"

definition to_cr :: "nat \<Rightarrow> to_vars \<Rightarrow> to_act" where
  "to_cr p x =
     (case tv_status x of
        URI_OR_TOKEN \<Rightarrow> to_fold MAYBE_URI_END F_CR p (x\<lparr>tv_end_mark := Some p\<rparr>)
      | MAYBE_URI_END \<Rightarrow> to_fold MAYBE_URI_END F_CR p x
      | DISPLAY_TOKEN \<Rightarrow> to_fold DISPLAY_TOKEN F_CR p x
      | DISPLAY_TOKEN2 \<Rightarrow> to_fold DISPLAY_TOKEN2 F_CR p x
      | E_DISPLAY_QUOTED \<Rightarrow> to_fold E_DISPLAY_QUOTED F_CR p x
      | END \<Rightarrow> to_fold END F_CR p x
      | F_CRLF \<Rightarrow> Inl (to_end p (x\<lparr>tv_status := tv_saved x\<rparr>))
      | F_CR \<Rightarrow> Inl (to_end p (x\<lparr>tv_status := tv_saved x\<rparr>))
      | F_LF \<Rightarrow> Inl (to_end p (x\<lparr>tv_status := tv_saved x\<rparr>))
      | _ \<Rightarrow> Inl (to_error p x))"

definition to_nul :: "nat \<Rightarrow> to_vars \<Rightarrow> to_act" where
  "to_nul p x =
     (let over = (\<lambda>y. Inl (to_end p (y\<lparr>tv_saved := END, tv_status := END\<rparr>)))
      in case tv_status x of
           URI_OR_TOKEN \<Rightarrow> to_after (uri_end_at (Some p) x) over
         | MAYBE_URI_END \<Rightarrow> to_after (uri_end_at (Some p) x) over
         | END \<Rightarrow> over x
         | _ \<Rightarrow> Inl (to_error p x))"

text \<open>In a quoted display name the backslash jumps over the next character.\<close>

definition to_backslash :: "nat \<Rightarrow> to_vars \<Rightarrow> to_act" where
  "to_backslash p x =
     (case tv_status x of
        DISPLAY_QUOTED \<Rightarrow> Inr (p + 1, x)
      | _ \<Rightarrow> Inl (to_error p x))"

definition to_less :: "nat \<Rightarrow> to_vars \<Rightarrow> to_act" where
  "to_less p x =
     (let named = (\<lambda>y. to_after (display_end_at (tv_end_mark y) y) (to_on S_URI_ENCLOSED p))
      in case tv_status x of
           START_TO \<Rightarrow>
             to_on S_URI_ENCLOSED p
               (x\<lparr>tv_to := (tv_to x)\<lparr>tb_body := start_str p (tb_body (tv_to x))\<rparr>\<rparr>)
         | DISPLAY_QUOTED \<Rightarrow> Inr (p, x)
         | E_DISPLAY_QUOTED \<Rightarrow> to_on S_URI_ENCLOSED p x
         | URI_OR_TOKEN \<Rightarrow> named (x\<lparr>tv_end_mark := Some p\<rparr>)
         | DISPLAY_TOKEN \<Rightarrow> named (x\<lparr>tv_end_mark := Some p\<rparr>)
         | DISPLAY_TOKEN2 \<Rightarrow> named x
         | MAYBE_URI_END \<Rightarrow> named x
         | F_CRLF \<Rightarrow> Inl (to_end p x)
         | F_LF \<Rightarrow> Inl (to_end p x)
         | F_CR \<Rightarrow> Inl (to_end p x)
         | _ \<Rightarrow> Inl (to_error p x))"

definition to_greater :: "nat \<Rightarrow> to_vars \<Rightarrow> to_act" where
  "to_greater p x =
     (case tv_status x of
        DISPLAY_QUOTED \<Rightarrow> Inr (p, x)
      | URI_ENCLOSED \<Rightarrow> to_after (uri_end_at (Some p) x) (to_on END p)
      | E_URI_ENCLOSED \<Rightarrow> to_on END p x
      | F_CRLF \<Rightarrow> Inl (to_end p x)
      | F_LF \<Rightarrow> Inl (to_end p x)
      | F_CR \<Rightarrow> Inl (to_end p x)
      | _ \<Rightarrow> Inl (to_error p x))"

definition to_quote :: "nat \<Rightarrow> to_vars \<Rightarrow> to_act" where
  "to_quote p x =
     (let tb = tv_to x
      in case tv_status x of
           START_TO \<Rightarrow>
             to_on DISPLAY_QUOTED p
               (x\<lparr>tv_to := tb\<lparr>tb_body := start_str p (tb_body tb),
                              tb_display := start_str p (tb_display tb)\<rparr>\<rparr>)
         | DISPLAY_QUOTED \<Rightarrow> to_after (display_end_at (Some (p + 1)) x) (to_on E_DISPLAY_QUOTED p)
         | F_CRLF \<Rightarrow> Inl (to_end p x)
         | F_LF \<Rightarrow> Inl (to_end p x)
         | F_CR \<Rightarrow> Inl (to_end p x)
         | _ \<Rightarrow> Inl (to_error p x))"

text \<open>The semicolon behind the URI: the rest belongs to the parameters.\<close>

definition to_params :: "string \<Rightarrow> nat \<Rightarrow> to_vars \<Rightarrow> to_res" where
  "to_params buf p x =
     obind (Some (body_end p x)) (\<lambda>y.
       obind (parse_to_param buf p (tv_to y) (tv_mem y)) (\<lambda>(q, sv, tb, m).
         to_end q (y\<lparr>tv_saved := sv, tv_to := tb, tv_mem := m\<rparr>)))"

definition to_semicolon :: "string \<Rightarrow> nat \<Rightarrow> to_vars \<Rightarrow> to_act" where
  "to_semicolon buf p x =
     (let params = (\<lambda>y. Inl (to_params buf p y));
          marked = (\<lambda>y. to_after (uri_end_at (tv_end_mark y) y) params)
      in case tv_status x of
           DISPLAY_QUOTED \<Rightarrow> Inr (p, x)
         | DISPLAY_TOKEN \<Rightarrow> Inr (p, x)
         | URI_ENCLOSED \<Rightarrow> Inr (p, x)
         | URI_OR_TOKEN \<Rightarrow> marked (x\<lparr>tv_end_mark := Some p\<rparr>)
         | MAYBE_URI_END \<Rightarrow> marked x
         | END \<Rightarrow> params x
         | F_CRLF \<Rightarrow> Inl (to_end p x)
         | F_LF \<Rightarrow> Inl (to_end p x)
         | F_CR \<Rightarrow> Inl (to_end p x)
         | _ \<Rightarrow> Inl (to_error p x))"

definition to_other :: "nat \<Rightarrow> to_vars \<Rightarrow> to_act" where
  "to_other p x =
     (let tb = tv_to x
      in case tv_status x of
           START_TO \<Rightarrow>
             to_on URI_OR_TOKEN p
               (x\<lparr>tv_to := tb\<lparr>tb_body := start_str p (tb_body tb), tb_uri := start_str p (tb_uri tb),
                              tb_display := start_str p (tb_display tb)\<rparr>\<rparr>)
         | S_URI_ENCLOSED \<Rightarrow>
             to_on URI_ENCLOSED p (x\<lparr>tv_to := tb\<lparr>tb_uri := start_str p (tb_uri tb)\<rparr>\<rparr>)
         | MAYBE_URI_END \<Rightarrow> to_on DISPLAY_TOKEN p x
         | DISPLAY_TOKEN2 \<Rightarrow> to_on DISPLAY_TOKEN p x
         | DISPLAY_QUOTED \<Rightarrow> Inr (p, x)
         | DISPLAY_TOKEN \<Rightarrow> Inr (p, x)
         | URI_ENCLOSED \<Rightarrow> Inr (p, x)
         | URI_OR_TOKEN \<Rightarrow> Inr (p, x)
         | F_CRLF \<Rightarrow> Inl (to_end p x)
         | F_LF \<Rightarrow> Inl (to_end p x)
         | F_CR \<Rightarrow> Inl (to_end p x)
         | _ \<Rightarrow> Inl (to_error p x))"

definition to_step :: "string \<Rightarrow> nat \<Rightarrow> to_vars \<Rightarrow> to_act" where
  "to_step buf p x =
     (let c = buf ! p
      in if c = CHR 0x20 \<or> c = CHR 0x09 then to_space p x
         else if c = CHR 0x0A then to_lf p x
         else if c = CHR 0x0D then to_cr p x
         else if c = CHR 0x00 then to_nul p x
         else if c = CHR 0x5C then to_backslash p x
         else if c = CHR ''<'' then to_less p x
         else if c = CHR ''>'' then to_greater p x
         else if c = CHR 0x22 then to_quote p x
         else if c = CHR '';'' then to_semicolon buf p x
         else to_other p x)"

definition parse_to :: "string \<Rightarrow> to_body \<Rightarrow> to_param pkg \<Rightarrow> to_res" where
  "parse_to buf tb m =
     (case scan (to_step buf) (length buf) 0
             \<lparr>tv_status = START_TO, tv_saved = START_TO, tv_end_mark = None,
              tv_to = tb\<lparr>tb_error := False, tb_uri := null_str, tb_display := null_str\<rparr>,
              tv_mem = m\<rparr> of
        Inl r \<Rightarrow> r
      | Inr (q, x) \<Rightarrow> to_end q x)"

section \<open>Freeing, and the URI behind the header\<close>

text \<open>\<open>free_to\<close>: the parameters, and the structure itself, a block of its caller.\<close>

definition free_to :: "nat option \<Rightarrow> to_body pkg \<Rightarrow> to_param pkg \<Rightarrow> (fault + to_body pkg \<times> to_param pkg) option" where
  "free_to h bodies m =
     obind (Some (pkg_get h bodies)) (\<lambda>tb.
       obind (free_to_params tb m) (\<lambda>m'.
         obind (Some (pkg_free (the h) bodies)) (\<lambda>bodies'. Some (Inr (bodies', m')))))"

text \<open>
  \<open>parse_to_uri\<close>, given the parsed To header of a message (\<open>None\<close>: there is none): the
  result is kept in the structure and reused; a failure leaves it zeroed. The pointers of the
  parsed URI are offsets from the start of the URI.
\<close>

definition parse_to_uri :: "string \<Rightarrow> to_body option \<Rightarrow> sip_uri option \<times> to_body option" where
  "parse_to_uri buf h =
     (case h of
        None \<Rightarrow> (None, None)
      | Some tb \<Rightarrow>
          if str_s (u_user (tb_parsed_uri tb)) \<noteq> NullP \<or> str_s (u_host (tb_parsed_uri tb)) \<noteq> NullP
          then (Some (tb_parsed_uri tb), h)
          else case parse_uri (str_bytes buf (tb_uri tb)) of
                 Inl e \<Rightarrow> (None, Some (tb\<lparr>tb_parsed_uri := zero_uri\<rparr>))
               | Inr u \<Rightarrow> (Some u, Some (tb\<lparr>tb_parsed_uri := u\<rparr>)))"

end
