(* ===== verification/To_Safe.thy ===== *)
theory To_Safe
  imports Parse_To
begin

text \<open>
  Memory safety of the To header parser: an invariant of both state machines that every
  character keeps. The parameters parsed so far form a linked list, the one being read is a
  live block outside it, no other block is touched, and every string lies in the buffer.
\<close>

section \<open>The invariant of the parameters\<close>

text \<open>The status behind a line end is the one the header goes on with.\<close>

definition at_eol :: "to_status \<Rightarrow> bool" where
  "at_eol st \<longleftrightarrow> st = F_CR \<or> st = F_LF \<or> st = F_CRLF"

definition in_name :: "to_status \<Rightarrow> bool" where
  "in_name st \<longleftrightarrow> st = PARA_NAME \<or> st = TAG1 \<or> st = TAG2 \<or> st = TAG3"

definition in_val :: "to_status \<Rightarrow> bool" where
  "in_val st \<longleftrightarrow> st = PARA_VALUE_TOKEN \<or> st = PARA_VALUE_QUOTED"

definition foldable :: "to_status \<Rightarrow> bool" where
  "foldable st \<longleftrightarrow> st = S_PARA_NAME \<or> st = S_EQUAL \<or> st = S_PARA_VALUE \<or> st = E_PARA_VALUE"

text \<open>The parameter being read, by the status.\<close>

definition tp_ok :: "nat \<Rightarrow> to_status \<Rightarrow> to_param \<Rightarrow> bool" where
  "tp_ok p st tp \<longleftrightarrow> in_buf p (tp_name tp) \<and> in_buf p (tp_value tp) \<and> tp_next tp = None \<and>
     (st = S_PARA_NAME \<longrightarrow> tp_name tp = null_str) \<and>
     (in_name st \<longrightarrow> (\<exists>a. str_s (tp_name tp) = Buf a \<and> a \<le> p)) \<and>
     (if in_val st then \<exists>a. str_s (tp_value tp) = Buf a \<and> a \<le> p else tp_value tp = null_str)"

text \<open>The tag of a list of parameters: the value of the last one that is a tag.\<close>

definition last_tag :: "to_param list \<Rightarrow> cstr" where
  "last_tag = foldl (\<lambda>w tp. if tp_type tp = TAG_PARAM then tp_value tp else w) null_str"

text \<open>The blocks of the list, in order.\<close>

definition blocks_of :: "(nat \<Rightarrow> 'a option) \<Rightarrow> nat list \<Rightarrow> 'a list" where
  "blocks_of b as = map (\<lambda>a. the (b a)) as"

text \<open>What a parameter says, without its place in a list.\<close>

definition param_core :: "to_param \<Rightarrow> to_param_type \<times> cstr \<times> cstr" where
  "param_core tp = (tp_type tp, tp_name tp, tp_value tp)"

text \<open>
  The list that hangs off a result, over the memory \<open>K\<close> from before: the blocks \<open>as\<close> and,
  perhaps, the one under construction are all that is new.
\<close>

definition to_list :: "(nat \<Rightarrow> to_param option) \<Rightarrow> nat \<Rightarrow> to_body \<Rightarrow> to_param pkg \<Rightarrow> nat list \<Rightarrow> nat set \<Rightarrow> bool" where
  "to_list K p tb m as extra \<longleftrightarrow> pkg_ok m \<and> fresh_answers m \<inter> dom K = {} \<and>
     plist tp_next (pk_block m) (tb_param_lst tb) as \<and>
     (as \<noteq> [] \<longrightarrow> tb_last_param tb = Some (last as)) \<and>
     (\<forall>tp\<in>set (blocks_of (pk_block m) as). in_buf p (tp_name tp) \<and> in_buf p (tp_value tp)) \<and>
     tb_tag_value tb = last_tag (blocks_of (pk_block m) as) \<and>
     dom (pk_block m) = dom K \<union> set as \<union> extra \<and> dom K \<inter> set as = {} \<and>
     extra \<inter> (dom K \<union> set as) = {} \<and> (\<forall>a\<in>dom K. pk_block m a = K a)"

definition strip_to :: "to_body \<Rightarrow> to_body" where
  "strip_to tb = tb\<lparr>tb_tag_value := null_str, tb_param_lst := None, tb_last_param := None\<rparr>"

definition para_ok :: "(nat \<Rightarrow> to_param option) \<Rightarrow> to_body \<Rightarrow> nat \<Rightarrow> to_status \<Rightarrow> para_vars \<Rightarrow> bool" where
  "para_ok K tb p st x \<longleftrightarrow> strip_to (pv_to x) = strip_to tb \<and>
     (pv_param x = None \<longleftrightarrow> st = E_PARA_VALUE) \<and>
     (\<exists>as. to_list K p (pv_to x) (pv_mem x) as (set_option (pv_param x))) \<and>
     (\<forall>a. pv_param x = Some a \<longrightarrow> (\<exists>tp. pk_block (pv_mem x) a = Some tp \<and> tp_ok p st tp))"

definition para_inv :: "(nat \<Rightarrow> to_param option) \<Rightarrow> to_body \<Rightarrow> nat \<Rightarrow> para_vars \<Rightarrow> bool" where
  "para_inv K tb p x \<longleftrightarrow> foldable (pv_saved x) \<and>
     para_ok K tb p (if at_eol (pv_status x) then pv_saved x else pv_status x) x"

section \<open>The macros keep it\<close>

lemma tp_ok_mono:
  assumes "tp_ok p st tp" "p \<le> q"
  shows "tp_ok q st tp"
  using assms in_buf_mono [of p _ q] by (fastforce simp: tp_ok_def)

lemma to_list_mono:
  assumes "to_list K p tb m as ex" "p \<le> q"
  shows "to_list K q tb m as ex"
  using assms in_buf_mono [of p _ q] by (simp add: to_list_def)

lemma para_ok_mono:
  assumes "para_ok K tb p st x" "p \<le> q"
  shows "para_ok K tb q st x"
  using assms(1) tp_ok_mono [OF _ assms(2)] to_list_mono [OF _ assms(2)]
  unfolding para_ok_def by blast

lemma para_ok_frame [simp]:
  "para_ok K tb p st (x\<lparr>pv_status := s\<rparr>) = para_ok K tb p st x"
  "para_ok K tb p st (x\<lparr>pv_saved := s\<rparr>) = para_ok K tb p st x"
  by (simp_all add: para_ok_def)

lemma blocks_cong: "(\<And>a. a \<in> set as \<Longrightarrow> b' a = b a) \<Longrightarrow> blocks_of b' as = blocks_of b as"
  by (simp add: blocks_of_def)

text \<open>Writing into the block under construction.\<close>

lemma to_list_put:
  assumes "to_list K p tb m as {a}"
  shows "to_list K p tb (m\<lparr>pk_block := (pk_block m)(a \<mapsto> tp)\<rparr>) as {a}"
proof -
  let ?b = "(pk_block m)(a \<mapsto> tp)"
  from assms have na: "a \<notin> set as" "a \<notin> dom K" by (auto simp: to_list_def)
  have 1: "blocks_of ?b as = blocks_of (pk_block m) as" by (rule blocks_cong) (use na in auto)
  have 2: "plist tp_next ?b h as = plist tp_next (pk_block m) h as" for h
    by (rule plist_cong) (use na in auto)
  have 3: "pkg_ok (m\<lparr>pk_block := ?b\<rparr>)" by (rule pkg_ok_block) (use assms in \<open>auto simp: to_list_def\<close>)
  have 4: "\<forall>c\<in>dom K. ?b c = K c" using assms na by (auto simp: to_list_def)
  have 5: "dom ?b = dom K \<union> set as \<union> {a}" using assms by (auto simp: to_list_def)
  show ?thesis using assms na 3 4 5 unfolding to_list_def by (simp add: 1 2)
qed

lemma on_param_ok:
  assumes ok: "para_ok K tb p st x" and ne: "st \<noteq> E_PARA_VALUE" "st' \<noteq> E_PARA_VALUE" and pq: "p \<le> q"
    and f: "\<And>tp. tp_ok p st tp \<Longrightarrow> \<exists>w. f tp = Inr w \<and> tp_ok q st' w"
  shows "\<exists>y. on_param f x = Inr y \<and> para_ok K tb q st' y \<and> pv_status y = pv_status x \<and>
    pv_saved y = pv_saved x"
proof -
  from ok ne obtain a as tp where a: "pv_param x = Some a" "strip_to (pv_to x) = strip_to tb"
    "to_list K p (pv_to x) (pv_mem x) as {a}" "pk_block (pv_mem x) a = Some tp" "tp_ok p st tp"
    unfolding para_ok_def by fastforce
  from f [OF a(5)] obtain w where w: "f tp = Inr w" "tp_ok q st' w" by blast
  from to_list_put [OF to_list_mono [OF a(3) pq]] a w ne show ?thesis
    by (auto simp: on_param_def para_ok_def)
qed

lemma new_eq [simp]: "tp_ok p S_PARA_NAME new_param"
  by (simp add: tp_ok_def new_param_def in_name_def in_val_def)

text \<open>Adding the block under construction to the list.\<close>

lemma last_tag_snoc: "last_tag (ps @ [tp]) = (if tp_type tp = TAG_PARAM then tp_value tp else last_tag ps)"
  by (simp add: last_tag_def)

lemma last_tag_cong: "map (\<lambda>tp. (tp_type tp, tp_value tp)) ps = map (\<lambda>tp. (tp_type tp, tp_value tp)) qs \<Longrightarrow>
  last_tag ps = last_tag qs"
proof (induction ps arbitrary: qs rule: rev_induct)
  case (snoc tp ps)
  then obtain qs' tq where "qs = qs' @ [tq]" by (cases qs rule: rev_cases) auto
  with snoc show ?case by (simp add: last_tag_snoc)
qed simp

lemma to_list_link:
  assumes L: "to_list K p tb m as {a}" and a: "pk_block m a = Some tp" "tp_next tp = None"
    "in_buf p (tp_name tp)" "in_buf p (tp_value tp)"
    and b: "b = (if as = [] then pk_block m
       else (pk_block m)(last as := map_option (\<lambda>v. v\<lparr>tp_next := Some a\<rparr>) (pk_block m (last as))))"
  shows "to_list K p
    (tb\<lparr>tb_param_lst := (if as = [] then Some a else tb_param_lst tb), tb_last_param := Some a,
        tb_tag_value := (if tp_type tp = TAG_PARAM then tp_value tp else tb_tag_value tb)\<rparr>)
    (m\<lparr>pk_block := b\<rparr>) (as @ [a]) {}"
    "map param_core (blocks_of b (as @ [a])) = map param_core (blocks_of (pk_block m) as) @ [param_core tp]"
proof -
  from L have na: "a \<notin> set as" "a \<notin> dom K" "dom K \<inter> set as = {}" by (auto simp: to_list_def)
  have ba: "b a = Some tp" using b a(1) na by auto
  have other: "b c = pk_block m c" if "c \<notin> set as" for c using that b by auto
  have dom: "dom b = dom (pk_block m)" using b by (auto split: if_splits)
  have shape: "plist tp_next b (if as = [] then Some a else tb_param_lst tb) (as @ [a]) \<and>
      map param_core (blocks_of b as) = map param_core (blocks_of (pk_block m) as)"
  proof (cases as rule: rev_cases)
    case Nil then show ?thesis using ba a by (simp add: blocks_of_def)
  next
    case (snoc cs z)
    from L snoc have pl: "plist tp_next (pk_block m) (tb_param_lst tb) (cs @ [z])" by (simp add: to_list_def)
    from plist_snoc_block [OF pl] obtain v where v: "pk_block m z = Some v" "tp_next v = None" by blast
    from plist_distinct [OF pl] have zc: "z \<notin> set cs" by simp
    have b': "b = (pk_block m)(z \<mapsto> v\<lparr>tp_next := Some a\<rparr>)" using b snoc v by simp
    define w where "w = ((pk_block m)(a := None))"
    have "plist tp_next w (tb_param_lst tb) (cs @ [z]) = plist tp_next (pk_block m) (tb_param_lst tb) (cs @ [z])"
      by (rule plist_cong) (use na snoc in \<open>auto simp: w_def\<close>)
    with pl have "plist tp_next w (tb_param_lst tb) (cs @ [z])" by simp
    from plist_append [OF this, of v a tp "v\<lparr>tp_next := Some a\<rparr>"] v na snoc a
    have "plist tp_next (w(a \<mapsto> tp, z \<mapsto> v\<lparr>tp_next := Some a\<rparr>)) (tb_param_lst tb) (cs @ [z, a])"
      by (auto simp: w_def)
    moreover have "w(a \<mapsto> tp, z \<mapsto> v\<lparr>tp_next := Some a\<rparr>) = b"
      using a(1) na snoc by (auto simp: w_def b' fun_eq_iff)
    ultimately show ?thesis using snoc v zc by (auto simp: blocks_of_def b' param_core_def)
  qed
  have "map (\<lambda>tp. (tp_type tp, tp_value tp)) (blocks_of b as) =
      map (\<lambda>(t, _, v). (t, v)) (map param_core (blocks_of b as))" by (simp add: param_core_def)
  also have "\<dots> = map (\<lambda>tp. (tp_type tp, tp_value tp)) (blocks_of (pk_block m) as)"
    using shape by (simp add: param_core_def)
  finally have tag: "last_tag (blocks_of b as) = last_tag (blocks_of (pk_block m) as)"
    by (rule last_tag_cong)
  have "list_all (\<lambda>(_, n, v). in_buf p n \<and> in_buf p v) (map param_core (blocks_of (pk_block m) as))"
    using L by (simp add: list_all_iff to_list_def param_core_def)
  with shape have "list_all (\<lambda>(_, n, v). in_buf p n \<and> in_buf p v) (map param_core (blocks_of b as))" by simp
  then have strs: "\<forall>tp\<in>set (blocks_of b as). in_buf p (tp_name tp) \<and> in_buf p (tp_value tp)"
    by (simp add: list_all_iff param_core_def)
  have split: "blocks_of b (as @ [a]) = blocks_of b as @ [tp]" using ba by (simp add: blocks_of_def)
  have K: "\<forall>c\<in>dom K. b c = K c"
  proof
    fix c assume c: "c \<in> dom K"
    with na have "b c = pk_block m c" by (intro other) auto
    moreover from L have "\<forall>c\<in>dom K. pk_block m c = K c" by (simp add: to_list_def)
    ultimately show "b c = K c" using c by simp
  qed
  have "pkg_ok (m\<lparr>pk_block := b\<rparr>)" using L by (intro pkg_ok_block) (auto simp: to_list_def dom)
  moreover have "dom b = dom K \<union> set as \<union> {a}" using L dom by (simp add: to_list_def)
  moreover have "\<forall>tp\<in>set (blocks_of b (as @ [a])). in_buf p (tp_name tp) \<and> in_buf p (tp_value tp)"
    using strs a by (simp add: split)
  ultimately show "to_list K p
    (tb\<lparr>tb_param_lst := (if as = [] then Some a else tb_param_lst tb), tb_last_param := Some a,
        tb_tag_value := (if tp_type tp = TAG_PARAM then tp_value tp else tb_tag_value tb)\<rparr>)
    (m\<lparr>pk_block := b\<rparr>) (as @ [a]) {}"
    using L na shape K unfolding to_list_def by (simp add: split last_tag_snoc tag Un_assoc)
  show "map param_core (blocks_of b (as @ [a])) = map param_core (blocks_of (pk_block m) as) @ [param_core tp]"
    using shape by (simp add: split)
qed

lemma add_param_list:
  assumes a: "pv_param x = Some a" "to_list K p (pv_to x) (pv_mem x) as {a}"
    "pk_block (pv_mem x) a = Some tp" "tp_next tp = None" "in_buf p (tp_name tp)" "in_buf p (tp_value tp)"
  shows "\<exists>y. add_param x = Inr y \<and> pv_param y = None \<and> pv_status y = pv_status x \<and>
    pv_saved y = pv_saved x \<and> strip_to (pv_to y) = strip_to (pv_to x) \<and>
    to_list K p (pv_to y) (pv_mem y) (as @ [a]) {} \<and> pk_answers (pv_mem y) = pk_answers (pv_mem x) \<and>
    map param_core (blocks_of (pk_block (pv_mem y)) (as @ [a])) =
      map param_core (blocks_of (pk_block (pv_mem x)) as) @ [param_core tp]"
proof -
  note L = to_list_link [OF a(2-6) refl]
  show ?thesis
  proof (cases "as = []")
    case True
    with a(2) have "tb_param_lst (pv_to x) = None" by (simp add: to_list_def)
    with L a True show ?thesis
      by (auto simp: add_param_def link_param_def Let_def strip_to_def)
  next
    case False
    from a(2) have pl: "plist tp_next (pk_block (pv_mem x)) (tb_param_lst (pv_to x)) as"
      by (simp add: to_list_def)
    with False have h: "tb_param_lst (pv_to x) \<noteq> None" by (cases as) auto
    from a(2) False have l: "tb_last_param (pv_to x) = Some (last as)" by (simp add: to_list_def)
    from plist_live [OF pl, of "last as"] False obtain v where v: "pk_block (pv_mem x) (last as) = Some v" by auto
    from a(2) False have "last as \<noteq> a" by (auto simp: to_list_def)
    with L a False h l v show ?thesis
      by (auto simp: add_param_def link_param_def Let_def strip_to_def)
  qed
qed

lemma add_param_ok:
  assumes ok: "para_ok K tb p st x" and ne: "st \<noteq> E_PARA_VALUE"
  shows "\<exists>y. add_param x = Inr y \<and> para_ok K tb p E_PARA_VALUE y \<and> pv_status y = pv_status x \<and>
    pv_saved y = pv_saved x"
proof -
  from ok ne obtain a as tp where a: "pv_param x = Some a" "strip_to (pv_to x) = strip_to tb"
    "to_list K p (pv_to x) (pv_mem x) as {a}" "pk_block (pv_mem x) a = Some tp" "tp_ok p st tp"
    unfolding para_ok_def by fastforce
  from a(5) have tp: "tp_next tp = None" "in_buf p (tp_name tp)" "in_buf p (tp_value tp)"
    by (auto simp: tp_ok_def)
  from add_param_list [OF a(1,3,4) tp] a(2) show ?thesis by (auto simp: para_ok_def)
qed

lemma to_list_new:
  assumes L: "to_list K p tb m as {}" and m: "pkg_malloc v m = (Some a, m')"
  shows "to_list K p tb m' as {a}" "blocks_of (pk_block m') as = blocks_of (pk_block m) as"
    "pk_block m' a = Some v"
proof -
  from L have "pkg_ok m" by (simp add: to_list_def)
  note pm = pkg_malloc_ok [OF this m]
  from pm(4) [OF refl] have f: "pk_block m a = None" "a \<in> fresh_answers m"
    "pk_block m' = (pk_block m)(a \<mapsto> v)" by auto
  from L f have na: "a \<notin> set as" "a \<notin> dom K"
    by (auto simp: to_list_def dest: domI)
  show 1: "blocks_of (pk_block m') as = blocks_of (pk_block m) as"
    by (rule blocks_cong) (use na f in auto)
  have 2: "plist tp_next (pk_block m') h' as = plist tp_next (pk_block m) h' as" for h'
    by (rule plist_cong) (use na f in auto)
  have 3: "\<forall>c\<in>dom K. pk_block m' c = K c" using L na f by (auto simp: to_list_def)
  have 4: "dom (pk_block m') = dom K \<union> set as \<union> {a}" using L f by (auto simp: to_list_def)
  show "to_list K p tb m' as {a}"
    using L pm(1,2) na 3 4 unfolding to_list_def 1 2 by auto
  show "pk_block m' a = Some v" using f by simp
qed

lemma fresh_param_ok:
  assumes ok: "para_ok K tb p E_PARA_VALUE x"
  shows "case fresh_param p x of
      Inl r \<Rightarrow> (\<exists>y. r = Error p y \<and> para_ok K tb p E_PARA_VALUE y)
    | Inr (q, y) \<Rightarrow> q = p \<and> pv_status y = S_PARA_NAME \<and> pv_saved y = pv_saved x \<and>
        para_ok K tb p S_PARA_NAME y"
proof -
  from ok obtain as where x: "pv_param x = None" "strip_to (pv_to x) = strip_to tb"
    "to_list K p (pv_to x) (pv_mem x) as {}"
    by (auto simp: para_ok_def)
  obtain h m where m: "pkg_malloc new_param (pv_mem x) = (h, m)" by fastforce
  from x(3) have "pkg_ok (pv_mem x)" by (simp add: to_list_def)
  note pm = pkg_malloc_ok [OF this m]
  show ?thesis
  proof (cases h)
    case None
    with pm x have "to_list K p (pv_to x) m as {}" unfolding to_list_def by auto
    with None m x show ?thesis by (auto simp: fresh_param_def para_ok_def)
  next
    case (Some a)
    from to_list_new [OF x(3) m [unfolded Some]] Some m x show ?thesis
      by (auto simp: fresh_param_def para_ok_def)
  qed
qed

section \<open>The operations, one status to the next\<close>

definition yields :: "'e + 'a \<Rightarrow> ('a \<Rightarrow> bool) \<Rightarrow> bool" where
  "yields m Q \<longleftrightarrow> (\<exists>y. m = Inr y \<and> Q y)"

text \<open>An operation that leaves the two status variables alone.\<close>

definition moves :: "(nat \<Rightarrow> to_param option) \<Rightarrow> to_body \<Rightarrow> nat \<Rightarrow> to_status \<Rightarrow> para_vars \<Rightarrow>
    fault + para_vars \<Rightarrow> bool" where
  "moves K tb q st x m \<longleftrightarrow>
     yields m (\<lambda>y. para_ok K tb q st y \<and> pv_status y = pv_status x \<and> pv_saved y = pv_saved x)"

lemma movesE:
  assumes "moves K tb q st x m"
  obtains y where "m = Inr y" "para_ok K tb q st y" "pv_status y = pv_status x" "pv_saved y = pv_saved x"
  using assms by (auto simp: moves_def yields_def)

lemma param_moves:
  assumes "para_ok K tb p st x" "st \<noteq> E_PARA_VALUE" "st' \<noteq> E_PARA_VALUE" "p \<le> q"
    "\<And>tp. tp_ok p st tp \<Longrightarrow> \<exists>w. f tp = Inr w \<and> tp_ok q st' w"
  shows "moves K tb q st' x (on_param f x)"
  using on_param_ok [of K tb p st x st' q f] assms by (auto simp: moves_def yields_def)

definition named :: "to_status \<Rightarrow> bool" where
  "named st \<longleftrightarrow> st = S_EQUAL \<or> st = S_PARA_VALUE"

lemmas status_sets = in_name_def in_val_def named_def at_eol_def foldable_def

lemma name_at_moves:
  assumes "para_ok K tb p S_PARA_NAME x" "in_name st"
  shows "moves K tb p st x (name_at p x)"
  unfolding name_at_def
  by (rule param_moves [OF assms(1)])
    (use assms(2) in \<open>auto simp: tp_ok_def status_sets start_str_def null_str_def\<close>)

lemma is_tag_moves:
  assumes "para_ok K tb p st x" "st \<noteq> E_PARA_VALUE"
  shows "moves K tb p st x (is_tag x)"
  unfolding is_tag_def by (rule param_moves [OF assms(1)]) (use assms(2) in \<open>auto simp: tp_ok_def\<close>)

lemma name_end_moves:
  assumes "para_ok K tb p st x" "in_name st" "named st'"
  shows "moves K tb p st' x (name_end p x)"
  unfolding name_end_def
  by (rule param_moves [OF assms(1)]) (use assms(2,3) in \<open>auto simp: tp_ok_def status_sets\<close>)

lemma value_at_moves:
  assumes "para_ok K tb p st x" "named st" "in_val st'" "p \<le> q"
  shows "moves K tb q st' x (value_at q x)"
  unfolding value_at_def
proof (rule param_moves [OF assms(1) _ _ assms(4)])
  show "st \<noteq> E_PARA_VALUE" "st' \<noteq> E_PARA_VALUE" using assms by (auto simp: status_sets)
  fix tp assume "tp_ok p st tp"
  then show "\<exists>w. Inr (tp\<lparr>tp_value := start_str q (tp_value tp)\<rparr>) = Inr w \<and> tp_ok q st' w"
    using assms(2,3) in_buf_mono [of p "tp_name tp" q] assms(4)
    by (auto simp: tp_ok_def status_sets start_str_def null_str_def)
qed

lemma value_end_moves:
  assumes "para_ok K tb p st x" "in_val st"
  shows "moves K tb p st x (value_end p x)"
  unfolding value_end_def
  by (rule param_moves [OF assms(1)]) (use assms(2) in \<open>auto simp: tp_ok_def status_sets\<close>)

lemma null_value_moves:
  assumes "para_ok K tb p st x" "st \<noteq> E_PARA_VALUE"
  shows "moves K tb p S_EQUAL x (on_param (\<lambda>tp. Inr (tp\<lparr>tp_value := null_str\<rparr>)) x)"
  by (rule param_moves [OF assms(1)]) (use assms(2) in \<open>auto simp: tp_ok_def status_sets\<close>)

lemma add_param_moves:
  assumes "para_ok K tb p st x" "st \<noteq> E_PARA_VALUE"
  shows "moves K tb p E_PARA_VALUE x (add_param x)"
  using add_param_ok [OF assms] by (auto simp: moves_def yields_def)

lemma value_done_moves:
  assumes "para_ok K tb p st x" "in_val st"
  shows "moves K tb p E_PARA_VALUE x (value_done p x)"
proof -
  from assms(2) have ne: "st \<noteq> E_PARA_VALUE" by (auto simp: status_sets)
  from value_end_moves [OF assms] obtain y where y: "value_end p x = Inr y" "para_ok K tb p st y"
    "pv_status y = pv_status x" "pv_saved y = pv_saved x" by (rule movesE)
  with add_param_moves [OF y(2) ne] show ?thesis by (simp add: value_done_def moves_def)
qed

section \<open>Every character keeps it\<close>

text \<open>Where the loop is left, \<open>tmp\<close> is inside the buffer and the memory is in order.\<close>

definition some_ok :: "(nat \<Rightarrow> to_param option) \<Rightarrow> to_body \<Rightarrow> nat \<Rightarrow> para_vars \<Rightarrow> bool" where
  "some_ok K tb e x \<longleftrightarrow> (\<exists>st. para_ok K tb e st x)"

fun para_stop_ok :: "(nat \<Rightarrow> to_param option) \<Rightarrow> to_body \<Rightarrow> string \<Rightarrow> para_vars stop \<Rightarrow> bool" where
  "para_stop_ok K tb buf (Endofheader p x) \<longleftrightarrow>
     p \<le> length buf \<and> foldable (pv_saved x) \<and> some_ok K tb (length buf) x"
| "para_stop_ok K tb buf (Parse_error p x) \<longleftrightarrow> p \<le> Suc (length buf) \<and> some_ok K tb (length buf) x"
| "para_stop_ok K tb buf (Error p x) \<longleftrightarrow> p \<le> Suc (length buf) \<and> some_ok K tb (length buf) x"
| "para_stop_ok K tb buf (Fault f) \<longleftrightarrow> f = Out_of_bounds \<and> buf \<noteq> [] \<and> last buf = CHR 0x5C"

definition act_ok :: "(nat \<Rightarrow> to_param option) \<Rightarrow> to_body \<Rightarrow> string \<Rightarrow> nat \<Rightarrow> para_act \<Rightarrow> bool" where
  "act_ok K tb buf p r \<longleftrightarrow>
     (case r of Inl s \<Rightarrow> para_stop_ok K tb buf s | Inr (q, y) \<Rightarrow> q = p \<and> para_inv K tb (Suc p) y)"

lemma act_ok_simps [simp]:
  "act_ok K tb buf p (Inl s) = para_stop_ok K tb buf s"
  "act_ok K tb buf p (Inr (q, y)) \<longleftrightarrow> q = p \<and> para_inv K tb (Suc p) y"
  by (simp_all add: act_ok_def)

lemma act_after:
  assumes "moves K tb q st x m"
    and "\<And>y. para_ok K tb q st y \<Longrightarrow> pv_status y = pv_status x \<Longrightarrow> pv_saved y = pv_saved x \<Longrightarrow>
      act_ok K tb buf p (k y)"
  shows "act_ok K tb buf p (after m k)"
  using assms by (auto elim: movesE)

lemma act_stay:
  assumes "para_inv K tb p x"
  shows "act_ok K tb buf p (Inr (p, x))"
  using assms para_ok_mono [of K tb p _ x "Suc p"] by (simp add: para_inv_def)

lemma act_on:
  assumes "para_ok K tb p st x \<or> para_ok K tb (Suc p) st x" "foldable (pv_saved x)" "\<not> at_eol st"
  shows "act_ok K tb buf p (para_on st p x)"
  using assms para_ok_mono [of K tb p _ x "Suc p"] by (auto simp: para_inv_def para_on_def)

lemma act_fold:
  assumes "para_ok K tb p sv x" "foldable sv" "at_eol st"
  shows "act_ok K tb buf p (para_fold sv st p x)"
  using assms para_ok_mono [of K tb p _ x "Suc p"] by (auto simp: para_inv_def para_fold_def)

lemma act_error:
  assumes "para_ok K tb p st x" "p < length buf"
  shows "act_ok K tb buf p (Inl (Parse_error p x))" "act_ok K tb buf p (Inl (Error p x))"
    "act_ok K tb buf p (Inl (Parse_error (Suc p) x))"
    "foldable (pv_saved x) \<Longrightarrow> act_ok K tb buf p (para_over p x)"
  using assms para_ok_mono [of K tb p st x "length buf"]
  by (auto simp: some_ok_def para_over_def)

text \<open>The sequences the characters have in common.\<close>

lemma name_on:
  assumes "para_ok K tb p st x" "in_name st" "foldable (pv_saved x)" "named st'"
  shows "act_ok K tb buf p (after (name_end p x) (para_on st' p))"
  by (rule act_after [OF name_end_moves [OF assms(1,2,4)]])
    (use assms in \<open>auto intro!: act_on simp: status_sets\<close>)

lemma name_fold:
  assumes "para_ok K tb p st x" "in_name st" "at_eol f"
  shows "act_ok K tb buf p (after (name_end p x) (para_fold S_EQUAL f p))"
proof -
  have "named S_EQUAL" by (simp add: named_def)
  from name_end_moves [OF assms(1,2) this] show ?thesis
    by (rule act_after) (use assms in \<open>auto intro!: act_fold simp: foldable_def\<close>)
qed

lemma tag_name:
  assumes "para_ok K tb p TAG3 x"
    and "\<And>y. para_ok K tb p TAG3 y \<Longrightarrow> pv_saved y = pv_saved x \<Longrightarrow> act_ok K tb buf p (k y)"
  shows "act_ok K tb buf p (after (is_tag x) k)"
  by (rule act_after [OF is_tag_moves [OF assms(1)]]) (use assms(2) in auto)

lemma value_added:
  assumes x: "para_ok K tb p st x" "in_val st"
    and g: "\<And>y. pv_saved y = pv_saved x \<Longrightarrow> foldable (pv_saved (g y)) \<and>
      (pv_status (g y) = E_PARA_VALUE \<or> at_eol (pv_status (g y)) \<and> pv_saved (g y) = E_PARA_VALUE)"
    and frame: "\<And>y q s. para_ok K tb q s (g y) = para_ok K tb q s y"
  shows "act_ok K tb buf p (after (value_end p x) (\<lambda>y. after (add_param (g y)) (\<lambda>z. Inr (p, z))))"
proof (rule act_after [OF value_end_moves [OF x]])
  fix y assume y: "para_ok K tb p st y" "pv_saved y = pv_saved x"
  with frame x(2) have "para_ok K tb p st (g y)" "st \<noteq> E_PARA_VALUE" by (auto simp: status_sets)
  from add_param_moves [OF this] show "act_ok K tb buf p (after (add_param (g y)) (\<lambda>z. Inr (p, z)))"
    by (rule act_after)
      (use g [OF y(2)] para_ok_mono [of K tb p E_PARA_VALUE _ "Suc p"] in
        \<open>auto simp: para_inv_def at_eol_def\<close>)
qed

lemma no_value_ok:
  assumes x: "para_ok K tb p st x" "named st" "p < length buf"
    and k: "\<And>y. para_ok K tb p PARA_VALUE_TOKEN y \<Longrightarrow> pv_status y = pv_status x \<Longrightarrow>
      pv_saved y = pv_saved x \<Longrightarrow> act_ok K tb buf p (k y)"
  shows "act_ok K tb buf p (no_value p k x)"
proof -
  from x(1,2) obtain a tp where a: "pv_param x = Some a" "pk_block (pv_mem x) a = Some tp"
    unfolding para_ok_def by (fastforce simp: status_sets)
  have "in_val PARA_VALUE_TOKEN" by (simp add: status_sets)
  from value_at_moves [OF x(1,2) this order.refl]
  have "act_ok K tb buf p (after (value_at p x) k)" by (rule act_after) (rule k)
  with a act_error(1) [OF x(1,3)] show ?thesis by (simp add: no_value_def)
qed

lemma value_then:
  assumes x: "para_ok K tb p st x" "in_val st"
    and k: "\<And>y. para_ok K tb p E_PARA_VALUE y \<Longrightarrow> pv_status y = pv_status x \<Longrightarrow>
      pv_saved y = pv_saved x \<Longrightarrow> act_ok K tb buf p (k y)"
  shows "act_ok K tb buf p (after (value_done p x) k)"
  by (rule act_after [OF value_done_moves [OF x]]) (rule k)

lemma some_okI: "para_ok K tb p st x \<Longrightarrow> p \<le> e \<Longrightarrow> some_ok K tb e x"
  using para_ok_mono [of K tb p st x e] by (auto simp: some_ok_def)

lemma fresh_act:
  assumes "para_ok K tb p E_PARA_VALUE x" "foldable (pv_saved x)" "p < length buf"
  shows "act_ok K tb buf p (fresh_param p x)"
  using fresh_param_ok [OF assms(1)] assms(2,3) para_ok_mono [of K tb p S_PARA_NAME _ "Suc p"]
    some_okI [of K tb p E_PARA_VALUE _ "length buf"]
  by (auto simp: para_inv_def at_eol_def split: sum.splits)

text \<open>The characters.\<close>

text \<open>What each kind of status allows, one fact for every branch of the code.\<close>

lemma para_simple_facts:
  assumes inv: "para_inv K tb p x" and p: "p < length buf"
  shows "act_ok K tb buf p (Inr (p, x))" "act_ok K tb buf p (Inl (Parse_error p x))"
    "act_ok K tb buf p (Inl (Error p x))" "act_ok K tb buf p (Inl (Parse_error (Suc p) x))"
    "at_eol (pv_status x) \<Longrightarrow> act_ok K tb buf p (para_over p x)"
    "at_eol (pv_status x) \<Longrightarrow> act_ok K tb buf p (para_over p (x\<lparr>pv_status := pv_saved x\<rparr>))"
    "at_eol (pv_status x) \<Longrightarrow> act_ok K tb buf p (para_on (pv_saved x) p x)"
    "pv_status x = F_CR \<Longrightarrow> act_ok K tb buf p (para_on F_CRLF p x)"
    "foldable (pv_status x) \<Longrightarrow> act_ok K tb buf p (para_fold (pv_status x) F_LF p x)"
    "foldable (pv_status x) \<Longrightarrow> act_ok K tb buf p (para_fold (pv_status x) F_CR p x)"
    "in_name (pv_status x) \<Longrightarrow> act_ok K tb buf p (para_on PARA_NAME p x)"
    "in_name (pv_status x) \<Longrightarrow> act_ok K tb buf p (para_on TAG2 p x)"
    "in_name (pv_status x) \<Longrightarrow> act_ok K tb buf p (para_on TAG3 p x)"
    "named (pv_status x) \<Longrightarrow> act_ok K tb buf p (para_on S_PARA_VALUE p x)"
    "pv_status x = E_PARA_VALUE \<Longrightarrow> act_ok K tb buf p (fresh_param p x)"
    "pv_status x = E_PARA_VALUE \<Longrightarrow> act_ok K tb buf p (para_over p (x\<lparr>pv_saved := pv_status x\<rparr>))"
proof -
  define st where "st = (if at_eol (pv_status x) then pv_saved x else pv_status x)"
  from inv have ok: "para_ok K tb p st x" and sv: "foldable (pv_saved x)"
    by (simp_all add: para_inv_def st_def)
  have same: "para_ok K tb p st' x" if "in_name st \<and> in_name st' \<or> named st \<and> named st'" for st'
    using ok that unfolding para_ok_def tp_ok_def by (auto simp: status_sets)
  show "act_ok K tb buf p (Inr (p, x))" by (rule act_stay [OF inv])
  show "act_ok K tb buf p (Inl (Parse_error p x))" "act_ok K tb buf p (Inl (Error p x))"
    "act_ok K tb buf p (Inl (Parse_error (Suc p) x))"
    by (rule act_error [OF ok p])+
  show "at_eol (pv_status x) \<Longrightarrow> act_ok K tb buf p (para_over p x)"
    by (rule act_error(4) [OF ok p sv])
  show "at_eol (pv_status x) \<Longrightarrow> act_ok K tb buf p (para_over p (x\<lparr>pv_status := pv_saved x\<rparr>))"
    by (rule act_error(4) [of _ _ _ st]) (use ok p sv in auto)
  show "at_eol (pv_status x) \<Longrightarrow> act_ok K tb buf p (para_on (pv_saved x) p x)"
    by (rule act_on) (use ok sv in \<open>auto simp: st_def status_sets\<close>)
  show "pv_status x = F_CR \<Longrightarrow> act_ok K tb buf p (para_on F_CRLF p x)"
    using ok sv para_ok_mono [of K tb p st x "Suc p"]
    by (simp add: para_on_def para_inv_def st_def at_eol_def)
  show "foldable (pv_status x) \<Longrightarrow> act_ok K tb buf p (para_fold (pv_status x) F_LF p x)"
    "foldable (pv_status x) \<Longrightarrow> act_ok K tb buf p (para_fold (pv_status x) F_CR p x)"
    using ok by (auto intro!: act_fold simp: st_def status_sets)
  show "in_name (pv_status x) \<Longrightarrow> act_ok K tb buf p (para_on PARA_NAME p x)"
    "in_name (pv_status x) \<Longrightarrow> act_ok K tb buf p (para_on TAG2 p x)"
    "in_name (pv_status x) \<Longrightarrow> act_ok K tb buf p (para_on TAG3 p x)"
    using same sv by (auto intro!: act_on simp: st_def status_sets)
  show "named (pv_status x) \<Longrightarrow> act_ok K tb buf p (para_on S_PARA_VALUE p x)"
    using same sv by (auto intro!: act_on simp: st_def status_sets)
  show "pv_status x = E_PARA_VALUE \<Longrightarrow> act_ok K tb buf p (fresh_param p x)"
    using ok sv p by (auto intro!: fresh_act simp: st_def status_sets)
  show "pv_status x = E_PARA_VALUE \<Longrightarrow> act_ok K tb buf p (para_over p (x\<lparr>pv_saved := pv_status x\<rparr>))"
    using ok p by (auto intro!: act_error(4) [of _ _ _ st] simp: status_sets)
qed

lemma para_name_facts:
  assumes inv: "para_inv K tb p x" and p: "p < length buf"
  shows "in_name (pv_status x) \<Longrightarrow> named st \<Longrightarrow> act_ok K tb buf p (after (name_end p x) (para_on st p))"
    "in_name (pv_status x) \<Longrightarrow> at_eol f \<Longrightarrow> act_ok K tb buf p (after (name_end p x) (para_fold S_EQUAL f p))"
    "pv_status x = TAG3 \<Longrightarrow> named st \<Longrightarrow>
       act_ok K tb buf p (after (is_tag x) (\<lambda>y. after (name_end p y) (para_on st p)))"
    "pv_status x = TAG3 \<Longrightarrow> at_eol f \<Longrightarrow>
       act_ok K tb buf p (after (is_tag x) (\<lambda>y. after (name_end p y) (para_fold S_EQUAL f p)))"
    "pv_status x = S_PARA_NAME \<Longrightarrow> in_name st' \<Longrightarrow> act_ok K tb buf p (after (name_at p x) (para_on st' p))"
proof -
  have ok: "para_ok K tb p (pv_status x) x" if "\<not> at_eol (pv_status x)"
    using inv that by (simp add: para_inv_def)
  have sv: "foldable (pv_saved x)" using inv by (simp add: para_inv_def)
  show "act_ok K tb buf p (after (name_end p x) (para_on st p))" if "in_name (pv_status x)" "named st"
    by (rule name_on [OF ok _ sv]) (use that in \<open>auto simp: status_sets\<close>)
  show "act_ok K tb buf p (after (name_end p x) (para_fold S_EQUAL f p))"
    if "in_name (pv_status x)" "at_eol f"
    by (rule name_fold [OF ok]) (use that in \<open>auto simp: status_sets\<close>)
  have tag: "in_name TAG3" by (simp add: in_name_def)
  show "act_ok K tb buf p (after (is_tag x) (\<lambda>y. after (name_end p y) (para_on st p)))"
    if "pv_status x = TAG3" "named st"
    using ok sv that tag by (intro tag_name) (auto intro: name_on simp: status_sets)
  show "act_ok K tb buf p (after (is_tag x) (\<lambda>y. after (name_end p y) (para_fold S_EQUAL f p)))"
    if "pv_status x = TAG3" "at_eol f"
    using ok that tag by (intro tag_name) (auto intro: name_fold simp: at_eol_def)
  show "act_ok K tb buf p (after (name_at p x) (para_on st' p))"
    if "pv_status x = S_PARA_NAME" "in_name st'"
    by (rule act_after [OF name_at_moves])
      (use ok sv that in \<open>auto intro!: act_on simp: status_sets\<close>)
qed

lemma para_value_facts:
  assumes inv: "para_inv K tb p x" and p: "p < length buf"
  shows "pv_status x = S_PARA_VALUE \<Longrightarrow>
       act_ok K tb buf p (after (value_at p x) (para_on PARA_VALUE_TOKEN p))"
    "pv_status x = S_PARA_VALUE \<Longrightarrow>
       act_ok K tb buf p (after (value_at (Suc p) x) (para_on PARA_VALUE_QUOTED p))"
    "pv_status x = PARA_VALUE_QUOTED \<Longrightarrow> act_ok K tb buf p (after (value_done p x) (para_on E_PARA_VALUE p))"
    "pv_status x = PARA_VALUE_TOKEN \<Longrightarrow> act_ok K tb buf p (after (value_end p x)
       (\<lambda>y. after (add_param (y\<lparr>pv_status := E_PARA_VALUE\<rparr>)) (\<lambda>z. Inr (p, z))))"
    "pv_status x = PARA_VALUE_TOKEN \<Longrightarrow> at_eol f \<Longrightarrow> act_ok K tb buf p (after (value_end p x)
       (\<lambda>y. after (add_param (y\<lparr>pv_saved := E_PARA_VALUE, pv_status := f\<rparr>)) (\<lambda>z. Inr (p, z))))"
proof -
  have ok: "para_ok K tb p (pv_status x) x" if "\<not> at_eol (pv_status x)"
    using inv that by (simp add: para_inv_def)
  have sv: "foldable (pv_saved x)" using inv by (simp add: para_inv_def)
  have t: "in_val PARA_VALUE_TOKEN" "in_val PARA_VALUE_QUOTED" by (simp_all add: in_val_def)
  show "act_ok K tb buf p (after (value_at p x) (para_on PARA_VALUE_TOKEN p))"
    if "pv_status x = S_PARA_VALUE"
    by (rule act_after [OF value_at_moves [OF ok _ t(1) order.refl]])
      (use ok sv that in \<open>auto intro!: act_on simp: status_sets\<close>)
  show "act_ok K tb buf p (after (value_at (Suc p) x) (para_on PARA_VALUE_QUOTED p))"
    if "pv_status x = S_PARA_VALUE"
    by (rule act_after [OF value_at_moves [OF ok _ t(2)]])
      (use ok sv that in \<open>auto intro!: act_on simp: status_sets\<close>)
  show "act_ok K tb buf p (after (value_done p x) (para_on E_PARA_VALUE p))"
    if "pv_status x = PARA_VALUE_QUOTED"
    by (rule value_then [OF ok]) (use sv that in \<open>auto intro!: act_on simp: status_sets\<close>)
  show "act_ok K tb buf p (after (value_end p x)
       (\<lambda>y. after (add_param (y\<lparr>pv_status := E_PARA_VALUE\<rparr>)) (\<lambda>z. Inr (p, z))))"
    if "pv_status x = PARA_VALUE_TOKEN"
    using ok sv that by (intro value_added [of K tb p PARA_VALUE_TOKEN]) (auto simp: status_sets)
  show "act_ok K tb buf p (after (value_end p x)
       (\<lambda>y. after (add_param (y\<lparr>pv_saved := E_PARA_VALUE, pv_status := f\<rparr>)) (\<lambda>z. Inr (p, z))))"
    if "pv_status x = PARA_VALUE_TOKEN" "at_eol f"
    using ok that by (intro value_added [of K tb p PARA_VALUE_TOKEN]) (auto simp: status_sets)
qed

text \<open>The end of a parameter that may have no value, before \<open>k\<close>.\<close>

lemma para_end_facts:
  assumes inv: "para_inv K tb p x" and p: "p < length buf"
    and k: "\<And>y. para_ok K tb p E_PARA_VALUE y \<Longrightarrow> foldable (pv_saved y) \<Longrightarrow> Q (pv_status y) \<Longrightarrow>
      act_ok K tb buf p (k y)"
    and g: "\<And>y q s. para_ok K tb q s (g y) = para_ok K tb q s y" "\<And>y. pv_saved (g y) = pv_saved y"
      "\<And>y. Q (pv_status (g y))"
  shows "named (pv_status x) \<Longrightarrow> act_ok K tb buf p (no_value p (\<lambda>y. after (value_done p (g y)) k) x)"
    "in_val (pv_status x) \<Longrightarrow> act_ok K tb buf p (after (value_done p (g x)) k)"
    "in_name (pv_status x) \<Longrightarrow>
       act_ok K tb buf p (after (name_end p x) (no_value p (\<lambda>y. after (value_done p (g y)) k)))"
proof -
  have ok: "para_ok K tb p (pv_status x) x" if "\<not> at_eol (pv_status x)"
    using inv that by (simp add: para_inv_def)
  have sv: "foldable (pv_saved x)" using inv by (simp add: para_inv_def)
  have t: "in_val PARA_VALUE_TOKEN" "named S_EQUAL" by (simp_all add: in_val_def named_def)
  have D: "act_ok K tb buf p (after (value_done p (g y)) k)"
    if "para_ok K tb p st y" "in_val st" "foldable (pv_saved y)" for y st
    using that g k by (intro value_then [of K tb p st]) auto
  have N: "act_ok K tb buf p (no_value p (\<lambda>y. after (value_done p (g y)) k) y)"
    if "para_ok K tb p st y" "named st" "foldable (pv_saved y)" for y st
    using that by (intro no_value_ok [OF that(1,2) p] D [OF _ t(1)]) auto
  show "named (pv_status x) \<Longrightarrow> act_ok K tb buf p (no_value p (\<lambda>y. after (value_done p (g y)) k) x)"
    using ok sv by (auto intro!: N simp: status_sets)
  show "in_val (pv_status x) \<Longrightarrow> act_ok K tb buf p (after (value_done p (g x)) k)"
    using ok sv by (auto intro!: D simp: status_sets)
  show "act_ok K tb buf p (after (name_end p x) (no_value p (\<lambda>y. after (value_done p (g y)) k)))"
    if "in_name (pv_status x)"
    by (rule act_after [OF name_end_moves [OF ok that t(2)]])
      (use sv that in \<open>auto intro!: N [OF _ t(2)] simp: status_sets\<close>)
qed

text \<open>Each character is one of these branches in every status.\<close>

lemma para_space_act:
  assumes "para_inv K tb p x" "p < length buf"
  shows "act_ok K tb buf p (para_space p x)"
  using para_simple_facts [OF assms] para_name_facts [OF assms, of S_EQUAL] para_value_facts [OF assms]
  by (cases "pv_status x") (simp_all add: para_space_def status_sets)

lemma para_line_act:
  assumes "para_inv K tb p x" "p < length buf"
  shows "act_ok K tb buf p (para_lf p x)" "act_ok K tb buf p (para_cr p x)"
  using para_simple_facts [OF assms] para_name_facts [OF assms] para_value_facts [OF assms]
  by (cases "pv_status x"; simp add: para_lf_def para_cr_def status_sets)+

lemma para_nul_act:
  assumes "para_inv K tb p x" "p < length buf"
  shows "act_ok K tb buf p (para_nul p x)"
proof -
  have "act_ok K tb buf p (para_over p (y\<lparr>pv_saved := pv_status y\<rparr>))"
    if "para_ok K tb p E_PARA_VALUE y" "foldable (pv_saved y)" "pv_status y = E_PARA_VALUE" for y
    using that assms(2) by (auto intro!: act_error(4) [of _ _ _ E_PARA_VALUE] simp: foldable_def)
  from para_end_facts [where g = "\<lambda>y. y\<lparr>pv_status := E_PARA_VALUE\<rparr>" and Q = "\<lambda>s. s = E_PARA_VALUE",
      OF assms this]
  show ?thesis
    using para_simple_facts [OF assms]
    by (cases "pv_status x") (simp_all add: para_nul_def status_sets)
qed

lemma para_semicolon_act:
  assumes "para_inv K tb p x" "p < length buf"
  shows "act_ok K tb buf p (para_semicolon p x)"
  using para_simple_facts [OF assms]
    para_end_facts [where g = "\<lambda>y. y" and Q = "\<lambda>_. True" and k = "fresh_param p", OF assms]
    fresh_act [OF _ _ assms(2)]
  by (cases "pv_status x") (simp_all add: para_semicolon_def status_sets)

lemma para_backslash_act:
  assumes "para_inv K tb p x" "p < length buf" "buf ! p = CHR 0x5C"
  shows "act_ok K tb buf p (para_backslash buf p x)"
proof (cases "Suc p < length buf")
  case False
  with assms(2) have p: "length buf = Suc p" by simp
  then have "buf \<noteq> []" by auto
  with p assms(3) have "last buf = CHR 0x5C" by (simp add: last_conv_nth)
  with p \<open>buf \<noteq> []\<close> show ?thesis using para_simple_facts [OF assms(1,2)]
    by (cases "pv_status x") (simp_all add: para_backslash_def)
next
  case True
  with para_simple_facts [OF assms(1,2)] show ?thesis
    by (cases "pv_status x") (simp_all add: para_backslash_def)
qed

lemma para_quote_act:
  assumes "para_inv K tb p x" "p < length buf"
  shows "act_ok K tb buf p (para_quote p x)"
  using para_simple_facts [OF assms] para_value_facts [OF assms]
  by (cases "pv_status x") (simp_all add: para_quote_def status_sets)

lemma para_letter_act:
  assumes "para_inv K tb p x" "p < length buf"
  shows "act_ok K tb buf p (para_t p x)" "act_ok K tb buf p (para_a p x)"
    "act_ok K tb buf p (para_g p x)" "act_ok K tb buf p (para_other p x)"
  using para_simple_facts [OF assms] para_name_facts [OF assms] para_value_facts [OF assms]
  by (cases "pv_status x"; simp add: para_t_def para_a_def para_g_def para_other_def status_sets)+

lemma para_eq_act:
  assumes "para_inv K tb p x" "p < length buf"
  shows "act_ok K tb buf p (para_eq p x)"
  using para_simple_facts [OF assms] para_name_facts [OF assms]
  by (cases "pv_status x") (simp_all add: para_eq_def status_sets)

lemma para_step_act:
  assumes "para_inv K tb p x" "p < length buf"
  shows "act_ok K tb buf p (para_step buf p x)"
  using para_space_act [OF assms] para_line_act [OF assms] para_nul_act [OF assms]
    para_backslash_act [OF assms] para_quote_act [OF assms] para_semicolon_act [OF assms]
    para_letter_act [OF assms] para_eq_act [OF assms]
  by (simp add: para_step_def Let_def)

interpretation para_scan: scanning "para_step buf" "\<lambda>p x. p \<le> length buf \<and> para_inv K tb p x"
  "para_stop_ok K tb buf" "length buf"
proof
  fix p x r
  assume "p < length buf" "p \<le> length buf \<and> para_inv K tb p x" "para_step buf p x = Inl r"
  with para_step_act [of K tb p x buf] show "para_stop_ok K tb buf r" by simp
next
  fix p x q y
  assume "p < length buf" "p \<le> length buf \<and> para_inv K tb p x" "para_step buf p x = Inr (q, y)"
  with para_step_act [of K tb p x buf]
  show "p \<le> q \<and> q \<le> length buf \<and> Suc q \<le> length buf \<and> para_inv K tb (Suc q) y" by simp
qed

section \<open>What the parameter parser gives back\<close>

lemma free_params_list:
  "plist tp_next (pk_block m) h as \<Longrightarrow>
   free_params h m = Some (Inr (m\<lparr>pk_block := (pk_block m) |` (- set as)\<rparr>))"
proof (induction as arbitrary: h m)
  case Nil then show ?case by (simp add: free_params.simps)
next
  case (Cons a as)
  then obtain v where v: "h = Some a" "pk_block m a = Some v" "plist tp_next (pk_block m) (tp_next v) as"
    by auto
  from plist_distinct [OF Cons.prems] have na: "a \<notin> set as" by simp
  let ?m = "m\<lparr>pk_block := (pk_block m)(a := None)\<rparr>"
  have "plist tp_next (pk_block ?m) (tp_next v) as = plist tp_next (pk_block m) (tp_next v) as"
    by (rule plist_cong) (use na in auto)
  with v have "plist tp_next (pk_block ?m) (tp_next v) as" by simp
  from Cons.IH [OF this] have
    "free_params (tp_next v) ?m = Some (Inr (?m\<lparr>pk_block := (pk_block ?m) |` (- set as)\<rparr>))" .
  also have "?m\<lparr>pk_block := (pk_block ?m) |` (- set as)\<rparr> = m\<lparr>pk_block := (pk_block m) |` (- set (a # as))\<rparr>"
    by (rule pkg.equality) (auto simp: restrict_map_def fun_eq_iff)
  finally have "free_params (tp_next v) ?m = Some (Inr (m\<lparr>pk_block := (pk_block m) |` (- set (a # as))\<rparr>))" .
  moreover have "free_params h m = free_params (tp_next v) ?m"
    using v by (simp add: free_params.simps [of "Some a" m])
  ultimately show ?case by simp
qed

lemma to_list_free:
  assumes "to_list K p tb m as ex"
  shows "\<exists>m'. free_to_params tb m = Some (Inr m') \<and> pk_block m' = pk_block m |` (- set as) \<and>
    (ex = {} \<longrightarrow> pk_block m' = K) \<and> pk_answers m' = pk_answers m"
proof -
  from assms have "free_to_params tb m = Some (Inr (m\<lparr>pk_block := (pk_block m) |` (- set as)\<rparr>))"
    by (auto simp: free_to_params_def to_list_def intro: free_params_list)
  moreover have "pk_block m |` (- set as) = K" if "ex = {}"
  proof
    fix a
    from assms that have d: "dom (pk_block m) = dom K \<union> set as" "dom K \<inter> set as = {}"
      "\<forall>a\<in>dom K. pk_block m a = K a" by (auto simp: to_list_def)
    show "(pk_block m |` (- set as)) a = K a"
    proof (cases "a \<in> dom K")
      case True with d show ?thesis by (auto simp: restrict_map_def)
    next
      case False
      then have "a \<in> set as \<or> a \<notin> dom (pk_block m)" using d(1) by auto
      with False show ?thesis by (auto simp: restrict_map_def domIff)
    qed
  qed
  ultimately show ?thesis by simp
qed

text \<open>
  The result: with an error all that was allocated has been freed again; otherwise the list
  is there, and besides it at most one block (a parameter that was still being read).
\<close>

definition para_res_ok :: "(nat \<Rightarrow> to_param option) \<Rightarrow> to_body \<Rightarrow> string \<Rightarrow> para_res \<Rightarrow> bool" where
  "para_res_ok K tb buf r \<longleftrightarrow>
     (case r of
        None \<Rightarrow> False
      | Some (Inl f) \<Rightarrow> f = Out_of_bounds \<and> buf \<noteq> [] \<and> last buf = CHR 0x5C
      | Some (Inr (q, sv, tb', m')) \<Rightarrow>
          q \<le> Suc (length buf) \<and> (strip_to tb')\<lparr>tb_error := False\<rparr> = strip_to tb \<and>
          (if tb_error tb' then pk_block m' = K
           else q \<le> length buf \<and> foldable sv \<and>
             (\<exists>as h. to_list K (length buf) tb' m' as (set_option h))))"

lemma para_error_ok:
  assumes "some_ok K tb e x" "q \<le> Suc (length buf)" "\<not> tb_error tb"
  shows "para_res_ok K tb buf (para_error q x)"
proof -
  from assms(1) obtain st as where x: "strip_to (pv_to x) = strip_to tb"
    "to_list K e (pv_to x) (pv_mem x) as (set_option (pv_param x))"
    "\<And>a. pv_param x = Some a \<Longrightarrow> pk_block (pv_mem x) a \<noteq> None"
    unfolding some_ok_def para_ok_def by fastforce
  obtain m where m: "(case pv_param x of None \<Rightarrow> Inr (pv_mem x) | Some a \<Rightarrow> pkg_free a (pv_mem x)) = Inr m"
    "to_list K e (pv_to x) m as {}"
  proof (cases "pv_param x")
    case None with x that show thesis by simp
  next
    case (Some a)
    let ?m = "(pv_mem x)\<lparr>pk_block := (pk_block (pv_mem x))(a := None)\<rparr>"
    from x Some have na: "a \<notin> set as" "a \<notin> dom K" by (auto simp: to_list_def)
    have 1: "blocks_of (pk_block ?m) as = blocks_of (pk_block (pv_mem x)) as"
      by (rule blocks_cong) (use na in auto)
    have 2: "plist tp_next (pk_block ?m) h as = plist tp_next (pk_block (pv_mem x)) h as" for h
      by (rule plist_cong) (use na in auto)
    have 3: "\<forall>c\<in>dom K. pk_block ?m c = K c" using x(2) na by (auto simp: to_list_def)
    have 4: "pkg_ok ?m" by (rule pkg_ok_block) (use x(2) in \<open>auto simp: to_list_def\<close>)
    have 5: "dom (pk_block ?m) = dom K \<union> set as" using x(2) Some na by (auto simp: to_list_def)
    have "to_list K e (pv_to x) ?m as {}"
      using x(2) na 3 4 5 unfolding to_list_def 1 2 by simp
    moreover have "pkg_free a (pv_mem x) = Inr ?m" using x(3) [OF Some] by (auto simp: pkg_free_def)
    ultimately show thesis using that Some by simp
  qed
  from to_list_free [OF m(2)] obtain m' where "free_to_params (pv_to x) m = Some (Inr m')" "pk_block m' = K"
    by auto
  with m x(1) assms(2,3) show ?thesis
    by (auto simp: para_error_def para_res_ok_def strip_to_def)
qed

lemma para_fault_ok:
  "f = Out_of_bounds \<and> buf \<noteq> [] \<and> last buf = CHR 0x5C \<Longrightarrow> para_res_ok K tb buf (Some (Inl f))"
  by (simp add: para_res_ok_def)

lemma para_end_ok:
  assumes ok: "some_ok K tb (length buf) x" "foldable (pv_saved x)" and q: "q \<le> length buf"
    and e: "\<not> tb_error tb"
  shows "para_res_ok K tb buf (para_end q x)"
proof -
  from ok obtain st where x: "para_ok K tb (length buf) st x" by (auto simp: some_ok_def)
  have err: "tb_error (pv_to y) = tb_error tb" if "strip_to (pv_to y) = strip_to tb" for y :: para_vars
    using arg_cong [OF that, of tb_error] by (simp add: strip_to_def)
  have strip: "(strip_to (pv_to y))\<lparr>tb_error := False\<rparr> = strip_to tb"
    if "strip_to (pv_to y) = strip_to tb" for y :: para_vars
    using that e by (simp add: strip_to_def)
  have fin: "para_res_ok K tb buf (Some (Inr (q, pv_saved y, pv_to y, pv_mem y)))"
    if "para_ok K tb (length buf) s y" "foldable (pv_saved y)" for s y
  proof -
    from that(1) obtain as where t: "strip_to (pv_to y) = strip_to tb"
      and "to_list K (length buf) (pv_to y) (pv_mem y) as (set_option (pv_param y))" by (auto simp: para_ok_def)
    with err [OF t] strip [OF t] e q that(2) show ?thesis by (auto simp: para_res_ok_def)
  qed
  show ?thesis
  proof (cases "pv_param x \<noteq> None \<and> (pv_saved x = S_EQUAL \<or> pv_saved x = S_PARA_VALUE)")
    case False
    then show ?thesis using fin [OF x ok(2)] by (auto simp: para_end_def)
  next
    case True
    let ?x = "x\<lparr>pv_saved := E_PARA_VALUE\<rparr>"
    from x True have "st \<noteq> E_PARA_VALUE" by (auto simp: para_ok_def)
    from null_value_moves [of K tb "length buf" st ?x] x this obtain y where
      y: "on_param (\<lambda>tp. Inr (tp\<lparr>tp_value := null_str\<rparr>)) ?x = Inr y"
        "para_ok K tb (length buf) S_EQUAL y" "pv_saved y = E_PARA_VALUE"
      by (auto elim: movesE)
    from y(2) obtain a tp where a: "pv_param y = Some a" "pk_block (pv_mem y) a = Some tp"
      unfolding para_ok_def by fastforce
    from y(2) have "some_ok K tb (length buf) y" by (auto simp: some_ok_def)
    note E = para_error_ok [OF this le_SucI [OF q] e]
    have "S_EQUAL \<noteq> E_PARA_VALUE" by simp
    from add_param_moves [OF y(2) this] obtain z where
      z: "add_param y = Inr z" "para_ok K tb (length buf) E_PARA_VALUE z" "pv_saved z = pv_saved y"
      by (rule movesE)
    from fin [OF z(2)] z(3) y(3) have "para_res_ok K tb buf (Some (Inr (q, pv_saved z, pv_to z, pv_mem z)))"
      by (simp add: foldable_def)
    with E z a y True show ?thesis by (simp add: para_end_def)
  qed
qed

lemma parse_to_param_ok:
  assumes "pkg_ok m" "tb_param_lst tb = None" "tb_tag_value tb = null_str" "\<not> tb_error tb"
    "p \<le> length buf"
  shows "para_res_ok (pk_block m) tb buf (parse_to_param buf p tb m)"
proof -
  define x where "x = \<lparr>pv_param = None, pv_status = E_PARA_VALUE, pv_saved = E_PARA_VALUE,
    pv_to = tb, pv_mem = m\<rparr>"
  have "to_list (pk_block m) p tb m [] {}"
    using assms by (auto simp: to_list_def blocks_of_def last_tag_def pkg_ok_def)
  then have i: "p \<le> length buf \<and> para_inv (pk_block m) tb p x"
    using assms(5) by (auto simp: para_inv_def para_ok_def x_def foldable_def at_eol_def)
  show ?thesis
  proof (cases "scan (para_step buf) (length buf) p x")
    case (Inl r)
    from para_scan.scan_good [OF i _ Inl] assms(5) have "para_stop_ok (pk_block m) tb buf r" by simp
    then show ?thesis using Inl assms(4)
      by (cases r)
        (auto simp: parse_to_param_def x_def [symmetric] intro: para_end_ok para_error_ok para_fault_ok)
  next
    case (Inr z)
    obtain q y where z: "z = (q, y)" by (cases z)
    from para_scan.scan_inv [OF i _ Inr [unfolded z]] assms(5)
    have y: "q \<le> length buf" "para_inv (pk_block m) tb q y" by auto
    from y(2) have "foldable (pv_saved y)" "some_ok (pk_block m) tb (length buf) y"
      using some_okI [OF _ y(1)] by (auto simp: para_inv_def)
    from para_end_ok [OF this(2,1) _ assms(4), of q] y(1) Inr z show ?thesis
      by (simp add: parse_to_param_def x_def [symmetric])
  qed
qed

end
