(* ===== verification/To_Safe2.thy ===== *)
theory To_Safe2
  imports To_Safe Interfaces
begin

text \<open>
  Memory safety of the To header parser, continued: the status the parameter parser gives
  back, and the invariant of the part of the header before the parameters.
\<close>

section \<open>The status that comes back from the parameters\<close>

text \<open>The two states of the URI that mean more than an error to the end of a header.\<close>

definition para_st :: "to_status \<Rightarrow> bool" where
  "para_st st \<longleftrightarrow> st \<noteq> MAYBE_URI_END \<and> st \<noteq> END"

fun stop_st :: "para_vars stop \<Rightarrow> bool" where
  "stop_st (Endofheader p x) \<longleftrightarrow> para_st (pv_status x) \<and> para_st (pv_saved x)"
| "stop_st (Parse_error p x) \<longleftrightarrow> para_st (pv_status x)"
| "stop_st (Error p x) \<longleftrightarrow> para_st (pv_status x)"
| "stop_st (Fault f) \<longleftrightarrow> True"

definition st_ok :: "nat \<Rightarrow> para_act \<Rightarrow> bool" where
  "st_ok p r \<longleftrightarrow>
     (case r of Inl s \<Rightarrow> stop_st s
      | Inr (q, y) \<Rightarrow> q = p \<and> para_st (pv_status y) \<and> para_st (pv_saved y))"

lemma st_ok_simps [simp]:
  "st_ok p (Inl s) = stop_st s"
  "st_ok p (Inr (q, y)) \<longleftrightarrow> q = p \<and> para_st (pv_status y) \<and> para_st (pv_saved y)"
  by (simp_all add: st_ok_def)

definition still :: "para_vars \<Rightarrow> fault + para_vars \<Rightarrow> bool" where
  "still x m \<longleftrightarrow> (\<forall>y. m = Inr y \<longrightarrow> pv_status y = pv_status x \<and> pv_saved y = pv_saved x)"

lemma still_param: "still x (on_param f x)"
  by (auto simp: still_def on_param_def ebind_Inr_iff)

lemma still_add: "still x (add_param x)"
  by (auto simp: still_def add_param_def link_param_def ebind_Inr_iff Let_def split: if_splits)

lemma still_ops:
  "still x (is_tag x)" "still x (name_at p x)" "still x (name_end p x)" "still x (value_at p x)"
  "still x (value_end p x)" "still x (add_param x)" "still x (value_done p x)"
proof -
  show "still x (is_tag x)" "still x (name_at p x)" "still x (name_end p x)" "still x (value_at p x)"
    "still x (value_end p x)"
    by (simp_all add: is_tag_def name_at_def name_end_def value_at_def value_end_def still_param)
  show "still x (add_param x)" by (rule still_add)
  show "still x (value_done p x)"
    using still_param still_add by (auto simp: still_def value_done_def value_end_def ebind_Inr_iff)
qed

lemma st_after:
  assumes "still x m"
    and "\<And>y. pv_status y = pv_status x \<Longrightarrow> pv_saved y = pv_saved x \<Longrightarrow> st_ok p (k y)"
  shows "st_ok p (after m k)"
  using assms by (cases m) (auto simp: still_def)

lemma st_no_value:
  assumes "para_st (pv_status x)"
    "\<And>y. pv_status y = pv_status x \<Longrightarrow> pv_saved y = pv_saved x \<Longrightarrow> st_ok p (k y)"
  shows "st_ok p (no_value p k x)"
  using assms by (auto simp: no_value_def intro!: st_after [OF still_ops(4)] split: sum.splits)

lemmas st_rules = st_no_value st_after [OF still_ops(1)] st_after [OF still_ops(2)]
  st_after [OF still_ops(3)] st_after [OF still_ops(4)] st_after [OF still_ops(5)]
  st_after [OF still_ops(6)] st_after [OF still_ops(7)]

lemmas st_defs = para_on_def para_fold_def para_over_def

lemma st_fresh: "para_st (pv_status x) \<Longrightarrow> para_st (pv_saved x) \<Longrightarrow> st_ok p (fresh_param p x)"
  by (auto simp: fresh_param_def para_st_def split: prod.splits option.splits)

lemma st_chars:
  assumes "para_st (pv_status x)" "para_st (pv_saved x)"
  shows "st_ok p (para_space p x)" "st_ok p (para_lf p x)" "st_ok p (para_cr p x)"
    "st_ok p (para_nul p x)" "st_ok p (para_backslash buf p x)" "st_ok p (para_quote p x)"
    "st_ok p (para_semicolon p x)" "st_ok p (para_t p x)" "st_ok p (para_a p x)"
    "st_ok p (para_g p x)" "st_ok p (para_eq p x)" "st_ok p (para_other p x)"
proof -
  note s = assms [unfolded para_st_def] st_fresh [OF assms, of p]
  show "st_ok p (para_space p x)" "st_ok p (para_lf p x)" "st_ok p (para_cr p x)"
    "st_ok p (para_nul p x)"
    using s
    by (cases "pv_status x"; auto simp: para_space_def para_lf_def para_cr_def para_nul_def st_defs
        para_st_def intro!: st_rules)+
  show "st_ok p (para_backslash buf p x)" "st_ok p (para_quote p x)" "st_ok p (para_semicolon p x)"
    using s
    by (cases "pv_status x"; auto simp: para_backslash_def para_quote_def para_semicolon_def st_defs
        para_st_def intro!: st_rules st_fresh)+
  show "st_ok p (para_t p x)" "st_ok p (para_a p x)" "st_ok p (para_g p x)" "st_ok p (para_eq p x)"
    "st_ok p (para_other p x)"
    using s
    by (cases "pv_status x"; auto simp: para_t_def para_a_def para_g_def para_eq_def para_other_def
        st_defs para_st_def intro!: st_rules)+
qed

lemma st_step: "para_st (pv_status x) \<Longrightarrow> para_st (pv_saved x) \<Longrightarrow> st_ok p (para_step buf p x)"
  by (simp add: para_step_def Let_def st_chars)

interpretation para_status: scanning "para_step buf" "\<lambda>p x. para_st (pv_status x) \<and> para_st (pv_saved x)"
  stop_st "length buf"
proof
  fix p x r assume "para_st (pv_status x) \<and> para_st (pv_saved x)" "para_step buf p x = Inl r"
  with st_step [of x p buf] show "stop_st r" by simp
next
  fix p x q y
  assume "p < length buf" "para_st (pv_status x) \<and> para_st (pv_saved x)" "para_step buf p x = Inr (q, y)"
  with st_step [of x p buf] show "p \<le> q \<and> q \<le> length buf \<and> para_st (pv_status y) \<and> para_st (pv_saved y)"
    by simp
qed

definition res_st :: "para_res \<Rightarrow> bool" where
  "res_st r \<longleftrightarrow> (\<forall>q sv tb m. r = Some (Inr (q, sv, tb, m)) \<longrightarrow> para_st sv)"

lemma res_st_Inr [simp]: "res_st (Some (Inr (q, sv, tb, m))) = para_st sv"
  by (simp add: res_st_def)

lemma res_st_error: "para_st (pv_status x) \<Longrightarrow> res_st (para_error q x)"
  by (auto simp: res_st_def para_error_def obind_def split: option.splits sum.splits)

lemma res_st_bind: "(\<And>a. m = Some (Inr a) \<Longrightarrow> res_st (k a)) \<Longrightarrow> res_st (obind m k)"
  by (auto simp: obind_def res_st_def split: option.splits sum.splits)

lemma res_st_end:
  assumes "para_st (pv_status x)" "para_st (pv_saved x)"
  shows "res_st (para_end q x)"
proof (cases "pv_param x \<noteq> None \<and> (pv_saved x = S_EQUAL \<or> pv_saved x = S_PARA_VALUE)")
  case False
  with assms show ?thesis by (auto simp: para_end_def)
next
  case True
  have "res_st (if tp_type tp = TAG_PARAM then para_error q y
      else obind (Some (add_param y)) (\<lambda>z. Some (Inr (q, pv_saved z, pv_to z, pv_mem z))))"
    if "on_param f (x\<lparr>pv_saved := E_PARA_VALUE\<rparr>) = Inr y" for f y tp
  proof -
    from still_param [of "x\<lparr>pv_saved := E_PARA_VALUE\<rparr>" f] that assms
    have "para_st (pv_status y)" "para_st (pv_saved y)" by (auto simp: still_def para_st_def)
    with still_add [of y] show ?thesis
      by (auto simp: res_st_error still_def intro!: res_st_bind)
  qed
  with True show ?thesis by (auto simp: para_end_def intro!: res_st_bind)
qed

lemma parse_to_param_status: "res_st (parse_to_param buf p tb m)"
proof -
  define x where "x = \<lparr>pv_param = None, pv_status = E_PARA_VALUE, pv_saved = E_PARA_VALUE,
    pv_to = tb, pv_mem = m\<rparr>"
  have i: "para_st (pv_status x) \<and> para_st (pv_saved x)" by (simp add: x_def para_st_def)
  show ?thesis
  proof (cases "p \<le> Suc (length buf)")
    case False
    then show ?thesis using i by (simp add: parse_to_param_def x_def [symmetric] scan_end res_st_end)
  next
    case True
    show ?thesis
    proof (cases "scan (para_step buf) (length buf) p x")
      case (Inl r)
      from para_status.scan_good [OF i True Inl] have "stop_st r" .
      then show ?thesis using Inl
        by (cases r) (auto simp: parse_to_param_def x_def [symmetric] res_st_end res_st_error,
            simp add: res_st_def)
    next
      case (Inr z)
      obtain q y where z: "z = (q, y)" by (cases z)
      from para_status.scan_inv [OF i True Inr [unfolded z]] Inr z show ?thesis
        by (simp add: parse_to_param_def x_def [symmetric] res_st_end)
    qed
  qed
qed

section \<open>The invariant of the name and the URI\<close>

definition bufs :: "nat \<Rightarrow> cstr \<Rightarrow> bool" where
  "bufs p w \<longleftrightarrow> (\<exists>a. str_s w = Buf a \<and> a \<le> p)"

definition marked :: "nat \<Rightarrow> to_vars \<Rightarrow> cstr \<Rightarrow> bool" where
  "marked p x w \<longleftrightarrow> (\<exists>k a. tv_end_mark x = Some k \<and> str_s w = Buf a \<and> a \<le> k \<and> k \<le> p)"

definition to_strings :: "nat \<Rightarrow> to_body \<Rightarrow> bool" where
  "to_strings n tb \<longleftrightarrow> in_buf n (tb_body tb) \<and> in_buf n (tb_uri tb) \<and> in_buf n (tb_display tb)"

text \<open>By the status; behind a line end, by the status the header goes on with.\<close>

definition to_state :: "to_status \<Rightarrow> nat \<Rightarrow> to_vars \<Rightarrow> bool" where
  "to_state st p x \<longleftrightarrow> to_strings p (tv_to x) \<and>
     (if st = START_TO then tb_body (tv_to x) = null_str \<and> tb_uri (tv_to x) = null_str \<and>
        tb_display (tv_to x) = null_str
      else bufs p (tb_body (tv_to x))) \<and>
     (st = URI_OR_TOKEN \<longrightarrow> bufs p (tb_uri (tv_to x)) \<and> bufs p (tb_display (tv_to x))) \<and>
     (st = MAYBE_URI_END \<longrightarrow> marked p x (tb_uri (tv_to x)) \<and> marked p x (tb_display (tv_to x))) \<and>
     (st = DISPLAY_TOKEN \<longrightarrow> bufs p (tb_display (tv_to x))) \<and>
     (st = DISPLAY_TOKEN2 \<longrightarrow> marked p x (tb_display (tv_to x))) \<and>
     (st = DISPLAY_QUOTED \<longrightarrow> bufs p (tb_display (tv_to x)) \<and> tv_saved x = START_TO) \<and>
     (st = URI_ENCLOSED \<longrightarrow> bufs p (tb_uri (tv_to x))) \<and>
     (st \<noteq> E_URI_ENCLOSED \<and> st \<noteq> END \<longrightarrow> str_len (tb_uri (tv_to x)) = 0)"

definition to_saved :: "nat \<Rightarrow> to_vars \<Rightarrow> bool" where
  "to_saved p x \<longleftrightarrow>
     tv_saved x \<in> {START_TO, MAYBE_URI_END, DISPLAY_TOKEN, DISPLAY_TOKEN2, E_DISPLAY_QUOTED, END} \<and>
     (tv_saved x \<noteq> START_TO \<longrightarrow> bufs p (tb_body (tv_to x))) \<and>
     (tv_saved x = MAYBE_URI_END \<longrightarrow>
        tv_end_mark x \<noteq> None \<and> (\<exists>a. str_s (tb_uri (tv_to x)) = Buf a))"

text \<open>A buffer whose last character ends a line, or the string, as the callers see to.\<close>

definition line_end :: "string \<Rightarrow> bool" where
  "line_end buf \<longleftrightarrow> buf \<noteq> [] \<and> last buf \<in> {CHR 0x0A, CHR 0x0D, CHR 0x00}"

definition clean_to :: "to_body \<Rightarrow> bool" where
  "clean_to tb \<longleftrightarrow> tb_param_lst tb = None \<and> tb_tag_value tb = null_str \<and> \<not> tb_error tb"

definition to_eff :: "to_vars \<Rightarrow> to_status" where
  "to_eff x = (if at_eol (tv_status x) then tv_saved x else tv_status x)"

definition to_inv :: "to_param pkg \<Rightarrow> string \<Rightarrow> nat \<Rightarrow> to_vars \<Rightarrow> bool" where
  "to_inv m buf p x \<longleftrightarrow> tv_mem x = m \<and> clean_to (tv_to x) \<and> to_saved p x \<and> to_state (to_eff x) p x \<and>
     p \<le> Suc (length buf) \<and> (length buf < p \<longrightarrow> tv_saved x = START_TO) \<and>
     (line_end buf \<and> length buf \<le> p \<longrightarrow> at_eol (tv_status x) \<or> tv_saved x = START_TO)"

definition to_res_ok :: "to_param pkg \<Rightarrow> string \<Rightarrow> to_res \<Rightarrow> bool" where
  "to_res_ok m buf r \<longleftrightarrow>
     (case r of
        None \<Rightarrow> False
      | Some (Inl f) \<Rightarrow> f = Out_of_bounds \<and> buf \<noteq> [] \<and> last buf = CHR 0x5C
      | Some (Inr (q, tb, m')) \<Rightarrow>
          q \<le> Suc (length buf) \<and> (\<forall>a\<in>dom (pk_block m). pk_block m' a = pk_block m a) \<and>
          (\<not> tb_error tb \<longrightarrow>
             (\<exists>as h. to_list (pk_block m) (length buf) tb m' as (set_option h)) \<and>
             (line_end buf \<longrightarrow> q \<le> length buf \<and> to_strings (length buf) tb)))"

text \<open>Where a header may be ended.\<close>

definition endable :: "to_param pkg \<Rightarrow> string \<Rightarrow> nat \<Rightarrow> to_vars \<Rightarrow> bool" where
  "endable m buf p x \<longleftrightarrow> p \<le> Suc (length buf) \<and>
     (\<exists>as h. to_list (pk_block m) (length buf) (tv_to x) (tv_mem x) as (set_option h)) \<and>
     (tv_saved x = MAYBE_URI_END \<or> tv_saved x = END \<longrightarrow> (\<exists>b. str_s (tb_body (tv_to x)) = Buf b)) \<and>
     (tv_saved x = MAYBE_URI_END \<longrightarrow> tv_end_mark x \<noteq> None \<and> (\<exists>a. str_s (tb_uri (tv_to x)) = Buf a)) \<and>
     (line_end buf \<and> tv_saved x \<noteq> START_TO \<longrightarrow> p \<le> length buf \<and> to_strings (length buf) (tv_to x) \<and>
        (tv_saved x = MAYBE_URI_END \<longrightarrow> marked (length buf) x (tb_uri (tv_to x))) \<and>
        (tv_saved x = MAYBE_URI_END \<or> tv_saved x = END \<longrightarrow> bufs p (tb_body (tv_to x))))"

lemma to_list_frame:
  "to_list K p (tb\<lparr>tb_uri := u\<rparr>) m as ex = to_list K p tb m as ex"
  "to_list K p (tb\<lparr>tb_body := u\<rparr>) m as ex = to_list K p tb m as ex"
  "to_list K p (tb\<lparr>tb_display := u\<rparr>) m as ex = to_list K p tb m as ex"
  by (simp_all add: to_list_def)

lemma to_list_K: "to_list K p tb m as ex \<Longrightarrow> a \<in> dom K \<Longrightarrow> pk_block m a = K a"
  by (simp add: to_list_def)

lemma to_error_ok:
  assumes "p \<le> Suc (length buf)" "to_list (pk_block m) (length buf) (tv_to x) (tv_mem x) as ex"
  shows "to_res_ok m buf (to_error p x)"
  using assms to_list_K [OF assms(2)] by (simp add: to_res_ok_def to_error_def)

lemma to_done_ok:
  assumes "p \<le> Suc (length buf)" "to_list (pk_block m) (length buf) (tv_to x) (tv_mem x) as (set_option h)"
    "line_end buf \<longrightarrow> p \<le> length buf \<and> to_strings (length buf) (tv_to x)"
  shows "to_res_ok m buf (to_done p x)"
  using assms to_list_K [OF assms(2)] by (auto simp: to_res_ok_def to_done_def)

lemma to_end_ok:
  assumes e: "endable m buf p x"
  shows "to_res_ok m buf (to_end p x)"
proof -
  define tb where "tb = (if str_len (tb_display (tv_to x)) = 0
    then (tv_to x)\<lparr>tb_display := Str NullP (str_len (tb_display (tv_to x)))\<rparr> else tv_to x)"
  define y where "y = x\<lparr>tv_to := tb, tv_status := tv_saved x\<rparr>"
  from e obtain as h where "to_list (pk_block m) (length buf) (tv_to x) (tv_mem x) as (set_option h)"
    unfolding endable_def by blast
  then have L: "to_list (pk_block m) (length buf) tb (tv_mem x) as (set_option h)"
    by (simp add: tb_def to_list_frame)
  have p: "p \<le> Suc (length buf)" using e by (simp add: endable_def)
  have same: "tb_body tb = tb_body (tv_to x)" "tb_uri tb = tb_uri (tv_to x)"
    by (simp_all add: tb_def)
  have strs: "to_strings (length buf) tb" if "to_strings (length buf) (tv_to x)"
    using that by (simp add: tb_def to_strings_def)
  have E: "to_res_ok m buf (to_error p y)"
    by (rule to_error_ok [OF p]) (use L in \<open>simp add: y_def\<close>)
  have D: "to_res_ok m buf (to_done p (y\<lparr>tv_to := tb'\<rparr>))"
    if "tb' = tb\<lparr>tb_uri := u, tb_body := b\<rparr>"
      "line_end buf \<longrightarrow> p \<le> length buf \<and> to_strings (length buf) tb'" for tb' u b
    by (rule to_done_ok [OF p]) (use L that in \<open>simp_all add: y_def to_list_frame\<close>)
  have te: "to_end p x = (case tv_saved x of
      MAYBE_URI_END \<Rightarrow> obind (Some (uri_end_at (tv_end_mark y) y)) (\<lambda>z. obind (Some (body_end p z)) (to_done p))
    | END \<Rightarrow> obind (Some (body_end p y)) (to_done p)
    | E_PARA_VALUE \<Rightarrow> to_done p y | _ \<Rightarrow> to_error p y)"
    by (simp only: to_end_def Let_def y_def tb_def)
  consider "tv_saved x = MAYBE_URI_END" | "tv_saved x = END" | "tv_saved x = E_PARA_VALUE"
    | "tv_saved x \<noteq> MAYBE_URI_END" "tv_saved x \<noteq> END" "tv_saved x \<noteq> E_PARA_VALUE" by blast
  then show ?thesis
  proof cases
    case 1
    with e obtain b k a where b: "str_s (tb_body tb) = Buf b" "tv_end_mark x = Some k" "str_s (tb_uri tb) = Buf a"
      by (auto simp: endable_def same)
    then have "to_end p x = to_done p (y\<lparr>tv_to := tb\<lparr>tb_uri := span a k, tb_body := span b p\<rparr>\<rparr>)"
      using 1 by (simp add: te y_def uri_end_at_def body_end_def)
    moreover have "line_end buf \<longrightarrow> p \<le> length buf \<and>
        to_strings (length buf) (tb\<lparr>tb_uri := span a k, tb_body := span b p\<rparr>)"
      using e 1 b strs by (auto simp: endable_def to_strings_def marked_def bufs_def same)
    ultimately show ?thesis using D [OF refl] by simp
  next
    case 2
    with e obtain b where b: "str_s (tb_body tb) = Buf b" by (auto simp: endable_def same)
    then have "to_end p x = to_done p (y\<lparr>tv_to := tb\<lparr>tb_uri := tb_uri tb, tb_body := span b p\<rparr>\<rparr>)"
      using 2 by (simp add: te y_def body_end_def)
    moreover have "line_end buf \<longrightarrow> p \<le> length buf \<and>
        to_strings (length buf) (tb\<lparr>tb_uri := tb_uri tb, tb_body := span b p\<rparr>)"
      using e 2 b strs by (auto simp: endable_def to_strings_def bufs_def same)
    ultimately show ?thesis using D [OF refl, where u = "tb_uri tb" and b = "span b p"] by simp
  next
    case 3
    then have "to_end p x = to_done p (y\<lparr>tv_to := tb\<lparr>tb_uri := tb_uri tb, tb_body := tb_body tb\<rparr>\<rparr>)"
      by (simp add: te y_def to_done_def)
    moreover have "line_end buf \<longrightarrow> p \<le> length buf \<and>
        to_strings (length buf) (tb\<lparr>tb_uri := tb_uri tb, tb_body := tb_body tb\<rparr>)"
      using e 3 strs by (auto simp: endable_def)
    ultimately show ?thesis using D [OF refl, where u = "tb_uri tb" and b = "tb_body tb"] by simp
  next
    case 4
    with E show ?thesis unfolding te by (cases "tv_saved x") simp_all
  qed
qed

section \<open>Every character keeps it\<close>

definition to_act_ok :: "to_param pkg \<Rightarrow> string \<Rightarrow> nat \<Rightarrow> to_act \<Rightarrow> bool" where
  "to_act_ok m buf p r \<longleftrightarrow>
     (case r of Inl s \<Rightarrow> to_res_ok m buf s
      | Inr (q, y) \<Rightarrow> p \<le> q \<and> q \<le> length buf \<and> to_inv m buf (Suc q) y)"

lemma to_act_simps [simp]:
  "to_act_ok m buf p (Inl s) = to_res_ok m buf s"
  "to_act_ok m buf p (Inr (q, y)) \<longleftrightarrow> p \<le> q \<and> q \<le> length buf \<and> to_inv m buf (Suc q) y"
  by (simp_all add: to_act_ok_def)

lemma clean_list:
  assumes "clean_to tb" "pkg_ok m"
  shows "to_list (pk_block m) p tb m [] (set_option None)"
  using assms by (auto simp: clean_to_def to_list_def blocks_of_def last_tag_def pkg_ok_def)

lemma to_strings_mono: "to_strings p tb \<Longrightarrow> p \<le> q \<Longrightarrow> to_strings q tb"
  using in_buf_mono [of p _ q] by (simp add: to_strings_def)

lemma bufs_mono: "bufs p w \<Longrightarrow> p \<le> q \<Longrightarrow> bufs q w"
  by (auto simp: bufs_def)

lemma marked_mono: "marked p x w \<Longrightarrow> p \<le> q \<Longrightarrow> marked q x w"
  by (fastforce simp: marked_def)

lemma to_state_mono: "to_state st p x \<Longrightarrow> p \<le> q \<Longrightarrow> to_state st q x"
  unfolding to_state_def
  by (auto intro: to_strings_mono bufs_mono marked_mono split: if_splits)

lemma to_saved_mono: "to_saved p x \<Longrightarrow> p \<le> q \<Longrightarrow> to_saved q x"
  unfolding to_saved_def by (auto intro: bufs_mono)

text \<open>At a line end, or at the end of the buffer, the header may end.\<close>

lemma inv_endable:
  assumes inv: "to_inv m buf p x" and ok: "pkg_ok m"
    and p: "p < length buf \<and> at_eol (tv_status x) \<or> length buf \<le> p"
  shows "endable m buf p x" "endable m buf p (x\<lparr>tv_status := st\<rparr>)"
proof -
  have L: "\<exists>as h. to_list (pk_block m) (length buf) (tv_to x) (tv_mem x) as (set_option h)"
  proof -
    from inv have "clean_to (tv_to x)" "tv_mem x = m" by (simp_all add: to_inv_def)
    with clean_list [OF _ ok] show ?thesis by blast
  qed
  have S: "p \<le> length buf \<and> to_strings (length buf) (tv_to x) \<and>
      (tv_saved x = MAYBE_URI_END \<longrightarrow> marked (length buf) x (tb_uri (tv_to x))) \<and> bufs p (tb_body (tv_to x))"
    if a: "line_end buf" "tv_saved x \<noteq> START_TO"
  proof -
    have "p \<le> length buf" "at_eol (tv_status x)"
      using p inv a by (auto simp: to_inv_def)
    moreover from this(2) have "to_state (tv_saved x) p x" using inv by (simp add: to_inv_def to_eff_def)
    ultimately show ?thesis using a(2) to_strings_mono [of p "tv_to x" "length buf"]
        marked_mono [of p x _ "length buf"]
      by (auto simp: to_state_def)
  qed
  show "endable m buf p x"
    using inv L S by (auto simp: endable_def to_inv_def to_saved_def bufs_def)
  then show "endable m buf p (x\<lparr>tv_status := st\<rparr>)"
    by (simp add: endable_def marked_def)
qed

text \<open>Going on: with another status, the same, or behind a line end.\<close>

lemma last_char:
  assumes "line_end buf" "p < length buf" "length buf \<le> Suc p"
  shows "buf ! p \<in> {CHR 0x0A, CHR 0x0D, CHR 0x00}"
proof -
  from assms have "length buf = Suc p" by simp
  then have "last buf = buf ! p" using assms(2) by (subst last_conv_nth) auto
  with assms(1) show ?thesis by (simp add: line_end_def)
qed

definition plain_at :: "string \<Rightarrow> nat \<Rightarrow> bool" where
  "plain_at buf p \<longleftrightarrow> p < length buf \<and> buf ! p \<notin> {CHR 0x0A, CHR 0x0D, CHR 0x00}"

lemma plain_more: "plain_at buf p \<Longrightarrow> line_end buf \<Longrightarrow> \<not> length buf \<le> Suc p"
  using last_char [of buf p] by (auto simp: plain_at_def)

lemma state_frame [simp]:
  "to_state st q (x\<lparr>tv_status := t\<rparr>) = to_state st q x"
  "st \<noteq> DISPLAY_QUOTED \<Longrightarrow> to_state st q (x\<lparr>tv_saved := t\<rparr>) = to_state st q x"
  "to_saved q (x\<lparr>tv_status := t\<rparr>) = to_saved q x"
  by (simp_all add: to_state_def to_saved_def marked_def)

lemma inv_onI:
  assumes "tv_mem y = m" "clean_to (tv_to y)" "to_saved (Suc p) y" "to_state st (Suc p) y"
    "\<not> at_eol st" "plain_at buf p"
  shows "to_act_ok m buf p (to_on st p y)"
  using assms plain_more [OF assms(6)]
  by (auto simp: to_on_def to_inv_def to_eff_def plain_at_def)

lemma inv_foldI:
  assumes "tv_mem y = m" "clean_to (tv_to y)" "to_saved (Suc p) (y\<lparr>tv_saved := sv\<rparr>)" "to_state sv (Suc p) y"
    "at_eol st" "p < length buf" "sv \<noteq> DISPLAY_QUOTED"
  shows "to_act_ok m buf p (to_fold sv st p y)"
  using assms by (simp add: to_fold_def to_inv_def to_eff_def)

lemma inv_stay:
  assumes "to_inv m buf p x" "plain_at buf p"
  shows "to_act_ok m buf p (Inr (p, x))"
  using assms to_state_mono [of _ p x "Suc p"] to_saved_mono [of p x "Suc p"] plain_more [OF assms(2)]
  by (auto simp: to_inv_def plain_at_def)

lemma inv_error:
  assumes "to_inv m buf p x" "pkg_ok m" "p < length buf"
  shows "to_act_ok m buf p (Inl (to_error p x))"
proof -
  from assms have "clean_to (tv_to x)" "tv_mem x = m" by (simp_all add: to_inv_def)
  with clean_list [OF _ assms(2)] have "to_list (pk_block m) (length buf) (tv_to x) (tv_mem x) [] (set_option None)"
    by blast
  with to_error_ok [of p buf m x] assms(3) show ?thesis by simp
qed

lemma inv_eol:
  assumes "to_inv m buf p x" "pkg_ok m" "p < length buf" "at_eol (tv_status x)"
  shows "to_act_ok m buf p (Inl (to_end p x))"
    "to_act_ok m buf p (Inl (to_end p (x\<lparr>tv_status := st\<rparr>)))"
  using inv_endable [OF assms(1,2)] assms(3,4) by (simp_all add: to_end_ok)

text \<open>What the status gives.\<close>

lemma marked_simps [simp]:
  "marked q (x\<lparr>tv_end_mark := Some k\<rparr>) w \<longleftrightarrow> bufs k w \<and> k \<le> q"
  "marked q (x\<lparr>tv_to := t\<rparr>) w = marked q x w"
  "marked q (x\<lparr>tv_status := st\<rparr>) w = marked q x w"
  "marked q (x\<lparr>tv_saved := st\<rparr>) w = marked q x w"
  by (auto simp: marked_def bufs_def)

lemma bufs_start [simp]: "bufs q (start_str p w) \<longleftrightarrow> p \<le> q"
  by (simp add: bufs_def)

lemma in_buf_start [simp]: "str_len w = 0 \<Longrightarrow> in_buf q (start_str p w) \<longleftrightarrow> p \<le> q"
  by (simp add: start_str_def)

lemma marked_bufs: "marked p x w \<Longrightarrow> bufs p w"
  by (auto simp: marked_def bufs_def)

lemma inv_facts:
  assumes "to_inv m buf p x"
  shows "tv_mem x = m" "clean_to (tv_to x)" "to_saved (Suc p) x"
    "\<not> at_eol (tv_status x) \<Longrightarrow> to_state (tv_status x) p x \<and> to_state (tv_status x) (Suc p) x"
    "at_eol (tv_status x) \<Longrightarrow> to_state (tv_saved x) (Suc p) x"
  using assms to_saved_mono [of p x "Suc p"] to_state_mono [of _ p x "Suc p"]
  by (auto simp: to_inv_def to_eff_def)

lemma clean_strings [simp]:
  "clean_to (tb\<lparr>tb_uri := w\<rparr>) = clean_to tb" "clean_to (tb\<lparr>tb_display := w\<rparr>) = clean_to tb"
  "clean_to (tb\<lparr>tb_body := w\<rparr>) = clean_to tb"
  by (simp_all add: clean_to_def)

lemma saved_frame:
  "to_saved q x \<Longrightarrow> to_saved q (x\<lparr>tv_end_mark := Some k\<rparr>)"
  "to_saved q x \<Longrightarrow> to_saved q (x\<lparr>tv_to := (tv_to x)\<lparr>tb_display := w\<rparr>\<rparr>)"
  "to_saved q x \<Longrightarrow> to_saved q (x\<lparr>tv_to := (tv_to x)\<lparr>tb_uri := span a b\<rparr>\<rparr>)"
  "to_saved q x \<Longrightarrow> to_saved q (x\<lparr>tv_to := (tv_to x)\<lparr>tb_uri := start_str a u\<rparr>\<rparr>)"
  by (auto simp: to_saved_def)

lemma uri_end_bufs:
  assumes "bufs q (tb_uri (tv_to x))"
  shows "\<exists>a\<le>q. uri_end_at (Some k) x = Inr (x\<lparr>tv_to := (tv_to x)\<lparr>tb_uri := span a k\<rparr>\<rparr>)"
  using assms by (auto simp: bufs_def uri_end_at_def)

lemma display_end_bufs:
  assumes "bufs q (tb_display (tv_to x))"
  shows "\<exists>a\<le>q. display_end_at (Some k) x = Inr (x\<lparr>tv_to := (tv_to x)\<lparr>tb_display := span a k\<rparr>\<rparr>)"
  using assms by (auto simp: bufs_def display_end_at_def)

lemma to_after_Inr [simp]: "to_after (Inr y) k = k y"
  by (simp add: to_after_def)

lemmas to_simps = to_state_def to_strings_def saved_frame

lemma to_space_act:
  assumes inv: "to_inv m buf p x" and ok: "pkg_ok m" and p: "plain_at buf p"
  shows "to_act_ok m buf p (to_space p x)"
proof -
  note f = inv_facts [OF inv]
  have on: "to_act_ok m buf p (to_on (tv_saved x) p x)" if "at_eol (tv_status x)"
    by (rule inv_onI [OF f(1-3) f(5) [OF that] _ p])
      (use f(3) in \<open>auto simp: to_saved_def at_eol_def\<close>)
  have 1: "to_act_ok m buf p (to_on MAYBE_URI_END p (x\<lparr>tv_end_mark := Some p\<rparr>))"
    if "tv_status x = URI_OR_TOKEN"
    by (rule inv_onI [OF _ _ _ _ _ p]) (use f that in \<open>simp_all add: at_eol_def to_simps\<close>)
  have 2: "to_act_ok m buf p (to_on DISPLAY_TOKEN2 p (x\<lparr>tv_end_mark := Some p\<rparr>))"
    if "tv_status x = DISPLAY_TOKEN"
    by (rule inv_onI [OF _ _ _ _ _ p]) (use f that in \<open>simp_all add: at_eol_def to_simps\<close>)
  have 3: "to_act_ok m buf p (to_after (uri_end_at (Some p) x) (to_on E_URI_ENCLOSED p))"
    if "tv_status x = URI_ENCLOSED"
  proof -
    from f(4) that obtain a where a: "a \<le> p"
      "uri_end_at (Some p) x = Inr (x\<lparr>tv_to := (tv_to x)\<lparr>tb_uri := span a p\<rparr>\<rparr>)"
      using uri_end_bufs [of p x p] by (auto simp: at_eol_def to_state_def)
    show ?thesis unfolding a(2) to_after_Inr
      by (rule inv_onI [OF _ _ _ _ _ p]) (use f that a in \<open>simp_all add: at_eol_def to_simps\<close>)
  qed
  show ?thesis
    using on 1 2 3 inv_stay [OF inv p]
    by (cases "tv_status x") (simp_all add: to_space_def at_eol_def)
qed

definition foldable_to :: "to_status \<Rightarrow> bool" where
  "foldable_to st \<longleftrightarrow> st = MAYBE_URI_END \<or> st = DISPLAY_TOKEN \<or> st = DISPLAY_TOKEN2 \<or>
     st = E_DISPLAY_QUOTED \<or> st = END"

lemma saved_now:
  assumes "to_state st q x" "foldable_to st"
  shows "to_saved q (x\<lparr>tv_saved := st\<rparr>)"
proof -
  have "marked q x w \<Longrightarrow> tv_end_mark x \<noteq> None \<and> (\<exists>a. str_s w = Buf a)" for w
    by (auto simp: marked_def)
  moreover have "st \<noteq> START_TO" using assms(2) by (auto simp: foldable_to_def)
  ultimately show ?thesis using assms
    by (cases "st = MAYBE_URI_END") (auto simp: to_saved_def to_state_def foldable_to_def)
qed

lemma to_line_act:
  assumes inv: "to_inv m buf p x" and ok: "pkg_ok m" and p: "p < length buf"
  shows "to_act_ok m buf p (to_lf p x)" "to_act_ok m buf p (to_cr p x)"
proof -
  note f = inv_facts [OF inv]
  have fold: "to_act_ok m buf p (to_fold st g p y)"
    if "to_state st (Suc p) y" "foldable_to st" "at_eol g" "tv_mem y = m" "clean_to (tv_to y)" for st g y
    by (rule inv_foldI [OF that(4,5) saved_now [OF that(1,2)] that(1) that(3) p])
      (use that(2) in \<open>auto simp: foldable_to_def\<close>)
  have 1: "to_act_ok m buf p (to_fold MAYBE_URI_END g p (x\<lparr>tv_end_mark := Some p\<rparr>))"
    if "tv_status x = URI_OR_TOKEN" "at_eol g" for g
    by (rule fold) (use f that in \<open>simp_all add: foldable_to_def at_eol_def to_simps\<close>)
  have 2: "to_act_ok m buf p (to_fold (tv_status x) g p x)" if "foldable_to (tv_status x)" "at_eol g" for g
    by (rule fold) (use f that in \<open>auto simp: foldable_to_def at_eol_def\<close>)
  have 3: "to_act_ok m buf p (to_on F_CRLF p x)" if "tv_status x = F_CR"
    using inv f(3) f(5) p that by (simp add: to_on_def to_inv_def to_eff_def at_eol_def to_saved_def to_state_def)
  show "to_act_ok m buf p (to_lf p x)" "to_act_ok m buf p (to_cr p x)"
    using 1 [of F_LF] 1 [of F_CR] 2 [of F_LF] 2 [of F_CR] 3 inv_error [OF inv ok p] inv_eol [OF inv ok p]
    by (cases "tv_status x"; simp add: to_lf_def to_cr_def at_eol_def foldable_to_def)+
qed

lemma to_nul_act:
  assumes inv: "to_inv m buf p x" and ok: "pkg_ok m" and p: "p < length buf"
  shows "to_act_ok m buf p (to_nul p x)"
proof -
  note f = inv_facts [OF inv]
  have over: "to_act_ok m buf p (Inl (to_end p (y\<lparr>tv_saved := END, tv_status := END\<rparr>)))"
    if "to_strings p (tv_to y)" "bufs p (tb_body (tv_to y))" "tv_mem y = m" "clean_to (tv_to y)" for y
  proof -
    from clean_list [OF that(4) ok] have
      "\<exists>as h. to_list (pk_block m) (length buf) (tv_to y) (tv_mem y) as (set_option h)"
      using that(3) by blast
    then have "endable m buf p (y\<lparr>tv_saved := END, tv_status := END\<rparr>)"
      using that(1,2) p to_strings_mono [of p "tv_to y" "length buf"] by (auto simp: endable_def bufs_def)
    from to_end_ok [OF this] show ?thesis by simp
  qed
  have uri: "to_act_ok m buf p (to_after (uri_end_at (Some p) x)
      (\<lambda>y. Inl (to_end p (y\<lparr>tv_saved := END, tv_status := END\<rparr>))))"
    if "tv_status x = URI_OR_TOKEN \<or> tv_status x = MAYBE_URI_END"
  proof -
    have s: "to_strings p (tv_to x)" "bufs p (tb_body (tv_to x))" "bufs p (tb_uri (tv_to x))"
      using f(4) that by (auto simp: at_eol_def to_state_def marked_bufs)
    from uri_end_bufs [OF s(3), of p] obtain a where a: "a \<le> p"
      "uri_end_at (Some p) x = Inr (x\<lparr>tv_to := (tv_to x)\<lparr>tb_uri := span a p\<rparr>\<rparr>)" by blast
    show ?thesis unfolding a(2) to_after_Inr
      by (rule over) (use s f(1,2) a(1) in \<open>simp_all add: to_strings_def\<close>)
  qed
  have en: "to_act_ok m buf p (Inl (to_end p (x\<lparr>tv_saved := END, tv_status := END\<rparr>)))"
    if "tv_status x = END"
    by (rule over) (use f that in \<open>simp_all add: at_eol_def to_state_def\<close>)
  show ?thesis
    using uri en inv_error [OF inv ok p] by (cases "tv_status x") (simp_all add: to_nul_def)
qed

lemma to_backslash_act:
  assumes inv: "to_inv m buf p x" and ok: "pkg_ok m" and p: "p < length buf"
  shows "to_act_ok m buf p (to_backslash p x)"
proof -
  have "to_inv m buf (Suc (Suc p)) x" if "tv_status x = DISPLAY_QUOTED"
    using inv p that to_saved_mono [of p x "Suc (Suc p)"] to_state_mono [of DISPLAY_QUOTED p x "Suc (Suc p)"]
    by (simp add: to_inv_def to_eff_def at_eol_def to_state_def)
  with inv_error [OF inv ok p] p show ?thesis
    by (cases "tv_status x") (simp_all add: to_backslash_def)
qed

lemma start_saved:
  assumes "to_inv m buf p x" "tv_status x = START_TO"
  shows "tv_saved x = START_TO"
  using assms by (auto simp: to_inv_def to_eff_def at_eol_def to_state_def to_saved_def bufs_def)

lemma to_less_act:
  assumes inv: "to_inv m buf p x" and ok: "pkg_ok m" and p: "plain_at buf p"
  shows "to_act_ok m buf p (to_less p x)"
proof -
  note f = inv_facts [OF inv]
  have p': "p < length buf" using p by (simp add: plain_at_def)
  have st: "to_act_ok m buf p (to_on S_URI_ENCLOSED p
      (x\<lparr>tv_to := (tv_to x)\<lparr>tb_body := start_str p (tb_body (tv_to x))\<rparr>\<rparr>))"
    if "tv_status x = START_TO"
    by (rule inv_onI [OF _ _ _ _ _ p])
      (use f that start_saved [OF inv] in \<open>simp_all add: at_eol_def to_simps to_saved_def\<close>)
  have eq: "to_act_ok m buf p (to_on S_URI_ENCLOSED p x)" if "tv_status x = E_DISPLAY_QUOTED"
    by (rule inv_onI [OF _ _ _ _ _ p]) (use f that in \<open>simp_all add: at_eol_def to_simps\<close>)
  have nm: "to_act_ok m buf p (to_after (display_end_at (tv_end_mark y) y) (to_on S_URI_ENCLOSED p))"
    if y: "marked p y (tb_display (tv_to y))" "to_strings p (tv_to y)" "bufs p (tb_body (tv_to y))"
      "tv_mem y = m" "clean_to (tv_to y)" "to_saved (Suc p) y" "str_len (tb_uri (tv_to y)) = 0" for y
  proof -
    from y(1) obtain k a where a: "tv_end_mark y = Some k" "str_s (tb_display (tv_to y)) = Buf a" "a \<le> k" "k \<le> p"
      by (auto simp: marked_def)
    then have "display_end_at (tv_end_mark y) y = Inr (y\<lparr>tv_to := (tv_to y)\<lparr>tb_display := span a k\<rparr>\<rparr>)"
      by (simp add: display_end_at_def)
    then show ?thesis
      by (simp only: to_after_Inr, intro inv_onI [OF _ _ _ _ _ p])
        (use y a to_strings_mono [OF y(2), of "Suc p"] bufs_mono [OF y(3), of "Suc p"] in
          \<open>simp_all add: at_eol_def to_simps\<close>)
  qed
  have n1: "to_act_ok m buf p (to_after (display_end_at (tv_end_mark x) x) (to_on S_URI_ENCLOSED p))"
    if "tv_status x = DISPLAY_TOKEN2 \<or> tv_status x = MAYBE_URI_END"
    by (rule nm) (use f that in \<open>auto simp: at_eol_def to_state_def\<close>)
  have n2: "to_act_ok m buf p (to_after (display_end_at (tv_end_mark (x\<lparr>tv_end_mark := Some p\<rparr>))
      (x\<lparr>tv_end_mark := Some p\<rparr>)) (to_on S_URI_ENCLOSED p))"
    if "tv_status x = DISPLAY_TOKEN \<or> tv_status x = URI_OR_TOKEN"
    by (rule nm) (use f that in \<open>auto simp: at_eol_def to_state_def saved_frame\<close>)
  show ?thesis
    using st eq n1 n2 inv_stay [OF inv p] inv_error [OF inv ok p'] inv_eol [OF inv ok p']
    by (cases "tv_status x") (simp_all add: to_less_def at_eol_def)
qed

lemma to_greater_act:
  assumes inv: "to_inv m buf p x" and ok: "pkg_ok m" and p: "plain_at buf p"
  shows "to_act_ok m buf p (to_greater p x)"
proof -
  note f = inv_facts [OF inv]
  have p': "p < length buf" using p by (simp add: plain_at_def)
  have 1: "to_act_ok m buf p (to_on END p x)" if "tv_status x = E_URI_ENCLOSED"
    by (rule inv_onI [OF _ _ _ _ _ p]) (use f that in \<open>simp_all add: at_eol_def to_simps\<close>)
  have 2: "to_act_ok m buf p (to_after (uri_end_at (Some p) x) (to_on END p))"
    if "tv_status x = URI_ENCLOSED"
  proof -
    from f(4) that obtain a where a: "a \<le> p"
      "uri_end_at (Some p) x = Inr (x\<lparr>tv_to := (tv_to x)\<lparr>tb_uri := span a p\<rparr>\<rparr>)"
      using uri_end_bufs [of p x p] by (auto simp: at_eol_def to_state_def)
    show ?thesis unfolding a(2) to_after_Inr
      by (rule inv_onI [OF _ _ _ _ _ p]) (use f that a in \<open>simp_all add: at_eol_def to_simps\<close>)
  qed
  show ?thesis
    using 1 2 inv_stay [OF inv p] inv_error [OF inv ok p'] inv_eol [OF inv ok p']
    by (cases "tv_status x") (simp_all add: to_greater_def at_eol_def)
qed

lemma to_quote_act:
  assumes inv: "to_inv m buf p x" and ok: "pkg_ok m" and p: "plain_at buf p"
  shows "to_act_ok m buf p (to_quote p x)"
proof -
  note f = inv_facts [OF inv]
  have p': "p < length buf" using p by (simp add: plain_at_def)
  have 1: "to_act_ok m buf p (to_on DISPLAY_QUOTED p
      (x\<lparr>tv_to := (tv_to x)\<lparr>tb_body := start_str p (tb_body (tv_to x)),
         tb_display := start_str p (tb_display (tv_to x))\<rparr>\<rparr>))"
    if "tv_status x = START_TO"
    by (rule inv_onI [OF _ _ _ _ _ p])
      (use f that start_saved [OF inv] in \<open>simp_all add: at_eol_def to_simps to_saved_def\<close>)
  have 2: "to_act_ok m buf p (to_after (display_end_at (Some (Suc p)) x) (to_on E_DISPLAY_QUOTED p))"
    if "tv_status x = DISPLAY_QUOTED"
  proof -
    from f(4) that obtain a where a: "a \<le> p"
      "display_end_at (Some (Suc p)) x = Inr (x\<lparr>tv_to := (tv_to x)\<lparr>tb_display := span a (Suc p)\<rparr>\<rparr>)"
      using display_end_bufs [of p x "Suc p"] by (auto simp: at_eol_def to_state_def)
    show ?thesis unfolding a(2) to_after_Inr
      by (rule inv_onI [OF _ _ _ _ _ p]) (use f that a in \<open>simp_all add: at_eol_def to_simps\<close>)
  qed
  show ?thesis
    using 1 2 inv_error [OF inv ok p'] inv_eol [OF inv ok p']
    by (cases "tv_status x") (simp_all add: to_quote_def at_eol_def Let_def)
qed

lemma to_other_act:
  assumes inv: "to_inv m buf p x" and ok: "pkg_ok m" and p: "plain_at buf p"
  shows "to_act_ok m buf p (to_other p x)"
proof -
  note f = inv_facts [OF inv]
  have p': "p < length buf" using p by (simp add: plain_at_def)
  have 1: "to_act_ok m buf p (to_on URI_OR_TOKEN p
      (x\<lparr>tv_to := (tv_to x)\<lparr>tb_body := start_str p (tb_body (tv_to x)),
         tb_uri := start_str p (tb_uri (tv_to x)), tb_display := start_str p (tb_display (tv_to x))\<rparr>\<rparr>))"
    if "tv_status x = START_TO"
    by (rule inv_onI [OF _ _ _ _ _ p])
      (use f that start_saved [OF inv] in \<open>simp_all add: at_eol_def to_simps to_saved_def\<close>)
  have 2: "to_act_ok m buf p (to_on URI_ENCLOSED p
      (x\<lparr>tv_to := (tv_to x)\<lparr>tb_uri := start_str p (tb_uri (tv_to x))\<rparr>\<rparr>))"
    if "tv_status x = S_URI_ENCLOSED"
    by (rule inv_onI [OF _ _ _ _ _ p])
      (use f that in \<open>simp_all add: at_eol_def to_simps\<close>)
  have 3: "to_act_ok m buf p (to_on DISPLAY_TOKEN p x)"
    if "tv_status x = MAYBE_URI_END \<or> tv_status x = DISPLAY_TOKEN2"
    by (rule inv_onI [OF _ _ _ _ _ p])
      (use f that in \<open>auto simp: at_eol_def to_simps marked_bufs\<close>)
  show ?thesis
    using 1 2 3 inv_stay [OF inv p] inv_error [OF inv ok p'] inv_eol [OF inv ok p']
    by (cases "tv_status x") (simp_all add: to_other_def at_eol_def Let_def)
qed

text \<open>The parameters: their parser gives a list, or an error that is kept.\<close>

lemma to_params_ok:
  assumes ok: "pkg_ok m" and p: "p < length buf"
    and y: "to_strings p (tv_to y)" "bufs p (tb_body (tv_to y))" "tv_mem y = m" "clean_to (tv_to y)"
  shows "to_res_ok m buf (to_params buf p y)"
proof -
  from y(2) obtain b where b: "b \<le> p"
    "body_end p y = Inr (y\<lparr>tv_to := (tv_to y)\<lparr>tb_body := span b p\<rparr>\<rparr>)"
    by (auto simp: bufs_def body_end_def)
  define tb where "tb = (tv_to y)\<lparr>tb_body := span b p\<rparr>"
  have tb: "clean_to tb" "to_strings (length buf) tb"
    using y b p to_strings_mono [of p tb "length buf"] by (simp_all add: tb_def to_strings_def)
  define r where "r = parse_to_param buf p tb m"
  have R: "para_res_ok (pk_block m) tb buf r" "res_st r"
    using parse_to_param_ok [OF ok] parse_to_param_status tb(1) p by (simp_all add: r_def clean_to_def)
  have eq: "to_params buf p y = obind r (\<lambda>(q, sv, tb', m'). to_end q (y\<lparr>tv_saved := sv, tv_to := tb', tv_mem := m'\<rparr>))"
    unfolding to_params_def b(2) by (simp add: r_def tb_def y(3))
  have fin: "to_res_ok m buf (to_end q (y\<lparr>tv_saved := sv, tv_to := tb', tv_mem := m'\<rparr>))"
    if r: "r = Some (Inr (q, sv, tb', m'))" for q sv tb' m'
  proof -
    let ?y = "y\<lparr>tv_saved := sv, tv_to := tb', tv_mem := m'\<rparr>"
    have sv: "sv \<noteq> MAYBE_URI_END" "sv \<noteq> END" using R(2) r by (simp_all add: para_st_def)
    have q: "q \<le> Suc (length buf)" and strip: "(strip_to tb')\<lparr>tb_error := False\<rparr> = strip_to tb"
      using R(1) r by (simp_all add: para_res_ok_def)
    show ?thesis
    proof (cases "tb_error tb'")
      case True
      then have m': "pk_block m' = pk_block m" using R(1) r by (simp add: para_res_ok_def)
      have "\<exists>tb''. to_end q ?y = Some (Inr (q, tb'', m')) \<and> tb_error tb''"
        using sv True by (cases sv) (simp_all add: to_end_def to_done_def to_error_def Let_def)
      with m' q show ?thesis by (auto simp: to_res_ok_def)
    next
      case False
      with R(1) r obtain as h where L: "foldable sv"
        "to_list (pk_block m) (length buf) tb' m' as (set_option h)" "q \<le> length buf"
        by (auto simp: para_res_ok_def)
      have "to_strings (length buf) tb'"
        using tb(2) arg_cong [OF strip, of tb_body] arg_cong [OF strip, of tb_uri]
          arg_cong [OF strip, of tb_display] by (simp add: strip_to_def to_strings_def)
      with L sv q have "endable m buf q ?y" by (auto simp: endable_def)
      then show ?thesis by (rule to_end_ok)
    qed
  qed
  show ?thesis
  proof (cases r)
    case None with R(1) show ?thesis by (simp add: para_res_ok_def)
  next
    case (Some a)
    show ?thesis
    proof (cases a)
      case (Inl f) with Some R(1) show ?thesis by (simp add: eq para_res_ok_def to_res_ok_def)
    next
      case (Inr z) with Some fin show ?thesis by (cases z) (simp add: eq)
    qed
  qed
qed

lemma to_semicolon_act:
  assumes inv: "to_inv m buf p x" and ok: "pkg_ok m" and p: "plain_at buf p"
  shows "to_act_ok m buf p (to_semicolon buf p x)"
proof -
  note f = inv_facts [OF inv]
  have p': "p < length buf" using p by (simp add: plain_at_def)
  have en: "to_act_ok m buf p (Inl (to_params buf p x))" if "tv_status x = END"
    using to_params_ok [OF ok p'] f that by (simp add: at_eol_def to_state_def)
  have mk: "to_act_ok m buf p (to_after (uri_end_at (tv_end_mark y) y) (\<lambda>y. Inl (to_params buf p y)))"
    if y: "marked p y (tb_uri (tv_to y))" "to_strings p (tv_to y)" "bufs p (tb_body (tv_to y))"
      "tv_mem y = m" "clean_to (tv_to y)" for y
  proof -
    from y(1) obtain k a where a: "tv_end_mark y = Some k" "str_s (tb_uri (tv_to y)) = Buf a" "a \<le> k" "k \<le> p"
      by (auto simp: marked_def)
    then have "uri_end_at (tv_end_mark y) y = Inr (y\<lparr>tv_to := (tv_to y)\<lparr>tb_uri := span a k\<rparr>\<rparr>)"
      by (simp add: uri_end_at_def)
    with to_params_ok [OF ok p', of "y\<lparr>tv_to := (tv_to y)\<lparr>tb_uri := span a k\<rparr>\<rparr>"] y a
    show ?thesis by (simp add: to_strings_def)
  qed
  have m1: "to_act_ok m buf p (to_after (uri_end_at (tv_end_mark x) x) (\<lambda>y. Inl (to_params buf p y)))"
    if "tv_status x = MAYBE_URI_END"
    by (rule mk) (use f that in \<open>simp_all add: at_eol_def to_state_def\<close>)
  have m2: "to_act_ok m buf p (to_after (uri_end_at (tv_end_mark (x\<lparr>tv_end_mark := Some p\<rparr>))
      (x\<lparr>tv_end_mark := Some p\<rparr>)) (\<lambda>y. Inl (to_params buf p y)))"
    if "tv_status x = URI_OR_TOKEN"
    by (rule mk) (use f that in \<open>simp_all add: at_eol_def to_state_def\<close>)
  show ?thesis
    using en m1 m2 inv_stay [OF inv p] inv_error [OF inv ok p'] inv_eol [OF inv ok p']
    by (cases "tv_status x") (simp_all add: to_semicolon_def at_eol_def)
qed

lemma to_step_act:
  assumes "to_inv m buf p x" "pkg_ok m" "p < length buf"
  shows "to_act_ok m buf p (to_step buf p x)"
proof (cases "plain_at buf p")
  case True
  then have "buf ! p \<noteq> CHR 0x0A" "buf ! p \<noteq> CHR 0x0D" "buf ! p \<noteq> CHR 0x00"
    by (auto simp: plain_at_def)
  then show ?thesis
    using to_space_act [OF assms(1,2) True] to_backslash_act [OF assms] to_less_act [OF assms(1,2) True]
      to_greater_act [OF assms(1,2) True] to_quote_act [OF assms(1,2) True]
      to_semicolon_act [OF assms(1,2) True] to_other_act [OF assms(1,2) True]
    by (simp add: to_step_def Let_def)
next
  case False
  with assms(3) have "buf ! p \<in> {CHR 0x0A, CHR 0x0D, CHR 0x00}" by (simp add: plain_at_def)
  then show ?thesis using to_line_act [OF assms] to_nul_act [OF assms]
    by (auto simp: to_step_def Let_def)
qed

interpretation to_scan: scanning "to_step buf" "\<lambda>p x. pkg_ok m \<and> to_inv m buf p x"
  "to_res_ok m buf" "length buf"
proof
  fix p x r assume "p < length buf" "pkg_ok m \<and> to_inv m buf p x" "to_step buf p x = Inl r"
  with to_step_act [of m buf p x] show "to_res_ok m buf r" by simp
next
  fix p x q y assume "p < length buf" "pkg_ok m \<and> to_inv m buf p x" "to_step buf p x = Inr (q, y)"
  with to_step_act [of m buf p x]
  show "p \<le> q \<and> q \<le> length buf \<and> pkg_ok m \<and> to_inv m buf (Suc q) y" by simp
qed

lemma parse_to_ok:
  assumes ok: "pkg_ok m" and tb: "tb_param_lst tb = None" "tb_tag_value tb = null_str" "tb_body tb = null_str"
  shows "to_res_ok m buf (parse_to buf tb m)"
proof -
  define x where "x = \<lparr>tv_status = START_TO, tv_saved = START_TO, tv_end_mark = None,
    tv_to = tb\<lparr>tb_error := False, tb_uri := null_str, tb_display := null_str\<rparr>, tv_mem = m\<rparr>"
  have i: "pkg_ok m \<and> to_inv m buf 0 x"
    using ok tb by (simp add: to_inv_def x_def clean_to_def to_saved_def to_eff_def at_eol_def to_state_def
        to_strings_def)
  show ?thesis
  proof (cases "scan (to_step buf) (length buf) 0 x")
    case (Inl r)
    from to_scan.scan_good [OF i _ Inl] Inl show ?thesis by (simp add: parse_to_def x_def)
  next
    case (Inr z)
    obtain q y where z: "z = (q, y)" by (cases z)
    from to_scan.scan_inv [OF i _ Inr [unfolded z]] have q: "length buf \<le> q" "to_inv m buf q y" by auto
    from to_end_ok [OF inv_endable(1) [OF q(2) ok]] q(1) Inr z show ?thesis
      by (simp add: parse_to_def x_def)
  qed
qed

end
