(* ===== verification/To_Params.thy ===== *)
theory To_Params
  imports To_Safe2
begin

text \<open>
  What the parameter parser makes of a well formed list of parameters: the parameters
  themselves, in order, as one linked list. The state between two parameters, and the way a
  parameter's text moves it to the next, character by character.
\<close>

section \<open>The text of a parameter\<close>

datatype pvalue = No_value | Token string | Quoted string

type_synonym ptext = "string \<times> pvalue"

fun value_text :: "pvalue \<Rightarrow> string" where
  "value_text No_value = []"
| "value_text (Token t) = CHR ''='' # t"
| "value_text (Quoted t) = CHR ''='' # CHR 0x22 # t @ [CHR 0x22]"

fun value_bytes :: "pvalue \<Rightarrow> string" where
  "value_bytes No_value = []"
| "value_bytes (Token t) = t"
| "value_bytes (Quoted t) = t"

definition param_text :: "ptext \<Rightarrow> string" where
  "param_text nv = CHR '';'' # fst nv @ value_text (snd nv)"

definition tok_char :: "char \<Rightarrow> bool" where
  "tok_char c \<longleftrightarrow> c \<notin> {CHR 0x20, CHR 0x09, CHR 0x0A, CHR 0x0D, CHR 0x00, CHR 0x5C, CHR 0x22,
     CHR '';'', CHR ''=''}"

definition quoted_char :: "char \<Rightarrow> bool" where
  "quoted_char c \<longleftrightarrow> c \<notin> {CHR 0x0A, CHR 0x0D, CHR 0x00, CHR 0x5C, CHR 0x22}"

text \<open>The automaton for the name \<open>tag\<close> in any case.\<close>

definition name_next :: "to_status \<Rightarrow> char \<Rightarrow> to_status" where
  "name_next st c =
     (if st = S_PARA_NAME \<and> c \<in> {CHR ''t'', CHR ''T''} then TAG1
      else if st = TAG1 \<and> c \<in> {CHR ''a'', CHR ''A''} then TAG2
      else if st = TAG2 \<and> c \<in> {CHR ''g'', CHR ''G''} then TAG3
      else PARA_NAME)"

definition name_status :: "string \<Rightarrow> to_status" where
  "name_status n = foldl name_next S_PARA_NAME n"

definition name_type :: "string \<Rightarrow> to_param_type" where
  "name_type n = (if name_status n = TAG3 then TAG_PARAM else GENERAL_PARAM)"

text \<open>
  Well formed: a name, a value of token characters or in quotes; a parameter without a value
  is not \<open>tag\<close>, and, as the code has it, neither of its beginnings \<open>t\<close> and \<open>ta\<close>.
\<close>

definition param_ok :: "ptext \<Rightarrow> bool" where
  "param_ok nv \<longleftrightarrow> fst nv \<noteq> [] \<and> list_all tok_char (fst nv) \<and>
     (case snd nv of
        No_value \<Rightarrow> name_status (fst nv) = PARA_NAME
      | Token t \<Rightarrow> t \<noteq> [] \<and> list_all tok_char t
      | Quoted t \<Rightarrow> list_all quoted_char t)"

type_synonym pview = "to_param_type \<times> string \<times> string"

definition param_view :: "string \<Rightarrow> to_param \<Rightarrow> pview" where
  "param_view buf tp = (tp_type tp, str_bytes buf (tp_name tp), str_bytes buf (tp_value tp))"

definition text_view :: "ptext \<Rightarrow> pview" where
  "text_view nv = (name_type (fst nv), fst nv, value_bytes (snd nv))"

section \<open>States\<close>

text \<open>
  The list \<open>as\<close> that shows the views \<open>vs\<close>, the allocator's answers still to come, and nothing
  else allocated but \<open>ex\<close>; then with no parameter under construction, and with one.
\<close>

definition held :: "(nat \<Rightarrow> to_param option) \<Rightarrow> to_body \<Rightarrow> string \<Rightarrow> nat \<Rightarrow> nat list \<Rightarrow> pview list \<Rightarrow>
    nat option list \<Rightarrow> nat set \<Rightarrow> para_vars \<Rightarrow> bool" where
  "held K tb buf p as vs ans ex x \<longleftrightarrow> strip_to (pv_to x) = strip_to tb \<and>
     to_list K p (pv_to x) (pv_mem x) as ex \<and>
     map (param_view buf) (blocks_of (pk_block (pv_mem x)) as) = vs \<and> pk_answers (pv_mem x) = ans"

definition idle :: "(nat \<Rightarrow> to_param option) \<Rightarrow> to_body \<Rightarrow> string \<Rightarrow> nat \<Rightarrow> nat list \<Rightarrow> pview list \<Rightarrow>
    nat option list \<Rightarrow> para_vars \<Rightarrow> bool" where
  "idle K tb buf p as vs ans x \<longleftrightarrow> held K tb buf p as vs ans {} x \<and> pv_param x = None"

definition busy :: "(nat \<Rightarrow> to_param option) \<Rightarrow> to_body \<Rightarrow> string \<Rightarrow> nat \<Rightarrow> nat list \<Rightarrow> pview list \<Rightarrow>
    nat option list \<Rightarrow> nat \<Rightarrow> to_param \<Rightarrow> para_vars \<Rightarrow> bool" where
  "busy K tb buf p as vs ans a tp x \<longleftrightarrow> held K tb buf p as vs ans {a} x \<and> pv_param x = Some a \<and>
     pk_block (pv_mem x) a = Some tp \<and> tp_next tp = None"

lemma held_frame [simp]:
  "held K tb buf p as vs ans ex (x\<lparr>pv_status := st\<rparr>) = held K tb buf p as vs ans ex x"
  "held K tb buf p as vs ans ex (x\<lparr>pv_saved := st\<rparr>) = held K tb buf p as vs ans ex x"
  by (simp_all add: held_def)

lemma value_state_frame [simp]:
  "idle K tb buf p as vs ans (x\<lparr>pv_status := st\<rparr>) = idle K tb buf p as vs ans x"
  "idle K tb buf p as vs ans (x\<lparr>pv_saved := st\<rparr>) = idle K tb buf p as vs ans x"
  "busy K tb buf p as vs ans a tp (x\<lparr>pv_status := st\<rparr>) = busy K tb buf p as vs ans a tp x"
  "busy K tb buf p as vs ans a tp (x\<lparr>pv_saved := st\<rparr>) = busy K tb buf p as vs ans a tp x"
  by (simp_all add: idle_def busy_def)

lemma held_mono: "held K tb buf p as vs ans ex x \<Longrightarrow> p \<le> q \<Longrightarrow> held K tb buf q as vs ans ex x"
  using to_list_mono by (auto simp: held_def)

lemma busy_mono: "busy K tb buf p as vs ans a tp x \<Longrightarrow> p \<le> q \<Longrightarrow> busy K tb buf q as vs ans a tp x"
  using held_mono by (auto simp: busy_def)

lemma idle_mono: "idle K tb buf p as vs ans x \<Longrightarrow> p \<le> q \<Longrightarrow> idle K tb buf q as vs ans x"
  using held_mono by (auto simp: idle_def)

lemma busy_put:
  assumes "busy K tb buf p as vs ans a tp x" "f tp = Inr w" "tp_next w = None"
  shows "\<exists>y. on_param f x = Inr y \<and> busy K tb buf p as vs ans a w y \<and> pv_status y = pv_status x \<and>
    pv_saved y = pv_saved x"
proof -
  from assms(1) have b: "pv_param x = Some a" "pk_block (pv_mem x) a = Some tp"
    "strip_to (pv_to x) = strip_to tb" "to_list K p (pv_to x) (pv_mem x) as {a}"
    "map (param_view buf) (blocks_of (pk_block (pv_mem x)) as) = vs" "pk_answers (pv_mem x) = ans"
    by (auto simp: busy_def held_def)
  from b(4) have "a \<notin> set as" by (auto simp: to_list_def)
  then have "blocks_of ((pk_block (pv_mem x))(a \<mapsto> w)) as = blocks_of (pk_block (pv_mem x)) as"
    by (intro blocks_cong) auto
  with b assms(2,3) to_list_put [OF b(4), of w] show ?thesis
    by (auto simp: on_param_def busy_def held_def)
qed

lemma core_view: "param_core v = param_core w \<Longrightarrow> param_view buf v = param_view buf w"
  by (simp add: param_core_def param_view_def)

lemma cores_views:
  assumes "map param_core vs = map param_core ws"
  shows "map (param_view buf) vs = map (param_view buf) ws"
proof -
  define g where "g = (\<lambda>(t :: to_param_type, n, w). (t, str_bytes buf n, str_bytes buf w))"
  have "param_view buf = g \<circ> param_core"
    by (rule ext) (simp add: g_def param_core_def param_view_def)
  then have eq: "map (param_view buf) us = map g (map param_core us)" for us by simp
  show ?thesis unfolding eq assms ..
qed

lemma busy_add:
  assumes "busy K tb buf p as vs ans a tp x" "in_buf p (tp_name tp)" "in_buf p (tp_value tp)"
  shows "\<exists>y. add_param x = Inr y \<and> idle K tb buf p (as @ [a]) (vs @ [param_view buf tp]) ans y \<and>
    pv_status y = pv_status x \<and> pv_saved y = pv_saved x"
proof -
  from assms(1) have b: "pv_param x = Some a" "to_list K p (pv_to x) (pv_mem x) as {a}"
    "pk_block (pv_mem x) a = Some tp" "tp_next tp = None"
    "strip_to (pv_to x) = strip_to tb" "pk_answers (pv_mem x) = ans"
    "map (param_view buf) (blocks_of (pk_block (pv_mem x)) as) = vs"
    by (auto simp: busy_def held_def)
  from add_param_list [OF b(1-4) assms(2,3)] obtain y where y: "add_param x = Inr y" "pv_param y = None"
    "pv_status y = pv_status x" "pv_saved y = pv_saved x" "strip_to (pv_to y) = strip_to (pv_to x)"
    "to_list K p (pv_to y) (pv_mem y) (as @ [a]) {}" "pk_answers (pv_mem y) = pk_answers (pv_mem x)"
    "map param_core (blocks_of (pk_block (pv_mem y)) (as @ [a])) =
      map param_core (blocks_of (pk_block (pv_mem x)) as) @ [param_core tp]" by blast
  from y(8) have "map param_core (blocks_of (pk_block (pv_mem y)) (as @ [a])) =
      map param_core (blocks_of (pk_block (pv_mem x)) as @ [tp])" by simp
  from cores_views [OF this, of buf] b(7)
  have "map (param_view buf) (blocks_of (pk_block (pv_mem y)) (as @ [a])) = vs @ [param_view buf tp]" by simp
  with y b show ?thesis by (auto simp: idle_def held_def)
qed

lemma idle_fresh:
  assumes "idle K tb buf p as vs (Some a # ans) x"
  shows "\<exists>y. fresh_param p x = Inr (p, y) \<and> busy K tb buf p as vs ans a new_param y \<and>
    pv_status y = S_PARA_NAME"
proof -
  have m: "pkg_malloc new_param (pv_mem x) =
      (Some a, (pv_mem x)\<lparr>pk_block := (pk_block (pv_mem x))(a \<mapsto> new_param), pk_answers := ans\<rparr>)"
    using assms by (simp add: idle_def held_def pkg_malloc_def)
  from assms have "to_list K p (pv_to x) (pv_mem x) as {}" by (simp add: idle_def held_def)
  note to_list_new [OF this m]
  moreover have "tp_next new_param = None" by (simp add: new_param_def)
  ultimately show ?thesis using assms
    by (auto simp: fresh_param_def m idle_def busy_def held_def)
qed

section \<open>Reading a name and a value\<close>

abbreviation para_loop :: "string \<Rightarrow> nat \<Rightarrow> para_vars \<Rightarrow> para_vars stop + nat \<times> para_vars" where
  "para_loop buf p x \<equiv> scan (para_step buf) (length buf) p x"

lemmas loop_on = scan_on [where body = "para_step buf" and e = "length buf" for buf]
lemmas loop_stop = scan_stop [where body = "para_step buf" and e = "length buf" for buf]

lemma para_step_tok:
  assumes "tok_char (buf ! p)"
  shows "in_name (pv_status x) \<Longrightarrow>
      para_step buf p x = Inr (p, x\<lparr>pv_status := name_next (pv_status x) (buf ! p)\<rparr>)"
    "pv_status x = S_PARA_NAME \<Longrightarrow>
      para_step buf p x = after (name_at p x) (para_on (name_next S_PARA_NAME (buf ! p)) p)"
    "pv_status x = S_PARA_VALUE \<Longrightarrow>
      para_step buf p x = after (value_at p x) (para_on PARA_VALUE_TOKEN p)"
    "pv_status x = PARA_VALUE_TOKEN \<Longrightarrow> para_step buf p x = Inr (p, x)"
proof -
  note chars = assms [unfolded tok_char_def]
  have same: "x\<lparr>pv_status := PARA_NAME\<rparr> = x" if "pv_status x = PARA_NAME" using that by simp
  show "para_step buf p x = Inr (p, x\<lparr>pv_status := name_next (pv_status x) (buf ! p)\<rparr>)"
    if "in_name (pv_status x)"
    using chars that same
    by (auto simp: para_step_def Let_def in_name_def name_next_def para_t_def para_a_def para_g_def
        para_other_def para_on_def)
  show "para_step buf p x = after (name_at p x) (para_on (name_next S_PARA_NAME (buf ! p)) p)"
    if "pv_status x = S_PARA_NAME"
    using chars that
    by (simp add: para_step_def Let_def name_next_def para_t_def para_a_def para_g_def para_other_def)
  show "para_step buf p x = after (value_at p x) (para_on PARA_VALUE_TOKEN p)"
    if "pv_status x = S_PARA_VALUE"
    using chars that
    by (simp add: para_step_def Let_def para_t_def para_a_def para_g_def para_other_def)
  show "para_step buf p x = Inr (p, x)" if "pv_status x = PARA_VALUE_TOKEN"
    using chars that
    by (simp add: para_step_def Let_def para_t_def para_a_def para_g_def para_other_def)
qed

lemma para_step_quoted:
  assumes "quoted_char (buf ! p)" "pv_status x = PARA_VALUE_QUOTED"
  shows "para_step buf p x = Inr (p, x)"
  using assms
  by (simp add: para_step_def Let_def quoted_char_def para_space_def para_semicolon_def para_eq_def
      para_t_def para_a_def para_g_def para_other_def)

lemma name_next_in: "in_name (name_next st c)"
  by (simp add: name_next_def in_name_def)

lemma scan_name:
  assumes "list_all tok_char n" "stands buf p n" "in_name (pv_status x)"
  shows "para_loop buf p x =
    para_loop buf (p + length n) (x\<lparr>pv_status := foldl name_next (pv_status x) n\<rparr>)"
  using assms
proof (induction n arbitrary: p x)
  case (Cons c n)
  from Cons.prems have c: "p < length buf" "buf ! p = c" "tok_char c" "stands buf (Suc p) n"
    by (auto simp: stands_Cons)
  let ?x = "x\<lparr>pv_status := name_next (pv_status x) c\<rparr>"
  have "para_step buf p x = Inr (p, ?x)" using para_step_tok(1) [of buf p x] c Cons.prems(3) by simp
  from loop_on [OF c(1) this] Cons.IH [OF _ c(4), of ?x] Cons.prems(1) name_next_in
  show ?case by simp
qed simp

lemma scan_token:
  assumes "list_all tok_char t" "stands buf p t" "pv_status x = PARA_VALUE_TOKEN"
  shows "para_loop buf p x = para_loop buf (p + length t) x"
proof (rule scan_same)
  show "p + length t \<le> length buf" using assms(2) by (simp add: stands_def)
  fix i assume "p \<le> i" "i < p + length t"
  with assms(1) stands_mem [OF assms(2)] have "tok_char (buf ! i)" by (simp add: list_all_iff)
  with assms(3) show "para_step buf i x = Inr (i, x)" by (simp add: para_step_tok)
qed simp

lemma scan_quoted:
  assumes "list_all quoted_char t" "stands buf p t" "pv_status x = PARA_VALUE_QUOTED"
  shows "para_loop buf p x = para_loop buf (p + length t) x"
proof (rule scan_same)
  show "p + length t \<le> length buf" using assms(2) by (simp add: stands_def)
  fix i assume "p \<le> i" "i < p + length t"
  with assms(1) stands_mem [OF assms(2)] have "quoted_char (buf ! i)" by (simp add: list_all_iff)
  with assms(3) show "para_step buf i x = Inr (i, x)" by (simp add: para_step_quoted)
qed simp

text \<open>
  A parameter as it stands after its text: complete behind a closing quote, otherwise still
  open, its value (or its name, when there is none) ending where the next character is.
\<close>

definition after_param :: "(nat \<Rightarrow> to_param option) \<Rightarrow> to_body \<Rightarrow> string \<Rightarrow> nat \<Rightarrow> nat list \<Rightarrow> pview list \<Rightarrow>
    nat option list \<Rightarrow> para_vars \<Rightarrow> bool" where
  "after_param K tb buf p as vs ans x \<longleftrightarrow>
     (pv_status x = E_PARA_VALUE \<and> idle K tb buf p as vs ans x) \<or>
     (\<exists>as' vs' a tp s. as = as' @ [a] \<and> busy K tb buf p as' vs' ans a tp x \<and> in_buf p (tp_name tp) \<and>
        pv_status x = PARA_VALUE_TOKEN \<and> str_s (tp_value tp) = Buf s \<and> s \<le> p \<and>
        vs = vs' @ [(tp_type tp, str_bytes buf (tp_name tp), str_bytes buf (span s p))]) \<or>
     (\<exists>as' vs' a tp s. as = as' @ [a] \<and> busy K tb buf p as' vs' ans a tp x \<and>
        pv_status x = PARA_NAME \<and> tp_type tp = GENERAL_PARAM \<and> str_s (tp_name tp) = Buf s \<and> s \<le> p \<and>
        tp_value tp = null_str \<and> vs = vs' @ [(GENERAL_PARAM, str_bytes buf (span s p), [])])"

lemma busy_ops:
  assumes b: "busy K tb buf p as vs ans a tp x"
  shows "str_s (tp_value tp) = Buf s \<Longrightarrow> \<exists>y. value_end q x = Inr y \<and>
      busy K tb buf p as vs ans a (tp\<lparr>tp_value := span s q\<rparr>) y \<and> pv_status y = pv_status x \<and> pv_saved y = pv_saved x"
    "str_s (tp_name tp) = Buf s \<Longrightarrow> \<exists>y. name_end q x = Inr y \<and>
      busy K tb buf p as vs ans a (tp\<lparr>tp_name := span s q\<rparr>) y \<and> pv_status y = pv_status x \<and> pv_saved y = pv_saved x"
    "\<exists>y. value_at q x = Inr y \<and> busy K tb buf p as vs ans a (tp\<lparr>tp_value := start_str q (tp_value tp)\<rparr>) y \<and>
      pv_status y = pv_status x \<and> pv_saved y = pv_saved x"
    "\<exists>y. name_at q x = Inr y \<and> busy K tb buf p as vs ans a (tp\<lparr>tp_name := start_str q (tp_name tp)\<rparr>) y \<and>
      pv_status y = pv_status x \<and> pv_saved y = pv_saved x"
    "\<exists>y. is_tag x = Inr y \<and> busy K tb buf p as vs ans a (tp\<lparr>tp_type := TAG_PARAM\<rparr>) y \<and>
      pv_status y = pv_status x \<and> pv_saved y = pv_saved x"
    "\<exists>y. on_param (\<lambda>tp. Inr (tp\<lparr>tp_value := null_str\<rparr>)) x = Inr y \<and>
      busy K tb buf p as vs ans a (tp\<lparr>tp_value := null_str\<rparr>) y \<and> pv_status y = pv_status x \<and> pv_saved y = pv_saved x"
proof -
  have n: "tp_next tp = None" using b by (simp add: busy_def)
  show "\<exists>y. value_end q x = Inr y \<and> busy K tb buf p as vs ans a (tp\<lparr>tp_value := span s q\<rparr>) y \<and>
      pv_status y = pv_status x \<and> pv_saved y = pv_saved x" if "str_s (tp_value tp) = Buf s"
    unfolding value_end_def by (rule busy_put [OF b]) (use that n in \<open>simp_all add: end_str_def span_def\<close>)
  show "\<exists>y. name_end q x = Inr y \<and> busy K tb buf p as vs ans a (tp\<lparr>tp_name := span s q\<rparr>) y \<and>
      pv_status y = pv_status x \<and> pv_saved y = pv_saved x" if "str_s (tp_name tp) = Buf s"
    unfolding name_end_def by (rule busy_put [OF b]) (use that n in \<open>simp_all add: end_str_def span_def\<close>)
  show "\<exists>y. value_at q x = Inr y \<and> busy K tb buf p as vs ans a (tp\<lparr>tp_value := start_str q (tp_value tp)\<rparr>) y \<and>
      pv_status y = pv_status x \<and> pv_saved y = pv_saved x"
    unfolding value_at_def using b n by (intro busy_put) simp_all
  show "\<exists>y. name_at q x = Inr y \<and> busy K tb buf p as vs ans a (tp\<lparr>tp_name := start_str q (tp_name tp)\<rparr>) y \<and>
      pv_status y = pv_status x \<and> pv_saved y = pv_saved x"
    unfolding name_at_def using b n by (intro busy_put) simp_all
  show "\<exists>y. is_tag x = Inr y \<and> busy K tb buf p as vs ans a (tp\<lparr>tp_type := TAG_PARAM\<rparr>) y \<and>
      pv_status y = pv_status x \<and> pv_saved y = pv_saved x"
    unfolding is_tag_def using b n by (intro busy_put) simp_all
  show "\<exists>y. on_param (\<lambda>tp. Inr (tp\<lparr>tp_value := null_str\<rparr>)) x = Inr y \<and>
      busy K tb buf p as vs ans a (tp\<lparr>tp_value := null_str\<rparr>) y \<and> pv_status y = pv_status x \<and> pv_saved y = pv_saved x"
    using b n by (intro busy_put) simp_all
qed

lemma busy_addE:
  assumes "busy K tb buf p as vs ans a tp x" "in_buf p (tp_name tp)" "in_buf p (tp_value tp)"
  obtains y where "add_param x = Inr y" "idle K tb buf p (as @ [a]) (vs @ [param_view buf tp]) ans y"
    "pv_status y = pv_status x" "pv_saved y = pv_saved x"
  using busy_add [OF assms] by blast

lemma busy_next: "busy K tb buf p as vs ans a tp x \<Longrightarrow> tp_next tp = None"
  by (simp add: busy_def)

text \<open>The next parameter begins.\<close>

lemma after_semicolon:
  assumes ap: "after_param K tb buf p as vs (Some a # ans) x"
    and p: "p < length buf" "buf ! p = CHR '';''"
  shows "\<exists>y. para_loop buf p x = para_loop buf (Suc p) y \<and> pv_status y = S_PARA_NAME \<and>
    busy K tb buf (Suc p) as vs ans a new_param y"
proof -
  have "\<exists>y. para_semicolon p x = Inr (p, y) \<and> pv_status y = S_PARA_NAME \<and>
      busy K tb buf p as vs ans a new_param y"
    using ap unfolding after_param_def
  proof (elim disjE exE conjE)
    assume "pv_status x = E_PARA_VALUE" "idle K tb buf p as vs (Some a # ans) x"
    with idle_fresh [of K tb buf p as vs a ans x] show ?thesis by (auto simp: para_semicolon_def)
  next
    fix as' vs' b tp s
    assume c: "as = as' @ [b]" "busy K tb buf p as' vs' (Some a # ans) b tp x" "in_buf p (tp_name tp)"
      "pv_status x = PARA_VALUE_TOKEN" "str_s (tp_value tp) = Buf s" "s \<le> p"
      "vs = vs' @ [(tp_type tp, str_bytes buf (tp_name tp), str_bytes buf (span s p))]"
    let ?tp = "tp\<lparr>tp_value := span s p\<rparr>"
    from busy_ops(1) [OF c(2,5), of p] obtain y where
      y: "value_end p x = Inr y" "busy K tb buf p as' vs' (Some a # ans) b ?tp y" by blast
    obtain z where z: "add_param y = Inr z" "idle K tb buf p (as' @ [b]) (vs' @ [param_view buf ?tp]) (Some a # ans) z"
      by (rule busy_addE [OF y(2)]) (use c(3,6) in simp_all)
    from idle_fresh [OF z(2)] c y(1) z(1) show ?thesis
      by (auto simp: para_semicolon_def value_done_def param_view_def)
  next
    fix as' vs' b tp s
    assume c: "as = as' @ [b]" "busy K tb buf p as' vs' (Some a # ans) b tp x"
      "pv_status x = PARA_NAME" "tp_type tp = GENERAL_PARAM" "str_s (tp_name tp) = Buf s" "s \<le> p"
      "tp_value tp = null_str" "vs = vs' @ [(GENERAL_PARAM, str_bytes buf (span s p), [])]"
    let ?t1 = "tp\<lparr>tp_name := span s p\<rparr>" and ?t2 = "tp\<lparr>tp_name := span s p, tp_value := start_str p null_str\<rparr>"
      and ?t3 = "tp\<lparr>tp_name := span s p, tp_value := span p p\<rparr>"
    from busy_ops(2) [OF c(2,5), of p] obtain y1 where
      y1: "name_end p x = Inr y1" "busy K tb buf p as' vs' (Some a # ans) b ?t1 y1" by blast
    from busy_ops(3) [OF y1(2), of p] c(7) obtain y2 where
      y2: "value_at p y1 = Inr y2" "busy K tb buf p as' vs' (Some a # ans) b ?t2 y2" by auto
    from busy_ops(1) [OF y2(2), of p p] obtain y3 where
      y3: "value_end p y2 = Inr y3" "busy K tb buf p as' vs' (Some a # ans) b ?t3 y3" by auto
    obtain z where z: "add_param y3 = Inr z" "idle K tb buf p (as' @ [b]) (vs' @ [param_view buf ?t3]) (Some a # ans) z"
      by (rule busy_addE [OF y3(2)]) (use c(6) in simp_all)
    have g: "pkg_get (pv_param y1) (pv_mem y1) = Inr ?t1" using y1(2) by (simp add: busy_def)
    have v: "param_view buf ?t3 = (GENERAL_PARAM, str_bytes buf (span s p), [])"
      using c(4) by (simp add: param_view_def span_def)
    from idle_fresh [OF z(2)] c(1,3,4,8) y1(1) y2(1) y3(1) z(1) g v show ?thesis
      by (auto simp: para_semicolon_def value_done_def no_value_def)
  qed
  then obtain y where y: "para_semicolon p x = Inr (p, y)" "pv_status y = S_PARA_NAME"
    "busy K tb buf p as vs ans a new_param y" by blast
  have "para_step buf p x = Inr (p, y)" using y(1) p(2) by (simp add: para_step_def)
  from loop_on [OF p(1) this] y busy_mono [OF y(3), of "Suc p"] show ?thesis by auto
qed

text \<open>A name and a value bring the parameter into the state behind it.\<close>

lemma name_status_in: "n \<noteq> [] \<Longrightarrow> in_name (name_status n)"
  using name_next_in by (cases n rule: rev_cases) (auto simp: name_status_def)

lemma scan_equals:
  assumes x: "busy K tb buf p as vs ans a tp x" "in_name (pv_status x)" "str_s (tp_name tp) = Buf s"
    and p: "p < length buf" "buf ! p = CHR ''=''"
  shows "\<exists>y. para_loop buf p x = para_loop buf (Suc p) y \<and> pv_status y = S_PARA_VALUE \<and>
    busy K tb buf (Suc p) as vs ans a
      (tp\<lparr>tp_type := (if pv_status x = TAG3 then TAG_PARAM else tp_type tp), tp_name := span s p\<rparr>) y"
proof -
  let ?t = "tp\<lparr>tp_type := (if pv_status x = TAG3 then TAG_PARAM else tp_type tp)\<rparr>"
  obtain x1 where x1: "(if pv_status x = TAG3 then is_tag x else Inr x) = Inr x1"
    "busy K tb buf p as vs ans a ?t x1"
    using busy_ops(5) [OF x(1)] x(1) by (cases "pv_status x = TAG3") auto
  have "str_s (tp_name ?t) = Buf s" using x(3) by simp
  from busy_ops(2) [OF x1(2) this, of p] obtain y where y: "name_end p x1 = Inr y"
    "busy K tb buf p as vs ans a (?t\<lparr>tp_name := span s p\<rparr>) y" by blast
  have "para_eq p x = Inr (p, y\<lparr>pv_status := S_PARA_VALUE\<rparr>)"
    using x(2) x1(1) y(1) by (auto simp: para_eq_def in_name_def para_on_def)
  then have "para_step buf p x = Inr (p, y\<lparr>pv_status := S_PARA_VALUE\<rparr>)"
    using p(2) by (simp add: para_step_def)
  from loop_on [OF p(1) this] busy_mono [OF y(2), of "Suc p"] show ?thesis by auto
qed

text \<open>A name, then a name with its equals sign, then an opened quoted value.\<close>

lemma new_sel [simp]:
  "tp_name new_param = null_str" "tp_value new_param = null_str" "tp_type new_param = GENERAL_PARAM"
  by (simp_all add: new_param_def)

definition name_chars :: "string \<Rightarrow> bool" where
  "name_chars n \<longleftrightarrow> n \<noteq> [] \<and> list_all tok_char n"

lemma scan_name_only:
  assumes b: "busy K tb buf p as vs ans a new_param x" "pv_status x = S_PARA_NAME"
    and n: "name_chars n" "stands buf p n"
  shows "\<exists>y. para_loop buf p x = para_loop buf (p + length n) y \<and> pv_status y = name_status n \<and>
    pv_saved y = pv_saved x \<and>
    busy K tb buf (p + length n) as vs ans a (new_param\<lparr>tp_name := start_str p null_str\<rparr>) y"
proof -
  from n obtain c n' where c: "n = c # n'" "tok_char c" "list_all tok_char n'" "p < length buf"
    "buf ! p = c" "stands buf (Suc p) n'"
    by (cases n) (auto simp: name_chars_def stands_Cons)
  from busy_ops(4) [OF b(1), of p] obtain y where y: "name_at p x = Inr y"
    "busy K tb buf p as vs ans a (new_param\<lparr>tp_name := start_str p null_str\<rparr>) y" "pv_saved y = pv_saved x"
    by auto
  let ?y = "y\<lparr>pv_status := name_next S_PARA_NAME c\<rparr>"
  have "para_step buf p x = Inr (p, ?y)"
    using para_step_tok(2) [of buf p x] c(2,5) b(2) y(1) by (simp add: para_on_def)
  from loop_on [OF c(4) this] have "para_loop buf p x = para_loop buf (Suc p) ?y" .
  also have "\<dots> = para_loop buf (p + length n) (?y\<lparr>pv_status := foldl name_next (name_next S_PARA_NAME c) n'\<rparr>)"
    using scan_name [OF c(3,6), of ?y] name_next_in c(1) by simp
  finally have "para_loop buf p x = para_loop buf (p + length n) (y\<lparr>pv_status := name_status n\<rparr>)"
    using c(1) by (simp add: name_status_def)
  moreover have "busy K tb buf (p + length n) as vs ans a (new_param\<lparr>tp_name := start_str p null_str\<rparr>)
      (y\<lparr>pv_status := name_status n\<rparr>)"
    using busy_mono [OF y(2), of "p + length n"] by simp
  ultimately show ?thesis using y(3) by (auto intro: exI [of _ "y\<lparr>pv_status := name_status n\<rparr>"])
qed

lemma scan_name_eq:
  assumes b: "busy K tb buf p as vs ans a new_param x" "pv_status x = S_PARA_NAME"
    and n: "name_chars n" "stands buf p (n @ [CHR ''=''])"
  shows "\<exists>y. para_loop buf p x = para_loop buf (p + length n + 1) y \<and> pv_status y = S_PARA_VALUE \<and>
    busy K tb buf (p + length n + 1) as vs ans a
      (new_param\<lparr>tp_type := name_type n, tp_name := span p (p + length n)\<rparr>) y"
proof -
  let ?q = "p + length n" and ?t = "new_param\<lparr>tp_name := start_str p null_str\<rparr>"
  from n(2) have st: "stands buf p n" "?q < length buf" "buf ! ?q = CHR ''=''"
    by (simp_all add: stands_append stands_Cons)
  from scan_name_only [OF b n(1) st(1)] obtain y where y: "para_loop buf p x = para_loop buf ?q y"
    "pv_status y = name_status n" "busy K tb buf ?q as vs ans a ?t y" by blast
  have "in_name (pv_status y)" using y(2) n(1) by (simp add: name_status_in name_chars_def)
  from scan_equals [OF y(3) this _ st(2,3), of p] obtain z where z: "para_loop buf ?q y = para_loop buf (Suc ?q) z"
    "pv_status z = S_PARA_VALUE" "busy K tb buf (Suc ?q) as vs ans a
      (?t\<lparr>tp_type := (if pv_status y = TAG3 then TAG_PARAM else tp_type ?t), tp_name := span p ?q\<rparr>) z"
    by auto
  have "?t\<lparr>tp_type := (if pv_status y = TAG3 then TAG_PARAM else tp_type ?t), tp_name := span p ?q\<rparr> =
      new_param\<lparr>tp_type := name_type n, tp_name := span p ?q\<rparr>"
    using y(2) by (simp add: name_type_def new_param_def)
  with y(1) z show ?thesis by auto
qed

lemma scan_open_quote:
  assumes b: "busy K tb buf p as vs ans a new_param x" "pv_status x = S_PARA_NAME"
    and n: "name_chars n" "stands buf p (n @ CHR ''='' # CHR 0x22 # t)" and t: "list_all quoted_char t"
  shows "\<exists>y. para_loop buf p x = para_loop buf (p + length n + 2 + length t) y \<and>
    pv_status y = PARA_VALUE_QUOTED \<and> busy K tb buf (p + length n + 2 + length t) as vs ans a
      (new_param\<lparr>tp_type := name_type n, tp_name := span p (p + length n),
         tp_value := start_str (p + length n + 2) null_str\<rparr>) y"
proof -
  let ?q = "p + length n" and ?t = "new_param\<lparr>tp_type := name_type n, tp_name := span p (p + length n)\<rparr>"
  from n(2) have st: "stands buf p (n @ [CHR ''=''])" "Suc ?q < length buf" "buf ! Suc ?q = CHR 0x22"
    "stands buf (Suc (Suc ?q)) t"
    by (simp_all add: stands_append stands_Cons)
  from scan_name_eq [OF b n(1) st(1)] obtain y where y: "para_loop buf p x = para_loop buf (Suc ?q) y"
    "pv_status y = S_PARA_VALUE" "busy K tb buf (Suc ?q) as vs ans a ?t y" by auto
  from busy_ops(3) [OF y(3), of "Suc (Suc ?q)"] obtain z where z: "value_at (Suc (Suc ?q)) y = Inr z"
    "busy K tb buf (Suc ?q) as vs ans a (?t\<lparr>tp_value := start_str (Suc (Suc ?q)) null_str\<rparr>) z" by auto
  let ?z = "z\<lparr>pv_status := PARA_VALUE_QUOTED\<rparr>"
  have "para_step buf (Suc ?q) y = Inr (Suc ?q, ?z)"
    using st(3) y(2) z(1) by (simp add: para_step_def para_quote_def para_on_def)
  from loop_on [OF st(2) this] scan_quoted [OF t st(4), of ?z] y(1) busy_mono [OF z(2), of "?q + 2 + length t"]
  show ?thesis by (auto intro!: exI [of _ ?z])
qed

lemma scan_param:
  assumes b: "busy K tb buf p as vs ans a new_param x" "pv_status x = S_PARA_NAME"
    and ok: "param_ok nv" and st: "stands buf p (fst nv @ value_text (snd nv))"
  shows "\<exists>y. para_loop buf p x = para_loop buf (p + length (fst nv @ value_text (snd nv))) y \<and>
    after_param K tb buf (p + length (fst nv @ value_text (snd nv))) (as @ [a]) (vs @ [text_view nv]) ans y"
proof -
  obtain n v where nv: "nv = (n, v)" by (cases nv)
  let ?q = "p + length n"
  from ok nv have n: "name_chars n" by (simp add: param_ok_def name_chars_def)
  from st nv have sn: "stands buf p n" "stands buf ?q (value_text v)" by (simp_all add: stands_append)
  have bytes: "str_bytes buf (span p ?q) = n" by (rule stands_span [OF sn(1)])
  show ?thesis
  proof (cases v)
    case No_value
    from scan_name_only [OF b n sn(1)] obtain y where y: "para_loop buf p x = para_loop buf ?q y"
      "pv_status y = name_status n" "busy K tb buf ?q as vs ans a (new_param\<lparr>tp_name := start_str p null_str\<rparr>) y"
      by blast
    from No_value ok nv have "name_status n = PARA_NAME" by (simp add: param_ok_def)
    with y nv No_value bytes show ?thesis
      by (auto simp: after_param_def text_view_def name_type_def
          intro!: exI [of _ y] exI [of _ "new_param\<lparr>tp_name := start_str p null_str\<rparr>"] exI [of _ p])
  next
    case (Token t)
    let ?r = "Suc ?q + length t" and ?t = "new_param\<lparr>tp_type := name_type n, tp_name := span p ?q\<rparr>"
    from Token obtain d t' where t: "t = d # t'" "tok_char d" "list_all tok_char t'"
      using ok nv by (cases t) (auto simp: param_ok_def)
    from st nv Token t(1) have e: "stands buf p (n @ [CHR ''=''])" "Suc ?q < length buf"
      "buf ! Suc ?q = d" "stands buf (Suc (Suc ?q)) t'" "stands buf (Suc ?q) t"
      by (simp_all add: stands_Cons stands_append)
    from scan_name_eq [OF b n e(1)] obtain y where y: "para_loop buf p x = para_loop buf (Suc ?q) y"
      "pv_status y = S_PARA_VALUE" "busy K tb buf (Suc ?q) as vs ans a ?t y" by auto
    from busy_ops(3) [OF y(3), of "Suc ?q"] obtain z where z: "value_at (Suc ?q) y = Inr z"
      "busy K tb buf (Suc ?q) as vs ans a (?t\<lparr>tp_value := start_str (Suc ?q) null_str\<rparr>) z" by auto
    let ?z = "z\<lparr>pv_status := PARA_VALUE_TOKEN\<rparr>"
    have "para_step buf (Suc ?q) y = Inr (Suc ?q, ?z)"
      using para_step_tok(3) [of buf "Suc ?q" y] e(3) t(2) y(2) z(1) by (simp add: para_on_def)
    from loop_on [OF e(2) this] scan_token [OF t(3) e(4), of ?z] t(1)
    have "para_loop buf (Suc ?q) y = para_loop buf ?r ?z" by simp
    moreover have "busy K tb buf ?r as vs ans a (?t\<lparr>tp_value := start_str (Suc ?q) null_str\<rparr>) ?z"
      using busy_mono [OF z(2), of ?r] by simp
    moreover have "str_bytes buf (span (Suc ?q) ?r) = t" by (rule stands_span [OF e(5)])
    ultimately show ?thesis using y(1) nv Token bytes
      by (auto simp: after_param_def text_view_def add.assoc [symmetric]
          intro!: exI [of _ ?z] exI [of _ "?t\<lparr>tp_value := start_str (Suc ?q) null_str\<rparr>"] exI [of _ "Suc ?q"])
  next
    case (Quoted t)
    let ?r = "?q + 2 + length t"
    let ?t = "\<lambda>w. new_param\<lparr>tp_type := name_type n, tp_name := span p ?q, tp_value := w\<rparr>"
    from ok nv Quoted have t: "list_all quoted_char t" by (simp add: param_ok_def)
    from st nv Quoted have e: "stands buf p (n @ CHR ''='' # CHR 0x22 # t)" "?r < length buf"
      "buf ! ?r = CHR 0x22" "stands buf (?q + 2) t"
      by (simp_all add: stands_Cons stands_append)
    from scan_open_quote [OF b n e(1) t] obtain y where y: "para_loop buf p x = para_loop buf ?r y"
      "pv_status y = PARA_VALUE_QUOTED" "busy K tb buf ?r as vs ans a (?t (start_str (?q + 2) null_str)) y"
      by blast
    from busy_ops(1) [OF y(3), of "?q + 2" ?r] obtain z where z: "value_end ?r y = Inr z"
      "busy K tb buf ?r as vs ans a (?t (span (?q + 2) ?r)) z" by auto
    obtain w where w: "add_param z = Inr w"
      "idle K tb buf ?r (as @ [a]) (vs @ [param_view buf (?t (span (?q + 2) ?r))]) ans w"
      by (rule busy_addE [OF z(2)]) simp_all
    let ?w = "w\<lparr>pv_status := E_PARA_VALUE\<rparr>"
    have "para_step buf ?r y = Inr (?r, ?w)"
      using e(3) y(2) z(1) w(1) by (simp add: para_step_def para_quote_def para_on_def value_done_def)
    from loop_on [OF e(2) this] have L: "para_loop buf ?r y = para_loop buf (Suc ?r) ?w" .
    have "str_bytes buf (span (?q + 2) ?r) = t" by (rule stands_span [OF e(4)])
    then have "param_view buf (?t (span (?q + 2) ?r)) = text_view nv"
      using nv Quoted bytes by (simp add: param_view_def text_view_def)
    with idle_mono [OF w(2), of "Suc ?r"] have "after_param K tb buf (Suc ?r) (as @ [a]) (vs @ [text_view nv]) ans ?w"
      by (simp add: after_param_def)
    moreover have eq: "p + length (fst nv @ value_text (snd nv)) = Suc ?r" using nv Quoted by simp
    ultimately show ?thesis unfolding eq using y(1) L by auto
  qed
qed

section \<open>The end of the header\<close>

text \<open>The line is over, and the next character does not continue it.\<close>

definition new_line_char :: "char \<Rightarrow> bool" where
  "new_line_char c \<longleftrightarrow> c \<notin> {CHR 0x20, CHR 0x09, CHR 0x00, CHR 0x5C}"

lemma crlf_over:
  assumes "stands buf p [CHR 0x0A, c]" "new_line_char c" "pv_status x = F_CR"
  shows "\<exists>st. para_loop buf p x = Inl (Endofheader (Suc p) (x\<lparr>pv_status := st\<rparr>))"
proof -
  from assms(1) have p: "p < length buf" "buf ! p = CHR 0x0A" "Suc p < length buf" "buf ! Suc p = c"
    by (simp_all add: stands_Cons)
  let ?x = "x\<lparr>pv_status := F_CRLF\<rparr>"
  have "para_step buf p x = Inr (p, ?x)" using p(2) assms(3) by (simp add: para_step_def para_lf_def para_on_def)
  from loop_on [OF p(1) this] have L: "para_loop buf p x = para_loop buf (Suc p) ?x" .
  have "\<exists>st. para_step buf (Suc p) ?x = Inl (Endofheader (Suc p) (x\<lparr>pv_status := st\<rparr>))"
  proof (cases "c = CHR 0x0A \<or> c = CHR 0x0D")
    case True
    then show ?thesis using p(4)
      by (auto simp: para_step_def para_lf_def para_cr_def para_over_def intro!: exI [of _ "pv_saved x"])
  next
    case False
    then show ?thesis using p(4) assms(2)
      by (auto simp: para_step_def Let_def new_line_char_def para_quote_def para_semicolon_def para_t_def
          para_a_def para_g_def para_eq_def para_other_def para_over_def intro!: exI [of _ F_CRLF])
  qed
  then obtain st where "para_step buf (Suc p) ?x = Inl (Endofheader (Suc p) (x\<lparr>pv_status := st\<rparr>))" by blast
  from loop_stop [OF p(3) this] L show ?thesis by auto
qed

definition para_done :: "(nat \<Rightarrow> to_param option) \<Rightarrow> to_body \<Rightarrow> string \<Rightarrow> nat \<Rightarrow> nat list \<Rightarrow> pview list \<Rightarrow>
    nat option list \<Rightarrow> para_res \<Rightarrow> bool" where
  "para_done K tb buf q as vs ans r \<longleftrightarrow>
     (\<exists>tb' m'. r = Some (Inr (q, E_PARA_VALUE, tb', m')) \<and> strip_to tb' = strip_to tb \<and>
        to_list K (length buf) tb' m' as {} \<and> map (param_view buf) (blocks_of (pk_block m') as) = vs \<and>
        pk_answers m' = ans)"

lemma end_idle:
  assumes "idle K tb buf p as vs ans y" "pv_saved y = E_PARA_VALUE" "p \<le> length buf"
  shows "para_done K tb buf q as vs ans (para_end q y)"
  using idle_mono [OF assms(1,3)] assms(2) by (auto simp: idle_def held_def para_end_def para_done_def)

lemma end_busy:
  assumes b: "busy K tb buf p as vs ans a tp y" "tp_type tp = GENERAL_PARAM" "in_buf p (tp_name tp)"
    "pv_saved y = S_EQUAL" "p \<le> length buf"
  shows "para_done K tb buf q (as @ [a]) (vs @ [(GENERAL_PARAM, str_bytes buf (tp_name tp), [])]) ans (para_end q y)"
proof -
  let ?y = "y\<lparr>pv_saved := E_PARA_VALUE\<rparr>" and ?t = "tp\<lparr>tp_value := null_str\<rparr>"
  have "busy K tb buf p as vs ans a tp ?y" using b(1) by simp
  from busy_ops(6) [OF this] obtain z where z: "on_param (\<lambda>tp. Inr (tp\<lparr>tp_value := null_str\<rparr>)) ?y = Inr z"
    "busy K tb buf p as vs ans a ?t z" "pv_saved z = E_PARA_VALUE" by auto
  obtain w where w: "add_param z = Inr w" "idle K tb buf p (as @ [a]) (vs @ [param_view buf ?t]) ans w"
    "pv_saved w = pv_saved z"
    by (rule busy_addE [OF z(2)]) (use b(3) in simp_all)
  have g: "pkg_get (pv_param z) (pv_mem z) = Inr ?t" using z(2) by (simp add: busy_def)
  have "pv_param y = Some a" using b(1) by (simp add: busy_def)
  then have "para_end q y = Some (Inr (q, E_PARA_VALUE, pv_to w, pv_mem w))"
    using b(2,4) z(1,3) w(1,3) g by (simp add: para_end_def)
  with idle_mono [OF w(2) b(5)] b(2) show ?thesis
    by (auto simp: para_done_def idle_def held_def param_view_def null_str_def)
qed

lemma after_crlf:
  assumes ap: "after_param K tb buf p as vs ans x"
    and st: "stands buf p [CHR 0x0D, CHR 0x0A, c]" "new_line_char c"
  shows "\<exists>y. para_loop buf p x = Inl (Endofheader (p + 2) y) \<and>
    para_done K tb buf (p + 2) as vs ans (para_end (p + 2) y)"
proof -
  from st(1) have p: "p < length buf" "buf ! p = CHR 0x0D" "stands buf (Suc p) [CHR 0x0A, c]"
    by (simp_all add: stands_Cons)
  then have pl: "p \<le> length buf" by simp
  have go: "\<exists>y. para_loop buf p x = Inl (Endofheader (p + 2) y) \<and>
      para_done K tb buf (p + 2) as vs ans (para_end (p + 2) y)"
    if s: "para_cr p x = Inr (p, z)" "pv_status z = F_CR"
      "\<And>st. para_done K tb buf (p + 2) as vs ans (para_end (p + 2) (z\<lparr>pv_status := st\<rparr>))" for z
  proof -
    have "para_step buf p x = Inr (p, z)" using s(1) p(2) by (simp add: para_step_def)
    from loop_on [OF p(1) this] crlf_over [OF p(3) st(2) s(2)] s(3) show ?thesis by auto
  qed
  show ?thesis using ap unfolding after_param_def
  proof (elim disjE exE conjE)
    assume "pv_status x = E_PARA_VALUE" "idle K tb buf p as vs ans x"
    then show ?thesis using pl
      by (intro go [of "x\<lparr>pv_saved := E_PARA_VALUE, pv_status := F_CR\<rparr>"])
        (auto simp: para_cr_def para_fold_def intro: end_idle)
  next
    fix as' vs' b tp s
    assume c: "as = as' @ [b]" "busy K tb buf p as' vs' ans b tp x" "in_buf p (tp_name tp)"
      "pv_status x = PARA_VALUE_TOKEN" "str_s (tp_value tp) = Buf s" "s \<le> p"
      "vs = vs' @ [(tp_type tp, str_bytes buf (tp_name tp), str_bytes buf (span s p))]"
    from busy_ops(1) [OF c(2,5), of p] obtain y where
      y: "value_end p x = Inr y" "busy K tb buf p as' vs' ans b (tp\<lparr>tp_value := span s p\<rparr>) y" by blast
    then have "busy K tb buf p as' vs' ans b (tp\<lparr>tp_value := span s p\<rparr>)
      (y\<lparr>pv_saved := E_PARA_VALUE, pv_status := F_CR\<rparr>)" by simp
    from busy_add [OF this] c(3,6) obtain z where
      z: "add_param (y\<lparr>pv_saved := E_PARA_VALUE, pv_status := F_CR\<rparr>) = Inr z"
        "idle K tb buf p (as' @ [b]) (vs' @ [param_view buf (tp\<lparr>tp_value := span s p\<rparr>)]) ans z"
        "pv_status z = F_CR" "pv_saved z = E_PARA_VALUE" by auto
    show ?thesis using y(1) z c(1,4,7) pl
      by (intro go [of z]) (auto simp: para_cr_def param_view_def intro!: end_idle)
  next
    fix as' vs' b tp s
    assume c: "as = as' @ [b]" "busy K tb buf p as' vs' ans b tp x"
      "pv_status x = PARA_NAME" "tp_type tp = GENERAL_PARAM" "str_s (tp_name tp) = Buf s" "s \<le> p"
      "tp_value tp = null_str" "vs = vs' @ [(GENERAL_PARAM, str_bytes buf (span s p), [])]"
    from busy_ops(2) [OF c(2,5), of p] obtain y where
      y: "name_end p x = Inr y" "busy K tb buf p as' vs' ans b (tp\<lparr>tp_name := span s p\<rparr>) y" by blast
    have "para_done K tb buf (p + 2) (as' @ [b]) (vs' @ [(GENERAL_PARAM, str_bytes buf (span s p), [])]) ans
        (para_end (p + 2) (y\<lparr>pv_saved := S_EQUAL, pv_status := st\<rparr>))" for st
      using end_busy [of K tb buf p as' vs' ans b "tp\<lparr>tp_name := span s p\<rparr>"
          "y\<lparr>pv_saved := S_EQUAL, pv_status := st\<rparr>" "p + 2"] y(2) c(4,6) pl by simp
    then show ?thesis using y(1) c(1,3,8)
      by (intro go [of "y\<lparr>pv_saved := S_EQUAL, pv_status := F_CR\<rparr>"])
        (auto simp: para_cr_def para_fold_def)
  qed
qed

text \<open>All the parameters, one after the other.\<close>

lemma scan_params:
  assumes "after_param K tb buf p as vs (map Some bs @ ans) x" "length bs = length ps" "list_all param_ok ps"
    "stands buf p (concat (map param_text ps))"
  shows "\<exists>y. para_loop buf p x = para_loop buf (p + length (concat (map param_text ps))) y \<and>
    after_param K tb buf (p + length (concat (map param_text ps))) (as @ bs) (vs @ map text_view ps) ans y"
  using assms
proof (induction ps arbitrary: p as vs bs x)
  case Nil then show ?case by auto
next
  case (Cons nv ps)
  from Cons.prems(2) obtain b bs' where bs: "bs = b # bs'" "length bs' = length ps" by (cases bs) auto
  define q where "q = Suc p + length (fst nv @ value_text (snd nv))"
  have len: "p + length (param_text nv) = q" by (simp add: param_text_def q_def)
  from Cons.prems(4) have st: "p < length buf" "buf ! p = CHR '';''"
    "stands buf (Suc p) (fst nv @ value_text (snd nv))" "stands buf q (concat (map param_text ps))"
    by (simp_all add: param_text_def [of nv] stands_Cons stands_append q_def add.assoc)
  have "after_param K tb buf p as vs (Some b # (map Some bs' @ ans)) x" using Cons.prems(1) bs by simp
  from after_semicolon [OF this st(1,2)] obtain y where y: "para_loop buf p x = para_loop buf (Suc p) y"
    "pv_status y = S_PARA_NAME" "busy K tb buf (Suc p) as vs (map Some bs' @ ans) b new_param y" by blast
  from scan_param [OF y(3,2) _ st(3)] Cons.prems(3) obtain z where z: "para_loop buf (Suc p) y = para_loop buf q z"
    "after_param K tb buf q (as @ [b]) (vs @ [text_view nv]) (map Some bs' @ ans) z" by (auto simp: q_def)
  from Cons.IH [OF z(2) bs(2) _ st(4)] Cons.prems(3) obtain w where
    "para_loop buf q z = para_loop buf (q + length (concat (map param_text ps))) w"
    "after_param K tb buf (q + length (concat (map param_text ps))) ((as @ [b]) @ bs')
       ((vs @ [text_view nv]) @ map text_view ps) ans w" by auto
  with y(1) z(1) bs(1) len show ?case by (auto simp: add.assoc [symmetric])
qed

lemma parse_params_text:
  assumes ok: "pkg_ok m" and tb: "tb_param_lst tb = None" "tb_tag_value tb = null_str"
    and ps: "list_all param_ok ps" and ans: "pk_answers m = map Some bs @ ans" "length bs = length ps"
    and st: "stands buf p (concat (map param_text ps) @ [CHR 0x0D, CHR 0x0A, c])" "new_line_char c"
  shows "para_done (pk_block m) tb buf (p + length (concat (map param_text ps)) + 2) bs (map text_view ps) ans
    (parse_to_param buf p tb m)"
proof -
  define x where "x = \<lparr>pv_param = None, pv_status = E_PARA_VALUE, pv_saved = E_PARA_VALUE,
    pv_to = tb, pv_mem = m\<rparr>"
  have "to_list (pk_block m) p tb m [] {}"
    using ok tb by (auto simp: to_list_def blocks_of_def last_tag_def pkg_ok_def)
  then have "after_param (pk_block m) tb buf p [] [] (map Some bs @ ans) x"
    using ans(1) by (simp add: after_param_def x_def idle_def held_def blocks_of_def)
  from scan_params [OF this ans(2) ps] st(1) obtain y where
    y: "para_loop buf p x = para_loop buf (p + length (concat (map param_text ps))) y"
      "after_param (pk_block m) tb buf (p + length (concat (map param_text ps))) bs (map text_view ps) ans y"
    by (auto simp: stands_append)
  from st(1) have "stands buf (p + length (concat (map param_text ps))) [CHR 0x0D, CHR 0x0A, c]"
    by (simp add: stands_append)
  from after_crlf [OF y(2) this st(2)] y(1) show ?thesis
    by (auto simp: parse_to_param_def x_def [symmetric])
qed

end
