(* ===== verification/To_Props.thy ===== *)
theory To_Props
  imports To_Params
begin

text \<open>
  The properties of the To header parser: it stays inside the buffer and keeps the package
  memory in order; a well formed header is parsed to what it says, and freeing the result
  gives all memory back; and what it does with a backslash in a quoted value, with a
  parameter that begins like \<open>tag\<close>, and with a header that is cut off.
\<close>

section \<open>Memory safety\<close>


definition sample_mem :: "to_param pkg" where
  "sample_mem = \<lparr>pk_block = Map.empty, pk_answers = [Some 40, Some 80]\<rparr>"

lemma sample_mem_ok: "pkg_ok sample_mem"
  by (simp add: sample_mem_def pkg_ok_def)

section \<open>The text of a header\<close>

definition uri_char :: "char \<Rightarrow> bool" where
  "uri_char c \<longleftrightarrow> c \<notin> {CHR 0x20, CHR 0x09, CHR 0x0A, CHR 0x0D, CHR 0x00, CHR 0x5C, CHR 0x22,
     CHR ''<'', CHR ''>''}"

definition uri_ok :: "string \<Rightarrow> bool" where
  "uri_ok u \<longleftrightarrow> u \<noteq> [] \<and> hd u \<noteq> CHR '';'' \<and> list_all uri_char u"

text \<open>A display name in quotes and a blank, the URI in angle brackets, the parameters.\<close>

definition display_text :: "string option \<Rightarrow> string" where
  "display_text d = (case d of None \<Rightarrow> [] | Some s \<Rightarrow> CHR 0x22 # s @ [CHR 0x22])"

definition name_addr :: "string option \<Rightarrow> string \<Rightarrow> string" where
  "name_addr d u = display_text d @ (if d = None then [] else [CHR 0x20]) @ CHR ''<'' # u @ [CHR ''>'']"

definition to_text :: "string option \<Rightarrow> string \<Rightarrow> ptext list \<Rightarrow> string" where
  "to_text d u ps = name_addr d u @ concat (map param_text ps)"

abbreviation to_loop :: "string \<Rightarrow> nat \<Rightarrow> to_vars \<Rightarrow> to_res + nat \<times> to_vars" where
  "to_loop buf p x \<equiv> scan (to_step buf) (length buf) p x"

lemmas to_loop_on = scan_on [where body = "to_step buf" and e = "length buf" for buf]
lemmas to_loop_stop = scan_stop [where body = "to_step buf" and e = "length buf" for buf]

lemma to_scan_uri:
  assumes "list_all uri_char u" "stands buf p u" "tv_status x = URI_ENCLOSED"
  shows "to_loop buf p x = to_loop buf (p + length u) x"
proof (rule scan_same)
  show "p + length u \<le> length buf" using assms(2) by (simp add: stands_def)
  fix i assume "p \<le> i" "i < p + length u"
  with assms(1) stands_mem [OF assms(2)] have "uri_char (buf ! i)" by (simp add: list_all_iff)
  with assms(3) show "to_step buf i x = Inr (i, x)"
    by (simp add: to_step_def Let_def uri_char_def to_semicolon_def to_other_def)
qed simp

lemma to_scan_display:
  assumes "list_all quoted_char d" "stands buf p d" "tv_status x = DISPLAY_QUOTED"
  shows "to_loop buf p x = to_loop buf (p + length d) x"
proof (rule scan_same)
  show "p + length d \<le> length buf" using assms(2) by (simp add: stands_def)
  fix i assume "p \<le> i" "i < p + length d"
  with assms(1) stands_mem [OF assms(2)] have "quoted_char (buf ! i)" by (simp add: list_all_iff)
  with assms(3) show "to_step buf i x = Inr (i, x)"
    by (simp add: to_step_def Let_def quoted_char_def to_space_def to_less_def to_greater_def
        to_semicolon_def to_other_def)
qed simp

text \<open>From the bracket on: the URI, and the state behind it.\<close>

lemma to_scan_addr:
  assumes u: "uri_ok u" and st: "stands buf p (u @ [CHR ''>''])"
    and x: "tv_status x = S_URI_ENCLOSED" "str_len (tb_uri (tv_to x)) = 0"
  shows "to_loop buf p x = to_loop buf (p + length u + 1)
    (x\<lparr>tv_to := (tv_to x)\<lparr>tb_uri := span p (p + length u)\<rparr>, tv_status := END\<rparr>)"
proof -
  from u obtain c u' where c: "u = c # u'" "c \<noteq> CHR '';''" "uri_char c" "list_all uri_char u'"
    by (cases u) (auto simp: uri_ok_def)
  from st c(1) have s: "p < length buf" "buf ! p = c" "stands buf (Suc p) u'"
    "p + length u < length buf" "buf ! (p + length u) = CHR ''>''"
    by (simp_all add: stands_Cons stands_append)
  let ?x1 = "x\<lparr>tv_to := (tv_to x)\<lparr>tb_uri := start_str p (tb_uri (tv_to x))\<rparr>, tv_status := URI_ENCLOSED\<rparr>"
  have "to_step buf p x = Inr (p, ?x1)"
    using c s(2) x(1) by (simp add: to_step_def uri_char_def to_other_def to_on_def Let_def)
  from to_loop_on [OF s(1) this] to_scan_uri [OF c(4) s(3), of ?x1] c(1)
  have 1: "to_loop buf p x = to_loop buf (p + length u) ?x1" by simp
  have "to_step buf (p + length u) ?x1 = Inr (p + length u,
      x\<lparr>tv_to := (tv_to x)\<lparr>tb_uri := span p (p + length u)\<rparr>, tv_status := END\<rparr>)"
    using s(5) by (simp add: to_step_def to_greater_def uri_end_at_def to_on_def)
  from to_loop_on [OF s(4) this] 1 show ?thesis by simp
qed

definition start_vars :: "to_param pkg \<Rightarrow> to_vars" where
  "start_vars m = \<lparr>tv_status = START_TO, tv_saved = START_TO, tv_end_mark = None,
     tv_to = zero_to, tv_mem = m\<rparr>"

lemma parse_to_start: "parse_to buf zero_to m = (case to_loop buf 0 (start_vars m) of
    Inl r \<Rightarrow> r | Inr (q, x) \<Rightarrow> to_end q x)"
  by (simp add: parse_to_def start_vars_def zero_to_def)

text \<open>The result after the name and the URI.\<close>

definition addr_body :: "string option \<Rightarrow> string \<Rightarrow> to_body" where
  "addr_body d u =
     (let n = (case d of None \<Rightarrow> 1 | Some s \<Rightarrow> length s + 4)
      in zero_to\<lparr>tb_body := start_str 0 null_str, tb_uri := span n (n + length u),
           tb_display := (case d of None \<Rightarrow> null_str | Some s \<Rightarrow> span 0 (length s + 2))\<rparr>)"

lemma to_scan_name_addr:
  assumes "uri_ok u" "\<And>s. d = Some s \<Longrightarrow> list_all quoted_char s" "stands buf 0 (name_addr d u)"
  shows "to_loop buf 0 (start_vars m) = to_loop buf (length (name_addr d u))
    ((start_vars m)\<lparr>tv_to := addr_body d u, tv_status := END\<rparr>)"
proof (cases d)
  case None
  let ?x = "(start_vars m)\<lparr>tv_to := zero_to\<lparr>tb_body := start_str 0 null_str\<rparr>, tv_status := S_URI_ENCLOSED\<rparr>"
  from assms(3) None have s: "0 < length buf" "buf ! 0 = CHR ''<''" "stands buf 1 (u @ [CHR ''>''])"
    by (simp_all add: name_addr_def display_text_def stands_Cons)
  have "to_step buf 0 (start_vars m) = Inr (0, ?x)"
    using s(2) by (simp add: to_step_def to_less_def start_vars_def to_on_def zero_to_def)
  from to_loop_on [OF s(1) this] to_scan_addr [OF assms(1) s(3), of ?x]
  show ?thesis using None by (simp add: name_addr_def display_text_def addr_body_def zero_to_def)
next
  case (Some t)
  let ?n = "length t"
  from assms(3) Some have s: "0 < length buf" "buf ! 0 = CHR 0x22" "stands buf 1 t"
    "?n + 1 < length buf" "buf ! (?n + 1) = CHR 0x22" "?n + 2 < length buf" "buf ! (?n + 2) = CHR 0x20"
    "?n + 3 < length buf" "buf ! (?n + 3) = CHR ''<''" "stands buf (?n + 4) (u @ [CHR ''>''])"
    by (simp_all add: name_addr_def display_text_def stands_Cons stands_append eval_nat_numeral)
  let ?x1 = "(start_vars m)\<lparr>tv_to := zero_to\<lparr>tb_body := start_str 0 null_str, tb_display := start_str 0 null_str\<rparr>,
    tv_status := DISPLAY_QUOTED\<rparr>"
  let ?x2 = "(start_vars m)\<lparr>tv_to := zero_to\<lparr>tb_body := start_str 0 null_str, tb_display := span 0 (?n + 2)\<rparr>,
    tv_status := E_DISPLAY_QUOTED\<rparr>"
  have "to_step buf 0 (start_vars m) = Inr (0, ?x1)"
    using s(2) by (simp add: to_step_def to_quote_def start_vars_def to_on_def zero_to_def)
  from to_loop_on [OF s(1) this] to_scan_display [OF assms(2) [OF Some], of buf 1 ?x1] s(3)
  have 1: "to_loop buf 0 (start_vars m) = to_loop buf (?n + 1) ?x1" by simp
  have "to_step buf (?n + 1) ?x1 = Inr (?n + 1, ?x2)"
    using s(5) by (simp add: to_step_def to_quote_def display_end_at_def to_on_def eval_nat_numeral)
  from to_loop_on [OF s(4) this] have 2: "to_loop buf (?n + 1) ?x1 = to_loop buf (?n + 2) ?x2" by (simp add: eval_nat_numeral)
  have "to_step buf (?n + 2) ?x2 = Inr (?n + 2, ?x2)" using s(7) by (simp add: to_step_def to_space_def)
  from to_loop_on [OF s(6) this] have 3: "to_loop buf (?n + 2) ?x2 = to_loop buf (?n + 3) ?x2" by (simp add: eval_nat_numeral)
  let ?x3 = "?x2\<lparr>tv_status := S_URI_ENCLOSED\<rparr>"
  have "to_step buf (?n + 3) ?x2 = Inr (?n + 3, ?x3)" using s(9) by (simp add: to_step_def to_less_def to_on_def)
  from to_loop_on [OF s(8) this] have 4: "to_loop buf (?n + 3) ?x2 = to_loop buf (?n + 4) ?x3" by (simp add: eval_nat_numeral)
  from to_scan_addr [OF assms(1) s(10), of ?x3] 1 2 3 4
  show ?thesis using Some
    by (simp add: name_addr_def display_text_def addr_body_def zero_to_def eval_nat_numeral)
qed

lemma addr_sel:
  "str_s (tb_body (addr_body d u)) = Buf 0" "tb_param_lst (addr_body d u) = None"
  "tb_tag_value (addr_body d u) = null_str" "tb_error (addr_body d u) = False"
  "tb_uri (addr_body d u) = span (length (name_addr d u) - length u - 1) (length (name_addr d u) - 1)"
  "tb_display (addr_body d u) = (case d of None \<Rightarrow> null_str | Some s \<Rightarrow> span 0 (length s + 2))"
  by (auto simp: addr_body_def zero_to_def name_addr_def display_text_def Let_def eval_nat_numeral
      split: option.splits)

text \<open>The display pointer is null when its length is, as the code makes it.\<close>

lemma addr_display:
  "(if str_len (tb_display (addr_body d u)) = 0
    then (addr_body d u)\<lparr>tb_display := Str NullP (str_len (tb_display (addr_body d u)))\<rparr>
    else addr_body d u) = addr_body d u"
  by (cases d) (auto simp: addr_body_def zero_to_def null_str_def Let_def)

lemma to_end_addr:
  assumes "tv_to x = addr_body d u"
  shows "to_end p x = (let y = x\<lparr>tv_status := tv_saved x\<rparr> in case tv_saved x of
      MAYBE_URI_END \<Rightarrow> obind (Some (uri_end_at (tv_end_mark y) y)) (\<lambda>z. obind (Some (body_end p z)) (to_done p))
    | END \<Rightarrow> obind (Some (body_end p y)) (to_done p)
    | E_PARA_VALUE \<Rightarrow> to_done p y | _ \<Rightarrow> to_error p y)"
proof -
  have "x\<lparr>tv_to := addr_body d u\<rparr> = x" using assms by simp
  then show ?thesis by (simp only: to_end_def Let_def assms addr_display)
qed

text \<open>A header without parameters, and its line end.\<close>

lemma to_plain_end:
  assumes "stands buf n [CHR 0x0D, CHR 0x0A, c]" "new_line_char c"
  shows "(case to_loop buf n ((start_vars m)\<lparr>tv_to := addr_body d u, tv_status := END\<rparr>) of
      Inl r \<Rightarrow> r | Inr (q, x) \<Rightarrow> to_end q x) =
    Some (Inr (n + 2, (addr_body d u)\<lparr>tb_body := span 0 (n + 2)\<rparr>, m))"
proof -
  from assms(1) have s: "n < length buf" "buf ! n = CHR 0x0D" "Suc n < length buf" "buf ! Suc n = CHR 0x0A"
    "Suc (Suc n) < length buf" "buf ! Suc (Suc n) = c" by (simp_all add: stands_Cons)
  let ?x = "(start_vars m)\<lparr>tv_to := addr_body d u, tv_status := END\<rparr>"
  have f: "to_fold END F_CR n ?x = Inr (n, ?x\<lparr>tv_saved := END, tv_status := F_CR\<rparr>)"
    by (simp add: to_fold_def)
  have 1: "to_step buf n ?x = Inr (n, ?x\<lparr>tv_saved := END, tv_status := F_CR\<rparr>)"
    using s(2) f by (simp add: to_step_def to_cr_def)
  have 2: "to_step buf (Suc n) (?x\<lparr>tv_saved := END, tv_status := F_CR\<rparr>) =
      Inr (Suc n, ?x\<lparr>tv_saved := END, tv_status := F_CRLF\<rparr>)"
    using s(4) by (simp add: to_step_def to_lf_def to_on_def)
  have e: "to_end (Suc (Suc n)) (?x\<lparr>tv_saved := END, tv_status := st\<rparr>) =
      Some (Inr (Suc (Suc n), (addr_body d u)\<lparr>tb_body := span 0 (Suc (Suc n))\<rparr>, m))" for st
    by (simp add: to_end_addr [of _ d u] addr_sel body_end_def to_done_def Let_def start_vars_def)
  have "to_step buf (Suc (Suc n)) (?x\<lparr>tv_saved := END, tv_status := F_CRLF\<rparr>) =
      Inl (Some (Inr (Suc (Suc n), (addr_body d u)\<lparr>tb_body := span 0 (Suc (Suc n))\<rparr>, m)))"
    using s(6) assms(2) e
    by (auto simp: to_step_def Let_def new_line_char_def to_lf_def to_cr_def to_less_def to_greater_def
        to_quote_def to_semicolon_def to_other_def)
  from to_loop_on [OF s(1) 1] to_loop_on [OF s(3) 2] to_loop_stop [OF s(5) this] show ?thesis by simp
qed

text \<open>What the tag of a header is: the value of its last parameter of that name.\<close>

definition tag_text :: "ptext list \<Rightarrow> string" where
  "tag_text ps = foldl (\<lambda>w nv. if name_type (fst nv) = TAG_PARAM then value_bytes (snd nv) else w) [] ps"

lemma last_tag_text:
  assumes "map (param_view buf) tps = map text_view ps"
  shows "str_bytes buf (last_tag tps) = tag_text ps"
  using assms
proof (induction ps arbitrary: tps rule: rev_induct)
  case Nil then show ?case by (simp add: last_tag_def tag_text_def null_str_def)
next
  case (snoc nv ps)
  then obtain tps' tp where t: "tps = tps' @ [tp]" by (cases tps rule: rev_cases) auto
  with snoc show ?case by (auto simp: last_tag_snoc tag_text_def param_view_def text_view_def)
qed

text \<open>With parameters: they are handed over to their parser.\<close>

lemma to_params_end:
  assumes ok: "pkg_ok m" and ps: "list_all param_ok ps" "ps \<noteq> []"
    and ans: "pk_answers m = map Some bs @ ans" "length bs = length ps"
    and st: "stands buf n (concat (map param_text ps) @ [CHR 0x0D, CHR 0x0A, c])" "new_line_char c"
  shows "\<exists>tb m'. (case to_loop buf n ((start_vars m)\<lparr>tv_to := addr_body d u, tv_status := END\<rparr>) of
      Inl r \<Rightarrow> r | Inr (q, x) \<Rightarrow> to_end q x) = Some (Inr (n + length (concat (map param_text ps)) + 2, tb, m')) \<and>
    strip_to tb = strip_to ((addr_body d u)\<lparr>tb_body := span 0 n\<rparr>) \<and>
    to_list (pk_block m) (length buf) tb m' bs {} \<and>
    map (param_view buf) (blocks_of (pk_block m') bs) = map text_view ps"
proof -
  let ?x = "(start_vars m)\<lparr>tv_to := addr_body d u, tv_status := END\<rparr>"
  let ?tb = "(addr_body d u)\<lparr>tb_body := span 0 n\<rparr>" and ?q = "n + length (concat (map param_text ps)) + 2"
  from ps(2) obtain nv ps' where "ps = nv # ps'" by (cases ps) auto
  with st(1) have s: "n < length buf" "buf ! n = CHR '';''"
    by (simp_all add: param_text_def [of nv] stands_Cons)
  have b: "body_end n ?x = Inr (?x\<lparr>tv_to := ?tb\<rparr>)" by (simp add: body_end_def addr_sel)
  have "para_done (pk_block m) ?tb buf ?q bs (map text_view ps) ans (parse_to_param buf n ?tb m)"
    by (rule parse_params_text [OF ok _ _ ps(1) ans st]) (simp_all add: addr_sel)
  then obtain tb' m' where r: "parse_to_param buf n ?tb m = Some (Inr (?q, E_PARA_VALUE, tb', m'))"
    "strip_to tb' = strip_to ?tb" "to_list (pk_block m) (length buf) tb' m' bs {}"
    "map (param_view buf) (blocks_of (pk_block m') bs) = map text_view ps" by (auto simp: para_done_def)
  have disp: "tb_display tb' = tb_display (addr_body d u)"
    using arg_cong [OF r(2), of tb_display] by (simp add: strip_to_def)
  have "(if str_len (tb_display tb') = 0
      then tb'\<lparr>tb_display := Str NullP (str_len (tb_display tb'))\<rparr> else tb') = tb'"
    by (cases d) (auto simp: disp addr_sel null_str_def intro!: to_body.equality)
  then have e: "to_end ?q (?x\<lparr>tv_to := ?tb, tv_saved := E_PARA_VALUE, tv_to := tb', tv_mem := m'\<rparr>) =
      Some (Inr (?q, tb', m'))"
    by (simp add: to_end_def to_done_def Let_def)
  have "to_params buf n ?x = Some (Inr (?q, tb', m'))"
    using r(1) e unfolding to_params_def b by (simp add: start_vars_def)
  then have "to_step buf n ?x = Inl (Some (Inr (?q, tb', m')))"
    using s(2) by (simp add: to_step_def to_semicolon_def)
  from to_loop_stop [OF s(1) this] r show ?thesis by auto
qed

section \<open>Parsing what a header says\<close>

text \<open>
  C8: The text of a header (a display name in quotes or none, a URI in angle brackets, any list
  of parameters with token, quoted or no values), its line end and a character of the next
  line: \<open>parse_to\<close> stops at that character without an error, and gives back the URI, the
  display name with its quotes, the parameters in order as one linked list of the allocated
  blocks, each with its name, its value and whether it is the tag, and the value of the last
  tag. Freeing the list leaves the memory as it was before.
\<close>

theorem parse_to_text:
  assumes d: "\<And>s. d = Some s \<Longrightarrow> list_all quoted_char s" and u: "uri_ok u" and ps: "list_all param_ok ps"
    and c: "new_line_char c"
    and m: "pkg_ok m" "pk_answers m = map Some bs @ ans" "length bs = length ps"
    and buf: "buf = to_text d u ps @ [CHR 0x0D, CHR 0x0A, c] @ rest"
  shows "\<exists>tb m' m''. parse_to buf zero_to m = Some (Inr (length (to_text d u ps) + 2, tb, m')) \<and>
    \<not> tb_error tb \<and> str_bytes buf (tb_uri tb) = u \<and> str_bytes buf (tb_display tb) = display_text d \<and>
    plist tp_next (pk_block m') (tb_param_lst tb) bs \<and>
    map (param_view buf) (blocks_of (pk_block m') bs) = map text_view ps \<and>
    str_bytes buf (tb_tag_value tb) = tag_text ps \<and>
    free_to_params tb m' = Some (Inr m'') \<and> pk_block m'' = pk_block m"
proof -
  let ?n = "length (name_addr d u)"
  have "stands buf 0 buf" by simp
  then have s: "stands buf 0 (name_addr d u)"
    "stands buf ?n (concat (map param_text ps) @ [CHR 0x0D, CHR 0x0A, c])"
    "stands buf 0 (display_text d)" "stands buf (?n - length u - 1) u"
    by (auto simp: buf to_text_def name_addr_def stands_append stands_Cons)
  note L = to_scan_name_addr [OF u d s(1), of m]
  have "\<exists>tb m'. parse_to buf zero_to m = Some (Inr (length (to_text d u ps) + 2, tb, m')) \<and>
      (\<exists>b. strip_to tb = strip_to ((addr_body d u)\<lparr>tb_body := b\<rparr>)) \<and>
      to_list (pk_block m) (length buf) tb m' bs {} \<and>
      map (param_view buf) (blocks_of (pk_block m') bs) = map text_view ps"
  proof (cases "ps = []")
    case True
    have st: "stands buf ?n [CHR 0x0D, CHR 0x0A, c]" using s(2) True by simp
    have "to_list (pk_block m) (length buf) ((addr_body d u)\<lparr>tb_body := span 0 (?n + 2)\<rparr>) m [] {}"
      using clean_list [OF _ m(1), of "(addr_body d u)\<lparr>tb_body := span 0 (?n + 2)\<rparr>" "length buf"]
      by (simp add: clean_to_def addr_sel)
    with to_plain_end [OF st c, where m = m and d = d and u = u] m(3) True show ?thesis
      by (auto simp: parse_to_start L to_text_def blocks_of_def)
  next
    case False
    from to_params_end [OF m(1) ps False m(2,3) s(2) c, where d = d and u = u] show ?thesis
      by (auto simp: parse_to_start L to_text_def add.assoc)
  qed
  then obtain tb m' b where r: "parse_to buf zero_to m = Some (Inr (length (to_text d u ps) + 2, tb, m'))"
    "strip_to tb = strip_to ((addr_body d u)\<lparr>tb_body := b\<rparr>)"
    "to_list (pk_block m) (length buf) tb m' bs {}"
    "map (param_view buf) (blocks_of (pk_block m') bs) = map text_view ps" by blast
  have f: "tb_uri tb = tb_uri (addr_body d u)" "tb_display tb = tb_display (addr_body d u)"
    "tb_error tb = tb_error (addr_body d u)"
    using arg_cong [OF r(2), of tb_uri] arg_cong [OF r(2), of tb_display] arg_cong [OF r(2), of tb_error]
    by (simp_all add: strip_to_def)
  have "length (name_addr d u) - 1 = (?n - length u - 1) + length u"
    by (simp add: name_addr_def)
  then have "str_bytes buf (tb_uri tb) = u"
    using stands_span [OF s(4)] by (simp add: f addr_sel)
  moreover have "str_bytes buf (tb_display tb) = display_text d"
    using stands_span [OF s(3)]
    by (cases d) (simp_all add: f addr_sel display_text_def null_str_def)
  moreover from to_list_free [OF r(3)] obtain m'' where
    "free_to_params tb m' = Some (Inr m'')" "pk_block m'' = pk_block m" by auto
  moreover have "plist tp_next (pk_block m') (tb_param_lst tb) bs"
    "tb_tag_value tb = last_tag (blocks_of (pk_block m') bs)" using r(3) by (auto simp: to_list_def)
  ultimately show ?thesis using r(1,4) f(3) last_tag_text [OF r(4)] by (simp add: addr_sel)
qed

definition sample_params :: "ptext list" where
  "sample_params = [(''tag'', Token ''x1''), (''n'', Quoted ''a b'')]"

lemma parse_to_text_witness:
  "\<exists>tb m' m''. parse_to (to_text (Some ''Al'') ''sip:a'' sample_params @ [CHR 0x0D, CHR 0x0A, CHR ''C''] @ ''x'')
      zero_to sample_mem = Some (Inr (29, tb, m')) \<and>
    \<not> tb_error tb \<and> plist tp_next (pk_block m') (tb_param_lst tb) [40, 80] \<and>
    free_to_params tb m' = Some (Inr m'') \<and> pk_block m'' = Map.empty"
proof -
  define buf where "buf = to_text (Some ''Al'') ''sip:a'' sample_params @ [CHR 0x0D, CHR 0x0A, CHR ''C''] @ ''x''"
  have l: "length (to_text (Some ''Al'') ''sip:a'' sample_params) + 2 = 29"
    by (simp add: to_text_def name_addr_def display_text_def sample_params_def param_text_def)
  have "\<exists>tb m' m''. parse_to buf zero_to sample_mem =
      Some (Inr (length (to_text (Some ''Al'') ''sip:a'' sample_params) + 2, tb, m')) \<and>
    \<not> tb_error tb \<and> str_bytes buf (tb_uri tb) = ''sip:a'' \<and>
    str_bytes buf (tb_display tb) = display_text (Some ''Al'') \<and>
    plist tp_next (pk_block m') (tb_param_lst tb) [40, 80] \<and>
    map (param_view buf) (blocks_of (pk_block m') [40, 80]) = map text_view sample_params \<and>
    str_bytes buf (tb_tag_value tb) = tag_text sample_params \<and>
    free_to_params tb m' = Some (Inr m'') \<and> pk_block m'' = pk_block sample_mem"
    by (rule parse_to_text [OF _ _ _ _ sample_mem_ok, where c = "CHR ''C''" and ans = "[]" and rest = "''x''"])
      (simp_all add: buf_def uri_ok_def uri_char_def quoted_char_def sample_params_def
        param_ok_def tok_char_def new_line_char_def sample_mem_def)
  then show ?thesis unfolding l buf_def [symmetric] by (auto simp: sample_mem_def)
qed


section \<open>What it rejects, and what it should\<close>

lemma busy_error:
  assumes b: "busy K tb buf p [] [] ans a tp x" and tb: "tb_param_lst tb = None" and q: "q \<le> n"
  shows "\<exists>tb' m'. para_error q x = Some (Inr (q, pv_status x, tb', m')) \<and> tb_error tb' \<and> pk_block m' = K"
proof -
  from b have x: "pv_param x = Some a" "pk_block (pv_mem x) a = Some tp"
    "to_list K p (pv_to x) (pv_mem x) [] {a}" by (auto simp: busy_def held_def)
  let ?m = "(pv_mem x)\<lparr>pk_block := (pk_block (pv_mem x))(a := None)\<rparr>"
  from x(3) have l: "tb_param_lst (pv_to x) = None" by (simp add: to_list_def)
  have "pk_block ?m = K"
  proof
    fix c
    from x(3) have d: "dom (pk_block (pv_mem x)) = insert a (dom K)" "a \<notin> dom K"
      "\<forall>c\<in>dom K. pk_block (pv_mem x) c = K c" by (auto simp: to_list_def)
    show "pk_block ?m c = K c"
    proof (cases "c \<in> dom K")
      case True with d show ?thesis by auto
    next
      case False
      then have "c = a \<or> c \<notin> dom (pk_block (pv_mem x))" using d(1) by auto
      with False show ?thesis by (auto simp: domIff)
    qed
  qed
  with x l show ?thesis
    by (simp add: para_error_def free_to_params_def free_params.simps)
qed

text \<open>From the semicolon behind the URI into the first parameter.\<close>

lemma to_first_param:
  assumes m: "pkg_ok m" "pk_answers m = Some a # ans" and u: "uri_ok u"
    and d: "\<And>s. d = Some s \<Longrightarrow> list_all quoted_char s"
    and buf: "stands buf 0 (name_addr d u @ CHR '';'' # s)"
  shows "\<exists>x. pv_status x = S_PARA_NAME \<and> pv_saved x = E_PARA_VALUE \<and>
    busy (pk_block m) ((addr_body d u)\<lparr>tb_body := span 0 (length (name_addr d u))\<rparr>) buf
      (Suc (length (name_addr d u))) [] [] ans a new_param x \<and>
    parse_to buf zero_to m =
      obind (case para_loop buf (Suc (length (name_addr d u))) x of
          Inl r \<Rightarrow> para_leave r | Inr (q, y) \<Rightarrow> para_end q y)
        (\<lambda>(q, sv, tb, m'). to_end q ((start_vars m)\<lparr>tv_to := tb, tv_status := END, tv_saved := sv, tv_mem := m'\<rparr>))"
proof -
  let ?n = "length (name_addr d u)" and ?x = "(start_vars m)\<lparr>tv_to := addr_body d u, tv_status := END\<rparr>"
  let ?tb = "(addr_body d u)\<lparr>tb_body := span 0 (length (name_addr d u))\<rparr>"
  from buf have s: "stands buf 0 (name_addr d u)" "?n < length buf" "buf ! ?n = CHR '';''"
    by (simp_all add: stands_append stands_Cons)
  have b: "body_end ?n ?x = Inr (?x\<lparr>tv_to := ?tb\<rparr>)" by (simp add: body_end_def addr_sel)
  have "to_step buf ?n ?x = Inl (to_params buf ?n ?x)"
    using s(3) by (simp add: to_step_def to_semicolon_def)
  from to_loop_stop [OF s(2) this] have 1: "parse_to buf zero_to m = to_params buf ?n ?x"
    by (simp add: parse_to_start to_scan_name_addr [OF u d s(1)])
  define y where "y = \<lparr>pv_param = None, pv_status = E_PARA_VALUE, pv_saved = E_PARA_VALUE,
    pv_to = ?tb, pv_mem = m\<rparr>"
  have "to_list (pk_block m) ?n ?tb m [] {}"
    using clean_list [OF _ m(1), of ?tb ?n] by (simp add: clean_to_def addr_sel)
  then have "idle (pk_block m) ?tb buf ?n [] [] (Some a # ans) y"
    using m(2) by (simp add: y_def idle_def held_def blocks_of_def)
  from idle_fresh [OF this] obtain z where z: "fresh_param ?n y = Inr (?n, z)" "pv_status z = S_PARA_NAME"
    "busy (pk_block m) ?tb buf ?n [] [] ans a new_param z" by blast
  from z(1) have sv: "pv_saved z = E_PARA_VALUE"
    by (auto simp: fresh_param_def y_def split: prod.splits option.splits)
  have "para_step buf ?n y = Inr (?n, z)"
    using s(3) z(1) by (simp add: para_step_def para_semicolon_def y_def)
  from loop_on [OF s(2) this] have "parse_to_param buf ?n ?tb m =
      (case para_loop buf (Suc ?n) z of Inl r \<Rightarrow> para_leave r | Inr (q, y) \<Rightarrow> para_end q y)"
    by (simp add: parse_to_param_def y_def [symmetric])
  with z(2) sv busy_mono [OF z(3), of "Suc ?n"] 1 b show ?thesis
    by (auto simp: to_params_def start_vars_def intro!: exI [of _ z])
qed

lemma not_done: "tb_error tb \<Longrightarrow> sv \<noteq> MAYBE_URI_END \<Longrightarrow> sv \<noteq> END \<Longrightarrow> tv_saved x = sv \<Longrightarrow>
  tv_to x = tb \<Longrightarrow> \<exists>tb'. to_end q x = Some (Inr (q, tb', tv_mem x)) \<and> tb_error tb'"
  by (cases sv) (simp_all add: to_end_def to_done_def to_error_def Let_def)

text \<open>
  An escaped character in a quoted parameter value, which RFC 3261 allows: \<open>parse_to\<close>
  rejects the header. The case for the backslash has no \<open>break\<close> and runs on into the error.
\<close>

theorem parse_to_backslash:
  assumes u: "uri_ok u" and n: "name_chars n" and t: "list_all quoted_char t"
    and m: "pkg_ok m" "pk_answers m = Some a # ans"
    and buf: "buf = name_addr None u @ CHR '';'' # n @ CHR ''='' # CHR 0x22 # t @ CHR 0x5C # x # rest"
  shows "\<exists>q tb m'. parse_to buf zero_to m = Some (Inr (q, tb, m')) \<and> tb_error tb \<and>
    pk_block m' = pk_block m"
proof -
  let ?p = "Suc (length (name_addr None u))" and ?tb = "(addr_body None u)\<lparr>tb_body := span 0 (length (name_addr None u))\<rparr>"
  let ?r = "?p + length n + 2 + length t"
  have "stands buf 0 buf" by simp
  then have s: "stands buf 0 (name_addr None u @ CHR '';'' # n)" "stands buf ?p (n @ CHR ''='' # CHR 0x22 # t)"
    "?r < length buf" "buf ! ?r = CHR 0x5C" "Suc ?r < length buf"
    unfolding buf by (simp_all add: stands_append stands_Cons)
  from to_first_param [OF m u _ s(1)] obtain y where y: "pv_status y = S_PARA_NAME"
    "busy (pk_block m) ?tb buf ?p [] [] ans a new_param y"
    "parse_to buf zero_to m = obind (case para_loop buf ?p y of Inl r \<Rightarrow> para_leave r | Inr (q, y) \<Rightarrow> para_end q y)
        (\<lambda>(q, sv, tb, m'). to_end q ((start_vars m)\<lparr>tv_to := tb, tv_status := END, tv_saved := sv, tv_mem := m'\<rparr>))"
    by auto
  from scan_open_quote [OF y(2,1) n s(2) t] obtain z tp where z: "para_loop buf ?p y = para_loop buf ?r z"
    "pv_status z = PARA_VALUE_QUOTED" "busy (pk_block m) ?tb buf ?r [] [] ans a tp z" by blast
  have "\<exists>q. para_step buf ?r z = Inl (Parse_error q z)"
    using s(4,5) z(2) by (auto simp: para_step_def para_backslash_def)
  then obtain q where "para_step buf ?r z = Inl (Parse_error q z)" by blast
  from loop_stop [OF s(3) this] z(1) have L: "para_loop buf ?p y = Inl (Parse_error q z)" by simp
  from busy_error [OF z(3), of q q] z(2) obtain tb' m' where
    e: "para_error q z = Some (Inr (q, PARA_VALUE_QUOTED, tb', m'))" "tb_error tb'" "pk_block m' = pk_block m"
    by (auto simp: addr_sel)
  from not_done [OF e(2), of PARA_VALUE_QUOTED "(start_vars m)\<lparr>tv_to := tb', tv_status := END,
      tv_saved := PARA_VALUE_QUOTED, tv_mem := m'\<rparr>" q] e L y(3)
  show ?thesis by auto
qed

lemma parse_to_backslash_witness:
  "\<exists>q tb m'. parse_to (name_addr None ''sip:a'' @ CHR '';'' # ''n'' @ CHR ''='' # CHR 0x22 # ''v'' @
      CHR 0x5C # CHR 0x22 # CHR 0x22 # [CHR 0x0D]) zero_to sample_mem = Some (Inr (q, tb, m')) \<and> tb_error tb"
proof -
  have "\<exists>q tb m'. parse_to (name_addr None ''sip:a'' @ CHR '';'' # ''n'' @ CHR ''='' # CHR 0x22 # ''v'' @
      CHR 0x5C # CHR 0x22 # CHR 0x22 # [CHR 0x0D]) zero_to sample_mem = Some (Inr (q, tb, m')) \<and> tb_error tb \<and>
      pk_block m' = pk_block sample_mem"
    by (rule parse_to_backslash [OF _ _ _ sample_mem_ok, where u = "''sip:a''" and n = "''n''" and t = "''v''"
          and a = 40 and ans = "[Some 80]"])
      (simp_all add: uri_ok_def uri_char_def name_chars_def tok_char_def quoted_char_def sample_mem_def)
  then show ?thesis by blast
qed

section \<open>Headers that are cut off\<close>

text \<open>
  The message ends inside a parameter name: \<open>parse_to\<close> reports no error, the parameter is
  not in the result, and its block is lost, no list leads to it any more.
\<close>

theorem parse_to_lost_param:
  assumes u: "uri_ok u" and n: "name_chars n"
    and m: "pkg_ok m" "pk_answers m = Some a # ans"
    and buf: "buf = name_addr None u @ CHR '';'' # n"
  shows "\<exists>tb m'. parse_to buf zero_to m = Some (Inr (length buf, tb, m')) \<and> \<not> tb_error tb \<and>
    tb_param_lst tb = None \<and> dom (pk_block m') = insert a (dom (pk_block m)) \<and> a \<notin> dom (pk_block m)"
proof -
  let ?p = "Suc (length (name_addr None u))" and ?tb = "(addr_body None u)\<lparr>tb_body := span 0 (length (name_addr None u))\<rparr>"
  have "stands buf 0 buf" by simp
  then have s: "stands buf 0 (name_addr None u @ CHR '';'' # n)" "stands buf ?p n" "?p + length n = length buf"
    unfolding buf by (simp_all add: stands_append stands_Cons)
  from to_first_param [OF m u _ s(1)] obtain y where y: "pv_status y = S_PARA_NAME" "pv_saved y = E_PARA_VALUE"
    "busy (pk_block m) ?tb buf ?p [] [] ans a new_param y"
    "parse_to buf zero_to m = obind (case para_loop buf ?p y of Inl r \<Rightarrow> para_leave r | Inr (q, y) \<Rightarrow> para_end q y)
        (\<lambda>(q, sv, tb, m'). to_end q ((start_vars m)\<lparr>tv_to := tb, tv_status := END, tv_saved := sv, tv_mem := m'\<rparr>))"
    by auto
  from scan_name_only [OF y(3,1) n s(2)] s(3) obtain z tp where z: "para_loop buf ?p y = Inr (length buf, z)"
    "pv_saved z = E_PARA_VALUE" "busy (pk_block m) ?tb buf (length buf) [] [] ans a tp z"
    using y(2) by (auto simp: scan_end)
  from z(3) have L: "to_list (pk_block m) (length buf) (pv_to z) (pv_mem z) [] {a}"
    "strip_to (pv_to z) = strip_to ?tb" by (auto simp: busy_def held_def)
  have "para_end (length buf) z = Some (Inr (length buf, E_PARA_VALUE, pv_to z, pv_mem z))"
    using z(2) by (simp add: para_end_def)
  with z(1) y(4) have 1: "parse_to buf zero_to m = to_end (length buf) ((start_vars m)\<lparr>tv_to := pv_to z,
      tv_status := END, tv_saved := E_PARA_VALUE, tv_mem := pv_mem z\<rparr>)" by simp
  have err: "tb_error (pv_to z) = False" using arg_cong [OF L(2), of tb_error] by (simp add: strip_to_def addr_sel)
  have "\<exists>tb. to_end (length buf) ((start_vars m)\<lparr>tv_to := pv_to z, tv_status := END,
      tv_saved := E_PARA_VALUE, tv_mem := pv_mem z\<rparr>) = Some (Inr (length buf, tb, pv_mem z)) \<and>
      \<not> tb_error tb \<and> tb_param_lst tb = tb_param_lst (pv_to z)"
    using err by (auto simp: to_end_def to_done_def Let_def)
  with 1 L(1) show ?thesis by (auto simp: to_list_def)
qed

lemma parse_to_lost_param_witness:
  "\<exists>tb m'. parse_to (name_addr None ''sip:a'' @ CHR '';'' # ''tag'') zero_to sample_mem =
      Some (Inr (11, tb, m')) \<and> \<not> tb_error tb \<and> dom (pk_block m') = {40}"
proof -
  define buf where "buf = name_addr None ''sip:a'' @ CHR '';'' # ''tag''"
  have l: "length buf = 11" by (simp add: buf_def name_addr_def display_text_def)
  have "\<exists>tb m'. parse_to buf zero_to sample_mem = Some (Inr (length buf, tb, m')) \<and> \<not> tb_error tb \<and>
      tb_param_lst tb = None \<and> dom (pk_block m') = insert 40 (dom (pk_block sample_mem)) \<and>
      40 \<notin> dom (pk_block sample_mem)"
    by (rule parse_to_lost_param [OF _ _ sample_mem_ok, where u = "''sip:a''" and n = "''tag''" and ans = "[Some 80]"])
      (simp_all add: buf_def uri_ok_def uri_char_def name_chars_def tok_char_def sample_mem_def)
  then show ?thesis unfolding l buf_def [symmetric] by (auto simp: sample_mem_def)
qed

lemma to_scan_start:
  assumes "list_all uri_char t" "CHR '';'' \<notin> set t" "stands buf p t" "tv_status x = URI_OR_TOKEN"
  shows "to_loop buf p x = to_loop buf (p + length t) x"
proof (rule scan_same)
  show "p + length t \<le> length buf" using assms(3) by (simp add: stands_def)
  fix i assume "p \<le> i" "i < p + length t"
  with stands_mem [OF assms(3)] have "buf ! i \<in> set t" by simp
  then have "uri_char (buf ! i)" using assms(1) by (simp add: list_all_iff)
  moreover from \<open>buf ! i \<in> set t\<close> assms(2) have "buf ! i \<noteq> CHR '';''" by metis
  ultimately show "to_step buf i x = Inr (i, x)"
    using assms(4) by (simp add: to_step_def Let_def uri_char_def to_other_def)
qed simp

text \<open>
  A name, a folded line, and a URI whose closing bracket is missing because the message
  ends there: \<open>parse_to\<close> reports no error, and gives the URI a negative length, the distance
  from its first character back to the end of the name.
\<close>

theorem parse_to_negative_length:
  assumes t: "t \<noteq> []" "list_all uri_char t" "CHR '';'' \<notin> set t" and u: "uri_ok u"
    and buf: "buf = t @ [CHR 0x0D, CHR 0x0A, CHR 0x20, CHR ''<''] @ u"
  shows "\<exists>tb. parse_to buf zero_to m = Some (Inr (length buf, tb, m)) \<and> \<not> tb_error tb \<and>
    tb_uri tb = Str (Buf (length t + 4)) (- 4)"
proof -
  let ?n = "length t"
  from t(1) obtain c t' where c: "t = c # t'" by (cases t) auto
  have "stands buf 0 buf" by simp
  then have s: "0 < length buf" "buf ! 0 = c" "stands buf 1 t'" "?n < length buf" "buf ! ?n = CHR 0x0D"
    "Suc ?n < length buf" "buf ! Suc ?n = CHR 0x0A" "Suc (Suc ?n) < length buf" "buf ! Suc (Suc ?n) = CHR 0x20"
    "Suc (Suc (Suc ?n)) < length buf" "buf ! Suc (Suc (Suc ?n)) = CHR ''<''"
    "stands buf (Suc (Suc (Suc (Suc ?n)))) u" "Suc (Suc (Suc (Suc ?n))) + length u = length buf"
    unfolding buf using c by (simp_all add: stands_append stands_Cons)
  from u obtain e u' where e: "u = e # u'" "e \<noteq> CHR '';''" "uri_char e" "list_all uri_char u'"
    by (cases u) (auto simp: uri_ok_def)
  let ?p = "Suc (Suc (Suc (Suc ?n)))"
  from s(12) e(1) have s': "?p < length buf" "buf ! ?p = e" "stands buf (Suc ?p) u'" "Suc ?p + length u' = length buf"
    using s(13) by (simp_all add: stands_Cons)
  let ?S = "start_str 0 null_str"
  define x1 where "x1 = (start_vars m)\<lparr>tv_to := zero_to\<lparr>tb_body := ?S, tb_uri := ?S, tb_display := ?S\<rparr>,
    tv_status := URI_OR_TOKEN\<rparr>"
  define x2 where "x2 = x1\<lparr>tv_end_mark := Some ?n, tv_saved := MAYBE_URI_END, tv_status := F_CR\<rparr>"
  define x3 where "x3 = x2\<lparr>tv_to := zero_to\<lparr>tb_body := ?S, tb_uri := ?S, tb_display := span 0 ?n\<rparr>,
    tv_status := S_URI_ENCLOSED\<rparr>"
  define x4 where "x4 = x3\<lparr>tv_to := zero_to\<lparr>tb_body := ?S, tb_uri := start_str ?p null_str, tb_display := span 0 ?n\<rparr>,
    tv_status := URI_ENCLOSED\<rparr>"
  have uc: "uri_char c" "c \<noteq> CHR '';''" "list_all uri_char t'" "CHR '';'' \<notin> set t'" using t c by auto
  have "to_step buf 0 (start_vars m) = Inr (0, x1)"
    using uc s(2) by (simp add: to_step_def Let_def uri_char_def to_other_def to_on_def start_vars_def x1_def zero_to_def)
  from to_loop_on [OF s(1) this] to_scan_start [OF uc(3,4), of buf 1 x1] s(3) c
  have 1: "to_loop buf 0 (start_vars m) = to_loop buf ?n x1" by (simp add: x1_def)
  have "to_step buf ?n x1 = Inr (?n, x2)"
    using s(5) by (simp add: to_step_def to_cr_def to_fold_def x1_def x2_def)
  note 2 = to_loop_on [OF s(4) this]
  have "to_step buf (Suc ?n) x2 = Inr (Suc ?n, x2\<lparr>tv_status := F_CRLF\<rparr>)"
    using s(7) by (simp add: to_step_def to_lf_def to_on_def x2_def)
  note 3 = to_loop_on [OF s(6) this]
  have "to_step buf (Suc (Suc ?n)) (x2\<lparr>tv_status := F_CRLF\<rparr>) = Inr (Suc (Suc ?n), x2\<lparr>tv_status := MAYBE_URI_END\<rparr>)"
    using s(9) by (simp add: to_step_def to_space_def to_on_def x2_def)
  note 4 = to_loop_on [OF s(8) this]
  have "to_step buf (Suc (Suc (Suc ?n))) (x2\<lparr>tv_status := MAYBE_URI_END\<rparr>) = Inr (Suc (Suc (Suc ?n)), x3)"
    using s(11) by (simp add: to_step_def to_less_def to_on_def display_end_at_def x3_def x2_def x1_def)
  note 5 = to_loop_on [OF s(10) this]
  have "to_step buf ?p x3 = Inr (?p, x4)"
    using e s'(2) by (simp add: to_step_def Let_def uri_char_def to_other_def to_on_def x3_def x4_def start_str_def)
  note 6 = to_loop_on [OF s'(1) this]
  have "to_loop buf (Suc ?p) x4 = Inr (length buf, x4)"
    using to_scan_uri [OF e(4) s'(3), of x4] s'(4) by (simp add: x4_def scan_end)
  with 1 2 3 4 5 6 have L: "to_loop buf 0 (start_vars m) = Inr (length buf, x4)" by simp
  have "\<exists>tb. to_end (length buf) x4 = Some (Inr (length buf, tb, m)) \<and> \<not> tb_error tb \<and>
      tb_uri tb = Str (Buf ?p) (- 4)"
    using t(1) by (simp add: to_end_def Let_def x4_def x3_def x2_def x1_def start_vars_def uri_end_at_def
        body_end_def to_done_def zero_to_def end_str_def start_str_def)
  moreover have "?p = ?n + 4" by simp
  ultimately show ?thesis using L by (simp only: parse_to_start sum.case prod.case)
qed

lemma parse_to_negative_length_witness:
  "\<exists>tb. parse_to (''bob'' @ [CHR 0x0D, CHR 0x0A, CHR 0x20, CHR ''<''] @ ''sip:a'') zero_to sample_mem =
      Some (Inr (12, tb, sample_mem)) \<and> \<not> tb_error tb \<and> tb_uri tb = Str (Buf 7) (- 4)"
  using parse_to_negative_length [OF _ _ _ _ refl, of "''bob''" "''sip:a''" sample_mem]
  by (simp add: uri_char_def uri_ok_def eval_nat_numeral)

end
