(* ===== verification/Read_Buffer.thy ===== *)
theory Read_Buffer
  imports Scan
begin

text \<open>
  Reading a buffer byte by byte, with a fault where a read leaves it, the runs of bytes that
  the small scanners of the parsers skip, and letters in either case.
\<close>

definition byte_at :: "string \<Rightarrow> nat \<Rightarrow> fault + char" where
  "byte_at buf p = (if p < length buf then Inr (buf ! p) else Inl Out_of_bounds)"

text \<open>
  The bytes from \<open>p\<close> on, at most up to \<open>w\<close>, as long as \<open>P\<close> holds: the place of the first other
  byte, or \<open>w\<close>.
\<close>

definition run_while :: "(char \<Rightarrow> bool) \<Rightarrow> string \<Rightarrow> nat \<Rightarrow> nat \<Rightarrow> fault + nat" where
  "run_while P buf p w =
     (let q = p + length (takeWhile P (take (w - p) (drop p buf)))
      in if q < w \<and> length buf \<le> q then Inl Out_of_bounds else Inr q)"

lemma run_while_stop:
  assumes "stands buf p s" "list_all P s" "p + length s < w" "p + length s < length buf" "\<not> P (buf ! (p + length s))"
  shows "run_while P buf p w = Inr (p + length s)"
proof -
  let ?c = "p + length s"
  have "take (w - p) (drop p buf) = s @ take (w - ?c) (drop ?c buf)"
  proof -
    have "drop p buf = s @ drop ?c buf"
      using assms(1) append_take_drop_id [of "length s" "drop p buf"]
      by (simp add: stands_def add.commute)
    with assms(3) show ?thesis by simp
  qed
  moreover have "take (w - ?c) (drop ?c buf) = buf ! ?c # take (w - ?c - 1) (drop (Suc ?c) buf)"
  proof -
    have "drop ?c buf = buf ! ?c # drop (Suc ?c) buf" using assms(4) by (simp add: Cons_nth_drop_Suc)
    with assms(3) show ?thesis by (cases "w - ?c") auto
  qed
  ultimately have "takeWhile P (take (w - p) (drop p buf)) = s"
    using assms(2,5) by (simp add: takeWhile_append2 list_all_iff)
  with assms(4) show ?thesis by (simp add: run_while_def)
qed

lemma run_while_ge: "run_while P buf p w = Inr q \<Longrightarrow> p \<le> q"
  by (auto simp: run_while_def Let_def split: if_splits)

lemma byte_at_Inr [simp]: "p < length buf \<Longrightarrow> byte_at buf p = Inr (buf ! p)"
  by (simp add: byte_at_def)

lemma run_while_le:
  assumes "run_while P buf p w = Inr q" "p \<le> w"
  shows "q \<le> w"
proof -
  have "length (takeWhile P (take (w - p) (drop p buf))) \<le> w - p"
    by (rule order_trans [OF length_takeWhile_le]) simp
  with assms show ?thesis by (auto simp: run_while_def Let_def split: if_splits)
qed

lemma run_while_inside:
  assumes "p \<le> w" "w \<le> length buf"
  shows "\<exists>q. run_while P buf p w = Inr q \<and> p \<le> q \<and> q \<le> w \<and> (q < w \<longrightarrow> \<not> P (buf ! q)) \<and> (\<forall>i. p \<le> i \<and> i < q \<and> i < w \<longrightarrow> P (buf ! i))"
proof -
  let ?s = "take (w - p) (drop p buf)" and ?k = "length (takeWhile P (take (w - p) (drop p buf)))"
  have "\<not> P (buf ! (p + ?k))" if "p + ?k < w"
  proof -
    have "?k < length ?s" using that assms by simp
    from nth_length_takeWhile [OF this] have "\<not> P (?s ! ?k)" .
    with that assms show ?thesis by simp
  qed
  moreover have "P (buf ! i)" if "p \<le> i" "i < p + ?k" "i < w" for i
  proof -
    have "takeWhile P ?s ! (i - p) \<in> set (takeWhile P ?s)" using that by (intro nth_mem) simp
    then have "P (takeWhile P ?s ! (i - p))" by (blast dest: set_takeWhileD)
    moreover have "takeWhile P ?s ! (i - p) = ?s ! (i - p)" using that by (intro takeWhile_nth) simp
    ultimately show ?thesis using that assms by simp
  qed
  moreover have "?k \<le> w - p" by (rule order_trans [OF length_takeWhile_le]) simp
  ultimately show ?thesis using assms by (auto simp: run_while_def Let_def)
qed

text \<open>A letter in either case, and any other character.\<close>

lemma lower_char_letter:
  assumes "97 \<le> (of_char a :: nat)" "of_char a \<le> (122 :: nat)" "(of_char a :: nat) = of_char b + 32"
  shows "lower_char c = a \<longleftrightarrow> c = a \<or> c = b"
proof -
  have l: "(of_char (lower_char c) :: nat) = (if 65 \<le> (of_char c :: nat) \<and> of_char c \<le> (90 :: nat) then of_char c + 32 else of_char c)"
    by (simp add: lower_char_def)
  have "lower_char c = a \<longleftrightarrow> (of_char (lower_char c) :: nat) = of_char a"
    "c = a \<or> c = b \<longleftrightarrow> (of_char c :: nat) = of_char a \<or> (of_char c :: nat) = of_char b" by simp_all
  note e = this
  show ?thesis unfolding e l using assms by presburger
qed

lemma lower_char_other:
  assumes "(of_char a :: nat) < 65"
  shows "lower_char c = a \<longleftrightarrow> c = a"
proof -
  have l: "(of_char (lower_char c) :: nat) = (if 65 \<le> (of_char c :: nat) \<and> of_char c \<le> (90 :: nat) then of_char c + 32 else of_char c)"
    by (simp add: lower_char_def)
  have e: "lower_char c = a \<longleftrightarrow> (of_char (lower_char c) :: nat) = of_char a" "c = a \<longleftrightarrow> (of_char c :: nat) = of_char a"
    by simp_all
  show ?thesis unfolding e l using assms by presburger
qed

end
