(* ===== verification/Hname2.thy ===== *)
theory Hname2
  imports Read_Buffer
begin

text \<open>
  The header name recogniser, \<open>src/core/parser/parse_hname2.c\<close> with its tables \<open>keys.h\<close> and
  \<open>case_*.h\<close>: the name is read four bytes at a time, each four as one integer that is compared
  with the constants of \<open>keys.h\<close>. The macros jump to labels of the function that uses them; a
  jump is a value here. Reading outside the buffer is the fault \<open>Out_of_bounds\<close>; the buffer may
  be longer than the message in it, which ends at \<open>e\<close>.
\<close>

section \<open>Header types\<close>

datatype hdr_type =
    HDR_ERROR_T | HDR_OTHER_T | HDR_VIA_T | HDR_VIA2_T | HDR_TO_T | HDR_FROM_T | HDR_CSEQ_T
  | HDR_CALLID_T | HDR_CONTACT_T | HDR_MAXFORWARDS_T | HDR_ROUTE_T | HDR_RECORDROUTE_T
  | HDR_PATH_T | HDR_CONTENTTYPE_T | HDR_CONTENTLENGTH_T | HDR_AUTHORIZATION_T | HDR_EXPIRES_T
  | HDR_PROXYAUTH_T | HDR_SUPPORTED_T | HDR_PROXYREQUIRE_T | HDR_UNSUPPORTED_T | HDR_ALLOW_T
  | HDR_EVENT_T | HDR_ACCEPT_T | HDR_ACCEPTLANGUAGE_T | HDR_ORGANIZATION_T | HDR_PRIORITY_T
  | HDR_SUBJECT_T | HDR_USERAGENT_T | HDR_ACCEPTDISPOSITION_T | HDR_CONTENTDISPOSITION_T
  | HDR_DIVERSION_T | HDR_RPID_T | HDR_REFER_TO_T | HDR_SESSION_EXPIRES_T | HDR_MIN_SE_T
  | HDR_PPI_T | HDR_PAI_T | HDR_PRIVACY_T | HDR_RETRY_AFTER_T | HDR_EOH_T

text \<open>The fields of \<open>struct hdr_field\<close> this function writes.\<close>

record hdr_field =
  h_type :: hdr_type
  h_name :: cstr

section \<open>Keys\<close>

definition K_even :: u32 where "K_even = 0x6e657665"
definition K_acce :: u32 where "K_acce = 0x65636361"
definition K_allo :: u32 where "K_allo = 0x6f6c6c61"
definition K_auth :: u32 where "K_auth = 0x68747561"
definition K_oriz :: u32 where "K_oriz = 0x7a69726f"
definition K_atio :: u32 where "K_atio = 0x6f697461"
definition K_call :: u32 where "K_call = 0x6c6c6163"
definition K_id2 :: u32 where "K_id2 = 0x2064692d"
definition K_id1 :: u32 where "K_id1 = 0x3a64692d"
definition K_cont :: u32 where "K_cont = 0x746e6f63"
definition K_act2 :: u32 where "K_act2 = 0x20746361"
definition K_act1 :: u32 where "K_act1 = 0x3a746361"
definition K_ent :: u32 where "K_ent = 0x2d746e65"
definition K_leng :: u32 where "K_leng = 0x676e656c"
definition K_th12 :: u32 where "K_th12 = 0x203a6874"
definition K_type :: u32 where "K_type = 0x65707974"
definition K_cseq :: u32 where "K_cseq = 0x71657363"
definition K_expi :: u32 where "K_expi = 0x69707865"
definition K_res2 :: u32 where "K_res2 = 0x20736572"
definition K_res1 :: u32 where "K_res1 = 0x3a736572"
definition K_from :: u32 where "K_from = 0x6d6f7266"
definition K_max :: u32 where "K_max = 0x2d78616d"
definition K_forw :: u32 where "K_forw = 0x77726f66"
definition K_ards :: u32 where "K_ards = 0x73647261"
definition K_prox :: u32 where "K_prox = 0x786f7270"
definition K_y_au :: u32 where "K_y_au = 0x75612d79"
definition K_thor :: u32 where "K_thor = 0x726f6874"
definition K_izat :: u32 where "K_izat = 0x74617a69"
definition K_ion2 :: u32 where "K_ion2 = 0x206e6f69"
definition K_ion1 :: u32 where "K_ion1 = 0x3a6e6f69"
definition K_y_re :: u32 where "K_y_re = 0x65722d79"
definition K_quir :: u32 where "K_quir = 0x72697571"
definition K_reco :: u32 where "K_reco = 0x6f636572"
definition K_rd_r :: u32 where "K_rd_r = 0x722d6472"
definition K_oute :: u32 where "K_oute = 0x6574756f"
definition K_rout :: u32 where "K_rout = 0x74756f72"
definition K_path :: u32 where "K_path = 0x68746170"
definition K_supp :: u32 where "K_supp = 0x70707573"
definition K_orte :: u32 where "K_orte = 0x6574726f"
definition K_to12 :: u32 where "K_to12 = 0x203a6f74"
definition K_unsu :: u32 where "K_unsu = 0x75736e75"
definition K_ppor :: u32 where "K_ppor = 0x726f7070"
definition K_ted2 :: u32 where "K_ted2 = 0x20646574"
definition K_ted1 :: u32 where "K_ted1 = 0x3a646574"
definition K_via2 :: u32 where "K_via2 = 0x20616976"
definition K_via1 :: u32 where "K_via1 = 0x3a616976"
definition K_pt_l :: u32 where "K_pt_l = 0x6c2d7470"
definition K_angu :: u32 where "K_angu = 0x75676e61"
definition K_age2 :: u32 where "K_age2 = 0x20656761"
definition K_age1 :: u32 where "K_age1 = 0x3a656761"
definition K_orga :: u32 where "K_orga = 0x6167726f"
definition K_niza :: u32 where "K_niza = 0x617a696e"
definition K_tion :: u32 where "K_tion = 0x6e6f6974"
definition K_prio :: u32 where "K_prio = 0x6f697270"
definition K_rity :: u32 where "K_rity = 0x79746972"
definition K_subj :: u32 where "K_subj = 0x6a627573"
definition K_ect2 :: u32 where "K_ect2 = 0x20746365"
definition K_ect1 :: u32 where "K_ect1 = 0x3a746365"
definition K_user :: u32 where "K_user = 0x72657375"
definition K_dash_age :: u32 where "K_dash_age = 0x6567612d"
definition K_disp :: u32 where "K_disp = 0x70736964"
definition K_osit :: u32 where "K_osit = 0x7469736f"
definition K_pt_d :: u32 where "K_pt_d = 0x64617470"
definition K_ispo :: u32 where "K_ispo = 0x6f707369"
definition K_siti :: u32 where "K_siti = 0x69746973"
definition K_dive :: u32 where "K_dive = 0x65766964"
definition K_rsio :: u32 where "K_rsio = 0x6f697372"
definition K_remo :: u32 where "K_remo = 0x6f6d6572"
definition K_te_p :: u32 where "K_te_p = 0x702d6574"
definition K_arty :: u32 where "K_arty = 0x79747261"
definition K_refe :: u32 where "K_refe = 0x65666572"
definition K_r_to :: u32 where "K_r_to = 0x6f742d72"
definition K_sess :: u32 where "K_sess = 0x73736573"
definition K_ion :: u32 where "K_ion = 0x2d6e6f69"
definition K_min :: u32 where "K_min = 0x2d6e696d"
definition K_p_pr :: u32 where "K_p_pr = 0x72702d70"
definition K_efer :: u32 where "K_efer = 0x72656665"
definition K_red :: u32 where "K_red = 0x2d646572"
definition K_iden :: u32 where "K_iden = 0x6e656469"
definition K_tity :: u32 where "K_tity = 0x79746974"
definition K_p_as :: u32 where "K_p_as = 0x73612d70"
definition K_sert :: u32 where "K_sert = 0x74726573"
definition K_ed_i :: u32 where "K_ed_i = 0x692d6465"
definition K_dent :: u32 where "K_dent = 0x746e6564"
definition K_ity2 :: u32 where "K_ity2 = 0x20797469"
definition K_ity1 :: u32 where "K_ity1 = 0x3a797469"
definition K_priv :: u32 where "K_priv = 0x76697270"
definition K_acy2 :: u32 where "K_acy2 = 0x20796361"
definition K_acy1 :: u32 where "K_acy1 = 0x3a796361"
definition K_retr :: u32 where "K_retr = 0x72746572"
definition K_y_af :: u32 where "K_y_af = 0x66612d79"
definition K_ter2 :: u32 where "K_ter2 = 0x20726574"
definition K_ter1 :: u32 where "K_ter1 = 0x3a726574"

section \<open>Reading the buffer\<close>

text \<open>\<open>READ\<close>: \<open>char\<close> is signed, so that a byte from 128 on borrows from the next one.\<close>

definition signed_byte :: "char \<Rightarrow> u32" where
  "signed_byte c = signed (of_char c :: u8)"

definition READ :: "string \<Rightarrow> nat \<Rightarrow> fault + u32" where
  "READ buf p =
     (if p + 3 < length buf
      then Inr (signed_byte (buf ! p) + push_bit 8 (signed_byte (buf ! (p + 1)))
                + push_bit 16 (signed_byte (buf ! (p + 2))) + push_bit 24 (signed_byte (buf ! (p + 3))))
      else Inl Out_of_bounds)"

definition LOWER_DWORD :: "u32 \<Rightarrow> u32" where
  "LOWER_DWORD d = or d 0x20202020"

definition LOWER_BYTE :: "char \<Rightarrow> char" where
  "LOWER_BYTE b = char_of (or (of_char b :: nat) 0x20)"

text \<open>A size is an \<open>unsigned int\<close>: \<open>end - p\<close> wraps when \<open>p\<close> has passed the end.\<close>

definition size_to :: "nat \<Rightarrow> nat \<Rightarrow> u32" where
  "size_to p e = word_of_int (int e - int p)"

definition skip_ws :: "string \<Rightarrow> nat \<Rightarrow> u32 \<Rightarrow> fault + nat" where
  "skip_ws buf p sz = run_while (\<lambda>c. c = CHR 0x20 \<or> c = CHR 0x09) buf p (p + unat sz)"

definition find_char :: "string \<Rightarrow> nat \<Rightarrow> char \<Rightarrow> u32 \<Rightarrow> fault + nat option" where
  "find_char buf p c sz =
     ebind (run_while (\<lambda>x. x \<noteq> c) buf p (p + unat sz)) (\<lambda>q.
       Inr (if q < p + unat sz then Some q else None))"

section \<open>Where a macro jumps to\<close>

text \<open>
  \<open>Ret q t n\<close>: \<open>hdr->type = t; hdr->name.len = n; return q\<close>. \<open>Dc_end q t\<close>: with \<open>p = q\<close> and the
  type set, to the label that looks for the colon. \<open>Other q\<close>: to the label for other headers. A
  \<open>switch\<close> or \<open>if\<close> of a macro that finds nothing falls through to the \<open>goto other\<close> of the macro
  that uses it. The macros are given the lower-cased \<open>val\<close>, and \<open>p\<close>.
\<close>

datatype hn_goto = Ret nat hdr_type nat | Dc_end nat hdr_type | Other nat

type_synonym hn_act = "fault + hn_goto"

text \<open>\<open>p += 4; val = READ(p); ...\<close>, and a test of the byte at \<open>p\<close>.\<close>

definition next4 :: "string \<Rightarrow> nat \<Rightarrow> (u32 \<Rightarrow> nat \<Rightarrow> hn_act) \<Rightarrow> hn_act" where
  "next4 buf p k = ebind (READ buf (p + 4)) (\<lambda>val. k (LOWER_DWORD val) (p + 4))"

definition if_byte :: "string \<Rightarrow> nat \<Rightarrow> char \<Rightarrow> hn_act \<Rightarrow> hn_act \<Rightarrow> hn_act" where
  "if_byte buf p c yes no = ebind (byte_at buf p) (\<lambda>b. if LOWER_BYTE b = c then yes else no)"

section \<open>The macros of \<open>case_*.h\<close>\<close>

definition via1_CASE :: "nat \<Rightarrow> hn_act" where
  "via1_CASE p = Inr (Ret (p + 4) HDR_VIA_T 3)"

definition via2_CASE :: "nat \<Rightarrow> hn_act" where
  "via2_CASE p = Inr (Dc_end (p + 4) HDR_VIA_T)"

definition from_CASE :: "nat \<Rightarrow> hn_act" where
  "from_CASE p = Inr (Dc_end (p + 4) HDR_FROM_T)"

definition to12_CASE :: "nat \<Rightarrow> hn_act" where
  "to12_CASE p = Inr (Ret (p + 4) HDR_TO_T 2)"

definition cseq_CASE :: "nat \<Rightarrow> hn_act" where
  "cseq_CASE p = Inr (Dc_end (p + 4) HDR_CSEQ_T)"

definition ID_CASE :: "u32 \<Rightarrow> nat \<Rightarrow> hn_act" where
  "ID_CASE val p =
     (if val = K_id1 then Inr (Ret (p + 4) HDR_CALLID_T 7)
      else if val = K_id2 then Inr (Dc_end (p + 4) HDR_CALLID_T)
      else Inr (Other p))"

definition call_CASE :: "string \<Rightarrow> nat \<Rightarrow> hn_act" where
  "call_CASE buf p = next4 buf p ID_CASE"

definition TH_CASE :: "string \<Rightarrow> u32 \<Rightarrow> nat \<Rightarrow> hn_act" where
  "TH_CASE buf val p =
     (if val = K_th12 then Inr (Ret (p + 4) HDR_CONTENTLENGTH_T 14)
      else if_byte buf p CHR ''t''
             (if_byte buf (p + 1) CHR ''h'' (Inr (Dc_end (p + 2) HDR_CONTENTLENGTH_T))
                (Inr (Other (p + 1))))
             (Inr (Other p)))"

definition ion_CASE :: "u32 \<Rightarrow> nat \<Rightarrow> hn_act" where
  "ion_CASE val p =
     (if val = K_ion1 then Inr (Ret (p + 4) HDR_CONTENTDISPOSITION_T 19)
      else if val = K_ion2 then Inr (Dc_end (p + 4) HDR_CONTENTDISPOSITION_T)
      else Inr (Other p))"

definition DISPOSITION_CASE :: "string \<Rightarrow> u32 \<Rightarrow> nat \<Rightarrow> hn_act" where
  "DISPOSITION_CASE buf val p = (if val = K_osit then next4 buf p ion_CASE else Inr (Other p))"

definition CONTENT_CASE :: "string \<Rightarrow> u32 \<Rightarrow> nat \<Rightarrow> hn_act" where
  "CONTENT_CASE buf val p =
     (if val = K_leng then next4 buf p (TH_CASE buf)
      else if val = K_type then Inr (Dc_end (p + 4) HDR_CONTENTTYPE_T)
      else if val = K_disp then next4 buf p (DISPOSITION_CASE buf)
      else Inr (Other p))"

definition ACT_ENT_CASE :: "string \<Rightarrow> u32 \<Rightarrow> nat \<Rightarrow> hn_act" where
  "ACT_ENT_CASE buf val p =
     (if val = K_act1 then Inr (Ret (p + 4) HDR_CONTACT_T 7)
      else if val = K_act2 then Inr (Dc_end (p + 4) HDR_CONTACT_T)
      else if val = K_ent then next4 buf p (CONTENT_CASE buf)
      else Inr (Other p))"

definition cont_CASE :: "string \<Rightarrow> nat \<Rightarrow> hn_act" where
  "cont_CASE buf p = next4 buf p (ACT_ENT_CASE buf)"

definition rout_CASE :: "string \<Rightarrow> nat \<Rightarrow> hn_act" where
  "rout_CASE buf p =
     if_byte buf (p + 4) CHR ''e'' (Inr (Dc_end (p + 5) HDR_ROUTE_T)) (Inr (Other (p + 4)))"

definition ARDS_CASE :: "u32 \<Rightarrow> nat \<Rightarrow> hn_act" where
  "ARDS_CASE val p =
     (if val = K_ards then Inr (Dc_end (p + 4) HDR_MAXFORWARDS_T) else Inr (Other p))"

definition FORW_CASE :: "string \<Rightarrow> u32 \<Rightarrow> nat \<Rightarrow> hn_act" where
  "FORW_CASE buf val p = (if val = K_forw then next4 buf p ARDS_CASE else Inr (Other p))"

definition max_CASE :: "string \<Rightarrow> nat \<Rightarrow> hn_act" where
  "max_CASE buf p = next4 buf p (FORW_CASE buf)"

definition OUTE_CASE :: "u32 \<Rightarrow> nat \<Rightarrow> hn_act" where
  "OUTE_CASE val p =
     (if val = K_oute then Inr (Dc_end (p + 4) HDR_RECORDROUTE_T) else Inr (Other p))"

definition RD_R_CASE :: "string \<Rightarrow> u32 \<Rightarrow> nat \<Rightarrow> hn_act" where
  "RD_R_CASE buf val p = (if val = K_rd_r then next4 buf p OUTE_CASE else Inr (Other p))"

definition reco_CASE :: "string \<Rightarrow> nat \<Rightarrow> hn_act" where
  "reco_CASE buf p = next4 buf p (RD_R_CASE buf)"

text \<open>\<open>Path\<close>: only with the colon right behind it; \<open>p\<close> stays at the colon.\<close>

definition path_CASE :: "string \<Rightarrow> nat \<Rightarrow> hn_act" where
  "path_CASE buf p =
     if_byte buf (p + 4) CHR '':'' (Inr (Dc_end (p + 4) HDR_PATH_T)) (Inr (Other (p + 4)))"

definition AUTH_ATIO_CASE :: "string \<Rightarrow> u32 \<Rightarrow> nat \<Rightarrow> hn_act" where
  "AUTH_ATIO_CASE buf val p =
     (if val = K_atio
      then if_byte buf (p + 4) CHR ''n'' (Inr (Dc_end (p + 5) HDR_AUTHORIZATION_T))
             (Inr (Other (p + 4)))
      else Inr (Other p))"

definition AUTH_ORIZ_CASE :: "string \<Rightarrow> u32 \<Rightarrow> nat \<Rightarrow> hn_act" where
  "AUTH_ORIZ_CASE buf val p =
     (if val = K_oriz then next4 buf p (AUTH_ATIO_CASE buf) else Inr (Other p))"

definition auth_CASE :: "string \<Rightarrow> nat \<Rightarrow> hn_act" where
  "auth_CASE buf p = next4 buf p (AUTH_ORIZ_CASE buf)"

definition EXPI_RES_CASE :: "u32 \<Rightarrow> nat \<Rightarrow> hn_act" where
  "EXPI_RES_CASE val p =
     (if val = K_res1 then Inr (Ret (p + 4) HDR_EXPIRES_T 7)
      else if val = K_res2 then Inr (Dc_end (p + 4) HDR_EXPIRES_T)
      else Inr (Other p))"

definition expi_CASE :: "string \<Rightarrow> nat \<Rightarrow> hn_act" where
  "expi_CASE buf p = next4 buf p EXPI_RES_CASE"

definition ION_CASE :: "u32 \<Rightarrow> nat \<Rightarrow> hn_act" where
  "ION_CASE val p =
     (if val = K_ion1 then Inr (Ret (p + 4) HDR_PROXYAUTH_T 19)
      else if val = K_ion2 then Inr (Dc_end (p + 4) HDR_PROXYAUTH_T)
      else Inr (Other p))"

definition IZAT_CASE :: "string \<Rightarrow> u32 \<Rightarrow> nat \<Rightarrow> hn_act" where
  "IZAT_CASE buf val p = (if val = K_izat then next4 buf p ION_CASE else Inr (Other p))"

definition THOR_CASE :: "string \<Rightarrow> u32 \<Rightarrow> nat \<Rightarrow> hn_act" where
  "THOR_CASE buf val p = (if val = K_thor then next4 buf p (IZAT_CASE buf) else Inr (Other p))"

definition QUIR_CASE :: "string \<Rightarrow> u32 \<Rightarrow> nat \<Rightarrow> hn_act" where
  "QUIR_CASE buf val p =
     (if val = K_quir
      then if_byte buf (p + 4) CHR ''e'' (Inr (Dc_end (p + 5) HDR_PROXYREQUIRE_T))
             (Inr (Other (p + 4)))
      else Inr (Other p))"

definition PROX2_CASE :: "string \<Rightarrow> u32 \<Rightarrow> nat \<Rightarrow> hn_act" where
  "PROX2_CASE buf val p =
     (if val = K_y_au then next4 buf p (THOR_CASE buf)
      else if val = K_y_re then next4 buf p (QUIR_CASE buf)
      else Inr (Other p))"

definition prox_CASE :: "string \<Rightarrow> nat \<Rightarrow> hn_act" where
  "prox_CASE buf p = next4 buf p (PROX2_CASE buf)"

definition allo_CASE :: "string \<Rightarrow> nat \<Rightarrow> hn_act" where
  "allo_CASE buf p =
     if_byte buf (p + 4) CHR ''w'' (Inr (Dc_end (p + 5) HDR_ALLOW_T)) (Inr (Other (p + 4)))"

definition TED_CASE :: "u32 \<Rightarrow> nat \<Rightarrow> hn_act" where
  "TED_CASE val p =
     (if val = K_ted1 then Inr (Ret (p + 4) HDR_UNSUPPORTED_T 11)
      else if val = K_ted2 then Inr (Dc_end (p + 4) HDR_UNSUPPORTED_T)
      else Inr (Other p))"

definition PPOR_CASE :: "string \<Rightarrow> u32 \<Rightarrow> nat \<Rightarrow> hn_act" where
  "PPOR_CASE buf val p = (if val = K_ppor then next4 buf p TED_CASE else Inr (Other p))"

definition unsu_CASE :: "string \<Rightarrow> nat \<Rightarrow> hn_act" where
  "unsu_CASE buf p = next4 buf p (PPOR_CASE buf)"

definition even_CASE :: "string \<Rightarrow> nat \<Rightarrow> hn_act" where
  "even_CASE buf p =
     if_byte buf (p + 4) CHR ''t'' (Inr (Dc_end (p + 5) HDR_EVENT_T)) (Inr (Other (p + 4)))"

definition age_CASE :: "u32 \<Rightarrow> nat \<Rightarrow> hn_act" where
  "age_CASE val p =
     (if val = K_age1 then Inr (Ret (p + 4) HDR_ACCEPTLANGUAGE_T 15)
      else if val = K_age2 then Inr (Dc_end (p + 4) HDR_ACCEPTLANGUAGE_T)
      else Inr (Other p))"

definition angu_CASE :: "string \<Rightarrow> u32 \<Rightarrow> nat \<Rightarrow> hn_act" where
  "angu_CASE buf val p = (if val = K_angu then next4 buf p age_CASE else Inr (Other p))"

definition on_CASE :: "string \<Rightarrow> u32 \<Rightarrow> nat \<Rightarrow> hn_act" where
  "on_CASE buf val p =
     if_byte buf p CHR ''o''
       (if_byte buf (p + 1) CHR ''n'' (Inr (Dc_end (p + 2) HDR_ACCEPTDISPOSITION_T))
          (Inr (Other (p + 1))))
       (Inr (Other p))"

definition siti_CASE :: "string \<Rightarrow> u32 \<Rightarrow> nat \<Rightarrow> hn_act" where
  "siti_CASE buf val p = (if val = K_siti then next4 buf p (on_CASE buf) else Inr (Other p))"

definition ispo_CASE :: "string \<Rightarrow> u32 \<Rightarrow> nat \<Rightarrow> hn_act" where
  "ispo_CASE buf val p = (if val = K_ispo then next4 buf p (siti_CASE buf) else Inr (Other p))"

definition ptld_CASE :: "string \<Rightarrow> u32 \<Rightarrow> nat \<Rightarrow> hn_act \<Rightarrow> hn_act" where
  "ptld_CASE buf val p no =
     (if val = K_pt_l then next4 buf p (angu_CASE buf)
      else if val = K_pt_d then next4 buf p (ispo_CASE buf)
      else no)"

definition acce_CASE :: "string \<Rightarrow> nat \<Rightarrow> hn_act" where
  "acce_CASE buf p =
     next4 buf p (\<lambda>val p.
       ptld_CASE buf val p
         (if_byte buf p CHR ''p''
            (if_byte buf (p + 1) CHR ''t'' (Inr (Dc_end (p + 2) HDR_ACCEPT_T))
               (Inr (Other (p + 1))))
            (Inr (Other p))))"

definition tion_CASE :: "u32 \<Rightarrow> nat \<Rightarrow> hn_act" where
  "tion_CASE val p =
     (if val = K_tion then Inr (Dc_end (p + 4) HDR_ORGANIZATION_T) else Inr (Other p))"

definition niza_CASE :: "string \<Rightarrow> u32 \<Rightarrow> nat \<Rightarrow> hn_act" where
  "niza_CASE buf val p = (if val = K_niza then next4 buf p tion_CASE else Inr (Other p))"

definition orga_CASE :: "string \<Rightarrow> nat \<Rightarrow> hn_act" where
  "orga_CASE buf p = next4 buf p (niza_CASE buf)"

definition rity_CASE :: "u32 \<Rightarrow> nat \<Rightarrow> hn_act" where
  "rity_CASE val p =
     (if val = K_rity then Inr (Dc_end (p + 4) HDR_PRIORITY_T) else Inr (Other p))"

definition prio_CASE :: "string \<Rightarrow> nat \<Rightarrow> hn_act" where
  "prio_CASE buf p = next4 buf p rity_CASE"

definition ect_CASE :: "u32 \<Rightarrow> nat \<Rightarrow> hn_act" where
  "ect_CASE val p =
     (if val = K_ect1 then Inr (Ret (p + 4) HDR_SUBJECT_T 7)
      else if val = K_ect2 then Inr (Dc_end (p + 4) HDR_SUBJECT_T)
      else Inr (Other p))"

definition subj_CASE :: "string \<Rightarrow> nat \<Rightarrow> hn_act" where
  "subj_CASE buf p = next4 buf p ect_CASE"

definition nt_CASE :: "string \<Rightarrow> nat \<Rightarrow> hn_act" where
  "nt_CASE buf p =
     if_byte buf p CHR ''n''
       (if_byte buf (p + 1) CHR ''t'' (Inr (Dc_end (p + 2) HDR_USERAGENT_T))
          (Inr (Other (p + 1))))
       (Inr (Other p))"

definition user_CASE :: "string \<Rightarrow> nat \<Rightarrow> hn_act" where
  "user_CASE buf p =
     next4 buf p (\<lambda>val p. if val = K_dash_age then nt_CASE buf (p + 4) else Inr (Other p))"

definition ORTE_CASE :: "string \<Rightarrow> u32 \<Rightarrow> nat \<Rightarrow> hn_act" where
  "ORTE_CASE buf val p =
     (if val = K_orte
      then if_byte buf (p + 4) CHR ''d'' (Inr (Dc_end (p + 5) HDR_SUPPORTED_T))
             (Inr (Other (p + 4)))
      else Inr (Other p))"

definition supp_CASE :: "string \<Rightarrow> nat \<Rightarrow> hn_act" where
  "supp_CASE buf p = next4 buf p (ORTE_CASE buf)"

definition RSIO_CASE :: "string \<Rightarrow> u32 \<Rightarrow> nat \<Rightarrow> hn_act" where
  "RSIO_CASE buf val p =
     (if val = K_rsio
      then if_byte buf (p + 4) CHR ''n'' (Inr (Dc_end (p + 5) HDR_DIVERSION_T))
             (Inr (Other (p + 4)))
      else Inr (Other p))"

definition dive_CASE :: "string \<Rightarrow> nat \<Rightarrow> hn_act" where
  "dive_CASE buf p = next4 buf p (RSIO_CASE buf)"

definition RPID_ID_CASE :: "u32 \<Rightarrow> nat \<Rightarrow> hn_act" where
  "RPID_ID_CASE val p =
     (if val = K_id1 then Inr (Ret (p + 4) HDR_RPID_T 15)
      else if val = K_id2 then Inr (Dc_end (p + 4) HDR_RPID_T)
      else Inr (Other p))"

definition ARTY_CASE :: "string \<Rightarrow> u32 \<Rightarrow> nat \<Rightarrow> hn_act" where
  "ARTY_CASE buf val p = (if val = K_arty then next4 buf p RPID_ID_CASE else Inr (Other p))"

definition TE_P_CASE :: "string \<Rightarrow> u32 \<Rightarrow> nat \<Rightarrow> hn_act" where
  "TE_P_CASE buf val p = (if val = K_te_p then next4 buf p (ARTY_CASE buf) else Inr (Other p))"

definition remo_CASE :: "string \<Rightarrow> nat \<Rightarrow> hn_act" where
  "remo_CASE buf p = next4 buf p (TE_P_CASE buf)"

definition r_to_CASE :: "u32 \<Rightarrow> nat \<Rightarrow> hn_act" where
  "r_to_CASE val p =
     (if val = K_r_to then Inr (Dc_end (p + 4) HDR_REFER_TO_T) else Inr (Other p))"

definition refe_CASE :: "string \<Rightarrow> nat \<Rightarrow> hn_act" where
  "refe_CASE buf p = next4 buf p r_to_CASE"

definition RES_CASE :: "u32 \<Rightarrow> nat \<Rightarrow> hn_act" where
  "RES_CASE val p =
     (if val = K_res1 then Inr (Ret (p + 4) HDR_SESSION_EXPIRES_T 15)
      else if val = K_res2 then Inr (Dc_end (p + 4) HDR_SESSION_EXPIRES_T)
      else Inr (Other p))"

definition EXPI_CASE :: "string \<Rightarrow> u32 \<Rightarrow> nat \<Rightarrow> hn_act" where
  "EXPI_CASE buf val p = (if val = K_expi then next4 buf p RES_CASE else Inr (Other p))"

definition ION__CASE :: "string \<Rightarrow> u32 \<Rightarrow> nat \<Rightarrow> hn_act" where
  "ION__CASE buf val p = (if val = K_ion then next4 buf p (EXPI_CASE buf) else Inr (Other p))"

definition sess_CASE :: "string \<Rightarrow> nat \<Rightarrow> hn_act" where
  "sess_CASE buf p = next4 buf p (ION__CASE buf)"

definition SE_CASE :: "string \<Rightarrow> nat \<Rightarrow> hn_act" where
  "SE_CASE buf p =
     if_byte buf p CHR ''s''
       (if_byte buf (p + 1) CHR ''e'' (Inr (Dc_end (p + 2) HDR_MIN_SE_T)) (Inr (Other p)))
       (Inr (Other p))"

definition min__CASE :: "string \<Rightarrow> nat \<Rightarrow> hn_act" where
  "min__CASE buf p = SE_CASE buf (p + 4)"

definition TITY_CASE :: "u32 \<Rightarrow> nat \<Rightarrow> hn_act" where
  "TITY_CASE val p =
     (if val = K_tity then Inr (Dc_end (p + 4) HDR_PPI_T) else Inr (Other p))"

definition IDEN_CASE :: "string \<Rightarrow> u32 \<Rightarrow> nat \<Rightarrow> hn_act" where
  "IDEN_CASE buf val p = (if val = K_iden then next4 buf p TITY_CASE else Inr (Other p))"

definition RED__CASE :: "string \<Rightarrow> u32 \<Rightarrow> nat \<Rightarrow> hn_act" where
  "RED__CASE buf val p = (if val = K_red then next4 buf p (IDEN_CASE buf) else Inr (Other p))"

definition EFER_CASE :: "string \<Rightarrow> u32 \<Rightarrow> nat \<Rightarrow> hn_act" where
  "EFER_CASE buf val p = (if val = K_efer then next4 buf p (RED__CASE buf) else Inr (Other p))"

definition p_pr_CASE :: "string \<Rightarrow> nat \<Rightarrow> hn_act" where
  "p_pr_CASE buf p = next4 buf p (EFER_CASE buf)"

definition ITY_CASE :: "u32 \<Rightarrow> nat \<Rightarrow> hn_act" where
  "ITY_CASE val p =
     (if val = K_ity1 then Inr (Ret (p + 4) HDR_PAI_T 19)
      else if val = K_ity2 then Inr (Dc_end (p + 4) HDR_PAI_T)
      else Inr (Other p))"

definition DENT_CASE :: "string \<Rightarrow> u32 \<Rightarrow> nat \<Rightarrow> hn_act" where
  "DENT_CASE buf val p = (if val = K_dent then next4 buf p ITY_CASE else Inr (Other p))"

definition ED_I_CASE :: "string \<Rightarrow> u32 \<Rightarrow> nat \<Rightarrow> hn_act" where
  "ED_I_CASE buf val p = (if val = K_ed_i then next4 buf p (DENT_CASE buf) else Inr (Other p))"

definition SERT_CASE :: "string \<Rightarrow> u32 \<Rightarrow> nat \<Rightarrow> hn_act" where
  "SERT_CASE buf val p = (if val = K_sert then next4 buf p (ED_I_CASE buf) else Inr (Other p))"

definition p_as_CASE :: "string \<Rightarrow> nat \<Rightarrow> hn_act" where
  "p_as_CASE buf p = next4 buf p (SERT_CASE buf)"

definition ACY_CASE :: "u32 \<Rightarrow> nat \<Rightarrow> hn_act" where
  "ACY_CASE val p =
     (if val = K_acy1 then Inr (Ret (p + 4) HDR_PRIVACY_T 7)
      else if val = K_acy2 then Inr (Dc_end (p + 4) HDR_PRIVACY_T)
      else Inr (Other p))"

definition priv_CASE :: "string \<Rightarrow> nat \<Rightarrow> hn_act" where
  "priv_CASE buf p = next4 buf p ACY_CASE"

definition ter_CASE :: "u32 \<Rightarrow> nat \<Rightarrow> hn_act" where
  "ter_CASE val p =
     (if val = K_ter1 then Inr (Ret (p + 4) HDR_RETRY_AFTER_T 11)
      else if val = K_ter2 then Inr (Dc_end (p + 4) HDR_RETRY_AFTER_T)
      else Inr (Other p))"

definition y_af_CASE :: "string \<Rightarrow> u32 \<Rightarrow> nat \<Rightarrow> hn_act" where
  "y_af_CASE buf val p = (if val = K_y_af then next4 buf p ter_CASE else Inr (Other p))"

definition retr_CASE :: "string \<Rightarrow> nat \<Rightarrow> hn_act" where
  "retr_CASE buf p = next4 buf p (y_af_CASE buf)"

section \<open>The function\<close>

definition PARSE_COMPACT :: "string \<Rightarrow> nat \<Rightarrow> hdr_type \<Rightarrow> hn_act" where
  "PARSE_COMPACT buf p t =
     ebind (byte_at buf (p + 1)) (\<lambda>c.
       if c = CHR '' '' then Inr (Dc_end (p + 2) t)
       else if c = CHR '':'' then Inr (Ret (p + 2) t 1)
       else Inr (Other p))"

text \<open>The \<open>default\<close> of the first \<open>switch\<close>.\<close>

definition compact_forms :: "string \<Rightarrow> nat \<Rightarrow> hn_act" where
  "compact_forms buf p =
     ebind (byte_at buf p) (\<lambda>b. let c = LOWER_BYTE b in
       if c = CHR ''t'' then
         ebind (byte_at buf (p + 1)) (\<lambda>b1. let d = LOWER_BYTE b1 in
           if d = CHR ''o'' \<or> d = CHR '' '' then Inr (Dc_end (p + 2) HDR_TO_T)
           else if d = CHR '':'' then Inr (Ret (p + 2) HDR_TO_T 1)
           else Inr (Other p))
       else if c = CHR ''v'' then PARSE_COMPACT buf p HDR_VIA_T
       else if c = CHR ''f'' then PARSE_COMPACT buf p HDR_FROM_T
       else if c = CHR ''i'' then PARSE_COMPACT buf p HDR_CALLID_T
       else if c = CHR ''m'' then PARSE_COMPACT buf p HDR_CONTACT_T
       else if c = CHR ''l'' then PARSE_COMPACT buf p HDR_CONTENTLENGTH_T
       else if c = CHR ''k'' then PARSE_COMPACT buf p HDR_SUPPORTED_T
       else if c = CHR ''c'' then PARSE_COMPACT buf p HDR_CONTENTTYPE_T
       else if c = CHR ''o'' then PARSE_COMPACT buf p HDR_EVENT_T
       else if c = CHR ''x'' then PARSE_COMPACT buf p HDR_SESSION_EXPIRES_T
       else Inr (Other p))"

definition FIRST_QUATERNIONS :: "string \<Rightarrow> nat \<Rightarrow> u32 \<Rightarrow> hn_act" where
  "FIRST_QUATERNIONS buf p val =
     (if val = K_via1 then via1_CASE p
      else if val = K_from then from_CASE p
      else if val = K_to12 then to12_CASE p
      else if val = K_cseq then cseq_CASE p
      else if val = K_call then call_CASE buf p
      else if val = K_cont then cont_CASE buf p
      else if val = K_rout then rout_CASE buf p
      else if val = K_max then max_CASE buf p
      else if val = K_reco then reco_CASE buf p
      else if val = K_via2 then via2_CASE p
      else if val = K_auth then auth_CASE buf p
      else if val = K_supp then supp_CASE buf p
      else if val = K_expi then expi_CASE buf p
      else if val = K_prox then prox_CASE buf p
      else if val = K_allo then allo_CASE buf p
      else if val = K_path then path_CASE buf p
      else if val = K_unsu then unsu_CASE buf p
      else if val = K_even then even_CASE buf p
      else if val = K_acce then acce_CASE buf p
      else if val = K_orga then orga_CASE buf p
      else if val = K_prio then prio_CASE buf p
      else if val = K_subj then subj_CASE buf p
      else if val = K_user then user_CASE buf p
      else if val = K_dive then dive_CASE buf p
      else if val = K_remo then remo_CASE buf p
      else if val = K_refe then refe_CASE buf p
      else if val = K_sess then sess_CASE buf p
      else if val = K_min then min__CASE buf p
      else if val = K_p_pr then p_pr_CASE buf p
      else if val = K_p_as then p_as_CASE buf p
      else if val = K_priv then priv_CASE buf p
      else if val = K_retr then retr_CASE buf p
      else compact_forms buf p)"

text \<open>The labels \<open>other\<close> and \<open>dc_end\<close>.\<close>

definition hn_other :: "string \<Rightarrow> nat \<Rightarrow> nat \<Rightarrow> nat \<Rightarrow> hdr_field \<Rightarrow> fault + nat option \<times> hdr_field" where
  "hn_other buf b e p hdr =
     ebind (find_char buf p CHR '':'' (size_to p e)) (\<lambda>r.
       case r of
         None \<Rightarrow> Inr (None, hdr\<lparr>h_type := HDR_ERROR_T, h_name := null_str\<rparr>)
       | Some q \<Rightarrow> Inr (Some (q + 1), hdr\<lparr>h_type := HDR_OTHER_T, h_name := span b q\<rparr>))"

definition hn_dc_end :: "string \<Rightarrow> nat \<Rightarrow> nat \<Rightarrow> nat \<Rightarrow> hdr_type \<Rightarrow> hdr_field \<Rightarrow> fault + nat option \<times> hdr_field" where
  "hn_dc_end buf b e p t hdr =
     ebind (skip_ws buf p (size_to p e)) (\<lambda>q.
       ebind (byte_at buf q) (\<lambda>c.
         if c \<noteq> CHR '':'' then hn_other buf b e q hdr
         else Inr (Some (q + 1), hdr\<lparr>h_type := t, h_name := span b q\<rparr>)))"

definition parse_hname2 :: "string \<Rightarrow> nat \<Rightarrow> nat \<Rightarrow> hdr_field \<Rightarrow> fault + nat option \<times> hdr_field" where
  "parse_hname2 buf b e hdr =
     (if int e - int b < 4 then Inr (Some b, hdr\<lparr>h_type := HDR_ERROR_T\<rparr>)
      else ebind (READ buf b) (\<lambda>val.
        ebind (FIRST_QUATERNIONS buf b (LOWER_DWORD val)) (\<lambda>g.
          case g of
            Ret q t n \<Rightarrow> Inr (Some q, hdr\<lparr>h_type := t, h_name := Str (Buf b) (int n)\<rparr>)
          | Dc_end q t \<Rightarrow> hn_dc_end buf b e q t hdr
          | Other q \<Rightarrow> hn_other buf b e q hdr)))"

text \<open>
  \<open>parse_name_only\<close>, for a name without its colon: it uses the same macros with labels of its
  own, sets no length at \<open>dc_end\<close>, and reads four bytes of a name that may have two.
\<close>

definition parse_name_only :: "string \<Rightarrow> nat \<Rightarrow> nat \<Rightarrow> hdr_field \<Rightarrow> fault + nat \<times> hdr_field" where
  "parse_name_only buf b e hdr =
     (if int e - int b < 2 then Inr (b, hdr\<lparr>h_type := HDR_ERROR_T\<rparr>)
      else ebind (READ buf b) (\<lambda>val.
        ebind (FIRST_QUATERNIONS buf b (LOWER_DWORD val)) (\<lambda>g.
          case g of
            Ret q t n \<Rightarrow> Inr (q, hdr\<lparr>h_type := t, h_name := Str (Buf b) (int n)\<rparr>)
          | Dc_end q t \<Rightarrow>
              Inr (q + 1, hdr\<lparr>h_type := t, h_name := Str (Buf b) (str_len (h_name hdr))\<rparr>)
          | Other q \<Rightarrow> Inr (q + 1, hdr\<lparr>h_type := HDR_OTHER_T, h_name := span b q\<rparr>))))"

end
