(* ===== verification/Hname2_Keys.thy ===== *)
theory Hname2_Keys
  imports Hname2
begin

text \<open>
  What the macros of the header name recogniser recognise: a comparison of four lower-cased bytes
  as one integer is a comparison of the bytes; every jump to a label comes from a text of one of
  two tables; every name is found; and the reads stay within three bytes behind the colon.
\<close>

section \<open>Four bytes at a time\<close>

unbundle bit_operations_syntax

definition digits :: "char \<Rightarrow> bool list" where
  "digits c = [digit0 c, digit1 c, digit2 c, digit3 c, digit4 c, digit5 c, digit6 c, digit7 c]"

lemma length_digits [simp]: "length (digits c) = 8"
  by (simp add: digits_def)

lemma digits_inj: "digits c = digits d \<longleftrightarrow> c = d"
  by (cases c; cases d) (simp add: digits_def)

lemma digits_eq: "(\<forall>i<8. digits c ! i = digits d ! i) \<longleftrightarrow> c = d"
  by (simp add: digits_inj [symmetric] list_eq_iff_nth_eq)

lemma digits_7 [simp]: "digits c ! 7 = digit7 c"
  by (simp add: digits_def)

lemma bit_of_char_nat: "bit (of_char c :: nat) i \<longleftrightarrow> i < 8 \<and> digits c ! i"
  unfolding of_char_def digits_def [symmetric] bit_horner_sum_bit_iff by auto

lemma bit_of_char_u8: "bit (of_char c :: u8) i \<longleftrightarrow> i < 8 \<and> digits c ! i"
  unfolding of_char_def digits_def [symmetric] bit_horner_sum_bit_word_iff by auto

text \<open>A word with the byte \<open>c\<close> below \<open>w\<close>.\<close>

definition byte_word :: "char \<Rightarrow> u32" where
  "byte_word c = of_char c"

definition join :: "char \<Rightarrow> u32 \<Rightarrow> u32" where
  "join c w = byte_word c OR push_bit 8 w"

lemma bit_byte_word: "bit (byte_word c) i \<longleftrightarrow> i < 8 \<and> digits c ! i"
  unfolding byte_word_def of_char_def digits_def [symmetric] bit_horner_sum_bit_word_iff
  by auto

lemma join_add: "byte_word c + push_bit 8 w = join c w"
  unfolding join_def
  by (rule disjunctive_add) (auto simp: bit_byte_word bit_push_bit_iff)

lemma bit_join: "bit (join c w) i \<longleftrightarrow> (if i < 8 then digits c ! i else i < 32 \<and> bit w (i - 8))"
  by (auto simp: join_def bit_or_iff bit_push_bit_iff bit_byte_word)

lemma bit_signed_byte: "bit (signed_byte c) i \<longleftrightarrow> (if i < 8 then digits c ! i else i < 32 \<and> digit7 c)"
proof -
  have *: "bit (signed_byte c) i \<longleftrightarrow> i < 32 \<and> bit (of_char c :: u8) (if i < 7 then i else 7)"
    by (auto simp: signed_byte_def bit_signed_iff min_def)
  show ?thesis
  proof (cases "i < 7")
    case False
    then have "i = 7 \<or> 8 \<le> i" by arith
    then show ?thesis unfolding * by (auto simp: bit_of_char_u8)
  qed (simp add: * bit_of_char_u8)
qed

lemma signed_byte_join: "signed_byte c = join c (if digit7 c then - 1 else 0)"
  by (rule bit_word_eqI) (auto simp: bit_join bit_signed_byte)

lemma signed_byte_add: "signed_byte c + push_bit 8 r = join c (r + (if digit7 c then - 1 else 0))"
proof -
  have "signed_byte c + push_bit 8 r = byte_word c + push_bit 8 (r + (if digit7 c then - 1 else 0))"
    unfolding signed_byte_join join_add [symmetric] push_bit_add by simp
  then show ?thesis by (simp add: join_add)
qed

lemma bit_32_nat: "bit (32 :: nat) i \<longleftrightarrow> i = 5"
proof -
  have *: "(32 :: nat) = 2 ^ 5" by simp
  show ?thesis by (simp only: * bit_exp_iff) auto
qed

lemma digits_LOWER: "i < 8 \<Longrightarrow> digits (LOWER_BYTE c) ! i \<longleftrightarrow> digits c ! i \<or> i = 5"
proof -
  assume i: "i < 8"
  have "(of_char (LOWER_BYTE c) :: nat) = take_bit 8 (of_char c OR 32)"
    by (simp add: LOWER_BYTE_def take_bit_eq_mod)
  then have "bit (of_char (LOWER_BYTE c) :: nat) i \<longleftrightarrow> i < 8 \<and> (bit (of_char c :: nat) i \<or> bit (32 :: nat) i)"
    by (simp only: bit_take_bit_iff bit_or_iff)
  with i show ?thesis by (simp add: bit_of_char_nat bit_32_nat)
qed

lemma digits_space: "i < 8 \<Longrightarrow> digits CHR '' '' ! i \<longleftrightarrow> i = 5"
proof -
  assume "i < 8"
  then have "digits CHR '' '' ! i \<longleftrightarrow> bit (of_char CHR '' '' :: nat) i" by (simp only: bit_of_char_nat) simp
  then show ?thesis by (simp add: bit_32_nat)
qed

lemma join_LOWER: "join c w OR join CHR '' '' m = join (LOWER_BYTE c) (w OR m)"
  by (rule bit_word_eqI) (auto simp: bit_join bit_or_iff digits_LOWER digits_space)

lemma join_eq:
  assumes "8 \<le> n" "n \<le> 32"
  shows "take_bit n (join c v) = take_bit n (join d w) \<longleftrightarrow> c = d \<and> take_bit (n - 8) v = take_bit (n - 8) w"
proof
  assume l: "take_bit n (join c v) = take_bit n (join d w)"
  have bits: "i < n \<Longrightarrow> bit (join c v) i \<longleftrightarrow> bit (join d w) i" for i
    using arg_cong [OF l, of "\<lambda>x. bit x i"] by (simp add: bit_take_bit_iff)
  have "digits c ! i = digits d ! i" if "i < 8" for i
    using bits [of i] that assms by (simp add: bit_join)
  then have "c = d" by (simp add: digits_eq [symmetric])
  moreover have "take_bit (n - 8) v = take_bit (n - 8) w"
  proof (rule bit_word_eqI)
    fix i
    show "bit (take_bit (n - 8) v) i \<longleftrightarrow> bit (take_bit (n - 8) w) i"
      using bits [of "i + 8"] assms by (auto simp: bit_take_bit_iff bit_join)
  qed
  ultimately show "c = d \<and> take_bit (n - 8) v = take_bit (n - 8) w" by simp
next
  assume r: "c = d \<and> take_bit (n - 8) v = take_bit (n - 8) w"
  have bits: "i < n - 8 \<Longrightarrow> bit v i \<longleftrightarrow> bit w i" for i
    using arg_cong [OF conjunct2 [OF r], of "\<lambda>x. bit x i"] by (simp add: bit_take_bit_iff)
  show "take_bit n (join c v) = take_bit n (join d w)"
  proof (rule bit_word_eqI)
    fix i
    show "bit (take_bit n (join c v)) i \<longleftrightarrow> bit (take_bit n (join d w)) i"
      using bits [of "i - 8"] r by (auto simp: bit_take_bit_iff bit_join)
  qed
qed

text \<open>The comparison of four lower-cased bytes with a key, none of whose bytes is negative.\<close>

definition dword :: "string \<Rightarrow> u32" where
  "dword s = foldr join s 0"

lemma LOWER_join_add:
  "(signed_byte c + push_bit 8 r) OR join CHR '' '' m = join (LOWER_BYTE c) ((r + (if digit7 c then - 1 else 0)) OR m)"
  by (simp add: signed_byte_add join_LOWER)

lemma digit7_LOWER: "digit7 (LOWER_BYTE c) = digit7 c"
  using digits_LOWER [of 7 c] by simp

lemma LOWER_step:
  assumes "\<not> digit7 k" "8 \<le> n" "n \<le> 32"
  shows "take_bit n ((signed_byte c + push_bit 8 r) OR join CHR '' '' m) = take_bit n (join k z) \<longleftrightarrow>
    LOWER_BYTE c = k \<and> take_bit (n - 8) (r OR m) = take_bit (n - 8) z"
  using assms by (auto simp: LOWER_join_add join_eq digit7_LOWER)

text \<open>What \<open>READ\<close> and \<open>LOWER_DWORD\<close> give where they stay inside the buffer.\<close>

definition low :: "string \<Rightarrow> nat \<Rightarrow> string" where
  "low buf p = map LOWER_BYTE (drop p buf)"

definition val_at :: "string \<Rightarrow> nat \<Rightarrow> u32" where
  "val_at buf p = (case READ buf p of Inl f \<Rightarrow> 0 | Inr v \<Rightarrow> LOWER_DWORD v)"

lemma drop_4:
  assumes "p + 4 \<le> length buf"
  shows "take 4 (drop p buf) = [buf ! p, buf ! (p + 1), buf ! (p + 2), buf ! (p + 3)]"
  using assms by (simp add: list_eq_iff_nth_eq numeral_eq_Suc less_Suc_eq nth_Cons split: nat.splits)

lemma spaces: "(0x20202020 :: u32) = join CHR '' '' (join CHR '' '' (join CHR '' '' (join CHR '' '' 0)))"
  by (simp add: join_def byte_word_def)

lemma LOWER_READ:
  assumes "\<not> digit7 k0" "\<not> digit7 k1" "\<not> digit7 k2" "\<not> digit7 k3"
  shows "LOWER_DWORD (signed_byte c0 + push_bit 8 (signed_byte c1) + push_bit 16 (signed_byte c2)
           + push_bit 24 (signed_byte c3)) = dword [k0, k1, k2, k3] \<longleftrightarrow>
    LOWER_BYTE c0 = k0 \<and> LOWER_BYTE c1 = k1 \<and> LOWER_BYTE c2 = k2 \<and> LOWER_BYTE c3 = k3"
proof -
  have *: "signed_byte c0 + push_bit 8 (signed_byte c1) + push_bit 16 (signed_byte c2) + push_bit 24 (signed_byte c3) =
      signed_byte c0 + push_bit 8 (signed_byte c1 + push_bit 8 (signed_byte c2 + push_bit 8 (signed_byte c3 + push_bit 8 0)))"
    by (simp add: push_bit_add add.assoc)
  have "x = y \<longleftrightarrow> take_bit 32 x = take_bit 32 y" for x y :: u32
    by (simp add: take_bit_word_eq_self)
  note eq = this
  have step: "take_bit (w + 8) ((signed_byte c + push_bit 8 r) OR join CHR '' '' m) = take_bit (w + 8) (join k z) \<longleftrightarrow>
      LOWER_BYTE c = k \<and> take_bit w (r OR m) = take_bit w z" if "\<not> digit7 k" "w \<le> 24" for w c r m z k
    using LOWER_step [OF that(1), of "w + 8" c r m z] that(2) by (simp del: take_bit_or)
  have s0: "take_bit 32 ((signed_byte c + push_bit 8 r) OR join CHR '' '' m) = take_bit 32 (join k0 z) \<longleftrightarrow>
      LOWER_BYTE c = k0 \<and> take_bit 24 (r OR m) = take_bit 24 z" for c r m z
    using step [OF assms(1), of 24 c r m z] by (simp del: take_bit_or)
  have s1: "take_bit 24 ((signed_byte c + push_bit 8 r) OR join CHR '' '' m) = take_bit 24 (join k1 z) \<longleftrightarrow>
      LOWER_BYTE c = k1 \<and> take_bit 16 (r OR m) = take_bit 16 z" for c r m z
    using step [OF assms(2), of 16 c r m z] by (simp del: take_bit_or)
  have s2: "take_bit 16 ((signed_byte c + push_bit 8 r) OR join CHR '' '' m) = take_bit 16 (join k2 z) \<longleftrightarrow>
      LOWER_BYTE c = k2 \<and> take_bit 8 (r OR m) = take_bit 8 z" for c r m z
    using step [OF assms(3), of 8 c r m z] by (simp del: take_bit_or)
  have s3: "take_bit 8 ((signed_byte c + push_bit 8 r) OR join CHR '' '' m) = take_bit 8 (join k3 z) \<longleftrightarrow>
      LOWER_BYTE c = k3 \<and> take_bit 0 (r OR m) = take_bit 0 z" for c r m z
    using step [OF assms(4), of 0 c r m z] by (simp del: take_bit_or)
  show ?thesis
    unfolding * LOWER_DWORD_def spaces dword_def foldr.simps comp_apply id_apply
    by (subst eq) (simp only: s0 s1 s2 s3, simp)
qed

lemma val_key:
  assumes "p + 4 \<le> length buf" "\<not> digit7 k0" "\<not> digit7 k1" "\<not> digit7 k2" "\<not> digit7 k3"
  shows "val_at buf p = dword [k0, k1, k2, k3] \<longleftrightarrow> take 4 (low buf p) = [k0, k1, k2, k3]"
  using assms LOWER_READ [OF assms(2-)] drop_4 [OF assms(1)]
  by (simp add: val_at_def READ_def low_def take_map)

lemma keys:
  "K_even = dword ''even''"
  "K_acce = dword ''acce''"
  "K_allo = dword ''allo''"
  "K_auth = dword ''auth''"
  "K_oriz = dword ''oriz''"
  "K_atio = dword ''atio''"
  "K_call = dword ''call''"
  "K_id2 = dword ''-id ''"
  "K_id1 = dword ''-id:''"
  "K_cont = dword ''cont''"
  "K_act2 = dword ''act ''"
  "K_act1 = dword ''act:''"
  "K_ent = dword ''ent-''"
  "K_leng = dword ''leng''"
  "K_th12 = dword ''th: ''"
  "K_type = dword ''type''"
  "K_cseq = dword ''cseq''"
  "K_expi = dword ''expi''"
  "K_res2 = dword ''res ''"
  "K_res1 = dword ''res:''"
  "K_from = dword ''from''"
  "K_max = dword ''max-''"
  "K_forw = dword ''forw''"
  "K_ards = dword ''ards''"
  "K_prox = dword ''prox''"
  "K_y_au = dword ''y-au''"
  "K_thor = dword ''thor''"
  "K_izat = dword ''izat''"
  "K_ion2 = dword ''ion ''"
  "K_ion1 = dword ''ion:''"
  "K_y_re = dword ''y-re''"
  "K_quir = dword ''quir''"
  "K_reco = dword ''reco''"
  "K_rd_r = dword ''rd-r''"
  "K_oute = dword ''oute''"
  "K_rout = dword ''rout''"
  "K_path = dword ''path''"
  "K_supp = dword ''supp''"
  "K_orte = dword ''orte''"
  "K_to12 = dword ''to: ''"
  "K_unsu = dword ''unsu''"
  "K_ppor = dword ''ppor''"
  "K_ted2 = dword ''ted ''"
  "K_ted1 = dword ''ted:''"
  "K_via2 = dword ''via ''"
  "K_via1 = dword ''via:''"
  "K_pt_l = dword ''pt-l''"
  "K_angu = dword ''angu''"
  "K_age2 = dword ''age ''"
  "K_age1 = dword ''age:''"
  "K_orga = dword ''orga''"
  "K_niza = dword ''niza''"
  "K_tion = dword ''tion''"
  "K_prio = dword ''prio''"
  "K_rity = dword ''rity''"
  "K_subj = dword ''subj''"
  "K_ect2 = dword ''ect ''"
  "K_ect1 = dword ''ect:''"
  "K_user = dword ''user''"
  "K_dash_age = dword ''-age''"
  "K_disp = dword ''disp''"
  "K_osit = dword ''osit''"
  "K_pt_d = dword ''ptad''"
  "K_ispo = dword ''ispo''"
  "K_siti = dword ''siti''"
  "K_dive = dword ''dive''"
  "K_rsio = dword ''rsio''"
  "K_remo = dword ''remo''"
  "K_te_p = dword ''te-p''"
  "K_arty = dword ''arty''"
  "K_refe = dword ''refe''"
  "K_r_to = dword ''r-to''"
  "K_sess = dword ''sess''"
  "K_ion = dword ''ion-''"
  "K_min = dword ''min-''"
  "K_p_pr = dword ''p-pr''"
  "K_efer = dword ''efer''"
  "K_red = dword ''red-''"
  "K_iden = dword ''iden''"
  "K_tity = dword ''tity''"
  "K_p_as = dword ''p-as''"
  "K_sert = dword ''sert''"
  "K_ed_i = dword ''ed-i''"
  "K_dent = dword ''dent''"
  "K_ity2 = dword ''ity ''"
  "K_ity1 = dword ''ity:''"
  "K_priv = dword ''priv''"
  "K_acy2 = dword ''acy ''"
  "K_acy1 = dword ''acy:''"
  "K_retr = dword ''retr''"
  "K_y_af = dword ''y-af''"
  "K_ter2 = dword ''ter ''"
  "K_ter1 = dword ''ter:''"
  by (simp_all add: dword_def join_def byte_word_def
    K_even_def K_acce_def K_allo_def K_auth_def K_oriz_def K_atio_def K_call_def K_id2_def K_id1_def
    K_cont_def K_act2_def K_act1_def K_ent_def K_leng_def K_th12_def K_type_def K_cseq_def K_expi_def
    K_res2_def K_res1_def K_from_def K_max_def K_forw_def K_ards_def K_prox_def K_y_au_def K_thor_def
    K_izat_def K_ion2_def K_ion1_def K_y_re_def K_quir_def K_reco_def K_rd_r_def K_oute_def K_rout_def
    K_path_def K_supp_def K_orte_def K_to12_def K_unsu_def K_ppor_def K_ted2_def K_ted1_def K_via2_def
    K_via1_def K_pt_l_def K_angu_def K_age2_def K_age1_def K_orga_def K_niza_def K_tion_def K_prio_def
    K_rity_def K_subj_def K_ect2_def K_ect1_def K_user_def K_dash_age_def K_disp_def K_osit_def
    K_pt_d_def K_ispo_def K_siti_def K_dive_def K_rsio_def K_remo_def K_te_p_def K_arty_def K_refe_def
    K_r_to_def K_sess_def K_ion_def K_min_def K_p_pr_def K_efer_def K_red_def K_iden_def K_tity_def
    K_p_as_def K_sert_def K_ed_i_def K_dent_def K_ity2_def K_ity1_def K_priv_def K_acy2_def K_acy1_def
    K_retr_def K_y_af_def K_ter2_def K_ter1_def)

lemma val_keys:
  assumes "p + 4 \<le> length buf"
  shows
    "val_at buf p = K_even \<longleftrightarrow> take 4 (low buf p) = ''even''"
    "val_at buf p = K_acce \<longleftrightarrow> take 4 (low buf p) = ''acce''"
    "val_at buf p = K_allo \<longleftrightarrow> take 4 (low buf p) = ''allo''"
    "val_at buf p = K_auth \<longleftrightarrow> take 4 (low buf p) = ''auth''"
    "val_at buf p = K_oriz \<longleftrightarrow> take 4 (low buf p) = ''oriz''"
    "val_at buf p = K_atio \<longleftrightarrow> take 4 (low buf p) = ''atio''"
    "val_at buf p = K_call \<longleftrightarrow> take 4 (low buf p) = ''call''"
    "val_at buf p = K_id2 \<longleftrightarrow> take 4 (low buf p) = ''-id ''"
    "val_at buf p = K_id1 \<longleftrightarrow> take 4 (low buf p) = ''-id:''"
    "val_at buf p = K_cont \<longleftrightarrow> take 4 (low buf p) = ''cont''"
    "val_at buf p = K_act2 \<longleftrightarrow> take 4 (low buf p) = ''act ''"
    "val_at buf p = K_act1 \<longleftrightarrow> take 4 (low buf p) = ''act:''"
    "val_at buf p = K_ent \<longleftrightarrow> take 4 (low buf p) = ''ent-''"
    "val_at buf p = K_leng \<longleftrightarrow> take 4 (low buf p) = ''leng''"
    "val_at buf p = K_th12 \<longleftrightarrow> take 4 (low buf p) = ''th: ''"
    "val_at buf p = K_type \<longleftrightarrow> take 4 (low buf p) = ''type''"
    "val_at buf p = K_cseq \<longleftrightarrow> take 4 (low buf p) = ''cseq''"
    "val_at buf p = K_expi \<longleftrightarrow> take 4 (low buf p) = ''expi''"
    "val_at buf p = K_res2 \<longleftrightarrow> take 4 (low buf p) = ''res ''"
    "val_at buf p = K_res1 \<longleftrightarrow> take 4 (low buf p) = ''res:''"
    "val_at buf p = K_from \<longleftrightarrow> take 4 (low buf p) = ''from''"
    "val_at buf p = K_max \<longleftrightarrow> take 4 (low buf p) = ''max-''"
    "val_at buf p = K_forw \<longleftrightarrow> take 4 (low buf p) = ''forw''"
    "val_at buf p = K_ards \<longleftrightarrow> take 4 (low buf p) = ''ards''"
    "val_at buf p = K_prox \<longleftrightarrow> take 4 (low buf p) = ''prox''"
    "val_at buf p = K_y_au \<longleftrightarrow> take 4 (low buf p) = ''y-au''"
    "val_at buf p = K_thor \<longleftrightarrow> take 4 (low buf p) = ''thor''"
    "val_at buf p = K_izat \<longleftrightarrow> take 4 (low buf p) = ''izat''"
    "val_at buf p = K_ion2 \<longleftrightarrow> take 4 (low buf p) = ''ion ''"
    "val_at buf p = K_ion1 \<longleftrightarrow> take 4 (low buf p) = ''ion:''"
    "val_at buf p = K_y_re \<longleftrightarrow> take 4 (low buf p) = ''y-re''"
    "val_at buf p = K_quir \<longleftrightarrow> take 4 (low buf p) = ''quir''"
    "val_at buf p = K_reco \<longleftrightarrow> take 4 (low buf p) = ''reco''"
    "val_at buf p = K_rd_r \<longleftrightarrow> take 4 (low buf p) = ''rd-r''"
    "val_at buf p = K_oute \<longleftrightarrow> take 4 (low buf p) = ''oute''"
    "val_at buf p = K_rout \<longleftrightarrow> take 4 (low buf p) = ''rout''"
    "val_at buf p = K_path \<longleftrightarrow> take 4 (low buf p) = ''path''"
    "val_at buf p = K_supp \<longleftrightarrow> take 4 (low buf p) = ''supp''"
    "val_at buf p = K_orte \<longleftrightarrow> take 4 (low buf p) = ''orte''"
    "val_at buf p = K_to12 \<longleftrightarrow> take 4 (low buf p) = ''to: ''"
    "val_at buf p = K_unsu \<longleftrightarrow> take 4 (low buf p) = ''unsu''"
    "val_at buf p = K_ppor \<longleftrightarrow> take 4 (low buf p) = ''ppor''"
    "val_at buf p = K_ted2 \<longleftrightarrow> take 4 (low buf p) = ''ted ''"
    "val_at buf p = K_ted1 \<longleftrightarrow> take 4 (low buf p) = ''ted:''"
    "val_at buf p = K_via2 \<longleftrightarrow> take 4 (low buf p) = ''via ''"
    "val_at buf p = K_via1 \<longleftrightarrow> take 4 (low buf p) = ''via:''"
    "val_at buf p = K_pt_l \<longleftrightarrow> take 4 (low buf p) = ''pt-l''"
    "val_at buf p = K_angu \<longleftrightarrow> take 4 (low buf p) = ''angu''"
    "val_at buf p = K_age2 \<longleftrightarrow> take 4 (low buf p) = ''age ''"
    "val_at buf p = K_age1 \<longleftrightarrow> take 4 (low buf p) = ''age:''"
    "val_at buf p = K_orga \<longleftrightarrow> take 4 (low buf p) = ''orga''"
    "val_at buf p = K_niza \<longleftrightarrow> take 4 (low buf p) = ''niza''"
    "val_at buf p = K_tion \<longleftrightarrow> take 4 (low buf p) = ''tion''"
    "val_at buf p = K_prio \<longleftrightarrow> take 4 (low buf p) = ''prio''"
    "val_at buf p = K_rity \<longleftrightarrow> take 4 (low buf p) = ''rity''"
    "val_at buf p = K_subj \<longleftrightarrow> take 4 (low buf p) = ''subj''"
    "val_at buf p = K_ect2 \<longleftrightarrow> take 4 (low buf p) = ''ect ''"
    "val_at buf p = K_ect1 \<longleftrightarrow> take 4 (low buf p) = ''ect:''"
    "val_at buf p = K_user \<longleftrightarrow> take 4 (low buf p) = ''user''"
    "val_at buf p = K_dash_age \<longleftrightarrow> take 4 (low buf p) = ''-age''"
    "val_at buf p = K_disp \<longleftrightarrow> take 4 (low buf p) = ''disp''"
    "val_at buf p = K_osit \<longleftrightarrow> take 4 (low buf p) = ''osit''"
    "val_at buf p = K_pt_d \<longleftrightarrow> take 4 (low buf p) = ''ptad''"
    "val_at buf p = K_ispo \<longleftrightarrow> take 4 (low buf p) = ''ispo''"
    "val_at buf p = K_siti \<longleftrightarrow> take 4 (low buf p) = ''siti''"
    "val_at buf p = K_dive \<longleftrightarrow> take 4 (low buf p) = ''dive''"
    "val_at buf p = K_rsio \<longleftrightarrow> take 4 (low buf p) = ''rsio''"
    "val_at buf p = K_remo \<longleftrightarrow> take 4 (low buf p) = ''remo''"
    "val_at buf p = K_te_p \<longleftrightarrow> take 4 (low buf p) = ''te-p''"
    "val_at buf p = K_arty \<longleftrightarrow> take 4 (low buf p) = ''arty''"
    "val_at buf p = K_refe \<longleftrightarrow> take 4 (low buf p) = ''refe''"
    "val_at buf p = K_r_to \<longleftrightarrow> take 4 (low buf p) = ''r-to''"
    "val_at buf p = K_sess \<longleftrightarrow> take 4 (low buf p) = ''sess''"
    "val_at buf p = K_ion \<longleftrightarrow> take 4 (low buf p) = ''ion-''"
    "val_at buf p = K_min \<longleftrightarrow> take 4 (low buf p) = ''min-''"
    "val_at buf p = K_p_pr \<longleftrightarrow> take 4 (low buf p) = ''p-pr''"
    "val_at buf p = K_efer \<longleftrightarrow> take 4 (low buf p) = ''efer''"
    "val_at buf p = K_red \<longleftrightarrow> take 4 (low buf p) = ''red-''"
    "val_at buf p = K_iden \<longleftrightarrow> take 4 (low buf p) = ''iden''"
    "val_at buf p = K_tity \<longleftrightarrow> take 4 (low buf p) = ''tity''"
    "val_at buf p = K_p_as \<longleftrightarrow> take 4 (low buf p) = ''p-as''"
    "val_at buf p = K_sert \<longleftrightarrow> take 4 (low buf p) = ''sert''"
    "val_at buf p = K_ed_i \<longleftrightarrow> take 4 (low buf p) = ''ed-i''"
    "val_at buf p = K_dent \<longleftrightarrow> take 4 (low buf p) = ''dent''"
    "val_at buf p = K_ity2 \<longleftrightarrow> take 4 (low buf p) = ''ity ''"
    "val_at buf p = K_ity1 \<longleftrightarrow> take 4 (low buf p) = ''ity:''"
    "val_at buf p = K_priv \<longleftrightarrow> take 4 (low buf p) = ''priv''"
    "val_at buf p = K_acy2 \<longleftrightarrow> take 4 (low buf p) = ''acy ''"
    "val_at buf p = K_acy1 \<longleftrightarrow> take 4 (low buf p) = ''acy:''"
    "val_at buf p = K_retr \<longleftrightarrow> take 4 (low buf p) = ''retr''"
    "val_at buf p = K_y_af \<longleftrightarrow> take 4 (low buf p) = ''y-af''"
    "val_at buf p = K_ter2 \<longleftrightarrow> take 4 (low buf p) = ''ter ''"
    "val_at buf p = K_ter1 \<longleftrightarrow> take 4 (low buf p) = ''ter:''"
  by (simp_all only: keys, (rule val_key [OF assms]; simp)+)

section \<open>What the macros recognise\<close>

text \<open>The texts behind which a macro looks for the colon, and those it takes with the colon.\<close>

definition dc_table :: "(string \<times> hdr_type) list" where
  "dc_table =
    [(''via '', HDR_VIA_T),
     (''from'', HDR_FROM_T),
     (''cseq'', HDR_CSEQ_T),
     (''call-id '', HDR_CALLID_T),
     (''content-length'', HDR_CONTENTLENGTH_T),
     (''content-disposition '', HDR_CONTENTDISPOSITION_T),
     (''content-type'', HDR_CONTENTTYPE_T),
     (''contact '', HDR_CONTACT_T),
     (''route'', HDR_ROUTE_T),
     (''max-forwards'', HDR_MAXFORWARDS_T),
     (''record-route'', HDR_RECORDROUTE_T),
     (''path'', HDR_PATH_T),
     (''authorization'', HDR_AUTHORIZATION_T),
     (''expires '', HDR_EXPIRES_T),
     (''proxy-authorization '', HDR_PROXYAUTH_T),
     (''proxy-require'', HDR_PROXYREQUIRE_T),
     (''allow'', HDR_ALLOW_T),
     (''unsupported '', HDR_UNSUPPORTED_T),
     (''event'', HDR_EVENT_T),
     (''accept-language '', HDR_ACCEPTLANGUAGE_T),
     (''acceptadisposition'', HDR_ACCEPTDISPOSITION_T),
     (''accept'', HDR_ACCEPT_T),
     (''organization'', HDR_ORGANIZATION_T),
     (''priority'', HDR_PRIORITY_T),
     (''subject '', HDR_SUBJECT_T),
     (''user-agent'', HDR_USERAGENT_T),
     (''supported'', HDR_SUPPORTED_T),
     (''diversion'', HDR_DIVERSION_T),
     (''remote-party-id '', HDR_RPID_T),
     (''refer-to'', HDR_REFER_TO_T),
     (''session-expires '', HDR_SESSION_EXPIRES_T),
     (''min-se'', HDR_MIN_SE_T),
     (''p-preferred-identity'', HDR_PPI_T),
     (''p-asserted-identity '', HDR_PAI_T),
     (''privacy '', HDR_PRIVACY_T),
     (''retry-after '', HDR_RETRY_AFTER_T),
     (''to'', HDR_TO_T),
     (''t '', HDR_TO_T),
     (''v '', HDR_VIA_T),
     (''f '', HDR_FROM_T),
     (''i '', HDR_CALLID_T),
     (''m '', HDR_CONTACT_T),
     (''l '', HDR_CONTENTLENGTH_T),
     (''k '', HDR_SUPPORTED_T),
     (''c '', HDR_CONTENTTYPE_T),
     (''o '', HDR_EVENT_T),
     (''x '', HDR_SESSION_EXPIRES_T)]"

definition ret_table :: "(string \<times> hdr_type \<times> nat) list" where
  "ret_table =
    [(''via:'', HDR_VIA_T, 3),
     (''to: '', HDR_TO_T, 2),
     (''call-id:'', HDR_CALLID_T, 7),
     (''content-length: '', HDR_CONTENTLENGTH_T, 14),
     (''content-disposition:'', HDR_CONTENTDISPOSITION_T, 19),
     (''contact:'', HDR_CONTACT_T, 7),
     (''expires:'', HDR_EXPIRES_T, 7),
     (''proxy-authorization:'', HDR_PROXYAUTH_T, 19),
     (''unsupported:'', HDR_UNSUPPORTED_T, 11),
     (''accept-language:'', HDR_ACCEPTLANGUAGE_T, 15),
     (''subject:'', HDR_SUBJECT_T, 7),
     (''remote-party-id:'', HDR_RPID_T, 15),
     (''session-expires:'', HDR_SESSION_EXPIRES_T, 15),
     (''p-asserted-identity:'', HDR_PAI_T, 19),
     (''privacy:'', HDR_PRIVACY_T, 7),
     (''retry-after:'', HDR_RETRY_AFTER_T, 11),
     (''t:'', HDR_TO_T, 1),
     (''v:'', HDR_VIA_T, 1),
     (''f:'', HDR_FROM_T, 1),
     (''i:'', HDR_CALLID_T, 1),
     (''m:'', HDR_CONTACT_T, 1),
     (''l:'', HDR_CONTENTLENGTH_T, 1),
     (''k:'', HDR_SUPPORTED_T, 1),
     (''c:'', HDR_CONTENTTYPE_T, 1),
     (''o:'', HDR_EVENT_T, 1),
     (''x:'', HDR_SESSION_EXPIRES_T, 1)]"

definition hn_sound :: "string \<Rightarrow> nat \<Rightarrow> hn_goto \<Rightarrow> bool" where
  "hn_sound buf b g =
     (case g of
        Ret q t n \<Rightarrow> b \<le> q \<and> q \<le> length buf \<and> (take (q - b) (low buf b), t, n) \<in> set ret_table
      | Dc_end q t \<Rightarrow> b \<le> q \<and> q \<le> length buf \<and> (take (q - b) (low buf b), t) \<in> set dc_table \<and>
          (t = HDR_PATH_T \<longrightarrow> q < length buf \<and> LOWER_BYTE (buf ! q) = CHR '':'')
      | Other q \<Rightarrow> b \<le> q \<and> q \<le> length buf \<and> CHR '':'' \<notin> set (take (q - b) (low buf b)))"

lemma next4_Inr:
  "next4 buf p k = Inr g \<longleftrightarrow> p + 8 \<le> length buf \<and> k (val_at buf (p + 4)) (p + 4) = Inr g"
  by (auto simp: next4_def READ_def val_at_def)

lemma if_byte_Inr:
  "if_byte buf p c y n = Inr g \<longleftrightarrow> p < length buf \<and> (if LOWER_BYTE (buf ! p) = c then y else n) = Inr g"
  by (auto simp: if_byte_def byte_at_def)

lemma take_low_4: "take (k + 4) (low buf b) = take k (low buf b) @ take 4 (low buf (b + k))"
  by (simp add: low_def take_add drop_map add.commute)

lemma take_low_1: "b + k < length buf \<Longrightarrow> take (k + 1) (low buf b) = take k (low buf b) @ [LOWER_BYTE (buf ! (b + k))]"
  by (simp add: low_def take_Suc_conv_app_nth del: take_map)

lemma take_low_1': "b + k < length buf \<Longrightarrow> take (k + 1) (low buf b) = take k (low buf b) @ [LOWER_BYTE (buf ! (k + b))]"
  using take_low_1 [of b k buf] by (simp add: add.commute)

lemmas take_lows = take_low_4 [of 4, simplified] take_low_4 [of 8, simplified] take_low_4 [of 12, simplified]
  take_low_4 [of 16, simplified]
  take_low_1 [where k = 4, simplified] take_low_1' [where k = 5, simplified] take_low_1 [where k = 8, simplified]
  take_low_1' [where k = 9, simplified] take_low_1 [where k = 12, simplified] take_low_1' [where k = 13, simplified]
  take_low_1 [where k = 16, simplified] take_low_1' [where k = 17, simplified]

lemmas hn_sound_defs = hn_sound_def dc_table_def ret_table_def next4_Inr if_byte_Inr val_keys take_lows add.assoc

lemmas CASE_defs = via1_CASE_def via2_CASE_def to12_CASE_def
  from_CASE_def cseq_CASE_def call_CASE_def ID_CASE_def cont_CASE_def ACT_ENT_CASE_def
  CONTENT_CASE_def TH_CASE_def DISPOSITION_CASE_def ion_CASE_def rout_CASE_def max_CASE_def
  FORW_CASE_def ARDS_CASE_def reco_CASE_def RD_R_CASE_def OUTE_CASE_def auth_CASE_def
  AUTH_ORIZ_CASE_def AUTH_ATIO_CASE_def supp_CASE_def ORTE_CASE_def expi_CASE_def
  EXPI_RES_CASE_def prox_CASE_def PROX2_CASE_def THOR_CASE_def IZAT_CASE_def ION_CASE_def
  QUIR_CASE_def allo_CASE_def path_CASE_def unsu_CASE_def PPOR_CASE_def TED_CASE_def
  even_CASE_def acce_CASE_def ptld_CASE_def angu_CASE_def age_CASE_def ispo_CASE_def
  siti_CASE_def on_CASE_def orga_CASE_def niza_CASE_def tion_CASE_def prio_CASE_def
  rity_CASE_def subj_CASE_def ect_CASE_def user_CASE_def nt_CASE_def dive_CASE_def
  RSIO_CASE_def remo_CASE_def TE_P_CASE_def ARTY_CASE_def RPID_ID_CASE_def refe_CASE_def
  r_to_CASE_def sess_CASE_def ION__CASE_def EXPI_CASE_def RES_CASE_def min__CASE_def
  SE_CASE_def p_pr_CASE_def EFER_CASE_def RED__CASE_def IDEN_CASE_def TITY_CASE_def
  p_as_CASE_def SERT_CASE_def ED_I_CASE_def DENT_CASE_def ITY_CASE_def priv_CASE_def
  ACY_CASE_def retr_CASE_def y_af_CASE_def ter_CASE_def

lemma CASES_sound:
  assumes "b + 4 \<le> length buf"
  shows
    "take 4 (low buf b) = ''from'' \<Longrightarrow> from_CASE b = Inr g \<Longrightarrow> hn_sound buf b g"
    "take 4 (low buf b) = ''cseq'' \<Longrightarrow> cseq_CASE b = Inr g \<Longrightarrow> hn_sound buf b g"
    "take 4 (low buf b) = ''call'' \<Longrightarrow> call_CASE buf b = Inr g \<Longrightarrow> hn_sound buf b g"
    "take 4 (low buf b) = ''cont'' \<Longrightarrow> cont_CASE buf b = Inr g \<Longrightarrow> hn_sound buf b g"
    "take 4 (low buf b) = ''rout'' \<Longrightarrow> rout_CASE buf b = Inr g \<Longrightarrow> hn_sound buf b g"
    "take 4 (low buf b) = ''max-'' \<Longrightarrow> max_CASE buf b = Inr g \<Longrightarrow> hn_sound buf b g"
    "take 4 (low buf b) = ''reco'' \<Longrightarrow> reco_CASE buf b = Inr g \<Longrightarrow> hn_sound buf b g"
    "take 4 (low buf b) = ''auth'' \<Longrightarrow> auth_CASE buf b = Inr g \<Longrightarrow> hn_sound buf b g"
    "take 4 (low buf b) = ''supp'' \<Longrightarrow> supp_CASE buf b = Inr g \<Longrightarrow> hn_sound buf b g"
    "take 4 (low buf b) = ''expi'' \<Longrightarrow> expi_CASE buf b = Inr g \<Longrightarrow> hn_sound buf b g"
    "take 4 (low buf b) = ''prox'' \<Longrightarrow> prox_CASE buf b = Inr g \<Longrightarrow> hn_sound buf b g"
    "take 4 (low buf b) = ''allo'' \<Longrightarrow> allo_CASE buf b = Inr g \<Longrightarrow> hn_sound buf b g"
    "take 4 (low buf b) = ''path'' \<Longrightarrow> path_CASE buf b = Inr g \<Longrightarrow> hn_sound buf b g"
    "take 4 (low buf b) = ''unsu'' \<Longrightarrow> unsu_CASE buf b = Inr g \<Longrightarrow> hn_sound buf b g"
    "take 4 (low buf b) = ''even'' \<Longrightarrow> even_CASE buf b = Inr g \<Longrightarrow> hn_sound buf b g"
    "take 4 (low buf b) = ''acce'' \<Longrightarrow> acce_CASE buf b = Inr g \<Longrightarrow> hn_sound buf b g"
    "take 4 (low buf b) = ''orga'' \<Longrightarrow> orga_CASE buf b = Inr g \<Longrightarrow> hn_sound buf b g"
    "take 4 (low buf b) = ''prio'' \<Longrightarrow> prio_CASE buf b = Inr g \<Longrightarrow> hn_sound buf b g"
    "take 4 (low buf b) = ''subj'' \<Longrightarrow> subj_CASE buf b = Inr g \<Longrightarrow> hn_sound buf b g"
    "take 4 (low buf b) = ''user'' \<Longrightarrow> user_CASE buf b = Inr g \<Longrightarrow> hn_sound buf b g"
    "take 4 (low buf b) = ''dive'' \<Longrightarrow> dive_CASE buf b = Inr g \<Longrightarrow> hn_sound buf b g"
    "take 4 (low buf b) = ''remo'' \<Longrightarrow> remo_CASE buf b = Inr g \<Longrightarrow> hn_sound buf b g"
    "take 4 (low buf b) = ''refe'' \<Longrightarrow> refe_CASE buf b = Inr g \<Longrightarrow> hn_sound buf b g"
    "take 4 (low buf b) = ''sess'' \<Longrightarrow> sess_CASE buf b = Inr g \<Longrightarrow> hn_sound buf b g"
    "take 4 (low buf b) = ''min-'' \<Longrightarrow> min__CASE buf b = Inr g \<Longrightarrow> hn_sound buf b g"
    "take 4 (low buf b) = ''p-pr'' \<Longrightarrow> p_pr_CASE buf b = Inr g \<Longrightarrow> hn_sound buf b g"
    "take 4 (low buf b) = ''p-as'' \<Longrightarrow> p_as_CASE buf b = Inr g \<Longrightarrow> hn_sound buf b g"
    "take 4 (low buf b) = ''priv'' \<Longrightarrow> priv_CASE buf b = Inr g \<Longrightarrow> hn_sound buf b g"
    "take 4 (low buf b) = ''retr'' \<Longrightarrow> retr_CASE buf b = Inr g \<Longrightarrow> hn_sound buf b g"
    "take 4 (low buf b) = ''via:'' \<Longrightarrow> via1_CASE b = Inr g \<Longrightarrow> hn_sound buf b g"
    "take 4 (low buf b) = ''via '' \<Longrightarrow> via2_CASE b = Inr g \<Longrightarrow> hn_sound buf b g"
    "take 4 (low buf b) = ''to: '' \<Longrightarrow> to12_CASE b = Inr g \<Longrightarrow> hn_sound buf b g"
  using assms by (auto simp: CASE_defs hn_sound_defs split: if_splits)

lemma LOWER_BYTE_seps [simp]:
  "LOWER_BYTE CHR '' '' = CHR '' ''" "LOWER_BYTE CHR '':'' = CHR '':''" "LOWER_BYTE CHR 0x09 = CHR '')''"
  by code_simp+

lemma take_low_2:
  "b + 2 \<le> length buf \<Longrightarrow> take 2 (low buf b) = [LOWER_BYTE (buf ! b), LOWER_BYTE (buf ! (b + 1))]"
  using take_low_1 [of b 0 buf] take_low_1 [of b 1 buf] by (simp add: numeral_2_eq_2)

lemma compact_forms_sound:
  assumes "compact_forms buf b = Inr g"
  shows "hn_sound buf b g"
  using assms
  by (auto simp: compact_forms_def PARSE_COMPACT_def byte_at_def Let_def hn_sound_def dc_table_def ret_table_def
      take_low_2 split: if_splits)

lemma FIRST_QUATERNIONS_sound:
  assumes "FIRST_QUATERNIONS buf b (val_at buf b) = Inr g" "b + 4 \<le> length buf"
  shows "hn_sound buf b g"
proof -
  note c = CASES_sound [OF assms(2), of g] compact_forms_sound [of buf b g]
  show ?thesis
    using assms(1) unfolding FIRST_QUATERNIONS_def val_keys [OF assms(2)]
    by (auto intro: c split: if_splits)
qed

section \<open>The names and their types\<close>

definition header_names :: "(string \<times> hdr_type) list" where
  "header_names =
    [(''via'', HDR_VIA_T),
     (''from'', HDR_FROM_T),
     (''cseq'', HDR_CSEQ_T),
     (''call-id'', HDR_CALLID_T),
     (''content-length'', HDR_CONTENTLENGTH_T),
     (''content-disposition'', HDR_CONTENTDISPOSITION_T),
     (''content-type'', HDR_CONTENTTYPE_T),
     (''contact'', HDR_CONTACT_T),
     (''route'', HDR_ROUTE_T),
     (''max-forwards'', HDR_MAXFORWARDS_T),
     (''record-route'', HDR_RECORDROUTE_T),
     (''path'', HDR_PATH_T),
     (''authorization'', HDR_AUTHORIZATION_T),
     (''expires'', HDR_EXPIRES_T),
     (''proxy-authorization'', HDR_PROXYAUTH_T),
     (''proxy-require'', HDR_PROXYREQUIRE_T),
     (''allow'', HDR_ALLOW_T),
     (''unsupported'', HDR_UNSUPPORTED_T),
     (''event'', HDR_EVENT_T),
     (''accept-language'', HDR_ACCEPTLANGUAGE_T),
     (''acceptadisposition'', HDR_ACCEPTDISPOSITION_T),
     (''accept'', HDR_ACCEPT_T),
     (''organization'', HDR_ORGANIZATION_T),
     (''priority'', HDR_PRIORITY_T),
     (''subject'', HDR_SUBJECT_T),
     (''user-agent'', HDR_USERAGENT_T),
     (''supported'', HDR_SUPPORTED_T),
     (''diversion'', HDR_DIVERSION_T),
     (''remote-party-id'', HDR_RPID_T),
     (''refer-to'', HDR_REFER_TO_T),
     (''session-expires'', HDR_SESSION_EXPIRES_T),
     (''min-se'', HDR_MIN_SE_T),
     (''p-preferred-identity'', HDR_PPI_T),
     (''p-asserted-identity'', HDR_PAI_T),
     (''privacy'', HDR_PRIVACY_T),
     (''retry-after'', HDR_RETRY_AFTER_T),
     (''to'', HDR_TO_T),
     (''t'', HDR_TO_T),
     (''v'', HDR_VIA_T),
     (''f'', HDR_FROM_T),
     (''i'', HDR_CALLID_T),
     (''m'', HDR_CONTACT_T),
     (''l'', HDR_CONTENTLENGTH_T),
     (''k'', HDR_SUPPORTED_T),
     (''c'', HDR_CONTENTTYPE_T),
     (''o'', HDR_EVENT_T),
     (''x'', HDR_SESSION_EXPIRES_T)]"

text \<open>The names that a tab may not follow.\<close>

definition strict_names :: "string list" where
  "strict_names =
    [''via'', ''call-id'', ''content-disposition'', ''contact'', ''expires'',
     ''proxy-authorization'', ''unsupported'', ''accept-language'', ''subject'',
     ''remote-party-id'', ''session-expires'', ''p-asserted-identity'', ''privacy'',
     ''retry-after'', ''t'', ''v'', ''f'', ''i'', ''m'', ''l'', ''k'', ''c'', ''o'', ''x'']"

definition name_char :: "char \<Rightarrow> bool" where
  "name_char c \<longleftrightarrow> 33 \<le> (of_char c :: nat) \<and> of_char c \<le> (126 :: nat) \<and> c \<noteq> CHR '':''"

definition header_type :: "string \<Rightarrow> string \<Rightarrow> hdr_type" where
  "header_type n ws =
     (case map_of header_names (map lower_char n) of
        None \<Rightarrow> HDR_OTHER_T
      | Some t \<Rightarrow>
          if ws \<noteq> [] \<and> (t = HDR_PATH_T \<or> hd ws = CHR 0x09 \<and> map lower_char n \<in> set strict_names)
          then HDR_OTHER_T else t)"

definition found_by :: "nat \<Rightarrow> string \<Rightarrow> hdr_type \<Rightarrow> char \<Rightarrow> string \<Rightarrow> hn_goto \<Rightarrow> bool" where
  "found_by b nm t x r g \<longleftrightarrow>
     g = Ret (b + length nm + 1) t (length nm) \<and> x = CHR '':'' \<or>
     g = Ret (b + length nm + 2) t (length nm) \<and> x = CHR '':'' \<and> hd r = CHR '' '' \<or>
     g = Dc_end (b + length nm) t \<or>
     g = Dc_end (b + length nm + 1) t \<and> x = CHR '' ''"

lemma low_add: "low buf (b + k) = drop k (low buf b)"
  by (simp add: low_def drop_map add.commute)

lemma low_nth: "b + k < length buf \<Longrightarrow> LOWER_BYTE (buf ! (b + k)) = low buf b ! k"
  by (simp add: low_def)

lemma length_low: "length (low buf b) = length buf - b"
  by (simp add: low_def)

lemma next4_eval:
  "next4 buf p k = (if p + 8 \<le> length buf then k (val_at buf (p + 4)) (p + 4) else Inl Out_of_bounds)"
  by (simp add: next4_def READ_def val_at_def)

lemma if_byte_eval:
  "if_byte buf p c y n = (if p < length buf then if LOWER_BYTE (buf ! p) = c then y else n else Inl Out_of_bounds)"
  by (simp add: if_byte_def byte_at_def)

lemma low_nth_numeral:
  "b + numeral k < length buf \<Longrightarrow> LOWER_BYTE (buf ! (b + numeral k)) = low buf b ! numeral k"
  "numeral k + b < length buf \<Longrightarrow> LOWER_BYTE (buf ! (numeral k + b)) = low buf b ! numeral k"
  using low_nth [of b "numeral k" buf] by (simp_all add: add.commute)

lemma FIRST_QUATERNIONS_at:
  assumes "b + 4 \<le> length buf"
  shows
    "take 4 (low buf b) = ''from'' \<Longrightarrow> FIRST_QUATERNIONS buf b (val_at buf b) = from_CASE b"
    "take 4 (low buf b) = ''cseq'' \<Longrightarrow> FIRST_QUATERNIONS buf b (val_at buf b) = cseq_CASE b"
    "take 4 (low buf b) = ''call'' \<Longrightarrow> FIRST_QUATERNIONS buf b (val_at buf b) = call_CASE buf b"
    "take 4 (low buf b) = ''cont'' \<Longrightarrow> FIRST_QUATERNIONS buf b (val_at buf b) = cont_CASE buf b"
    "take 4 (low buf b) = ''rout'' \<Longrightarrow> FIRST_QUATERNIONS buf b (val_at buf b) = rout_CASE buf b"
    "take 4 (low buf b) = ''max-'' \<Longrightarrow> FIRST_QUATERNIONS buf b (val_at buf b) = max_CASE buf b"
    "take 4 (low buf b) = ''reco'' \<Longrightarrow> FIRST_QUATERNIONS buf b (val_at buf b) = reco_CASE buf b"
    "take 4 (low buf b) = ''auth'' \<Longrightarrow> FIRST_QUATERNIONS buf b (val_at buf b) = auth_CASE buf b"
    "take 4 (low buf b) = ''supp'' \<Longrightarrow> FIRST_QUATERNIONS buf b (val_at buf b) = supp_CASE buf b"
    "take 4 (low buf b) = ''expi'' \<Longrightarrow> FIRST_QUATERNIONS buf b (val_at buf b) = expi_CASE buf b"
    "take 4 (low buf b) = ''prox'' \<Longrightarrow> FIRST_QUATERNIONS buf b (val_at buf b) = prox_CASE buf b"
    "take 4 (low buf b) = ''allo'' \<Longrightarrow> FIRST_QUATERNIONS buf b (val_at buf b) = allo_CASE buf b"
    "take 4 (low buf b) = ''path'' \<Longrightarrow> FIRST_QUATERNIONS buf b (val_at buf b) = path_CASE buf b"
    "take 4 (low buf b) = ''unsu'' \<Longrightarrow> FIRST_QUATERNIONS buf b (val_at buf b) = unsu_CASE buf b"
    "take 4 (low buf b) = ''even'' \<Longrightarrow> FIRST_QUATERNIONS buf b (val_at buf b) = even_CASE buf b"
    "take 4 (low buf b) = ''acce'' \<Longrightarrow> FIRST_QUATERNIONS buf b (val_at buf b) = acce_CASE buf b"
    "take 4 (low buf b) = ''orga'' \<Longrightarrow> FIRST_QUATERNIONS buf b (val_at buf b) = orga_CASE buf b"
    "take 4 (low buf b) = ''prio'' \<Longrightarrow> FIRST_QUATERNIONS buf b (val_at buf b) = prio_CASE buf b"
    "take 4 (low buf b) = ''subj'' \<Longrightarrow> FIRST_QUATERNIONS buf b (val_at buf b) = subj_CASE buf b"
    "take 4 (low buf b) = ''user'' \<Longrightarrow> FIRST_QUATERNIONS buf b (val_at buf b) = user_CASE buf b"
    "take 4 (low buf b) = ''dive'' \<Longrightarrow> FIRST_QUATERNIONS buf b (val_at buf b) = dive_CASE buf b"
    "take 4 (low buf b) = ''remo'' \<Longrightarrow> FIRST_QUATERNIONS buf b (val_at buf b) = remo_CASE buf b"
    "take 4 (low buf b) = ''refe'' \<Longrightarrow> FIRST_QUATERNIONS buf b (val_at buf b) = refe_CASE buf b"
    "take 4 (low buf b) = ''sess'' \<Longrightarrow> FIRST_QUATERNIONS buf b (val_at buf b) = sess_CASE buf b"
    "take 4 (low buf b) = ''min-'' \<Longrightarrow> FIRST_QUATERNIONS buf b (val_at buf b) = min__CASE buf b"
    "take 4 (low buf b) = ''p-pr'' \<Longrightarrow> FIRST_QUATERNIONS buf b (val_at buf b) = p_pr_CASE buf b"
    "take 4 (low buf b) = ''p-as'' \<Longrightarrow> FIRST_QUATERNIONS buf b (val_at buf b) = p_as_CASE buf b"
    "take 4 (low buf b) = ''priv'' \<Longrightarrow> FIRST_QUATERNIONS buf b (val_at buf b) = priv_CASE buf b"
    "take 4 (low buf b) = ''retr'' \<Longrightarrow> FIRST_QUATERNIONS buf b (val_at buf b) = retr_CASE buf b"
    "take 4 (low buf b) = ''via:'' \<Longrightarrow> FIRST_QUATERNIONS buf b (val_at buf b) = via1_CASE b"
    "take 4 (low buf b) = ''via '' \<Longrightarrow> FIRST_QUATERNIONS buf b (val_at buf b) = via2_CASE b"
    "take 4 (low buf b) = ''to: '' \<Longrightarrow> FIRST_QUATERNIONS buf b (val_at buf b) = to12_CASE b"
  unfolding FIRST_QUATERNIONS_def val_keys [OF assms] by simp_all

lemma long_names_found:
  assumes "low buf b = nm @ x # r0 # r1 # r2 # r" "(nm, t) \<in> set header_names"
    "x = CHR '':'' \<or> x = CHR '' '' \<and> t \<noteq> HDR_PATH_T \<or> x = CHR '')'' \<and> t \<noteq> HDR_PATH_T \<and> nm \<notin> set strict_names"
    "1 < length nm" "nm \<noteq> ''to''"
  shows "\<exists>g. FIRST_QUATERNIONS buf b (val_at buf b) = Inr g \<and> found_by b nm t x (r0 # r1 # r2 # r) g"
proof -
  have l: "length buf = b + length nm + 4 + length r" 
    using arg_cong [OF assms(1), of length] by (simp add: length_low)
  then have "b + 4 \<le> length buf" by simp
  note v = FIRST_QUATERNIONS_at [OF this]
  show ?thesis
    using assms(2-5) l assms(1) unfolding header_names_def
    by (simp only: list.set insert_iff empty_iff prod.inject, elim disjE conjE)
      (simp_all add: v CASE_defs next4_eval if_byte_eval val_keys low_add low_nth_numeral add.assoc found_by_def
        strict_names_def)
qed

lemma FIRST_QUATERNIONS_short:
  assumes "b + 4 \<le> length buf" "low buf b = c # d # r" "d \<notin> set ''aceilnorsuvx-'' \<or> c = CHR ''t'' \<and> d = CHR ''o''"
  shows "FIRST_QUATERNIONS buf b (val_at buf b) =
    (if take 4 (low buf b) = ''to: '' then to12_CASE b else compact_forms buf b)"
proof -
  have "d \<notin> set ''aceilnorsuvx-'' \<Longrightarrow> d \<noteq> CHR ''o''" by auto
  show ?thesis
    using assms(3) unfolding FIRST_QUATERNIONS_def val_keys [OF assms(1)] assms(2)
    by (elim disjE conjE) simp_all
qed

lemma short_names_found:
  assumes "low buf b = nm @ x # r0 # r1 # r2 # r" "(nm, t) \<in> set header_names"
    "buf ! (b + length nm) = y" "y = CHR '':'' \<or> y = CHR '' '' \<or> y = CHR 0x09 \<and> nm \<notin> set strict_names"
    "length nm \<le> 1 \<or> nm = ''to''"
  shows "\<exists>g. FIRST_QUATERNIONS buf b (val_at buf b) = Inr g \<and> found_by b nm t x (r0 # r1 # r2 # r) g"
proof -
  have l: "length buf = b + length nm + 4 + length r" 
    using arg_cong [OF assms(1), of length] by (simp add: length_low)
  then have "b + 4 \<le> length buf" by simp
  note v = this
  have x: "x = LOWER_BYTE y" using low_nth [of b "length nm" buf] l assms(1,3) by simp
  have b0: "LOWER_BYTE (buf ! b) = low buf b ! 0" "LOWER_BYTE (buf ! Suc b) = low buf b ! 1"
    using low_nth [of b 0 buf] low_nth [of b 1 buf] l by simp_all
  have "(nm, t) \<in> set (filter (\<lambda>(nm, t). length nm \<le> 1 \<or> nm = ''to'') header_names)"
    using assms(2,5) by simp
  then have nm: "(nm, t) \<in> set [(''to'', HDR_TO_T), (''t'', HDR_TO_T), (''v'', HDR_VIA_T), (''f'', HDR_FROM_T),
      (''i'', HDR_CALLID_T), (''m'', HDR_CONTACT_T), (''l'', HDR_CONTENTLENGTH_T), (''k'', HDR_SUPPORTED_T),
      (''c'', HDR_CONTENTTYPE_T), (''o'', HDR_EVENT_T), (''x'', HDR_SESSION_EXPIRES_T)]"
    by (simp add: header_names_def)
  note f = FIRST_QUATERNIONS_short [OF v]
    to12_CASE_def compact_forms_def PARSE_COMPACT_def byte_at_def found_by_def strict_names_def Let_def
  from assms(4) show ?thesis
  proof (elim disjE conjE)
    assume "y = CHR '':''"
    with nm x assms(1,3) l b0 show ?thesis
      by (simp only: list.set insert_iff empty_iff prod.inject, elim disjE conjE) (simp_all add: f)
  next
    assume "y = CHR '' ''"
    with nm x assms(1,3) l b0 show ?thesis
      by (simp only: list.set insert_iff empty_iff prod.inject, elim disjE conjE) (simp_all add: f)
  next
    assume "y = CHR 0x09" "nm \<notin> set strict_names"
    with nm x assms(1,3) l b0 show ?thesis
      by (simp only: list.set insert_iff empty_iff prod.inject, elim disjE conjE) (simp_all add: f)
  qed
qed

section \<open>No read outside the buffer\<close>

text \<open>
  In front of a colon with three bytes behind it nothing is read outside the buffer: all keys but
  the last one consist of characters of names, so that the next four bytes begin before the colon.
\<close>

definition name_keys :: "u32 list" where
  "name_keys =
    [K_even, K_acce, K_allo, K_auth, K_oriz, K_atio, K_call, K_cont, K_ent, K_leng, K_type,
     K_cseq, K_expi, K_from, K_max, K_forw, K_ards, K_prox, K_y_au, K_thor, K_izat, K_y_re,
     K_quir, K_reco, K_rd_r, K_oute, K_rout, K_path, K_supp, K_orte, K_unsu, K_ppor, K_pt_l,
     K_angu, K_orga, K_niza, K_tion, K_prio, K_rity, K_subj, K_user, K_dash_age, K_disp,
     K_osit, K_pt_d, K_ispo, K_siti, K_dive, K_rsio, K_remo, K_te_p, K_arty, K_refe, K_r_to,
     K_sess, K_ion, K_min, K_p_pr, K_efer, K_red, K_iden, K_tity, K_p_as, K_sert, K_ed_i,
     K_dent, K_priv, K_retr, K_y_af]"

definition in_name :: "string \<Rightarrow> nat \<Rightarrow> nat \<Rightarrow> nat \<Rightarrow> bool" where
  "in_name buf b d p \<longleftrightarrow> b \<le> p \<and> p \<le> b + d \<and> b + d + 4 \<le> length buf \<and>
     low buf b ! d \<in> {CHR '':'', CHR '' '', CHR '')''}"

lemma in_name_key:
  assumes "in_name buf b d p" "val_at buf p \<in> set name_keys"
  shows "in_name buf b d (p + 4)"
proof (rule ccontr)
  assume "\<not> in_name buf b d (p + 4)"
  with assms(1) have d: "b + d < p + 4" "b \<le> p" "p \<le> b + d" "b + d + 4 \<le> length buf"
    "low buf b ! d \<in> {CHR '':'', CHR '' '', CHR '')''}"
    by (auto simp: in_name_def)
  let ?j = "b + d - p"
  have p: "p + 4 \<le> length buf" using d by simp
  have "low buf b ! d = take 4 (low buf p) ! ?j"
    using d by (simp add: low_def)
  moreover from d have "?j = 0 \<or> ?j = 1 \<or> ?j = 2 \<or> ?j = 3" by arith
  ultimately have "take 4 (low buf p) ! 0 \<in> {CHR '':'', CHR '' '', CHR '')''} \<or>
      take 4 (low buf p) ! 1 \<in> {CHR '':'', CHR '' '', CHR '')''} \<or>
      take 4 (low buf p) ! 2 \<in> {CHR '':'', CHR '' '', CHR '')''} \<or>
      take 4 (low buf p) ! 3 \<in> {CHR '':'', CHR '' '', CHR '')''}"
    using d(5) by metis
  with assms(2) show False
    unfolding name_keys_def list.set insert_iff val_keys [OF p] by (elim disjE) simp_all
qed

lemma in_name_byte:
  assumes "in_name buf b d p" "LOWER_BYTE (buf ! p) \<notin> {CHR '':'', CHR '' '', CHR '')''}"
  shows "in_name buf b d (p + 1)"
proof (cases "p = b + d")
  case True
  with assms show ?thesis using low_nth [of b d buf] by (simp add: in_name_def)
qed (use assms(1) in \<open>simp add: in_name_def\<close>)

lemma next4_total:
  "in_name buf b d (p + 4) \<Longrightarrow> isl (next4 buf p k) \<longleftrightarrow> isl (k (val_at buf (p + 4)) (p + 4))"
  by (simp add: in_name_def next4_eval)

lemma if_byte_total:
  "in_name buf b d p \<Longrightarrow> isl (if_byte buf p c y n) \<longleftrightarrow> (if LOWER_BYTE (buf ! p) = c then isl y else isl n)"
  by (simp add: in_name_def if_byte_eval)

lemma CASES_total:
  assumes "in_name buf b d (b + 4)"
  shows
    "\<not> isl (from_CASE b)"
    "\<not> isl (cseq_CASE b)"
    "\<not> isl (call_CASE buf b)"
    "\<not> isl (cont_CASE buf b)"
    "\<not> isl (rout_CASE buf b)"
    "\<not> isl (max_CASE buf b)"
    "\<not> isl (reco_CASE buf b)"
    "\<not> isl (auth_CASE buf b)"
    "\<not> isl (supp_CASE buf b)"
    "\<not> isl (expi_CASE buf b)"
    "\<not> isl (prox_CASE buf b)"
    "\<not> isl (allo_CASE buf b)"
    "\<not> isl (path_CASE buf b)"
    "\<not> isl (unsu_CASE buf b)"
    "\<not> isl (even_CASE buf b)"
    "\<not> isl (acce_CASE buf b)"
    "\<not> isl (orga_CASE buf b)"
    "\<not> isl (prio_CASE buf b)"
    "\<not> isl (subj_CASE buf b)"
    "\<not> isl (user_CASE buf b)"
    "\<not> isl (dive_CASE buf b)"
    "\<not> isl (remo_CASE buf b)"
    "\<not> isl (refe_CASE buf b)"
    "\<not> isl (sess_CASE buf b)"
    "\<not> isl (min__CASE buf b)"
    "\<not> isl (p_pr_CASE buf b)"
    "\<not> isl (p_as_CASE buf b)"
    "\<not> isl (priv_CASE buf b)"
    "\<not> isl (retr_CASE buf b)"
    "\<not> isl (via1_CASE b)"
    "\<not> isl (via2_CASE b)"
    "\<not> isl (to12_CASE b)"
proof -
  have key: "in_name buf b d (k + b) \<Longrightarrow> val_at buf (k + b) \<in> set name_keys \<Longrightarrow> in_name buf b d (k + 4 + b)" for k
    using in_name_key [of buf b d "k + b"] by (simp add: ac_simps)
  have byte: "in_name buf b d (k + b) \<Longrightarrow> LOWER_BYTE (buf ! (k + b)) \<notin> {CHR '':'', CHR '' '', CHR '')''} \<Longrightarrow>
      in_name buf b d (k + 1 + b)" for k
    using in_name_byte [of buf b d "k + b"] by (simp add: ac_simps)
  have next4: "in_name buf b d (k + 4 + b) \<Longrightarrow>
      isl (next4 buf (k + b) f) \<longleftrightarrow> isl (f (val_at buf (k + 4 + b)) (k + 4 + b))" for k f
    using next4_total [of buf b d "k + b" f] by (simp add: ac_simps)
  have 4: "in_name buf b d (4 + b)" using assms by (simp add: add.commute)
  note rules = key [of 4, simplified] key [of 8, simplified] key [of 12, simplified] key [of 16, simplified]
    byte [of 4, simplified] byte [of 8, simplified] byte [of 12, simplified] byte [of 16, simplified]
    next4 [of 4, simplified] next4 [of 8, simplified] next4 [of 12, simplified] next4 [of 16, simplified]
    next4_total [OF assms] if_byte_total [of buf b d] add.commute [of b 4] 4
  show
    "\<not> isl (from_CASE b)"
    "\<not> isl (cseq_CASE b)"
    "\<not> isl (call_CASE buf b)"
    "\<not> isl (cont_CASE buf b)"
    "\<not> isl (rout_CASE buf b)"
    "\<not> isl (max_CASE buf b)"
    "\<not> isl (reco_CASE buf b)"
    "\<not> isl (auth_CASE buf b)"
    "\<not> isl (supp_CASE buf b)"
    "\<not> isl (expi_CASE buf b)"
    "\<not> isl (prox_CASE buf b)"
    "\<not> isl (allo_CASE buf b)"
    "\<not> isl (path_CASE buf b)"
    "\<not> isl (unsu_CASE buf b)"
    "\<not> isl (even_CASE buf b)"
    "\<not> isl (acce_CASE buf b)"
    "\<not> isl (orga_CASE buf b)"
    "\<not> isl (prio_CASE buf b)"
    "\<not> isl (subj_CASE buf b)"
    "\<not> isl (user_CASE buf b)"
    "\<not> isl (dive_CASE buf b)"
    "\<not> isl (remo_CASE buf b)"
    "\<not> isl (refe_CASE buf b)"
    "\<not> isl (sess_CASE buf b)"
    "\<not> isl (min__CASE buf b)"
    "\<not> isl (p_pr_CASE buf b)"
    "\<not> isl (p_as_CASE buf b)"
    "\<not> isl (priv_CASE buf b)"
    "\<not> isl (retr_CASE buf b)"
    "\<not> isl (via1_CASE b)"
    "\<not> isl (via2_CASE b)"
    "\<not> isl (to12_CASE b)"
    by (simp_all add: CASE_defs rules name_keys_def del: One_nat_def)
qed

lemma FIRST_QUATERNIONS_total:
  assumes "in_name buf b d b"
  shows "\<not> isl (FIRST_QUATERNIONS buf b (val_at buf b))"
proof -
  have "Suc b < length buf" using assms by (simp add: in_name_def)
  then have c: "\<not> isl (compact_forms buf b)"
    by (simp add: compact_forms_def PARSE_COMPACT_def byte_at_def Let_def)
  show ?thesis
  proof (cases "val_at buf b \<in> set name_keys")
    case True
    note t = CASES_total [OF in_name_key [OF assms True]]
    show ?thesis unfolding FIRST_QUATERNIONS_def by (simp add: t c)
  next
    case False
    then show ?thesis unfolding FIRST_QUATERNIONS_def name_keys_def
      by (simp add: c via1_CASE_def via2_CASE_def to12_CASE_def)
  qed
qed

end
