(* ===== verification/Hname2_Props.thy ===== *)
theory Hname2_Props
  imports Hname2_Keys
begin

text \<open>
  The header name recogniser computes a table: it gives every header name the type that a
  case-insensitive look-up in \<open>header_names\<close> gives, apart from names followed by a tab. Then what
  it reads of a message that ends in the middle of a name.
\<close>

section \<open>Looking for the colon\<close>

lemma unat_size_to:
  assumes "p \<le> e" "e < 2 ^ 32"
  shows "p + unat (size_to p e) = e"
proof -
  have "int e - int p = int (e - p)" using assms(1) by simp
  moreover have "e - p < 2 ^ 32" using assms by simp
  ultimately have "unat (size_to p e) = e - p"
    unfolding size_to_def \<open>int e - int p = int (e - p)\<close> of_int_of_nat_eq by (simp add: unat_of_nat take_bit_nat_eq_self)
  with assms(1) show ?thesis by simp
qed

definition named_header :: "string \<Rightarrow> string \<Rightarrow> string \<Rightarrow> nat \<Rightarrow> nat \<Rightarrow> nat \<Rightarrow> bool" where
  "named_header buf n ws b c e \<longleftrightarrow> c = b + length n + length ws \<and>
     stands buf b n \<and> n \<noteq> [] \<and> list_all name_char n \<and>
     stands buf (b + length n) ws \<and> list_all (\<lambda>c. c = CHR '' '' \<or> c = CHR 0x09) ws \<and>
     buf ! c = CHR '':'' \<and> c < e \<and> e \<le> length buf \<and> length buf < 2 ^ 32"

lemma name_at_char:
  assumes "named_header buf n ws b c e" "b \<le> i" "i < b + length n"
  shows "name_char (buf ! i)"
proof -
  from assms(1) have "stands buf b n" "list_all name_char n" by (simp_all add: named_header_def)
  then show ?thesis using stands_mem [OF _ assms(2,3)] by (auto simp: list_all_iff)
qed

lemma space_at_char:
  assumes "named_header buf n ws b c e" "b + length n \<le> i" "i < c"
  shows "buf ! i = CHR '' '' \<or> buf ! i = CHR 0x09"
proof -
  from assms(1) have "stands buf (b + length n) ws" "list_all (\<lambda>c. c = CHR '' '' \<or> c = CHR 0x09) ws"
    and "c = b + length n + length ws"
    by (simp_all add: named_header_def)
  with assms(3) have "buf ! i \<in> set ws" using stands_mem [OF _ assms(2)] by simp
  with \<open>list_all _ ws\<close> show ?thesis by (simp add: list_all_iff)
qed

lemma before_colon:
  assumes "named_header buf n ws b c e" "b \<le> i" "i < c"
  shows "buf ! i \<noteq> CHR '':''"
proof (cases "i < b + length n")
  case True
  then show ?thesis using name_at_char [OF assms(1,2)] by (simp add: name_char_def)
next
  case False
  then show ?thesis using space_at_char [OF assms(1) _ assms(3)] by auto
qed

lemma run_to_colon:
  assumes "named_header buf n ws b c e" "b \<le> q" "q \<le> c" "\<And>i. q \<le> i \<Longrightarrow> i < c \<Longrightarrow> P (buf ! i)" "\<not> P CHR '':''"
  shows "run_while P buf q e = Inr c"
proof -
  from assms(1) have c: "c < e" "e \<le> length buf" "buf ! c = CHR '':''" by (auto simp: named_header_def)
  let ?s = "take (c - q) (drop q buf)"
  have l: "q + length ?s = c" "stands buf q ?s" using assms(3) c by (simp_all add: stands_def)
  have "list_all P ?s"
    unfolding list_all_length
  proof (intro allI impI)
    fix i assume "i < length ?s"
    then have "q + i < c" "?s ! i = buf ! (q + i)" using l by (simp_all add: min_def split: if_splits)
    then show "P (?s ! i)" using assms(4) [of "q + i"] by simp
  qed
  from run_while_stop [OF l(2) this, of e] l(1) c assms(5) show ?thesis by simp
qed

lemma hn_other_colon:
  assumes "named_header buf n ws b c e" "b \<le> q" "q \<le> c"
  shows "hn_other buf b e q hdr = Inr (Some (c + 1), hdr\<lparr>h_type := HDR_OTHER_T, h_name := span b c\<rparr>)"
proof -
  from assms(1) have e: "q \<le> e" "c < e" "e < 2 ^ 32" using assms(3) by (auto simp: named_header_def)
  have "run_while (\<lambda>x. x \<noteq> CHR '':'') buf q e = Inr c"
    by (rule run_to_colon [OF assms]) (use before_colon [OF assms(1)] assms(2) in auto)
  with e show ?thesis by (simp add: hn_other_def find_char_def unat_size_to)
qed

lemma hn_dc_end_name:
  assumes "named_header buf n ws b c e" "b \<le> q" "q < b + length n"
  shows "hn_dc_end buf b e q t hdr = Inr (Some (c + 1), hdr\<lparr>h_type := HDR_OTHER_T, h_name := span b c\<rparr>)"
proof -
  from assms(1,3) have e: "q \<le> e" "q \<le> c" "q < e" "e \<le> length buf" "e < 2 ^ 32"
    by (auto simp: named_header_def)
  have "buf ! q \<noteq> CHR '' ''" "buf ! q \<noteq> CHR 0x09" "buf ! q \<noteq> CHR '':''"
    using name_at_char [OF assms] by (auto simp: name_char_def)
  moreover from this have "run_while (\<lambda>c. c = CHR '' '' \<or> c = CHR 0x09) buf q e = Inr q"
    using run_while_stop [of buf q "[]" "\<lambda>c. c = CHR '' '' \<or> c = CHR 0x09" e] e by simp
  ultimately show ?thesis
    using e hn_other_colon [OF assms(1,2) e(2)] by (simp add: hn_dc_end_def skip_ws_def unat_size_to byte_at_def)
qed

lemma hn_dc_end_space:
  assumes "named_header buf n ws b c e" "b + length n \<le> q" "q \<le> c"
  shows "hn_dc_end buf b e q t hdr = Inr (Some (c + 1), hdr\<lparr>h_type := t, h_name := span b c\<rparr>)"
proof -
  from assms(1,3) have e: "q \<le> e" "c < e" "e \<le> length buf" "e < 2 ^ 32" "buf ! c = CHR '':''"
    by (auto simp: named_header_def)
  have "run_while (\<lambda>c. c = CHR '' '' \<or> c = CHR 0x09) buf q e = Inr c"
    by (rule run_to_colon [OF assms(1) _ assms(3)]) (use space_at_char [OF assms(1)] assms(2) in auto)
  with e show ?thesis by (simp add: hn_dc_end_def skip_ws_def unat_size_to byte_at_def)
qed

section \<open>The table\<close>

definition letters :: string where
  "letters = ''abcdefghijklmnopqrstuvwxyz-''"

lemma or_32: "(or n 32 :: nat) = (if odd (n div 32) then n else n + 32)"
proof -
  have "or n 32 = set_bit 5 n" by (simp add: set_bit_eq_or push_bit_eq_mult)
  also have "\<dots> = n + of_bool (\<not> bit n 5) * 2 ^ 5" by (rule set_bit_eq)
  finally show ?thesis by (simp add: bit_iff_odd)
qed

lemma of_char_LOWER: "(of_char (LOWER_BYTE c) :: nat) = (if odd (of_char c div 32 :: nat) then of_char c else of_char c + 32)"
proof -
  have n: "(of_char c :: nat) < 256" by (metis of_char_mod_256 mod_less_divisor zero_less_numeral)
  have "(of_char (LOWER_BYTE c) :: nat) = or (of_char c) 32 mod 256" by (simp add: LOWER_BYTE_def)
  moreover have "or (of_char c) 32 < (256 :: nat)" using n unfolding or_32 by presburger
  ultimately show ?thesis by (simp add: or_32)
qed

lemma of_char_lower:
  "(of_char (lower_char c) :: nat) = (if 65 \<le> (of_char c :: nat) \<and> of_char c \<le> (90 :: nat) then of_char c + 32 else of_char c)"
  by (simp add: lower_char_def)

lemma char_eq_nat: "c = d \<longleftrightarrow> (of_char c :: nat) = of_char d"
  by simp

lemma letter_code: "k \<in> set letters \<Longrightarrow> (of_char k :: nat) = 45 \<or> 97 \<le> (of_char k :: nat) \<and> of_char k \<le> (122 :: nat)"
  unfolding letters_def list.set insert_iff empty_iff by (elim disjE) simp_all

lemma LOWER_BYTE_letter:
  "lower_char c \<in> set letters \<Longrightarrow> LOWER_BYTE c = lower_char c"
  "name_char c \<Longrightarrow> LOWER_BYTE c \<in> set letters \<Longrightarrow> lower_char c = LOWER_BYTE c"
proof -
  define n where "n = (of_char c :: nat)"
  have d: "64 \<le> n \<Longrightarrow> n < 96 \<Longrightarrow> n div 32 = 2" "96 \<le> n \<Longrightarrow> n < 128 \<Longrightarrow> n div 32 = 3"
    by (rule div_nat_eqI; simp)+
  note defs = char_eq_nat of_char_LOWER of_char_lower name_char_def n_def [symmetric]
  have "(if 65 \<le> n \<and> n \<le> 90 then n + 32 else n) = 45 \<or> 97 \<le> (if 65 \<le> n \<and> n \<le> 90 then n + 32 else n) \<and>
      (if 65 \<le> n \<and> n \<le> 90 then n + 32 else n) \<le> 122 \<Longrightarrow>
      (if odd (n div 32) then n else n + 32) = (if 65 \<le> n \<and> n \<le> 90 then n + 32 else n)"
    using d by (auto split: if_splits)
  then show "lower_char c \<in> set letters \<Longrightarrow> LOWER_BYTE c = lower_char c"
    using letter_code [of "lower_char c"] unfolding defs by blast
  have "33 \<le> n \<Longrightarrow> (if odd (n div 32) then n else n + 32) = 45 \<or> 97 \<le> (if odd (n div 32) then n else n + 32) \<and>
      (if odd (n div 32) then n else n + 32) \<le> 122 \<Longrightarrow>
      (if 65 \<le> n \<and> n \<le> 90 then n + 32 else n) = (if odd (n div 32) then n else n + 32)"
    by (auto split: if_splits elim!: oddE evenE)
  then show "name_char c \<Longrightarrow> LOWER_BYTE c \<in> set letters \<Longrightarrow> lower_char c = LOWER_BYTE c"
    using letter_code [of "LOWER_BYTE c"] unfolding defs by blast
qed

lemma LOWER_BYTE_other:
  "name_char c \<Longrightarrow> LOWER_BYTE c \<noteq> CHR '' ''" "name_char c \<Longrightarrow> LOWER_BYTE c \<noteq> CHR '':''"
  "LOWER_BYTE c = CHR '' '' \<Longrightarrow> c = CHR '' '' \<or> c = CHR 0x00"
proof -
  have "(of_char CHR '' '' :: nat) = 32" "(of_char CHR '':'' :: nat) = 58" "(of_char CHR 0x00 :: nat) = 0" by simp_all
  note defs = char_eq_nat of_char_LOWER name_char_def this
  show "name_char c \<Longrightarrow> LOWER_BYTE c \<noteq> CHR '' ''" "name_char c \<Longrightarrow> LOWER_BYTE c \<noteq> CHR '':''"
    "LOWER_BYTE c = CHR '' '' \<Longrightarrow> c = CHR '' '' \<or> c = CHR 0x00"
    unfolding defs by (auto split: if_splits elim!: oddE evenE)
qed

lemma names_letters: "(nm, t) \<in> set header_names \<Longrightarrow> set nm \<subseteq> set letters \<and> nm \<noteq> [] \<and> t \<noteq> HDR_OTHER_T"
  by (auto simp: header_names_def letters_def)

lemma distinct_names: "distinct (map fst header_names)"
  by (simp add: header_names_def)

lemma dc_names:
  assumes "(s, t) \<in> set dc_table"
  shows "(s, t) \<in> set header_names \<and> s \<notin> set strict_names \<or>
    (\<exists>nm. s = nm @ '' '' \<and> (nm, t) \<in> set header_names \<and> t \<noteq> HDR_PATH_T)"
proof -
  have "list_all (\<lambda>(s, t). (s, t) \<in> set header_names \<and> s \<notin> set strict_names \<or>
      s \<noteq> [] \<and> last s = CHR '' '' \<and> (butlast s, t) \<in> set header_names \<and> t \<noteq> HDR_PATH_T) dc_table"
    by code_simp
  with assms have "(s, t) \<in> set header_names \<and> s \<notin> set strict_names \<or>
      s \<noteq> [] \<and> last s = CHR '' '' \<and> (butlast s, t) \<in> set header_names \<and> t \<noteq> HDR_PATH_T"
    by (auto simp: list_all_iff)
  then show ?thesis by (metis append_butlast_last_id)
qed

lemma ret_names:
  assumes "(s, t, k) \<in> set ret_table"
  shows "\<exists>nm. (s = nm @ '':'' \<or> s = nm @ '': '') \<and> k = length nm \<and> (nm, t) \<in> set header_names"
proof -
  have "list_all (\<lambda>(s, t, k). (s = take k s @ '':'' \<or> s = take k s @ '': '') \<and> k = length (take k s) \<and>
      (take k s, t) \<in> set header_names) ret_table"
    by code_simp
  with assms show ?thesis by (fastforce simp: list_all_iff)
qed

lemma low_names:
  assumes "list_all name_char n"
  shows "set (map lower_char n) \<subseteq> set letters \<Longrightarrow> map LOWER_BYTE n = map lower_char n"
    and "set (map LOWER_BYTE n) \<subseteq> set letters \<Longrightarrow> map lower_char n = map LOWER_BYTE n"
  using assms LOWER_BYTE_letter by (auto simp: list_all_iff)

lemma named_header_low:
  assumes "named_header buf n ws b c e"
  shows "low buf b = map LOWER_BYTE n @ map LOWER_BYTE ws @ CHR '':'' # low buf (Suc c)"
proof -
  from assms have h: "stands buf b n" "stands buf (b + length n) ws" "c = b + length n + length ws" "buf ! c = CHR '':''"
    "c < length buf"
    by (auto simp: named_header_def)
  have "stands buf b (n @ ws @ '':'')"
    using h by (simp add: stands_append stands_Cons)
  then have "drop b buf = (n @ ws @ '':'') @ drop (Suc c) buf"
    using h(3) append_take_drop_id [of "length (n @ ws @ '':'')" "drop b buf"] by (simp add: stands_def ac_simps)
  then show ?thesis by (simp add: low_def)
qed

text \<open>The character behind the name, and that no text of letters goes past it.\<close>

lemma sep_char:
  assumes "named_header buf n ws b c e"
  shows "low buf b ! length n = (case ws of [] \<Rightarrow> CHR '':'' | w # _ \<Rightarrow> if w = CHR '' '' then CHR '' '' else CHR '')'')"
proof -
  from assms have "list_all (\<lambda>c. c = CHR '' '' \<or> c = CHR 0x09) ws" by (simp add: named_header_def)
  then show ?thesis
    unfolding named_header_low [OF assms] by (cases ws) (auto simp: nth_append)
qed

lemma letters_fit:
  assumes "named_header buf n ws b c e" "low buf b = nm @ r" "set nm \<subseteq> set letters"
  shows "length nm \<le> length n"
proof (rule ccontr)
  assume "\<not> length nm \<le> length n"
  then have "nm ! length n \<in> set nm" "nm ! length n = low buf b ! length n"
    using assms(2) by (simp_all add: nth_append)
  with assms(3) sep_char [OF assms(1)] show False
    by (auto simp: letters_def split: list.splits if_splits)
qed

definition to_table :: "string \<Rightarrow> nat \<Rightarrow> nat \<Rightarrow> hdr_type \<Rightarrow> hdr_field \<Rightarrow> fault + nat option \<times> hdr_field \<Rightarrow> bool" where
  "to_table buf b c t hdr r \<longleftrightarrow>
     (\<exists>q. r = Inr (Some q, hdr\<lparr>h_type := t, h_name := span b c\<rparr>) \<and>
        (q = c + 1 \<or> q = c + 2 \<and> low buf (Suc c) ! 0 = CHR '' ''))"

definition label_of :: "string \<Rightarrow> nat \<Rightarrow> nat \<Rightarrow> hdr_field \<Rightarrow> hn_goto \<Rightarrow> fault + nat option \<times> hdr_field" where
  "label_of buf b e hdr g =
     (case g of
        Ret q t n \<Rightarrow> Inr (Some q, hdr\<lparr>h_type := t, h_name := Str (Buf b) (int n)\<rparr>)
      | Dc_end q t \<Rightarrow> hn_dc_end buf b e q t hdr
      | Other q \<Rightarrow> hn_other buf b e q hdr)"

lemma found_to_table:
  assumes h: "named_header buf n ws b c e"
    and g: "found_by b nm t x r g" "length nm = length n" "x = low buf b ! length n" "r = low buf (Suc (b + length n))" "r \<noteq> []"
  shows "to_table buf b c t hdr (label_of buf b e hdr g)"
proof -
  have c: "c = b + length n + length ws" using h by (simp add: named_header_def)
  have x: "x = CHR '':'' \<longleftrightarrow> ws = []" "x = CHR '' '' \<Longrightarrow> ws \<noteq> []"
    using sep_char [OF h] g(3) by (auto split: list.splits if_splits)
  have nil: "to_table buf b c t hdr (Inr (Some q, hdr\<lparr>h_type := t, h_name := Str (Buf b) (int (length n))\<rparr>))"
    if "ws = []" "q = b + length n + 1 \<or> q = b + length n + 2 \<and> r ! 0 = CHR '' ''" for q
    using that c g(4) by (auto simp: to_table_def span_def)
  have dc: "to_table buf b c t hdr (hn_dc_end buf b e q t hdr)" if "b + length n \<le> q" "q \<le> c" for q
    using hn_dc_end_space [OF h that] by (simp add: to_table_def)
  show ?thesis
    using g(1) unfolding found_by_def
  proof (elim disjE conjE)
    assume "g = Ret (b + length nm + 1) t (length nm)" "x = CHR '':''"
    with nil x(1) g(2) show ?thesis by (simp add: label_of_def)
  next
    assume "g = Ret (b + length nm + 2) t (length nm)" "x = CHR '':''" "hd r = CHR '' ''"
    with nil x(1) g(2,5) show ?thesis by (simp add: label_of_def hd_conv_nth)
  next
    assume "g = Dc_end (b + length nm) t"
    with dc [of "b + length n"] g(2) c show ?thesis by (simp add: label_of_def)
  next
    assume "g = Dc_end (b + length nm + 1) t" "x = CHR '' ''"
    with dc [of "b + length n + 1"] g(2) c x(2) show ?thesis by (cases ws) (simp_all add: label_of_def)
  qed
qed

lemma names_table:
  "(nm, t) \<in> set header_names \<Longrightarrow> map_of header_names nm = Some t"
  by (simp add: distinct_names)

lemma first_label:
  assumes h: "named_header buf n ws b c e" and slack: "c + 3 < length buf"
  obtains g where "FIRST_QUATERNIONS buf b (val_at buf b) = Inr g" "hn_sound buf b g"
proof -
  from h have c: "c = b + length n + length ws" "n \<noteq> []" by (simp_all add: named_header_def)
  have "in_name buf b (length n) b"
    using sep_char [OF h] c slack by (auto simp: in_name_def split: list.splits)
  from FIRST_QUATERNIONS_total [OF this] obtain g where g: "FIRST_QUATERNIONS buf b (val_at buf b) = Inr g"
    by (cases "FIRST_QUATERNIONS buf b (val_at buf b)") auto
  have "b + 4 \<le> length buf" using c slack by simp
  from FIRST_QUATERNIONS_sound [OF g this] g that show ?thesis by blast
qed

lemma known_name:
  assumes h: "named_header buf n ws b c e" and slack: "c + 3 < length buf"
    and t: "map_of header_names (map lower_char n) = Some t"
    and ok: "ws = [] \<or> t \<noteq> HDR_PATH_T \<and> (hd ws = CHR '' '' \<or> map lower_char n \<notin> set strict_names)"
  obtains g where "FIRST_QUATERNIONS buf b (val_at buf b) = Inr g" "to_table buf b c t hdr (label_of buf b e hdr g)"
proof -
  let ?nm = "map lower_char n"
  from h have c: "c = b + length n + length ws" "n \<noteq> []" "list_all name_char n" "c < e" "e \<le> length buf"
    "buf ! c = CHR '':''" "stands buf (b + length n) ws"
    unfolding named_header_def by blast+
  from t have nt: "(?nm, t) \<in> set header_names" by (rule map_of_SomeD)
  from low_names(1) [OF c(3)] names_letters [OF nt] have nm: "map LOWER_BYTE n = ?nm" by blast
  let ?r = "low buf (Suc (b + length n))"
  have "drop (b + length n) buf = buf ! (b + length n) # drop (Suc (b + length n)) buf"
    using c slack by (simp add: Cons_nth_drop_Suc)
  then have d: "low buf (b + length n) = low buf b ! length n # ?r"
    using c slack by (simp add: low_def)
  have L: "low buf b = ?nm @ low buf b ! length n # ?r"
    using named_header_low [OF h] append_take_drop_id [of "length n" "low buf b"] d
    unfolding nm by (simp add: low_add)
  have "3 \<le> length ?r" using c slack by (simp add: length_low)
  then obtain r0 r1 r2 r where r: "?r = r0 # r1 # r2 # r"
    by (auto simp: numeral_3_eq_3 Suc_le_length_iff)
  have "\<exists>g. FIRST_QUATERNIONS buf b (val_at buf b) = Inr g \<and> found_by b ?nm t (low buf b ! length n) ?r g"
  proof (cases "1 < length ?nm \<and> ?nm \<noteq> ''to''")
    case True
    then show ?thesis
      unfolding r using L ok sep_char [OF h] nt
      by (intro long_names_found) (auto simp: r split: list.splits if_splits)
  next
    case False
    have y: "buf ! (b + length ?nm) = CHR '':'' \<or> buf ! (b + length ?nm) = CHR '' '' \<or>
        buf ! (b + length ?nm) = CHR 0x09 \<and> ?nm \<notin> set strict_names"
    proof (cases ws)
      case Nil
      with c show ?thesis by simp
    next
      case (Cons w ws')
      with c(7) have "buf ! (b + length ?nm) = w" by (simp add: stands_Cons)
      with space_at_char [OF h, of "b + length n"] c(1) Cons ok show ?thesis by auto
    qed
    from False show ?thesis
      unfolding r using L nt y
      by (intro short_names_found [OF _ _ refl y]) (auto simp: r)
  qed
  then obtain g where g: "FIRST_QUATERNIONS buf b (val_at buf b) = Inr g"
    "found_by b ?nm t (low buf b ! length n) ?r g" by blast
  from found_to_table [OF h g(2)] r have "to_table buf b c t hdr (label_of buf b e hdr g)" by simp
  with g(1) that show ?thesis by blast
qed

lemma lowered_names:
  assumes h: "named_header buf n ws b c e" and s: "take k (low buf b) = s @ u" "length (s @ u) = k"
    and nm: "(s, t) \<in> set header_names"
  shows "length s \<le> length n"
proof -
  have "low buf b = s @ u @ drop k (low buf b)" using s(1) by (metis append.assoc append_take_drop_id)
  from letters_fit [OF h this] names_letters [OF nm] show ?thesis by blast
qed

lemma same_name:
  assumes h: "named_header buf n ws b c e" and s: "take k (low buf b) = s @ u" "length (s @ u) = k"
    and nm: "(s, t) \<in> set header_names" and l: "length n = length s"
  shows "map_of header_names (map lower_char n) = Some t"
proof -
  have "low buf b = s @ u @ drop k (low buf b)" using s(1) by (metis append.assoc append_take_drop_id)
  with named_header_low [OF h] l have "map LOWER_BYTE n = s" by (metis append_eq_append_conv length_map)
  moreover from h have "list_all name_char n" by (simp add: named_header_def)
  ultimately have "map lower_char n = s" using low_names(2) names_letters [OF nm] by metis
  with names_table [OF nm] show ?thesis by simp
qed

text \<open>A jump to a label with a type of its own, when the table has none for this name.\<close>

lemma unknown_name:
  assumes h: "named_header buf n ws b c e" and g: "hn_sound buf b g"
    and no: "header_type n ws = HDR_OTHER_T"
  shows "to_table buf b c HDR_OTHER_T hdr (label_of buf b e hdr g)"
proof -
  from h have c: "c = b + length n + length ws" "c < length buf" "n \<noteq> []" "list_all name_char n"
    unfolding named_header_def by auto
  have colon: "low buf b ! (c - b) = CHR '':''" 
    using named_header_low [OF h] c(1) by (simp add: nth_append)
  have below: "q \<le> c" if "b \<le> q" "q \<le> length buf" "CHR '':'' \<notin> set (take (q - b) (low buf b))" for q
  proof (rule ccontr)
    assume "\<not> q \<le> c"
    moreover have "length (take (q - b) (low buf b)) = q - b" using that(2) by (simp add: length_low)
    ultimately have "take (q - b) (low buf b) ! (c - b) \<in> set (take (q - b) (low buf b))"
      using c(1) by (intro nth_mem) simp
    with colon \<open>\<not> q \<le> c\<close> c that(3) show False by simp
  qed
  have other: "to_table buf b c HDR_OTHER_T hdr (hn_other buf b e q hdr)" if "b \<le> q" "q \<le> c" for q
    using hn_other_colon [OF h that] by (simp add: to_table_def)
  show ?thesis
  proof (cases g)
    case (Other q)
    with g below other show ?thesis by (simp add: hn_sound_def label_of_def)
  next
    case (Dc_end q t)
    let ?s = "take (q - b) (low buf b)"
    from g Dc_end have q: "b \<le> q" "q \<le> length buf" "(?s, t) \<in> set dc_table"
      "t = HDR_PATH_T \<longrightarrow> q < length buf \<and> LOWER_BYTE (buf ! q) = CHR '':''"
      by (simp_all add: hn_sound_def)
    have l: "length ?s = q - b" using q(1,2) by (simp add: length_low)
    have "q < b + length n"
    proof (rule ccontr)
      assume n: "\<not> q < b + length n"
      from dc_names [OF q(3)] show False
      proof (elim disjE exE conjE)
        assume s: "(?s, t) \<in> set header_names" "?s \<notin> set strict_names"
        from lowered_names [OF h _ _ s(1), of "q - b" "[]"] l n have e: "length n = length ?s" by simp
        with l n have q': "q = b + length n" by simp
        from same_name [OF h _ _ s(1) e, of "q - b" "[]"] l have m: "map_of header_names (map lower_char n) = Some t" by simp
        have "map lower_char n = ?s"
          using named_header_low [OF h] e l low_names(2) [OF c(4)] names_letters [OF s(1)] by simp
        with no m s(2) names_letters [OF map_of_SomeD [OF m]] have "ws \<noteq> []" "t = HDR_PATH_T"
          by (auto simp: header_type_def split: if_splits)
        with q(4) q' low_nth [of b "length n" buf] sep_char [OF h] show False by (auto split: list.splits if_splits)
      next
        fix nm assume s: "?s = nm @ '' ''" "(nm, t) \<in> set header_names" "t \<noteq> HDR_PATH_T"
        from lowered_names [OF h s(1) _ s(2)] l s(1) have "length nm \<le> length n" by simp
        moreover have "length nm \<noteq> length n - 1"
        proof
          assume e: "length nm = length n - 1"
          then have i: "length nm < length n" using c(3) by (simp add: Suc_le_eq)
          have "?s ! length nm = CHR '' ''" using s(1) by simp
          moreover have "?s ! length nm = low buf b ! length nm" using i n by simp
          moreover have "low buf b ! length nm = LOWER_BYTE (n ! length nm)"
            using named_header_low [OF h] i by (simp add: nth_append)
          ultimately show False using LOWER_BYTE_other(1) c(4) i by (auto simp: list_all_length)
        qed
        ultimately have e: "length n = length nm" using n l s(1) by simp
        from same_name [OF h s(1) _ s(2) e] l s(1) have m: "map_of header_names (map lower_char n) = Some t" by simp
        have "low buf b ! length n = CHR '' ''"
          using s(1) e l nth_take [of "length nm" "q - b" "low buf b"] by simp
        with sep_char [OF h] obtain ws' where "ws = CHR '' '' # ws'" by (auto split: list.splits if_splits)
        with no m s(3) names_letters [OF s(2)] show False by (simp add: header_type_def)
      qed
    qed
    from hn_dc_end_name [OF h q(1) this] Dc_end show ?thesis by (simp add: label_of_def to_table_def)
  next
    case (Ret q t k)
    let ?s = "take (q - b) (low buf b)"
    from g Ret have q: "b \<le> q" "q \<le> length buf" "(?s, t, k) \<in> set ret_table"
      by (simp_all add: hn_sound_def)
    have l: "length ?s = q - b" using q(1,2) by (simp add: length_low)
    from ret_names [OF q(3)] obtain nm u where s: "?s = nm @ CHR '':'' # u" "(nm, t) \<in> set header_names"
      by auto
    from lowered_names [OF h s(1) _ s(2)] l s(1) have le: "length nm \<le> length n" by simp
    have "low buf b ! length nm = CHR '':''"
      using nth_take [of "length nm" "q - b" "low buf b"] l s(1) by simp
    moreover have "low buf b ! length nm = LOWER_BYTE (n ! length nm)" if "length nm < length n"
      using named_header_low [OF h] that by (simp add: nth_append)
    ultimately have e: "length n = length nm"
      using le LOWER_BYTE_other(2) c(4) by (cases "length nm < length n") (auto simp: list_all_length)
    from same_name [OF h s(1) _ s(2) e] l s(1) have m: "map_of header_names (map lower_char n) = Some t" by simp
    from \<open>low buf b ! length nm = _\<close> e sep_char [OF h] have "ws = []" by (auto split: list.splits if_splits)
    with no m names_letters [OF s(2)] show ?thesis by (simp add: header_type_def)
  qed
qed

lemma parse_hname2_label:
  assumes "4 \<le> int e - int b" "e \<le> length buf" "FIRST_QUATERNIONS buf b (val_at buf b) = Inr g"
  shows "parse_hname2 buf b e hdr = label_of buf b e hdr g"
proof -
  from assms(1,2) obtain v where "READ buf b = Inr v" "LOWER_DWORD v = val_at buf b"
    by (simp add: READ_def val_at_def)
  with assms(1,3) show ?thesis by (simp add: parse_hname2_def label_of_def)
qed



section \<open>Names that are cut off\<close>

text \<open>
  A message that ends behind the first four characters of a name that has more, as
  \<open>Contact\<close> or \<open>Max-Forwards\<close>: \<open>parse_hname2\<close> reads four bytes behind the end of the message,
  outside its buffer where the buffer is not longer.
\<close>

theorem parse_hname2_reads_past_end:
  assumes "map LOWER_BYTE n \<in> {''cont'', ''call'', ''max-'', ''reco'', ''auth'', ''expi'', ''prox'', ''supp'', ''user'', ''subj''}"
    and "buf = pre @ n"
  shows "parse_hname2 buf (length pre) (length buf) hdr = Inl Out_of_bounds"
proof -
  let ?b = "length pre"
  have l: "length n = 4" using assms(1) by (auto dest!: arg_cong [of _ _ length])
  with assms(2) have b: "length buf = ?b + 4" "low buf ?b = map LOWER_BYTE n" by (simp_all add: low_def)
  then have 4: "take 4 (low buf ?b) = map LOWER_BYTE n" using l by simp
  have r: "READ buf (?b + 4) = Inl Out_of_bounds" using b by (simp add: READ_def)
  have "FIRST_QUATERNIONS buf ?b (val_at buf ?b) = Inl Out_of_bounds"
    using assms(1) b unfolding FIRST_QUATERNIONS_def
    by (simp only: val_keys [of ?b buf] order_refl 4) (elim insertE; simp add: CASE_defs next4_def r)
  moreover obtain v where "READ buf ?b = Inr v" "LOWER_DWORD v = val_at buf ?b"
    using b by (simp add: READ_def val_at_def)
  ultimately show ?thesis using b by (simp add: parse_hname2_def)
qed

lemma parse_hname2_reads_past_end_witness:
  "parse_hname2 ''xCont'' 1 5 \<lparr>h_type = HDR_OTHER_T, h_name = null_str\<rparr> = Inl Out_of_bounds"
proof -
  have "map LOWER_BYTE ''Cont'' = ''cont''" by code_simp
  then show ?thesis
    using parse_hname2_reads_past_end [of "''Cont''" _ "''x''" "\<lparr>h_type = HDR_OTHER_T, h_name = null_str\<rparr>"]
    by (simp add: eval_nat_numeral)
qed

end
