(* ===== verification/First_Line.thy ===== *)
theory First_Line
  imports Hname2
begin

text \<open>
  The first line of a message, \<open>src/core/parser/parse_fline.c\<close>, with the method recogniser of
  \<open>parse_methods.c\<close> and the small scanners of \<open>parser_f.h\<close> and \<open>trim.h\<close>. Offsets into the buffer
  stand for pointers; \<open>end\<close> is an offset too, and a null \<open>end\<close> is \<open>None\<close>. Every read checks that
  it is inside the buffer.
\<close>

unbundle bit_operations_syntax

section \<open>Scanning helpers\<close>

definition SP :: "char \<Rightarrow> bool" where
  "SP c \<longleftrightarrow> c = CHR 0x09 \<or> c = CHR '' ''"

definition eat_space_end :: "string \<Rightarrow> nat \<Rightarrow> nat \<Rightarrow> fault + nat" where
  "eat_space_end buf p e = run_while (\<lambda>c. c = CHR '' '' \<or> c = CHR 0x09) buf p e"

definition eat_token_end :: "string \<Rightarrow> nat \<Rightarrow> nat \<Rightarrow> fault + nat" where
  "eat_token_end buf p e =
     run_while (\<lambda>c. c \<noteq> CHR '' '' \<and> c \<noteq> CHR 0x09 \<and> c \<noteq> CHR 0x0A \<and> c \<noteq> CHR 0x0D) buf p e"

definition eat_token2_end :: "string \<Rightarrow> nat \<Rightarrow> nat \<Rightarrow> char \<Rightarrow> fault + nat" where
  "eat_token2_end buf p e delim =
     run_while (\<lambda>c. c \<noteq> delim \<and> c \<noteq> CHR 0x0A \<and> c \<noteq> CHR 0x0D) buf p e"

definition is_empty_end :: "string \<Rightarrow> nat \<Rightarrow> nat \<Rightarrow> fault + bool" where
  "is_empty_end buf p e =
     ebind (eat_space_end buf p e) (\<lambda>q.
       if q < e then ebind (byte_at buf q) (\<lambda>c. Inr (c = CHR 0x0D \<or> c = CHR 0x0A)) else Inr False)"

text \<open>White space with folded lines; every branch reads on, so that the rest gets shorter.\<close>

function eat_lws_end :: "string \<Rightarrow> nat \<Rightarrow> nat \<Rightarrow> fault + nat" where
  "eat_lws_end buf p e =
     (if e \<le> p then Inr p
      else if length buf \<le> p then Inl Out_of_bounds
      else if SP (buf ! p) then eat_lws_end buf (p + 1) e
      else if buf ! p = CHR 0x0A then
        (if p + 1 < e then
           ebind (byte_at buf (p + 1)) (\<lambda>c. if SP c then eat_lws_end buf (p + 2) e else Inr p)
         else Inr p)
      else if buf ! p = CHR 0x0D then
        (if p + 2 < e then
           ebind (byte_at buf (p + 1)) (\<lambda>c.
             if c = CHR 0x0A
             then ebind (byte_at buf (p + 2)) (\<lambda>d. if SP d then eat_lws_end buf (p + 3) e else Inr p)
             else Inr p)
         else Inr p)
      else Inr p)"
  by pat_completeness auto
termination by (relation "measure (\<lambda>(buf, p, e). e - p)") auto

declare eat_lws_end.simps [simp del]

text \<open>\<open>trim_leading\<close> and \<open>trim_trailing\<close> on the bytes between two offsets.\<close>

definition trim_char :: "char \<Rightarrow> bool" where
  "trim_char c \<longleftrightarrow> c = CHR '' '' \<or> c = CHR 0x09 \<or> c = CHR 0x0D \<or> c = CHR 0x0A"

definition trim_leading :: "string \<Rightarrow> nat \<Rightarrow> nat \<Rightarrow> fault + nat" where
  "trim_leading buf p e = run_while trim_char buf p e"

fun trim_trailing :: "string \<Rightarrow> nat \<Rightarrow> nat \<Rightarrow> fault + nat" where
  "trim_trailing buf p e =
     (if e \<le> p then Inr e
      else ebind (byte_at buf (e - 1)) (\<lambda>c. if trim_char c then trim_trailing buf p (e - 1) else Inr e))"

declare trim_trailing.simps [simp del]

definition trim :: "string \<Rightarrow> nat \<Rightarrow> nat \<Rightarrow> fault + nat \<times> nat" where
  "trim buf p e = ebind (trim_leading buf p e) (\<lambda>q. ebind (trim_trailing buf q e) (\<lambda>r. Inr (q, r)))"

section \<open>Methods\<close>

definition METHOD_UNDEF :: u32 where "METHOD_UNDEF = 0"
definition METHOD_INVITE :: u32 where "METHOD_INVITE = 1"
definition METHOD_CANCEL :: u32 where "METHOD_CANCEL = 2"
definition METHOD_ACK :: u32 where "METHOD_ACK = 4"
definition METHOD_BYE :: u32 where "METHOD_BYE = 8"
definition METHOD_INFO :: u32 where "METHOD_INFO = 16"
definition METHOD_OPTIONS :: u32 where "METHOD_OPTIONS = 32"
definition METHOD_UPDATE :: u32 where "METHOD_UPDATE = 64"
definition METHOD_REGISTER :: u32 where "METHOD_REGISTER = 128"
definition METHOD_MESSAGE :: u32 where "METHOD_MESSAGE = 256"
definition METHOD_SUBSCRIBE :: u32 where "METHOD_SUBSCRIBE = 512"
definition METHOD_NOTIFY :: u32 where "METHOD_NOTIFY = 1024"
definition METHOD_PRACK :: u32 where "METHOD_PRACK = 2048"
definition METHOD_REFER :: u32 where "METHOD_REFER = 4096"
definition METHOD_PUBLISH :: u32 where "METHOD_PUBLISH = 8192"
definition METHOD_OTHER :: u32 where "METHOD_OTHER = 16384"

text \<open>\<open>char\<close> is signed: no byte from 128 on passes the comparisons.\<close>

definition method_char :: "char \<Rightarrow> bool" where
  "method_char c \<longleftrightarrow>
     (let n = (of_char c :: nat)
      in 65 \<le> n \<and> n \<le> 90 \<or> 97 \<le> n \<and> n \<le> 122 \<or> 48 \<le> n \<and> n \<le> 57) \<or>
     c \<in> {CHR ''-'', CHR ''.'', CHR ''%'', CHR ''*'', CHR ''_'', CHR ''+'', CHR ''~''}"

definition method_end :: "char \<Rightarrow> bool" where
  "method_end c \<longleftrightarrow> c \<in> {CHR 0x00, CHR '','', CHR '' '', CHR 0x09, CHR 0x0D, CHR 0x0A}"

text \<open>\<open>(s[0] == a || s[0] == b) && (s[1] == ..) && ...\<close>: each byte only read if the ones before fit.\<close>

fun either_at :: "string \<Rightarrow> nat \<Rightarrow> (char \<times> char) list \<Rightarrow> fault + bool" where
  "either_at buf p [] = Inr True"
| "either_at buf p ((a, b) # cs) =
     ebind (byte_at buf p) (\<lambda>c. if c = a \<or> c = b then either_at buf (p + 1) cs else Inr False)"

text \<open>The label \<open>unknown\<close>: the rest of the token, from \<open>start + len\<close> on.\<close>

function unknown_method :: "string \<Rightarrow> nat \<Rightarrow> nat option \<Rightarrow> fault + nat option \<times> u32" where
  "unknown_method buf p e =
     (if e \<noteq> None \<and> the e \<le> p then Inr (e, METHOD_OTHER)
      else if length buf \<le> p then Inl Out_of_bounds
      else if method_end (buf ! p) then Inr (Some p, METHOD_OTHER)
      else if \<not> method_char (buf ! p) then Inr (None, METHOD_OTHER)
      else unknown_method buf (p + 1) e)"
  by pat_completeness auto
termination by (relation "measure (\<lambda>(buf, p, e). length buf - p)") auto

declare unknown_method.simps [simp del]

text \<open>The label \<open>done\<close>, with \<open>len\<close> and the value of the method.\<close>

definition done_method :: "string \<Rightarrow> nat \<Rightarrow> nat option \<Rightarrow> nat \<Rightarrow> u32 \<Rightarrow> fault + nat option \<times> u32" where
  "done_method buf p e n v =
     (if e = None \<or> p + n < the e
      then ebind (byte_at buf (p + n)) (\<lambda>c.
             if method_end c then Inr (Some (p + n), v) else unknown_method buf (p + n) e)
      else Inr (Some (p + n), v))"

text \<open>\<open>if (end && max < n) goto unknown\<close>; then the comparison, and \<open>goto done\<close> or go on.\<close>

definition at_least :: "nat \<Rightarrow> nat option \<Rightarrow> nat \<Rightarrow> bool" where
  "at_least p e n \<longleftrightarrow> e = None \<or> p + n \<le> the e"

definition try_method :: "string \<Rightarrow> nat \<Rightarrow> nat option \<Rightarrow> nat \<Rightarrow> nat \<Rightarrow> (char \<times> char) list \<Rightarrow> u32
    \<Rightarrow> (fault + nat option \<times> u32) \<Rightarrow> fault + nat option \<times> u32" where
  "try_method buf p e n k cs v next =
     (if at_least p e n then
        ebind (either_at buf (p + k) cs) (\<lambda>m. if m then done_method buf p e n v else next)
      else unknown_method buf p e)"

definition parse_method :: "string \<Rightarrow> nat \<Rightarrow> nat option \<Rightarrow> fault + nat option \<times> u32" where
  "parse_method buf p e =
     ebind (byte_at buf p) (\<lambda>c.
       let unknown = unknown_method buf p e
       in if c = CHR ''A'' \<or> c = CHR ''a'' then
            try_method buf p e 3 1 [(CHR ''c'', CHR ''C''), (CHR ''k'', CHR ''K'')] METHOD_ACK unknown
          else if c = CHR ''B'' \<or> c = CHR ''b'' then
            try_method buf p e 3 1 [(CHR ''y'', CHR ''Y''), (CHR ''e'', CHR ''E'')] METHOD_BYE unknown
          else if c = CHR ''C'' \<or> c = CHR ''c'' then
            try_method buf p e 6 1 [(CHR ''a'', CHR ''A''), (CHR ''n'', CHR ''N''), (CHR ''c'', CHR ''C''),
              (CHR ''e'', CHR ''E''), (CHR ''l'', CHR ''L'')] METHOD_CANCEL unknown
          else if c = CHR ''I'' \<or> c = CHR ''i'' then
            (if at_least p e 4 then
               ebind (byte_at buf (p + 1)) (\<lambda>d.
                 if d = CHR ''n'' \<and> d = CHR ''N'' then unknown
                 else try_method buf p e 4 2 [(CHR ''f'', CHR ''F''), (CHR ''o'', CHR ''O'')] METHOD_INFO
                   (try_method buf p e 6 2 [(CHR ''v'', CHR ''V''), (CHR ''i'', CHR ''I''), (CHR ''t'', CHR ''T''),
                      (CHR ''e'', CHR ''E'')] METHOD_INVITE unknown))
             else unknown)
          else if c = CHR ''M'' \<or> c = CHR ''m'' then
            try_method buf p e 7 1 [(CHR ''e'', CHR ''E''), (CHR ''s'', CHR ''S''), (CHR ''s'', CHR ''S''),
              (CHR ''a'', CHR ''A''), (CHR ''g'', CHR ''G''), (CHR ''e'', CHR ''E'')] METHOD_MESSAGE unknown
          else if c = CHR ''N'' \<or> c = CHR ''n'' then
            try_method buf p e 6 1 [(CHR ''o'', CHR ''O''), (CHR ''t'', CHR ''T''), (CHR ''i'', CHR ''I''),
              (CHR ''f'', CHR ''F''), (CHR ''y'', CHR ''Y'')] METHOD_NOTIFY unknown
          else if c = CHR ''O'' \<or> c = CHR ''o'' then
            try_method buf p e 7 1 [(CHR ''p'', CHR ''P''), (CHR ''t'', CHR ''T''), (CHR ''i'', CHR ''I''),
              (CHR ''o'', CHR ''O''), (CHR ''n'', CHR ''N''), (CHR ''s'', CHR ''S'')] METHOD_OPTIONS unknown
          else if c = CHR ''P'' \<or> c = CHR ''p'' then
            try_method buf p e 5 1 [(CHR ''r'', CHR ''R''), (CHR ''a'', CHR ''A''), (CHR ''c'', CHR ''C''),
              (CHR ''k'', CHR ''K'')] METHOD_PRACK
              (try_method buf p e 7 1 [(CHR ''u'', CHR ''U''), (CHR ''b'', CHR ''B''), (CHR ''l'', CHR ''L''),
                 (CHR ''i'', CHR ''I''), (CHR ''s'', CHR ''S''), (CHR ''h'', CHR ''H'')] METHOD_PUBLISH unknown)
          else if c = CHR ''R'' \<or> c = CHR ''r'' then
            (if at_least p e 5 then
               ebind (byte_at buf (p + 1)) (\<lambda>d.
                 if d \<noteq> CHR ''e'' \<and> d \<noteq> CHR ''E'' then unknown
                 else try_method buf p e 5 2 [(CHR ''f'', CHR ''F''), (CHR ''e'', CHR ''E''),
                     (CHR ''R'', CHR ''R'')] METHOD_REFER
                   (try_method buf p e 8 2 [(CHR ''g'', CHR ''G''), (CHR ''i'', CHR ''I''), (CHR ''s'', CHR ''S''),
                      (CHR ''t'', CHR ''T''), (CHR ''e'', CHR ''E''), (CHR ''r'', CHR ''R'')] METHOD_REGISTER unknown))
             else unknown)
          else if c = CHR ''S'' \<or> c = CHR ''s'' then
            try_method buf p e 9 1 [(CHR ''u'', CHR ''U''), (CHR ''b'', CHR ''B''), (CHR ''s'', CHR ''S''),
              (CHR ''c'', CHR ''C''), (CHR ''r'', CHR ''R''), (CHR ''i'', CHR ''I''), (CHR ''b'', CHR ''B''),
              (CHR ''e'', CHR ''E'')] METHOD_SUBSCRIBE unknown
          else if c = CHR ''U'' \<or> c = CHR ''u'' then
            try_method buf p e 6 1 [(CHR ''p'', CHR ''P''), (CHR ''d'', CHR ''D''), (CHR ''a'', CHR ''A''),
              (CHR ''t'', CHR ''T''), (CHR ''e'', CHR ''E'')] METHOD_UPDATE unknown
          else unknown)"

text \<open>The comma separated list: each round reads a method and the comma behind it.\<close>

lemma unknown_method_ge:
  "unknown_method buf p e = Inr (Some q, v) \<Longrightarrow> e = None \<or> p \<le> the e \<Longrightarrow> p \<le> q"
proof (induction buf p e rule: unknown_method.induct)
  case (1 buf p e)
  show ?case
  proof (cases "e \<noteq> None \<and> the e \<le> p")
    case True
    with 1(2,3) show ?thesis by (subst (asm) unknown_method.simps) auto
  next
    case False
    with 1 show ?thesis by (subst (asm) (2) unknown_method.simps) (auto split: if_splits)
  qed
qed

lemma done_method_ge:
  "done_method buf p e n v = Inr (Some q, w) \<Longrightarrow> p \<le> q"
  by (auto simp: done_method_def ebind_def byte_at_def split: if_splits dest!: unknown_method_ge)

lemma try_method_ge:
  assumes "try_method buf p e n k cs v next = Inr (Some q, w)" "next = Inr (Some q, w) \<Longrightarrow> p \<le> q"
    "e = None \<or> p \<le> the e"
  shows "p \<le> q"
  using assms(1) unfolding try_method_def
  by (auto simp: ebind_def split: if_splits sum.splits dest: done_method_ge unknown_method_ge [OF _ assms(3)] assms(2))

lemma parse_method_ge:
  assumes "parse_method buf p e = Inr (Some q, v)" "e = None \<or> p \<le> the e"
  shows "p \<le> q"
proof -
  have u: "unknown_method buf p e = Inr (Some q, v) \<Longrightarrow> p \<le> q" by (rule unknown_method_ge [OF _ assms(2)])
  have t: "try_method buf p e n k cs w u = Inr (Some q, v) \<Longrightarrow> (u = Inr (Some q, v) \<Longrightarrow> p \<le> q) \<Longrightarrow> p \<le> q"
    for n k cs w u by (rule try_method_ge [OF _ _ assms(2)])
  note t' = t [OF _ u] t [OF _ t [OF _ u]]
  show ?thesis
    using assms(1) unfolding parse_method_def byte_at_def
    by (auto simp: Let_def split: if_splits intro: u t t')
qed

function methods_loop :: "string \<Rightarrow> nat \<Rightarrow> nat \<Rightarrow> u32 \<Rightarrow> fault + int \<times> u32" where
  "methods_loop buf p e acc =
     (if e \<le> p then Inr (0, acc)
      else case parse_method buf p (Some e) of
        Inl f \<Rightarrow> Inl f
      | Inr (None, v) \<Rightarrow> Inr (- 1, acc)
      | Inr (Some p0, v) \<Rightarrow>
          (case run_while trim_char buf p0 e of
             Inl f \<Rightarrow> Inl f
           | Inr q \<Rightarrow>
               if e \<le> q then Inr (0, acc OR v)
               else if length buf \<le> q then Inl Out_of_bounds
               else if buf ! q = CHR 0x00 then Inr (0, acc OR v)
               else if buf ! q = CHR '','' then
                 (case run_while trim_char buf (q + 1) e of
                    Inl f \<Rightarrow> Inl f
                  | Inr r \<Rightarrow> methods_loop buf r e (acc OR v))
               else Inr (- 1, acc OR v)))"
  by pat_completeness auto

termination methods_loop
proof (relation "measure (\<lambda>(buf, p, e, acc). e - p)")
  fix buf :: string and p e acc x y p0 v q r
  assume h: "\<not> e \<le> p" "parse_method buf p (Some e) = Inr x" "(y, v) = x" "y = Some p0"
    "run_while trim_char buf p0 e = Inr q" "\<not> e \<le> q" "run_while trim_char buf (q + 1) e = Inr r"
  then have "p \<le> p0" by (intro parse_method_ge [of buf p "Some e" p0 v]) auto
  also have "p0 \<le> q" by (rule run_while_ge [OF h(5)])
  also have "q < r" using run_while_ge [OF h(7)] by simp
  finally show "((buf, r, e, acc OR v), (buf, p, e, acc)) \<in> measure (\<lambda>(buf, p, e, acc). e - p)"
    using h(1) by simp
qed simp

declare methods_loop.simps [simp del]

text \<open>The body is the text between \<open>b\<close> and \<open>e\<close>; the result is 0 or -1, and the bits.\<close>

definition parse_methods :: "string \<Rightarrow> nat \<Rightarrow> nat \<Rightarrow> fault + int \<times> u32" where
  "parse_methods buf b e =
     ebind (trim_leading buf b e) (\<lambda>p. if e \<le> p then Inr (0, 0) else methods_loop buf p e 0)"

section \<open>The first line\<close>

definition SIP_VERSION :: string where "SIP_VERSION = ''SIP/2.0''"
definition SIP_VERSION_LEN :: nat where "SIP_VERSION_LEN = 7"

datatype msg_type = SIP_INVALID | SIP_REQUEST | SIP_REPLY

text \<open>
  \<open>struct msg_start\<close>. The union holds three strings and a number either way: method, URI,
  version and method value of a request share their memory with version, status, reason and
  status code of a reply, and the code writes one and reads the other.
\<close>

record msg_start =
  fl_type :: msg_type
  fl_len :: int
  fl_method_version :: cstr
  fl_uri_status :: cstr
  fl_version_reason :: cstr
  fl_method_value_statuscode :: u32

text \<open>\<open>strncasecmp(tmp, s, strlen(s)) == 0\<close> for a literal without zero bytes.\<close>

fun same_text_at :: "string \<Rightarrow> nat \<Rightarrow> string \<Rightarrow> fault + bool" where
  "same_text_at buf p [] = Inr True"
| "same_text_at buf p (c # s) =
     ebind (byte_at buf p) (\<lambda>d. if lower_char d = lower_char c then same_text_at buf (p + 1) s else Inr False)"

text \<open>The literal with its first letter in either case, and a space behind it.\<close>

definition literal_at :: "string \<Rightarrow> nat \<Rightarrow> string \<Rightarrow> fault + bool" where
  "literal_at buf p s =
     ebind (byte_at buf p) (\<lambda>c.
       if c = hd s \<or> c = LOWER_BYTE (hd s) then
         ebind (same_text_at buf (p + 1) (tl s)) (\<lambda>m.
           if m then ebind (byte_at buf (p + length s)) (\<lambda>d. Inr (d = CHR '' '')) else Inr False)
       else Inr False)"

fun IFISMETHOD :: "string \<Rightarrow> nat \<Rightarrow> (string \<times> u32) list \<Rightarrow> fault + (string \<times> u32) option" where
  "IFISMETHOD buf p [] = Inr None"
| "IFISMETHOD buf p ((s, v) # ms) =
     ebind (literal_at buf p s) (\<lambda>m. if m then Inr (Some (s, v)) else IFISMETHOD buf p ms)"

definition tested_methods :: "(string \<times> u32) list" where
  "tested_methods = [(''INVITE'', METHOD_INVITE), (''CANCEL'', METHOD_CANCEL), (''ACK'', METHOD_ACK),
     (''BYE'', METHOD_BYE), (''INFO'', METHOD_INFO)]"

type_synonym fl_res = "fault + nat option \<times> msg_start"

definition fl_error :: "nat \<Rightarrow> msg_start \<Rightarrow> fl_res" where
  "fl_error tmp fl = Inr (Some tmp, fl\<lparr>fl_type := SIP_INVALID\<rparr>)"

definition fl_too_short :: "msg_start \<Rightarrow> fl_res" where
  "fl_too_short fl = Inr (None, fl)"

definition set_len :: "int \<Rightarrow> cstr \<Rightarrow> cstr" where
  "set_len l w = Str (str_s w) l"

text \<open>Up to the space behind the first token, \<open>tmp\<close>.\<close>

definition first_token :: "string \<Rightarrow> nat \<Rightarrow> nat \<Rightarrow> msg_start \<Rightarrow> (nat \<Rightarrow> msg_start \<Rightarrow> fl_res) \<Rightarrow> fl_res" where
  "first_token buf b e fl go =
     ebind (literal_at buf b SIP_VERSION) (\<lambda>reply.
       if reply then
         go (b + SIP_VERSION_LEN) (fl\<lparr>fl_type := SIP_REPLY,
               fl_method_version := set_len (int SIP_VERSION_LEN) (fl_method_version fl)\<rparr>)
       else ebind (IFISMETHOD buf b tested_methods) (\<lambda>known.
         case known of
           Some (s, v) \<Rightarrow>
             go (b + length s) (fl\<lparr>fl_type := SIP_REQUEST,
                   fl_method_version := set_len (int (length s)) (fl_method_version fl),
                   fl_method_value_statuscode := v\<rparr>)
         | None \<Rightarrow>
             let fl1 = fl\<lparr>fl_type := SIP_REQUEST\<rparr>
             in ebind (eat_token_end buf b e) (\<lambda>tmp.
                  if tmp = b then fl_error tmp fl1
                  else if e \<le> tmp then fl_too_short fl1
                  else ebind (byte_at buf tmp) (\<lambda>c.
                    if c \<noteq> CHR '' '' then fl_error tmp fl1
                    else ebind (parse_method buf b (Some tmp)) (\<lambda>(r, v).
                      let fl2 = fl1\<lparr>fl_method_value_statuscode := v\<rparr>
                      in if r = None then fl_error tmp fl2
                         else go tmp (fl2\<lparr>fl_method_version :=
                                set_len (int tmp - int b) (fl_method_version fl2)\<rparr>))))))"

definition is_digit :: "char \<Rightarrow> bool" where
  "is_digit c \<longleftrightarrow> 48 \<le> (of_char c :: nat) \<and> of_char c \<le> (57 :: nat)"

definition status_code :: "char \<Rightarrow> char \<Rightarrow> char \<Rightarrow> u32" where
  "status_code s1 s2 s3 = (of_char s1 - 48) * 100 + 10 * (of_char s2 - 48) + (of_char s3 - 48)"

text \<open>The end of the line: \<open>tmp\<close> is behind the third token, \<open>nl\<close> where the line should end.\<close>

definition line_ends :: "string \<Rightarrow> nat \<Rightarrow> nat \<Rightarrow> nat \<Rightarrow> nat \<Rightarrow> nat \<Rightarrow> msg_start \<Rightarrow> fl_res" where
  "line_ends buf b e third tmp nl fl =
     (let ok = (\<lambda>nl. Inr (Some nl, fl\<lparr>fl_version_reason := Str (Buf third) (int tmp - int third),
                               fl_len := int nl - int b\<rparr>))
      in ebind (byte_at buf nl) (\<lambda>c.
           if c = CHR 0x0D then
             (if e \<le> nl + 1 then fl_too_short fl
              else ebind (byte_at buf (nl + 1)) (\<lambda>d. if d = CHR 0x0A then ok (nl + 2) else ok (nl + 1)))
           else if c = CHR 0x0A then ok (nl + 1)
           else fl_error tmp fl))"

definition reply_rest :: "string \<Rightarrow> nat \<Rightarrow> nat \<Rightarrow> nat \<Rightarrow> nat \<Rightarrow> nat \<Rightarrow> msg_start \<Rightarrow> fl_res" where
  "reply_rest buf b e second tmp third fl =
     (if str_len (fl_uri_status fl) \<noteq> 3 then fl_error tmp fl
      else ebind (byte_at buf second) (\<lambda>s1.
        ebind (byte_at buf (second + 1)) (\<lambda>s2.
          ebind (byte_at buf (second + 2)) (\<lambda>s3.
            if is_digit s1 \<and> is_digit s2 \<and> is_digit s3 then
              let fl1 = fl\<lparr>fl_method_value_statuscode := status_code s1 s2 s3\<rparr>
              in ebind (eat_token2_end buf third e CHR 0x0D) (\<lambda>tmp.
                   if e \<le> tmp then fl_too_short fl1 else line_ends buf b e third tmp tmp fl1)
            else fl_error tmp fl))))"

definition request_rest :: "string \<Rightarrow> nat \<Rightarrow> nat \<Rightarrow> nat \<Rightarrow> msg_start \<Rightarrow> fl_res" where
  "request_rest buf b e third fl =
     ebind (eat_token_end buf third e) (\<lambda>tmp.
       if tmp = third then fl_error tmp fl
       else if e \<le> tmp then fl_too_short fl
       else ebind (eat_space_end buf tmp e) (\<lambda>nl.
         if e \<le> nl then fl_too_short fl else line_ends buf b e third tmp nl fl))"

definition parse_first_line :: "string \<Rightarrow> nat \<Rightarrow> nat \<Rightarrow> msg_start \<Rightarrow> fl_res" where
  "parse_first_line buf b len fl =
     (let e = b + len
      in if len \<le> 16 then fl_too_short fl
         else first_token buf b e fl (\<lambda>tmp fl0.
           let fl1 = fl0\<lparr>fl_method_version := Str (Buf b) (str_len (fl_method_version fl0))\<rparr>;
               second = tmp + 1
           in ebind (eat_token_end buf second e) (\<lambda>tmp.
                if e \<le> tmp then fl_too_short fl1
                else ebind (eat_space_end buf tmp e) (\<lambda>third.
                  if third = tmp then fl_error tmp fl1
                  else if e \<le> third then fl_too_short fl1
                  else let fl2 = fl1\<lparr>fl_uri_status := Str (Buf second) (int tmp - int second)\<rparr>
                       in if fl_type fl2 = SIP_REPLY
                          then reply_rest buf b e second tmp third fl2
                          else request_rest buf b e third fl2))))"

end
