(* ===== verification/First_Line_Props.thy ===== *)
theory First_Line_Props
  imports First_Line
begin

text \<open>
  What the first line parser computes: methods are a table, a list of methods is the union of
  their bits, a request and a status line are parsed to their parts, and no text makes the parser
  leave it.
\<close>

section \<open>Methods\<close>

definition method_names :: "(string \<times> u32) list" where
  "method_names =
    [(''ack'', METHOD_ACK), (''bye'', METHOD_BYE), (''cancel'', METHOD_CANCEL), (''info'', METHOD_INFO),
     (''invite'', METHOD_INVITE), (''message'', METHOD_MESSAGE), (''notify'', METHOD_NOTIFY),
     (''options'', METHOD_OPTIONS), (''prack'', METHOD_PRACK), (''publish'', METHOD_PUBLISH),
     (''refer'', METHOD_REFER), (''register'', METHOD_REGISTER), (''subscribe'', METHOD_SUBSCRIBE),
     (''update'', METHOD_UPDATE)]"

text \<open>
  The second letter of a method that begins with \<open>i\<close> is not looked at, and the last one of
  \<open>refer\<close> has to be upper case.
\<close>

definition method_key :: "string \<Rightarrow> string" where
  "method_key t =
     (case map lower_char t of
        c # d # l \<Rightarrow> if c = CHR ''i'' then c # CHR ''n'' # l else c # d # l
      | l \<Rightarrow> l)"

definition method_value :: "string \<Rightarrow> u32" where
  "method_value t =
     (if map lower_char t = ''refer'' \<and> last t \<noteq> CHR ''R'' then METHOD_OTHER
      else case map_of method_names (method_key t) of None \<Rightarrow> METHOD_OTHER | Some v \<Rightarrow> v)"

fun fits :: "string \<Rightarrow> (char \<times> char) list \<Rightarrow> bool" where
  "fits t [] = True"
| "fits [] (_ # _) = False"
| "fits (c # t) ((a, b) # cs) = ((c = a \<or> c = b) \<and> fits t cs)"

text \<open>A method at \<open>p\<close>: it ends where the text ends or at a separator.\<close>

definition method_at :: "string \<Rightarrow> nat \<Rightarrow> nat option \<Rightarrow> string \<Rightarrow> bool" where
  "method_at buf p e t \<longleftrightarrow> stands buf p t \<and> list_all method_char t \<and>
     (e = Some (p + length t) \<or>
      p + length t < length buf \<and> method_end (buf ! (p + length t)) \<and> (e = None \<or> p + length t < the e))"

lemma method_char_end: "method_char c \<Longrightarrow> \<not> method_end c"
  by (auto simp: method_char_def method_end_def Let_def)

lemma method_at_drop:
  assumes "method_at buf p e t" "k \<le> length t"
  shows "method_at buf (p + k) e (drop k t)"
proof -
  have "stands buf (p + k) (drop k t)"
    using assms stands_append [of buf p "take k t" "drop k t"] by (simp add: method_at_def)
  moreover have "list_all method_char (drop k t)"
    using assms(1) set_drop_subset [of k t] by (auto simp: method_at_def list_all_iff)
  ultimately show ?thesis using assms by (simp add: method_at_def)
qed

lemma unknown_method_at:
  "method_at buf p e t \<Longrightarrow> unknown_method buf p e = Inr (Some (p + length t), METHOD_OTHER)"
proof (induction t arbitrary: p)
  case Nil
  then show ?case by (subst unknown_method.simps) (auto simp: method_at_def)
next
  case (Cons c t)
  then have "unknown_method buf (p + 1) e = Inr (Some (p + 1 + length t), METHOD_OTHER)"
    using method_at_drop [OF Cons.prems, of 1] by simp
  moreover have "p < length buf" "buf ! p = c" "method_char c" "e = None \<or> p < the e"
    using Cons.prems by (auto simp: method_at_def stands_Cons)
  ultimately show ?case
    using method_char_end [of c] by (subst unknown_method.simps) auto
qed

definition letters_only :: "(char \<times> char) list \<Rightarrow> bool" where
  "letters_only cs \<longleftrightarrow> list_all (\<lambda>(a, b). method_char a \<and> method_char b) cs"

lemma either_at_method:
  assumes "method_at buf p e t" "letters_only cs" "length cs \<le> length t \<or> e \<noteq> Some (p + length t)"
  shows "either_at buf p cs = Inr (fits t cs)"
  using assms
proof (induction t cs arbitrary: p rule: fits.induct)
  case (2 x cs)
  then have "p < length buf" "method_end (buf ! p)" by (auto simp: method_at_def)
  with 2(2) show ?case by (cases x) (auto simp: letters_only_def dest: method_char_end)
next
  case (3 c t a b cs)
  have "method_at buf (p + 1) e t" using method_at_drop [OF 3(2), of 1] by simp
  with 3 have "c = a \<or> c = b \<Longrightarrow> either_at buf (p + 1) cs = Inr (fits t cs)"
    by (auto simp: letters_only_def)
  moreover have "p < length buf" "buf ! p = c" using 3(2) by (auto simp: method_at_def stands_Cons)
  ultimately show ?case by simp
qed simp

lemma fits_length: "fits t cs \<Longrightarrow> length cs \<le> length t"
  by (induction t cs rule: fits.induct) auto

lemma try_method_at:
  assumes m: "method_at buf p e t" and cs: "letters_only cs" "length cs + k = n" "k \<le> length t"
    and nx: "next = Inr (Some (p + length t), w)"
  shows "try_method buf p e n k cs v next = Inr (Some (p + length t),
    if fits (drop k t) cs then if length t = n then v else METHOD_OTHER
    else if at_least p e n then w else METHOD_OTHER)"
proof (cases "at_least p e n")
  case True
  have "length cs \<le> length (drop k t) \<or> e \<noteq> Some (p + k + length (drop k t))"
    using True cs by (auto simp: at_least_def)
  from either_at_method [OF method_at_drop [OF m cs(3)] cs(1) this]
  have ei: "either_at buf (p + k) cs = Inr (fits (drop k t) cs)" .
  show ?thesis
  proof (cases "fits (drop k t) cs")
    case f: True
    then have "n \<le> length t" using fits_length [OF f] cs by simp
    from unknown_method_at [OF method_at_drop [OF m this]]
    have u: "unknown_method buf (p + n) e = Inr (Some (p + length t), METHOD_OTHER)"
      using \<open>n \<le> length t\<close> by simp
    have "done_method buf p e n v = Inr (Some (p + length t), if length t = n then v else METHOD_OTHER)"
    proof (cases "length t = n")
      case True
      with m show ?thesis by (auto simp: done_method_def method_at_def)
    next
      case False
      with \<open>n \<le> length t\<close> have l: "n < length t" by simp
      with m have "method_char (buf ! (p + n))" "p + n < length buf" "e = None \<or> p + n < the e"
        using stands_nth [of buf p t n] by (auto simp: method_at_def list_all_length)
      with l u show ?thesis using method_char_end by (auto simp: done_method_def)
    qed
    with True ei f show ?thesis by (simp add: try_method_def)
  next
    case False
    with True ei nx show ?thesis by (simp add: try_method_def)
  qed
next
  case False
  then have "\<not> fits (drop k t) cs"
    using fits_length [of "drop k t" cs] cs m by (auto simp: at_least_def method_at_def)
  with False unknown_method_at [OF m] show ?thesis by (simp add: try_method_def)
qed

definition both_cases :: "(char \<times> char) list \<Rightarrow> bool" where
  "both_cases cs \<longleftrightarrow> list_all (\<lambda>(a, b). 97 \<le> (of_char a :: nat) \<and> of_char a \<le> (122 :: nat) \<and>
     (of_char a :: nat) = of_char b + 32) cs"

lemma fits_lower:
  "both_cases cs \<Longrightarrow> length t = length cs \<Longrightarrow> fits t cs \<longleftrightarrow> map lower_char t = map fst cs"
  by (induction t cs rule: fits.induct) (auto simp: both_cases_def lower_char_letter)

lemma lower_literals:
  "lower_char CHR ''A'' = CHR ''a''" "lower_char CHR ''B'' = CHR ''b''" "lower_char CHR ''C'' = CHR ''c''"
  "lower_char CHR ''I'' = CHR ''i''" "lower_char CHR ''M'' = CHR ''m''" "lower_char CHR ''N'' = CHR ''n''"
  "lower_char CHR ''O'' = CHR ''o''" "lower_char CHR ''P'' = CHR ''p''" "lower_char CHR ''R'' = CHR ''r''"
  "lower_char CHR ''S'' = CHR ''s''" "lower_char CHR ''U'' = CHR ''u''" "lower_char CHR ''a'' = CHR ''a''"
  "lower_char CHR ''b'' = CHR ''b''" "lower_char CHR ''c'' = CHR ''c''" "lower_char CHR ''i'' = CHR ''i''"
  "lower_char CHR ''m'' = CHR ''m''" "lower_char CHR ''n'' = CHR ''n''" "lower_char CHR ''o'' = CHR ''o''"
  "lower_char CHR ''p'' = CHR ''p''" "lower_char CHR ''r'' = CHR ''r''" "lower_char CHR ''s'' = CHR ''s''"
  "lower_char CHR ''u'' = CHR ''u''"
  by (simp_all add: lower_char_def char_of_def bit_0)

text \<open>What the table says of a name with a given first letter.\<close>

lemma method_value_letter:
  assumes "lower_char c \<noteq> CHR ''i''" "lower_char c \<noteq> CHR ''r''"
  shows "method_value (c # t) =
    (case map_of (map (\<lambda>(n, v). (tl n, v)) (filter (\<lambda>(n, v). hd n = lower_char c) method_names)) (map lower_char t) of
       None \<Rightarrow> METHOD_OTHER | Some v \<Rightarrow> v)"
proof -
  have "map_of ms (a # l) = map_of (map (\<lambda>(n, v). (tl n, v)) (filter (\<lambda>(n, v). hd n = a) ms)) l"
    if "list_all (\<lambda>(n, v). n \<noteq> []) ms" for ms :: "(string \<times> u32) list" and a l
    using that by (induction ms) (auto simp: neq_Nil_conv)
  moreover have "list_all (\<lambda>(n, v). n \<noteq> []) method_names" by (simp add: method_names_def)
  moreover have "method_key (c # t) = lower_char c # map lower_char t"
    using assms by (simp add: method_key_def split: list.split)
  ultimately show ?thesis using assms by (simp add: method_value_def)
qed

lemma method_value_i:
  assumes "lower_char c = CHR ''i''"
  shows "method_value [c] = METHOD_OTHER"
    "method_value (c # d # s) = (if map lower_char s = ''fo'' then METHOD_INFO
       else if map lower_char s = ''vite'' then METHOD_INVITE else METHOD_OTHER)"
  using assms by (simp_all add: method_value_def method_key_def method_names_def)

lemma method_value_r:
  assumes "lower_char c = CHR ''r''"
  shows "method_value [c] = METHOD_OTHER"
    "method_value (c # d # s) = (if lower_char d \<noteq> CHR ''e'' then METHOD_OTHER
       else if map lower_char s = ''fer'' then if last s = CHR ''R'' then METHOD_REFER else METHOD_OTHER
       else if map lower_char s = ''gister'' then METHOD_REGISTER else METHOD_OTHER)"
  using assms by (auto simp: method_value_def method_key_def method_names_def)

lemma try_method_letters:
  assumes m: "method_at buf p e t" and k: "drop k t = s" "k \<le> length t"
    and cs: "both_cases cs" "letters_only cs" "length cs + k = n"
    and nx: "next = Inr (Some (p + length t), w)" "fits s cs \<and> length s \<noteq> length cs \<or> \<not> at_least p e n \<longrightarrow> w = METHOD_OTHER"
  shows "try_method buf p e n k cs v next = Inr (Some (p + length t), if map lower_char s = map fst cs then v else w)"
  using try_method_at [OF m cs(2,3) k(2) nx(1), of v] fits_lower [OF cs(1), of s] k cs(3) nx(2)
  by (cases "length s = length cs") (auto dest: map_eq_imp_length_eq split: if_splits)

lemma fits_hd: "fits s ((a, b) # cs) \<Longrightarrow> both_cases [(a, b)] \<Longrightarrow> \<exists>c s'. s = c # s' \<and> lower_char c = a"
  by (cases s) (auto simp: both_cases_def lower_char_letter)

lemma try_two_methods:
  assumes m: "method_at buf p e t" and k: "drop k t = s" "k \<le> length t"
    and cs: "both_cases ((a, b) # cs)" "letters_only ((a, b) # cs)" "length ((a, b) # cs) + k = n"
    and ds: "both_cases ((a', b') # ds)" "letters_only ((a', b') # ds)" "length ((a', b') # ds) + k = n'"
    and le: "n \<le> n'" and ne: "a \<noteq> a'" and nx: "next = Inr (Some (p + length t), METHOD_OTHER)"
  shows "try_method buf p e n k ((a, b) # cs) v (try_method buf p e n' k ((a', b') # ds) v' next) =
    Inr (Some (p + length t), if map lower_char s = map fst ((a, b) # cs) then v
       else if map lower_char s = map fst ((a', b') # ds) then v' else METHOD_OTHER)"
proof (rule try_method_letters [OF m k cs])
  show "try_method buf p e n' k ((a', b') # ds) v' next = Inr (Some (p + length t),
      if map lower_char s = map fst ((a', b') # ds) then v' else METHOD_OTHER)"
    by (rule try_method_letters [OF m k ds nx]) simp
  have "map lower_char s \<noteq> map fst ((a', b') # ds)" if "fits s ((a, b) # cs)"
    using fits_hd [OF that] cs(1) ne by (auto simp: both_cases_def)
  moreover have "map lower_char s \<noteq> map fst ((a', b') # ds)" if "\<not> at_least p e n"
  proof -
    from that m have "length t < n" by (auto simp: at_least_def method_at_def)
    with k ds(3) le have "length s < length ((a', b') # ds)" by auto
    then show ?thesis by (auto dest: map_eq_imp_length_eq)
  qed
  ultimately show "fits s ((a, b) # cs) \<and> length s \<noteq> length ((a, b) # cs) \<or> \<not> at_least p e n \<longrightarrow>
      (if map lower_char s = map fst ((a', b') # ds) then v' else METHOD_OTHER) = METHOD_OTHER"
    by auto
qed

lemma other_letters:
  "lower_char c = CHR ''a'' \<longleftrightarrow> c = CHR ''a'' \<or> c = CHR ''A''"
  "lower_char c = CHR ''b'' \<longleftrightarrow> c = CHR ''b'' \<or> c = CHR ''B''"
  "lower_char c = CHR ''c'' \<longleftrightarrow> c = CHR ''c'' \<or> c = CHR ''C''"
  "lower_char c = CHR ''i'' \<longleftrightarrow> c = CHR ''i'' \<or> c = CHR ''I''"
  "lower_char c = CHR ''m'' \<longleftrightarrow> c = CHR ''m'' \<or> c = CHR ''M''"
  "lower_char c = CHR ''n'' \<longleftrightarrow> c = CHR ''n'' \<or> c = CHR ''N''"
  "lower_char c = CHR ''o'' \<longleftrightarrow> c = CHR ''o'' \<or> c = CHR ''O''"
  "lower_char c = CHR ''p'' \<longleftrightarrow> c = CHR ''p'' \<or> c = CHR ''P''"
  "lower_char c = CHR ''r'' \<longleftrightarrow> c = CHR ''r'' \<or> c = CHR ''R''"
  "lower_char c = CHR ''s'' \<longleftrightarrow> c = CHR ''s'' \<or> c = CHR ''S''"
  "lower_char c = CHR ''u'' \<longleftrightarrow> c = CHR ''u'' \<or> c = CHR ''U''"
  by (rule lower_char_letter; simp)+

lemma parse_method_at:
  assumes m: "method_at buf p e t" and t: "t = c # t'"
    and i1: "map lower_char t \<noteq> ''i'' \<or> e = Some (p + length t)"
  shows "parse_method buf p e = Inr (Some (p + length t), method_value t)"
proof -
  have u: "unknown_method buf p e = Inr (Some (p + length t), METHOD_OTHER)" by (rule unknown_method_at [OF m])
  have b: "byte_at buf p = Inr c" using m t by (simp add: method_at_def stands_Cons)
  have d: "drop (Suc 0) t = t'" "Suc 0 \<le> length t" using t by simp_all
  note T1 = try_method_letters [OF m d, where w = METHOD_OTHER]
  note T2 = try_two_methods [OF m d]
  note simps = parse_method_def b u Let_def both_cases_def letters_only_def method_char_def lower_literals
  show ?thesis
  proof (cases "c \<in> set ''AaBbCcMmNnOoSsUu''")
    case True
    then show ?thesis
      by (simp only: list.set insert_iff empty_iff, elim disjE)
        (simp_all add: T1 T2 simps method_value_letter t method_names_def)
  next
    case other: False
    consider "c = CHR ''P'' \<or> c = CHR ''p''" | "c = CHR ''I'' \<or> c = CHR ''i''" | "c = CHR ''R'' \<or> c = CHR ''r''"
      | "c \<notin> set ''AaBbCcIiMmNnOoPpRrSsUu''" using other by auto
    then show ?thesis
    proof cases
      case 1
      then show ?thesis
        by (elim disjE) (simp_all add: T2 simps method_value_letter t method_names_def)
    next
      case 2
      then have i: "lower_char c = CHR ''i''" by (auto simp: lower_literals)
      note v = method_value_i [OF i]
      show ?thesis
      proof (cases t')
        case Nil
        with i t i1 have "\<not> at_least p e 4" by (simp add: at_least_def)
        with 2 v(1) show ?thesis by (elim disjE) (simp_all add: simps t Nil)
      next
        case (Cons d s)
        have d2: "drop 2 t = s" "2 \<le> length t" using t Cons by simp_all
        note two = try_two_methods [OF m d2]
        have d: "byte_at buf (p + 1) = Inr d" using m t Cons by (simp add: method_at_def stands_Cons)
        have "method_value t = METHOD_OTHER" if "\<not> at_least p e 4"
        proof -
          from that m have "length s < 2" using d2 by (auto simp: at_least_def method_at_def)
          then show ?thesis using v(2) t Cons by (auto dest: map_eq_imp_length_eq)
        qed
        with 2 d v(2) show ?thesis
          by (elim disjE) (auto simp: simps two t Cons)
      qed
    next
      case 3
      then have r: "lower_char c = CHR ''r''" by (auto simp: lower_literals)
      note v = method_value_r [OF r]
      show ?thesis
      proof (cases t')
        case Nil
        show ?thesis
        proof (cases "at_least p e 5")
          case True
          with m t Nil have "p + 1 < length buf" "method_end (buf ! (p + 1))" by (auto simp: method_at_def at_least_def)
          with 3 v(1) show ?thesis
            by (elim disjE) (auto simp: simps t Nil method_end_def)
        next
          case False
          with 3 v(1) show ?thesis by (elim disjE) (simp_all add: simps t Nil)
        qed
      next
        case (Cons d s)
        have d2: "drop 2 t = s" "2 \<le> length t" using t Cons by simp_all
        have d: "byte_at buf (p + 1) = Inr d" using m t Cons by (simp add: method_at_def stands_Cons)
        have short: "method_value t = METHOD_OTHER" if "\<not> at_least p e 5"
        proof -
          from that m have "length s < 3" using d2 by (auto simp: at_least_def method_at_def)
          then show ?thesis using v(2) t Cons by (auto dest: map_eq_imp_length_eq)
        qed
        let ?cs = "[(CHR ''f'', CHR ''F''), (CHR ''e'', CHR ''E''), (CHR ''R'', CHR ''R'')]"
        let ?nx = "try_method buf p e 8 2 [(CHR ''g'', CHR ''G''), (CHR ''i'', CHR ''I''), (CHR ''s'', CHR ''S''),
            (CHR ''t'', CHR ''T''), (CHR ''e'', CHR ''E''), (CHR ''r'', CHR ''R'')] METHOD_REGISTER
            (Inr (Some (p + length t), METHOD_OTHER))"
        have n: "?nx = Inr (Some (p + length t), if map lower_char s = ''gister'' then METHOD_REGISTER else METHOD_OTHER)"
          by (simp add: try_method_letters [OF m d2, where w = METHOD_OTHER] simps)
        have lc: "lower_char z = CHR ''f'' \<longleftrightarrow> z = CHR ''f'' \<or> z = CHR ''F''"
          "lower_char z = CHR ''e'' \<longleftrightarrow> z = CHR ''e'' \<or> z = CHR ''E''" for z
          using lower_char_letter [of "CHR ''f''" "CHR ''F''" z] lower_char_letter [of "CHR ''e''" "CHR ''E''" z] by simp_all
        have f: "fits s ?cs \<and> length s = 3 \<longleftrightarrow> map lower_char s = ''fer'' \<and> last s = CHR ''R''"
          by (cases s rule: remdups_adj.cases; cases "tl (tl s)") (auto simp: lc lower_literals)
        have g: "fits s ?cs \<Longrightarrow> map lower_char s \<noteq> ''gister''"
          using lc(1) [of "hd s"] by (cases s) auto
        have "letters_only ?cs" by (simp add: letters_only_def method_char_def)
        from try_method_at [OF m this _ d2(2) n, of 5 METHOD_REFER] d2(1) f g
        have x: "at_least p e 5 \<Longrightarrow> try_method buf p e 5 2 ?cs METHOD_REFER ?nx = Inr (Some (p + length t),
            if map lower_char s = ''fer'' then if last s = CHR ''R'' then METHOD_REFER else METHOD_OTHER
            else if map lower_char s = ''gister'' then METHOD_REGISTER else METHOD_OTHER)"
          using t Cons by (auto split: if_splits)
        have "d \<noteq> CHR ''e'' \<and> d \<noteq> CHR ''E'' \<longleftrightarrow> lower_char d \<noteq> CHR ''e''"
          using lc(2) [of d] by simp
        with 3 d v(2) short x show ?thesis
          by (elim disjE) (simp_all add: simps t Cons)
      qed
    next
      case 4
      have n: "lower_char c \<notin> set ''abcimnoprsu''"
        using 4 unfolding list.set insert_iff empty_iff other_letters de_Morgan_disj by (elim conjE) (intro conjI notI; assumption | simp)
      have "filter (\<lambda>(n, v). hd n = lower_char c) method_names = []"
        using n unfolding list.set insert_iff empty_iff de_Morgan_disj by (elim conjE) (simp add: method_names_def neq_commute)
      then have "method_value t = METHOD_OTHER"
        using n unfolding t by (subst method_value_letter) simp_all
      with 4 show ?thesis by (simp add: simps)
    qed
  qed
qed

text \<open>
  C21: at a method that ends at a separator or where the text ends, \<open>parse_method\<close> returns where the
  method ends and its value in the table \<open>method_value\<close>: the fourteen methods the core knows, in
  any mix of cases, and \<open>METHOD_OTHER\<close> for every other name. The table has the two quirks of the
  code: the second letter of \<open>INFO\<close> and \<open>INVITE\<close> is not compared, and the last one of \<open>REFER\<close> has to
  be upper case. Only the one letter \<open>I\<close> inside of a longer text is left out, where the code
  compares letters beyond the separator.
\<close>

theorem parse_method_table:
  assumes "method_at buf p e t" "t \<noteq> []" "map lower_char t \<noteq> ''i'' \<or> e = Some (p + length t)"
  shows "parse_method buf p e = Inr (Some (p + length t), method_value t)"
  using assms parse_method_at by (cases t) blast+

theorem parse_method_table_witness:
  "parse_method ''SubScribe,x'' 0 None = Inr (Some 9, METHOD_SUBSCRIBE) \<and>
   parse_method ''Refer'' 0 (Some 5) = Inr (Some 5, METHOD_OTHER) \<and>
   parse_method ''IQFO '' 0 None = Inr (Some 4, METHOD_INFO)"
proof (intro conjI)
  have "method_value ''SubScribe'' = METHOD_SUBSCRIBE" "method_value ''Refer'' = METHOD_OTHER" "method_value ''IQFO'' = METHOD_INFO"
    by (simp_all add: method_value_def method_key_def method_names_def lower_char_def char_of_def bit_0)
  note v = this
  show "parse_method ''SubScribe,x'' 0 None = Inr (Some 9, METHOD_SUBSCRIBE)"
    using parse_method_table [of "''SubScribe,x''" 0 None "''SubScribe''"] v
    by (simp add: method_at_def stands_def method_char_def method_end_def lower_char_def)
  show "parse_method ''Refer'' 0 (Some 5) = Inr (Some 5, METHOD_OTHER)"
    using parse_method_table [of "''Refer''" 0 "Some 5" "''Refer''"] v
    by (simp add: method_at_def stands_def method_char_def method_end_def)
  show "parse_method ''IQFO '' 0 None = Inr (Some 4, METHOD_INFO)"
    using parse_method_table [of "''IQFO ''" 0 None "''IQFO''"] v
    by (simp add: method_at_def stands_def method_char_def method_end_def)
qed

text \<open>Outside of the table: one letter \<open>I\<close>, where the code goes on behind the comma.\<close>

lemma parse_method_across: "parse_method ''I,fo'' 0 (Some 4) = Inr (Some 4, METHOD_INFO)"
  by (simp add: parse_method_def at_least_def try_method_def done_method_def Let_def)

section \<open>Lists of methods\<close>

text \<open>A list: names, each with white space behind it, and the white space behind its comma.\<close>

fun methods_text :: "(string \<times> string \<times> string) list \<Rightarrow> string" where
  "methods_text [] = []"
| "methods_text [(t, w, v)] = t @ w"
| "methods_text ((t, w, v) # m # ms) = t @ w @ '','' @ v @ methods_text (m # ms)"

definition method_item :: "string \<times> string \<times> string \<Rightarrow> bool" where
  "method_item = (\<lambda>(t, w, v). t \<noteq> [] \<and> list_all method_char t \<and> map lower_char t \<noteq> ''i'' \<and>
     list_all trim_char w \<and> list_all trim_char v)"

lemma run_while_to:
  assumes "stands buf p s" "list_all P s" "w = p + length s \<or> p + length s < w \<and> p + length s < length buf \<and> \<not> P (buf ! (p + length s))"
  shows "run_while P buf p w = Inr (p + length s)"
proof (cases "w = p + length s")
  case True
  have t: "takeWhile P (take (length s) (drop p buf)) = s"
    using assms(1,2) by (simp add: stands_def list_all_iff takeWhile_eq_all_conv)
  then show ?thesis using True by (simp add: run_while_def Let_def t del: takeWhile_eq_all_conv)
next
  case False
  with assms show ?thesis by (intro run_while_stop) auto
qed

lemma trim_char_end: "trim_char c \<Longrightarrow> method_end c"
  by (auto simp: trim_char_def method_end_def)

lemma method_not_trim: "method_char c \<Longrightarrow> \<not> trim_char c"
  by (auto simp: trim_char_def method_char_def Let_def)

lemma method_at_item:
  assumes "stands buf p t" "stands buf (p + length t) s" "list_all method_char t"
    "s = [] \<and> e = p + length t \<or> s \<noteq> [] \<and> method_end (hd s) \<and> p + length t < e"
  shows "method_at buf p (Some e) t"
  using assms by (cases s) (auto simp: method_at_def stands_Cons)

lemma methods_loop_list:
  "list_all method_item ms \<Longrightarrow> ms \<noteq> [] \<Longrightarrow> stands buf p (methods_text ms) \<Longrightarrow> e = p + length (methods_text ms) \<Longrightarrow>
   methods_loop buf p e acc = Inr (0, fold (\<lambda>(t, w, v) a. a OR method_value t) ms acc)"
proof (induction ms arbitrary: p acc rule: methods_text.induct)
  case (2 t w v)
  let ?p = "p + length t"
  have t: "t \<noteq> []" "list_all method_char t" "map lower_char t \<noteq> ''i''" "list_all trim_char w"
    using 2 by (simp_all add: method_item_def)
  have s: "stands buf p t" "stands buf ?p w" "e = ?p + length w" using 2 by (simp_all add: stands_append)
  have "method_at buf p (Some e) t"
    using s t by (intro method_at_item [OF s(1,2) t(2)]) (cases w; auto intro: trim_char_end)
  then have m: "parse_method buf p (Some e) = Inr (Some ?p, method_value t)"
    using t parse_method_at by (cases t) blast+
  have w: "run_while trim_char buf ?p e = Inr e"
    using run_while_to [OF s(2) t(4), of e] s(3) by simp
  show ?case using t(1) s(3) m w by (subst methods_loop.simps) simp
next
  case (3 t w v m ms)
  let ?p = "p + length t" let ?c = "?p + length w" let ?r = "?c + 1 + length v"
  let ?l = "methods_text (m # ms)"
  have comma: "method_end CHR '',''" by (simp add: method_end_def)
  have t: "t \<noteq> []" "list_all method_char t" "map lower_char t \<noteq> ''i''" "list_all trim_char w" "list_all trim_char v"
    using 3 by (simp_all add: method_item_def)
  have s: "stands buf p t" "stands buf ?p (w @ '','')" "stands buf ?p w" "?c < length buf" "buf ! ?c = CHR '',''"
      "stands buf (?c + 1) v" "stands buf ?r ?l" "e = ?r + length ?l"
    using 3 by (simp_all add: stands_append stands_Cons ac_simps)
  have "method_at buf p (Some e) t"
    using s(8) t by (intro method_at_item [OF s(1,2) t(2)]) (cases w; simp add: comma trim_char_end)
  then have m: "parse_method buf p (Some e) = Inr (Some ?p, method_value t)"
    using t parse_method_at by (cases t) blast+
  have w: "run_while trim_char buf ?p e = Inr ?c"
    using run_while_to [OF s(3) t(4), of e] s(4,5,8) by (simp add: trim_char_def)
  have "?l \<noteq> [] \<and> method_char (hd ?l)"
    using 3(2) by (cases m; cases ms) (auto simp: method_item_def neq_Nil_conv)
  then have "\<not> trim_char (buf ! ?r) \<and> ?r < e \<and> ?r < length buf"
    using s(7,8) by (cases ?l) (auto simp: stands_Cons dest: method_not_trim)
  then have v: "run_while trim_char buf (?c + 1) e = Inr ?r"
    using run_while_to [OF s(6) t(5), of e] by simp
  have ih: "methods_loop buf ?r e a = Inr (0, fold (\<lambda>(t, w, v) a. a OR method_value t) (m # ms) a)" for a
    using 3(2) s(7,8) by (intro 3(1)) simp_all
  show ?case
    using t(1) s(4,5,8) m w v ih [of "acc OR method_value t"] by (subst methods_loop.simps) simp
qed simp

text \<open>
  C27: a list of methods, each with any white space behind it and behind its comma, and white space
  in front of the list, gives the union of the values of the methods.
\<close>

theorem parse_methods_list:
  assumes "list_all method_item ms" "ms \<noteq> []" "list_all trim_char ws" "stands buf b (ws @ methods_text ms)"
  shows "parse_methods buf b (b + length ws + length (methods_text ms)) =
    Inr (0, fold (\<lambda>(t, w, v) a. a OR method_value t) ms 0)"
proof -
  let ?p = "b + length ws" and ?l = "methods_text ms"
  let ?e = "?p + length ?l"
  have s: "stands buf b ws" "stands buf ?p ?l" using assms(4) by (simp_all add: stands_append)
  have "?l \<noteq> [] \<and> method_char (hd ?l)"
    using assms(1,2) by (cases ms rule: methods_text.cases) (auto simp: method_item_def neq_Nil_conv)
  then have "?p < ?e \<and> ?p < length buf \<and> \<not> trim_char (buf ! ?p)"
    using s(2) by (cases ?l) (auto simp: stands_Cons dest: method_not_trim)
  moreover from this have "trim_leading buf b ?e = Inr ?p"
    unfolding trim_leading_def by (intro run_while_to [OF s(1) assms(3)]) simp
  ultimately show ?thesis
    using methods_loop_list [OF assms(1,2) s(2) refl, of 0] by (simp add: parse_methods_def)
qed

theorem parse_methods_list_witness:
  "parse_methods '' ACK , Foo,register'' 0 19 = Inr (0, METHOD_ACK OR METHOD_OTHER OR METHOD_REGISTER)"
proof -
  have v: "method_value ''ACK'' = METHOD_ACK" "method_value ''Foo'' = METHOD_OTHER" "method_value ''register'' = METHOD_REGISTER"
    by (simp_all add: method_value_def method_key_def method_names_def lower_char_def char_of_def bit_0)
  let ?ms = "[(''ACK'', '' '', '' ''), (''Foo'', [], []), (''register'', [], [])]"
  have n: "19 = 0 + length '' '' + length (methods_text ?ms)" by simp
  show ?thesis
    unfolding n using parse_methods_list [of ?ms "'' ''" "'' ACK , Foo,register''" 0] v
    by (simp add: method_item_def stands_def method_char_def trim_char_def lower_char_def METHOD_ACK_def METHOD_OTHER_def METHOD_REGISTER_def)
qed

section \<open>The first token\<close>

lemma ends_in_space: "stands buf p (x @ '' '') \<longleftrightarrow> stands buf p x \<and> p + length x < length buf \<and> buf ! (p + length x) = CHR '' ''"
  by (auto simp: stands_append stands_Cons)

lemma same_text_at_token:
  "stands buf p (x @ '' '') \<Longrightarrow> CHR '' '' \<notin> lower_char ` set s \<Longrightarrow>
   same_text_at buf p s = Inr (length s \<le> length x \<and> map lower_char (take (length s) x) = map lower_char s)"
proof (induction s arbitrary: p x)
  case (Cons c s)
  show ?case
  proof (cases x)
    case Nil
    with Cons show ?thesis by (auto simp: stands_Cons lower_char_def)
  next
    case x: (Cons d y)
    with Cons.prems have "p < length buf" "buf ! p = d" "stands buf (p + 1) (y @ '' '')" by (auto simp: stands_Cons)
    with Cons x show ?thesis by auto
  qed
qed simp

definition upper_literal :: "string \<Rightarrow> bool" where
  "upper_literal s \<longleftrightarrow> s \<noteq> [] \<and> CHR '' '' \<notin> lower_char ` set s \<and>
     (\<exists>a. both_cases [(a, hd s)] \<and> LOWER_BYTE (hd s) = a \<and> lower_char (hd s) = a)"

lemma literal_at_token:
  assumes st: "stands buf p (x @ '' '')" and x: "x \<noteq> []" "CHR '' '' \<notin> set x" and s: "upper_literal s"
  shows "literal_at buf p s = Inr (map lower_char x = map lower_char s)"
proof -
  obtain c y where xy: "x = c # y" using x by (cases x) auto
  obtain d u where su: "s = d # u" using s by (cases s) (auto simp: upper_literal_def)
  have c: "byte_at buf p = Inr c" using st by (simp add: xy stands_Cons)
  have hd: "c = d \<or> c = LOWER_BYTE d \<longleftrightarrow> lower_char c = lower_char d"
    using s su by (auto simp: upper_literal_def both_cases_def lower_char_letter)
  have y: "stands buf (p + 1) (y @ '' '')" using st by (simp add: xy stands_Cons)
  have "same_text_at buf (p + 1) u = Inr (length u \<le> length y \<and> map lower_char (take (length u) y) = map lower_char u)"
    using s su by (intro same_text_at_token [OF y]) (auto simp: upper_literal_def)
  note same = this
  have last: "byte_at buf (p + length s) = Inr ((y @ '' '') ! length u)" if "length u \<le> length y"
    using stands_nth [OF y, of "length u"] that by (simp add: su)
  have "(y @ '' '') ! length u = CHR '' '' \<longleftrightarrow> length u = length y" if "length u \<le> length y"
  proof (cases "length u = length y")
    case False
    with that have "length u < length y" by simp
    moreover from this have "y ! length u \<noteq> CHR '' ''"
      using x(2) nth_mem [of "length u" y] unfolding xy by force
    ultimately show ?thesis by (simp add: nth_append)
  qed (simp add: nth_append)
  with last have "literal_at buf p s = Inr (lower_char c = lower_char d \<and> length u = length y \<and> map lower_char (take (length u) y) = map lower_char u)"
    unfolding literal_at_def using c hd same by (auto simp: su)
  moreover have "map lower_char y = map lower_char u \<Longrightarrow> length u = length y" by (metis length_map)
  ultimately show ?thesis by (auto simp: xy su)
qed

lemma IFISMETHOD_token:
  assumes "stands buf p (x @ '' '')" "x \<noteq> []" "CHR '' '' \<notin> set x"
  shows "list_all (upper_literal \<circ> fst) ms \<Longrightarrow>
    IFISMETHOD buf p ms = Inr (find (\<lambda>(s, v). map lower_char x = map lower_char s) ms)"
proof (induction ms)
  case (Cons m ms)
  then show ?case using literal_at_token [OF assms] by (cases m) auto
qed simp

lemma upper_literals: "upper_literal SIP_VERSION" "list_all (upper_literal \<circ> fst) tested_methods"
  by (simp_all add: upper_literal_def SIP_VERSION_def tested_methods_def both_cases_def LOWER_BYTE_def
    lower_char_def char_of_def bit_0)

definition token_char :: "char \<Rightarrow> bool" where
  "token_char c \<longleftrightarrow> c \<noteq> CHR '' '' \<and> c \<noteq> CHR 0x09 \<and> c \<noteq> CHR 0x0A \<and> c \<noteq> CHR 0x0D"

lemma method_token: "method_char c \<Longrightarrow> token_char c"
  by (auto simp: method_char_def token_char_def Let_def)

lemma eat_token_end_to:
  assumes "stands buf p s" "list_all token_char s" "p + length s < w" "p + length s < length buf" "\<not> token_char (buf ! (p + length s))"
  shows "eat_token_end buf p w = Inr (p + length s)"
proof -
  have "(\<lambda>c. c \<noteq> CHR '' '' \<and> c \<noteq> CHR 0x09 \<and> c \<noteq> CHR 0x0A \<and> c \<noteq> CHR 0x0D) = token_char"
    by (simp add: token_char_def fun_eq_iff)
  with run_while_stop [OF assms(1-5)] show ?thesis by (simp add: eat_token_end_def)
qed

lemma eat_space_end_to:
  assumes "stands buf p s" "list_all SP s" "p + length s < w" "p + length s < length buf" "\<not> SP (buf ! (p + length s))"
  shows "eat_space_end buf p w = Inr (p + length s)"
proof -
  have "(\<lambda>c. c = CHR '' '' \<or> c = CHR 0x09) = SP" by (auto simp: SP_def fun_eq_iff)
  with run_while_stop [OF assms(1-5)] show ?thesis by (simp add: eat_space_end_def)
qed

lemma lower_version: "map lower_char SIP_VERSION = ''sip/2.0''"
  by (simp add: SIP_VERSION_def lower_char_def char_of_def bit_0)

lemma method_value_tested:
  "find (\<lambda>(s, v). map lower_char m = map lower_char s) tested_methods = Some (s, v) \<Longrightarrow>
   length s = length m \<and> v = method_value m"
  by (auto simp: tested_methods_def method_value_def method_key_def method_names_def lower_literals lower_char_def
      char_of_def bit_0 dest: map_eq_imp_length_eq split: if_splits)

lemma first_token_request:
  assumes st: "stands buf b (m @ '' '')" and m: "m \<noteq> []" "list_all method_char m" and e: "b + length m < e"
  shows "first_token buf b e fl go = go (b + length m) (fl\<lparr>fl_type := SIP_REQUEST,
    fl_method_version := set_len (int (length m)) (fl_method_version fl), fl_method_value_statuscode := method_value m\<rparr>)"
proof -
  have t: "list_all token_char m" "CHR '' '' \<notin> set m"
    using m(2) method_token by (auto simp: list_all_iff) (auto simp: token_char_def)
  have s: "stands buf b m" "b + length m < length buf" "buf ! (b + length m) = CHR '' ''"
    using st by (simp_all add: ends_in_space)
  have "\<not> map lower_char m = map lower_char SIP_VERSION"
  proof
    assume h: "map lower_char m = map lower_char SIP_VERSION"
    then have "CHR ''/'' \<in> lower_char ` set m"
      by (simp add: lower_version flip: set_map)
    then obtain x where "x \<in> set m" "lower_char x = CHR ''/''" by fastforce
    then have "CHR ''/'' \<in> set m" by (simp add: lower_char_other)
    with m(2) have "method_char CHR ''/''" by (simp add: list_all_iff)
    then show False by (simp add: method_char_def)
  qed
  then have r: "literal_at buf b SIP_VERSION = Inr False"
    using literal_at_token [OF st m(1) t(2) upper_literals(1)] by simp
  note k = IFISMETHOD_token [OF st m(1) t(2) upper_literals(2)]
  show ?thesis
  proof (cases "find (\<lambda>(s, v). map lower_char m = map lower_char s) tested_methods")
    case (Some p)
    with k r method_value_tested show ?thesis by (cases p) (auto simp: first_token_def)
  next
    case None
    have t': "eat_token_end buf b e = Inr (b + length m)"
      using s e by (intro eat_token_end_to [OF _ t(1)]) (simp_all add: token_char_def)
    have "method_at buf b (Some (b + length m)) m" using s(1) m(2) by (simp add: method_at_def)
    then have "parse_method buf b (Some (b + length m)) = Inr (Some (b + length m), method_value m)"
      using m(1) parse_method_at by (cases m) blast+
    with None k r t' s e m(1) show ?thesis by (cases fl) (simp add: first_token_def Let_def)
  qed
qed

lemma first_token_reply:
  assumes "stands buf b (v @ '' '')" "map lower_char v = ''sip/2.0''"
  shows "first_token buf b e fl go = go (b + length v) (fl\<lparr>fl_type := SIP_REPLY,
    fl_method_version := set_len (int (length v)) (fl_method_version fl)\<rparr>)"
proof -
  have "length v = 7" using assms(2) by (auto dest: map_eq_imp_length_eq)
  moreover have "v \<noteq> []" "CHR '' '' \<notin> set v"
    using assms(2) imageI [of "CHR '' ''" "set v" lower_char] by (auto simp: lower_char_def simp flip: set_map)
  moreover have "map lower_char v = map lower_char SIP_VERSION"
    using assms(2) lower_version by simp
  ultimately show ?thesis
    using literal_at_token [OF assms(1) _ _ upper_literals(1)] by (simp add: first_token_def SIP_VERSION_LEN_def)
qed

section \<open>Requests and replies\<close>

definition line_end :: "string \<Rightarrow> bool" where
  "line_end nl \<longleftrightarrow> nl = [CHR 0x0D, CHR 0x0A] \<or> nl = [CHR 0x0A]"

lemma line_ends_at:
  assumes "stands buf n nl" "line_end nl" "n + length nl \<le> e"
  shows "line_ends buf b e third tmp n fl = Inr (Some (n + length nl),
    fl\<lparr>fl_version_reason := Str (Buf third) (int tmp - int third), fl_len := int (n + length nl) - int b\<rparr>)"
  using assms by (auto simp: line_end_def line_ends_def stands_Cons Let_def)

lemma parse_first_line_tokens:
  assumes "16 < len" "\<And>go. first_token buf b (b + len) fl go = go t fl0"
    "eat_token_end buf (t + 1) (b + len) = Inr q" "eat_space_end buf q (b + len) = Inr r" "q < r" "r < b + len"
  shows "parse_first_line buf b len fl =
    (let fl2 = fl0\<lparr>fl_method_version := Str (Buf b) (str_len (fl_method_version fl0)),
                  fl_uri_status := Str (Buf (t + 1)) (int q - int (t + 1))\<rparr>
     in if fl_type fl2 = SIP_REPLY then reply_rest buf b (b + len) (t + 1) q r fl2 else request_rest buf b (b + len) r fl2)"
  unfolding parse_first_line_def assms(2) Let_def ebind_Inr assms(3,4) using assms(1,5,6) by simp

lemma request_rest_at:
  "eat_token_end buf third e = Inr x \<Longrightarrow> eat_space_end buf x e = Inr n \<Longrightarrow> third < x \<Longrightarrow> x \<le> n \<Longrightarrow> n < e \<Longrightarrow>
   request_rest buf b e third fl = line_ends buf b e third x n fl"
  by (simp add: request_rest_def)

text \<open>
  C15: a request line - a method, one space, a URI, blanks, a version, more blanks, the line end - is
  parsed to its parts: every string of the result is the place of that part, the method value is
  the one of the table, and the parser returns the place behind the line.
\<close>

theorem parse_first_line_request:
  assumes line: "stands buf b (m @ '' '' @ u @ s1 @ v @ s2 @ nl)"
    and m: "m \<noteq> []" "list_all method_char m" and u: "list_all token_char u"
    and s1: "s1 \<noteq> []" "list_all SP s1" and v: "v \<noteq> []" "list_all token_char v" and s2: "list_all SP s2"
    and nl: "line_end nl" and len: "length (m @ '' '' @ u @ s1 @ v @ s2 @ nl) \<le> len" "16 < len"
  shows "parse_first_line buf b len fl = Inr (Some (b + length (m @ '' '' @ u @ s1 @ v @ s2 @ nl)), fl\<lparr>
    fl_type := SIP_REQUEST, fl_method_version := Str (Buf b) (int (length m)),
    fl_method_value_statuscode := method_value m,
    fl_uri_status := Str (Buf (b + length m + 1)) (int (length u)),
    fl_version_reason := Str (Buf (b + length (m @ '' '' @ u @ s1))) (int (length v)),
    fl_len := int (length (m @ '' '' @ u @ s1 @ v @ s2 @ nl))\<rparr>)"
proof -
  let ?q = "b + length m + 1" let ?r = "?q + length u" let ?t = "?r + length s1"
  let ?x = "?t + length v" let ?n = "?x + length s2"
  obtain a s1' x v' y nl' where c: "s1 = a # s1'" "SP a" "v = x # v'" "token_char x" "nl = y # nl'" "y \<in> {CHR 0x0A, CHR 0x0D}"
    using s1 v nl by (cases s1; cases v) (auto simp: line_end_def)
  have tk: "token_char z \<Longrightarrow> \<not> SP z" for z by (auto simp: token_char_def SP_def)
  have st: "stands buf b (m @ '' '')" "stands buf ?q u" "stands buf ?r s1" "stands buf ?t v" "stands buf ?x s2" "stands buf ?n nl"
    using line by (simp_all add: stands_append stands_Cons ac_simps)
  have at: "?r < length buf" "buf ! ?r = a" "?t < length buf" "buf ! ?t = x" "?n < length buf" "buf ! ?n = y"
    using st c by (simp_all add: stands_Cons)
  have ends: "b + length m < b + len" "?q \<le> b + len" "?r < b + len" "?t < b + len" "?x < b + len" "?n + length nl \<le> b + len" "?n < b + len"
    using len(1) c by simp_all
  have tu: "eat_token_end buf ?q (b + len) = Inr ?r"
    by (rule eat_token_end_to [OF st(2) u ends(3)]) (use at c tk in auto)
  have ts: "eat_space_end buf ?r (b + len) = Inr ?t"
    by (rule eat_space_end_to [OF st(3) s1(2) ends(4)]) (use at c tk in auto)
  have x: "?x < length buf \<and> \<not> token_char (buf ! ?x)"
    using st(5) at(5,6) s2 c tk by (cases s2) (auto simp: stands_Cons token_char_def SP_def)
  have tv: "eat_token_end buf ?t (b + len) = Inr ?x"
    by (rule eat_token_end_to [OF st(4) v(2) ends(5)]) (use x in auto)
  have tn: "eat_space_end buf ?x (b + len) = Inr ?n"
    by (rule eat_space_end_to [OF st(5) s2 ends(7)]) (use at c in \<open>auto simp: SP_def\<close>)
  note first = first_token_request [OF st(1) m ends(1)]
  have lt: "?r < ?t" "?t < ?x" "?x \<le> ?n" using c by simp_all
  have sum: "?n + length nl = b + length (m @ '' '' @ u @ s1 @ v @ s2 @ nl)" "?t = b + length (m @ '' '' @ u @ s1)" by simp_all
  show ?thesis
    unfolding parse_first_line_tokens [OF len(2) first tu ts lt(1) ends(4)] request_rest_at [OF tv tn lt(2,3) ends(7)]
      line_ends_at [OF st(6) nl ends(6)] Let_def
    by (simp add: set_len_def sum(2) ac_simps)
qed

theorem parse_first_line_request_witness:
  "parse_first_line ''REGISTER sip:a SIP/2.0\<newline>'' 0 23 (msg_start.make SIP_INVALID 0 null_str null_str null_str 0) =
   Inr (Some 23, msg_start.make SIP_REQUEST 23 (Str (Buf 0) 8) (Str (Buf 9) 5) (Str (Buf 15) 7) METHOD_REGISTER)"
proof -
  have v: "method_value ''REGISTER'' = METHOD_REGISTER"
    by (simp add: method_value_def method_key_def method_names_def lower_char_def char_of_def bit_0)
  show ?thesis
    using parse_first_line_request [of "''REGISTER sip:a SIP/2.0\<newline>''" 0 "''REGISTER''" "''sip:a''" "'' ''" "''SIP/2.0''" "[]"
        "[CHR 0x0A]" 23 "msg_start.make SIP_INVALID 0 null_str null_str null_str 0"] v
    by (simp add: msg_start.defs stands_def method_char_def token_char_def SP_def line_end_def)
qed

text \<open>
  C19: a status line - the version in any case, one space, three digits, blanks, a reason phrase
  with anything but a line end in it, the line end - is parsed to its parts, and the status code is
  the number the digits stand for.
\<close>

theorem parse_first_line_reply:
  assumes line: "stands buf b (w @ '' '' @ [d1, d2, d3] @ s1 @ r @ nl)"
    and w: "map lower_char w = ''sip/2.0''" and d: "is_digit d1" "is_digit d2" "is_digit d3"
    and s1: "s1 \<noteq> []" "list_all SP s1"
    and r: "list_all (\<lambda>c. c \<noteq> CHR 0x0A \<and> c \<noteq> CHR 0x0D) r" "r \<noteq> [] \<longrightarrow> \<not> SP (hd r)"
    and nl: "line_end nl" and len: "length (w @ '' '' @ [d1, d2, d3] @ s1 @ r @ nl) \<le> len" "16 < len"
  shows "parse_first_line buf b len fl = Inr (Some (b + length (w @ '' '' @ [d1, d2, d3] @ s1 @ r @ nl)), fl\<lparr>
    fl_type := SIP_REPLY, fl_method_version := Str (Buf b) 7,
    fl_uri_status := Str (Buf (b + 8)) 3,
    fl_method_value_statuscode := of_nat (100 * (of_char d1 - 48) + 10 * (of_char d2 - 48) + (of_char d3 - 48)),
    fl_version_reason := Str (Buf (b + 11 + length s1)) (int (length r)),
    fl_len := int (length (w @ '' '' @ [d1, d2, d3] @ s1 @ r @ nl))\<rparr>)"
proof -
  let ?q = "b + length w + 1" let ?r = "?q + 3" let ?t = "?r + length s1" let ?n = "?t + length r"
  have w7: "length w = 7" using w by (auto dest: map_eq_imp_length_eq)
  obtain a s1' y nl' where c: "s1 = a # s1'" "SP a" "nl = y # nl'" "y \<in> {CHR 0x0A, CHR 0x0D}"
    using s1 nl by (cases s1) (auto simp: line_end_def)
  have st: "stands buf b (w @ '' '')" "stands buf ?q [d1, d2, d3]" "stands buf ?r s1" "stands buf ?t r" "stands buf ?n nl"
    using line by (simp_all add: stands_append stands_Cons eval_nat_numeral ac_simps)
  have at: "?r < length buf" "buf ! ?r = a" "?n < length buf" "buf ! ?n = y"
    "?q + 2 < length buf" "buf ! ?q = d1" "buf ! (?q + 1) = d2" "buf ! (?q + 2) = d3"
    using st c by (simp_all add: stands_Cons)
  have ends: "b + length w < b + len" "?r < b + len" "?t < b + len" "?n < b + len" "?n + length nl \<le> b + len" "?q + 3 \<le> b + len"
    using len(1) c by simp_all
  have tk: "is_digit z \<Longrightarrow> token_char z" for z by (auto simp: is_digit_def token_char_def)
  have l3: "length [d1, d2, d3] = 3" by simp
  have tu: "eat_token_end buf ?q (b + len) = Inr ?r"
    by (rule eat_token_end_to [OF st(2), unfolded l3]) (use d tk at c ends in \<open>auto simp: token_char_def SP_def\<close>)
  have t: "?t < length buf \<and> \<not> SP (buf ! ?t)"
    using st(4) at(3,4) r(2) c by (cases r) (auto simp: stands_Cons SP_def)
  have ts: "eat_space_end buf ?r (b + len) = Inr ?t"
    by (rule eat_space_end_to [OF st(3) s1(2) ends(3)]) (use t in auto)
  have tr: "eat_token2_end buf ?t (b + len) CHR 0x0D = Inr ?n"
    unfolding eat_token2_end_def
    by (rule run_while_stop [OF st(4) _ ends(4)]) (use r(1) at c in \<open>auto simp: list_all_iff\<close>)
  have lt: "?r < ?t" using c by simp
  have code: "status_code d1 d2 d3 = of_nat (100 * (of_char d1 - 48) + 10 * (of_char d2 - 48) + (of_char d3 - 48))"
    using d by (simp add: status_code_def is_digit_def of_nat_diff algebra_simps of_nat_of_char)
  have n: "\<not> b + len \<le> ?n" using ends by simp
  have sum: "?n + length nl = b + length (w @ '' '' @ [d1, d2, d3] @ s1 @ r @ nl)" "?t = b + 11 + length s1" using w7 by simp_all
  show ?thesis
    unfolding parse_first_line_tokens [OF len(2) first_token_reply [OF st(1) w] tu ts lt ends(3)] Let_def reply_rest_def tr
      ebind_Inr if_not_P [OF n] line_ends_at [OF st(5) nl ends(5)] code [symmetric]
    using at d w7 by (simp add: set_len_def sum ac_simps)
qed

theorem parse_first_line_reply_witness:
  "parse_first_line ''sip/2.0 486 Busy Here\<newline>'' 0 22 (msg_start.make SIP_INVALID 0 null_str null_str null_str 0) =
   Inr (Some 22, msg_start.make SIP_REPLY 22 (Str (Buf 0) 7) (Str (Buf 8) 3) (Str (Buf 12) 9) 486)"
  using parse_first_line_reply [of "''sip/2.0 486 Busy Here\<newline>''" 0 "''sip/2.0''" "CHR ''4''" "CHR ''8''" "CHR ''6''" "'' ''" "''Busy Here''"
      "[CHR 0x0A]" 22 "msg_start.make SIP_INVALID 0 null_str null_str null_str 0"]
  by (simp add: msg_start.defs stands_def is_digit_def lower_char_def char_of_def bit_0 SP_def line_end_def)

section \<open>Safety\<close>

lemma unknown_method_safe:
  "p \<le> w \<Longrightarrow> w \<le> length buf \<Longrightarrow> \<exists>q v. unknown_method buf p (Some w) = Inr (q, v)"
proof (induction "w - p" arbitrary: p)
  case 0
  then show ?case by (subst unknown_method.simps) auto
next
  case (Suc n)
  then show ?case by (subst unknown_method.simps) auto
qed

lemma either_at_safe: "p + length cs \<le> length buf \<Longrightarrow> \<exists>m. either_at buf p cs = Inr m"
  by (induction buf p cs rule: either_at.induct) auto

lemma try_method_safe:
  assumes "p \<le> w" "w \<le> length buf" "k + length cs \<le> n" "\<exists>q v. next = Inr (q, v)"
  shows "\<exists>q v. try_method buf p (Some w) n k cs x next = Inr (q, v)"
proof (cases "p + n \<le> w")
  case True
  with assms have "p + k + length cs \<le> length buf" by simp
  from either_at_safe [OF this] obtain m where "either_at buf (p + k) cs = Inr m" by blast
  with True assms(2,4) unknown_method_safe [of "p + n" w buf] show ?thesis
    by (auto simp: try_method_def at_least_def done_method_def)
next
  case False
  with assms unknown_method_safe [of p w buf] show ?thesis by (simp add: try_method_def at_least_def)
qed

lemma parse_method_safe:
  assumes "p < w" "w \<le> length buf"
  shows "\<exists>q v. parse_method buf p (Some w) = Inr (q, v)"
proof -
  have u: "\<exists>q v. unknown_method buf p (Some w) = Inr (q, v)" using assms by (intro unknown_method_safe) simp_all
  have t: "\<exists>q v. try_method buf p (Some w) n k cs x nx = Inr (q, v)"
    if "k + length cs \<le> n" "\<exists>q v. nx = Inr (q, v)" for n k cs x nx
    using assms that by (intro try_method_safe) simp_all
  show ?thesis
    unfolding parse_method_def Let_def using assms u by (auto simp: at_least_def intro!: t)
qed

lemma same_text_at_safe: "p + length s \<le> length buf \<Longrightarrow> \<exists>m. same_text_at buf p s = Inr m"
  by (induction buf p s rule: same_text_at.induct) auto

lemma literal_at_safe: "s \<noteq> [] \<Longrightarrow> p + length s < length buf \<Longrightarrow> \<exists>m. literal_at buf p s = Inr m"
  using same_text_at_safe [of "p + 1" "tl s" buf] by (cases s) (auto simp: literal_at_def)

lemma IFISMETHOD_safe:
  "list_all (\<lambda>(s, v). s \<noteq> [] \<and> p + length s < length buf) ms \<Longrightarrow>
   \<exists>r. IFISMETHOD buf p ms = Inr r \<and> (case r of None \<Rightarrow> True | Some x \<Rightarrow> x \<in> set ms)"
proof (induction ms)
  case (Cons x ms)
  obtain s v where x: "x = (s, v)" by (cases x)
  from Cons.prems x obtain m where m: "literal_at buf p s = Inr m" using literal_at_safe [of s p buf] by auto
  from Cons obtain r where "IFISMETHOD buf p ms = Inr r" "case r of None \<Rightarrow> True | Some x \<Rightarrow> x \<in> set ms"
    by auto
  with x m show ?case by (cases m; cases r) auto
qed simp

text \<open>A string inside of the text, and what a return of the parser promises.\<close>

definition within :: "nat \<Rightarrow> nat \<Rightarrow> cstr \<Rightarrow> bool" where
  "within b e x \<longleftrightarrow> (\<exists>p l. x = Str (Buf p) (int l) \<and> b \<le> p \<and> p + l \<le> e)"

definition fl_good :: "nat \<Rightarrow> nat \<Rightarrow> fl_res \<Rightarrow> bool" where
  "fl_good b e m \<longleftrightarrow> (\<exists>r fl. m = Inr (r, fl) \<and> (case r of None \<Rightarrow> True | Some q \<Rightarrow>
     b \<le> q \<and> q \<le> e \<and> (fl_type fl = SIP_INVALID \<or>
       within b e (fl_method_version fl) \<and> within b e (fl_uri_status fl) \<and> within b e (fl_version_reason fl) \<and>
       fl_len fl = int q - int b)))"

lemma fl_good_error [simp]: "b \<le> q \<Longrightarrow> q \<le> e \<Longrightarrow> fl_good b e (fl_error q fl)"
  by (simp add: fl_good_def fl_error_def)

lemma fl_good_too_short [simp]: "fl_good b e (fl_too_short fl)"
  by (simp add: fl_good_def fl_too_short_def)

lemma fl_good_while:
  assumes "p \<le> e" "e \<le> length buf" "\<And>q. p \<le> q \<Longrightarrow> q \<le> e \<Longrightarrow> fl_good b e (f q)"
  shows "fl_good b e (ebind (run_while P buf p e) f)"
  using run_while_inside [OF assms(1,2), of P] assms(3) by auto

lemma within_Buf: "b \<le> p \<Longrightarrow> p \<le> q \<Longrightarrow> q \<le> e \<Longrightarrow> within b e (Str (Buf p) (int q - int p))"
  by (auto simp: within_def intro!: exI [of _ "q - p"])

lemma within_Buf_Suc: "b \<le> p \<Longrightarrow> Suc p \<le> q \<Longrightarrow> q \<le> e \<Longrightarrow> within b e (Str (Buf (Suc p)) (int q - (1 + int p)))"
  using within_Buf [of b "Suc p" q e] by simp

lemma line_ends_good:
  assumes "e \<le> length buf" "b \<le> third" "third \<le> tmp" "tmp \<le> nl" "nl < e"
    "within b e (fl_method_version fl)" "within b e (fl_uri_status fl)"
  shows "fl_good b e (line_ends buf b e third tmp nl fl)"
  using assms unfolding line_ends_def Let_def
  by (auto simp: fl_good_def [of _ _ "Inr _"] within_Buf)

lemma request_rest_good:
  assumes "e \<le> length buf" "b \<le> third" "third < e" "within b e (fl_method_version fl)" "within b e (fl_uri_status fl)"
  shows "fl_good b e (request_rest buf b e third fl)"
  unfolding request_rest_def eat_token_end_def eat_space_end_def using assms
  by (auto intro!: fl_good_while line_ends_good)

lemma reply_rest_good:
  assumes "e \<le> length buf" "b \<le> third" "third < e" "within b e (fl_method_version fl)" "within b e (fl_uri_status fl)"
    "b \<le> tmp" "tmp \<le> e" "fl_uri_status fl = Str (Buf second) (int tmp - int second)"
  shows "fl_good b e (reply_rest buf b e second tmp third fl)"
proof (cases "int tmp - int second = 3")
  case True
  then have "second + 2 < length buf" using assms(1,7) by simp
  with assms True show ?thesis
    unfolding reply_rest_def eat_token2_end_def Let_def by (auto intro!: fl_good_while line_ends_good)
next
  case False
  with assms show ?thesis by (simp add: reply_rest_def)
qed

lemma first_token_good:
  assumes e: "e \<le> length buf" "b + 16 < e"
    and go: "\<And>t fl. b \<le> t \<Longrightarrow> t < e \<Longrightarrow> str_len (fl_method_version fl) = int (t - b) \<Longrightarrow> fl_good b e (go t fl)"
  shows "fl_good b e (first_token buf b e fl go)"
proof -
  obtain m where m: "literal_at buf b SIP_VERSION = Inr m"
    using literal_at_safe [of SIP_VERSION b buf] e by (auto simp: SIP_VERSION_def)
  obtain r where r: "IFISMETHOD buf b tested_methods = Inr r" "case r of None \<Rightarrow> True | Some x \<Rightarrow> x \<in> set tested_methods"
    using IFISMETHOD_safe [of b buf tested_methods] e by (auto simp: tested_methods_def)
  have known: "length s \<le> 6" if "r = Some (s, v)" for s v
    using r(2) that by (auto simp: tested_methods_def)
  have unknown: "fl_good b e (ebind (parse_method buf b (Some q)) (\<lambda>(x, v).
      let fl2 = f\<lparr>fl_method_value_statuscode := v\<rparr>
      in if x = None then fl_error q fl2
         else go q (fl2\<lparr>fl_method_version := set_len (int q - int b) (fl_method_version fl2)\<rparr>)))"
    if "b \<le> q" "q < e" "q \<noteq> b" for q f
    using parse_method_safe [of b q buf] that e by (auto simp: Let_def set_len_def of_nat_diff intro!: go)
  show ?thesis
    unfolding first_token_def m r(1) ebind_Inr eat_token_end_def Let_def using e known
    by (auto simp: SIP_VERSION_LEN_def set_len_def of_nat_diff split: option.split intro!: go fl_good_while unknown [unfolded Let_def])
qed

text \<open>
  C10: on any text, the parser of the first line reads no byte outside of it, and whatever it
  returns is null or a place inside of the text; unless it marks the message as invalid, the three
  strings it sets lie in the text and the length is the one of the line.
\<close>

theorem parse_first_line_safe:
  assumes "b + len \<le> length buf"
  shows "\<exists>r fl'. parse_first_line buf b len fl = Inr (r, fl') \<and> (case r of None \<Rightarrow> True | Some q \<Rightarrow>
    b \<le> q \<and> q \<le> b + len \<and> (fl_type fl' = SIP_INVALID \<or>
      within b (b + len) (fl_method_version fl') \<and> within b (b + len) (fl_uri_status fl') \<and>
      within b (b + len) (fl_version_reason fl') \<and> fl_len fl' = int q - int b))"
proof -
  have "fl_good b (b + len) (parse_first_line buf b len fl)"
  proof (cases "len \<le> 16")
    case False
    then show ?thesis
      unfolding parse_first_line_def Let_def using assms
      by (auto intro!: first_token_good)
        (auto simp: eat_token_end_def eat_space_end_def of_nat_diff intro!: fl_good_while reply_rest_good request_rest_good within_Buf within_Buf_Suc)
  qed (simp add: parse_first_line_def)
  then show ?thesis unfolding fl_good_def .
qed

theorem parse_first_line_safe_witness:
  "\<exists>r fl'. parse_first_line ''FOO BAR BAZ QUUX '' 0 17 (msg_start.make SIP_REQUEST 0 null_str null_str null_str 0) = Inr (r, fl') \<and>
    (case r of None \<Rightarrow> True | Some q \<Rightarrow> q \<le> 17)"
  using parse_first_line_safe [of 0 17 "''FOO BAR BAZ QUUX ''" "msg_start.make SIP_REQUEST 0 null_str null_str null_str 0"]
  by (fastforce split: option.splits)

end
