(* ===== verification/Via_Param.thy ===== *)
theory Via_Param
  imports Scan Pkg_Mem Read_Buffer Parse_Uri
begin

text \<open>
  The parameters of a Via header, \<open>parse_via_param\<close> of \<open>src/core/parser/parse_via.c\<close>, with the data of
  \<open>parse_via.h\<close>. The states are the numbers of the code, an \<open>unsigned char\<close>: \<open>ALIAS1\<close> to
  \<open>ALIAS4\<close> have the same numbers as \<open>FIN_HIDDEN\<close> to \<open>FIN_MADDR\<close>, and the last ones are
  assigned to the type of a parameter. Pointers into the message are offsets.
\<close>

section \<open>States\<close>

text \<open>The main states.\<close>

definition F_HOST :: nat where [simp]: "F_HOST = 0"
definition P_HOST :: nat where [simp]: "P_HOST = 1"
definition L_PORT :: nat where [simp]: "L_PORT = 2"
definition F_PORT :: nat where [simp]: "F_PORT = 3"
definition P_PORT :: nat where [simp]: "P_PORT = 4"
definition L_PARAM :: nat where [simp]: "L_PARAM = 5"
definition F_PARAM :: nat where [simp]: "F_PARAM = 6"
definition P_PARAM :: nat where [simp]: "P_PARAM = 7"
definition L_VIA :: nat where [simp]: "L_VIA = 8"
definition F_VIA :: nat where [simp]: "F_VIA = 9"
definition F_COMMENT :: nat where [simp]: "F_COMMENT = 10"
definition P_COMMENT :: nat where [simp]: "P_COMMENT = 11"
definition F_IP6HOST :: nat where [simp]: "F_IP6HOST = 12"
definition P_IP6HOST :: nat where [simp]: "P_IP6HOST = 13"
definition F_CRLF :: nat where [simp]: "F_CRLF = 14"
definition F_LF :: nat where [simp]: "F_LF = 15"
definition F_CR :: nat where [simp]: "F_CR = 16"
definition END_OF_HEADER :: nat where [simp]: "END_OF_HEADER = 17"

text \<open>The first part of the header.\<close>

definition F_SIP :: nat where [simp]: "F_SIP = 100"
definition SIP1 :: nat where [simp]: "SIP1 = 101"
definition SIP2 :: nat where [simp]: "SIP2 = 102"
definition FIN_SIP :: nat where [simp]: "FIN_SIP = 103"
definition L_VER :: nat where [simp]: "L_VER = 104"
definition F_VER :: nat where [simp]: "F_VER = 105"
definition VER1 :: nat where [simp]: "VER1 = 106"
definition VER2 :: nat where [simp]: "VER2 = 107"
definition FIN_VER :: nat where [simp]: "FIN_VER = 108"
definition UDP1 :: nat where [simp]: "UDP1 = 109"
definition UDP2 :: nat where [simp]: "UDP2 = 110"
definition FIN_UDP :: nat where [simp]: "FIN_UDP = 111"
definition TCP_TLS1 :: nat where [simp]: "TCP_TLS1 = 112"
definition TCP2 :: nat where [simp]: "TCP2 = 113"
definition FIN_TCP :: nat where [simp]: "FIN_TCP = 114"
definition TLS2 :: nat where [simp]: "TLS2 = 115"
definition FIN_TLS :: nat where [simp]: "FIN_TLS = 116"
definition SCTP1 :: nat where [simp]: "SCTP1 = 117"
definition SCTP2 :: nat where [simp]: "SCTP2 = 118"
definition SCTP3 :: nat where [simp]: "SCTP3 = 119"
definition FIN_SCTP :: nat where [simp]: "FIN_SCTP = 120"
definition L_PROTO :: nat where [simp]: "L_PROTO = 121"
definition F_PROTO :: nat where [simp]: "F_PROTO = 122"

text \<open>Parameters; the numbering goes on to 233, the one of the final states starts at 230.\<close>

definition L_VALUE :: nat where [simp]: "L_VALUE = 200"
definition F_VALUE :: nat where [simp]: "F_VALUE = 201"
definition P_VALUE :: nat where [simp]: "P_VALUE = 202"
definition P_STRING :: nat where [simp]: "P_STRING = 203"
definition HIDDEN1 :: nat where [simp]: "HIDDEN1 = 204"
definition HIDDEN2 :: nat where [simp]: "HIDDEN2 = 205"
definition HIDDEN3 :: nat where [simp]: "HIDDEN3 = 206"
definition HIDDEN4 :: nat where [simp]: "HIDDEN4 = 207"
definition HIDDEN5 :: nat where [simp]: "HIDDEN5 = 208"
definition TTL1 :: nat where [simp]: "TTL1 = 209"
definition TTL2 :: nat where [simp]: "TTL2 = 210"
definition BRANCH1 :: nat where [simp]: "BRANCH1 = 211"
definition BRANCH2 :: nat where [simp]: "BRANCH2 = 212"
definition BRANCH3 :: nat where [simp]: "BRANCH3 = 213"
definition BRANCH4 :: nat where [simp]: "BRANCH4 = 214"
definition BRANCH5 :: nat where [simp]: "BRANCH5 = 215"
definition MADDR1 :: nat where [simp]: "MADDR1 = 216"
definition MADDR2 :: nat where [simp]: "MADDR2 = 217"
definition MADDR3 :: nat where [simp]: "MADDR3 = 218"
definition MADDR4 :: nat where [simp]: "MADDR4 = 219"
definition RECEIVED1 :: nat where [simp]: "RECEIVED1 = 220"
definition RECEIVED2 :: nat where [simp]: "RECEIVED2 = 221"
definition RECEIVED3 :: nat where [simp]: "RECEIVED3 = 222"
definition RECEIVED4 :: nat where [simp]: "RECEIVED4 = 223"
definition RECEIVED5 :: nat where [simp]: "RECEIVED5 = 224"
definition RECEIVED6 :: nat where [simp]: "RECEIVED6 = 225"
definition RECEIVED7 :: nat where [simp]: "RECEIVED7 = 226"
definition RPORT1 :: nat where [simp]: "RPORT1 = 227"
definition RPORT2 :: nat where [simp]: "RPORT2 = 228"
definition RPORT3 :: nat where [simp]: "RPORT3 = 229"
definition ALIAS1 :: nat where [simp]: "ALIAS1 = 230"
definition ALIAS2 :: nat where [simp]: "ALIAS2 = 231"
definition ALIAS3 :: nat where [simp]: "ALIAS3 = 232"
definition ALIAS4 :: nat where [simp]: "ALIAS4 = 233"

definition FIN_HIDDEN :: nat where [simp]: "FIN_HIDDEN = 230"
definition FIN_TTL :: nat where [simp]: "FIN_TTL = 231"
definition FIN_BRANCH :: nat where [simp]: "FIN_BRANCH = 232"
definition FIN_MADDR :: nat where [simp]: "FIN_MADDR = 233"
definition FIN_RECEIVED :: nat where [simp]: "FIN_RECEIVED = 234"
definition FIN_RPORT :: nat where [simp]: "FIN_RPORT = 235"
definition FIN_I :: nat where [simp]: "FIN_I = 236"
definition FIN_ALIAS :: nat where [simp]: "FIN_ALIAS = 237"

text \<open>The types of parameters, \<open>parse_via.h\<close>.\<close>

definition PARAM_HIDDEN :: nat where [simp]: "PARAM_HIDDEN = 230"
definition PARAM_TTL :: nat where [simp]: "PARAM_TTL = 231"
definition PARAM_BRANCH :: nat where [simp]: "PARAM_BRANCH = 232"
definition PARAM_MADDR :: nat where [simp]: "PARAM_MADDR = 233"
definition PARAM_RECEIVED :: nat where [simp]: "PARAM_RECEIVED = 234"
definition PARAM_RPORT :: nat where [simp]: "PARAM_RPORT = 235"
definition PARAM_I :: nat where [simp]: "PARAM_I = 236"
definition PARAM_ALIAS :: nat where [simp]: "PARAM_ALIAS = 237"
definition GEN_PARAM :: nat where [simp]: "GEN_PARAM = 238"
definition PARAM_ERROR :: nat where [simp]: "PARAM_ERROR = 239"

text \<open>The groups of \<open>case\<close> labels that return in the code.\<close>

definition line_states :: "nat list" where [simp]: "line_states = [F_CR, F_LF, F_CRLF]"
definition alone_states :: "nat list" where [simp]: "alone_states = [FIN_HIDDEN, FIN_ALIAS]"
definition valued_states :: "nat list" where
  [simp]: "valued_states = [FIN_BRANCH, FIN_TTL, FIN_MADDR, FIN_RECEIVED, FIN_RPORT, FIN_I]"

section \<open>Data\<close>

record via_param =
  vp_type :: nat
  vp_name :: cstr
  vp_value :: cstr
  vp_start :: ptr
  vp_size :: int
  vp_next :: "nat option"

text \<open>\<open>memset(param, 0, sizeof(struct via_param)); param->start = param_start\<close>.\<close>

definition new_via_param :: "ptr \<Rightarrow> via_param" where
  "new_via_param s = \<lparr>vp_type = 0, vp_name = null_str, vp_value = null_str, vp_start = s, vp_size = 0, vp_next = None\<rparr>"

text \<open>The variables of \<open>parse_via_param\<close>; nothing else points to the parameter yet.\<close>

record pvars =
  pa_state :: nat
  pa_saved :: nat
  pa_param :: via_param

text \<open>Where the loops jump to.\<close>

datatype param_jump =
    Find_value nat pvars | Endofparam nat pvars | End_via nat pvars | Param_error nat pvars
  | Param_fault fault

type_synonym param_act = "param_jump + nat \<times> pvars"

definition pa_then :: "fault + pvars \<Rightarrow> (pvars \<Rightarrow> param_act) \<Rightarrow> param_act" where
  "pa_then m k = (case m of Inl f \<Rightarrow> Inl (Param_fault f) | Inr y \<Rightarrow> k y)"

definition pa_on :: "nat \<Rightarrow> nat \<Rightarrow> pvars \<Rightarrow> param_act" where
  "pa_on st p x = Inr (p, x\<lparr>pa_state := st\<rparr>)"

definition pa_fold :: "nat \<Rightarrow> nat \<Rightarrow> pvars \<Rightarrow> pvars" where
  "pa_fold sv st x = x\<lparr>pa_saved := sv, pa_state := st\<rparr>"

text \<open>\<open>tmp - q\<close> for a pointer \<open>q\<close>.\<close>

definition ptr_minus :: "nat \<Rightarrow> ptr \<Rightarrow> fault + int" where
  "ptr_minus p q = (case q of Buf a \<Rightarrow> Inr (int p - int a) | _ \<Rightarrow> Inl Null_minus)"

text \<open>\<open>param->type = ty; param->name.len = tmp - param->name.s\<close>.\<close>

definition pa_named :: "nat \<Rightarrow> nat \<Rightarrow> pvars \<Rightarrow> fault + pvars" where
  "pa_named ty p x =
     ebind (end_str p (vp_name (pa_param x))) (\<lambda>w.
       Inr (x\<lparr>pa_param := (pa_param x)\<lparr>vp_type := ty, vp_name := w\<rparr>\<rparr>))"

definition pa_name_at :: "nat \<Rightarrow> pvars \<Rightarrow> pvars" where
  "pa_name_at p x = x\<lparr>pa_param := (pa_param x)\<lparr>vp_name := start_str p (vp_name (pa_param x))\<rparr>\<rparr>"

text \<open>\<open>param->size = tmp - param->start\<close>.\<close>

definition pa_sized :: "nat \<Rightarrow> pvars \<Rightarrow> fault + pvars" where
  "pa_sized p x =
     ebind (ptr_minus p (vp_start (pa_param x))) (\<lambda>n. Inr (x\<lparr>pa_param := (pa_param x)\<lparr>vp_size := n\<rparr>\<rparr>))"

definition pa_value_at :: "nat \<Rightarrow> pvars \<Rightarrow> pvars" where
  "pa_value_at p x = x\<lparr>pa_param := (pa_param x)\<lparr>vp_value := start_str p (vp_value (pa_param x))\<rparr>\<rparr>"

definition pa_value_end :: "nat \<Rightarrow> pvars \<Rightarrow> fault + pvars" where
  "pa_value_end p x =
     ebind (end_str p (vp_value (pa_param x))) (\<lambda>w. Inr (x\<lparr>pa_param := (pa_param x)\<lparr>vp_value := w\<rparr>\<rparr>))"

definition pa_end_via :: "nat \<Rightarrow> pvars \<Rightarrow> param_act" where
  "pa_end_via p x = Inl (End_via p (x\<lparr>pa_state := END_OF_HEADER\<rparr>))"

section \<open>The name\<close>

definition param_space :: "nat \<Rightarrow> pvars \<Rightarrow> param_act" where
  "param_space p x =
     (let st = pa_state x
      in if st \<in> set alone_states then
           pa_then (pa_named st p x) (\<lambda>y. Inl (Endofparam p (y\<lparr>pa_state := L_PARAM\<rparr>)))
         else if st \<in> set valued_states then
           pa_then (pa_named st p x) (\<lambda>y. Inl (Find_value p (y\<lparr>pa_state := L_VALUE\<rparr>)))
         else if st = F_PARAM then Inr (p, x)
         else if st \<in> set line_states then pa_on (pa_saved x) p x
         else pa_then (pa_named GEN_PARAM p x) (\<lambda>y. Inl (Find_value p (y\<lparr>pa_state := L_VALUE\<rparr>))))"

text \<open>At the end of the line, with the state \<open>ls\<close> that it leads to.\<close>

definition param_line :: "nat \<Rightarrow> nat \<Rightarrow> pvars \<Rightarrow> param_act" where
  "param_line ls p x =
     (let st = pa_state x;
          valued = (\<lambda>ty. pa_then (ebind (pa_named ty p x) (pa_sized p)) (\<lambda>y. Inl (Find_value p (pa_fold L_VALUE ls y))))
      in if st \<in> set alone_states then
           pa_then (ebind (pa_named st p x) (pa_sized p)) (\<lambda>y. Inl (Endofparam p (pa_fold L_PARAM ls y)))
         else if st \<in> set valued_states then valued st
         else if st = F_PARAM then Inr (p, pa_fold st ls x)
         else valued GEN_PARAM)"

definition param_lf :: "nat \<Rightarrow> pvars \<Rightarrow> param_act" where
  "param_lf p x =
     (if pa_state x = F_LF \<or> pa_state x = F_CRLF then pa_end_via p x
      else if pa_state x = F_CR then pa_on F_CRLF p x
      else param_line F_LF p x)"

definition param_cr :: "nat \<Rightarrow> pvars \<Rightarrow> param_act" where
  "param_cr p x =
     (if pa_state x = F_CR \<or> pa_state x = F_CRLF then pa_end_via p x else param_line F_CR p x)"

definition param_eq :: "nat \<Rightarrow> pvars \<Rightarrow> param_act" where
  "param_eq p x =
     (let st = pa_state x
      in if st \<in> set valued_states then
           pa_then (pa_named st p x) (\<lambda>y. Inl (Find_value p (y\<lparr>pa_state := F_VALUE\<rparr>)))
         else if st = F_PARAM \<or> st \<in> set alone_states then Inl (Param_error p x)
         else if st \<in> set line_states then pa_end_via p x
         else pa_then (pa_named GEN_PARAM p x) (\<lambda>y. Inl (Find_value p (y\<lparr>pa_state := F_VALUE\<rparr>))))"

text \<open>\<open>';'\<close> and \<open>','\<close>, with the state they lead to.\<close>

definition param_sep :: "nat \<Rightarrow> nat \<Rightarrow> pvars \<Rightarrow> param_act" where
  "param_sep ns p x =
     (let st = pa_state x;
          done = (\<lambda>ty. pa_then (pa_named ty p x) (\<lambda>y. Inl (Endofparam p (y\<lparr>pa_state := ns\<rparr>))))
      in if st = FIN_HIDDEN \<or> st = FIN_RPORT \<or> st = FIN_ALIAS then done st
         else if st \<in> set valued_states then Inl (Param_error p x)
         else if st \<in> set line_states then pa_end_via p x
         else done GEN_PARAM)"

definition param_semicolon :: "nat \<Rightarrow> pvars \<Rightarrow> param_act" where
  "param_semicolon = param_sep F_PARAM"

definition param_comma :: "nat \<Rightarrow> pvars \<Rightarrow> param_act" where
  "param_comma = param_sep F_VIA"

text \<open>
  A letter: as the first one of a name it leads to \<open>first\<close>, and where the names of \<open>on\<close> go on
  with it to the next state of that name; every other name becomes a general one.
\<close>

definition param_letter :: "nat \<Rightarrow> (nat \<times> nat) list \<Rightarrow> nat \<Rightarrow> pvars \<Rightarrow> param_act" where
  "param_letter first on p x =
     (let st = pa_state x
      in if st = F_PARAM then pa_on first p (pa_name_at p x)
         else if st \<in> set line_states then pa_end_via p x
         else pa_on (case map_of on st of None \<Rightarrow> GEN_PARAM | Some s \<Rightarrow> s) p x)"

definition param_h :: "nat \<Rightarrow> pvars \<Rightarrow> param_act" where
  "param_h = param_letter HIDDEN1 [(BRANCH5, FIN_BRANCH)]"
definition param_i :: "nat \<Rightarrow> pvars \<Rightarrow> param_act" where
  "param_i = param_letter FIN_I [(HIDDEN1, HIDDEN2), (RECEIVED4, RECEIVED5), (ALIAS2, ALIAS3)]"
definition param_d :: "nat \<Rightarrow> pvars \<Rightarrow> param_act" where
  "param_d = param_letter GEN_PARAM [(HIDDEN2, HIDDEN3), (HIDDEN3, HIDDEN4), (MADDR2, MADDR3), (MADDR3, MADDR4), (RECEIVED7, FIN_RECEIVED)]"
definition param_e :: "nat \<Rightarrow> pvars \<Rightarrow> param_act" where
  "param_e = param_letter GEN_PARAM [(HIDDEN4, HIDDEN5), (RECEIVED1, RECEIVED2), (RECEIVED3, RECEIVED4), (RECEIVED6, RECEIVED7)]"
definition param_n :: "nat \<Rightarrow> pvars \<Rightarrow> param_act" where
  "param_n = param_letter GEN_PARAM [(HIDDEN5, FIN_HIDDEN), (BRANCH3, BRANCH4)]"
definition param_t :: "nat \<Rightarrow> pvars \<Rightarrow> param_act" where
  "param_t = param_letter TTL1 [(TTL1, TTL2), (RPORT3, FIN_RPORT)]"
definition param_l :: "nat \<Rightarrow> pvars \<Rightarrow> param_act" where
  "param_l = param_letter GEN_PARAM [(TTL2, FIN_TTL), (ALIAS1, ALIAS2)]"
definition param_m :: "nat \<Rightarrow> pvars \<Rightarrow> param_act" where
  "param_m = param_letter MADDR1 []"
definition param_a :: "nat \<Rightarrow> pvars \<Rightarrow> param_act" where
  "param_a = param_letter ALIAS1 [(MADDR1, MADDR2), (BRANCH2, BRANCH3), (ALIAS3, ALIAS4)]"
definition param_r :: "nat \<Rightarrow> pvars \<Rightarrow> param_act" where
  "param_r = param_letter RECEIVED1 [(MADDR4, FIN_MADDR), (BRANCH1, BRANCH2), (RPORT2, RPORT3)]"
definition param_c :: "nat \<Rightarrow> pvars \<Rightarrow> param_act" where
  "param_c = param_letter GEN_PARAM [(RECEIVED2, RECEIVED3), (BRANCH4, BRANCH5)]"
definition param_v :: "nat \<Rightarrow> pvars \<Rightarrow> param_act" where
  "param_v = param_letter GEN_PARAM [(RECEIVED5, RECEIVED6)]"
definition param_b :: "nat \<Rightarrow> pvars \<Rightarrow> param_act" where
  "param_b = param_letter BRANCH1 []"
definition param_p :: "nat \<Rightarrow> pvars \<Rightarrow> param_act" where
  "param_p = param_letter GEN_PARAM [(RECEIVED1, RPORT1)]"
definition param_o :: "nat \<Rightarrow> pvars \<Rightarrow> param_act" where
  "param_o = param_letter GEN_PARAM [(RPORT1, RPORT2)]"
definition param_s :: "nat \<Rightarrow> pvars \<Rightarrow> param_act" where
  "param_s = param_letter GEN_PARAM [(ALIAS4, FIN_ALIAS)]"
definition param_other :: "nat \<Rightarrow> pvars \<Rightarrow> param_act" where
  "param_other = param_letter GEN_PARAM []"

text \<open>\<open>switch (*tmp)\<close> for the letters; every \<open>case\<close> has both forms of its letter.\<close>

definition param_switch :: "(char \<times> (nat \<Rightarrow> pvars \<Rightarrow> param_act)) list" where
  "param_switch =
    [(CHR ''h'', param_h), (CHR ''H'', param_h), (CHR ''i'', param_i), (CHR ''I'', param_i),
     (CHR ''d'', param_d), (CHR ''D'', param_d), (CHR ''e'', param_e), (CHR ''E'', param_e),
     (CHR ''n'', param_n), (CHR ''N'', param_n), (CHR ''t'', param_t), (CHR ''T'', param_t),
     (CHR ''l'', param_l), (CHR ''L'', param_l), (CHR ''m'', param_m), (CHR ''M'', param_m),
     (CHR ''a'', param_a), (CHR ''A'', param_a), (CHR ''r'', param_r), (CHR ''R'', param_r),
     (CHR ''c'', param_c), (CHR ''C'', param_c), (CHR ''v'', param_v), (CHR ''V'', param_v),
     (CHR ''b'', param_b), (CHR ''B'', param_b), (CHR ''p'', param_p), (CHR ''P'', param_p),
     (CHR ''o'', param_o), (CHR ''O'', param_o), (CHR ''s'', param_s), (CHR ''S'', param_s)]"

definition param_name_step :: "string \<Rightarrow> nat \<Rightarrow> pvars \<Rightarrow> param_act" where
  "param_name_step buf p x =
     (if length buf \<le> p then Inl (Param_fault Out_of_bounds)
      else let c = buf ! p
      in if c = CHR '' '' \<or> c = CHR 0x09 then param_space p x
         else if c = CHR 0x0A then param_lf p x
         else if c = CHR 0x0D then param_cr p x
         else if c = CHR ''='' then param_eq p x
         else if c = CHR '';'' then param_semicolon p x
         else if c = CHR '','' then param_comma p x
         else (case map_of param_switch c of None \<Rightarrow> param_other p x | Some f \<Rightarrow> f p x))"

section \<open>The value\<close>

definition value_space :: "nat \<Rightarrow> pvars \<Rightarrow> param_act" where
  "value_space p x =
     (let st = pa_state x
      in if st = L_VALUE \<or> st = F_VALUE then Inr (p, x)
         else if st = P_VALUE then
           pa_then (pa_value_end p (x\<lparr>pa_state := L_PARAM\<rparr>)) (\<lambda>y. Inl (Endofparam p y))
         else if st = P_STRING then Inr (p, x)
         else if st \<in> set line_states then pa_on (pa_saved x) p x
         else Inl (Param_error p x))"

definition value_line :: "nat \<Rightarrow> nat \<Rightarrow> pvars \<Rightarrow> param_act" where
  "value_line ls p x =
     (let st = pa_state x
      in if st = L_VALUE \<or> st = F_VALUE \<or> st = P_STRING then
           pa_then (pa_sized p x) (\<lambda>y. Inr (p, pa_fold st ls y))
         else if st = P_VALUE then
           pa_then (pa_value_end p x) (\<lambda>y. Inl (Endofparam p (pa_fold L_PARAM ls y)))
         else Inl (Param_error p x))"

definition value_lf :: "nat \<Rightarrow> pvars \<Rightarrow> param_act" where
  "value_lf p x =
     (if pa_state x = F_LF \<or> pa_state x = F_CRLF then pa_end_via p x
      else if pa_state x = F_CR then pa_on F_CRLF p x
      else value_line F_LF p x)"

definition value_cr :: "nat \<Rightarrow> pvars \<Rightarrow> param_act" where
  "value_cr p x = (if pa_state x \<in> set line_states then pa_end_via p x else value_line F_CR p x)"

definition value_eq :: "nat \<Rightarrow> pvars \<Rightarrow> param_act" where
  "value_eq p x =
     (let st = pa_state x
      in if st = L_VALUE then pa_on F_VALUE p x
         else if st = P_STRING then Inr (p, x)
         else if st \<in> set line_states then pa_end_via p x
         else Inl (Param_error p x))"

text \<open>A parameter of the type of \<open>rport\<close> without a value: \<open>value.len = 0; value.s = 0\<close>.\<close>

definition no_param_value :: "nat \<Rightarrow> nat \<Rightarrow> pvars \<Rightarrow> param_act" where
  "no_param_value ns p x =
     (if vp_type (pa_param x) = FIN_RPORT
      then Inl (Endofparam p (x\<lparr>pa_param := (pa_param x)\<lparr>vp_value := Str NullP 0\<rparr>, pa_state := ns\<rparr>))
      else Inl (Param_error p x))"

definition value_semicolon :: "nat \<Rightarrow> pvars \<Rightarrow> param_act" where
  "value_semicolon p x =
     (let st = pa_state x
      in if st = P_VALUE then pa_then (pa_value_end p x) (\<lambda>y. Inl (Endofparam p (y\<lparr>pa_state := F_PARAM\<rparr>)))
         else if st = F_VALUE then
           Inl (Endofparam p (x\<lparr>pa_param := (pa_param x)\<lparr>vp_value := Str (str_s (vp_value (pa_param x))) 0\<rparr>, pa_state := F_PARAM\<rparr>))
         else if st = P_STRING then Inr (p, x)
         else if st \<in> set line_states then pa_end_via p x
         else if st = L_VALUE then no_param_value F_PARAM p x
         else Inl (Param_error p x))"

text \<open>A comma ends the header inside of a quoted value as well.\<close>

definition value_comma :: "nat \<Rightarrow> pvars \<Rightarrow> param_act" where
  "value_comma p x =
     (let st = pa_state x
      in if st = P_VALUE then pa_then (pa_value_end p x) (\<lambda>y. Inl (Endofparam p (y\<lparr>pa_state := F_VIA\<rparr>)))
         else if st = P_STRING \<or> st \<in> set line_states then pa_end_via p x
         else if st = L_VALUE then no_param_value F_VIA p x
         else Inl (Param_error p x))"

definition value_quote :: "nat \<Rightarrow> pvars \<Rightarrow> param_act" where
  "value_quote p x =
     (let st = pa_state x
      in if st = F_VALUE then pa_on P_STRING p (pa_value_at (p + 1) x)
         else if st = P_STRING then
           pa_then (pa_value_end p (x\<lparr>pa_state := L_PARAM\<rparr>)) (\<lambda>y. Inl (Endofparam p y))
         else if st \<in> set line_states then pa_end_via p x
         else Inl (Param_error p x))"

definition value_other :: "nat \<Rightarrow> pvars \<Rightarrow> param_act" where
  "value_other p x =
     (let st = pa_state x
      in if st = F_VALUE then pa_on P_VALUE p (pa_value_at p x)
         else if st = P_VALUE \<or> st = P_STRING then Inr (p, x)
         else if st \<in> set line_states then pa_end_via p x
         else Inl (Param_error p x))"

text \<open>
  The loop runs up to a zero byte, not to \<open>end\<close>: reading on behind the buffer is the fault. At the
  zero byte \<open>saved_state = state; state = END_OF_HEADER\<close>, and the error.
\<close>

definition param_value_step :: "string \<Rightarrow> nat \<Rightarrow> pvars \<Rightarrow> param_act" where
  "param_value_step buf p x =
     (if length buf \<le> p then Inl (Param_fault Out_of_bounds)
      else let c = buf ! p
      in if c = CHR 0x00 then Inl (Param_error p (pa_fold (pa_state x) END_OF_HEADER x))
         else if c = CHR '' '' \<or> c = CHR 0x09 then value_space p x
         else if c = CHR 0x0A then value_lf p x
         else if c = CHR 0x0D then value_cr p x
         else if c = CHR ''='' then value_eq p x
         else if c = CHR '';'' then value_semicolon p x
         else if c = CHR '','' then value_comma p x
         else if c = CHR 0x22 then value_quote p x
         else value_other p x)"

section \<open>The function\<close>

text \<open>\<open>tmp\<close>, \<open>*pstate\<close>, \<open>*psaved_state\<close> and the parameter.\<close>

type_synonym param_res = "fault + nat \<times> pvars"

definition param_error :: "nat \<Rightarrow> pvars \<Rightarrow> param_res" where
  "param_error p x =
     Inr (p, \<lparr>pa_state = PARAM_ERROR, pa_saved = pa_state x, pa_param = (pa_param x)\<lparr>vp_type := PARAM_ERROR\<rparr>\<rparr>)"

definition param_end_via :: "nat \<Rightarrow> pvars \<Rightarrow> param_res" where
  "param_end_via p x =
     (if vp_type (pa_param x) = GEN_PARAM \<or> vp_type (pa_param x) = PARAM_RPORT
      then Inr (p, x\<lparr>pa_saved := L_PARAM\<rparr>)
      else param_error p x)"

definition param_endofparam :: "nat \<Rightarrow> pvars \<Rightarrow> param_res" where
  "param_endofparam p x = ebind (pa_sized p x) (\<lambda>y. Inr (p, y))"

definition find_value :: "string \<Rightarrow> nat \<Rightarrow> pvars \<Rightarrow> param_res" where
  "find_value buf p x =
     (case scan (param_value_step buf) (Suc (length buf)) (p + 1) x of
        Inl (Endofparam q y) \<Rightarrow> param_endofparam q y
      | Inl (End_via q y) \<Rightarrow> param_end_via q y
      | Inl (Param_error q y) \<Rightarrow> param_error q y
      | Inl (Param_fault f) \<Rightarrow> Inl f
      | Inl (Find_value q y) \<Rightarrow> Inl Aborted
      | Inr (q, y) \<Rightarrow> Inl Out_of_bounds)"

definition parse_via_param :: "string \<Rightarrow> nat \<Rightarrow> nat \<Rightarrow> nat \<Rightarrow> nat \<Rightarrow> via_param \<Rightarrow> param_res" where
  "parse_via_param buf e p st sv prm =
     (case scan (param_name_step buf) e p
             \<lparr>pa_state = st, pa_saved = sv, pa_param = prm\<lparr>vp_type := PARAM_ERROR\<rparr>\<rparr> of
        Inl (Find_value q y) \<Rightarrow> find_value buf q y
      | Inl (Endofparam q y) \<Rightarrow> param_endofparam q y
      | Inl (End_via q y) \<Rightarrow> param_end_via q y
      | Inl (Param_error q y) \<Rightarrow> param_error q y
      | Inl (Param_fault f) \<Rightarrow> Inl f
      | Inr (q, y) \<Rightarrow> param_error q (pa_fold (pa_state y) END_OF_HEADER y))"

end
