(* ===== verification/Via_Names.thy ===== *)
theory Via_Names
  imports Via_Param
begin

text \<open>
  Which names of Via parameters the state machine of \<open>parse_via_param\<close> recognises: a table. Because
  the numbers of its states collide, it has names that RFC 3261 does not know.
\<close>

section \<open>The table\<close>

definition rfc_names :: "(string \<times> nat) list" where
  "rfc_names =
    [(''i'', PARAM_I), (''ttl'', PARAM_TTL), (''maddr'', PARAM_MADDR), (''alias'', PARAM_ALIAS),
     (''rport'', PARAM_RPORT), (''hidden'', PARAM_HIDDEN), (''branch'', PARAM_BRANCH),
     (''received'', PARAM_RECEIVED)]"

text \<open>What the states \<open>ALIAS1\<close> to \<open>ALIAS4\<close> add, which are \<open>FIN_HIDDEN\<close>, \<open>FIN_TTL\<close>, \<open>FIN_BRANCH\<close> and \<open>FIN_MADDR\<close>.\<close>

definition collided_names :: "(string \<times> nat) list" where
  "collided_names =
    [(''a'', PARAM_HIDDEN), (''al'', PARAM_TTL), (''ali'', PARAM_BRANCH), (''ttli'', PARAM_BRANCH),
     (''alia'', PARAM_MADDR), (''ttlia'', PARAM_MADDR), (''ttlias'', PARAM_ALIAS),
     (''maddrs'', PARAM_ALIAS), (''hiddenl'', PARAM_TTL), (''brancha'', PARAM_MADDR),
     (''hiddenli'', PARAM_BRANCH), (''branchas'', PARAM_ALIAS), (''hiddenlia'', PARAM_MADDR),
     (''hiddenlias'', PARAM_ALIAS)]"

definition via_param_type :: "string \<Rightarrow> nat" where
  "via_param_type t = (case map_of (rfc_names @ collided_names) (map lower_char t) of None \<Rightarrow> GEN_PARAM | Some ty \<Rightarrow> ty)"

text \<open>The other beginnings of names, and the state behind each.\<close>

definition inner_names :: "(string \<times> nat) list" where
  "inner_names =
    [(''h'', HIDDEN1), (''t'', TTL1), (''m'', MADDR1), (''r'', RECEIVED1), (''b'', BRANCH1),
     (''hi'', HIDDEN2), (''tt'', TTL2), (''ma'', MADDR2), (''re'', RECEIVED2), (''rp'', RPORT1),
     (''br'', BRANCH2), (''hid'', HIDDEN3), (''mad'', MADDR3), (''rec'', RECEIVED3), (''rpo'', RPORT2),
     (''bra'', BRANCH3), (''hidd'', HIDDEN4), (''madd'', MADDR4), (''rece'', RECEIVED4),
     (''rpor'', RPORT3), (''bran'', BRANCH4), (''hidde'', HIDDEN5), (''recei'', RECEIVED5),
     (''branc'', BRANCH5), (''receiv'', RECEIVED6), (''receive'', RECEIVED7)]"

definition via_names :: "(string \<times> nat) list" where "via_names = rfc_names @ collided_names @ inner_names"

definition name_state :: "string \<Rightarrow> nat" where
  "name_state t = (case map_of via_names (map lower_char t) of None \<Rightarrow> GEN_PARAM | Some s \<Rightarrow> s)"

section \<open>One letter\<close>

definition letter_rules :: "(char \<times> nat \<times> (nat \<times> nat) list) list" where
  "letter_rules = [(CHR ''h'', HIDDEN1, [(BRANCH5, FIN_BRANCH)]), (CHR ''i'', FIN_I, [(HIDDEN1, HIDDEN2), (RECEIVED4, RECEIVED5), (ALIAS2, ALIAS3)]),
     (CHR ''d'', GEN_PARAM, [(HIDDEN2, HIDDEN3), (HIDDEN3, HIDDEN4), (MADDR2, MADDR3), (MADDR3, MADDR4), (RECEIVED7, FIN_RECEIVED)]),
     (CHR ''e'', GEN_PARAM, [(HIDDEN4, HIDDEN5), (RECEIVED1, RECEIVED2), (RECEIVED3, RECEIVED4), (RECEIVED6, RECEIVED7)]),
     (CHR ''n'', GEN_PARAM, [(HIDDEN5, FIN_HIDDEN), (BRANCH3, BRANCH4)]), (CHR ''t'', TTL1, [(TTL1, TTL2), (RPORT3, FIN_RPORT)]),
     (CHR ''l'', GEN_PARAM, [(TTL2, FIN_TTL), (ALIAS1, ALIAS2)]), (CHR ''m'', MADDR1, []),
     (CHR ''a'', ALIAS1, [(MADDR1, MADDR2), (BRANCH2, BRANCH3), (ALIAS3, ALIAS4)]),
     (CHR ''r'', RECEIVED1, [(MADDR4, FIN_MADDR), (BRANCH1, BRANCH2), (RPORT2, RPORT3)]),
     (CHR ''c'', GEN_PARAM, [(RECEIVED2, RECEIVED3), (BRANCH4, BRANCH5)]), (CHR ''v'', GEN_PARAM, [(RECEIVED5, RECEIVED6)]),
     (CHR ''b'', BRANCH1, []), (CHR ''p'', GEN_PARAM, [(RECEIVED1, RPORT1)]), (CHR ''o'', GEN_PARAM, [(RPORT1, RPORT2)]),
     (CHR ''s'', GEN_PARAM, [(ALIAS4, FIN_ALIAS)])]"

definition letter_rule :: "char \<Rightarrow> nat \<times> (nat \<times> nat) list" where
  "letter_rule c = (case map_of letter_rules (lower_char c) of None \<Rightarrow> (GEN_PARAM, []) | Some r \<Rightarrow> r)"

lemma via_letters:
  "lower_char c = CHR ''a'' \<longleftrightarrow> c = CHR ''a'' \<or> c = CHR ''A''"
  "lower_char c = CHR ''b'' \<longleftrightarrow> c = CHR ''b'' \<or> c = CHR ''B''"
  "lower_char c = CHR ''c'' \<longleftrightarrow> c = CHR ''c'' \<or> c = CHR ''C''"
  "lower_char c = CHR ''d'' \<longleftrightarrow> c = CHR ''d'' \<or> c = CHR ''D''"
  "lower_char c = CHR ''e'' \<longleftrightarrow> c = CHR ''e'' \<or> c = CHR ''E''"
  "lower_char c = CHR ''h'' \<longleftrightarrow> c = CHR ''h'' \<or> c = CHR ''H''"
  "lower_char c = CHR ''i'' \<longleftrightarrow> c = CHR ''i'' \<or> c = CHR ''I''"
  "lower_char c = CHR ''l'' \<longleftrightarrow> c = CHR ''l'' \<or> c = CHR ''L''"
  "lower_char c = CHR ''m'' \<longleftrightarrow> c = CHR ''m'' \<or> c = CHR ''M''"
  "lower_char c = CHR ''n'' \<longleftrightarrow> c = CHR ''n'' \<or> c = CHR ''N''"
  "lower_char c = CHR ''o'' \<longleftrightarrow> c = CHR ''o'' \<or> c = CHR ''O''"
  "lower_char c = CHR ''p'' \<longleftrightarrow> c = CHR ''p'' \<or> c = CHR ''P''"
  "lower_char c = CHR ''r'' \<longleftrightarrow> c = CHR ''r'' \<or> c = CHR ''R''"
  "lower_char c = CHR ''s'' \<longleftrightarrow> c = CHR ''s'' \<or> c = CHR ''S''"
  "lower_char c = CHR ''t'' \<longleftrightarrow> c = CHR ''t'' \<or> c = CHR ''T''"
  "lower_char c = CHR ''v'' \<longleftrightarrow> c = CHR ''v'' \<or> c = CHR ''V''"
  by (rule lower_char_letter; simp)+

lemmas param_letters = param_h_def param_i_def param_d_def param_e_def param_n_def param_t_def param_l_def param_m_def
  param_a_def param_r_def param_c_def param_v_def param_b_def param_p_def param_o_def param_s_def param_other_def

lemma lowered_letters:
  "lower_char CHR ''a'' = CHR ''a''" "lower_char CHR ''A'' = CHR ''a''" "lower_char CHR ''b'' = CHR ''b''" "lower_char CHR ''B'' = CHR ''b''"
  "lower_char CHR ''c'' = CHR ''c''" "lower_char CHR ''C'' = CHR ''c''" "lower_char CHR ''d'' = CHR ''d''" "lower_char CHR ''D'' = CHR ''d''"
  "lower_char CHR ''e'' = CHR ''e''" "lower_char CHR ''E'' = CHR ''e''" "lower_char CHR ''h'' = CHR ''h''" "lower_char CHR ''H'' = CHR ''h''"
  "lower_char CHR ''i'' = CHR ''i''" "lower_char CHR ''I'' = CHR ''i''" "lower_char CHR ''l'' = CHR ''l''" "lower_char CHR ''L'' = CHR ''l''"
  "lower_char CHR ''m'' = CHR ''m''" "lower_char CHR ''M'' = CHR ''m''" "lower_char CHR ''n'' = CHR ''n''" "lower_char CHR ''N'' = CHR ''n''"
  "lower_char CHR ''o'' = CHR ''o''" "lower_char CHR ''O'' = CHR ''o''" "lower_char CHR ''p'' = CHR ''p''" "lower_char CHR ''P'' = CHR ''p''"
  "lower_char CHR ''r'' = CHR ''r''" "lower_char CHR ''R'' = CHR ''r''" "lower_char CHR ''s'' = CHR ''s''" "lower_char CHR ''S'' = CHR ''s''"
  "lower_char CHR ''t'' = CHR ''t''" "lower_char CHR ''T'' = CHR ''t''" "lower_char CHR ''v'' = CHR ''v''" "lower_char CHR ''V'' = CHR ''v''"
 
  by (simp_all only: via_letters simp_thms)

lemma param_switch_entries:
  "list_all (\<lambda>(c, f). f = param_letter (fst (letter_rule c)) (snd (letter_rule c))) param_switch"
  by (simp add: param_switch_def letter_rule_def letter_rules_def lowered_letters param_letters)

lemma param_switch_rule:
  "(case map_of param_switch c of None \<Rightarrow> param_other p x | Some f \<Rightarrow> f p x) =
   param_letter (fst (letter_rule c)) (snd (letter_rule c)) p x"
proof (cases "map_of param_switch c")
  case (Some f)
  with param_switch_entries have "f = param_letter (fst (letter_rule c)) (snd (letter_rule c))"
    by (auto simp: list_all_iff dest!: map_of_SomeD)
  with Some show ?thesis by simp
next
  case None
  then have "c \<notin> fst ` set param_switch" by (simp add: map_of_eq_None_iff)
  then have "lower_char c \<notin> fst ` set letter_rules"
    by (simp add: letter_rules_def param_switch_def via_letters)
  then have "map_of letter_rules (lower_char c) = None" by (simp add: map_of_eq_None_iff)
  then have "letter_rule c = (GEN_PARAM, [])" by (simp add: letter_rule_def)
  with None show ?thesis by (simp add: param_other_def)
qed

definition via_name_char :: "char \<Rightarrow> bool" where
  "via_name_char c \<longleftrightarrow> c \<notin> {CHR '' '', CHR 0x09, CHR 0x0A, CHR 0x0D, CHR ''='', CHR '';'', CHR '',''}"

lemma param_name_step_letter:
  "p < length buf \<Longrightarrow> via_name_char (buf ! p) \<Longrightarrow>
   param_name_step buf p x = param_letter (fst (letter_rule (buf ! p))) (snd (letter_rule (buf ! p))) p x"
  by (simp add: param_name_step_def Let_def via_name_char_def param_switch_rule)

section \<open>Names\<close>

definition next_state :: "char \<Rightarrow> nat \<Rightarrow> nat" where
  "next_state d st =
     (case map_of letter_rules d of
        None \<Rightarrow> GEN_PARAM
      | Some r \<Rightarrow> (case map_of (snd r) st of None \<Rightarrow> GEN_PARAM | Some s \<Rightarrow> s))"

lemma letter_rule_next:
  "(case map_of (snd (letter_rule c)) st of None \<Rightarrow> GEN_PARAM | Some s \<Rightarrow> s) = next_state (lower_char c) st"
  by (simp add: letter_rule_def next_state_def split: option.split)

definition table_state :: "string \<Rightarrow> nat" where
  "table_state u = (case map_of via_names u of None \<Rightarrow> GEN_PARAM | Some s \<Rightarrow> s)"

lemma name_state_table: "name_state t = table_state (map lower_char t)"
  by (simp add: name_state_def table_state_def)

text \<open>The table agrees with the rules, entry by entry.\<close>

lemma table_ge: "list_all (\<lambda>(w, s). 204 \<le> s \<and> w \<noteq> []) via_names"
  by (simp add: via_names_def rfc_names_def collided_names_def inner_names_def)

lemmas names_defs = via_names_def rfc_names_def collided_names_def inner_names_def

text \<open>An entry that is not a first letter comes from the one without its last letter.\<close>

lemma table_back:
  "list_all (\<lambda>(w, s). tl w = [] \<or> butlast w \<in> set (map fst via_names) \<and> next_state (last w) (table_state (butlast w)) = s) via_names"
  by code_simp

text \<open>And every rule that fits an entry leads to another one.\<close>

lemma rule_states:
  assumes "(d, f, on) \<in> set letter_rules" "(s, b) \<in> set on"
  shows "(d, s) \<in> set
    [(CHR ''h'', BRANCH5), (CHR ''i'', HIDDEN1), (CHR ''i'', RECEIVED4), (CHR ''i'', ALIAS2),
     (CHR ''d'', HIDDEN2), (CHR ''d'', HIDDEN3), (CHR ''d'', MADDR2), (CHR ''d'', MADDR3),
     (CHR ''d'', RECEIVED7), (CHR ''e'', HIDDEN4), (CHR ''e'', RECEIVED1), (CHR ''e'', RECEIVED3),
     (CHR ''e'', RECEIVED6), (CHR ''n'', HIDDEN5), (CHR ''n'', BRANCH3), (CHR ''t'', TTL1),
     (CHR ''t'', RPORT3), (CHR ''l'', TTL2), (CHR ''l'', ALIAS1), (CHR ''a'', MADDR1),
     (CHR ''a'', BRANCH2), (CHR ''a'', ALIAS3), (CHR ''r'', MADDR4), (CHR ''r'', BRANCH1),
     (CHR ''r'', RPORT2), (CHR ''c'', RECEIVED2), (CHR ''c'', BRANCH4), (CHR ''v'', RECEIVED5),
     (CHR ''p'', RECEIVED1), (CHR ''o'', RPORT1), (CHR ''s'', ALIAS4)]"
proof -
  have "(d, s) \<in> set (concat (map (\<lambda>(d, f, on). map (\<lambda>a. (d, fst a)) on) letter_rules))"
    using assms by force
  then show ?thesis by (simp add: letter_rules_def)
qed

lemma known_via_name: "w \<in> set (map fst (rfc_names @ collided_names @ inner_names)) \<Longrightarrow> w \<in> fst ` set via_names"
  by (simp add: via_names_def image_Un)

lemma table_on:
  assumes "(u, s) \<in> set via_names" "(d, f, on) \<in> set letter_rules" "(s, b) \<in> set on"
  shows "u @ [d] \<in> fst ` set via_names"
proof -
  have u: "(u, st) \<in> set via_names" if "s = st" for st using assms(1) that by simp
  show ?thesis
    by (insert rule_states [OF assms(2,3)], unfold list.set insert_iff empty_iff prod.inject,
        elim disjE conjE FalseE; rule known_via_name; drule u; auto simp: names_defs)
qed

lemma rules_gen: "list_all (\<lambda>(d, f, on). map_of on GEN_PARAM = None) letter_rules"
  by (simp add: letter_rules_def)

lemma next_state_GEN: "next_state d GEN_PARAM = GEN_PARAM"
proof (cases "map_of letter_rules d")
  case (Some r)
  with rules_gen have "map_of (snd r) GEN_PARAM = None"
    by (cases r) (auto simp: list_all_iff dest!: map_of_SomeD)
  with Some show ?thesis by (simp add: next_state_def)
qed (simp add: next_state_def)

lemma table_state_step:
  assumes "u \<noteq> []"
  shows "table_state (u @ [d]) = next_state d (table_state u)"
proof (cases "map_of via_names (u @ [d])")
  case (Some s)
  with table_back assms have "next_state d (table_state u) = s"
    by (fastforce simp: list_all_iff dest!: map_of_SomeD)
  with Some show ?thesis by (simp add: table_state_def)
next
  case none: None
  have "next_state d (table_state u) = GEN_PARAM"
  proof (cases "map_of via_names u")
    case None
    then show ?thesis by (simp only: table_state_def next_state_GEN option.case)
  next
    case u: (Some s)
    show ?thesis
    proof (cases "map_of letter_rules d")
      case (Some r)
      have "map_of (snd r) s = None"
      proof (rule ccontr)
        assume "map_of (snd r) s \<noteq> None"
        then obtain b where "(s, b) \<in> set (snd r)" by (auto dest: map_of_SomeD)
        with table_on map_of_SomeD [OF u] map_of_SomeD [OF Some] have "u @ [d] \<in> fst ` set via_names" by (cases r) fastforce
        with none show False by (simp add: map_of_eq_None_iff)
      qed
      with Some u show ?thesis by (simp add: table_state_def next_state_def)
    qed (simp add: next_state_def)
  qed
  with none show ?thesis by (simp add: table_state_def)
qed

lemma name_state_ge: "204 \<le> name_state t"
proof -
  have "204 \<le> table_state u" for u
    using table_ge by (auto simp: table_state_def list_all_iff split: option.split dest!: map_of_SomeD)
  then show ?thesis by (simp add: name_state_table)
qed

lemma name_state_first: "fst (letter_rule c) = name_state [c]"
proof -
  have "fst (case map_of letter_rules d of None \<Rightarrow> (GEN_PARAM, []) | Some r \<Rightarrow> r) = table_state [d]" for d
    by (simp add: letter_rules_def table_state_def via_names_def rfc_names_def collided_names_def inner_names_def)
  then show ?thesis by (simp add: letter_rule_def name_state_table)
qed

lemma scan_name_rest:
  "stands buf p s \<Longrightarrow> list_all via_name_char s \<Longrightarrow> p + length s \<le> e \<Longrightarrow> t \<noteq> [] \<Longrightarrow>
   scan (param_name_step buf) e p (x\<lparr>pa_state := name_state t\<rparr>) =
   scan (param_name_step buf) e (p + length s) (x\<lparr>pa_state := name_state (t @ s)\<rparr>)"
proof (induction s arbitrary: p t)
  case (Cons c s)
  have "param_name_step buf p (x\<lparr>pa_state := name_state t\<rparr>) = Inr (p, x\<lparr>pa_state := name_state (t @ [c])\<rparr>)"
    using Cons.prems name_state_ge [of t] letter_rule_next [of c "name_state t"] table_state_step [of "map lower_char t" "lower_char c"]
    by (simp add: stands_Cons param_name_step_letter param_letter_def Let_def pa_on_def name_state_table)
  then have "scan (param_name_step buf) e p (x\<lparr>pa_state := name_state t\<rparr>) =
      scan (param_name_step buf) e (Suc p) (x\<lparr>pa_state := name_state (t @ [c])\<rparr>)"
    using Cons.prems by (intro scan_on) simp_all
  also have "\<dots> = scan (param_name_step buf) e (Suc p + length s) (x\<lparr>pa_state := name_state ((t @ [c]) @ s)\<rparr>)"
    using Cons.prems by (intro Cons.IH) (simp_all add: stands_Cons)
  finally show ?case by simp
qed simp

text \<open>The whole name.\<close>

lemma scan_via_name:
  assumes "stands buf p t" "t \<noteq> []" "list_all via_name_char t" "p + length t \<le> e" "pa_state x = F_PARAM"
  shows "scan (param_name_step buf) e p x =
    scan (param_name_step buf) e (p + length t) ((pa_name_at p x)\<lparr>pa_state := name_state t\<rparr>)"
proof -
  obtain c s where t: "t = c # s" using assms(2) by (cases t) auto
  have "param_name_step buf p x = Inr (p, (pa_name_at p x)\<lparr>pa_state := name_state [c]\<rparr>)"
    using assms name_state_first [of c] by (simp add: t stands_Cons param_name_step_letter param_letter_def pa_on_def)
  then have "scan (param_name_step buf) e p x = scan (param_name_step buf) e (Suc p) ((pa_name_at p x)\<lparr>pa_state := name_state [c]\<rparr>)"
    using assms(4) t by (intro scan_on) simp_all
  also have "\<dots> = scan (param_name_step buf) e (Suc p + length s) ((pa_name_at p x)\<lparr>pa_state := name_state ([c] @ s)\<rparr>)"
    using assms t by (intro scan_name_rest) (simp_all add: stands_Cons)
  finally show ?thesis by (simp add: t)
qed

end
