(* ===== verification/Parse_Via.thy ===== *)
theory Parse_Via
  imports Via_Param
begin

text \<open>
  The parser of the Via header, \<open>src/core/parser/parse_via.c\<close>: a state machine for
  \<open>SIP/2.0/UDP\<close>, a second one for host, port and comments, which calls \<open>parse_via_param\<close> for
  every parameter and starts again behind a comma. Parameters and further Via bodies are
  blocks of package memory, linked into lists.
\<close>

section \<open>Data\<close>

record via_body =
  vb_error :: bool
  vb_hdr :: cstr
  vb_name :: cstr
  vb_version :: cstr
  vb_transport :: cstr
  vb_host :: cstr
  vb_proto :: u16
  vb_port :: u16
  vb_port_str :: cstr
  vb_params :: cstr
  vb_comment :: cstr
  vb_bsize :: u32
  vb_param_lst :: "nat option"
  vb_last_param :: "nat option"
  vb_branch :: "nat option"
  vb_tid :: cstr
  vb_received :: "nat option"
  vb_rport :: "nat option"
  vb_i :: "nat option"
  vb_alias :: "nat option"
  vb_maddr :: "nat option"
  vb_next :: "nat option"

definition zero_via :: via_body where
  "zero_via = \<lparr>vb_error = False, vb_hdr = null_str, vb_name = null_str, vb_version = null_str,
     vb_transport = null_str, vb_host = null_str, vb_proto = 0, vb_port = 0, vb_port_str = null_str,
     vb_params = null_str, vb_comment = null_str, vb_bsize = 0, vb_param_lst = None,
     vb_last_param = None, vb_branch = None, vb_tid = null_str, vb_received = None,
     vb_rport = None, vb_i = None, vb_alias = None, vb_maddr = None, vb_next = None\<rparr>"

text \<open>What the blocks of the package memory hold; a pointer of the other type is a fault.\<close>

datatype via_block = Param_block via_param | Body_block via_body

definition get_param :: "nat option \<Rightarrow> via_block pkg \<Rightarrow> fault + via_param" where
  "get_param h m = ebind (pkg_get h m) (\<lambda>b. case b of Param_block v \<Rightarrow> Inr v | Body_block _ \<Rightarrow> Inl Freed_block)"

definition get_body :: "nat option \<Rightarrow> via_block pkg \<Rightarrow> fault + via_body" where
  "get_body h m = ebind (pkg_get h m) (\<lambda>b. case b of Body_block v \<Rightarrow> Inr v | Param_block _ \<Rightarrow> Inl Freed_block)"

text \<open>
  The variables. \<open>*vb\<close> is kept beside its address, to be written back where the function leaves it:
  no block points to it meanwhile but the one before it in the list.
\<close>

record via_vars =
  vv_state :: nat
  vv_saved :: nat
  vv_param_start :: ptr
  vv_nest :: int
  vv_vb :: via_body
  vv_mem :: "via_block pkg"

datatype via_jump =
    To_main nat via_vars | To_endofheader nat via_vars | To_endofpacket nat via_vars
  | To_nextvia nat via_vars | To_parse_error nat via_vars | To_error nat via_vars | To_fault fault

type_synonym via_act = "via_jump + nat \<times> via_vars"

definition via_then :: "fault + via_vars \<Rightarrow> (via_vars \<Rightarrow> via_act) \<Rightarrow> via_act" where
  "via_then m k = (case m of Inl f \<Rightarrow> Inl (To_fault f) | Inr y \<Rightarrow> k y)"

definition via_on :: "nat \<Rightarrow> nat \<Rightarrow> via_vars \<Rightarrow> via_act" where
  "via_on st p x = Inr (p, x\<lparr>vv_state := st\<rparr>)"

definition via_fold :: "nat \<Rightarrow> nat \<Rightarrow> nat \<Rightarrow> via_vars \<Rightarrow> via_act" where
  "via_fold sv st p x = Inr (p, x\<lparr>vv_saved := sv, vv_state := st\<rparr>)"

definition on_body :: "(via_body \<Rightarrow> via_body) \<Rightarrow> via_vars \<Rightarrow> via_vars" where
  "on_body f x = x\<lparr>vv_vb := f (vv_vb x)\<rparr>"

text \<open>\<open>vb->w.len = tmp - vb->w.s\<close> and \<open>vb->w.s = tmp\<close> for the strings of the body.\<close>

definition via_name_end :: "nat \<Rightarrow> via_vars \<Rightarrow> fault + via_vars" where
  "via_name_end p x = ebind (end_str p (vb_name (vv_vb x))) (\<lambda>w. Inr (on_body (\<lambda>b. b\<lparr>vb_name := w\<rparr>) x))"

definition via_version_end :: "nat \<Rightarrow> via_vars \<Rightarrow> fault + via_vars" where
  "via_version_end p x = ebind (end_str p (vb_version (vv_vb x))) (\<lambda>w. Inr (on_body (\<lambda>b. b\<lparr>vb_version := w\<rparr>) x))"

definition via_transport_end :: "nat \<Rightarrow> via_vars \<Rightarrow> fault + via_vars" where
  "via_transport_end p x = ebind (end_str p (vb_transport (vv_vb x))) (\<lambda>w. Inr (on_body (\<lambda>b. b\<lparr>vb_transport := w\<rparr>) x))"

definition via_host_end :: "nat \<Rightarrow> via_vars \<Rightarrow> fault + via_vars" where
  "via_host_end p x = ebind (end_str p (vb_host (vv_vb x))) (\<lambda>w. Inr (on_body (\<lambda>b. b\<lparr>vb_host := w\<rparr>) x))"

definition via_port_end :: "nat \<Rightarrow> via_vars \<Rightarrow> fault + via_vars" where
  "via_port_end p x = ebind (end_str p (vb_port_str (vv_vb x))) (\<lambda>w. Inr (on_body (\<lambda>b. b\<lparr>vb_port_str := w\<rparr>) x))"

definition via_params_end :: "nat \<Rightarrow> via_vars \<Rightarrow> fault + via_vars" where
  "via_params_end p x = ebind (end_str p (vb_params (vv_vb x))) (\<lambda>w. Inr (on_body (\<lambda>b. b\<lparr>vb_params := w\<rparr>) x))"

definition via_comment_end :: "nat \<Rightarrow> via_vars \<Rightarrow> fault + via_vars" where
  "via_comment_end p x = ebind (end_str p (vb_comment (vv_vb x))) (\<lambda>w. Inr (on_body (\<lambda>b. b\<lparr>vb_comment := w\<rparr>) x))"

definition via_name_at :: "nat \<Rightarrow> via_vars \<Rightarrow> via_vars" where
  "via_name_at p = on_body (\<lambda>b. b\<lparr>vb_name := start_str p (vb_name b)\<rparr>)"

definition via_version_at :: "nat \<Rightarrow> via_vars \<Rightarrow> via_vars" where
  "via_version_at p = on_body (\<lambda>b. b\<lparr>vb_version := start_str p (vb_version b)\<rparr>)"

definition via_transport_at :: "nat \<Rightarrow> via_vars \<Rightarrow> via_vars" where
  "via_transport_at p = on_body (\<lambda>b. b\<lparr>vb_transport := start_str p (vb_transport b)\<rparr>)"

definition via_host_at :: "nat \<Rightarrow> via_vars \<Rightarrow> via_vars" where
  "via_host_at p = on_body (\<lambda>b. b\<lparr>vb_host := start_str p (vb_host b)\<rparr>)"

definition via_port_at :: "nat \<Rightarrow> via_vars \<Rightarrow> via_vars" where
  "via_port_at p = on_body (\<lambda>b. b\<lparr>vb_port_str := start_str p (vb_port_str b)\<rparr>)"

definition via_comment_at :: "nat \<Rightarrow> via_vars \<Rightarrow> via_vars" where
  "via_comment_at p = on_body (\<lambda>b. b\<lparr>vb_comment := start_str p (vb_comment b)\<rparr>)"

section \<open>The start of the header\<close>

definition start_states :: "nat list" where
  [simp]: "start_states = [L_VER, L_PROTO, F_SIP, F_VER, F_PROTO]"

text \<open>\<open>FIN_UDP\<close>, \<open>FIN_TCP\<close>, \<open>FIN_TLS\<close>: the transport is over, the host is looked for.\<close>

definition fin_protos :: "(nat \<times> u16) list" where
  [simp]: "fin_protos = [(FIN_UDP, PROTO_UDP), (FIN_TCP, PROTO_TCP), (FIN_TLS, PROTO_TLS)]"

definition transport_over :: "u16 \<Rightarrow> nat \<Rightarrow> nat \<Rightarrow> nat \<Rightarrow> via_vars \<Rightarrow> via_act" where
  "transport_over pr sv st p x =
     via_then (via_transport_end p x) (\<lambda>y.
       Inl (To_main p ((on_body (\<lambda>b. b\<lparr>vb_proto := pr\<rparr>) y)\<lparr>vv_saved := sv, vv_state := st\<rparr>)))"

definition start_space :: "nat \<Rightarrow> via_vars \<Rightarrow> via_act" where
  "start_space p x =
     (let st = vv_state x
      in if st \<in> set start_states then Inr (p, x)
         else case map_of (fin_protos @ [(FIN_SCTP, PROTO_SCTP)]) st of
           Some pr \<Rightarrow> transport_over pr (vv_saved x) F_HOST p x
         | None \<Rightarrow>
             if st = FIN_SIP then via_then (via_name_end p x) (via_on L_VER p)
             else if st = FIN_VER then via_then (via_version_end p x) (via_on L_PROTO p)
             else if st \<in> set line_states then via_on (vv_saved x) p x
             else Inl (To_parse_error p x))"

definition start_line :: "nat \<Rightarrow> nat \<Rightarrow> via_vars \<Rightarrow> via_act" where
  "start_line ls p x =
     (let st = vv_state x
      in if st \<in> set start_states then via_fold st ls p x
         else case map_of fin_protos st of
           Some pr \<Rightarrow> transport_over pr F_HOST ls p x
         | None \<Rightarrow>
             if st = FIN_SIP then via_then (via_name_end p x) (via_fold L_VER ls p)
             else if st = FIN_VER then via_then (via_version_end p x) (via_fold L_PROTO ls p)
             else Inl (To_parse_error p x))"

text \<open>\<open>state = saved_state; goto endofheader\<close>.\<close>

definition via_over :: "nat \<Rightarrow> via_vars \<Rightarrow> via_act" where
  "via_over p x = Inl (To_endofheader p (x\<lparr>vv_state := vv_saved x\<rparr>))"

definition start_lf :: "nat \<Rightarrow> via_vars \<Rightarrow> via_act" where
  "start_lf p x =
     (if vv_state x = F_CR then via_on F_CRLF p x
      else if vv_state x = F_LF \<or> vv_state x = F_CRLF then via_over p x
      else start_line F_LF p x)"

definition start_cr :: "nat \<Rightarrow> via_vars \<Rightarrow> via_act" where
  "start_cr p x = (if vv_state x \<in> set line_states then via_over p x else start_line F_CR p x)"

definition start_slash :: "nat \<Rightarrow> via_vars \<Rightarrow> via_act" where
  "start_slash p x =
     (let st = vv_state x
      in if st = FIN_SIP then via_then (via_name_end p x) (via_on F_VER p)
         else if st = FIN_VER then via_then (via_version_end p x) (via_on F_PROTO p)
         else if st = L_VER then via_on F_VER p x
         else if st = L_PROTO then via_on F_PROTO p x
         else Inl (To_parse_error p x))"

text \<open>A character of \<open>SIP\<close>, \<open>2.0\<close> or a transport that only moves from state to state.\<close>

definition start_next :: "(nat \<times> nat) list \<Rightarrow> nat \<Rightarrow> via_vars \<Rightarrow> via_act" where
  "start_next on p x = (case map_of on (vv_state x) of None \<Rightarrow> Inl (To_parse_error p x) | Some st \<Rightarrow> via_on st p x)"

definition start_s :: "nat \<Rightarrow> via_vars \<Rightarrow> via_act" where
  "start_s p x =
     (if vv_state x = F_SIP then via_on SIP1 p (via_name_at p x)
      else if vv_state x = F_PROTO then via_on SCTP1 p (via_transport_at p x)
      else start_next [(TLS2, FIN_TLS)] p x)"

definition start_i :: "nat \<Rightarrow> via_vars \<Rightarrow> via_act" where "start_i = start_next [(SIP1, SIP2)]"

definition start_p :: "nat \<Rightarrow> via_vars \<Rightarrow> via_act" where
  "start_p = start_next [(SIP2, FIN_SIP), (UDP2, FIN_UDP), (TCP2, FIN_TCP), (SCTP3, FIN_SCTP)]"

definition start_u :: "nat \<Rightarrow> via_vars \<Rightarrow> via_act" where
  "start_u p x = (if vv_state x = F_PROTO then via_on UDP1 p (via_transport_at p x) else Inl (To_parse_error p x))"

definition start_d :: "nat \<Rightarrow> via_vars \<Rightarrow> via_act" where "start_d = start_next [(UDP1, UDP2)]"

definition start_t :: "nat \<Rightarrow> via_vars \<Rightarrow> via_act" where
  "start_t p x =
     (if vv_state x = F_PROTO then via_on TCP_TLS1 p (via_transport_at p x) else start_next [(SCTP2, SCTP3)] p x)"

definition start_c :: "nat \<Rightarrow> via_vars \<Rightarrow> via_act" where
  "start_c = start_next [(TCP_TLS1, TCP2), (SCTP1, SCTP2)]"

definition start_l :: "nat \<Rightarrow> via_vars \<Rightarrow> via_act" where "start_l = start_next [(TCP_TLS1, TLS2)]"

definition start_2 :: "nat \<Rightarrow> via_vars \<Rightarrow> via_act" where
  "start_2 p x = (if vv_state x = F_VER then via_on VER1 p (via_version_at p x) else Inl (To_parse_error p x))"

definition start_dot :: "nat \<Rightarrow> via_vars \<Rightarrow> via_act" where "start_dot = start_next [(VER1, VER2)]"

definition start_0 :: "nat \<Rightarrow> via_vars \<Rightarrow> via_act" where "start_0 = start_next [(VER2, FIN_VER)]"

definition start_switch :: "(char \<times> (nat \<Rightarrow> via_vars \<Rightarrow> via_act)) list" where
  "start_switch =
    [(CHR '' '', start_space), (CHR 0x09, start_space), (CHR 0x0A, start_lf), (CHR 0x0D, start_cr),
     (CHR ''/'', start_slash), (CHR ''S'', start_s), (CHR ''s'', start_s), (CHR ''I'', start_i),
     (CHR ''i'', start_i), (CHR ''p'', start_p), (CHR ''P'', start_p), (CHR ''U'', start_u),
     (CHR ''u'', start_u), (CHR ''D'', start_d), (CHR ''d'', start_d), (CHR ''T'', start_t),
     (CHR ''t'', start_t), (CHR ''C'', start_c), (CHR ''c'', start_c), (CHR ''L'', start_l),
     (CHR ''l'', start_l), (CHR ''2'', start_2), (CHR ''.'', start_dot), (CHR ''0'', start_0)]"

definition start_step :: "string \<Rightarrow> nat \<Rightarrow> via_vars \<Rightarrow> via_act" where
  "start_step buf p x =
     (if length buf \<le> p then Inl (To_fault Out_of_bounds)
      else case map_of start_switch (buf ! p) of
        None \<Rightarrow> Inl (To_parse_error p x)
      | Some f \<Rightarrow> f p x)"

section \<open>Host, port, comment\<close>

text \<open>States in which white space means nothing.\<close>

definition blank_states :: "nat list" where
  [simp]: "blank_states = [F_HOST, L_PORT, F_PORT, L_PARAM, F_PARAM, L_VIA, F_VIA, F_COMMENT, P_COMMENT]"

definition main_space :: "nat \<Rightarrow> via_vars \<Rightarrow> via_act" where
  "main_space p x =
     (let st = vv_state x
      in if st \<in> set blank_states then Inr (p, x)
         else if st = P_HOST then via_then (via_host_end p x) (via_on L_PORT p)
         else if st = P_PORT then via_then (via_port_end p x) (via_on L_PARAM p)
         else if st = P_PARAM then via_on L_PARAM p x
         else if st \<in> set line_states then via_on (vv_saved x) p x
         else Inl (To_parse_error p x))"

definition main_line :: "nat \<Rightarrow> nat \<Rightarrow> via_vars \<Rightarrow> via_act" where
  "main_line ls p x =
     (let st = vv_state x
      in if st \<in> set (blank_states @ [F_IP6HOST, P_IP6HOST]) then via_fold st ls p x
         else if st = P_HOST then via_then (via_host_end p x) (via_fold L_PORT ls p)
         else if st = P_PORT then via_then (via_port_end p x) (via_fold L_PARAM ls p)
         else if st = P_PARAM then via_fold L_PARAM ls p x
         else Inl (To_parse_error p x))"

definition main_lf :: "nat \<Rightarrow> via_vars \<Rightarrow> via_act" where
  "main_lf p x =
     (if vv_state x = F_CR then via_on F_CRLF p x
      else if vv_state x = F_LF \<or> vv_state x = F_CRLF then via_over p x
      else main_line F_LF p x)"

definition main_cr :: "nat \<Rightarrow> via_vars \<Rightarrow> via_act" where
  "main_cr p x = (if vv_state x \<in> set line_states then via_over p x else main_line F_CR p x)"

text \<open>Everything is allowed in a comment.\<close>

definition in_comment :: "nat \<Rightarrow> via_vars \<Rightarrow> via_act" where
  "in_comment p x =
     (if vv_state x = F_COMMENT then via_on P_COMMENT p (via_comment_at p x) else Inr (p, x))"

definition comment_states :: "nat list" where [simp]: "comment_states = [F_COMMENT, P_COMMENT]"

definition main_colon :: "nat \<Rightarrow> via_vars \<Rightarrow> via_act" where
  "main_colon p x =
     (let st = vv_state x
      in if st = F_HOST \<or> st = F_IP6HOST then via_on P_IP6HOST p x
         else if st = P_IP6HOST then Inr (p, x)
         else if st = P_HOST then via_then (via_host_end p x) (via_on F_PORT p)
         else if st = L_PORT then via_on F_PORT p x
         else if st \<in> set line_states then Inl (To_endofheader p x)
         else if st \<in> set comment_states then in_comment p x
         else Inl (To_parse_error p x))"

text \<open>\<open>state = F_PARAM; param_start = tmp + 1\<close>.\<close>

definition param_follows :: "nat \<Rightarrow> via_vars \<Rightarrow> via_act" where
  "param_follows p x = via_on F_PARAM p (x\<lparr>vv_param_start := Buf (p + 1)\<rparr>)"

definition main_semicolon :: "nat \<Rightarrow> via_vars \<Rightarrow> via_act" where
  "main_semicolon p x =
     (let st = vv_state x
      in if st = P_HOST then via_then (via_host_end p x) (param_follows p)
         else if st = P_PORT then via_then (via_port_end p x) (param_follows p)
         else if st = L_PORT \<or> st = L_PARAM \<or> st = P_PARAM then param_follows p x
         else if st \<in> set line_states then Inl (To_endofheader p x)
         else if st \<in> set comment_states then in_comment p x
         else Inl (To_parse_error p x))"

definition main_comma :: "nat \<Rightarrow> via_vars \<Rightarrow> via_act" where
  "main_comma p x =
     (let st = vv_state x
      in if st = P_HOST then via_then (via_host_end p x) (via_on F_VIA p)
         else if st = P_PORT then via_then (via_port_end p x) (via_on F_VIA p)
         else if st \<in> set [L_PORT, L_PARAM, P_PARAM, L_VIA, F_VIA] then via_on F_VIA p x
         else if st \<in> set line_states then Inl (To_endofheader p x)
         else if st \<in> set comment_states then in_comment p x
         else Inl (To_parse_error p x))"

text \<open>The opening bracket of a comment: \<open>state = F_COMMENT; c_nest++\<close>.\<close>

definition comment_opens :: "nat \<Rightarrow> via_vars \<Rightarrow> via_act" where
  "comment_opens p x = via_on F_COMMENT p (x\<lparr>vv_nest := vv_nest x + 1\<rparr>)"

definition main_open :: "nat \<Rightarrow> via_vars \<Rightarrow> via_act" where
  "main_open p x =
     (let st = vv_state x
      in if st = P_HOST then via_then (via_host_end p x) (comment_opens p)
         else if st = P_PORT then via_then (via_port_end p x) (comment_opens p)
         else if st \<in> set [P_PARAM, L_PORT, L_PARAM, L_VIA] then via_then (via_params_end p x) (comment_opens p)
         else if st \<in> set comment_states then Inr (p, x\<lparr>vv_nest := vv_nest x + 1\<rparr>)
         else if st \<in> set line_states then Inl (To_endofheader p x)
         else Inl (To_parse_error p x))"

definition main_close :: "nat \<Rightarrow> via_vars \<Rightarrow> via_act" where
  "main_close p x =
     (let st = vv_state x
      in if st \<in> set comment_states then
           (if vv_nest x = 0 then Inl (To_parse_error p x)
            else let y = x\<lparr>vv_nest := vv_nest x - 1\<rparr>
                 in if vv_nest y = 0 then via_then (via_comment_end p (y\<lparr>vv_state := L_VIA\<rparr>)) (\<lambda>z. Inr (p, z))
                    else Inr (p, y))
         else if st \<in> set line_states then Inl (To_endofheader p x)
         else Inl (To_parse_error p x))"

definition main_open6 :: "nat \<Rightarrow> via_vars \<Rightarrow> via_act" where
  "main_open6 p x =
     (let st = vv_state x
      in if st = F_HOST then via_on F_IP6HOST p (via_host_at p x)
         else if st \<in> set comment_states then in_comment p x
         else if st \<in> set line_states then Inl (To_endofheader p x)
         else Inl (To_parse_error p x))"

text \<open>\<open>vb->host.len = (tmp - vb->host.s) + 1\<close>: the brackets belong to the host.\<close>

definition main_close6 :: "nat \<Rightarrow> via_vars \<Rightarrow> via_act" where
  "main_close6 p x =
     (let st = vv_state x
      in if st = P_IP6HOST then via_then (via_host_end (p + 1) x) (via_on L_PORT p)
         else if st \<in> set comment_states then in_comment p x
         else if st \<in> set line_states then Inl (To_endofheader p x)
         else Inl (To_parse_error p x))"

section \<open>Parameters\<close>

text \<open>\<open>vb->params.len = param->start + param->size - vb->params.s\<close>.\<close>

definition params_over :: "via_param \<Rightarrow> via_vars \<Rightarrow> fault + via_vars" where
  "params_over v x =
     (case (vp_start v, str_s (vb_params (vv_vb x))) of
        (Buf a, Buf b) \<Rightarrow>
          Inr (on_body (\<lambda>w. w\<lparr>vb_params := Str (Buf b) (int a + vp_size v - int b)\<rparr>) x)
      | _ \<Rightarrow> Inl Null_minus)"

text \<open>Behind the last one, with the shortcuts to the important ones.\<close>

definition link_via_param :: "nat \<Rightarrow> via_vars \<Rightarrow> fault + via_vars" where
  "link_via_param a x =
     ebind (case vb_last_param (vv_vb x) of
              None \<Rightarrow> Inr (on_body (\<lambda>b. b\<lparr>vb_param_lst := Some a\<rparr>) x)
            | Some l \<Rightarrow>
                ebind (get_param (Some l) (vv_mem x)) (\<lambda>v.
                  ebind (pkg_put (Some l) (Param_block (v\<lparr>vp_next := Some a\<rparr>)) (vv_mem x)) (\<lambda>m.
                    Inr (x\<lparr>vv_mem := m\<rparr>))))
       (\<lambda>y. Inr (on_body (\<lambda>b. b\<lparr>vb_last_param := Some a\<rparr>) y))"

definition param_shortcut :: "nat \<Rightarrow> nat \<Rightarrow> via_body \<Rightarrow> via_body" where
  "param_shortcut ty a b =
     (if ty = PARAM_BRANCH then b\<lparr>vb_branch := Some a\<rparr>
      else if ty = PARAM_RECEIVED then b\<lparr>vb_received := Some a\<rparr>
      else if ty = PARAM_RPORT then b\<lparr>vb_rport := Some a\<rparr>
      else if ty = PARAM_I then b\<lparr>vb_i := Some a\<rparr>
      else if ty = PARAM_ALIAS then b\<lparr>vb_alias := Some a\<rparr>
      else if ty = PARAM_MADDR then b\<lparr>vb_maddr := Some a\<rparr>
      else b)"

text \<open>\<open>pkg_free(param); goto parse_error\<close>.\<close>

definition drop_param :: "nat \<Rightarrow> nat \<Rightarrow> via_vars \<Rightarrow> via_act" where
  "drop_param a p x =
     (case pkg_free a (vv_mem x) of
        Inl f \<Rightarrow> Inl (To_fault f)
      | Inr m \<Rightarrow> Inl (To_parse_error p (x\<lparr>vv_mem := m\<rparr>)))"

definition keep_param :: "nat \<Rightarrow> via_param \<Rightarrow> nat \<Rightarrow> via_vars \<Rightarrow> via_act" where
  "keep_param a v p x =
     via_then (link_via_param a x) (\<lambda>y.
       let z = on_body (param_shortcut (vp_type v) a) y
       in if vv_state z = END_OF_HEADER then via_over p z else Inr (p, z))"

text \<open>The parameter \<open>v\<close> at address \<open>a\<close>, as \<open>parse_via_param\<close> has left it, by the state it has set.\<close>

definition param_parsed :: "nat \<Rightarrow> via_param \<Rightarrow> nat \<Rightarrow> via_vars \<Rightarrow> via_act" where
  "param_parsed a v p x =
     (let st = vv_state x
      in if st = F_PARAM then keep_param a v p (x\<lparr>vv_param_start := Buf (p + 1)\<rparr>)
         else if st = L_PARAM \<or> st = F_LF \<or> st = F_CR then keep_param a v p x
         else if st = F_VIA \<or> st = END_OF_HEADER then via_then (params_over v x) (keep_param a v p)
         else drop_param a p x)"

definition main_param :: "string \<Rightarrow> nat \<Rightarrow> nat \<Rightarrow> via_vars \<Rightarrow> via_act" where
  "main_param buf e p x =
     (let y = on_body (\<lambda>b. if str_s (vb_params b) = NullP then b\<lparr>vb_params := Str (vv_param_start x) (str_len (vb_params b))\<rparr> else b) x;
          v = new_via_param (vv_param_start x)
      in case pkg_malloc (Param_block v) (vv_mem y) of
           (None, m) \<Rightarrow> Inl (To_error p (y\<lparr>vv_mem := m\<rparr>))
         | (Some a, m) \<Rightarrow>
             (case parse_via_param buf e p (vv_state y) (vv_saved y) v of
                Inl f \<Rightarrow> Inl (To_fault f)
              | Inr (q, r) \<Rightarrow>
                  (case pkg_put (Some a) (Param_block (pa_param r)) m of
                     Inl f \<Rightarrow> Inl (To_fault f)
                   | Inr m' \<Rightarrow>
                       param_parsed a (pa_param r) q
                         (y\<lparr>vv_mem := m', vv_state := pa_state r, vv_saved := pa_saved r\<rparr>))))"

definition main_other :: "string \<Rightarrow> nat \<Rightarrow> nat \<Rightarrow> via_vars \<Rightarrow> via_act" where
  "main_other buf e p x =
     (let st = vv_state x
      in if st = F_HOST then via_on P_HOST p (via_host_at p x)
         else if st = F_PORT then via_on P_PORT p (via_port_at p x)
         else if st \<in> set [P_HOST, P_PORT, P_PARAM, P_IP6HOST] then Inr (p, x)
         else if st = F_PARAM then main_param buf e p x
         else if st = F_VIA then Inl (To_nextvia p x)
         else if st \<in> set comment_states then in_comment p x
         else if st = F_IP6HOST then via_on P_IP6HOST p x
         else if st \<in> set line_states then Inl (To_endofheader p x)
         else Inl (To_parse_error p x))"

text \<open>The loop runs up to a zero byte.\<close>

definition main_step :: "string \<Rightarrow> nat \<Rightarrow> nat \<Rightarrow> via_vars \<Rightarrow> via_act" where
  "main_step buf e p x =
     (if length buf \<le> p then Inl (To_fault Out_of_bounds)
      else let c = buf ! p
      in if c = CHR 0x00 then Inl (To_endofpacket p x)
         else if c = CHR '' '' \<or> c = CHR 0x09 then main_space p x
         else if c = CHR 0x0A then main_lf p x
         else if c = CHR 0x0D then main_cr p x
         else if c = CHR '':'' then main_colon p x
         else if c = CHR '';'' then main_semicolon p x
         else if c = CHR '','' then main_comma p x
         else if c = CHR ''('' then main_open p x
         else if c = CHR '')'' then main_close p x
         else if c = CHR ''['' then main_open6 p x
         else if c = CHR '']'' then main_close6 p x
         else main_other buf e p x)"

section \<open>The whole header\<close>

text \<open>\<open>str2s\<close> of \<open>utils.h\<close> for a string in the buffer: at most five digits, modulo \<open>2 ^ 16\<close>; \<open>None\<close> is an error.\<close>

fun str2s_digits :: "string \<Rightarrow> u16 \<Rightarrow> nat \<Rightarrow> u16 option" where
  "str2s_digits [] ret i = Some ret"
| "str2s_digits (c # cs) ret i =
     (if 48 \<le> (of_char c :: nat) \<and> of_char c \<le> (57 :: nat)
      then if 5 < i + 1 then None else str2s_digits cs (ret * 10 + of_char c - 48) (i + 1)
      else None)"

definition str2s :: "string \<Rightarrow> cstr \<Rightarrow> fault + u16 option" where
  "str2s buf w =
     (case w of
        Str (Buf a) l \<Rightarrow>
          if l < 0 \<or> length buf < a + nat l then Inl Out_of_bounds
          else Inr (str2s_digits (take (nat l) (drop a buf)) 0 0)
      | _ \<Rightarrow> Inl Null_deref)"

text \<open>\<open>vb->error = PARSE_OK; vb->bsize = tmp - buffer\<close>, and the port; \<open>None\<close> is an invalid one.\<close>

definition via_finish :: "string \<Rightarrow> nat \<Rightarrow> nat \<Rightarrow> via_body \<Rightarrow> fault + via_body option" where
  "via_finish buf b p vb =
     (let v = vb\<lparr>vb_error := False, vb_bsize := word_of_int (int p - int b)\<rparr>
      in if str_s (vb_port_str v) = NullP then Inr (Some v)
         else ebind (str2s buf (vb_port_str v)) (\<lambda>r.
                case r of None \<Rightarrow> Inr None | Some n \<Rightarrow> Inr (Some (v\<lparr>vb_port := n\<rparr>))))"

definition end_states :: "nat list" where
  [simp]: "end_states = [P_HOST, L_PORT, P_PORT, L_PARAM, P_PARAM, P_VALUE, GEN_PARAM, FIN_HIDDEN, L_VIA]"

type_synonym via_res = "fault + nat \<times> via_block pkg"

text \<open>
  \<open>error\<close>: both the body that is being parsed, at \<open>a\<close>, and the first one, at \<open>f\<close>, are marked. Where
  \<open>port\<close> was invalid the code has already stored the other fields.
\<close>

definition via_error :: "nat \<Rightarrow> nat \<Rightarrow> nat \<Rightarrow> via_body \<Rightarrow> via_block pkg \<Rightarrow> via_res" where
  "via_error f a p vb m =
     ebind (pkg_put (Some a) (Body_block (vb\<lparr>vb_error := True\<rparr>)) m) (\<lambda>m1.
       ebind (get_body (Some f) m1) (\<lambda>vf.
         ebind (pkg_put (Some f) (Body_block (vf\<lparr>vb_error := True\<rparr>)) m1) (\<lambda>m2. Inr (p, m2))))"

definition via_endofpacket :: "string \<Rightarrow> nat \<Rightarrow> nat \<Rightarrow> nat \<Rightarrow> nat \<Rightarrow> via_vars \<Rightarrow> via_res" where
  "via_endofpacket buf f a b p x =
     (if vv_state x \<in> set end_states then
        ebind (via_finish buf b p (vv_vb x)) (\<lambda>r.
          case r of
            None \<Rightarrow> via_error f a p ((vv_vb x)\<lparr>vb_bsize := word_of_int (int p - int b), vb_port := 0\<rparr>) (vv_mem x)
          | Some v \<Rightarrow> ebind (pkg_put (Some a) (Body_block v) (vv_mem x)) (\<lambda>m. Inr (p, m)))
      else via_error f a p (vv_vb x) (vv_mem x))"

definition via_endofheader :: "string \<Rightarrow> nat \<Rightarrow> nat \<Rightarrow> nat \<Rightarrow> nat \<Rightarrow> via_vars \<Rightarrow> via_res" where
  "via_endofheader buf f a b p x = via_endofpacket buf f a b p (x\<lparr>vv_state := vv_saved x\<rparr>)"

text \<open>One Via body from \<open>b\<close> on: up to the label its second loop jumps to.\<close>

definition via_start :: "string \<Rightarrow> nat \<Rightarrow> nat \<Rightarrow> via_body \<Rightarrow> via_block pkg \<Rightarrow> via_act" where
  "via_start buf e b vb m =
     (case scan (start_step buf) e b
             \<lparr>vv_state = F_SIP, vv_saved = 0, vv_param_start = NullP, vv_nest = 0, vv_vb = vb\<lparr>vb_error := True\<rparr>, vv_mem = m\<rparr> of
        Inl j \<Rightarrow> Inl j
      | Inr (q, x) \<Rightarrow> Inl (To_parse_error q x))"

definition via_one :: "string \<Rightarrow> nat \<Rightarrow> nat \<Rightarrow> via_body \<Rightarrow> via_block pkg \<Rightarrow> via_jump" where
  "via_one buf e b vb m =
     (case via_start buf e b vb m of
        Inl (To_main q x) \<Rightarrow>
          (case scan (main_step buf e) (Suc (length buf)) (q + 1) (x\<lparr>vv_nest := 0\<rparr>) of
             Inl j \<Rightarrow> j
           | Inr _ \<Rightarrow> To_fault Out_of_bounds)
      | Inl j \<Rightarrow> j
      | Inr _ \<Rightarrow> To_fault Aborted)"

text \<open>A jump to \<open>nextvia\<close> is behind the start, and inside of the buffer.\<close>

lemma via_then_Inl: "via_then m k = Inl j \<Longrightarrow> (\<exists>f. j = To_fault f) \<or> (\<exists>y. k y = Inl j)"
  by (auto simp: via_then_def split: sum.splits)

lemmas via_moves = via_on_def via_fold_def via_over_def in_comment_def param_follows_def comment_opens_def

lemma main_step_nextvia:
  assumes "main_step buf e p x = Inl (To_nextvia q y)"
  shows "q = p \<and> p < length buf"
proof -
  have keep: "keep_param a v r z \<noteq> Inl (To_nextvia q y)" for a v r z
    by (auto simp: keep_param_def Let_def via_moves dest!: via_then_Inl split: if_splits)
  have "param_parsed a v r z \<noteq> Inl (To_nextvia q y)" for a v r z
    by (auto simp: param_parsed_def drop_param_def Let_def keep dest!: via_then_Inl split: if_splits sum.splits)
  then have "main_param buf e p x \<noteq> Inl (To_nextvia q y)"
    by (auto simp: main_param_def Let_def split: option.splits sum.splits prod.splits)
  with assms show ?thesis
    by (auto simp: main_step_def Let_def main_space_def main_lf_def main_cr_def main_line_def main_colon_def
        main_semicolon_def main_comma_def main_open_def main_close_def main_open6_def main_close6_def main_other_def via_moves
        split: if_splits dest!: via_then_Inl)
qed

lemma start_step_main: "start_step buf p x = Inl (To_main q y) \<Longrightarrow> q = p"
proof -
  assume h: "start_step buf p x = Inl (To_main q y)"
  have l: "start_line ls p x = Inl (To_main q y) \<Longrightarrow> q = p" for ls
    by (auto simp: start_line_def transport_over_def Let_def via_moves split: if_splits option.splits dest!: via_then_Inl)
  have n: "start_next on p x \<noteq> Inl (To_main q y)" for on
    by (auto simp: start_next_def via_moves split: option.splits)
  have "f p x = Inl (To_main q y) \<Longrightarrow> q = p" if "(c, f) \<in> set start_switch" for c f
    using that unfolding start_switch_def
    by (simp, elim disjE conjE)
      (auto simp: start_space_def start_lf_def start_cr_def start_slash_def start_s_def start_i_def start_p_def start_u_def
        start_d_def start_t_def start_c_def start_l_def start_2_def start_dot_def start_0_def transport_over_def
        via_moves Let_def n split: if_splits option.splits dest!: via_then_Inl l)
  with h show ?thesis by (auto simp: start_step_def dest!: map_of_SomeD split: option.splits if_splits)
qed

lemma start_step_nextvia: "start_step buf p x \<noteq> Inl (To_nextvia q y)"
proof -
  have l: "start_line ls p x \<noteq> Inl (To_nextvia q y)" for ls
    by (auto simp: start_line_def transport_over_def Let_def via_moves split: if_splits option.splits dest!: via_then_Inl)
  have n: "start_next on p x \<noteq> Inl (To_nextvia q y)" for on
    by (auto simp: start_next_def via_moves split: option.splits)
  have "f p x \<noteq> Inl (To_nextvia q y)" if "(c, f) \<in> set start_switch" for c f
    using that unfolding start_switch_def
    by (simp, elim disjE conjE)
      (auto simp: start_space_def start_lf_def start_cr_def start_slash_def start_s_def start_i_def start_p_def start_u_def
        start_d_def start_t_def start_c_def start_l_def start_2_def start_dot_def start_0_def transport_over_def
        via_moves Let_def l n split: if_splits option.splits dest!: via_then_Inl)
  then show ?thesis by (auto simp: start_step_def dest!: map_of_SomeD split: option.splits)
qed

lemma via_one_nextvia:
  assumes "via_one buf e b vb m = To_nextvia p x"
  shows "b < p \<and> p < length buf"
proof -
  have start: "b \<le> q" if "via_start buf e b vb m = Inl (To_main q y)" for q y
    using that unfolding via_start_def
    by (auto split: sum.splits prod.splits dest!: scan_Inl_pos dest: start_step_main)
  have "via_start buf e b vb m \<noteq> Inl (To_nextvia p x)"
    unfolding via_start_def by (auto split: sum.splits prod.splits dest!: scan_Inl_pos simp: start_step_nextvia)
  with assms obtain q y where q: "via_start buf e b vb m = Inl (To_main q y)"
      "scan (main_step buf e) (Suc (length buf)) (q + 1) (y\<lparr>vv_nest := 0\<rparr>) = Inl (To_nextvia p x)"
    by (auto simp: via_one_def split: sum.splits via_jump.splits prod.splits)
  from scan_Inl_pos [OF q(2)] main_step_nextvia have "q + 1 \<le> p \<and> p < length buf" by blast
  with start [OF q(1)] show ?thesis by simp
qed

function via_bodies :: "string \<Rightarrow> nat \<Rightarrow> nat \<Rightarrow> nat \<Rightarrow> nat \<Rightarrow> via_block pkg \<Rightarrow> via_res" where
  "via_bodies buf e f a b m =
     (case get_body (Some a) m of
        Inl g \<Rightarrow> Inl g
      | Inr vb \<Rightarrow>
          (case via_one buf e b vb m of
             To_nextvia p x \<Rightarrow>
               (case via_finish buf b p (vv_vb x) of
                  Inl g \<Rightarrow> Inl g
                | Inr None \<Rightarrow> via_error f a p ((vv_vb x)\<lparr>vb_bsize := word_of_int (int p - int b), vb_port := 0\<rparr>) (vv_mem x)
                | Inr (Some v) \<Rightarrow>
                    (case pkg_malloc (Body_block zero_via) (vv_mem x) of
                       (None, m1) \<Rightarrow> via_error f a p (v\<lparr>vb_next := None\<rparr>) m1
                     | (Some c, m1) \<Rightarrow>
                         (case pkg_put (Some a) (Body_block (v\<lparr>vb_next := Some c\<rparr>)) m1 of
                            Inl g \<Rightarrow> Inl g
                          | Inr m2 \<Rightarrow> via_bodies buf e f c p m2)))
           | To_endofheader p x \<Rightarrow> via_endofheader buf f a b p x
           | To_endofpacket p x \<Rightarrow> via_endofpacket buf f a b p x
           | To_parse_error p x \<Rightarrow> via_error f a p (vv_vb x) (vv_mem x)
           | To_error p x \<Rightarrow> via_error f a p (vv_vb x) (vv_mem x)
           | To_main p x \<Rightarrow> Inl Aborted
           | To_fault g \<Rightarrow> Inl g))"
  by pat_completeness auto

termination via_bodies
  by (relation "measure (\<lambda>(buf, e, f, a, b, m). length buf - b)") (auto dest!: via_one_nextvia)

declare via_bodies.simps [simp del]

text \<open>\<open>vbody\<close> is the address of a zeroed block of the caller, \<open>b\<close> and \<open>e\<close> are \<open>buffer\<close> and \<open>end\<close>.\<close>

definition parse_via :: "string \<Rightarrow> nat \<Rightarrow> nat \<Rightarrow> nat \<Rightarrow> via_block pkg \<Rightarrow> via_res" where
  "parse_via buf b e vbody m = via_bodies buf e vbody vbody b m"

section \<open>Freeing\<close>

partial_function (option) free_via_param_list :: "nat option \<Rightarrow> via_block pkg \<Rightarrow> (fault + via_block pkg) option" where
  "free_via_param_list h m =
     (case h of
        None \<Rightarrow> Some (Inr m)
      | Some a \<Rightarrow>
          (case get_param h m of
             Inl f \<Rightarrow> Some (Inl f)
           | Inr v \<Rightarrow>
               (case pkg_free a m of
                  Inl f \<Rightarrow> Some (Inl f)
                | Inr m' \<Rightarrow> free_via_param_list (vp_next v) m')))"

partial_function (option) free_via_list :: "nat option \<Rightarrow> via_block pkg \<Rightarrow> (fault + via_block pkg) option" where
  "free_via_list h m =
     (case h of
        None \<Rightarrow> Some (Inr m)
      | Some a \<Rightarrow>
          (case get_body h m of
             Inl f \<Rightarrow> Some (Inl f)
           | Inr v \<Rightarrow>
               (case free_via_param_list (vb_param_lst v) m of
                  None \<Rightarrow> None
                | Some (Inl f) \<Rightarrow> Some (Inl f)
                | Some (Inr m1) \<Rightarrow>
                    (case pkg_free a m1 of
                       Inl f \<Rightarrow> Some (Inl f)
                     | Inr m2 \<Rightarrow> free_via_list (vb_next v) m2))))"

end
