(* ===== verification/Via_Props.thy ===== *)
theory Via_Props
  imports Via_Names Parse_Via
begin

text \<open>
  What \<open>parse_via_param\<close> computes: the type of a parameter by its name in a table, its name and
  its value.
\<close>

section \<open>One parameter\<close>

lemma via_type_state:
  "via_param_type t = (if name_state t \<in> set (alone_states @ valued_states) then name_state t else GEN_PARAM)"
proof -
  have split: "map_of via_names u = (case map_of (rfc_names @ collided_names) u of None \<Rightarrow> map_of inner_names u | Some s \<Rightarrow> Some s)" for u
    by (simp add: via_names_def map_add_def split: option.split)
  show ?thesis
  proof (cases "map_of (rfc_names @ collided_names) (map lower_char t)")
    case (Some ty)
    then have "(map lower_char t, ty) \<in> set rfc_names \<union> set collided_names" by (auto dest: map_of_SomeD)
    then have "ty \<in> set (alone_states @ valued_states)"
      by (auto simp: rfc_names_def collided_names_def)
    moreover have "name_state t = ty" "via_param_type t = ty"
      using Some by (simp_all only: name_state_def via_param_type_def split option.case)
    ultimately show ?thesis by simp
  next
    case None
    then have "name_state t = (case map_of inner_names (map lower_char t) of None \<Rightarrow> GEN_PARAM | Some s \<Rightarrow> s)"
      by (simp add: name_state_def via_names_def map_add_def split: option.splits)
    moreover have "list_all (\<lambda>(u, s). s \<notin> set (alone_states @ valued_states)) inner_names"
      by (simp add: inner_names_def)
    ultimately have "name_state t \<notin> set (alone_states @ valued_states)"
      by (auto simp: list_all_iff split: option.splits dest!: map_of_SomeD)
    moreover have "via_param_type t = GEN_PARAM" using None by (simp only: via_param_type_def option.case)
    ultimately show ?thesis by simp
  qed
qed

definition via_value_char :: "char \<Rightarrow> bool" where
  "via_value_char c \<longleftrightarrow> via_name_char c \<and> c \<noteq> CHR 0x00 \<and> c \<noteq> CHR 0x22"

lemma value_step_char:
  "p < length buf \<Longrightarrow> via_value_char (buf ! p) \<Longrightarrow> param_value_step buf p x = value_other p x"
  by (simp add: param_value_step_def Let_def via_value_char_def via_name_char_def)

text \<open>A value without quotes.\<close>

lemma scan_value:
  assumes "stands buf p v" "v \<noteq> []" "list_all via_value_char v" "pa_state x = F_VALUE"
  shows "scan (param_value_step buf) (Suc (length buf)) p x =
    scan (param_value_step buf) (Suc (length buf)) (p + length v) ((pa_value_at p x)\<lparr>pa_state := P_VALUE\<rparr>)"
proof -
  obtain c s where v: "v = c # s" using assms(2) by (cases v) auto
  let ?y = "(pa_value_at p x)\<lparr>pa_state := P_VALUE\<rparr>"
  have "param_value_step buf p x = Inr (p, ?y)"
    using assms by (simp add: v stands_Cons value_step_char value_other_def pa_on_def)
  then have "scan (param_value_step buf) (Suc (length buf)) p x = scan (param_value_step buf) (Suc (length buf)) (Suc p) ?y"
    using assms(1) v by (intro scan_on) (simp_all add: stands_Cons)
  also have "\<dots> = scan (param_value_step buf) (Suc (length buf)) (p + length v) ?y"
  proof (rule scan_same)
    fix i assume i: "Suc p \<le> i" "i < p + length v"
    then have "buf ! i \<in> set v" "i < length buf" using stands_mem [OF assms(1)] assms(1) by (auto simp: stands_def)
    with assms(3) have "param_value_step buf i ?y = value_other i ?y" by (intro value_step_char) (simp_all add: list_all_iff)
    then show "param_value_step buf i ?y = Inr (i, ?y)" by (simp add: value_other_def)
  qed (use assms(1) v in \<open>simp_all add: stands_def\<close>)
  finally show ?thesis .
qed

lemma name_value_char: "via_value_char c \<Longrightarrow> via_name_char c"
  by (simp add: via_value_char_def)

lemma param_eq_at:
  assumes "stands buf p (t @ ''='')" "t \<noteq> []" "list_all via_name_char t" "p + length t < e"
    and st: "pa_state x = F_PARAM"
  shows "scan (param_name_step buf) e p x =
    (if via_param_type t = PARAM_HIDDEN \<or> via_param_type t = PARAM_ALIAS
     then Inl (Param_error (p + length t) ((pa_name_at p x)\<lparr>pa_state := via_param_type t\<rparr>))
     else Inl (Find_value (p + length t) (x\<lparr>pa_state := F_VALUE, pa_param := (pa_param x)\<lparr>vp_type := via_param_type t,
       vp_name := span p (p + length t)\<rparr>\<rparr>)))"
proof -
  let ?q = "p + length t" let ?y = "(pa_name_at p x)\<lparr>pa_state := name_state t\<rparr>"
  have s: "stands buf p t" "?q < length buf" "buf ! ?q = CHR ''=''" using assms(1) by (simp_all add: stands_append stands_Cons)
  have scan: "scan (param_name_step buf) e p x = scan (param_name_step buf) e ?q ?y"
    using assms s by (intro scan_via_name) simp_all
  have "param_name_step buf ?q ?y = param_eq ?q ?y"
    using s by (simp add: param_name_step_def)
  moreover have "param_eq ?q ?y =
     (if via_param_type t = PARAM_HIDDEN \<or> via_param_type t = PARAM_ALIAS
      then Inl (Param_error ?q ((pa_name_at p x)\<lparr>pa_state := via_param_type t\<rparr>))
      else Inl (Find_value ?q (x\<lparr>pa_state := F_VALUE, pa_param := (pa_param x)\<lparr>vp_type := via_param_type t, vp_name := span p ?q\<rparr>\<rparr>)))"
    using name_state_ge [of t] via_type_state [of t]
    by (cases x) (auto simp: param_eq_def pa_named_def pa_name_at_def pa_then_def Let_def)
  ultimately show ?thesis unfolding scan using assms(4)
    by (cases "param_eq ?q ?y") (auto simp: scan_stop split: if_splits)
qed

text \<open>What may stand behind a value, and the states it leads to.\<close>

definition sep_states :: "char \<Rightarrow> nat \<Rightarrow> nat \<times> nat" where
  "sep_states c sv = (if c = CHR '';'' then (F_PARAM, sv) else if c = CHR '','' then (F_VIA, sv) else (F_CR, L_PARAM))"

lemma value_sep:
  assumes "r < length buf" "buf ! r \<in> {CHR '';'', CHR '','', CHR 0x0D}" "pa_state x = P_VALUE" "str_s (vp_value (pa_param x)) = Buf a"
  shows "param_value_step buf r x = Inl (Endofparam r (x\<lparr>pa_state := fst (sep_states (buf ! r) (pa_saved x)),
    pa_saved := snd (sep_states (buf ! r) (pa_saved x)), pa_param := (pa_param x)\<lparr>vp_value := span a r\<rparr>\<rparr>))"
  using assms
  by (cases x) (auto simp: param_value_step_def value_semicolon_def value_comma_def value_cr_def value_line_def pa_value_end_def
      pa_then_def pa_fold_def sep_states_def Let_def)

lemma param_with_value:
  assumes "stands buf p (t @ ''='' @ v @ [c])" "t \<noteq> []" "list_all via_name_char t" "p + length t < e"
    and "v \<noteq> []" "list_all via_value_char v" "c \<in> {CHR '';'', CHR '','', CHR 0x0D}" "vp_start prm = Buf s"
  shows "parse_via_param buf e p F_PARAM sv prm =
    (if via_param_type t = PARAM_HIDDEN \<or> via_param_type t = PARAM_ALIAS
     then Inr (p + length t, \<lparr>pa_state = PARAM_ERROR, pa_saved = via_param_type t,
       pa_param = prm\<lparr>vp_type := PARAM_ERROR, vp_name := Str (Buf p) (str_len (vp_name prm))\<rparr>\<rparr>)
     else Inr (p + length (t @ ''='' @ v), \<lparr>pa_state = fst (sep_states c sv), pa_saved = snd (sep_states c sv),
       pa_param = prm\<lparr>vp_type := via_param_type t, vp_name := span p (p + length t),
         vp_value := span (p + length t + 1) (p + length (t @ ''='' @ v)), vp_size := int (p + length (t @ ''='' @ v)) - int s\<rparr>\<rparr>))"
proof -
  let ?x = "\<lparr>pa_state = F_PARAM, pa_saved = sv, pa_param = prm\<lparr>vp_type := PARAM_ERROR\<rparr>\<rparr>"
  let ?q = "p + length t" let ?r = "?q + 1 + length v"
  have st: "stands buf p (t @ ''='')" "stands buf (?q + 1) v" "?r < length buf" "buf ! ?r = c"
    using assms(1) by (simp_all add: stands_append stands_Cons)
  have name: "scan (param_name_step buf) e p ?x =
    (if via_param_type t = PARAM_HIDDEN \<or> via_param_type t = PARAM_ALIAS
     then Inl (Param_error ?q ((pa_name_at p ?x)\<lparr>pa_state := via_param_type t\<rparr>))
     else Inl (Find_value ?q (?x\<lparr>pa_state := F_VALUE, pa_param := (pa_param ?x)\<lparr>vp_type := via_param_type t, vp_name := span p ?q\<rparr>\<rparr>)))"
    by (rule param_eq_at [OF st(1) assms(2-4)]) simp
  show ?thesis
  proof (cases "via_param_type t = PARAM_HIDDEN \<or> via_param_type t = PARAM_ALIAS")
    case True
    with name have "scan (param_name_step buf) e p ?x = Inl (Param_error ?q ((pa_name_at p ?x)\<lparr>pa_state := via_param_type t\<rparr>))"
      by (simp only: if_True)
    with True show ?thesis by (simp only: parse_via_param_def if_True) (simp add: param_error_def pa_name_at_def start_str_def)
  next
    case False
    let ?y = "?x\<lparr>pa_state := F_VALUE, pa_param := (pa_param ?x)\<lparr>vp_type := via_param_type t, vp_name := span p ?q\<rparr>\<rparr>"
    let ?z = "(pa_value_at (?q + 1) ?y)\<lparr>pa_state := P_VALUE\<rparr>"
    let ?w = "\<lparr>pa_state = fst (sep_states c sv), pa_saved = snd (sep_states c sv), pa_param = prm\<lparr>vp_type := via_param_type t,
      vp_name := span p ?q, vp_value := span (?q + 1) ?r\<rparr>\<rparr>"
    have v: "scan (param_value_step buf) (Suc (length buf)) (?q + 1) ?y = scan (param_value_step buf) (Suc (length buf)) ?r ?z"
      using scan_value [OF st(2) assms(5,6), of ?y] by simp
    have "param_value_step buf ?r ?z = Inl (Endofparam ?r ?w)"
      using value_sep [of ?r buf ?z "?q + 1"] st(3,4) assms(7) by (simp add: pa_value_at_def)
    then have "scan (param_value_step buf) (Suc (length buf)) ?r ?z = Inl (Endofparam ?r ?w)"
      using st(3) by (intro scan_stop) simp_all
    with v have "find_value buf ?q ?y = param_endofparam ?r ?w"
      unfolding find_value_def by simp
    with False name have "parse_via_param buf e p F_PARAM sv prm = param_endofparam ?r ?w"
      unfolding parse_via_param_def by (simp only: if_False) simp
    with False assms(8) show ?thesis
      by (simp add: param_endofparam_def pa_sized_def ptr_minus_def add.assoc)
  qed
qed

text \<open>
  C14: a parameter with a value. Its type is found by its name in a table, in any mix of cases: the
  eight names of RFC 3261 and of its extensions, and fourteen more, since the code gives four
  states of \<open>alias\<close> the numbers of the last states of \<open>hidden\<close>, \<open>ttl\<close>, \<open>branch\<close> and \<open>maddr\<close>. The
  types of \<open>hidden\<close> and \<open>alias\<close> are refused a value; all others get name, value and size.
\<close>

theorem parse_via_param_table:
  assumes "stands buf p (t @ ''='' @ v @ [c])" "t \<noteq> []" "list_all via_name_char t" "p + length t < e"
    and "v \<noteq> []" "list_all via_value_char v" "c = CHR '';'' \<or> c = CHR '',''" "vp_start prm = Buf s"
  shows "parse_via_param buf e p F_PARAM sv prm =
    (if via_param_type t = PARAM_HIDDEN \<or> via_param_type t = PARAM_ALIAS
     then Inr (p + length t, \<lparr>pa_state = PARAM_ERROR, pa_saved = via_param_type t,
       pa_param = prm\<lparr>vp_type := PARAM_ERROR, vp_name := Str (Buf p) (str_len (vp_name prm))\<rparr>\<rparr>)
     else Inr (p + length (t @ ''='' @ v), \<lparr>pa_state = (if c = CHR '';'' then F_PARAM else F_VIA), pa_saved = sv,
       pa_param = prm\<lparr>vp_type := via_param_type t, vp_name := Str (Buf p) (int (length t)),
         vp_value := Str (Buf (p + length t + 1)) (int (length v)), vp_size := int (p + length (t @ ''='' @ v)) - int s\<rparr>\<rparr>))"
  using param_with_value [OF assms(1-6) _ assms(8), of sv] assms(7) by (auto simp: sep_states_def span_def)

text \<open>The parameter \<open>ali=z\<close>, which the code takes for a branch.\<close>

theorem parse_via_param_table_witness:
  "parse_via_param ''ali=z;'' 6 0 F_PARAM 0 (new_via_param (Buf 0)) =
     Inr (5, \<lparr>pa_state = F_PARAM, pa_saved = 0, pa_param = (new_via_param (Buf 0))\<lparr>vp_type := PARAM_BRANCH,
       vp_name := Str (Buf 0) 3, vp_value := Str (Buf 4) 1, vp_size := 5\<rparr>\<rparr>)"
  using parse_via_param_table [of "''ali=z;''" 0 "''ali''" "''z''" "CHR '';''" 6 "new_via_param (Buf 0)" 0 0]
  by (simp add: stands_def via_name_char_def via_value_char_def via_param_type_def rfc_names_def collided_names_def
      new_via_param_def lower_char_def)

end
