(* ===== verification/Via_Lists.thy ===== *)
theory Via_Lists
  imports Parse_Via
begin

text \<open>
  The lists the Via parser builds in the package memory: the parameters of a body, and the bodies
  of a header.
\<close>

section \<open>Parameters\<close>

definition params_of :: "(nat \<Rightarrow> via_block option) \<Rightarrow> nat \<Rightarrow> via_param option" where
  "params_of b a = (case b a of Some (Param_block v) \<Rightarrow> Some v | _ \<Rightarrow> None)"

lemma params_of_simps [simp]:
  "params_of (b(a \<mapsto> Param_block v)) = (params_of b)(a \<mapsto> v)"
  "params_of (b(a \<mapsto> Body_block w)) = (params_of b)(a := None)"
  "params_of (b(a := None)) = (params_of b)(a := None)"
  by (auto simp: params_of_def fun_eq_iff)

lemma params_of_Some [simp]: "params_of b a = Some v \<longleftrightarrow> b a = Some (Param_block v)"
  by (auto simp: params_of_def split: option.splits via_block.splits)

lemma params_of_Param [simp]: "b a = Some (Param_block v) \<Longrightarrow> params_of b a = Some v"
  by simp

abbreviation param_list :: "(nat \<Rightarrow> via_block option) \<Rightarrow> nat option \<Rightarrow> nat list \<Rightarrow> bool" where
  "param_list b \<equiv> plist vp_next (params_of b)"

lemma param_list_cong: "(\<And>a. a \<in> set as \<Longrightarrow> b' a = b a) \<Longrightarrow> param_list b' h as = param_list b h as"
  by (rule plist_cong) (simp add: params_of_def)

lemma param_list_live: "param_list b h as \<Longrightarrow> a \<in> set as \<Longrightarrow> \<exists>v. b a = Some (Param_block v)"
  using plist_live [of vp_next "params_of b" h as a] by auto

text \<open>The list of the body that is being parsed.\<close>

definition list_of :: "via_vars \<Rightarrow> nat list \<Rightarrow> bool" where
  "list_of x as \<longleftrightarrow> param_list (pk_block (vv_mem x)) (vb_param_lst (vv_vb x)) as \<and>
     vb_last_param (vv_vb x) = (if as = [] then None else Some (last as))"

lemma list_of_frame:
  "list_of x as \<Longrightarrow> vb_param_lst (vv_vb y) = vb_param_lst (vv_vb x) \<Longrightarrow> vb_last_param (vv_vb y) = vb_last_param (vv_vb x) \<Longrightarrow>
   (\<And>a. a \<in> set as \<Longrightarrow> pk_block (vv_mem y) a = pk_block (vv_mem x) a) \<Longrightarrow> list_of y as"
  using param_list_cong [of as "pk_block (vv_mem y)" "pk_block (vv_mem x)"] by (simp add: list_of_def)

text \<open>What a parameter holds apart from its link.\<close>

definition view :: "via_block pkg \<Rightarrow> nat \<Rightarrow> via_param option" where
  "view m a = map_option (\<lambda>v. v\<lparr>vp_next := None\<rparr>) (params_of (pk_block m) a)"

text \<open>The body without its list.\<close>

definition unlisted :: "via_body \<Rightarrow> via_body" where
  "unlisted b = b\<lparr>vb_param_lst := None, vb_last_param := None\<rparr>"

lemma link_via_param_ok:
  assumes "list_of x as" "pk_block (vv_mem x) a = Some (Param_block v)" "vp_next v = None" "a \<notin> set as"
  obtains y where "link_via_param a x = Inr y" "list_of y (as @ [a])"
    "\<And>c. view (vv_mem y) c = view (vv_mem x) c" "\<And>c. c \<notin> set as \<Longrightarrow> pk_block (vv_mem y) c = pk_block (vv_mem x) c"
    "dom (pk_block (vv_mem y)) = dom (pk_block (vv_mem x))" "pk_answers (vv_mem y) = pk_answers (vv_mem x)"
    "unlisted (vv_vb y) = unlisted (vv_vb x)" "vv_state y = vv_state x" "vv_saved y = vv_saved x"
    "vv_param_start y = vv_param_start x" "vv_nest y = vv_nest x"
proof (cases as rule: rev_cases)
  case Nil
  let ?y = "on_body (\<lambda>b. b\<lparr>vb_param_lst := Some a, vb_last_param := Some a\<rparr>) x"
  have "link_via_param a x = Inr ?y" using assms(1) Nil by (simp add: link_via_param_def list_of_def on_body_def)
  then show ?thesis
    using assms Nil by (intro that [of ?y]) (simp_all add: list_of_def on_body_def unlisted_def)
next
  case (snoc bs l)
  from assms(1) have pl: "param_list (pk_block (vv_mem x)) (vb_param_lst (vv_vb x)) (bs @ [l])" and last: "vb_last_param (vv_vb x) = Some l"
    by (simp_all add: list_of_def snoc)
  from plist_snoc_block [OF pl] obtain u where u: "pk_block (vv_mem x) l = Some (Param_block u)" "vp_next u = None" by auto
  let ?m = "(vv_mem x)\<lparr>pk_block := (pk_block (vv_mem x))(l \<mapsto> Param_block (u\<lparr>vp_next := Some a\<rparr>))\<rparr>"
  let ?y = "on_body (\<lambda>b. b\<lparr>vb_last_param := Some a\<rparr>) (x\<lparr>vv_mem := ?m\<rparr>)"
  have l: "l \<noteq> a" using assms(4) snoc by auto
  have link: "link_via_param a x = Inr ?y" using u last by (simp add: link_via_param_def get_param_def)
  have "plist vp_next ((params_of (pk_block (vv_mem x)))(a \<mapsto> v, l \<mapsto> u\<lparr>vp_next := Some a\<rparr>)) (vb_param_lst (vv_vb x)) (bs @ [l, a])"
  proof -
    have "params_of (pk_block (vv_mem x)) = (params_of (pk_block (vv_mem x)))(a \<mapsto> v)" using assms(2) by (auto simp: fun_eq_iff)
    have "plist vp_next ((params_of (pk_block (vv_mem x)))(a := None)) (vb_param_lst (vv_vb x)) (bs @ [l])"
      using pl assms(4) snoc by (subst plist_cong [where b = "params_of (pk_block (vv_mem x))"]) auto
    from plist_append [OF this, of u a v "u\<lparr>vp_next := Some a\<rparr>"] u assms(3,4) l snoc show ?thesis by simp
  qed
  moreover have "(params_of (pk_block (vv_mem x)))(a \<mapsto> v, l \<mapsto> u\<lparr>vp_next := Some a\<rparr>) = params_of (pk_block ?m)"
    using assms(2) l by (auto simp: fun_eq_iff params_of_def)
  ultimately have "list_of ?y (as @ [a])" by (simp add: list_of_def snoc on_body_def)
  moreover have "view ?m c = view (vv_mem x) c" for c using u by (auto simp: view_def)
  ultimately show ?thesis
    using u snoc by (intro that [OF link]) (auto simp: on_body_def unlisted_def)
qed

end
