(* ===== verification/Via_Safe.thy ===== *)
theory Via_Safe
  imports Via_Names Via_Lists
begin

text \<open>
  Memory safety of the Via parser: invariants of its loops, state by state. A subtraction of a null
  pointer is the only fault it can run into, and only at a bracket.
\<close>

section \<open>The loops over a parameter\<close>

abbreviation is_Buf :: "ptr \<Rightarrow> bool" where "is_Buf q \<equiv> \<exists>a. q = Buf a"

text \<open>What the parameter keeps: its start and its link.\<close>

definition same_param :: "via_param \<Rightarrow> pvars \<Rightarrow> bool" where
  "same_param v y \<longleftrightarrow> vp_start (pa_param y) = vp_start v \<and> vp_next (pa_param y) = vp_next v"

text \<open>Behind the first letter of the name, and in the value.\<close>

definition in_name :: "pvars \<Rightarrow> bool" where
  "in_name x \<longleftrightarrow> is_Buf (str_s (vp_name (pa_param x))) \<and> pa_state x \<noteq> F_PARAM \<and> pa_state x \<notin> set line_states"

definition in_value :: "pvars \<Rightarrow> bool" where
  "in_value x \<longleftrightarrow>
     (let st = (if pa_state x \<in> set line_states then pa_saved x else pa_state x)
      in st = L_VALUE \<or> st = F_VALUE \<or> (st = P_STRING \<or> st = P_VALUE \<and> pa_state x = P_VALUE) \<and> is_Buf (str_s (vp_value (pa_param x))))"

text \<open>The states in which the parameter is over.\<close>

definition param_done :: "pvars \<Rightarrow> bool" where
  "param_done x \<longleftrightarrow> pa_state x \<in> {L_PARAM, F_PARAM, F_VIA} \<or> pa_state x \<in> {F_LF, F_CR} \<and> pa_saved x = L_PARAM"

fun param_jump_ok :: "via_param \<Rightarrow> nat \<Rightarrow> param_jump \<Rightarrow> bool" where
  "param_jump_ok v p (Find_value q y) \<longleftrightarrow> q = p \<and> in_value y \<and> same_param v y"
| "param_jump_ok v p (Endofparam q y) \<longleftrightarrow> q = p \<and> param_done y \<and> same_param v y"
| "param_jump_ok v p (End_via q y) \<longleftrightarrow> q = p \<and> pa_state y = END_OF_HEADER \<and> same_param v y"
| "param_jump_ok v p (Param_error q y) \<longleftrightarrow> q = p \<and> same_param v y"
| "param_jump_ok v p (Param_fault f) \<longleftrightarrow> False"

definition param_act_ok :: "(pvars \<Rightarrow> bool) \<Rightarrow> via_param \<Rightarrow> nat \<Rightarrow> param_act \<Rightarrow> bool" where
  "param_act_ok ok v p r \<longleftrightarrow> (case r of Inl j \<Rightarrow> param_jump_ok v p j | Inr (q, y) \<Rightarrow> q = p \<and> ok y \<and> same_param v y)"

lemmas param_ops = pa_on_def pa_fold_def pa_named_def pa_name_at_def pa_sized_def pa_value_at_def pa_value_end_def
  pa_end_via_def pa_then_def ptr_minus_def

lemmas param_invs = in_name_def in_value_def param_done_def same_param_def param_act_ok_def

lemma rule_range: "(case map_of (snd (letter_rule c)) st of None \<Rightarrow> GEN_PARAM | Some s \<Rightarrow> s) \<ge> 204"
  "fst (letter_rule c) \<ge> 204"
proof -
  have l: "list_all (\<lambda>(d, f, on). 204 \<le> f \<and> list_all (\<lambda>(a, b). 204 \<le> b) on) letter_rules"
    by (simp add: letter_rules_def)
  then show "fst (letter_rule c) \<ge> 204"
    by (fastforce simp: letter_rule_def list_all_iff dest!: map_of_SomeD split: option.splits)
  from l show "(case map_of (snd (letter_rule c)) st of None \<Rightarrow> GEN_PARAM | Some s \<Rightarrow> s) \<ge> 204"
    by (fastforce simp: letter_rule_def list_all_iff dest!: map_of_SomeD split: option.splits)
qed

lemma param_letter_ok:
  assumes "in_name x" "same_param v x"
  shows "param_act_ok in_name v p (param_letter (fst (letter_rule c)) (snd (letter_rule c)) p x)"
  using assms rule_range(1) [of c "pa_state x"]
  by (auto simp: param_letter_def param_invs Let_def pa_on_def)

lemma param_letter_first:
  assumes "pa_state x = F_PARAM" "same_param v x"
  shows "param_act_ok in_name v p (param_letter (fst (letter_rule c)) (snd (letter_rule c)) p x)"
  using assms rule_range(2) [of c] by (auto simp: param_letter_def param_invs Let_def pa_on_def pa_name_at_def)

lemma param_name_ok:
  assumes "in_name x" "same_param v x" "vp_start v = Buf s" "p < length buf"
  shows "param_act_ok in_name v p (param_name_step buf p x)"
proof -
  obtain a where a: "str_s (vp_name (pa_param x)) = Buf a" using assms(1) by (auto simp: in_name_def)
  note facts = assms(1-3) a
  have "param_act_ok in_name v p (param_space p x)" "param_act_ok in_name v p (param_lf p x)" "param_act_ok in_name v p (param_cr p x)"
    "param_act_ok in_name v p (param_eq p x)" "param_act_ok in_name v p (param_semicolon p x)" "param_act_ok in_name v p (param_comma p x)"
    using facts
    by (auto simp: param_space_def param_lf_def param_cr_def param_line_def param_eq_def param_semicolon_def param_comma_def
        param_sep_def param_invs param_ops Let_def)
  with param_letter_ok [OF assms(1,2)] assms(4) show ?thesis
    by (auto simp: param_name_step_def param_switch_rule Let_def)
qed

lemma in_value_cases:
  assumes "in_value x"
  obtains "pa_state x = L_VALUE" | "pa_state x = F_VALUE" | a where "pa_state x = P_VALUE" "str_s (vp_value (pa_param x)) = Buf a"
    | a where "pa_state x = P_STRING" "str_s (vp_value (pa_param x)) = Buf a"
    | "pa_state x \<in> set line_states"
  using assms by (auto simp: in_value_def Let_def split: if_splits)

lemma param_value_ok:
  assumes "in_value x" "same_param v x" "vp_start v = Buf s" "p < length buf"
  shows "param_act_ok in_value v p (param_value_step buf p x)"
proof -
  note defs = value_space_def value_lf_def value_cr_def value_line_def value_eq_def value_semicolon_def value_comma_def
        value_quote_def value_other_def no_param_value_def param_invs param_ops Let_def
  have "param_act_ok in_value v p (value_space p x)" "param_act_ok in_value v p (value_lf p x)" "param_act_ok in_value v p (value_cr p x)"
    "param_act_ok in_value v p (value_eq p x)" "param_act_ok in_value v p (value_semicolon p x)" "param_act_ok in_value v p (value_comma p x)"
    "param_act_ok in_value v p (value_quote p x)" "param_act_ok in_value v p (value_other p x)"
    using assms(1)
    by (cases rule: in_value_cases, use assms(1-3) in \<open>auto simp: defs\<close>)+
  with assms show ?thesis
    by (simp add: param_value_step_def Let_def param_act_ok_def same_param_def pa_fold_def)
qed

lemma value_no_find: "param_value_step buf p x \<noteq> Inl (Find_value q y)"
  by (auto simp: param_value_step_def value_space_def value_lf_def value_cr_def value_line_def value_eq_def value_semicolon_def
      value_comma_def value_quote_def value_other_def no_param_value_def param_ops Let_def split: sum.splits)

text \<open>The result of \<open>parse_via_param\<close>, of a parameter \<open>v\<close> at \<open>p\<close>.\<close>

definition param_result :: "via_param \<Rightarrow> nat \<Rightarrow> nat \<Rightarrow> param_res \<Rightarrow> bool" where
  "param_result v p e r \<longleftrightarrow> (\<exists>q y. r = Inr (q, y) \<and> p \<le> q \<and> q \<le> e \<and> same_param v y \<and>
     (pa_state y = PARAM_ERROR \<or> pa_state y = END_OF_HEADER \<and> pa_saved y = L_PARAM \<or> q < e \<and> param_done y))"

lemma param_result_error: "same_param v x \<Longrightarrow> p \<le> q \<Longrightarrow> q \<le> e \<Longrightarrow> param_result v p e (param_error q x)"
  by (simp add: param_result_def param_error_def same_param_def)

lemma param_result_end_via:
  "same_param v x \<Longrightarrow> p \<le> q \<Longrightarrow> q \<le> e \<Longrightarrow> pa_state x = END_OF_HEADER \<Longrightarrow> param_result v p e (param_end_via q x)"
  using param_result_error [of v x p q e] by (auto simp: param_result_def param_end_via_def same_param_def)

lemma param_result_end:
  "same_param v x \<Longrightarrow> vp_start v = Buf s \<Longrightarrow> p \<le> q \<Longrightarrow> q < e \<Longrightarrow> param_done x \<Longrightarrow> param_result v p e (param_endofparam q x)"
  by (auto simp: param_result_def param_endofparam_def pa_sized_def ptr_minus_def same_param_def param_done_def)

text \<open>The text ends in a zero byte, as the loops need it.\<close>

definition zero_at :: "string \<Rightarrow> nat \<Rightarrow> bool" where
  "zero_at buf e \<longleftrightarrow> e < length buf \<and> buf ! e = CHR 0x00"

interpretation value_scan: scanning "param_value_step buf"
  "\<lambda>p x. zero_at buf e \<and> b \<le> p \<and> p \<le> e \<and> in_value x \<and> same_param v x \<and> vp_start v = Buf s"
  "\<lambda>r. (\<forall>q y. r \<noteq> Find_value q y) \<and> (\<exists>i. b \<le> i \<and> (i < e \<and> param_jump_ok v i r \<or> i = e \<and> (\<exists>y. r = Param_error e y \<and> same_param v y)))"
  "Suc (length buf)"
proof
  fix p x r assume h: "zero_at buf e \<and> b \<le> p \<and> p \<le> e \<and> in_value x \<and> same_param v x \<and> vp_start v = Buf s"
    "param_value_step buf p x = Inl r"
  then have "\<forall>q y. r \<noteq> Find_value q y" using value_no_find by metis
  moreover have "\<exists>i. b \<le> i \<and> (i < e \<and> param_jump_ok v i r \<or> i = e \<and> (\<exists>y. r = Param_error e y \<and> same_param v y))"
  proof (cases "p = e")
    case True
    with h show ?thesis by (auto simp: zero_at_def param_value_step_def pa_fold_def same_param_def)
  next
    case False
    with h param_value_ok [of x v s p buf] show ?thesis by (auto simp: zero_at_def param_act_ok_def)
  qed
  ultimately show "(\<forall>q y. r \<noteq> Find_value q y) \<and> (\<exists>i. b \<le> i \<and> (i < e \<and> param_jump_ok v i r \<or> i = e \<and> (\<exists>y. r = Param_error e y \<and> same_param v y)))" ..
next
  fix p x q y assume h: "zero_at buf e \<and> b \<le> p \<and> p \<le> e \<and> in_value x \<and> same_param v x \<and> vp_start v = Buf s"
    "param_value_step buf p x = Inr (q, y)"
  then have "p \<noteq> e" by (auto simp: zero_at_def param_value_step_def)
  with h param_value_ok [of x v s p buf]
  show "p \<le> q \<and> q \<le> Suc (length buf) \<and> zero_at buf e \<and> b \<le> Suc q \<and> Suc q \<le> e \<and> in_value y \<and> same_param v y \<and> vp_start v = Buf s"
    by (auto simp: zero_at_def param_act_ok_def)
qed

interpretation name_scan: scanning "param_name_step buf"
  "\<lambda>p x. zero_at buf e \<and> b \<le> p \<and> p \<le> e \<and> in_name x \<and> same_param v x \<and> vp_start v = Buf s"
  "\<lambda>r. \<exists>i. b \<le> i \<and> i < e \<and> param_jump_ok v i r" "e"
proof
  fix p x r assume "p < e" "zero_at buf e \<and> b \<le> p \<and> p \<le> e \<and> in_name x \<and> same_param v x \<and> vp_start v = Buf s"
    "param_name_step buf p x = Inl r"
  with param_name_ok [of x v s p buf] show "\<exists>i. b \<le> i \<and> i < e \<and> param_jump_ok v i r"
    by (auto simp: zero_at_def param_act_ok_def)
next
  fix p x q y assume "p < e" "zero_at buf e \<and> b \<le> p \<and> p \<le> e \<and> in_name x \<and> same_param v x \<and> vp_start v = Buf s"
    "param_name_step buf p x = Inr (q, y)"
  with param_name_ok [of x v s p buf]
  show "p \<le> q \<and> q \<le> e \<and> zero_at buf e \<and> b \<le> Suc q \<and> Suc q \<le> e \<and> in_name y \<and> same_param v y \<and> vp_start v = Buf s"
    by (auto simp: zero_at_def param_act_ok_def)
qed

lemma find_value_ok:
  assumes "zero_at buf e" "in_value x" "same_param v x" "vp_start v = Buf s" "b \<le> p" "p < e"
  shows "param_result v b e (find_value buf p x)"
proof -
  have st: "zero_at buf e \<and> b \<le> p + 1 \<and> p + 1 \<le> e \<and> in_value x \<and> same_param v x \<and> vp_start v = Buf s" using assms by simp
  have le: "p + 1 \<le> Suc (Suc (length buf))" using assms(1,6) by (simp add: zero_at_def)
  show ?thesis
  proof (cases "scan (param_value_step buf) (Suc (length buf)) (p + 1) x")
    case (Inl r)
    from value_scan.scan_good [OF st le Inl] assms(4) show ?thesis unfolding find_value_def Inl
      by (cases r) (auto intro: param_result_end param_result_end_via param_result_error)
  next
    case (Inr z)
    obtain q y where "z = (q, y)" by (cases z)
    with value_scan.scan_inv [OF st le, of q y] Inr have False by (auto simp: zero_at_def)
    then show ?thesis ..
  qed
qed

lemma parse_via_param_ok:
  assumes nul: "zero_at buf e" and p: "p < e" "via_name_char (buf ! p) \<or> buf ! p = CHR ''=''" and v: "vp_start v = Buf s"
  shows "param_result v p e (parse_via_param buf e p F_PARAM sv v)"
proof -
  let ?x = "\<lparr>pa_state = F_PARAM, pa_saved = sv, pa_param = v\<lparr>vp_type := PARAM_ERROR\<rparr>\<rparr>"
  have len: "p < length buf" using nul p by (simp add: zero_at_def)
  have x: "same_param v ?x" by (simp add: same_param_def)
  show ?thesis
  proof (cases "buf ! p = CHR ''=''")
    case True
    then have "param_name_step buf p ?x = Inl (Param_error p ?x)"
      using len by (simp add: param_name_step_def param_eq_def)
    with p param_result_error [OF x] show ?thesis by (simp add: parse_via_param_def scan_stop)
  next
    case False
    with p len have "param_name_step buf p ?x = param_letter (fst (letter_rule (buf ! p))) (snd (letter_rule (buf ! p))) p ?x"
      by (intro param_name_step_letter) auto
    also have "\<dots> = Inr (p, (pa_name_at p ?x)\<lparr>pa_state := fst (letter_rule (buf ! p))\<rparr>)"
      by (simp add: param_letter_def pa_on_def)
    finally have first: "param_name_step buf p ?x = Inr (p, (pa_name_at p ?x)\<lparr>pa_state := fst (letter_rule (buf ! p))\<rparr>)" .
    let ?y = "(pa_name_at p ?x)\<lparr>pa_state := fst (letter_rule (buf ! p))\<rparr>"
    have y: "zero_at buf e \<and> p \<le> Suc p \<and> Suc p \<le> e \<and> in_name ?y \<and> same_param v ?y \<and> vp_start v = Buf s"
      using nul p v rule_range(2) [of "buf ! p"] by (auto simp: in_name_def same_param_def pa_name_at_def)
    have le: "Suc p \<le> Suc e" using p by simp
    have scan: "scan (param_name_step buf) e p ?x = scan (param_name_step buf) e (Suc p) ?y"
      by (rule scan_on [where body = "param_name_step buf"]) (use p(1) first in simp_all)
    show ?thesis
    proof (cases "scan (param_name_step buf) e (Suc p) ?y")
      case (Inl r)
      from name_scan.scan_good [OF y le Inl] v nul show ?thesis unfolding parse_via_param_def scan Inl
        by (cases r) (auto intro: param_result_end param_result_end_via param_result_error find_value_ok)
    next
      case (Inr z)
      obtain q w where z: "z = (q, w)" by (cases z)
      with name_scan.scan_inv [OF y le, of q w] Inr have "same_param v w" "p \<le> q" "q \<le> e" by auto
      then show ?thesis unfolding parse_via_param_def scan Inr z
        by (simp add: param_result_error pa_fold_def same_param_def)
    qed
  qed
qed



end
