(* ===== verification/Via_Loop.thy ===== *)
theory Via_Loop
  imports Via_Safe
begin

text \<open>
  The main loop of the Via parser, character by character: which pointers are set in which state,
  and what each \<open>case\<close> leaves alone. The only fault is the subtraction of a null pointer at a bracket.
\<close>

section \<open>What the states say about the pointers\<close>

text \<open>The port, null or in front of \<open>p\<close>.\<close>

definition port_fit :: "nat \<Rightarrow> cstr \<Rightarrow> bool" where
  "port_fit p w \<longleftrightarrow> w = null_str \<or> (\<exists>a l. w = Str (Buf a) (int l) \<and> a + l \<le> p)"

definition early_states :: "nat list" where
  [simp]: "early_states = [F_HOST, P_HOST, L_PORT, F_PORT, F_IP6HOST, P_IP6HOST]"

definition st_ok :: "nat \<Rightarrow> nat \<Rightarrow> ptr \<Rightarrow> via_body \<Rightarrow> bool" where
  "st_ok p st q b \<longleftrightarrow>
     (st = P_HOST \<longrightarrow> is_Buf (str_s (vb_host b))) \<and> (st = P_PORT \<longrightarrow> (\<exists>a\<le>p. vb_port_str b = Str (Buf a) 0)) \<and>
     (st \<in> set early_states \<longrightarrow> vb_port_str b = null_str) \<and> (st = F_PARAM \<longrightarrow> is_Buf q)"

definition body_ok :: "nat \<Rightarrow> via_body \<Rightarrow> bool" where
  "body_ok p b \<longleftrightarrow> (str_s (vb_params b) = NullP \<or> is_Buf (str_s (vb_params b))) \<and> port_fit p (vb_port_str b)"

definition cur :: "via_vars \<Rightarrow> nat" where
  "cur x = (if vv_state x \<in> set line_states then vv_saved x else vv_state x)"

definition text_inv :: "nat \<Rightarrow> via_vars \<Rightarrow> bool" where
  "text_inv p x \<longleftrightarrow> cur x \<notin> set line_states \<and> st_ok p (cur x) (vv_param_start x) (vv_vb x) \<and> body_ok p (vv_vb x)"

text \<open>What concerns other blocks of memory.\<close>

definition same_lists :: "via_vars \<Rightarrow> via_vars \<Rightarrow> bool" where
  "same_lists x y \<longleftrightarrow> vv_mem y = vv_mem x \<and> vb_param_lst (vv_vb y) = vb_param_lst (vv_vb x) \<and>
     vb_last_param (vv_vb y) = vb_last_param (vv_vb x) \<and> vb_next (vv_vb y) = vb_next (vv_vb x)"

definition brackets :: "char set" where
  "brackets = {CHR ''('', CHR '')'', CHR '']''}"

fun char_jump_ok :: "char \<Rightarrow> nat \<Rightarrow> via_vars \<Rightarrow> via_jump \<Rightarrow> bool" where
  "char_jump_ok c p x (To_fault g) \<longleftrightarrow> g = Null_minus \<and> c \<in> brackets"
| "char_jump_ok c p x (To_main q y) \<longleftrightarrow> False"
| "char_jump_ok c p x (To_endofheader q y) \<longleftrightarrow> q = p \<and> same_lists x y \<and> port_fit p (vb_port_str (vv_vb y))"
| "char_jump_ok c p x (To_endofpacket q y) \<longleftrightarrow> q = p \<and> same_lists x y \<and> port_fit p (vb_port_str (vv_vb y))"
| "char_jump_ok c p x (To_nextvia q y) \<longleftrightarrow> q = p \<and> same_lists x y \<and> port_fit p (vb_port_str (vv_vb y))"
| "char_jump_ok c p x (To_parse_error q y) \<longleftrightarrow> q = p \<and> same_lists x y"
| "char_jump_ok c p x (To_error q y) \<longleftrightarrow> q = p \<and> same_lists x y"

definition char_act_ok :: "char \<Rightarrow> nat \<Rightarrow> via_vars \<Rightarrow> via_act \<Rightarrow> bool" where
  "char_act_ok c p x r \<longleftrightarrow>
     (case r of Inl j \<Rightarrow> char_jump_ok c p x j | Inr (q, y) \<Rightarrow> q = p \<and> same_lists x y \<and> text_inv (Suc p) y)"

lemma port_fit_simps [simp]: "port_fit p null_str" "port_fit p (Str (Buf a) 0) \<longleftrightarrow> a \<le> p"
  by (simp_all add: port_fit_def null_str_def)

lemma port_fit_Suc: "port_fit p w \<Longrightarrow> port_fit (Suc p) w"
  by (auto simp: port_fit_def)

lemma port_fit_span: "a \<le> p \<Longrightarrow> port_fit p (span a p)"
  by (auto simp: port_fit_def span_def intro!: exI [of _ "p - a"])

lemma body_ok_Suc: "body_ok p b \<Longrightarrow> body_ok (Suc p) b"
  by (auto simp: body_ok_def port_fit_Suc)

lemma st_ok_Suc: "st_ok p st q b \<Longrightarrow> st_ok (Suc p) st q b"
  unfolding st_ok_def by (blast intro: le_SucI)

lemma text_inv_Suc: "text_inv p x \<Longrightarrow> text_inv (Suc p) x"
  by (simp only: text_inv_def body_ok_Suc st_ok_Suc not_False_eq_True)

lemma same_lists_refl [simp]: "same_lists x x"
  by (simp add: same_lists_def)

lemma same_lists_trans: "same_lists x y \<Longrightarrow> same_lists y z \<Longrightarrow> same_lists x z"
  by (simp add: same_lists_def)

lemma same_lists_on_body:
  "(\<And>b. vb_param_lst (f b) = vb_param_lst b \<and> vb_last_param (f b) = vb_last_param b \<and> vb_next (f b) = vb_next b) \<Longrightarrow>
   same_lists x (on_body f x)"
  by (simp add: same_lists_def on_body_def)

lemma text_inv_body: "text_inv p x \<Longrightarrow> body_ok p (vv_vb x)"
  by (simp only: text_inv_def)

lemma text_inv_state: "text_inv p x \<Longrightarrow> vv_state x = st \<Longrightarrow> st \<notin> set line_states \<Longrightarrow> st_ok p st (vv_param_start x) (vv_vb x)"
  by (simp only: text_inv_def cur_def if_False)

lemma text_inv_cases:
  assumes "text_inv p x"
  shows "vv_state x = P_HOST \<Longrightarrow> \<exists>a. str_s (vb_host (vv_vb x)) = Buf a"
    "vv_state x = P_PORT \<Longrightarrow> \<exists>a\<le>p. vb_port_str (vv_vb x) = Str (Buf a) 0"
    "vv_state x \<in> set early_states \<Longrightarrow> vb_port_str (vv_vb x) = null_str"
    "vv_state x = F_PARAM \<Longrightarrow> is_Buf (vv_param_start x)"
  using text_inv_state [OF assms refl] by (auto simp: st_ok_def)

section \<open>The rules of the loop\<close>

text \<open>A state reached by \<open>state = st\<close>, or by \<open>saved_state = st\<close> at the end of a line.\<close>

lemma ok_trans:
  assumes "same_lists x y" "char_act_ok c p y r"
  shows "char_act_ok c p x r"
proof (cases r)
  case (Inl j)
  with assms show ?thesis by (cases j) (auto simp: char_act_ok_def intro: same_lists_trans)
next
  case (Inr z)
  with assms show ?thesis by (cases z) (auto simp: char_act_ok_def intro: same_lists_trans)
qed

lemma ok_on:
  assumes "st \<notin> set line_states" "st_ok (Suc p) st (vv_param_start x) (vv_vb x)" "body_ok p (vv_vb x)"
  shows "char_act_ok c p x (via_on st p x)"
  using assms by (simp add: char_act_ok_def via_on_def same_lists_def text_inv_def cur_def body_ok_Suc)

lemma ok_fold:
  assumes "st \<notin> set line_states" "ls \<in> set line_states" "st_ok (Suc p) st (vv_param_start x) (vv_vb x)" "body_ok p (vv_vb x)"
  shows "char_act_ok c p x (via_fold st ls p x)"
  using assms by (simp add: char_act_ok_def via_fold_def same_lists_def text_inv_def cur_def body_ok_Suc)

lemma ok_if:
  "(A \<Longrightarrow> char_act_ok c p x r) \<Longrightarrow> (\<not> A \<Longrightarrow> char_act_ok c p x s) \<Longrightarrow> char_act_ok c p x (if A then r else s)"
  by simp

lemma ok_stop:
  "char_act_ok c p x (Inl (To_parse_error p x))"
  "text_inv p x \<Longrightarrow> char_act_ok c p x (Inl (To_endofheader p x))"
  "text_inv p x \<Longrightarrow> char_act_ok c p x (Inl (To_endofpacket p x))"
  "text_inv p x \<Longrightarrow> char_act_ok c p x (Inl (To_nextvia p x))"
  "text_inv p x \<Longrightarrow> char_act_ok c p x (via_over p x)"
  by (simp_all add: char_act_ok_def via_over_def same_lists_def text_inv_def body_ok_def)

lemma ok_stay: "text_inv p x \<Longrightarrow> char_act_ok c p x (Inr (p, x))"
  by (simp add: char_act_ok_def text_inv_Suc)

lemma text_inv_nest: "text_inv p (x\<lparr>vv_nest := n\<rparr>) = text_inv p x"
  by (simp add: text_inv_def cur_def)

lemma ok_nest: "text_inv p x \<Longrightarrow> char_act_ok c p x (Inr (p, x\<lparr>vv_nest := n\<rparr>))"
  using text_inv_Suc [of p x] by (simp add: char_act_ok_def same_lists_def text_inv_nest)

lemma ok_resume:
  assumes "text_inv p x" "vv_state x \<in> set line_states"
  shows "char_act_ok c p x (via_on (vv_saved x) p x)"
proof (rule ok_on)
  have c: "cur x = vv_saved x" using assms(2) unfolding cur_def by (rule if_P)
  show "vv_saved x \<notin> set line_states" "st_ok (Suc p) (vv_saved x) (vv_param_start x) (vv_vb x)" "body_ok p (vv_vb x)"
    using assms(1) unfolding text_inv_def c by (blast intro: st_ok_Suc)+
qed

lemma ok_crlf:
  assumes "text_inv p x" "vv_state x = F_CR"
  shows "char_act_ok c p x (via_on F_CRLF p x)"
proof -
  have "cur (x\<lparr>vv_state := F_CRLF\<rparr>) = cur x" using assms(2) by (simp add: cur_def)
  with text_inv_Suc [OF assms(1)] have "text_inv (Suc p) (x\<lparr>vv_state := F_CRLF\<rparr>)"
    unfolding text_inv_def by simp
  then show ?thesis by (simp add: char_act_ok_def via_on_def same_lists_def)
qed

lemma ok_same:
  assumes "text_inv p x" "vv_state x \<notin> set line_states" "ls \<in> set line_states"
  shows "char_act_ok c p x (via_fold (vv_state x) ls p x)"
  using assms by (intro ok_fold st_ok_Suc) (rule text_inv_state text_inv_body refl | assumption)+

lemma ok_host_end:
  assumes x: "text_inv p x" "vv_state x = P_HOST"
    and k: "\<And>y. vb_port_str (vv_vb y) = null_str \<Longrightarrow> body_ok p (vv_vb y) \<Longrightarrow> char_act_ok c p y (k y)"
  shows "char_act_ok c p x (via_then (via_host_end q x) k)"
proof -
  from text_inv_cases(1) [OF x] obtain a where a: "str_s (vb_host (vv_vb x)) = Buf a" by blast
  let ?y = "on_body (\<lambda>b. b\<lparr>vb_host := span a q\<rparr>) x"
  have "same_lists x ?y" by (rule same_lists_on_body) simp
  moreover have "char_act_ok c p ?y (k ?y)"
    using text_inv_cases(3) [OF x(1)] x(2) text_inv_body [OF x(1)] by (intro k) (simp_all add: on_body_def body_ok_def)
  ultimately have "char_act_ok c p x (k ?y)" by (rule ok_trans)
  with a show ?thesis by (simp add: via_then_def via_host_end_def)
qed

lemma ok_port_end:
  assumes x: "text_inv p x" "vv_state x = P_PORT"
    and k: "\<And>y. body_ok p (vv_vb y) \<Longrightarrow> char_act_ok c p y (k y)"
  shows "char_act_ok c p x (via_then (via_port_end p x) k)"
proof -
  from text_inv_cases(2) [OF x] obtain a where a: "a \<le> p" "vb_port_str (vv_vb x) = Str (Buf a) 0" by blast
  let ?y = "on_body (\<lambda>b. b\<lparr>vb_port_str := span a p\<rparr>) x"
  have "same_lists x ?y" by (rule same_lists_on_body) simp
  moreover have "char_act_ok c p ?y (k ?y)"
    using a text_inv_body [OF x(1)] by (intro k) (simp_all add: on_body_def body_ok_def port_fit_span)
  ultimately have "char_act_ok c p x (k ?y)" by (rule ok_trans)
  with a show ?thesis by (simp add: via_then_def via_port_end_def)
qed

text \<open>States that ask nothing of the pointers, or only that there is no port yet.\<close>

lemma st_ok_plain:
  "st \<in> set [L_PARAM, P_PARAM, L_VIA, F_VIA, F_COMMENT, P_COMMENT] \<Longrightarrow> st_ok p st q b"
  by (auto simp: st_ok_def)

lemma st_ok_early:
  "st \<in> set [F_HOST, L_PORT, F_PORT, F_IP6HOST, P_IP6HOST] \<Longrightarrow> vb_port_str b = null_str \<Longrightarrow> st_ok p st q b"
  by (auto simp: st_ok_def)

lemma ok_param_follows: "body_ok p (vv_vb x) \<Longrightarrow> char_act_ok c p x (param_follows p x)"
  using ok_trans [of x "x\<lparr>vv_param_start := Buf (p + 1)\<rparr>" c p] ok_on [of F_PARAM p "x\<lparr>vv_param_start := Buf (p + 1)\<rparr>" c]
  by (simp add: param_follows_def same_lists_def st_ok_def)

lemma ok_comment_opens: "body_ok p (vv_vb x) \<Longrightarrow> char_act_ok c p x (comment_opens p x)"
  using ok_trans [of x "x\<lparr>vv_nest := vv_nest x + 1\<rparr>" c p] ok_on [of F_COMMENT p "x\<lparr>vv_nest := vv_nest x + 1\<rparr>" c]
  by (simp add: comment_opens_def same_lists_def st_ok_plain)

lemma ok_in_comment:
  assumes "text_inv p x"
  shows "char_act_ok c p x (in_comment p x)"
proof (cases "vv_state x = F_COMMENT")
  case True
  have "same_lists x (via_comment_at p x)" unfolding via_comment_at_def by (rule same_lists_on_body) simp
  moreover have "char_act_ok c p (via_comment_at p x) (via_on P_COMMENT p (via_comment_at p x))"
    using text_inv_body [OF assms] by (intro ok_on st_ok_plain) (simp_all add: via_comment_at_def on_body_def body_ok_def)
  ultimately show ?thesis using True ok_trans by (simp add: in_comment_def)
next
  case False
  with assms show ?thesis by (simp add: in_comment_def ok_stay)
qed

lemma ok_no_port:
  "text_inv p x \<Longrightarrow> vv_state x = st \<Longrightarrow> st \<in> set early_states \<Longrightarrow> vb_port_str (vv_vb x) = null_str"
  using text_inv_cases(3) [of p x] by simp

lemma ok_early:
  assumes "text_inv p x" "vv_state x \<in> set early_states" "st \<in> set [F_HOST, L_PORT, F_PORT, F_IP6HOST, P_IP6HOST]"
  shows "char_act_ok c p x (via_on st p x)"
  using assms text_inv_cases(3) [OF assms(1,2)] by (intro ok_on st_ok_early text_inv_body) auto

lemmas ok_intros = ok_if ok_stop ok_stay ok_nest ok_resume ok_crlf ok_same ok_host_end ok_port_end ok_param_follows ok_comment_opens
  ok_in_comment ok_on ok_fold

section \<open>The characters\<close>

lemma ok_params_end:
  assumes "text_inv p x" "c \<in> brackets"
    and k: "\<And>y. body_ok p (vv_vb y) \<Longrightarrow> char_act_ok c p y (k y)"
  shows "char_act_ok c p x (via_then (via_params_end p x) k)"
proof (cases "str_s (vb_params (vv_vb x)) = NullP")
  case True
  with assms(2) show ?thesis by (simp add: via_params_end_def via_then_def end_str_def char_act_ok_def)
next
  case False
  with text_inv_body [OF assms(1)] obtain a where a: "str_s (vb_params (vv_vb x)) = Buf a" by (auto simp: body_ok_def)
  let ?y = "on_body (\<lambda>b. b\<lparr>vb_params := span a p\<rparr>) x"
  have "same_lists x ?y" by (rule same_lists_on_body) simp
  moreover have "char_act_ok c p ?y (k ?y)"
    using text_inv_body [OF assms(1)] by (intro k) (simp add: on_body_def body_ok_def)
  ultimately have "char_act_ok c p x (k ?y)" by (rule ok_trans)
  with a show ?thesis by (simp add: via_then_def via_params_end_def)
qed

lemma main_space_ok: "text_inv p x \<Longrightarrow> char_act_ok c p x (main_space p x)"
  unfolding main_space_def Let_def
  by (intro ok_if; (rule ok_intros; assumption)?) (intro ok_intros st_ok_plain st_ok_early; simp add: text_inv_body)+

lemma main_line_ok: "text_inv p x \<Longrightarrow> ls \<in> set line_states \<Longrightarrow> vv_state x \<notin> set line_states \<Longrightarrow> char_act_ok c p x (main_line ls p x)"
  unfolding main_line_def Let_def
  by (intro ok_if; (rule ok_intros; assumption)?) (intro ok_intros st_ok_plain st_ok_early; simp add: text_inv_body)+

lemma main_white_ok:
  assumes "text_inv p x"
  shows "char_act_ok c p x (main_lf p x)" "char_act_ok c p x (main_cr p x)"
proof -
  show "char_act_ok c p x (main_lf p x)"
    unfolding main_lf_def using assms by (intro ok_if ok_crlf ok_stop main_line_ok) simp_all
  show "char_act_ok c p x (main_cr p x)"
    unfolding main_cr_def using assms by (intro ok_if ok_stop main_line_ok) simp_all
qed

lemma main_colon_ok: "text_inv p x \<Longrightarrow> char_act_ok c p x (main_colon p x)"
  unfolding main_colon_def Let_def
  by (intro ok_if; (rule ok_intros; assumption)?)
    (rule ok_early; auto | intro ok_host_end ok_on st_ok_early; simp)+

lemma main_semicolon_ok: "text_inv p x \<Longrightarrow> char_act_ok c p x (main_semicolon p x)"
  unfolding main_semicolon_def Let_def
  by (intro ok_if; (rule ok_intros; assumption)?) (intro ok_intros st_ok_plain st_ok_early; simp add: text_inv_body)+

lemma main_comma_ok: "text_inv p x \<Longrightarrow> char_act_ok c p x (main_comma p x)"
  unfolding main_comma_def Let_def
  by (intro ok_if; (rule ok_intros; assumption)?) (intro ok_intros st_ok_plain st_ok_early; simp add: text_inv_body)+

lemma main_open_ok: "text_inv p x \<Longrightarrow> c \<in> brackets \<Longrightarrow> char_act_ok c p x (main_open p x)"
  unfolding main_open_def Let_def
  by (intro ok_if; (rule ok_intros; assumption)?) (intro ok_params_end ok_intros; simp add: text_inv_body)+

lemma main_close_ok:
  assumes "text_inv p x" "c \<in> brackets"
  shows "char_act_ok c p x (main_close p x)"
proof -
  let ?n = "vv_nest x - 1" let ?y = "x\<lparr>vv_nest := ?n, vv_state := L_VIA\<rparr>"
  have "char_act_ok c p x (via_then (via_comment_end p ?y) (\<lambda>z. Inr (p, z)))"
  proof (cases "str_s (vb_comment (vv_vb x))")
    case (Buf a)
    let ?z = "on_body (\<lambda>b. b\<lparr>vb_comment := span a p\<rparr>) ?y"
    have "text_inv (Suc p) ?z"
      using text_inv_body [OF assms(1)] by (simp add: text_inv_def cur_def st_ok_plain on_body_def body_ok_def port_fit_Suc)
    with Buf show ?thesis
      by (simp add: via_comment_end_def via_then_def char_act_ok_def same_lists_def on_body_def)
  qed (use assms(2) in \<open>simp_all add: via_comment_end_def via_then_def end_str_def char_act_ok_def\<close>)
  with assms(1) show ?thesis
    unfolding main_close_def Let_def by (intro ok_if ok_stop ok_nest) simp_all
qed

lemma main_open6_ok:
  assumes "text_inv p x"
  shows "char_act_ok c p x (main_open6 p x)"
proof -
  have "char_act_ok c p x (via_on F_IP6HOST p (via_host_at p x))" if "vv_state x = F_HOST"
  proof (rule ok_trans)
    show "same_lists x (via_host_at p x)" unfolding via_host_at_def by (rule same_lists_on_body) simp
    show "char_act_ok c p (via_host_at p x) (via_on F_IP6HOST p (via_host_at p x))"
      using text_inv_body [OF assms] ok_no_port [OF assms that]
      by (intro ok_on st_ok_early) (simp_all add: via_host_at_def on_body_def body_ok_def)
  qed
  with assms show ?thesis
    unfolding main_open6_def Let_def by (intro ok_if ok_stop ok_in_comment)
qed

lemma main_close6_ok:
  assumes "text_inv p x" "c \<in> brackets"
  shows "char_act_ok c p x (main_close6 p x)"
proof -
  have "char_act_ok c p x (via_then (via_host_end (p + 1) x) (via_on L_PORT p))" if st: "vv_state x = P_IP6HOST"
  proof (cases "str_s (vb_host (vv_vb x))")
    case (Buf a)
    let ?y = "on_body (\<lambda>b. b\<lparr>vb_host := span a (p + 1)\<rparr>) x"
    have "same_lists x ?y" by (rule same_lists_on_body) simp
    moreover have "char_act_ok c p ?y (via_on L_PORT p ?y)"
      using text_inv_body [OF assms(1)] ok_no_port [OF assms(1) st]
      by (intro ok_on st_ok_early) (simp_all add: on_body_def body_ok_def)
    ultimately have "char_act_ok c p x (via_on L_PORT p ?y)" by (rule ok_trans)
    with Buf show ?thesis by (simp add: via_host_end_def via_then_def)
  qed (use assms(2) in \<open>simp_all add: via_host_end_def via_then_def end_str_def char_act_ok_def\<close>)
  with assms(1) show ?thesis
    unfolding main_close6_def Let_def by (intro ok_if ok_stop ok_in_comment)
qed

text \<open>Every other character, but for the first one of a parameter.\<close>

lemma main_other_ok:
  assumes "text_inv p x" "vv_state x \<noteq> F_PARAM"
  shows "char_act_ok c p x (main_other buf e p x)"
proof -
  have host: "char_act_ok c p x (via_on P_HOST p (via_host_at p x))" if "vv_state x = F_HOST"
  proof (rule ok_trans)
    show "same_lists x (via_host_at p x)" unfolding via_host_at_def by (rule same_lists_on_body) simp
    show "char_act_ok c p (via_host_at p x) (via_on P_HOST p (via_host_at p x))"
      using text_inv_body [OF assms(1)] ok_no_port [OF assms(1) that]
      by (intro ok_on) (simp_all add: via_host_at_def on_body_def body_ok_def st_ok_def)
  qed
  have port: "char_act_ok c p x (via_on P_PORT p (via_port_at p x))" if "vv_state x = F_PORT"
  proof (rule ok_trans)
    show "same_lists x (via_port_at p x)" unfolding via_port_at_def by (rule same_lists_on_body) simp
    show "char_act_ok c p (via_port_at p x) (via_on P_PORT p (via_port_at p x))"
      using text_inv_body [OF assms(1)] ok_no_port [OF assms(1) that]
      by (intro ok_on) (simp_all add: via_port_at_def on_body_def body_ok_def st_ok_def start_str_def null_str_def)
  qed
  have ip6: "char_act_ok c p x (via_on P_IP6HOST p x)" if "vv_state x = F_IP6HOST"
    using text_inv_body [OF assms(1)] ok_no_port [OF assms(1) that] by (intro ok_on st_ok_early) simp_all
  show ?thesis
    unfolding main_other_def Let_def
    by (intro ok_if; (erule host port ip6 | rule ok_intros; rule assms | erule notE [OF assms(2), THEN FalseE])?)
qed

end
