(* ===== verification/Via_Memory.thy ===== *)
theory Via_Memory
  imports Via_Loop
begin

text \<open>
  The memory the Via parser works on: what a body keeps of the blocks that were there before it, and
  the list of parameters it builds.
\<close>

section \<open>One body\<close>

definition mem_inv :: "via_block pkg \<Rightarrow> via_vars \<Rightarrow> bool" where
  "mem_inv m x \<longleftrightarrow> pkg_ok (vv_mem x) \<and> vb_next (vv_vb x) = None \<and>
     (\<exists>as. list_of x as \<and> set as \<inter> dom (pk_block m) = {} \<and> dom (pk_block (vv_mem x)) = dom (pk_block m) \<union> set as \<and>
        (\<forall>c\<in>dom (pk_block m). pk_block (vv_mem x) c = pk_block m c))"

lemma mem_inv_same: "mem_inv m x \<Longrightarrow> same_lists x y \<Longrightarrow> mem_inv m y"
  by (auto simp: mem_inv_def same_lists_def list_of_def)

lemma mem_invE:
  assumes "mem_inv m x"
  obtains as where "pkg_ok (vv_mem x)" "vb_next (vv_vb x) = None" "list_of x as" "set as \<inter> dom (pk_block m) = {}"
    "dom (pk_block (vv_mem x)) = dom (pk_block m) \<union> set as" "\<And>c. c \<in> dom (pk_block m) \<Longrightarrow> pk_block (vv_mem x) c = pk_block m c"
  using assms by (auto simp: mem_inv_def)

lemma mem_invI:
  assumes "pkg_ok (vv_mem x)" "vb_next (vv_vb x) = None" "list_of x as" "set as \<inter> dom (pk_block m) = {}"
    "dom (pk_block (vv_mem x)) = dom (pk_block m) \<union> set as" "\<And>c. c \<in> dom (pk_block m) \<Longrightarrow> pk_block (vv_mem x) c = pk_block m c"
  shows "mem_inv m x"
  using assms unfolding mem_inv_def by blast

lemma mem_inv_old: "mem_inv m x \<Longrightarrow> pk_block m d = Some v \<Longrightarrow> pk_block (vv_mem x) d = Some v"
  by (metis domI mem_invE)

text \<open>A block more, that is not in the list.\<close>

lemma mem_inv_extra:
  assumes "mem_inv m x" "pk_block (vv_mem x) a = None" "pk_block m' = (pk_block (vv_mem x))(a \<mapsto> v)" "pkg_ok m'"
    "list_of x as"
  shows "a \<notin> dom (pk_block m)" "a \<notin> set as" "list_of (x\<lparr>vv_mem := m'\<rparr>) as"
proof -
  from assms(1) obtain bs where bs: "list_of x bs" "dom (pk_block (vv_mem x)) = dom (pk_block m) \<union> set bs" by (rule mem_invE) blast
  from bs(1) assms(5) have [simp]: "bs = as" by (auto simp: list_of_def dest: plist_unique)
  from bs(2) assms(2) show a: "a \<notin> dom (pk_block m)" "a \<notin> set as" by auto
  show "list_of (x\<lparr>vv_mem := m'\<rparr>) as"
    by (rule list_of_frame [OF assms(5)]) (use a assms(3) in auto)
qed

lemma keep_block_ok:
  assumes inv: "mem_inv m x" and m': "pk_block (vv_mem x) a = None" "pk_block (vv_mem y) = (pk_block (vv_mem x))(a \<mapsto> Param_block v)"
      "pkg_ok (vv_mem y)" "vp_next v = None"
    and y: "vb_param_lst (vv_vb y) = vb_param_lst (vv_vb x)" "vb_last_param (vv_vb y) = vb_last_param (vv_vb x)"
      "vb_next (vv_vb y) = vb_next (vv_vb x)"
  obtains z where "link_via_param a y = Inr z" "mem_inv m z" "unlisted (vv_vb z) = unlisted (vv_vb y)"
    "vv_state z = vv_state y" "vv_saved z = vv_saved y" "vv_param_start z = vv_param_start y" "vv_nest z = vv_nest y"
proof -
  from inv obtain as where as: "vb_next (vv_vb x) = None" "list_of x as" "set as \<inter> dom (pk_block m) = {}"
    "dom (pk_block (vv_mem x)) = dom (pk_block m) \<union> set as" "\<And>c. c \<in> dom (pk_block m) \<Longrightarrow> pk_block (vv_mem x) c = pk_block m c"
    by (rule mem_invE) blast
  note extra = mem_inv_extra [OF inv m'(1,2,3) as(2)]
  have "list_of y as" by (rule list_of_frame [OF as(2) y(1,2)]) (use m'(2) extra(2) in auto)
  with m' extra(2) obtain z where z: "link_via_param a y = Inr z" "list_of z (as @ [a])"
      "\<And>c. c \<notin> set as \<Longrightarrow> pk_block (vv_mem z) c = pk_block (vv_mem y) c"
      "dom (pk_block (vv_mem z)) = dom (pk_block (vv_mem y))" "pk_answers (vv_mem z) = pk_answers (vv_mem y)"
      "unlisted (vv_vb z) = unlisted (vv_vb y)" "vv_state z = vv_state y" "vv_saved z = vv_saved y"
      "vv_param_start z = vv_param_start y" "vv_nest z = vv_nest y"
    by (elim link_via_param_ok [of y as a v]) simp_all
  have "vb_next (vv_vb z) = vb_next (vv_vb y)" using arg_cong [OF z(6), of vb_next] by (simp add: unlisted_def)
  moreover have "pkg_ok (vv_mem z)" using m'(3) z(4,5) by (simp add: pkg_ok_def fresh_answers_def)
  moreover have "pk_block (vv_mem z) c = pk_block m c" if "c \<in> dom (pk_block m)" for c
  proof -
    from that as(3) extra(1) have "c \<notin> set as" "c \<noteq> a" by blast+
    with z(3) [of c] as(5) [OF that] m'(2) show ?thesis by simp
  qed
  ultimately have "mem_inv m z"
    using z(2,4) as m'(2) y(3) extra(1) by (intro mem_invI [of z "as @ [a]"]) auto
  with z that show ?thesis by blast
qed

lemma drop_block_ok:
  assumes inv: "mem_inv m x" and m': "pk_block (vv_mem x) a = None" "pk_block (vv_mem y) = (pk_block (vv_mem x))(a \<mapsto> v)" "pkg_ok (vv_mem y)"
    and y: "vb_param_lst (vv_vb y) = vb_param_lst (vv_vb x)" "vb_last_param (vv_vb y) = vb_last_param (vv_vb x)"
      "vb_next (vv_vb y) = vb_next (vv_vb x)"
  obtains z where "drop_param a p y = Inl (To_parse_error p z)" "mem_inv m z"
proof -
  let ?z = "y\<lparr>vv_mem := (vv_mem y)\<lparr>pk_block := (pk_block (vv_mem y))(a := None)\<rparr>\<rparr>"
  have b: "pk_block (vv_mem ?z) = pk_block (vv_mem x)" using m'(1,2) by auto
  have "pkg_ok (vv_mem ?z)" using m'(3) by (auto simp: pkg_ok_def fresh_answers_def)
  moreover from inv obtain as where as: "vb_next (vv_vb x) = None" "list_of x as" "set as \<inter> dom (pk_block m) = {}"
    "dom (pk_block (vv_mem x)) = dom (pk_block m) \<union> set as" "\<And>c. c \<in> dom (pk_block m) \<Longrightarrow> pk_block (vv_mem x) c = pk_block m c"
    by (rule mem_invE) blast
  moreover have "list_of ?z as" using as(2) b y by (simp add: list_of_def)
  ultimately have "mem_inv m ?z" using y(3) b by (intro mem_invI [of ?z as]) auto
  moreover have "drop_param a p y = Inl (To_parse_error p ?z)" using m'(2) by (simp add: drop_param_def)
  ultimately show ?thesis using that by blast
qed

section \<open>The main loop\<close>

definition has_bracket :: "string \<Rightarrow> bool" where
  "has_bracket buf \<longleftrightarrow> set buf \<inter> brackets \<noteq> {}"

fun via_jump_ok :: "string \<Rightarrow> nat \<Rightarrow> nat \<Rightarrow> via_block pkg \<Rightarrow> via_jump \<Rightarrow> bool" where
  "via_jump_ok buf b e m (To_fault g) \<longleftrightarrow> g = Null_minus \<and> has_bracket buf"
| "via_jump_ok buf b e m (To_main q y) \<longleftrightarrow> False"
| "via_jump_ok buf b e m (To_endofheader q y) \<longleftrightarrow> b \<le> q \<and> q \<le> e \<and> mem_inv m y \<and> port_fit q (vb_port_str (vv_vb y))"
| "via_jump_ok buf b e m (To_endofpacket q y) \<longleftrightarrow> b \<le> q \<and> q \<le> e \<and> mem_inv m y \<and> port_fit q (vb_port_str (vv_vb y))"
| "via_jump_ok buf b e m (To_nextvia q y) \<longleftrightarrow> b \<le> q \<and> q \<le> e \<and> mem_inv m y \<and> port_fit q (vb_port_str (vv_vb y))"
| "via_jump_ok buf b e m (To_parse_error q y) \<longleftrightarrow> b \<le> q \<and> q \<le> e \<and> mem_inv m y"
| "via_jump_ok buf b e m (To_error q y) \<longleftrightarrow> b \<le> q \<and> q \<le> e \<and> mem_inv m y"

definition via_step_ok :: "string \<Rightarrow> nat \<Rightarrow> nat \<Rightarrow> via_block pkg \<Rightarrow> via_act \<Rightarrow> bool" where
  "via_step_ok buf p e m r \<longleftrightarrow>
     (case r of Inl j \<Rightarrow> via_jump_ok buf p e m j | Inr (q, y) \<Rightarrow> p \<le> q \<and> q < e \<and> mem_inv m y \<and> text_inv (Suc q) y)"

lemma char_step_ok:
  assumes "char_act_ok (buf ! p) p x r" "mem_inv m x" "p < e" "p < length buf"
  shows "via_step_ok buf p e m r"
proof (cases r)
  case (Inl j)
  from assms(4) have "buf ! p \<in> brackets \<Longrightarrow> has_bracket buf" using nth_mem by (fastforce simp: has_bracket_def disjoint_iff)
  with Inl assms show ?thesis
    by (cases j) (auto simp: char_act_ok_def via_step_ok_def intro: mem_inv_same)
next
  case (Inr z)
  with assms show ?thesis by (cases z) (auto simp: char_act_ok_def via_step_ok_def intro: mem_inv_same)
qed

text \<open>The body without its list decides what is asked of the text.\<close>

lemma unlisted_text:
  assumes "unlisted b' = unlisted b"
  shows "st_ok p st q b' = st_ok p st q b" "body_ok p b' = body_ok p b" "vb_port_str b' = vb_port_str b" "vb_params b' = vb_params b"
proof -
  have [simp]: "vb_host b' = vb_host b" using arg_cong [OF assms, of vb_host] by (simp add: unlisted_def)
  show [simp]: "vb_port_str b' = vb_port_str b" using arg_cong [OF assms, of vb_port_str] by (simp add: unlisted_def)
  show [simp]: "vb_params b' = vb_params b" using arg_cong [OF assms, of vb_params] by (simp add: unlisted_def)
  show "st_ok p st q b' = st_ok p st q b" "body_ok p b' = body_ok p b" by (simp_all add: st_ok_def body_ok_def)
qed

lemma shortcut_sel [simp]:
  "vb_param_lst (param_shortcut ty a b) = vb_param_lst b" "vb_last_param (param_shortcut ty a b) = vb_last_param b"
  "vb_next (param_shortcut ty a b) = vb_next b" "vb_host (param_shortcut ty a b) = vb_host b"
  "vb_port_str (param_shortcut ty a b) = vb_port_str b" "vb_params (param_shortcut ty a b) = vb_params b"
  by (simp_all add: param_shortcut_def)

lemma shortcut_text [simp]: "st_ok p st q (param_shortcut ty a b) = st_ok p st q b" "body_ok p (param_shortcut ty a b) = body_ok p b"
  by (simp_all add: st_ok_def body_ok_def)

text \<open>A parameter that is kept, in the states \<open>parse_via_param\<close> returns.\<close>

lemma keep_param_ok:
  assumes inv: "mem_inv m x" and m': "pk_block (vv_mem x) a = None" "pk_block (vv_mem y) = (pk_block (vv_mem x))(a \<mapsto> Param_block v)"
      "pkg_ok (vv_mem y)" "vp_next v = None"
    and y: "vb_param_lst (vv_vb y) = vb_param_lst (vv_vb x)" "vb_last_param (vv_vb y) = vb_last_param (vv_vb x)"
      "vb_next (vv_vb y) = vb_next (vv_vb x)"
    and q: "p \<le> q" "q \<le> e" "body_ok q (vv_vb y)" "vv_state y = END_OF_HEADER \<or> q < e \<and> text_inv (Suc q) y"
  shows "via_step_ok buf p e m (keep_param a v q y)"
proof -
  obtain z where z: "link_via_param a y = Inr z" "mem_inv m z" "unlisted (vv_vb z) = unlisted (vv_vb y)"
    "vv_state z = vv_state y" "vv_saved z = vv_saved y" "vv_param_start z = vv_param_start y" "vv_nest z = vv_nest y"
    by (rule keep_block_ok [OF inv m' y]) blast
  let ?z = "on_body (param_shortcut (vp_type v) a) z"
  have inv': "mem_inv m ?z" using mem_inv_same [OF z(2)] same_lists_on_body [of "param_shortcut (vp_type v) a" z] by simp
  have keep: "keep_param a v q y = (if vv_state y = END_OF_HEADER then via_over q ?z else Inr (q, ?z))"
    using z(1,4) by (simp add: keep_param_def via_then_def Let_def on_body_def)
  show ?thesis
  proof (cases "vv_state y = END_OF_HEADER")
    case True
    have "mem_inv m (?z\<lparr>vv_state := vv_saved ?z\<rparr>)" using mem_inv_same [OF inv'] by (simp add: same_lists_def)
    with True q(1-3) unlisted_text(3) [OF z(3)] show ?thesis
      by (simp add: keep via_step_ok_def via_over_def on_body_def body_ok_def)
  next
    case False
    have "cur ?z = cur y" using z(4,5) by (simp add: cur_def on_body_def)
    moreover have "vv_param_start ?z = vv_param_start y" "vv_vb ?z = param_shortcut (vp_type v) a (vv_vb z)"
      using z(6) by (simp_all add: on_body_def)
    moreover have "text_inv (Suc q) y" and "q < e" using q(4) False by blast+
    ultimately have "text_inv (Suc q) ?z"
      using unlisted_text(1,2) [OF z(3)] by (simp only: text_inv_def shortcut_text simp_thms)
    with \<open>q < e\<close> False inv' q(1) show ?thesis by (simp add: keep via_step_ok_def)
  qed
qed

lemma param_parsed_ok:
  assumes inv: "mem_inv m x" and m': "pk_block (vv_mem x) a = None" "pk_block (vv_mem z) = (pk_block (vv_mem x))(a \<mapsto> Param_block w)"
      "pkg_ok (vv_mem z)" "vp_next w = None"
    and lists: "vb_param_lst (vv_vb z) = vb_param_lst (vv_vb x)" "vb_last_param (vv_vb z) = vb_last_param (vv_vb x)"
      "vb_next (vv_vb z) = vb_next (vv_vb x)"
    and body: "body_ok q (vv_vb z)" "is_Buf (str_s (vb_params (vv_vb z)))" "is_Buf (vv_param_start z)" "is_Buf (vp_start w)"
    and q: "p \<le> q" "q \<le> e"
    and st: "vv_state z = PARAM_ERROR \<or> vv_state z = END_OF_HEADER \<or>
      q < e \<and> (vv_state z \<in> {L_PARAM, F_PARAM, F_VIA} \<or> vv_state z \<in> {F_LF, F_CR} \<and> vv_saved z = L_PARAM)"
  shows "via_step_ok buf p e m (param_parsed a w q z)"
proof -
  have keep: "via_step_ok buf p e m (keep_param a w q u)" if u: "vv_mem u = vv_mem z" "vb_param_lst (vv_vb u) = vb_param_lst (vv_vb z)"
      "vb_last_param (vv_vb u) = vb_last_param (vv_vb z)" "vb_next (vv_vb u) = vb_next (vv_vb z)" "body_ok q (vv_vb u)"
      "vv_state u = END_OF_HEADER \<or> q < e \<and> cur u \<in> {L_PARAM, F_PARAM, F_VIA} \<and> is_Buf (vv_param_start u)" for u
  proof (rule keep_param_ok [OF inv m'(1)])
    have "text_inv (Suc q) u" if "cur u \<in> {L_PARAM, F_PARAM, F_VIA}" "is_Buf (vv_param_start u)"
      using that u(5) by (auto simp: text_inv_def st_ok_def body_ok_Suc)
    with u(6) show "vv_state u = END_OF_HEADER \<or> q < e \<and> text_inv (Suc q) u" by blast
  qed (use m' lists u q in simp_all)
  obtain t s where t: "str_s (vb_params (vv_vb z)) = Buf t" "vp_start w = Buf s" using body(2,4) by blast
  let ?u = "on_body (\<lambda>b. b\<lparr>vb_params := Str (Buf t) (int s + vp_size w - int t)\<rparr>) z"
  have over: "params_over w z = Inr ?u" using t by (simp add: params_over_def)
  have u: "body_ok q (vv_vb ?u)" using body(1) by (simp add: body_ok_def on_body_def)
  consider "vv_state z = PARAM_ERROR" | "vv_state z = END_OF_HEADER \<or> vv_state z = F_VIA \<and> q < e"
    | "vv_state z = F_PARAM" "q < e" | "vv_state z = L_PARAM \<or> vv_state z \<in> {F_LF, F_CR} \<and> vv_saved z = L_PARAM" "q < e"
    using st by blast
  then show ?thesis
  proof cases
    case 1
    obtain y where "drop_param a q z = Inl (To_parse_error q y)" "mem_inv m y"
      by (rule drop_block_ok [OF inv m'(1,2,3) lists]) blast
    with 1 q show ?thesis by (simp add: param_parsed_def Let_def via_step_ok_def)
  next
    case 2
    with over have "param_parsed a w q z = keep_param a w q ?u" by (auto simp: param_parsed_def Let_def via_then_def)
    moreover have "via_step_ok buf p e m (keep_param a w q ?u)"
      by (rule keep) (use 2 u body(3) in \<open>auto simp: on_body_def cur_def\<close>)
    ultimately show ?thesis by simp
  next
    case 3
    then have "param_parsed a w q z = keep_param a w q (z\<lparr>vv_param_start := Buf (q + 1)\<rparr>)" by (simp add: param_parsed_def Let_def)
    moreover have "via_step_ok buf p e m (keep_param a w q (z\<lparr>vv_param_start := Buf (q + 1)\<rparr>))"
      by (rule keep) (use 3 body(1) in \<open>simp_all add: cur_def\<close>)
    ultimately show ?thesis by simp
  next
    case 4
    then have "param_parsed a w q z = keep_param a w q z" by (auto simp: param_parsed_def Let_def)
    moreover have "via_step_ok buf p e m (keep_param a w q z)"
      by (rule keep) (use 4 body(1,3) in \<open>auto simp: cur_def\<close>)
    ultimately show ?thesis by simp
  qed
qed

lemma main_param_ok:
  assumes x: "text_inv p x" "vv_state x = F_PARAM" "mem_inv m x"
    and nul: "zero_at buf e" and p: "p < e" "via_name_char (buf ! p) \<or> buf ! p = CHR ''=''"
  shows "via_step_ok buf p e m (main_param buf e p x)"
proof -
  let ?y = "on_body (\<lambda>b. if str_s (vb_params b) = NullP then b\<lparr>vb_params := Str (vv_param_start x) (str_len (vb_params b))\<rparr> else b) x"
  let ?v = "new_via_param (vv_param_start x)"
  obtain s where s: "vv_param_start x = Buf s" using text_inv_cases(4) [OF x(1,2)] by blast
  have y: "same_lists x ?y" by (rule same_lists_on_body) simp
  have params: "is_Buf (str_s (vb_params (vv_vb ?y)))" and port: "vb_port_str (vv_vb ?y) = vb_port_str (vv_vb x)"
    using text_inv_body [OF x(1)] s by (auto simp: body_ok_def on_body_def)
  have body: "body_ok p (vv_vb ?y)" using text_inv_body [OF x(1)] params port by (simp add: body_ok_def)
  obtain h m1 where h: "pkg_malloc (Param_block ?v) (vv_mem ?y) = (h, m1)" by fastforce
  have "pkg_ok (vv_mem ?y)" using x(3) y by (simp add: mem_inv_def same_lists_def)
  note alloc = pkg_malloc_ok [OF this h]
  show ?thesis
  proof (cases h)
    case None
    have "same_lists x (?y\<lparr>vv_mem := vv_mem ?y\<rparr>)" using y by simp
    from mem_inv_same [OF x(3) this] alloc(1,3) None have "mem_inv m (?y\<lparr>vv_mem := m1\<rparr>)"
      by (auto simp: mem_inv_def list_of_def)
    with h None p(1) show ?thesis by (simp add: main_param_def via_step_ok_def Let_def)
  next
    case (Some a)
    from parse_via_param_ok [OF nul p, of ?v s "vv_saved ?y"] s obtain q r where
      r: "parse_via_param buf e p F_PARAM (vv_saved ?y) ?v = Inr (q, r)" "p \<le> q" "q \<le> e" "same_param ?v r"
        "pa_state r = PARAM_ERROR \<or> pa_state r = END_OF_HEADER \<and> pa_saved r = L_PARAM \<or> q < e \<and> param_done r"
      unfolding param_result_def by (auto simp: new_via_param_def)
    let ?w = "pa_param r" let ?m = "m1\<lparr>pk_block := (pk_block m1)(a \<mapsto> Param_block ?w)\<rparr>"
    let ?z = "?y\<lparr>vv_mem := ?m, vv_state := pa_state r, vv_saved := pa_saved r\<rparr>"
    have main: "main_param buf e p x = param_parsed a ?w q ?z"
      using h Some r(1) alloc(4) x(2) by (simp add: main_param_def Let_def on_body_def)
    have blk: "pk_block (vv_mem x) a = None" "pk_block (vv_mem ?z) = (pk_block (vv_mem x))(a \<mapsto> Param_block ?w)" "pkg_ok (vv_mem ?z)"
      using alloc(1) alloc(4) [OF Some] y by (auto simp: same_lists_def pkg_ok_def fresh_answers_def)
    have w: "vp_start ?w = Buf s" "vp_next ?w = None" using r(4) s by (simp_all add: same_param_def new_via_param_def)
    have lists: "vb_param_lst (vv_vb ?z) = vb_param_lst (vv_vb x)" "vb_last_param (vv_vb ?z) = vb_last_param (vv_vb x)"
      "vb_next (vv_vb ?z) = vb_next (vv_vb x)" using y by (simp_all add: same_lists_def)
    have "vv_state ?z = PARAM_ERROR \<or> vv_state ?z = END_OF_HEADER \<or>
        q < e \<and> (vv_state ?z \<in> {L_PARAM, F_PARAM, F_VIA} \<or> vv_state ?z \<in> {F_LF, F_CR} \<and> vv_saved ?z = L_PARAM)"
      using r(5) unfolding param_done_def by auto
    moreover have "body_ok q (vv_vb ?z)" using body r(2) by (auto simp: body_ok_def port_fit_def)
    ultimately show ?thesis unfolding main
      using param_parsed_ok [OF x(3) blk w(2) lists] params s w(1) r(2,3) by (simp add: on_body_def)
  qed
qed

lemma main_step_ok:
  assumes "text_inv p x" "mem_inv m x" "zero_at buf e" "p < e"
  shows "via_step_ok buf p e m (main_step buf e p x)"
proof -
  let ?c = "buf ! p"
  have p: "p < length buf" using assms(3,4) by (simp add: zero_at_def)
  note char = char_step_ok [OF _ assms(2,4) p]
  have br: "?c = CHR ''('' \<or> ?c = CHR '')'' \<or> ?c = CHR '']'' \<Longrightarrow> ?c \<in> brackets" by (auto simp: brackets_def)
  have other: "via_step_ok buf p e m (main_other buf e p x)"
    if "?c \<notin> {CHR '' '', CHR 0x09, CHR 0x0A, CHR 0x0D, CHR '';'', CHR '',''}"
  proof (cases "vv_state x = F_PARAM")
    case True
    then have "main_other buf e p x = main_param buf e p x" by (simp add: main_other_def)
    moreover have "via_name_char ?c \<or> ?c = CHR ''=''" using that by (simp add: via_name_char_def)
    ultimately show ?thesis using main_param_ok [OF assms(1) True assms(2-4)] by simp
  qed (use char main_other_ok [OF assms(1)] in blast)
  show ?thesis
    unfolding main_step_def Let_def using p
    by (auto intro!: char main_space_ok main_white_ok main_colon_ok main_semicolon_ok main_comma_ok main_open_ok
        main_close_ok main_open6_ok main_close6_ok ok_stop other br assms(1))
qed

text \<open>At the zero byte the loop is over.\<close>

lemma main_step_end:
  assumes "text_inv e x" "mem_inv m x" "zero_at buf e"
  shows "main_step buf e e x = Inl (To_endofpacket e x)" "via_jump_ok buf e e m (To_endofpacket e x)"
  using assms text_inv_body [OF assms(1)] by (simp_all add: main_step_def zero_at_def body_ok_def)

lemma via_jump_ok_mono: "via_jump_ok buf p e m j \<Longrightarrow> b \<le> p \<Longrightarrow> via_jump_ok buf b e m j"
  by (cases j) auto

interpretation via_scan: scanning "main_step buf e"
  "\<lambda>p x. zero_at buf e \<and> b \<le> p \<and> p \<le> e \<and> text_inv p x \<and> mem_inv m x"
  "via_jump_ok buf b e m" "Suc (length buf)"
proof
  fix p x r assume h: "zero_at buf e \<and> b \<le> p \<and> p \<le> e \<and> text_inv p x \<and> mem_inv m x" "main_step buf e p x = Inl r"
  show "via_jump_ok buf b e m r"
  proof (cases "p = e")
    case True
    with h main_step_end [of e x m buf] show ?thesis by (auto intro: via_jump_ok_mono)
  next
    case False
    with h main_step_ok [of p x m buf e] show ?thesis by (auto simp: via_step_ok_def intro: via_jump_ok_mono)
  qed
next
  fix p x q y assume h: "zero_at buf e \<and> b \<le> p \<and> p \<le> e \<and> text_inv p x \<and> mem_inv m x" "main_step buf e p x = Inr (q, y)"
  then have "p \<noteq> e" using main_step_end(1) [of e x m buf] by auto
  with h main_step_ok [of p x m buf e]
  show "p \<le> q \<and> q \<le> Suc (length buf) \<and> zero_at buf e \<and> b \<le> Suc q \<and> Suc q \<le> e \<and> text_inv (Suc q) y \<and> mem_inv m y"
    by (auto simp: via_step_ok_def zero_at_def)
qed

end
