(* ===== verification/Via_Chain.thy ===== *)
theory Via_Chain
  imports Via_Memory
begin

text \<open>
  The whole Via parser: the start of a body, its end, and the chain of bodies of a header. Whatever
  the text, \<open>parse_via\<close> leaves a chain that \<open>free_via_list\<close> frees to the last block.
\<close>

section \<open>The start of a body\<close>

definition sip_states :: "nat list" where "sip_states = [SIP1, SIP2, FIN_SIP]"
definition ver_states :: "nat list" where "ver_states = [VER1, VER2, FIN_VER]"
definition proto_states :: "nat list" where
  "proto_states = [UDP1, UDP2, FIN_UDP, TCP_TLS1, TCP2, FIN_TCP, TLS2, FIN_TLS, SCTP1, SCTP2, SCTP3, FIN_SCTP]"

definition start_need :: "nat \<Rightarrow> via_body \<Rightarrow> bool" where
  "start_need st b \<longleftrightarrow> (st \<in> set sip_states \<longrightarrow> is_Buf (str_s (vb_name b))) \<and>
     (st \<in> set ver_states \<longrightarrow> is_Buf (str_s (vb_version b))) \<and> (st \<in> set proto_states \<longrightarrow> is_Buf (str_s (vb_transport b)))"

definition start_ok :: "via_vars \<Rightarrow> bool" where
  "start_ok x \<longleftrightarrow> start_need (vv_state x) (vv_vb x) \<and> (vv_state x \<in> set line_states \<longrightarrow> vv_saved x \<in> set start_states)"

definition no_lists :: "via_block pkg \<Rightarrow> via_vars \<Rightarrow> bool" where
  "no_lists m x \<longleftrightarrow> vv_mem x = m \<and> vb_param_lst (vv_vb x) = None \<and> vb_last_param (vv_vb x) = None \<and> vb_next (vv_vb x) = None \<and>
     vb_port_str (vv_vb x) = null_str \<and> str_s (vb_params (vv_vb x)) = NullP"

definition start_act_ok :: "via_block pkg \<Rightarrow> nat \<Rightarrow> via_act \<Rightarrow> bool" where
  "start_act_ok m p r \<longleftrightarrow>
     (case r of
        Inl (To_main q y) \<Rightarrow> q = p \<and> no_lists m y \<and> cur y = F_HOST
      | Inl (To_endofheader q y) \<Rightarrow> q = p \<and> no_lists m y
      | Inl (To_parse_error q y) \<Rightarrow> q = p \<and> no_lists m y
      | Inl _ \<Rightarrow> False
      | Inr (q, y) \<Rightarrow> q = p \<and> no_lists m y \<and> start_ok y)"

lemma no_lists_mem_inv: "no_lists m x \<Longrightarrow> pkg_ok m \<Longrightarrow> mem_inv m x"
  by (rule mem_invI [of x "[]"]) (auto simp: no_lists_def list_of_def)

lemma no_lists_on_body:
  assumes "no_lists m x"
    "\<And>b. vb_param_lst (f b) = vb_param_lst b \<and> vb_last_param (f b) = vb_last_param b \<and> vb_next (f b) = vb_next b \<and>
       vb_port_str (f b) = vb_port_str b \<and> vb_params (f b) = vb_params b"
  shows "no_lists m (on_body f x)"
  using assms by (simp add: no_lists_def on_body_def)

lemma no_lists_states [simp]: "no_lists m (x\<lparr>vv_state := st\<rparr>) = no_lists m x" "no_lists m (x\<lparr>vv_saved := sv\<rparr>) = no_lists m x"
  by (simp_all add: no_lists_def)

lemma start_need_free: "st \<in> set (start_states @ line_states) \<Longrightarrow> start_need st b"
  by (auto simp: start_need_def sip_states_def ver_states_def proto_states_def)

lemma s_on: "no_lists m x \<Longrightarrow> start_need st (vv_vb x) \<Longrightarrow> st \<notin> set line_states \<Longrightarrow> start_act_ok m p (via_on st p x)"
  by (simp add: start_act_ok_def via_on_def start_ok_def)

lemma s_fold: "no_lists m x \<Longrightarrow> sv \<in> set start_states \<Longrightarrow> ls \<in> set line_states \<Longrightarrow> start_act_ok m p (via_fold sv ls p x)"
  using start_need_free [of ls] by (simp add: start_act_ok_def via_fold_def start_ok_def)

lemma s_stop: "no_lists m x \<Longrightarrow> start_act_ok m p (Inl (To_parse_error p x))"
  "no_lists m x \<Longrightarrow> start_act_ok m p (via_over p x)"
  "no_lists m x \<Longrightarrow> start_ok x \<Longrightarrow> start_act_ok m p (Inr (p, x))"
  by (simp_all add: start_act_ok_def via_over_def)

lemma s_if: "(A \<Longrightarrow> start_act_ok m p r) \<Longrightarrow> (\<not> A \<Longrightarrow> start_act_ok m p s) \<Longrightarrow> start_act_ok m p (if A then r else s)"
  by simp

lemma s_ends:
  assumes "no_lists m x" "start_ok x" and k: "\<And>y. no_lists m y \<Longrightarrow> start_act_ok m p (k y)"
  shows "vv_state x = FIN_SIP \<Longrightarrow> start_act_ok m p (via_then (via_name_end p x) k)"
    "vv_state x = FIN_VER \<Longrightarrow> start_act_ok m p (via_then (via_version_end p x) k)"
    "vv_state x \<in> set proto_states \<Longrightarrow> start_act_ok m p (via_then (via_transport_end p x) k)"
proof -
  have need: "start_need (vv_state x) (vv_vb x)" using assms(2) by (simp add: start_ok_def)
  show "start_act_ok m p (via_then (via_name_end p x) k)" if "vv_state x = FIN_SIP"
    using need that no_lists_on_body [OF assms(1)]
    by (auto simp: start_need_def sip_states_def via_then_def via_name_end_def intro!: k)
  show "start_act_ok m p (via_then (via_version_end p x) k)" if "vv_state x = FIN_VER"
    using need that no_lists_on_body [OF assms(1)]
    by (auto simp: start_need_def ver_states_def via_then_def via_version_end_def intro!: k)
  show "start_act_ok m p (via_then (via_transport_end p x) k)" if "vv_state x \<in> set proto_states"
    using need that no_lists_on_body [OF assms(1)]
    by (auto simp: start_need_def via_then_def via_transport_end_def intro!: k)
qed

lemma s_transport_over:
  assumes "no_lists m x" "start_ok x" "vv_state x \<in> set proto_states"
    and st: "st = F_HOST \<or> st \<in> set line_states \<and> sv = F_HOST"
  shows "start_act_ok m p (transport_over pr sv st p x)"
  unfolding transport_over_def
proof (rule s_ends(3) [OF assms(1,2) _ assms(3)])
  fix y assume y: "no_lists m y"
  have "no_lists m (on_body (\<lambda>b. b\<lparr>vb_proto := pr\<rparr>) y)" by (rule no_lists_on_body [OF y]) simp
  with st show "start_act_ok m p (Inl (To_main p ((on_body (\<lambda>b. b\<lparr>vb_proto := pr\<rparr>) y)\<lparr>vv_saved := sv, vv_state := st\<rparr>)))"
    by (auto simp: start_act_ok_def cur_def)
qed

lemma s_next:
  assumes "no_lists m x" "start_ok x"
    "list_all (\<lambda>(s, t). (t \<in> set sip_states \<longrightarrow> s \<in> set sip_states) \<and> (t \<in> set ver_states \<longrightarrow> s \<in> set ver_states) \<and>
       (t \<in> set proto_states \<longrightarrow> s \<in> set proto_states) \<and> t \<notin> set line_states) on"
  shows "start_act_ok m p (start_next on p x)"
proof (cases "map_of on (vv_state x)")
  case None
  with assms(1) show ?thesis by (simp add: start_next_def s_stop)
next
  case (Some t)
  with assms(3) have t: "t \<in> set sip_states \<longrightarrow> vv_state x \<in> set sip_states" "t \<in> set ver_states \<longrightarrow> vv_state x \<in> set ver_states"
    "t \<in> set proto_states \<longrightarrow> vv_state x \<in> set proto_states" "t \<notin> set line_states"
    by (auto simp: list_all_iff dest!: map_of_SomeD)
  have "start_need t (vv_vb x)" using t assms(2) unfolding start_ok_def start_need_def by blast
  with Some assms(1) t(4) show ?thesis by (simp add: start_next_def s_on)
qed

lemmas start_groups = sip_states_def ver_states_def proto_states_def

lemma s_at:
  assumes "no_lists m x"
  shows "start_act_ok m p (via_on SIP1 p (via_name_at p x))" "start_act_ok m p (via_on VER1 p (via_version_at p x))"
    "st \<in> set proto_states \<Longrightarrow> start_act_ok m p (via_on st p (via_transport_at p x))"
proof -
  note on = no_lists_on_body [OF assms]
  show "start_act_ok m p (via_on SIP1 p (via_name_at p x))"
    unfolding via_name_at_def by (intro s_on on) (simp_all add: start_need_def start_groups on_body_def)
  show "start_act_ok m p (via_on VER1 p (via_version_at p x))"
    unfolding via_version_at_def by (intro s_on on) (simp_all add: start_need_def start_groups on_body_def)
  assume "st \<in> set proto_states"
  moreover from this have "st \<notin> set sip_states" "st \<notin> set ver_states" "st \<notin> set line_states" by (auto simp: start_groups)
  ultimately show "start_act_ok m p (via_on st p (via_transport_at p x))"
    unfolding via_transport_at_def by (intro s_on on) (simp_all add: start_need_def on_body_def)
qed

lemma start_blank_ok:
  assumes "no_lists m x" "start_ok x"
  shows "start_act_ok m p (start_space p x)" "ls \<in> set line_states \<Longrightarrow> start_act_ok m p (start_line ls p x)"
proof -
  have fins: "111 \<in> set proto_states" "114 \<in> set proto_states" "116 \<in> set proto_states" "120 \<in> set proto_states"
    by (simp_all add: proto_states_def)
  have resume: "start_act_ok m p (via_on (vv_saved x) p x)" if "vv_state x \<in> set line_states"
  proof -
    from that assms(2) have sv: "vv_saved x \<in> set start_states" by (simp only: start_ok_def)
    then have "vv_saved x \<notin> set line_states" by auto
    with sv show ?thesis by (intro s_on assms(1) start_need_free) simp_all
  qed
  have on: "start_act_ok m p (via_on st p y)" if "no_lists m y" "st \<in> set [L_VER, L_PROTO]" for st y
    using that by (intro s_on start_need_free) auto
  show "start_act_ok m p (start_space p x)"
    unfolding start_space_def Let_def
    by (intro s_if s_stop resume assms)
      (auto split: option.split simp: fins intro!: s_transport_over s_if s_ends s_stop on resume assms)
  show "start_act_ok m p (start_line ls p x)" if "ls \<in> set line_states"
    unfolding start_line_def Let_def
    by (intro s_if s_fold assms that; (split option.split)?)
      (auto simp: fins intro!: s_transport_over s_if s_ends s_stop s_fold assms that)
qed

lemma start_letters_ok:
  assumes "no_lists m x" "start_ok x"
  shows "start_act_ok m p (start_i p x)" "start_act_ok m p (start_p p x)" "start_act_ok m p (start_d p x)"
    "start_act_ok m p (start_c p x)" "start_act_ok m p (start_l p x)" "start_act_ok m p (start_dot p x)" "start_act_ok m p (start_0 p x)"
    "start_act_ok m p (start_s p x)" "start_act_ok m p (start_t p x)" "start_act_ok m p (start_u p x)" "start_act_ok m p (start_2 p x)"
  unfolding start_i_def start_p_def start_d_def start_c_def start_l_def start_dot_def start_0_def start_s_def start_t_def start_u_def start_2_def
  by (intro s_if s_at s_next s_stop assms; simp add: start_groups)+

lemma start_rest_ok:
  assumes "no_lists m x" "start_ok x"
  shows "start_act_ok m p (start_lf p x)" "start_act_ok m p (start_cr p x)" "start_act_ok m p (start_slash p x)"
proof -
  have crlf: "start_act_ok m p (via_on F_CRLF p x)" if "vv_state x = F_CR"
    using assms that start_need_free [of F_CRLF] by (simp add: start_act_ok_def via_on_def start_ok_def)
  show "start_act_ok m p (start_lf p x)"
    unfolding start_lf_def by (intro s_if crlf s_stop start_blank_ok assms) simp_all
  show "start_act_ok m p (start_cr p x)"
    unfolding start_cr_def by (intro s_if s_stop start_blank_ok assms) simp_all
  show "start_act_ok m p (start_slash p x)"
    unfolding start_slash_def Let_def
    by (intro s_if s_ends s_stop s_on start_need_free assms; simp)
qed

lemma start_step_ok:
  assumes "no_lists m x" "start_ok x" "p < length buf"
  shows "start_act_ok m p (start_step buf p x)"
proof -
  have all: "list_all (\<lambda>(c, f). start_act_ok m p (f p x)) start_switch"
    by (simp add: start_switch_def start_blank_ok start_letters_ok start_rest_ok assms(1,2))
  show ?thesis
  proof (cases "map_of start_switch (buf ! p)")
    case None
    with assms show ?thesis by (simp add: start_step_def s_stop)
  next
    case (Some f)
    with all have "start_act_ok m p (f p x)" by (auto simp: list_all_iff dest!: map_of_SomeD)
    with Some assms(3) show ?thesis by (simp add: start_step_def)
  qed
qed

interpretation start_scan: scanning "start_step buf"
  "\<lambda>p x. e \<le> length buf \<and> b \<le> p \<and> p \<le> e \<and> no_lists m x \<and> start_ok x"
  "\<lambda>j. \<exists>i. b \<le> i \<and> i < e \<and> start_act_ok m i (Inl j)" e
proof
  fix p x r assume "p < e" "e \<le> length buf \<and> b \<le> p \<and> p \<le> e \<and> no_lists m x \<and> start_ok x" "start_step buf p x = Inl r"
  with start_step_ok [of m x p buf] show "\<exists>i. b \<le> i \<and> i < e \<and> start_act_ok m i (Inl r)" by auto
next
  fix p x q y assume "p < e" "e \<le> length buf \<and> b \<le> p \<and> p \<le> e \<and> no_lists m x \<and> start_ok x" "start_step buf p x = Inr (q, y)"
  with start_step_ok [of m x p buf]
  show "p \<le> q \<and> q \<le> e \<and> e \<le> length buf \<and> b \<le> Suc q \<and> Suc q \<le> e \<and> no_lists m y \<and> start_ok y"
    by (auto simp: start_act_ok_def)
qed

section \<open>One body\<close>

text \<open>A body before it is parsed.\<close>

definition fresh_body :: "via_body \<Rightarrow> bool" where
  "fresh_body v \<longleftrightarrow> vb_param_lst v = None \<and> vb_last_param v = None \<and> vb_next v = None \<and> vb_port_str v = null_str \<and>
     str_s (vb_params v) = NullP"

lemma fresh_zero [simp]: "fresh_body zero_via"
  by (simp add: fresh_body_def zero_via_def null_str_def)

lemma via_one_ok:
  assumes "zero_at buf e" "b \<le> e" "pkg_ok m" "fresh_body vb"
  shows "via_jump_ok buf b e m (via_one buf e b vb m)"
proof -
  let ?x = "\<lparr>vv_state = F_SIP, vv_saved = 0, vv_param_start = NullP, vv_nest = 0, vv_vb = vb\<lparr>vb_error := True\<rparr>, vv_mem = m\<rparr>"
  have le: "b \<le> Suc e" using assms(2) by simp
  have x: "e \<le> length buf \<and> b \<le> b \<and> b \<le> e \<and> no_lists m ?x \<and> start_ok ?x"
    using assms(1,2,4) start_need_free [of F_SIP] by (auto simp: zero_at_def fresh_body_def no_lists_def start_ok_def)
  show ?thesis
  proof (cases "scan (start_step buf) e b ?x")
    case (Inl j)
    then have start: "via_start buf e b vb m = Inl j" by (simp add: via_start_def)
    from start_scan.scan_good [OF x le Inl] obtain i where i: "b \<le> i" "i < e" "start_act_ok m i (Inl j)" by blast
    show ?thesis
    proof (cases "\<exists>q y. j = To_main q y")
      case True
      then obtain y where y: "j = To_main i y" "no_lists m y" "cur y = F_HOST" using i(3) by (auto simp: start_act_ok_def)
      let ?y = "y\<lparr>vv_nest := 0\<rparr>"
      have mem: "mem_inv m ?y" using no_lists_mem_inv [OF _ assms(3)] y(2) by (simp add: no_lists_def)
      have "text_inv (i + 1) ?y" using y(2,3) by (simp add: text_inv_nest) (simp add: text_inv_def st_ok_early no_lists_def body_ok_def)
      with mem i assms(1) have inv: "zero_at buf e \<and> b \<le> i + 1 \<and> i + 1 \<le> e \<and> text_inv (i + 1) ?y \<and> mem_inv m ?y" by simp
      have le2: "i + 1 \<le> Suc (Suc (length buf))" using i(2) assms(1) by (simp add: zero_at_def)
      show ?thesis
      proof (cases "scan (main_step buf e) (Suc (length buf)) (i + 1) ?y")
        case (Inl k)
        with via_scan.scan_good [OF inv le2 Inl] start y(1) show ?thesis by (simp add: via_one_def)
      next
        case (Inr z)
        obtain q w where z: "z = (q, w)" by (cases z)
        from via_scan.scan_inv [OF inv le2 Inr [unfolded z]] have False by (auto simp: zero_at_def)
        then show ?thesis ..
      qed
    next
      case False
      then have "via_one buf e b vb m = j" using start by (auto simp: via_one_def split: via_jump.split)
      with i False no_lists_mem_inv [OF _ assms(3)] show ?thesis
        by (auto simp: start_act_ok_def no_lists_def split: via_jump.splits)
    qed
  next
    case (Inr z)
    obtain q w where z: "z = (q, w)" by (cases z)
    from start_scan.scan_inv [OF x le Inr [unfolded z]] have "q = e \<or> q = Suc e" "no_lists m w" "b \<le> q" "q \<le> e" by auto
    moreover have "via_one buf e b vb m = To_parse_error q w" using Inr z by (simp add: via_one_def via_start_def)
    ultimately show ?thesis using no_lists_mem_inv [OF _ assms(3)] by simp
  qed
qed

lemma via_finish_ok:
  assumes "port_fit p (vb_port_str v)" "p < length buf"
  obtains "via_finish buf b p v = Inr None" | w where "via_finish buf b p v = Inr (Some w)" "vb_param_lst w = vb_param_lst v" "vb_next w = vb_next v"
proof (cases "str_s (vb_port_str v) = NullP")
  case True
  then show ?thesis using that(2) by (simp add: via_finish_def Let_def)
next
  case False
  with assms(1) obtain a l where "vb_port_str v = Str (Buf a) (int l)" "a + l \<le> p" by (auto simp: port_fit_def null_str_def)
  moreover from this assms(2) obtain r where "str2s buf (Str (Buf a) (int l)) = Inr r" by (simp add: str2s_def)
  ultimately show ?thesis using that by (cases r) (simp_all add: via_finish_def Let_def)
qed

section \<open>The chain of bodies\<close>

text \<open>Every body with the addresses of its parameters.\<close>

fun via_chain :: "(nat \<Rightarrow> via_block option) \<Rightarrow> nat option \<Rightarrow> (nat \<times> nat list) list \<Rightarrow> bool" where
  "via_chain b h [] \<longleftrightarrow> h = None"
| "via_chain b h ((a, as) # bs) \<longleftrightarrow>
     h = Some a \<and> (\<exists>w. b a = Some (Body_block w) \<and> param_list b (vb_param_lst w) as \<and> via_chain b (vb_next w) bs)"

definition addrs :: "(nat \<times> nat list) list \<Rightarrow> nat list" where
  "addrs bs = concat (map (\<lambda>(a, as). a # as) bs)"

lemma addrs_simps [simp]: "addrs [] = []" "addrs ((a, as) # bs) = a # as @ addrs bs"
  by (simp_all add: addrs_def)

lemma via_chain_cong: "(\<And>c. c \<in> set (addrs bs) \<Longrightarrow> b' c = b c) \<Longrightarrow> via_chain b' h bs = via_chain b h bs"
proof (induction b h bs rule: via_chain.induct)
  case (2 b h a as bs)
  then have "param_list b' q as = param_list b q as" for q by (intro param_list_cong) simp
  with 2 show ?case by auto
qed simp

lemma via_chain_error:
  assumes "b f = Some (Body_block w)"
  shows "via_chain (b(f \<mapsto> Body_block (w\<lparr>vb_error := er\<rparr>))) h bs = via_chain b h bs"
proof -
  obtain b' where b': "b' = b(f \<mapsto> Body_block (w\<lparr>vb_error := er\<rparr>))" by blast
  have p: "params_of b' = params_of b" using assms by (auto simp: b' fun_eq_iff params_of_def)
  have "via_chain b' h bs = via_chain b h bs"
  proof (induction bs arbitrary: h)
    case (Cons z bs)
    obtain a as where z: "z = (a, as)" by (cases z)
    from assms have "b' f = Some (Body_block (w\<lparr>vb_error := er\<rparr>))" "a \<noteq> f \<Longrightarrow> b' a = b a" by (simp_all add: b')
    with Cons.IH assms show ?case by (cases "a = f") (simp_all add: z p)
  qed simp
  then show ?thesis by (simp only: b')
qed

text \<open>
  What a call that parses from \<open>b\<close> into the block \<open>a\<close> may do to the memory \<open>m\<close>; \<open>vf\<close> is the first
  body of the header, at \<open>f\<close>, whose error mark is set with the one of every later body.
\<close>

definition chain_ok :: "nat \<Rightarrow> via_body \<Rightarrow> nat \<Rightarrow> via_block pkg \<Rightarrow> via_block pkg \<Rightarrow> bool" where
  "chain_ok f vf a m m' \<longleftrightarrow> pkg_ok m' \<and>
     (\<exists>bs. via_chain (pk_block m') (Some a) bs \<and> distinct (addrs bs) \<and> set (addrs bs) \<inter> dom (pk_block m) = {a} \<and>
        dom (pk_block m') = dom (pk_block m) \<union> set (addrs bs)) \<and>
     (\<forall>c\<in>dom (pk_block m) - {a, f}. pk_block m' c = pk_block m c) \<and>
     (f \<noteq> a \<longrightarrow> (\<exists>er. pk_block m' f = Some (Body_block (vf\<lparr>vb_error := er\<rparr>))))"

definition via_res_ok :: "string \<Rightarrow> nat \<Rightarrow> nat \<Rightarrow> nat \<Rightarrow> via_body \<Rightarrow> nat \<Rightarrow> via_block pkg \<Rightarrow> via_res \<Rightarrow> bool" where
  "via_res_ok buf b e f vf a m r \<longleftrightarrow>
     (case r of Inl g \<Rightarrow> g = Null_minus \<and> has_bracket buf | Inr (q, m') \<Rightarrow> b \<le> q \<and> q \<le> e \<and> chain_ok f vf a m m')"

lemma chain_error:
  assumes "chain_ok f vf a m m'" "pk_block m' f = Some (Body_block w)" "f \<in> dom (pk_block m)"
  shows "chain_ok f vf a m (m'\<lparr>pk_block := (pk_block m')(f \<mapsto> Body_block (w\<lparr>vb_error := True\<rparr>))\<rparr>)"
proof -
  let ?b = "(pk_block m')(f \<mapsto> Body_block (w\<lparr>vb_error := True\<rparr>))"
  from assms(1) have ok: "pkg_ok m'" and frame: "\<forall>c\<in>dom (pk_block m) - {a, f}. pk_block m' c = pk_block m c"
    and first: "f \<noteq> a \<longrightarrow> (\<exists>er. pk_block m' f = Some (Body_block (vf\<lparr>vb_error := er\<rparr>)))" by (simp_all add: chain_ok_def)
  from assms(1) obtain bs where bs: "via_chain (pk_block m') (Some a) bs" "distinct (addrs bs)"
    "set (addrs bs) \<inter> dom (pk_block m) = {a}" "dom (pk_block m') = dom (pk_block m) \<union> set (addrs bs)" by (auto simp: chain_ok_def)
  have "via_chain ?b (Some a) bs" using via_chain_error [of "pk_block m'" f w] assms(2) bs(1) by simp
  moreover have "dom ?b = dom (pk_block m')" using assms(2) by auto
  moreover from this have "pkg_ok (m'\<lparr>pk_block := ?b\<rparr>)" using pkg_ok_block [OF ok] by simp
  moreover have "f \<noteq> a \<longrightarrow> (\<exists>er. w\<lparr>vb_error := True\<rparr> = vf\<lparr>vb_error := er\<rparr>)" using first assms(2) by auto
  ultimately show ?thesis unfolding chain_ok_def using bs(2-4) frame by (auto intro!: exI [of _ bs])
qed

text \<open>A body that is the last one.\<close>

lemma chain_last:
  assumes inv: "mem_inv m x" and a: "pk_block m a = Some (Body_block va)" and f: "pk_block m f = Some (Body_block vf)"
    and v: "vb_param_lst v = vb_param_lst (vv_vb x)" "vb_next v = None"
  shows "chain_ok f vf a m ((vv_mem x)\<lparr>pk_block := (pk_block (vv_mem x))(a \<mapsto> Body_block v)\<rparr>)"
proof -
  let ?b = "(pk_block (vv_mem x))(a \<mapsto> Body_block v)"
  from inv obtain as where as: "pkg_ok (vv_mem x)" "list_of x as" "set as \<inter> dom (pk_block m) = {}"
    "dom (pk_block (vv_mem x)) = dom (pk_block m) \<union> set as" "\<And>c. c \<in> dom (pk_block m) \<Longrightarrow> pk_block (vv_mem x) c = pk_block m c"
    by (rule mem_invE) blast
  have out: "a \<notin> set as" using as(3) a by auto
  have "param_list ?b (vb_param_lst v) as = param_list (pk_block (vv_mem x)) (vb_param_lst v) as"
    by (rule param_list_cong) (use out in auto)
  then have list: "param_list ?b (vb_param_lst v) as" using as(2) v(1) by (simp only: list_of_def)
  moreover from as(2) have "distinct as" using plist_distinct by (auto simp: list_of_def)
  moreover have d: "dom ?b = dom (pk_block m) \<union> set as" using as(4) a by auto
  moreover have "pkg_ok ((vv_mem x)\<lparr>pk_block := ?b\<rparr>)" by (rule pkg_ok_block [OF as(1)]) (use d as(4) in simp)
  moreover have "f \<noteq> a \<longrightarrow> (\<exists>er. ?b f = Some (Body_block (vf\<lparr>vb_error := er\<rparr>)))"
  proof
    assume "f \<noteq> a"
    with as(5) [of f] f show "\<exists>er. ?b f = Some (Body_block (vf\<lparr>vb_error := er\<rparr>))"
      by (intro exI [of _ "vb_error vf"]) auto
  qed
  moreover have "\<forall>c\<in>dom (pk_block m) - {a, f}. ?b c = pk_block m c" using as(5) by auto
  moreover have "set (addrs [(a, as)]) \<inter> dom (pk_block m) = {a}" using as(3) a by auto
  moreover have "via_chain ?b (Some a) [(a, as)]" using list v(2) by auto
  ultimately show ?thesis unfolding chain_ok_def using out by (auto intro!: exI [of _ "[(a, as)]"])
qed

text \<open>A body with another one behind it, parsed into the new block \<open>c\<close>.\<close>

lemma chain_next:
  assumes inv: "mem_inv m x" and a: "pk_block m a = Some (Body_block va)" and f: "pk_block m f = Some (Body_block vf)"
    and v: "vb_param_lst v = vb_param_lst (vv_vb x)"
    and c: "pkg_malloc (Body_block zero_via) (vv_mem x) = (Some c, m1)"
    and m2: "m2 = m1\<lparr>pk_block := (pk_block m1)(a \<mapsto> Body_block (v\<lparr>vb_next := Some c\<rparr>))\<rparr>"
    and rest: "chain_ok f (if f = a then v\<lparr>vb_next := Some c\<rparr> else vf) c m2 m'"
  shows "chain_ok f vf a m m'"
proof -
  from inv obtain as where as: "pkg_ok (vv_mem x)" "list_of x as" "set as \<inter> dom (pk_block m) = {}"
    "dom (pk_block (vv_mem x)) = dom (pk_block m) \<union> set as" "\<And>d. d \<in> dom (pk_block m) \<Longrightarrow> pk_block (vv_mem x) d = pk_block m d"
    by (rule mem_invE) blast
  note alloc = pkg_malloc_ok(4) [OF as(1) c refl]
  have new: "c \<notin> dom (pk_block m)" "c \<notin> set as" using alloc as(4) by auto
  have out: "a \<notin> set as" "f \<notin> set as" "f \<noteq> c" "a \<noteq> c" using as(3) a f new by auto
  have b2: "pk_block m2 = (pk_block (vv_mem x))(c \<mapsto> Body_block zero_via, a \<mapsto> Body_block (v\<lparr>vb_next := Some c\<rparr>))"
    using m2 alloc by simp
  have d2: "dom (pk_block m2) = dom (pk_block m) \<union> set as \<union> {c}" using as(4) a by (auto simp: b2)
  from rest obtain bs where bs: "via_chain (pk_block m') (Some c) bs" "distinct (addrs bs)"
    "set (addrs bs) \<inter> dom (pk_block m2) = {c}" "dom (pk_block m') = dom (pk_block m2) \<union> set (addrs bs)" by (auto simp: chain_ok_def)
  have frame: "\<And>d. d \<in> dom (pk_block m2) \<Longrightarrow> d \<noteq> c \<Longrightarrow> d \<noteq> f \<Longrightarrow> pk_block m' d = pk_block m2 d"
    using rest by (auto simp: chain_ok_def)
  obtain er where er: "pk_block m' f = Some (Body_block ((if f = a then v\<lparr>vb_next := Some c\<rparr> else vf)\<lparr>vb_error := er\<rparr>))"
    using rest out(3) by (auto simp: chain_ok_def)
  have "\<exists>w. pk_block m' a = Some (Body_block w) \<and> vb_param_lst w = vb_param_lst (vv_vb x) \<and> vb_next w = Some c"
  proof (cases "f = a")
    case True
    with er v show ?thesis by simp
  next
    case False
    with frame [of a] d2 a out(4) v show ?thesis by (simp add: b2 domI)
  qed
  then obtain w where w: "pk_block m' a = Some (Body_block w)" "vb_param_lst w = vb_param_lst (vv_vb x)" "vb_next w = Some c" by blast
  have same: "pk_block m' d = pk_block (vv_mem x) d" if "d \<in> dom (pk_block m) \<union> set as" "d \<noteq> a" "d \<noteq> f" for d
    using that frame [of d] d2 new by (auto simp: b2)
  have "param_list (pk_block m') (vb_param_lst w) as = param_list (pk_block (vv_mem x)) (vb_param_lst w) as"
    by (rule param_list_cong) (use same out in auto)
  with as(2) w(2) have list: "param_list (pk_block m') (vb_param_lst w) as" by (simp only: list_of_def)
  have "distinct as" using as(2) plist_distinct by (auto simp: list_of_def)
  moreover have cut: "set (addrs bs) \<inter> (dom (pk_block m) \<union> set as) = {}" "c \<in> set (addrs bs)" using bs(3) d2 new by auto
  ultimately have "distinct (addrs ((a, as) # bs))" using bs(2) out(1) a by auto
  moreover have "via_chain (pk_block m') (Some a) ((a, as) # bs)" using w list bs(1) by auto
  moreover have "set (addrs ((a, as) # bs)) \<inter> dom (pk_block m) = {a}" using cut as(3) a by auto
  moreover have "dom (pk_block m') = dom (pk_block m) \<union> set (addrs ((a, as) # bs))" using bs(4) d2 cut(2) a by auto
  moreover have "\<forall>d\<in>dom (pk_block m) - {a, f}. pk_block m' d = pk_block m d" using same as(5) by auto
  moreover have "pkg_ok m'" using rest by (simp add: chain_ok_def)
  moreover have "f \<noteq> a \<longrightarrow> (\<exists>er. pk_block m' f = Some (Body_block (vf\<lparr>vb_error := er\<rparr>)))"
    using er by (intro impI exI [of _ er]) simp
  ultimately show ?thesis unfolding chain_ok_def by (intro conjI exI [of _ "(a, as) # bs"])
qed

section \<open>The parser\<close>

lemma via_error_ok:
  assumes inv: "mem_inv m x" and a: "pk_block m a = Some (Body_block va)" and f: "pk_block m f = Some (Body_block vf)"
    and v: "vb_param_lst v = vb_param_lst (vv_vb x)" "vb_next v = None" and q: "b \<le> q" "q \<le> e"
  shows "via_res_ok buf b e f vf a m (via_error f a q v (vv_mem x))"
proof -
  let ?m = "(vv_mem x)\<lparr>pk_block := (pk_block (vv_mem x))(a \<mapsto> Body_block (v\<lparr>vb_error := True\<rparr>))\<rparr>"
  obtain w where w: "pk_block ?m f = Some (Body_block w)"
    using mem_inv_old [OF inv f] by (cases "f = a") auto
  have "chain_ok f vf a m ?m" by (rule chain_last [OF inv a f]) (use v in simp_all)
  from chain_error [OF this w] f have "chain_ok f vf a m (?m\<lparr>pk_block := (pk_block ?m)(f \<mapsto> Body_block (w\<lparr>vb_error := True\<rparr>))\<rparr>)"
    by blast
  moreover have "via_error f a q v (vv_mem x) = Inr (q, ?m\<lparr>pk_block := (pk_block ?m)(f \<mapsto> Body_block (w\<lparr>vb_error := True\<rparr>))\<rparr>)"
    using mem_inv_old [OF inv a] w by (simp add: via_error_def get_body_def)
  ultimately show ?thesis using q by (simp only: via_res_ok_def sum.case prod.case simp_thms)
qed

lemma via_endofpacket_ok:
  assumes inv: "mem_inv m x" and a: "pk_block m a = Some (Body_block va)" and f: "pk_block m f = Some (Body_block vf)"
    and q: "b \<le> q" "q \<le> e" "e < length buf" "port_fit q (vb_port_str (vv_vb x))"
  shows "via_res_ok buf b e f vf a m (via_endofpacket buf f a b q x)"
proof -
  have next_None: "vb_next (vv_vb x) = None" using inv by (simp add: mem_inv_def)
  note put = pkg_put_simps(2) [OF mem_inv_old [OF inv a]]
  note err = via_error_ok [OF inv a f _ _ q(1,2)]
  have "q < length buf" using q by simp
  show ?thesis
  proof (cases "vv_state x \<in> set end_states")
    case False
    then show ?thesis using next_None by (simp only: via_endofpacket_def if_False) (rule err; simp)
  next
    case True
    show ?thesis
    proof (rule via_finish_ok [OF q(4) \<open>q < length buf\<close>, of b])
      assume "via_finish buf b q (vv_vb x) = Inr None"
      then have "via_endofpacket buf f a b q x =
          via_error f a q ((vv_vb x)\<lparr>vb_bsize := word_of_int (int q - int b), vb_port := 0\<rparr>) (vv_mem x)"
        using True by (simp only: via_endofpacket_def if_True) simp
      with next_None show ?thesis by (simp only:) (rule err; simp)
    next
      fix w assume w: "via_finish buf b q (vv_vb x) = Inr (Some w)" "vb_param_lst w = vb_param_lst (vv_vb x)" "vb_next w = vb_next (vv_vb x)"
      then have "via_endofpacket buf f a b q x = Inr (q, (vv_mem x)\<lparr>pk_block := (pk_block (vv_mem x))(a \<mapsto> Body_block w)\<rparr>)"
        using True put by (simp only: via_endofpacket_def if_True) simp
      with w(2,3) next_None q(1,2) chain_last [OF inv a f, of w] show ?thesis by (simp only: via_res_ok_def sum.case prod.case simp_thms)
    qed
  qed
qed

lemma via_bodies_ok:
  assumes "zero_at buf e" "b \<le> e" "pkg_ok m" "pk_block m a = Some (Body_block va)" "fresh_body va" "pk_block m f = Some (Body_block vf)"
  shows "via_res_ok buf b e f vf a m (via_bodies buf e f a b m)"
  using assms
proof (induction buf e f a b m arbitrary: va vf rule: via_bodies.induct)
  case (1 buf e f a b m)
  note a = 1(5) note f = 1(7)
  have get: "get_body (Some a) m = Inr va" using a by (simp add: get_body_def)
  have e: "e < length buf" using 1(2) by (simp add: zero_at_def)
  have one: "via_jump_ok buf b e m (via_one buf e b va m)" by (rule via_one_ok) (use 1(2-4,6) in simp_all)
  show ?case
  proof (cases "via_one buf e b va m")
    case (To_nextvia p x)
    with one have p: "b \<le> p" "p \<le> e" "mem_inv m x" "port_fit p (vb_port_str (vv_vb x))" by simp_all
    have next_None: "vb_next (vv_vb x) = None" and ok: "pkg_ok (vv_mem x)" using p(3) by (simp_all add: mem_inv_def)
    note err = via_error_ok [OF _ a f _ _ p(1,2)]
    show ?thesis
    proof (rule via_finish_ok [OF p(4) le_less_trans [OF p(2) e], of b])
      assume "via_finish buf b p (vv_vb x) = Inr None"
      with get To_nextvia have "via_bodies buf e f a b m =
          via_error f a p ((vv_vb x)\<lparr>vb_bsize := word_of_int (int p - int b), vb_port := 0\<rparr>) (vv_mem x)"
        by (subst via_bodies.simps) simp
      with next_None show ?thesis by (simp only:) (rule err [OF p(3)]; simp)
    next
      fix w assume w: "via_finish buf b p (vv_vb x) = Inr (Some w)" "vb_param_lst w = vb_param_lst (vv_vb x)" "vb_next w = vb_next (vv_vb x)"
      obtain h m1 where h: "pkg_malloc (Body_block zero_via) (vv_mem x) = (h, m1)" by fastforce
      note alloc = pkg_malloc_ok [OF ok h]
      show ?thesis
      proof (cases h)
        case None
        have "mem_inv m (x\<lparr>vv_mem := m1\<rparr>)" using p(3) alloc(1,3) None by (auto simp: mem_inv_def list_of_def)
        note res = err [OF this]
        have "via_bodies buf e f a b m = via_error f a p (w\<lparr>vb_next := None\<rparr>) m1"
          using get To_nextvia w(1) h None by (subst via_bodies.simps) simp
        with res [of "w\<lparr>vb_next := None\<rparr>" buf] w(2) show ?thesis by simp
      next
        case (Some c)
        let ?m2 = "m1\<lparr>pk_block := (pk_block m1)(a \<mapsto> Body_block (w\<lparr>vb_next := Some c\<rparr>))\<rparr>"
        have c: "pk_block m1 = (pk_block (vv_mem x))(c \<mapsto> Body_block zero_via)" "pk_block (vv_mem x) c = None" using alloc(4) [OF Some] by auto
        note old = mem_inv_old [OF p(3) a] mem_inv_old [OF p(3) f]
        have ac: "a \<noteq> c" "f \<noteq> c" using c(2) old by auto
        have m1a: "pk_block m1 a = Some (Body_block va)" using c(1) ac(1) old(1) by simp
        have put: "pkg_put (Some a) (Body_block (w\<lparr>vb_next := Some c\<rparr>)) m1 = Inr ?m2" using m1a by simp
        have "via_res_ok buf p e f (if f = a then w\<lparr>vb_next := Some c\<rparr> else vf) c ?m2 (via_bodies buf e f c p ?m2)"
        proof (rule "1.IH" [OF get To_nextvia w(1) refl h [unfolded Some, symmetric] refl put 1(2) p(2), of zero_via])
          show "pkg_ok ?m2" by (rule pkg_ok_block [OF alloc(1)]) (use m1a in auto)
          show "pk_block ?m2 c = Some (Body_block zero_via)" using c(1) ac(1) by simp
          show "pk_block ?m2 f = Some (Body_block (if f = a then w\<lparr>vb_next := Some c\<rparr> else vf))" using c(1) ac(2) old(2) by simp
        qed simp
        moreover have "via_bodies buf e f a b m = via_bodies buf e f c p ?m2"
          using get To_nextvia w(1) h Some put by (subst via_bodies.simps) simp
        ultimately show ?thesis
          using chain_next [OF p(3) a f w(2) h [unfolded Some] refl] p(1)
          by (auto simp: via_res_ok_def split: sum.splits)
      qed
    qed
  next
    case (To_endofheader p x)
    with one have p: "b \<le> p" "p \<le> e" "mem_inv m x" "port_fit p (vb_port_str (vv_vb x))" by simp_all
    have "mem_inv m (x\<lparr>vv_state := vv_saved x\<rparr>)" using mem_inv_same [OF p(3)] by (simp add: same_lists_def)
    from via_endofpacket_ok [OF this a f p(1,2) e] p(4) show ?thesis
      using get To_endofheader by (subst via_bodies.simps) (simp add: via_endofheader_def)
  next
    case (To_endofpacket p x)
    with one have p: "b \<le> p" "p \<le> e" "mem_inv m x" "port_fit p (vb_port_str (vv_vb x))" by simp_all
    from via_endofpacket_ok [OF p(3) a f p(1,2) e p(4)] show ?thesis
      using get To_endofpacket by (subst via_bodies.simps) simp
  next
    case (To_parse_error p x)
    with one have p: "b \<le> p" "p \<le> e" "mem_inv m x" by simp_all
    then have "vb_next (vv_vb x) = None" by (simp add: mem_inv_def)
    with via_error_ok [OF p(3) a f _ _ p(1,2)] show ?thesis
      using get To_parse_error by (subst via_bodies.simps) simp
  next
    case (To_error p x)
    with one have p: "b \<le> p" "p \<le> e" "mem_inv m x" by simp_all
    then have "vb_next (vv_vb x) = None" by (simp add: mem_inv_def)
    with via_error_ok [OF p(3) a f _ _ p(1,2)] show ?thesis
      using get To_error by (subst via_bodies.simps) simp
  next
    case (To_main p x)
    with one show ?thesis by simp
  next
    case (To_fault g)
    with one get show ?thesis by (subst via_bodies.simps) (simp add: via_res_ok_def)
  qed
qed

section \<open>Freeing\<close>

lemma free_via_param_list_ok:
  "param_list (pk_block m) h as \<Longrightarrow>
   \<exists>m'. free_via_param_list h m = Some (Inr m') \<and> (\<forall>c. pk_block m' c = (if c \<in> set as then None else pk_block m c))"
proof (induction as arbitrary: h m)
  case Nil
  then show ?case by (simp add: free_via_param_list.simps)
next
  case (Cons a as)
  then obtain v where v: "h = Some a" "pk_block m a = Some (Param_block v)" "param_list (pk_block m) (vp_next v) as" by auto
  from plist_distinct [OF Cons.prems] have out: "a \<notin> set as" by simp
  let ?m = "m\<lparr>pk_block := (pk_block m)(a := None)\<rparr>"
  have "param_list (pk_block ?m) (vp_next v) as = param_list (pk_block m) (vp_next v) as"
    by (rule param_list_cong) (use out in auto)
  with v(3) have "param_list (pk_block ?m) (vp_next v) as" by (simp only:)
  from Cons.IH [OF this] obtain m' where m': "free_via_param_list (vp_next v) ?m = Some (Inr m')"
      "\<And>c. pk_block m' c = (if c \<in> set as then None else pk_block ?m c)" by blast
  have "free_via_param_list h m = Some (Inr m')"
    using v m'(1) by (subst free_via_param_list.simps) (simp add: get_param_def)
  then show ?case using m'(2) by auto
qed

lemma free_via_list_ok:
  "via_chain (pk_block m) h bs \<Longrightarrow> distinct (addrs bs) \<Longrightarrow>
   \<exists>m'. free_via_list h m = Some (Inr m') \<and> (\<forall>c. pk_block m' c = (if c \<in> set (addrs bs) then None else pk_block m c))"
proof (induction bs arbitrary: h m)
  case Nil
  then show ?case by (simp add: free_via_list.simps)
next
  case (Cons z bs)
  obtain a as where z: "z = (a, as)" by (cases z)
  with Cons.prems obtain w where w: "h = Some a" "pk_block m a = Some (Body_block w)" "param_list (pk_block m) (vb_param_lst w) as"
    "via_chain (pk_block m) (vb_next w) bs" by auto
  obtain m1 where m1: "free_via_param_list (vb_param_lst w) m = Some (Inr m1)" "\<And>c. pk_block m1 c = (if c \<in> set as then None else pk_block m c)"
    using free_via_param_list_ok [OF w(3)] by blast
  let ?m = "m1\<lparr>pk_block := (pk_block m1)(a := None)\<rparr>"
  have m1a: "pk_block m1 a = Some (Body_block w)" using m1(2) [of a] w(2) Cons.prems(2) by (simp add: z)
  have "via_chain (pk_block ?m) (vb_next w) bs = via_chain (pk_block m) (vb_next w) bs"
    by (rule via_chain_cong) (use m1(2) Cons.prems(2) in \<open>auto simp: z\<close>)
  with w(4) have "via_chain (pk_block ?m) (vb_next w) bs" by (simp only:)
  from Cons.IH [OF this] Cons.prems(2) obtain m' where m': "free_via_list (vb_next w) ?m = Some (Inr m')"
      "\<And>c. pk_block m' c = (if c \<in> set (addrs bs) then None else pk_block ?m c)" by (auto simp: z)
  have "free_via_list h m = Some (Inr m')"
    using w m1(1) m1a m'(1) by (subst free_via_list.simps) (simp add: get_body_def)
  then show ?case using m' m1(2) by (auto simp: z)
qed

section \<open>Memory safety\<close>

text \<open>
  C12: \<open>parse_via\<close> on any text that ends in a zero byte, whatever the allocator answers. It reads
  nothing behind that byte and follows no null or freed pointer, but for a subtraction of null
  that takes a bracket in the text. Otherwise it returns a place in the text, has touched no
  block of the caller but the body it was given, and leaves a list of bodies and parameters
  that \<open>free_via_list\<close> frees without a fault and completely, whether there was an error or not.
\<close>

theorem parse_via_safe:
  assumes "zero_at buf e" "b \<le> e" "pkg_ok m" "pk_block m f = Some (Body_block zero_via)"
  shows "case parse_via buf b e f m of
      Inl g \<Rightarrow> g = Null_minus \<and> has_bracket buf
    | Inr (q, m') \<Rightarrow>
        b \<le> q \<and> q \<le> e \<and> (\<forall>c\<in>dom (pk_block m) - {f}. pk_block m' c = pk_block m c) \<and>
        (\<exists>m''. free_via_list (Some f) m' = Some (Inr m'') \<and> pk_block m'' = (pk_block m)(f := None))"
proof -
  from via_bodies_ok [OF assms(1-4) fresh_zero assms(4)] have ok: "via_res_ok buf b e f zero_via f m (parse_via buf b e f m)"
    by (simp add: parse_via_def)
  show ?thesis
  proof (cases "parse_via buf b e f m")
    case (Inl g)
    with ok show ?thesis by (simp add: via_res_ok_def)
  next
    case (Inr z)
    obtain q m' where z: "z = (q, m')" by (cases z)
    with ok Inr have q: "b \<le> q" "q \<le> e" and chain: "chain_ok f zero_via f m m'" by (simp_all add: via_res_ok_def)
    from chain obtain bs where bs: "via_chain (pk_block m') (Some f) bs" "distinct (addrs bs)" "set (addrs bs) \<inter> dom (pk_block m) = {f}"
      "dom (pk_block m') = dom (pk_block m) \<union> set (addrs bs)" by (auto simp: chain_ok_def)
    have frame: "\<forall>c\<in>dom (pk_block m) - {f}. pk_block m' c = pk_block m c" using chain by (simp add: chain_ok_def)
    from free_via_list_ok [OF bs(1,2)] obtain m'' where m'': "free_via_list (Some f) m' = Some (Inr m'')"
      "\<And>c. pk_block m'' c = (if c \<in> set (addrs bs) then None else pk_block m' c)" by blast
    have "pk_block m'' c = ((pk_block m)(f := None)) c" for c
    proof (cases "c \<in> dom (pk_block m)")
      case True
      with frame bs(3) m''(2) [of c] show ?thesis by (cases "c = f") auto
    next
      case False
      with bs(3,4) m''(2) [of c] show ?thesis by (auto simp: domIff)
    qed
    with q frame m''(1) Inr z show ?thesis by auto
  qed
qed

theorem parse_via_safe_witness:
  "case parse_via (''SIP/2.0/UDP h;rport'' @ [CHR 0x0D, CHR 0x0A, CHR ''X'', CHR 0x00]) 0 22 7
      \<lparr>pk_block = [7 \<mapsto> Body_block zero_via], pk_answers = [Some 1, None]\<rparr> of
      Inl g \<Rightarrow> g = Null_minus \<and> has_bracket (''SIP/2.0/UDP h;rport'' @ [CHR 0x0D, CHR 0x0A, CHR ''X'', CHR 0x00])
    | Inr (q, m') \<Rightarrow> q \<le> 22 \<and>
        (\<exists>m''. free_via_list (Some 7) m' = Some (Inr m'') \<and> pk_block m'' = Map.empty)"
  using parse_via_safe [of "''SIP/2.0/UDP h;rport'' @ [CHR 0x0D, CHR 0x0A, CHR ''X'', CHR 0x00]" 22 0
      "\<lparr>pk_block = [7 \<mapsto> Body_block zero_via], pk_answers = [Some 1, None]\<rparr>" 7]
  by (simp add: zero_at_def pkg_ok_def fresh_answers_def split: sum.splits prod.splits)

end
