(* ===== verification/Via_Header.thy ===== *)
theory Via_Header
  imports Via_Props Via_Lists Via_Chain
begin

text \<open>
  A printed Via header, parsed back: protocol, host, port, the list of parameters with the shortcuts to
  the important ones.
\<close>

section \<open>A parameter in the main loop\<close>

definition via_plain_char :: "char \<Rightarrow> bool" where
  "via_plain_char c \<longleftrightarrow> via_value_char c \<and> c \<notin> {CHR '':'', CHR ''('', CHR '')'', CHR ''['', CHR '']''}"

lemma main_step_plain: "p < length buf \<Longrightarrow> via_plain_char (buf ! p) \<Longrightarrow> main_step buf e p x = main_other buf e p x"
  by (simp add: main_step_def via_plain_char_def via_value_char_def via_name_char_def)

definition params_begin :: "nat \<Rightarrow> via_body \<Rightarrow> via_body" where
  "params_begin s b = (if str_s (vb_params b) = NullP then b\<lparr>vb_params := Str (Buf s) (str_len (vb_params b))\<rparr> else b)"

lemma unlisted_shortcut: "unlisted (param_shortcut ty a b) = param_shortcut ty a (unlisted b)"
  by (simp add: unlisted_def param_shortcut_def)

lemma unlisted_params_begin: "unlisted (params_begin s b) = params_begin s (unlisted b)"
  by (simp add: unlisted_def params_begin_def)

text \<open>The parameter printed as \<open>t=v\<close> at \<open>p\<close>.\<close>

definition param_at :: "nat \<Rightarrow> string \<times> string \<Rightarrow> via_param" where
  "param_at p = (\<lambda>(t, v). \<lparr>vp_type = via_param_type t, vp_name = span p (p + length t),
     vp_value = span (p + length t + 1) (p + length (t @ ''='' @ v)), vp_start = Buf p,
     vp_size = int (length (t @ ''='' @ v)), vp_next = None\<rparr>)"

definition good_param :: "string \<times> string \<Rightarrow> bool" where
  "good_param = (\<lambda>(t, v). t \<noteq> [] \<and> v \<noteq> [] \<and> list_all via_name_char t \<and> via_plain_char (hd t) \<and> list_all via_value_char v \<and>
     via_param_type t \<noteq> PARAM_HIDDEN \<and> via_param_type t \<noteq> PARAM_ALIAS)"

lemma main_step_param:
  assumes st: "stands buf p (t @ ''='' @ v @ [c])" "p + length t < e" "good_param (t, v)" "c = CHR '';'' \<or> c = CHR 0x0D"
    and x: "vv_state x = F_PARAM" "vv_param_start x = Buf p" "list_of x as" "pkg_ok (vv_mem x)"
      "pk_answers (vv_mem x) = Some a # rest" "set as \<subseteq> dom (pk_block (vv_mem x))"
  obtains y where "main_step buf e p x = Inr (p + length (t @ ''='' @ v), y)"
    "vv_state y = fst (sep_states c (vv_saved x))" "vv_saved y = snd (sep_states c (vv_saved x))"
    "c = CHR '';'' \<Longrightarrow> vv_param_start y = Buf (p + length (t @ ''='' @ v) + 1)"
    "list_of y (as @ [a])" "pkg_ok (vv_mem y)" "pk_answers (vv_mem y) = rest" "a \<notin> dom (pk_block (vv_mem x))"
    "dom (pk_block (vv_mem y)) = insert a (dom (pk_block (vv_mem x)))"
    "view (vv_mem y) a = Some (param_at p (t, v))" "\<And>d. d \<noteq> a \<Longrightarrow> view (vv_mem y) d = view (vv_mem x) d"
    "\<And>d. d \<notin> set as \<Longrightarrow> d \<noteq> a \<Longrightarrow> pk_block (vv_mem y) d = pk_block (vv_mem x) d"
    "unlisted (vv_vb y) = param_shortcut (via_param_type t) a (params_begin p (unlisted (vv_vb x)))"
proof -
  from st(3) have good: "t \<noteq> []" "v \<noteq> []" "list_all via_name_char t" "via_plain_char (hd t)" "list_all via_value_char v"
    "via_param_type t \<noteq> PARAM_HIDDEN" "via_param_type t \<noteq> PARAM_ALIAS" by (simp_all add: good_param_def)
  let ?q = "p + length (t @ ''='' @ v)"
  let ?x = "on_body (params_begin p) x" let ?v = "new_via_param (Buf p)"
  let ?w = "param_at p (t, v)"
  have hd: "p < length buf" "via_plain_char (buf ! p)"
    using st(1) good(1,4) by (cases t; simp add: stands_Cons)+
  let ?m1 = "(vv_mem x)\<lparr>pk_block := (pk_block (vv_mem x))(a \<mapsto> Param_block ?v), pk_answers := rest\<rparr>"
  have malloc: "pkg_malloc (Param_block ?v) (vv_mem x) = (Some a, ?m1)" using x(5) by (simp add: pkg_malloc_def)
  note alloc = pkg_malloc_ok(1,4) [OF x(4) malloc]
  have parse: "parse_via_param buf e p F_PARAM (vv_saved x) ?v =
      Inr (?q, \<lparr>pa_state = fst (sep_states c (vv_saved x)), pa_saved = snd (sep_states c (vv_saved x)), pa_param = ?w\<rparr>)"
    using param_with_value [OF st(1) good(1,3) st(2) good(2,5), of ?v p] st(4) good(6,7)
    by (auto simp: new_via_param_def param_at_def)
  let ?m2 = "?m1\<lparr>pk_block := (pk_block ?m1)(a \<mapsto> Param_block ?w)\<rparr>"
  let ?z = "?x\<lparr>vv_mem := ?m2, vv_state := fst (sep_states c (vv_saved x)), vv_saved := snd (sep_states c (vv_saved x))\<rparr>"
  have "main_param buf e p x = param_parsed a ?w ?q ?z"
    using malloc parse x(1,2) by (simp add: main_param_def Let_def on_body_def params_begin_def)
  moreover have "main_step buf e p x = main_param buf e p x"
    using main_step_plain [OF hd] x(1) by (simp add: main_other_def)
  moreover obtain u where u: "u = (if c = CHR '';'' then ?z\<lparr>vv_param_start := Buf (?q + 1)\<rparr> else ?z)" by blast
  moreover have "param_parsed a ?w ?q ?z = keep_param a ?w ?q u"
    using st(4) by (auto simp: param_parsed_def sep_states_def Let_def u)
  ultimately have step: "main_step buf e p x = keep_param a ?w ?q u" by simp
  have out: "a \<notin> dom (pk_block (vv_mem x))" "a \<notin> set as" using alloc(2) [OF refl] x(6) by auto
  have b2: "pk_block ?m2 = (pk_block (vv_mem x))(a \<mapsto> Param_block ?w)" by simp
  have "list_of ?z as"
    by (rule list_of_frame [OF x(3)]) (use out(2) in \<open>auto simp: on_body_def params_begin_def\<close>)
  from list_of_frame [OF this, of u] have lu: "list_of u as" by (simp add: u)
  have mu: "vv_mem u = ?m2" "vv_vb u = params_begin p (vv_vb x)" by (simp_all add: u on_body_def)
  have "pk_block (vv_mem u) a = Some (Param_block ?w)" "vp_next ?w = None" by (simp_all add: mu param_at_def)
  from link_via_param_ok [OF lu this out(2)] obtain y where y: "link_via_param a u = Inr y" "list_of y (as @ [a])"
    "\<And>c. view (vv_mem y) c = view (vv_mem u) c" "\<And>c. c \<notin> set as \<Longrightarrow> pk_block (vv_mem y) c = pk_block (vv_mem u) c"
    "dom (pk_block (vv_mem y)) = dom (pk_block (vv_mem u))" "pk_answers (vv_mem y) = pk_answers (vv_mem u)"
    "unlisted (vv_vb y) = unlisted (vv_vb u)" "vv_state y = vv_state u" "vv_saved y = vv_saved u"
    "vv_param_start y = vv_param_start u" "vv_nest y = vv_nest u" by blast
  let ?y = "on_body (param_shortcut (via_param_type t) a) y"
  have eoh: "vv_state u \<noteq> END_OF_HEADER" using st(4) by (auto simp: u sep_states_def)
  have ty: "vp_type ?w = via_param_type t" by (simp add: param_at_def)
  have res: "main_step buf e p x = Inr (?q, ?y)"
    using y(1,8) eoh by (simp add: step keep_param_def via_then_def Let_def on_body_def ty)
  have "pkg_ok ?m2" using alloc(1) by (simp add: pkg_ok_def fresh_answers_def)
  then have ok: "pkg_ok (vv_mem ?y)" using y(5,6) by (simp add: pkg_ok_def fresh_answers_def on_body_def mu)
  show ?thesis
  proof (rule that [OF res])
    show "list_of ?y (as @ [a])" using y(2) by (simp add: list_of_def on_body_def)
    show "view (vv_mem ?y) a = Some ?w" using y(3) by (simp add: on_body_def view_def mu param_at_def)
    show "view (vv_mem ?y) d = view (vv_mem x) d" if "d \<noteq> a" for d using y(3) [of d] that by (simp add: on_body_def view_def mu)
    show "unlisted (vv_vb ?y) = param_shortcut (via_param_type t) a (params_begin p (unlisted (vv_vb x)))"
      using y(7) mu(2) by (simp add: on_body_def unlisted_shortcut unlisted_params_begin)
  qed (use y(4-6,8-10) ok out(1) in \<open>auto simp: on_body_def u\<close>)
qed

section \<open>All parameters\<close>

fun params_text :: "(string \<times> string) list \<Rightarrow> string" where
  "params_text [] = []"
| "params_text ((t, v) # ps) = CHR '';'' # t @ ''='' @ v @ params_text ps"

text \<open>The parameters whose text stands from \<open>p\<close> on, behind a semicolon.\<close>

fun params_at :: "nat \<Rightarrow> (string \<times> string) list \<Rightarrow> via_param list" where
  "params_at p [] = []"
| "params_at p ((t, v) # ps) = param_at p (t, v) # params_at (p + length (t @ ''='' @ v) + 1) ps"

fun with_shortcuts :: "(string \<times> string) list \<Rightarrow> nat list \<Rightarrow> via_body \<Rightarrow> via_body" where
  "with_shortcuts ((t, v) # ps) (a # as) b = with_shortcuts ps as (param_shortcut (via_param_type t) a b)"
| "with_shortcuts _ _ b = b"

lemma params_begin_once: "params_begin q (param_shortcut ty a (params_begin p b)) = param_shortcut ty a (params_begin p b)"
  by (simp add: params_begin_def)

lemma scan_via_params:
  assumes "stands buf p (t @ ''='' @ v @ params_text ps @ [CHR 0x0D])" "p + length (t @ ''='' @ v @ params_text ps) < e"
    "list_all good_param ((t, v) # ps)"
    and "vv_state x = F_PARAM" "vv_param_start x = Buf p" "list_of x as" "pkg_ok (vv_mem x)"
      "pk_answers (vv_mem x) = map Some bs @ rest" "set as \<subseteq> dom (pk_block (vv_mem x))" "length bs = Suc (length ps)"
  shows "\<exists>y. scan (main_step buf e) (Suc (length buf)) p x =
      scan (main_step buf e) (Suc (length buf)) (p + length (t @ ''='' @ v @ params_text ps) + 1) y \<and>
    vv_state y = F_CR \<and> vv_saved y = L_PARAM \<and> list_of y (as @ bs) \<and> pkg_ok (vv_mem y) \<and> pk_answers (vv_mem y) = rest \<and>
    set bs \<inter> dom (pk_block (vv_mem x)) = {} \<and> dom (pk_block (vv_mem y)) = set bs \<union> dom (pk_block (vv_mem x)) \<and>
    map (view (vv_mem y)) bs = map Some (params_at p ((t, v) # ps)) \<and>
    (\<forall>d. d \<notin> set bs \<longrightarrow> view (vv_mem y) d = view (vv_mem x) d) \<and>
    (\<forall>d. d \<notin> set as \<longrightarrow> d \<notin> set bs \<longrightarrow> pk_block (vv_mem y) d = pk_block (vv_mem x) d) \<and>
    unlisted (vv_vb y) = with_shortcuts ((t, v) # ps) bs (params_begin p (unlisted (vv_vb x)))"
  using assms
proof (induction ps arbitrary: p t v x as bs)
  case Nil
  from Nil.prems(10) obtain a where bs: "bs = [a]" by (cases bs) auto
  have st: "stands buf p (t @ ''='' @ v @ [CHR 0x0D])" "p + length t < e" "good_param (t, v)" using Nil.prems(1-3) by simp_all
  have ans: "pk_answers (vv_mem x) = Some a # rest" using Nil.prems(8) bs by simp
  obtain y where y: "main_step buf e p x = Inr (p + length (t @ ''='' @ v), y)"
    "vv_state y = fst (sep_states (CHR 0x0D) (vv_saved x))" "vv_saved y = snd (sep_states (CHR 0x0D) (vv_saved x))"
    "list_of y (as @ [a])" "pkg_ok (vv_mem y)" "pk_answers (vv_mem y) = rest" "a \<notin> dom (pk_block (vv_mem x))"
    "dom (pk_block (vv_mem y)) = insert a (dom (pk_block (vv_mem x)))"
    "view (vv_mem y) a = Some (param_at p (t, v))" "\<And>d. d \<noteq> a \<Longrightarrow> view (vv_mem y) d = view (vv_mem x) d"
    "\<And>d. d \<notin> set as \<Longrightarrow> d \<noteq> a \<Longrightarrow> pk_block (vv_mem y) d = pk_block (vv_mem x) d"
    "unlisted (vv_vb y) = param_shortcut (via_param_type t) a (params_begin p (unlisted (vv_vb x)))"
    by (rule main_step_param [OF st disjI2 [OF refl] Nil.prems(4-7) ans Nil.prems(9)]) blast
  have "p < Suc (length buf)" using st(1) by (simp add: stands_def)
  from scan_jump [where body = "main_step buf e", OF this y(1)]
  have "scan (main_step buf e) (Suc (length buf)) p x = scan (main_step buf e) (Suc (length buf)) (p + length (t @ ''='' @ v @ params_text []) + 1) y"
    by simp
  then show ?case using y(2-) by (intro exI [of _ y]) (simp add: bs sep_states_def)
next
  case (Cons z ps)
  obtain t' v' where z: "z = (t', v')" by (cases z)
  from Cons.prems(10) obtain a bs' where bs: "bs = a # bs'" "length bs' = Suc (length ps)" by (cases bs) auto
  let ?q = "p + length (t @ ''='' @ v)"
  have st: "stands buf p (t @ ''='' @ v @ [CHR '';''])" "p + length t < e" "good_param (t, v)"
    using Cons.prems(1-3) by (simp_all add: z stands_append stands_Cons)
  have ans: "pk_answers (vv_mem x) = Some a # map Some bs' @ rest" using Cons.prems(8) bs by simp
  obtain y where y: "main_step buf e p x = Inr (?q, y)"
    "vv_state y = fst (sep_states (CHR '';'') (vv_saved x))" "vv_saved y = snd (sep_states (CHR '';'') (vv_saved x))"
    "vv_param_start y = Buf (?q + 1)"
    "list_of y (as @ [a])" "pkg_ok (vv_mem y)" "pk_answers (vv_mem y) = map Some bs' @ rest" "a \<notin> dom (pk_block (vv_mem x))"
    "dom (pk_block (vv_mem y)) = insert a (dom (pk_block (vv_mem x)))"
    "view (vv_mem y) a = Some (param_at p (t, v))" "\<And>d. d \<noteq> a \<Longrightarrow> view (vv_mem y) d = view (vv_mem x) d"
    "\<And>d. d \<notin> set as \<Longrightarrow> d \<noteq> a \<Longrightarrow> pk_block (vv_mem y) d = pk_block (vv_mem x) d"
    "unlisted (vv_vb y) = param_shortcut (via_param_type t) a (params_begin p (unlisted (vv_vb x)))"
    by (rule main_step_param [OF st disjI1 [OF refl] Cons.prems(4-7) ans Cons.prems(9)]) blast
  have "stands buf (?q + 1) (t' @ ''='' @ v' @ params_text ps @ [CHR 0x0D])"
    using Cons.prems(1) by (simp add: z stands_append stands_Cons add.assoc)
  moreover have "?q + 1 + length (t' @ ''='' @ v' @ params_text ps) < e" using Cons.prems(2) by (simp add: z)
  moreover have "list_all good_param ((t', v') # ps)" using Cons.prems(3) z by simp
  moreover have "vv_state y = F_PARAM" using y(2) by (simp add: sep_states_def)
  moreover have "set (as @ [a]) \<subseteq> dom (pk_block (vv_mem y))" using Cons.prems(9) y(9) by auto
  ultimately obtain w where w: "scan (main_step buf e) (Suc (length buf)) (?q + 1) y =
      scan (main_step buf e) (Suc (length buf)) (?q + 1 + length (t' @ ''='' @ v' @ params_text ps) + 1) w"
    "vv_state w = F_CR" "vv_saved w = L_PARAM" "list_of w ((as @ [a]) @ bs')" "pkg_ok (vv_mem w)" "pk_answers (vv_mem w) = rest"
    "set bs' \<inter> dom (pk_block (vv_mem y)) = {}" "dom (pk_block (vv_mem w)) = set bs' \<union> dom (pk_block (vv_mem y))"
    "map (view (vv_mem w)) bs' = map Some (params_at (?q + 1) ((t', v') # ps))"
    "\<forall>d. d \<notin> set bs' \<longrightarrow> view (vv_mem w) d = view (vv_mem y) d"
    "\<forall>d. d \<notin> set (as @ [a]) \<longrightarrow> d \<notin> set bs' \<longrightarrow> pk_block (vv_mem w) d = pk_block (vv_mem y) d"
    "unlisted (vv_vb w) = with_shortcuts ((t', v') # ps) bs' (params_begin (?q + 1) (unlisted (vv_vb y)))"
    using Cons.IH [of "?q + 1" t' v' y "as @ [a]" bs'] y(4-7) bs(2) by blast
  have "p < Suc (length buf)" using st(1) by (simp add: stands_def)
  from scan_jump [where body = "main_step buf e", OF this y(1)] w(1)
  have "scan (main_step buf e) (Suc (length buf)) p x =
      scan (main_step buf e) (Suc (length buf)) (p + length (t @ ''='' @ v @ params_text (z # ps)) + 1) w"
    by (simp add: z add.assoc)
  moreover have "view (vv_mem w) a = Some (param_at p (t, v))" using w(7,10) y(9,10) by auto
  moreover have "unlisted (vv_vb w) = with_shortcuts ((t, v) # z # ps) bs (params_begin p (unlisted (vv_vb x)))"
    using w(12) y(13) by (simp add: z bs(1) params_begin_once)
  ultimately show ?case
    using w(2-11) y(8,9,11,12) by (intro exI [of _ w]) (auto simp: z bs(1))
qed

section \<open>The start of the header\<close>

definition via_protos :: "(string \<times> u16) list" where
  "via_protos = [(''UDP'', PROTO_UDP), (''TCP'', PROTO_TCP), (''TLS'', PROTO_TLS), (''SCTP'', PROTO_SCTP)]"

lemma start_scan_step:
  "p < e \<Longrightarrow> p < length buf \<Longrightarrow> scan (start_step buf) e p x =
     (case (case map_of start_switch (buf ! p) of None \<Rightarrow> Inl (To_parse_error p x) | Some f \<Rightarrow> f p x) of
        Inl r \<Rightarrow> Inl r | Inr (q, y) \<Rightarrow> scan (start_step buf) e (Suc (max p q)) y)"
  by (subst scan.simps) (simp add: start_step_def)

lemmas start_funs = start_space_def start_s_def start_i_def start_p_def start_u_def start_d_def start_t_def start_c_def start_l_def
  start_2_def start_dot_def start_0_def start_slash_def start_next_def transport_over_def

lemma start_scan_version:
  assumes "stands buf b ''SIP/2.0/''" "b + 8 \<le> e"
    "vv_state x = F_SIP"
  shows "scan (start_step buf) e b x = scan (start_step buf) e (b + 8)
    (x\<lparr>vv_state := F_PROTO, vv_vb := (vv_vb x)\<lparr>vb_name := span b (b + 3), vb_version := span (b + 4) (b + 7)\<rparr>\<rparr>)"
  using assms
  by (cases x) (simp add: stands_Cons start_scan_step start_switch_def start_funs via_moves via_then_def via_name_at_def via_name_end_def
      via_version_at_def via_version_end_def on_body_def Let_def numeral_eq_Suc)

lemma start_scan_transport:
  assumes "stands buf p (tr @ '' '')" "(tr, pr) \<in> set via_protos" "p + length tr < e" "vv_state x = F_PROTO"
  shows "scan (start_step buf) e p x = Inl (To_main (p + length tr)
    (x\<lparr>vv_state := F_HOST, vv_vb := (vv_vb x)\<lparr>vb_transport := span p (p + length tr), vb_proto := pr\<rparr>\<rparr>))"
proof -
  note defs = stands_Cons start_scan_step start_switch_def start_funs via_moves via_then_def via_transport_at_def
      via_transport_end_def on_body_def Let_def numeral_eq_Suc
  from assms(2) consider "tr = ''UDP''" "pr = PROTO_UDP" | "tr = ''TCP''" "pr = PROTO_TCP" | "tr = ''TLS''" "pr = PROTO_TLS"
    | "tr = ''SCTP''" "pr = PROTO_SCTP" by (auto simp: via_protos_def)
  then show ?thesis
    by cases (use assms in \<open>cases x, simp add: defs\<close>)+
qed

lemma via_start_at:
  assumes "stands buf b (''SIP/2.0/'' @ tr @ '' '')" "(tr, pr) \<in> set via_protos" "b + 8 + length tr < e"
  shows "via_start buf e b vb m = Inl (To_main (b + 8 + length tr)
    \<lparr>vv_state = F_HOST, vv_saved = 0, vv_param_start = NullP, vv_nest = 0,
      vv_vb = vb\<lparr>vb_error := True, vb_name := span b (b + 3), vb_version := span (b + 4) (b + 7),
        vb_transport := span (b + 8) (b + 8 + length tr), vb_proto := pr\<rparr>, vv_mem = m\<rparr>)"
proof -
  let ?x = "\<lparr>vv_state = F_SIP, vv_saved = 0, vv_param_start = NullP, vv_nest = 0, vv_vb = vb\<lparr>vb_error := True\<rparr>, vv_mem = m\<rparr>"
  have "stands buf b ''SIP/2.0/'' \<and> stands buf (b + 8) (tr @ '' '')" using assms(1) by (simp add: stands_append stands_Cons numeral_eq_Suc)
  then have st: "stands buf b ''SIP/2.0/''" "stands buf (b + 8) (tr @ '' '')" by simp_all
  have "scan (start_step buf) e b ?x = scan (start_step buf) e (b + 8)
    (?x\<lparr>vv_state := F_PROTO, vv_vb := (vv_vb ?x)\<lparr>vb_name := span b (b + 3), vb_version := span (b + 4) (b + 7)\<rparr>\<rparr>)" (is "_ = scan _ _ _ ?y")
    using start_scan_version [OF st(1), of e ?x] assms(3) by simp
  also have "\<dots> = Inl (To_main (b + 8 + length tr)
    (?y\<lparr>vv_state := F_HOST, vv_vb := (vv_vb ?y)\<lparr>vb_transport := span (b + 8) (b + 8 + length tr), vb_proto := pr\<rparr>\<rparr>))"
    by (rule start_scan_transport [OF st(2) assms(2)]) (use assms(3) in simp_all)
  finally show ?thesis by (simp add: via_start_def)
qed

section \<open>Host and port\<close>

lemma scan_host:
  assumes "stands buf p h" "h \<noteq> []" "list_all via_plain_char h" "vv_state x = F_HOST"
  shows "scan (main_step buf e) (Suc (length buf)) p x =
    scan (main_step buf e) (Suc (length buf)) (p + length h) ((via_host_at p x)\<lparr>vv_state := P_HOST\<rparr>)"
proof -
  obtain c s where h: "h = c # s" using assms(2) by (cases h) auto
  let ?y = "(via_host_at p x)\<lparr>vv_state := P_HOST\<rparr>"
  have "main_step buf e p x = Inr (p, ?y)"
    using assms by (simp add: h stands_Cons main_step_plain main_other_def via_on_def)
  then have "scan (main_step buf e) (Suc (length buf)) p x = scan (main_step buf e) (Suc (length buf)) (Suc p) ?y"
    using assms(1) h by (intro scan_on) (simp_all add: stands_Cons)
  also have "\<dots> = scan (main_step buf e) (Suc (length buf)) (p + length h) ?y"
  proof (rule scan_same)
    fix i assume i: "Suc p \<le> i" "i < p + length h"
    then have "buf ! i \<in> set h" "i < length buf" using stands_mem [OF assms(1)] assms(1) by (auto simp: stands_def)
    with assms(3) show "main_step buf e i ?y = Inr (i, ?y)" by (simp add: main_step_plain list_all_iff main_other_def)
  qed (use assms(1) h in \<open>simp_all add: stands_def\<close>)
  finally show ?thesis .
qed

lemma digit_plain: "is_digit_char c \<Longrightarrow> via_plain_char c"
  by (auto simp: is_digit_char_def via_plain_char_def via_value_char_def via_name_char_def)

lemma scan_port:
  assumes "stands buf p (CHR '':'' # ds)" "ds \<noteq> []" "list_all is_digit_char ds" "vv_state x = P_HOST" "str_s (vb_host (vv_vb x)) = Buf a"
  shows "scan (main_step buf e) (Suc (length buf)) p x = scan (main_step buf e) (Suc (length buf)) (p + 1 + length ds)
    ((via_port_at (p + 1) (on_body (\<lambda>b. b\<lparr>vb_host := span a p\<rparr>) x))\<lparr>vv_state := P_PORT\<rparr>)"
proof -
  obtain c s where ds: "ds = c # s" using assms(2) by (cases ds) auto
  let ?x = "(on_body (\<lambda>b. b\<lparr>vb_host := span a p\<rparr>) x)\<lparr>vv_state := F_PORT\<rparr>"
  let ?y = "(via_port_at (p + 1) (on_body (\<lambda>b. b\<lparr>vb_host := span a p\<rparr>) x))\<lparr>vv_state := P_PORT\<rparr>"
  have st: "p < length buf" "buf ! p = CHR '':''" "stands buf (p + 1) ds" using assms(1) by (simp_all add: stands_Cons)
  have plain: "list_all via_plain_char ds" using assms(3) digit_plain by (auto simp: list_all_iff)
  have "main_step buf e p x = Inr (p, ?x)"
    using st(1,2) assms(4,5) by (simp add: main_step_def main_colon_def via_then_def via_host_end_def via_on_def)
  then have "scan (main_step buf e) (Suc (length buf)) p x = scan (main_step buf e) (Suc (length buf)) (Suc p) ?x"
    using st(1) by (intro scan_on) simp_all
  also have "main_step buf e (Suc p) ?x = Inr (Suc p, ?y)"
    using st(3) plain by (simp add: ds stands_Cons main_step_plain main_other_def via_on_def via_port_at_def on_body_def)
  then have "scan (main_step buf e) (Suc (length buf)) (Suc p) ?x = scan (main_step buf e) (Suc (length buf)) (Suc (Suc p)) ?y"
    using st(3) ds by (intro scan_on) (simp_all add: stands_Cons)
  also have "\<dots> = scan (main_step buf e) (Suc (length buf)) (p + 1 + length ds) ?y"
  proof (rule scan_same)
    fix i assume i: "Suc (Suc p) \<le> i" "i < p + 1 + length ds"
    then have "buf ! i \<in> set ds" "i < length buf" using stands_mem [OF st(3)] st(3) by (auto simp: stands_def)
    with plain show "main_step buf e i ?y = Inr (i, ?y)" by (simp add: main_step_plain list_all_iff main_other_def)
  qed (use st(3) ds in \<open>simp_all add: stands_def\<close>)
  finally show ?thesis .
qed

text \<open>\<open>str2s\<close> of digits.\<close>

lemma str2s_digits_value:
  assumes "list_all is_digit_char ds" "i + length ds \<le> 5"
  shows "str2s_digits ds (of_nat n) i = Some (of_nat (foldl (\<lambda>v c. v * 10 + (of_char c - 48)) n ds))"
  using assms
proof (induction ds arbitrary: n i)
  case (Cons c ds)
  then have eq: "(of_nat n * 10 + of_char c - 48 :: u16) = of_nat (n * 10 + (of_char c - 48))"
    by (simp add: is_digit_char_def of_nat_diff of_nat_of_char)
  have "str2s_digits (c # ds) (of_nat n) i = str2s_digits ds (of_nat n * 10 + of_char c - 48) (i + 1)"
    using Cons.prems by (simp add: is_digit_char_def)
  also have "\<dots> = str2s_digits ds (of_nat (n * 10 + (of_char c - 48))) (i + 1)" by (simp only: eq)
  also have "\<dots> = Some (of_nat (foldl (\<lambda>v c. v * 10 + (of_char c - 48)) (n * 10 + (of_char c - 48)) ds))"
    by (rule Cons.IH) (use Cons.prems in simp_all)
  finally show ?case by simp
qed simp

lemma str2s_digits_dec: "list_all is_digit_char ds \<Longrightarrow> length ds \<le> 5 \<Longrightarrow> str2s_digits ds 0 0 = Some (of_nat (dec_value ds))"
  using str2s_digits_value [of ds 0 0] by (simp add: dec_value_def)

text \<open>Everything in front of the parameters.\<close>

fun via_port_text :: "string option \<Rightarrow> string" where
  "via_port_text None = []"
| "via_port_text (Some ds) = CHR '':'' # ds"

definition via_head :: "string \<Rightarrow> string \<Rightarrow> string option \<Rightarrow> string" where
  "via_head tr h port = ''SIP/2.0/'' @ tr @ '' '' @ h @ via_port_text port"

definition head_body :: "nat \<Rightarrow> string \<Rightarrow> u16 \<Rightarrow> string \<Rightarrow> string option \<Rightarrow> via_body \<Rightarrow> via_body" where
  "head_body b tr pr h port v =
     (let t = b + 8 + length tr; k = t + 1 + length h
      in v\<lparr>vb_error := True, vb_name := span b (b + 3), vb_version := span (b + 4) (b + 7), vb_transport := span (b + 8) t,
           vb_proto := pr, vb_host := span (t + 1) k,
           vb_port_str := (case port of None \<Rightarrow> vb_port_str v | Some ds \<Rightarrow> span (k + 1) (k + 1 + length ds))\<rparr>)"

definition good_head :: "string \<Rightarrow> u16 \<Rightarrow> string \<Rightarrow> string option \<Rightarrow> bool" where
  "good_head tr pr h port \<longleftrightarrow> (tr, pr) \<in> set via_protos \<and> h \<noteq> [] \<and> list_all via_plain_char h \<and>
     (\<forall>ds. port = Some ds \<longrightarrow> ds \<noteq> [] \<and> length ds \<le> 5 \<and> list_all is_digit_char ds)"

text \<open>The first semicolon, or the end of the line.\<close>

definition head_over :: "char \<Rightarrow> nat \<Rightarrow> via_vars \<Rightarrow> bool" where
  "head_over c p x \<longleftrightarrow> (c = CHR '';'' \<longrightarrow> vv_state x = F_PARAM \<and> vv_param_start x = Buf (p + 1)) \<and>
     (c = CHR 0x0D \<longrightarrow> vv_state x = F_CR \<and> vv_saved x \<in> {L_PORT, L_PARAM}) \<and>
     (c = CHR ''('' \<longrightarrow> vv_state x = F_COMMENT \<and> vv_nest x = 1)"

lemma main_step_sep:
  assumes "n < length buf" "buf ! n = c" "c \<in> {CHR '';'', CHR 0x0D, CHR ''(''}" "vv_nest z = 0"
  shows "vv_state z = P_HOST \<Longrightarrow> str_s (vb_host (vv_vb z)) = Buf a \<Longrightarrow>
      \<exists>x. main_step buf e n z = Inr (n, x) \<and> vv_vb x = (vv_vb z)\<lparr>vb_host := span a n\<rparr> \<and> vv_mem x = vv_mem z \<and> head_over c n x"
    "vv_state z = P_PORT \<Longrightarrow> str_s (vb_port_str (vv_vb z)) = Buf a \<Longrightarrow>
      \<exists>x. main_step buf e n z = Inr (n, x) \<and> vv_vb x = (vv_vb z)\<lparr>vb_port_str := span a n\<rparr> \<and> vv_mem x = vv_mem z \<and> head_over c n x"
proof -
  have sep: "main_step buf e n z = (if c = CHR '';'' then main_semicolon n z else if c = CHR 0x0D then main_cr n z else main_open n z)"
    using assms(1-3) by (auto simp: main_step_def)
  show "\<exists>x. main_step buf e n z = Inr (n, x) \<and> vv_vb x = (vv_vb z)\<lparr>vb_host := span a n\<rparr> \<and> vv_mem x = vv_mem z \<and> head_over c n x"
    if "vv_state z = P_HOST" "str_s (vb_host (vv_vb z)) = Buf a"
    unfolding sep using that assms(3,4)
    by (auto simp: main_open_def comment_opens_def main_semicolon_def main_cr_def main_line_def via_then_def via_host_end_def param_follows_def via_on_def via_fold_def
        on_body_def head_over_def)
  show "\<exists>x. main_step buf e n z = Inr (n, x) \<and> vv_vb x = (vv_vb z)\<lparr>vb_port_str := span a n\<rparr> \<and> vv_mem x = vv_mem z \<and> head_over c n x"
    if "vv_state z = P_PORT" "str_s (vb_port_str (vv_vb z)) = Buf a"
    unfolding sep using that assms(3,4)
    by (auto simp: main_open_def comment_opens_def main_semicolon_def main_cr_def main_line_def via_then_def via_port_end_def param_follows_def via_on_def via_fold_def
        on_body_def head_over_def)
qed

lemma via_one_head:
  assumes st: "stands buf b (via_head tr h port @ [c])" and good: "good_head tr pr h port" and e: "b + length (via_head tr h port) < e"
    and c: "c \<in> {CHR '';'', CHR 0x0D, CHR ''(''}"
  shows "\<exists>x. via_one buf e b v m =
      (case scan (main_step buf e) (Suc (length buf)) (b + length (via_head tr h port) + 1) x of Inl j \<Rightarrow> j | Inr _ \<Rightarrow> To_fault Out_of_bounds) \<and>
    vv_vb x = head_body b tr pr h port v \<and> vv_mem x = m \<and> head_over c (b + length (via_head tr h port)) x"
proof -
  let ?t = "b + 8 + length tr" let ?k = "?t + 1 + length h" let ?q = "b + length (via_head tr h port)"
  let ?scan = "scan (main_step buf e) (Suc (length buf))"
  from good have pr: "(tr, pr) \<in> set via_protos" "h \<noteq> []" "list_all via_plain_char h"
    and port: "\<And>ds. port = Some ds \<Longrightarrow> ds \<noteq> [] \<and> list_all is_digit_char ds" by (auto simp: good_head_def)
  have "stands buf b ((''SIP/2.0/'' @ tr @ '' '') @ h @ via_port_text port @ [c])" using st by (simp add: via_head_def)
  moreover have "b + length (''SIP/2.0/'' @ tr @ '' '') = ?t + 1" by simp
  ultimately have parts: "stands buf b (''SIP/2.0/'' @ tr @ '' '')" "stands buf (?t + 1) h" "stands buf ?k (via_port_text port @ [c])"
    by (metis stands_append)+
  have q: "?q = ?k + length (via_port_text port)" by (simp add: via_head_def)
  let ?x = "\<lparr>vv_state = F_HOST, vv_saved = 0, vv_param_start = NullP, vv_nest = 0,
      vv_vb = v\<lparr>vb_error := True, vb_name := span b (b + 3), vb_version := span (b + 4) (b + 7),
        vb_transport := span (b + 8) ?t, vb_proto := pr\<rparr>, vv_mem = m\<rparr>"
  have one: "via_one buf e b v m = (case ?scan (?t + 1) ?x of Inl j \<Rightarrow> j | Inr _ \<Rightarrow> To_fault Out_of_bounds)"
    using via_start_at [OF parts(1) pr(1), of e v m] e by (simp add: via_one_def via_head_def)
  let ?y = "(via_host_at (?t + 1) ?x)\<lparr>vv_state := P_HOST\<rparr>"
  have host: "?scan (?t + 1) ?x = ?scan ?k ?y"
    by (rule scan_host [OF parts(2) pr(2,3)]) simp
  have len: "?q < length buf" "buf ! ?q = c" using parts(3) by (simp_all add: q stands_append stands_Cons)
  have zy: "vv_state ?y = P_HOST" "str_s (vb_host (vv_vb ?y)) = Buf (?t + 1)" "vv_nest ?y = 0" by (simp_all add: via_host_at_def on_body_def)
  have "\<exists>z x. ?scan ?k ?y = ?scan ?q z \<and> main_step buf e ?q z = Inr (?q, x) \<and>
    vv_vb x = head_body b tr pr h port v \<and> vv_mem x = m \<and> head_over c ?q x"
  proof (cases port)
    case None
    with q have "?q = ?k" by simp
    from main_step_sep(1) [OF len c zy(3,1,2)] obtain x where x: "main_step buf e ?q ?y = Inr (?q, x)"
      "vv_vb x = (vv_vb ?y)\<lparr>vb_host := span (?t + 1) ?q\<rparr>" "vv_mem x = vv_mem ?y" "head_over c ?q x" by blast
    have "vv_vb x = head_body b tr pr h port v"
      unfolding x(2) \<open>?q = ?k\<close> by (simp add: None head_body_def Let_def via_host_at_def on_body_def add.assoc)
    moreover have "vv_mem x = m" using x(3) by (simp add: via_host_at_def on_body_def)
    ultimately show ?thesis using x(1,4) unfolding \<open>?q = ?k\<close> by blast
  next
    case (Some ds)
    let ?z = "(via_port_at (?k + 1) (on_body (\<lambda>b. b\<lparr>vb_host := span (?t + 1) ?k\<rparr>) ?y))\<lparr>vv_state := P_PORT\<rparr>"
    have "stands buf ?k (CHR '':'' # ds)" using parts(3) Some by (simp add: stands_append stands_Cons)
    with port [OF Some] have sc: "?scan ?k ?y = ?scan (?k + 1 + length ds) ?z" by (intro scan_port zy(1,2)) simp_all
    have kq: "?k + 1 + length ds = ?q" using q Some by simp
    have "vv_nest ?z = 0" "vv_state ?z = P_PORT" "str_s (vb_port_str (vv_vb ?z)) = Buf (?k + 1)" by (simp_all add: via_host_at_def via_port_at_def on_body_def)
    from main_step_sep(2) [OF len c this] obtain x where x: "main_step buf e ?q ?z = Inr (?q, x)"
      "vv_vb x = (vv_vb ?z)\<lparr>vb_port_str := span (?k + 1) ?q\<rparr>" "vv_mem x = vv_mem ?z" "head_over c ?q x" by blast
    have "vv_vb x = head_body b tr pr h port v"
      unfolding x(2) kq [symmetric] by (simp add: Some head_body_def Let_def via_host_at_def via_port_at_def on_body_def add.assoc)
    moreover have "vv_mem x = m" using x(3) by (simp add: via_host_at_def via_port_at_def on_body_def)
    ultimately show ?thesis using sc x(1,4) unfolding kq by blast
  qed
  then obtain z x where zx: "?scan ?k ?y = ?scan ?q z" "main_step buf e ?q z = Inr (?q, x)"
    "vv_vb x = head_body b tr pr h port v" "vv_mem x = m"
    "head_over c ?q x" by blast
  have "?scan ?q z = ?scan (?q + 1) x" using len(1) zx(2) by (simp add: scan_on)
  with zx one host show ?thesis by (intro exI [of _ x]) simp
qed

section \<open>The whole header\<close>

lemma scan_header_end:
  assumes "stands buf p [CHR 0x0A, c]" "c \<notin> {CHR '' '', CHR 0x09, CHR 0x00}" "vv_state x = F_CR"
  shows "\<exists>y. scan (main_step buf e) (Suc (length buf)) p x = Inl (To_endofheader (p + 1) y) \<and>
    vv_vb y = vv_vb x \<and> vv_mem y = vv_mem x \<and> vv_saved y = vv_saved x"
proof -
  let ?x = "x\<lparr>vv_state := F_CRLF\<rparr>"
  have st: "p < length buf" "buf ! p = CHR 0x0A" "p + 1 < length buf" "buf ! (p + 1) = c" using assms(1) by (simp_all add: stands_Cons)
  have lf: "main_step buf e p x = Inr (p, ?x)" using st assms(3) by (simp add: main_step_def main_lf_def via_on_def)
  have "\<exists>y. main_step buf e (p + 1) ?x = Inl (To_endofheader (p + 1) y) \<and> vv_vb y = vv_vb x \<and> vv_mem y = vv_mem x \<and> vv_saved y = vv_saved x"
    using st(3,4) assms(2)
    by (simp add: main_step_def main_lf_def main_cr_def main_colon_def main_semicolon_def main_comma_def main_open_def main_close_def
        main_open6_def main_close6_def main_other_def via_over_def Let_def)
  then show ?thesis using scan_on [where body = "main_step buf e", OF _ lf] scan_stop [where body = "main_step buf e"] st(1,3) by fastforce
qed

definition via_text :: "string \<Rightarrow> string \<Rightarrow> string option \<Rightarrow> (string \<times> string) list \<Rightarrow> string" where
  "via_text tr h port ps = via_head tr h port @ params_text ps @ [CHR 0x0D, CHR 0x0A]"

lemma head_lists [simp]:
  "vb_param_lst (head_body b tr pr h port v) = vb_param_lst v" "vb_last_param (head_body b tr pr h port v) = vb_last_param v"
  by (simp_all add: head_body_def Let_def)

lemma via_one_header:
  assumes st: "stands buf b (via_text tr h port ps @ [c])" and good: "good_head tr pr h port" "list_all good_param ps"
    and e: "b + length (via_text tr h port ps) \<le> e" and c: "c \<notin> {CHR '' '', CHR 0x09, CHR 0x00}"
    and m: "fresh_body v" "pkg_ok m" "pk_answers m = map Some as @ rest" "length as = length ps"
  shows "\<exists>y. via_one buf e b v m = To_endofheader (b + length (via_text tr h port ps)) y \<and> vv_saved y \<in> {L_PORT, L_PARAM} \<and>
    list_of y as \<and> pk_answers (vv_mem y) = rest \<and> set as \<inter> dom (pk_block m) = {} \<and>
    map (view (vv_mem y)) as = map Some (params_at (b + length (via_head tr h port) + 1) ps) \<and>
    (\<forall>d. d \<notin> set as \<longrightarrow> pk_block (vv_mem y) d = pk_block m d) \<and>
    unlisted (vv_vb y) = with_shortcuts ps as
      ((if ps = [] then id else params_begin (b + length (via_head tr h port) + 1)) (unlisted (head_body b tr pr h port v)))"
proof -
  let ?q = "b + length (via_head tr h port)" let ?scan = "scan (main_step buf e) (Suc (length buf))"
  have parts: "stands buf b (via_head tr h port)" "stands buf ?q (params_text ps @ [CHR 0x0D])"
    "stands buf (?q + length (params_text ps) + 1) [CHR 0x0A, c]"
    using st by (simp_all add: via_text_def stands_append stands_Cons add.assoc)
  have len: "b + length (via_text tr h port ps) = ?q + length (params_text ps) + 2" by (simp add: via_text_def)
  have qe: "?q < e" using e len by simp
  have lists: "list_of x []" if "vv_vb x = head_body b tr pr h port v" for x
    using m(1) that by (simp add: list_of_def fresh_body_def)
  show ?thesis
  proof (cases ps)
    case Nil
    with parts have "stands buf b (via_head tr h port @ [CHR 0x0D])" by (simp add: stands_append)
    from via_one_head [OF this good(1) qe, of v m] obtain x where x:
      "via_one buf e b v m = (case ?scan (?q + 1) x of Inl j \<Rightarrow> j | Inr _ \<Rightarrow> To_fault Out_of_bounds)"
      "vv_vb x = head_body b tr pr h port v" "vv_mem x = m" "vv_state x = F_CR" "vv_saved x \<in> {L_PORT, L_PARAM}"
      unfolding head_over_def by auto
    have "stands buf (?q + 1) [CHR 0x0A, c]" using parts(3) Nil by simp
    from scan_header_end [OF this c x(4)] obtain y where y: "?scan (?q + 1) x = Inl (To_endofheader (?q + 1 + 1) y)"
      "vv_vb y = vv_vb x" "vv_mem y = vv_mem x" "vv_saved y = vv_saved x" by blast
    have "via_one buf e b v m = To_endofheader (b + length (via_text tr h port ps)) y"
      using x(1) y(1) Nil len by simp
    moreover have "list_of y []" using lists [OF x(2)] y(2,3) by (simp add: list_of_def)
    ultimately show ?thesis using x(2,3,5) y(2-4) m(3,4) Nil by (intro exI [of _ y]) auto
  next
    case (Cons z ps')
    obtain t u where z: "z = (t, u)" by (cases z)
    with Cons parts have "stands buf b (via_head tr h port @ [CHR '';''])" by (simp add: stands_append stands_Cons)
    from via_one_head [OF this good(1) qe, of v m] obtain x where x:
      "via_one buf e b v m = (case ?scan (?q + 1) x of Inl j \<Rightarrow> j | Inr _ \<Rightarrow> To_fault Out_of_bounds)"
      "vv_vb x = head_body b tr pr h port v" "vv_mem x = m" "vv_state x = F_PARAM" "vv_param_start x = Buf (?q + 1)"
      unfolding head_over_def by auto
    have text_at: "stands buf (?q + 1) (t @ ''='' @ u @ params_text ps' @ [CHR 0x0D])"
      using parts(2) Cons z by (simp add: stands_Cons)
    have end_at: "?q + 1 + length (t @ ''='' @ u @ params_text ps') < e" using e len Cons z by simp
    have "\<exists>y. ?scan (?q + 1) x = ?scan (?q + 1 + length (t @ ''='' @ u @ params_text ps') + 1) y \<and>
      vv_state y = F_CR \<and> vv_saved y = L_PARAM \<and> list_of y ([] @ as) \<and> pkg_ok (vv_mem y) \<and> pk_answers (vv_mem y) = rest \<and>
      set as \<inter> dom (pk_block (vv_mem x)) = {} \<and> dom (pk_block (vv_mem y)) = set as \<union> dom (pk_block (vv_mem x)) \<and>
      map (view (vv_mem y)) as = map Some (params_at (?q + 1) ((t, u) # ps')) \<and>
      (\<forall>d. d \<notin> set as \<longrightarrow> view (vv_mem y) d = view (vv_mem x) d) \<and>
      (\<forall>d. d \<notin> set [] \<longrightarrow> d \<notin> set as \<longrightarrow> pk_block (vv_mem y) d = pk_block (vv_mem x) d) \<and>
      unlisted (vv_vb y) = with_shortcuts ((t, u) # ps') as (params_begin (?q + 1) (unlisted (vv_vb x)))"
      by (rule scan_via_params [OF text_at end_at _ x(4,5) lists [OF x(2)]])
        (use good(2) m Cons z x(3) in simp_all)
    then obtain y where y: "?scan (?q + 1) x = ?scan (?q + 1 + length (t @ ''='' @ u @ params_text ps') + 1) y"
      "vv_state y = F_CR" "vv_saved y = L_PARAM" "list_of y as" "pk_answers (vv_mem y) = rest"
      "set as \<inter> dom (pk_block m) = {}" "map (view (vv_mem y)) as = map Some (params_at (?q + 1) ((t, u) # ps'))"
      "\<forall>d. d \<notin> set as \<longrightarrow> pk_block (vv_mem y) d = pk_block m d"
      "unlisted (vv_vb y) = with_shortcuts ((t, u) # ps') as (params_begin (?q + 1) (unlisted (head_body b tr pr h port v)))"
      using x(2,3) by auto
    have pos: "?q + 1 + length (t @ ''='' @ u @ params_text ps') + 1 = ?q + length (params_text ps) + 1" by (simp add: Cons z)
    from scan_header_end [OF parts(3) c y(2)] obtain w where w:
      "?scan (?q + length (params_text ps) + 1) y = Inl (To_endofheader (?q + length (params_text ps) + 1 + 1) w)"
      "vv_vb w = vv_vb y" "vv_mem w = vv_mem y" "vv_saved w = vv_saved y" by blast
    have "via_one buf e b v m = To_endofheader (b + length (via_text tr h port ps)) w"
      using x(1) y(1) w(1) len unfolding pos by simp
    moreover have "list_of w as" using y(4) w(2,3) by (simp add: list_of_def)
    ultimately show ?thesis using y(3,5-9) w(2-4) Cons z by (intro exI [of _ w]) simp
  qed
qed

text \<open>The parameter, read in the text.\<close>

definition param_is :: "string \<Rightarrow> string \<times> string \<Rightarrow> via_param \<Rightarrow> bool" where
  "param_is buf = (\<lambda>(t, v) p. vp_type p = via_param_type t \<and> str_bytes buf (vp_name p) = t \<and> str_bytes buf (vp_value p) = v)"

lemma params_at_text: "stands buf q (params_text ps) \<Longrightarrow> list_all2 (\<lambda>p tv. param_is buf tv p) (params_at (q + 1) ps) ps"
proof (induction ps arbitrary: q)
  case (Cons z ps)
  obtain t v where z: "z = (t, v)" by (cases z)
  let ?r = "q + 1 + length (t @ ''='' @ v)"
  have st: "stands buf (q + 1) t" "stands buf (q + 1 + length t + 1) v" "stands buf ?r (params_text ps)"
    using Cons.prems by (simp_all add: z stands_Cons stands_append add.assoc)
  have "param_is buf (t, v) (param_at (q + 1) (t, v))"
    using stands_span [OF st(1)] stands_span [OF st(2)] by (simp add: param_is_def param_at_def add.assoc)
  with Cons.IH [OF st(3)] show ?case by (simp add: z add.assoc)
qed simp

lemma params_in_memory:
  assumes "map (view m) as = map Some pts" "list_all2 (\<lambda>p tv. param_is buf tv p) pts ps"
  shows "list_all2 (\<lambda>a tv. \<exists>p. pk_block m a = Some (Param_block p) \<and> param_is buf tv p) as ps"
  using assms(2,1)
proof (induction pts ps arbitrary: as rule: list_all2_induct)
  case (Cons p pts tv ps)
  then obtain a as' where as: "as = a # as'" "view m a = Some p" "map (view m) as' = map Some pts" by (cases as) auto
  from as(2) obtain u where u: "pk_block m a = Some (Param_block u)" "p = u\<lparr>vp_next := None\<rparr>" by (auto simp: view_def)
  have "param_is buf tv u" using Cons.hyps(1) u(2) by (simp add: param_is_def split: prod.splits)
  with u(1) Cons.IH [OF as(3)] as(1) show ?case by auto
qed simp

text \<open>The last parameter of a type.\<close>

definition last_param :: "nat \<Rightarrow> (string \<times> string) list \<Rightarrow> nat list \<Rightarrow> nat option" where
  "last_param ty ps as = map_of (rev (zip (map (\<lambda>(t, v). via_param_type t) ps) as)) ty"

lemma shortcuts_sel:
  "length as = length ps \<Longrightarrow> list_all good_param ps \<Longrightarrow>
   vb_name (with_shortcuts ps as b) = vb_name b \<and> vb_version (with_shortcuts ps as b) = vb_version b \<and>
   vb_transport (with_shortcuts ps as b) = vb_transport b \<and> vb_proto (with_shortcuts ps as b) = vb_proto b \<and>
   vb_host (with_shortcuts ps as b) = vb_host b \<and> vb_port_str (with_shortcuts ps as b) = vb_port_str b \<and>
   vb_port (with_shortcuts ps as b) = vb_port b \<and> vb_params (with_shortcuts ps as b) = vb_params b \<and>
   vb_next (with_shortcuts ps as b) = vb_next b \<and> vb_alias (with_shortcuts ps as b) = vb_alias b"
  by (induction ps as b rule: with_shortcuts.induct) (auto simp: param_shortcut_def good_param_def)

lemma shortcuts_last:
  "length as = length ps \<Longrightarrow>
   vb_branch (with_shortcuts ps as b) = (case last_param PARAM_BRANCH ps as of None \<Rightarrow> vb_branch b | x \<Rightarrow> x) \<and>
   vb_received (with_shortcuts ps as b) = (case last_param PARAM_RECEIVED ps as of None \<Rightarrow> vb_received b | x \<Rightarrow> x) \<and>
   vb_rport (with_shortcuts ps as b) = (case last_param PARAM_RPORT ps as of None \<Rightarrow> vb_rport b | x \<Rightarrow> x) \<and>
   vb_i (with_shortcuts ps as b) = (case last_param PARAM_I ps as of None \<Rightarrow> vb_i b | x \<Rightarrow> x) \<and>
   vb_maddr (with_shortcuts ps as b) = (case last_param PARAM_MADDR ps as of None \<Rightarrow> vb_maddr b | x \<Rightarrow> x)"
proof (induction ps as b rule: with_shortcuts.induct)
  case (1 t v ps a as b)
  then show ?case by (auto simp: last_param_def param_shortcut_def map_add_def split: option.splits)
qed (auto simp: last_param_def)

section \<open>The round trip\<close>

text \<open>The body \<open>w\<close> is the one of the printed header, its parameters the blocks \<open>as\<close> of the memory \<open>blk\<close>.\<close>

definition via_parsed :: "string \<Rightarrow> string \<Rightarrow> u16 \<Rightarrow> string \<Rightarrow> string option \<Rightarrow> (string \<times> string) list \<Rightarrow> nat list \<Rightarrow>
    (nat \<Rightarrow> via_block option) \<Rightarrow> via_body \<Rightarrow> bool" where
  "via_parsed buf tr pr h port ps as blk w \<longleftrightarrow>
     \<not> vb_error w \<and> str_bytes buf (vb_name w) = ''SIP'' \<and> str_bytes buf (vb_version w) = ''2.0'' \<and>
     str_bytes buf (vb_transport w) = tr \<and> vb_proto w = pr \<and> str_bytes buf (vb_host w) = h \<and>
     (case port of None \<Rightarrow> vb_port_str w = null_str \<and> vb_port w = 0
      | Some ds \<Rightarrow> str_bytes buf (vb_port_str w) = ds \<and> vb_port w = of_nat (dec_value ds)) \<and>
     vb_bsize w = of_nat (length (via_text tr h port ps)) \<and> vb_next w = None \<and>
     vb_branch w = last_param PARAM_BRANCH ps as \<and> vb_received w = last_param PARAM_RECEIVED ps as \<and>
     vb_rport w = last_param PARAM_RPORT ps as \<and> vb_i w = last_param PARAM_I ps as \<and>
     vb_maddr w = last_param PARAM_MADDR ps as \<and> vb_alias w = None \<and>
     param_list blk (vb_param_lst w) as \<and>
     list_all2 (\<lambda>a tv. \<exists>p. blk a = Some (Param_block p) \<and> param_is buf tv p) as ps"

lemma via_finish_header:
  assumes st: "stands buf b (via_head tr h port)" and good: "good_head tr pr h port" 
    and v: "vb_port_str v = (case port of None \<Rightarrow> null_str
      | Some ds \<Rightarrow> span (b + 8 + length tr + 1 + length h + 1) (b + 8 + length tr + 1 + length h + 1 + length ds))"
  shows "via_finish buf b q v = Inr (Some (v\<lparr>vb_error := False, vb_bsize := word_of_int (int q - int b),
    vb_port := (case port of None \<Rightarrow> vb_port v | Some ds \<Rightarrow> of_nat (dec_value ds))\<rparr>))"
proof (cases port)
  case None
  with v show ?thesis by (simp add: via_finish_def null_str_def Let_def)
next
  case (Some ds)
  let ?k = "b + 8 + length tr + 1 + length h"
  have ds: "list_all is_digit_char ds" "length ds \<le> 5" using good Some by (auto simp: good_head_def)
  have "stands buf b ((''SIP/2.0/'' @ tr @ '' '' @ h @ '':'') @ ds)" using st Some by (simp add: via_head_def)
  moreover have "b + length (''SIP/2.0/'' @ tr @ '' '' @ h @ '':'') = ?k + 1" by simp
  ultimately have "stands buf (?k + 1) ds" by (metis stands_append)
  then have "str2s buf (span (?k + 1) (?k + 1 + length ds)) = Inr (Some (of_nat (dec_value ds)))"
    using str2s_digits_dec [OF ds] by (simp add: str2s_def span_def stands_def)
  moreover have "vb_port_str v = span (?k + 1) (?k + 1 + length ds)" using v by (simp only: Some option.case)
  ultimately show ?thesis using Some by (simp add: via_finish_def Let_def)
qed

lemma head_strings:
  assumes "stands buf b (via_head tr h port)"
  shows "str_bytes buf (span b (b + 3)) = ''SIP''" "str_bytes buf (span (b + 4) (b + 7)) = ''2.0''"
    "str_bytes buf (span (b + 8) (b + 8 + length tr)) = tr"
    "str_bytes buf (span (b + 8 + length tr + 1) (b + 8 + length tr + 1 + length h)) = h"
    "port = Some ds \<Longrightarrow> str_bytes buf (span (b + 8 + length tr + 1 + length h + 1) (b + 8 + length tr + 1 + length h + 1 + length ds)) = ds"
proof -
  have at: "stands buf (b + length x) y" if "via_head tr h port = x @ y @ z" for x y z
    using assms that by (simp add: stands_append)
  show "str_bytes buf (span b (b + 3)) = ''SIP''" using at [of "[]" "''SIP''"] stands_span [of buf b "''SIP''"] by (simp add: via_head_def numeral_eq_Suc)
  show "str_bytes buf (span (b + 4) (b + 7)) = ''2.0''"
    using at [of "''SIP/''" "''2.0''"] stands_span [of buf "b + 4" "''2.0''"] by (simp add: via_head_def numeral_eq_Suc)
  show "str_bytes buf (span (b + 8) (b + 8 + length tr)) = tr"
    using at [of "''SIP/2.0/''" tr] stands_span [of buf "b + 8" tr] by (simp add: via_head_def numeral_eq_Suc)
  show "str_bytes buf (span (b + 8 + length tr + 1) (b + 8 + length tr + 1 + length h)) = h"
    using at [of "''SIP/2.0/'' @ tr @ '' ''" h] stands_span [of buf "b + 8 + length tr + 1" h] by (simp add: via_head_def add.assoc numeral_eq_Suc)
  show "str_bytes buf (span (b + 8 + length tr + 1 + length h + 1) (b + 8 + length tr + 1 + length h + 1 + length ds)) = ds" if "port = Some ds"
    using at [of "''SIP/2.0/'' @ tr @ '' '' @ h @ '':''" ds "[]"] stands_span [of buf "b + 8 + length tr + 1 + length h + 1" ds] that
    by (simp add: via_head_def add.assoc numeral_eq_Suc)
qed

lemma header_fields:
  assumes "unlisted v = with_shortcuts ps as ((if ps = [] then id else params_begin s) (unlisted (head_body b tr pr h port zero_via)))"
    and "length as = length ps" "list_all good_param ps"
  shows "vb_name v = span b (b + 3)" "vb_version v = span (b + 4) (b + 7)" "vb_transport v = span (b + 8) (b + 8 + length tr)"
    "vb_proto v = pr" "vb_host v = span (b + 8 + length tr + 1) (b + 8 + length tr + 1 + length h)"
    "vb_port_str v = (case port of None \<Rightarrow> null_str
      | Some ds \<Rightarrow> span (b + 8 + length tr + 1 + length h + 1) (b + 8 + length tr + 1 + length h + 1 + length ds))"
    "vb_port v = 0" "str_len (vb_params v) = 0" "vb_next v = None" "vb_alias v = None"
    "vb_branch v = last_param PARAM_BRANCH ps as" "vb_received v = last_param PARAM_RECEIVED ps as"
    "vb_rport v = last_param PARAM_RPORT ps as" "vb_i v = last_param PARAM_I ps as" "vb_maddr v = last_param PARAM_MADDR ps as"
proof -
  let ?h = "head_body b tr pr h port zero_via" let ?g = "(if ps = [] then id else params_begin s) (unlisted ?h)"
  note field = arg_cong [OF assms(1)]
  have sel: "vb_name v = vb_name ?g" "vb_version v = vb_version ?g" "vb_transport v = vb_transport ?g"
      "vb_proto v = vb_proto ?g" "vb_host v = vb_host ?g" "vb_port_str v = vb_port_str ?g"
      "vb_port v = vb_port ?g" "vb_params v = vb_params ?g" "vb_next v = vb_next ?g" "vb_alias v = vb_alias ?g"
    using shortcuts_sel [OF assms(2,3), of ?g] field [of vb_name] field [of vb_version] field [of vb_transport] field [of vb_proto]
      field [of vb_host] field [of vb_port_str] field [of vb_port] field [of vb_params] field [of vb_next] field [of vb_alias]
    by (simp_all add: unlisted_def)
  have none: "vb_branch ?g = None" "vb_received ?g = None" "vb_rport ?g = None" "vb_i ?g = None" "vb_maddr ?g = None"
    by (simp_all add: params_begin_def unlisted_def head_body_def zero_via_def Let_def)
  show "vb_branch v = last_param PARAM_BRANCH ps as" "vb_received v = last_param PARAM_RECEIVED ps as"
      "vb_rport v = last_param PARAM_RPORT ps as" "vb_i v = last_param PARAM_I ps as" "vb_maddr v = last_param PARAM_MADDR ps as"
    using shortcuts_last [OF assms(2), of ?g] field [of vb_branch] field [of vb_received] field [of vb_rport] field [of vb_i] field [of vb_maddr]
    unfolding none by (simp_all add: unlisted_def split: option.splits)
  have g: "vb_name ?g = vb_name ?h" "vb_version ?g = vb_version ?h" "vb_transport ?g = vb_transport ?h" "vb_proto ?g = vb_proto ?h"
      "vb_host ?g = vb_host ?h" "vb_port_str ?g = vb_port_str ?h" "vb_port ?g = 0" "str_len (vb_params ?g) = 0" "vb_next ?g = None" "vb_alias ?g = None"
    by (simp_all add: params_begin_def unlisted_def head_body_def zero_via_def null_str_def Let_def)
  have hd: "vb_name ?h = span b (b + 3)" "vb_version ?h = span (b + 4) (b + 7)" "vb_transport ?h = span (b + 8) (b + 8 + length tr)"
      "vb_proto ?h = pr" "vb_host ?h = span (b + 8 + length tr + 1) (b + 8 + length tr + 1 + length h)"
      "vb_port_str ?h = (case port of None \<Rightarrow> null_str
      | Some ds \<Rightarrow> span (b + 8 + length tr + 1 + length h + 1) (b + 8 + length tr + 1 + length h + 1 + length ds))"
    by (simp_all only: head_body_def Let_def via_body.simps zero_via_def)
  show "vb_name v = span b (b + 3)" "vb_version v = span (b + 4) (b + 7)" "vb_transport v = span (b + 8) (b + 8 + length tr)"
    "vb_proto v = pr" "vb_host v = span (b + 8 + length tr + 1) (b + 8 + length tr + 1 + length h)"
    "vb_port_str v = (case port of None \<Rightarrow> null_str
      | Some ds \<Rightarrow> span (b + 8 + length tr + 1 + length h + 1) (b + 8 + length tr + 1 + length h + 1 + length ds))"
    "vb_port v = 0" "str_len (vb_params v) = 0" "vb_next v = None" "vb_alias v = None"
    by (simp_all only: sel g hd)
qed

text \<open>
  C13: a header printed from its parts - a transport, a host, a port or none, parameters with
  values, none of them named like \<open>hidden\<close> or \<open>alias\<close> - is parsed back to them. The parameters are the
  blocks the allocator gave, in the order of the text; the shortcuts lead to the last parameter
  of each type; nothing else of the memory changes, and the parser returns the place behind the
  line. Only \<open>params.len\<close> is never set on this way.
\<close>

theorem parse_via_header:
  assumes "stands buf b (via_text tr h port ps @ [c])" "good_head tr pr h port" "list_all good_param ps"
    and "b + length (via_text tr h port ps) \<le> e" "c \<notin> {CHR '' '', CHR 0x09, CHR 0x00}"
    and "pkg_ok m" "pk_block m f = Some (Body_block zero_via)" "pk_answers m = map Some as @ rest" "length as = length ps"
  shows "\<exists>w m'. parse_via buf b e f m = Inr (b + length (via_text tr h port ps), m') \<and>
    pk_block m' f = Some (Body_block w) \<and> via_parsed buf tr pr h port ps as (pk_block m') w \<and> str_len (vb_params w) = 0 \<and>
    (\<forall>d. d \<notin> insert f (set as) \<longrightarrow> pk_block m' d = pk_block m d) \<and> pk_answers m' = rest"
proof -
  let ?q = "b + length (via_text tr h port ps)" let ?l = "b + length (via_head tr h port)"
  let ?h = "head_body b tr pr h port zero_via"
  let ?g = "(if ps = [] then id else params_begin (?l + 1)) (unlisted ?h)"
  have head: "stands buf b (via_head tr h port)" and pars: "stands buf ?l (params_text ps)"
    using assms(1) by (simp_all add: via_text_def stands_append)
  from via_one_header [OF assms(1-5) fresh_zero assms(6,8,9)] obtain y where y:
    "via_one buf e b zero_via m = To_endofheader ?q y" "vv_saved y \<in> {L_PORT, L_PARAM}" "list_of y as" "pk_answers (vv_mem y) = rest"
    "set as \<inter> dom (pk_block m) = {}" "map (view (vv_mem y)) as = map Some (params_at (?l + 1) ps)"
    "\<forall>d. d \<notin> set as \<longrightarrow> pk_block (vv_mem y) d = pk_block m d" "unlisted (vv_vb y) = with_shortcuts ps as ?g"
    by blast
  have "f \<in> dom (pk_block m)" using assms(7) by blast
  with y(5) have "f \<notin> set as" by blast
  with y(7) assms(7) have f: "f \<notin> set as" "pk_block (vv_mem y) f = Some (Body_block zero_via)" by simp_all
  let ?w = "(vv_vb y)\<lparr>vb_error := False, vb_bsize := word_of_int (int ?q - int b),
    vb_port := (case port of None \<Rightarrow> vb_port (vv_vb y) | Some ds \<Rightarrow> of_nat (dec_value ds))\<rparr>"
  let ?m = "(vv_mem y)\<lparr>pk_block := (pk_block (vv_mem y))(f \<mapsto> Body_block ?w)\<rparr>"
  note fields = header_fields [OF y(8) assms(9,3)]
  note finish = via_finish_header [OF head assms(2) fields(6), of ?q]
  have "via_endofheader buf f f b ?q y = Inr (?q, ?m)"
    using finish f(2) y(2) by (auto simp: via_endofheader_def via_endofpacket_def)
  then have res: "parse_via buf b e f m = Inr (?q, ?m)"
    using y(1) assms(7) by (simp add: parse_via_def via_bodies.simps get_body_def)
  have "param_list (pk_block ?m) h' as = param_list (pk_block (vv_mem y)) h' as" for h'
    by (rule param_list_cong) (use f(1) in auto)
  moreover have "vb_param_lst ?w = vb_param_lst (vv_vb y)" by simp
  ultimately have list: "param_list (pk_block ?m) (vb_param_lst ?w) as" using y(3) by (simp only: list_of_def)
  have "list_all2 (\<lambda>a tv. \<exists>p. pk_block (vv_mem y) a = Some (Param_block p) \<and> param_is buf tv p) as ps"
    by (rule params_in_memory [OF y(6) params_at_text [OF pars]])
  then have params: "list_all2 (\<lambda>a tv. \<exists>p. pk_block ?m a = Some (Param_block p) \<and> param_is buf tv p) as ps"
    by (rule list.rel_mono_strong [OF _ ]) (use f(1) in auto)
  have strings: "str_bytes buf (vb_name (vv_vb y)) = ''SIP''" "str_bytes buf (vb_version (vv_vb y)) = ''2.0''"
      "str_bytes buf (vb_transport (vv_vb y)) = tr" "str_bytes buf (vb_host (vv_vb y)) = h"
    by (simp_all only: fields head_strings [OF head])
  have port_ok: "case port of None \<Rightarrow> vb_port_str ?w = null_str \<and> vb_port ?w = 0
      | Some ds \<Rightarrow> str_bytes buf (vb_port_str ?w) = ds \<and> vb_port ?w = of_nat (dec_value ds)"
  proof (cases port)
    case (Some ds)
    then have "str_bytes buf (vb_port_str (vv_vb y)) = ds" by (simp only: fields option.case head_strings(5) [OF head Some])
    with Some show ?thesis by simp
  qed (use fields(6,7) in simp)
  have "via_parsed buf tr pr h port ps as (pk_block ?m) ?w"
    unfolding via_parsed_def by (intro conjI; (rule port_ok list params | simp add: strings fields(4,9-15)))
  moreover have "str_len (vb_params ?w) = 0" by (simp add: fields(8))
  moreover have "\<forall>d. d \<notin> insert f (set as) \<longrightarrow> pk_block ?m d = pk_block m d" using y(7) by auto
  ultimately show ?thesis using res y(4) by (intro exI [of _ ?w] exI [of _ ?m]) simp
qed

theorem parse_via_header_witness:
  "\<exists>w m'. parse_via (''SIP/2.0/UDP h:5060;branch=z;ttl=1'' @ [CHR 0x0D, CHR 0x0A, CHR ''X'', CHR 0x00]) 0 36 7
      \<lparr>pk_block = [7 \<mapsto> Body_block zero_via], pk_answers = [Some 1, Some 2]\<rparr> = Inr (35, m') \<and>
    pk_block m' 7 = Some (Body_block w) \<and> vb_port w = 5060 \<and> vb_branch w = Some 1 \<and> vb_maddr w = None"
proof -
  let ?buf = "''SIP/2.0/UDP h:5060;branch=z;ttl=1'' @ [CHR 0x0D, CHR 0x0A, CHR ''X'', CHR 0x00]"
  let ?ps = "[(''branch'', ''z''), (''ttl'', ''1'')]"
  let ?m = "\<lparr>pk_block = [7 \<mapsto> Body_block zero_via], pk_answers = [Some 1, Some 2]\<rparr>"
  note types = via_param_type_def rfc_names_def collided_names_def lower_char_def
  have "stands ?buf 0 (via_text ''UDP'' ''h'' (Some ''5060'') ?ps @ ''X'')" by (simp add: stands_def via_text_def via_head_def)
  moreover have "good_head ''UDP'' PROTO_UDP ''h'' (Some ''5060'')"
    by (simp add: good_head_def via_protos_def via_plain_char_def via_value_char_def via_name_char_def is_digit_char_def)
  moreover have "list_all good_param ?ps"
    by (simp add: good_param_def via_plain_char_def via_value_char_def via_name_char_def types)
  moreover have "pkg_ok ?m" by (simp add: pkg_ok_def fresh_answers_def)
  moreover have len: "length (via_text ''UDP'' ''h'' (Some ''5060'') ?ps) = 35" by (simp add: via_text_def via_head_def)
  ultimately obtain w m' where r: "parse_via ?buf 0 36 7 ?m = Inr (0 + 35, m')" "pk_block m' 7 = Some (Body_block w)"
      "via_parsed ?buf ''UDP'' PROTO_UDP ''h'' (Some ''5060'') ?ps [1, 2] (pk_block m') w"
    using parse_via_header [of ?buf 0 "''UDP''" "''h''" "Some ''5060''" ?ps "CHR ''X''" PROTO_UDP 36 ?m 7 "[1, 2]" "[]"]
    unfolding len by fastforce
  moreover from r(3) have "vb_port w = 5060" "vb_branch w = Some 1" "vb_maddr w = None"
    by (simp_all add: via_parsed_def dec_value_def last_param_def types)
  ultimately show ?thesis by simp
qed

section \<open>An empty comment\<close>

text \<open>
  C35: the exception that \<open>parse_via_safe\<close> makes is real. Behind any host, with a port or without, the
  empty comment \<open>()\<close> is taken by a subtraction of the null pointer: \<open>comment.s\<close> is set by the first
  character of a comment only.
\<close>

theorem parse_via_empty_comment:
  assumes "stands buf b (via_head tr h port @ ''()'')" "good_head tr pr h port" "b + length (via_head tr h port) < e"
    and "pk_block m f = Some (Body_block zero_via)"
  shows "parse_via buf b e f m = Inl Null_minus"
proof -
  let ?q = "b + length (via_head tr h port)" let ?scan = "scan (main_step buf e) (Suc (length buf))"
  have st: "stands buf b (via_head tr h port @ [CHR ''(''])" "?q + 1 < length buf" "buf ! (?q + 1) = CHR '')''"
    using assms(1) by (simp_all add: stands_append stands_Cons)
  from via_one_head [OF st(1) assms(2,3), of zero_via m] obtain x where x:
    "via_one buf e b zero_via m = (case ?scan (?q + 1) x of Inl j \<Rightarrow> j | Inr _ \<Rightarrow> To_fault Out_of_bounds)"
    "vv_vb x = head_body b tr pr h port zero_via" "vv_state x = F_COMMENT" "vv_nest x = 1"
    unfolding head_over_def by auto
  have "str_s (vb_comment (vv_vb x)) = NullP" by (simp add: x(2) head_body_def zero_via_def Let_def null_str_def)
  then have "main_step buf e (?q + 1) x = Inl (To_fault Null_minus)"
    using st(2,3) x(3,4) by (simp add: main_step_def main_close_def via_then_def via_comment_end_def end_str_def Let_def)
  then have "?scan (?q + 1) x = Inl (To_fault Null_minus)" using st(2) by (simp add: scan_stop)
  with x(1) assms(4) show ?thesis by (simp add: parse_via_def via_bodies.simps get_body_def)
qed

theorem parse_via_empty_comment_witness:
  "parse_via (''SIP/2.0/TCP h()'' @ [CHR 0x00]) 0 15 7 \<lparr>pk_block = [7 \<mapsto> Body_block zero_via], pk_answers = []\<rparr> = Inl Null_minus"
  using parse_via_empty_comment [of "''SIP/2.0/TCP h()'' @ [CHR 0x00]" 0 "''TCP''" "''h''" None PROTO_TCP 15
      "\<lparr>pk_block = [7 \<mapsto> Body_block zero_via], pk_answers = []\<rparr>" 7]
  by (simp add: stands_def via_head_def good_head_def via_protos_def via_plain_char_def via_value_char_def via_name_char_def)

end
