(* ===== verification/Spec2Isabelle.thy ===== *)
theory Spec2Isabelle
  imports Avl_Ops Uri_Params Dispatcher_Threads Timer Tcp_Clients Q_Props To_Props Hname2_Props First_Line_Props
    Via_Header
begin

text \<open>
  Verification library for opensips-ng, the SIP server under \<open>src/src/core\<close> (file names below are
  relative to it).

  The program. A reactor thread waits for sockets and a timer thread for time to pass; both hand
  tasks to a dispatcher, a priority queue from which worker threads take them. Workers read SIP
  messages from UDP sockets or from TCP connections, which live in a reference-counted table,
  and parse them: header names, headers like To and From, and the URIs in them. Everything
  is allocated in one arena of shared memory by an allocator of the server's own; ordered maps
  hold contexts and other keyed data.

  What is modelled, and where.

  \<^item> \<open>map.c\<close>: \<open>Avl_Map\<close> (tree, insertion, removal), \<open>Avl_Ops\<close> (iterators, traversal, runs). A node
    is a constructor with its stored balance; the parent pointer is the path of a zipper; the
    address of a value cell is the key of its node. Lemmas: insertion and removal keep order,
    balance factors and heights; the map refines a finite map (locale \<open>dictionary\<close>); iteration
    is in ascending order; the height is logarithmic.
  \<^item> \<open>mem/q_malloc.c\<close> in its default build: \<open>Q_Malloc\<close> (headers, end records, ring lists and all
    operations, addresses as numbers), \<open>Q_Rings\<close> (doubly linked rings and tilings), \<open>Q_Heap\<close> (the
    invariant), \<open>Q_Ops\<close>, \<open>Q_Alloc\<close>, \<open>Q_Safe\<close>, \<open>Q_Requests\<close>, \<open>Q_Realloc\<close> (what each operation does to
    it), \<open>Q_Props\<close> (the allocator contract, best fit, reallocation, bad pointers). Sums of sizes
    are taken modulo \<open>2 ^ 64\<close>; the arena is assumed to end below that.
  \<^item> \<open>dispatcher/dispatcher.c\<close>: \<open>Dispatcher\<close> (the heap array, sequentially), \<open>Dispatcher_Threads\<close>
    (threads interleaved at the semaphore and the locked sections, as an inductive step relation).
  \<^item> \<open>timer.c\<close>: \<open>Timer\<close>, the two task lists, the tickers and the loops of the timer thread, over the
    dispatcher. Ticks are \<open>u64\<close>.
  \<^item> \<open>net/tcp/conns.c\<close>: \<open>Tcp_Conns\<close> (the connection store, the two hash tables, reference counts,
    search, creation, timer routine, state machine), \<open>Tcp_Tables\<close> (linked buckets as lists),
    \<open>Tcp_Safe\<close>, \<open>Tcp_Props\<close>, \<open>Tcp_Clients\<close> (runs of clients that keep the reference protocol, and
    what happens to those that do not). Pointers are keys of a store; freeing removes the key.
  \<^item> \<open>parser/parse_uri.c\<close>: \<open>Parse_Uri\<close> (the state machine and the cached URIs of a message),
    \<open>Parse_Uri_Safe\<close> (memory safety), \<open>Uri_Props\<close>, \<open>Uri_Params\<close> (what is parsed).
  \<^item> \<open>parser/parse_to.c\<close>: \<open>Parse_To\<close> (both state machines, the parameter list on the heap),
    \<open>To_Safe\<close>, \<open>To_Safe2\<close> (memory safety), \<open>To_Params\<close>, \<open>To_Props\<close> (round trip and errors).
  \<^item> \<open>parser/parse_hname2.c\<close>, \<open>keys.h\<close>, \<open>case_*.h\<close>: \<open>Hname2\<close> (the recogniser, macro by macro), \<open>Hname2_Keys\<close>
    (four-byte comparisons, what each macro accepts), \<open>Hname2_Props\<close> (equivalence with a table).
  \<^item> \<open>parser/parse_fline.c\<close>, \<open>parse_methods.c\<close>, \<open>parser_f.h\<close>, \<open>trim.h\<close>: \<open>First_Line\<close> (request and status
    lines, methods, the scanners they use), \<open>First_Line_Props\<close> (reads inside the text, round trips,
    methods as a table). The older \<open>parse_fline\<close>, compiled out in the source, is left out.
  \<^item> \<open>parser/parse_via.c\<close>: \<open>Via_Param\<close> (\<open>parse_via_param\<close>; states are the numbers of the code, because
    two of its enumerations overlap), \<open>Parse_Via\<close> (the parser of the header and the lists it builds),
    \<open>Via_Names\<close> (the letters of a name as a table), \<open>Via_Props\<close> (what a parameter is parsed to),
    \<open>Via_Lists\<close>, \<open>Via_Safe\<close>, \<open>Via_Loop\<close>, \<open>Via_Memory\<close>, \<open>Via_Chain\<close> (memory safety: the loops over a
    parameter, the main loop, its memory, the chain of bodies and its freeing), \<open>Via_Header\<close> (a printed
    header parsed back).

  Shared by them. \<open>Core_Prelude\<close>: machine integers, faults, counted strings. \<open>Interfaces\<close>: the
  contracts \<open>dictionary\<close>, \<open>scanner\<close>, \<open>task_queue\<close> and \<open>allocator\<close> as locales, each interpreted on the
  model of the component that provides it. \<open>Pkg_Mem\<close>: the package memory as the parsers use it,
  blocks by address and a list of the answers the allocator will give; a theorem that quantifies
  over that list covers every allocator that keeps the contract of \<open>mem/mem.h\<close>. \<open>Read_Buffer\<close>: reads
  of single bytes of a text, out of bounds a fault. \<open>Scan\<close>: the loop
  over a buffer that the header parsers share, with the locale \<open>scanning\<close> for its invariants.

  How the code appears. A C function is a function of the same name where HOL permits it. A
  pointer into a message is an offset into its text, \<open>str\<close> a pointer and a length (\<open>int\<close>, because
  the code subtracts pointers). What C leaves undefined or the program does not survive is a
  \<open>fault\<close>: null and freed pointers, accesses outside an array, failed assertions, \<open>abort\<close>.
  \<open>goto\<close> targets are constructors of a result type. Loops that need not end are functions into an
  option, with theorems that say when they end; no fuel is used. \<open>char\<close> is signed where the code
  does arithmetic with it. Logging is left out.

  What the theorems show is stated in front of each; together: the components keep their
  invariants and run without faults on all inputs in their contract; the allocator, the map, the
  dispatcher and the connection table do what their callers rely on; the parsers stay inside their
  buffers, and what they return is the text they were given. The theorems of the kind ``error''
  show where the code leaves its contract.

  Not modelled, and why. The reactor back ends, threads, locks, sockets, logging and start-up code
  are wrappers of system calls. The database and management modules are glue to client libraries.
  \<open>f_malloc.c\<close> and \<open>vq_malloc.c\<close> are build alternatives of \<open>q_malloc.c\<close>. \<open>msg_parser.c\<close>, which calls the
  header parsers in turn, and the parsers of the remaining headers are outside of what is modelled.
\<close>

end
